(* ===== verification/Prelude.thy ===== *)
theory Prelude
  imports Main "HOL-Library.Word"
begin

text \<open>
  Prelude of the TTOS development: the machine types of the i386 target, the result type of
  kernel code that may panic, little-endian decoding of packed structures, bounded byte
  memory, and the word and list lemmas that the component theories share.

  Conventions used everywhere:
  \<^item> \<open>uint8_t\<close>, \<open>uint16_t\<close>, \<open>uint32_t\<close>, \<open>size_t\<close> and pointers are words of their width, so
    arithmetic wraps as it does on the target; the null pointer is \<open>0\<close>.
  \<^item> A byte buffer is a \<open>u8 list\<close>; an access outside its bounds is \<open>None\<close> (undefined in C).
  \<^item> The contents of a C string is the \<open>u8 list\<close> before the terminating NUL.
\<close>

unbundle bit_operations_syntax

type_synonym u8 = "8 word"
type_synonym u16 = "16 word"
type_synonym u32 = "32 word"

type_synonym bytes = "u8 list"

named_theorems kres_simps "evaluation of results of kernel code"
named_theorems layout_simps "offsets of packed structures"

subsection \<open>Results of kernel code\<close>

text \<open>
  A kernel function returns a value, raises \<open>KPANIC\<close> (which halts the machine with a code),
  never returns because a loop has no end, or accesses memory outside the object it works on
  (\<open>Fault\<close>: undefined behaviour in C).
\<close>

datatype 'a kres = Ret 'a | Panic nat | Hang | Fault

fun kbind :: "'a kres \<Rightarrow> ('a \<Rightarrow> 'b kres) \<Rightarrow> 'b kres" where
  "kbind (Ret x) f = f x"
| "kbind (Panic c) f = Panic c"
| "kbind Hang f = Hang"
| "kbind Fault f = Fault"

text \<open>Loops that may not end and accesses that may be out of bounds, as kernel results.\<close>

definition or_hang :: "'a option \<Rightarrow> 'a kres" where
  "or_hang m = (case m of None \<Rightarrow> Hang | Some x \<Rightarrow> Ret x)"

definition or_fault :: "'a option \<Rightarrow> 'a kres" where
  "or_fault m = (case m of None \<Rightarrow> Fault | Some x \<Rightarrow> Ret x)"

lemma or_simps [simp, kres_simps]:
  "or_hang (Some x) = Ret x" "or_hang None = Hang" "or_fault (Some x) = Ret x" "or_fault None = Fault"
  by (simp_all add: or_hang_def or_fault_def)

lemma kbind_Ret_iff: "kbind m f = Ret y \<longleftrightarrow> (\<exists>x. m = Ret x \<and> f x = Ret y)"
  by (cases m) auto

lemma kbind_Panic_iff:
  "kbind m f = Panic c \<longleftrightarrow> m = Panic c \<or> (\<exists>x. m = Ret x \<and> f x = Panic c)"
  by (cases m) auto

lemma kbind_assoc: "kbind (kbind m f) g = kbind m (\<lambda>x. kbind (f x) g)"
  by (cases m) auto

lemmas [kres_simps] = kbind.simps kbind_Ret_iff

text \<open>
  The correctness of code that allocates: it returns a value with the property, or the kernel
  heap is exhausted and it panics.
\<close>

definition ret_or_panic :: "nat \<Rightarrow> 'a kres \<Rightarrow> ('a \<Rightarrow> bool) \<Rightarrow> bool" where
  "ret_or_panic c m Q \<longleftrightarrow> m = Panic c \<or> (\<exists>x. m = Ret x \<and> Q x)"

lemma ret_or_panic_Ret [simp]: "ret_or_panic c (Ret x) Q \<longleftrightarrow> Q x"
  and ret_or_panic_Panic [simp]: "ret_or_panic c (Panic d) Q \<longleftrightarrow> c = d"
  and ret_or_panic_Fault [simp]: "\<not> ret_or_panic c Fault Q"
  and ret_or_panic_Hang [simp]: "\<not> ret_or_panic c Hang Q"
  by (auto simp: ret_or_panic_def)

lemma ret_or_panic_bind:
  "ret_or_panic c m P \<Longrightarrow> (\<And>x. P x \<Longrightarrow> ret_or_panic c (f x) Q) \<Longrightarrow> ret_or_panic c (kbind m f) Q"
  unfolding ret_or_panic_def by (cases m) fastforce+

lemma ret_or_panic_mono: "ret_or_panic c m P \<Longrightarrow> (\<And>x. P x \<Longrightarrow> Q x) \<Longrightarrow> ret_or_panic c m Q"
  by (auto simp: ret_or_panic_def)

text \<open>Code that always returns, with the property.\<close>

definition returns :: "'a kres \<Rightarrow> ('a \<Rightarrow> bool) \<Rightarrow> bool" where
  "returns m Q \<longleftrightarrow> (\<exists>x. m = Ret x \<and> Q x)"

lemma returns_simps [simp]:
  "returns (Ret x) Q \<longleftrightarrow> Q x" "\<not> returns (Panic c) Q" "\<not> returns Fault Q" "\<not> returns Hang Q"
  by (simp_all add: returns_def)

lemma returns_bind: "returns m P \<Longrightarrow> (\<And>x. P x \<Longrightarrow> returns (f x) Q) \<Longrightarrow> returns (kbind m f) Q"
  by (auto simp: returns_def)

lemma returns_mono: "returns m P \<Longrightarrow> (\<And>x. P x \<Longrightarrow> Q x) \<Longrightarrow> returns m Q"
  by (auto simp: returns_def)

text \<open>Code that returns or panics: it neither runs forever nor faults.\<close>

definition proceeds :: "'a kres \<Rightarrow> bool" where
  "proceeds m \<longleftrightarrow> m \<noteq> Hang \<and> m \<noteq> Fault"

lemma proceeds_simps [simp]:
  "proceeds (Ret x)" "proceeds (Panic c)" "\<not> proceeds Fault" "\<not> proceeds Hang"
  by (simp_all add: proceeds_def)

lemma proceeds_bind: "proceeds m \<Longrightarrow> (\<And>x. m = Ret x \<Longrightarrow> proceeds (f x)) \<Longrightarrow> proceeds (kbind m f)"
  by (cases m) auto

definition proceeds_with :: "'a kres \<Rightarrow> ('a \<Rightarrow> bool) \<Rightarrow> bool" where
  "proceeds_with m Q \<longleftrightarrow> proceeds m \<and> (\<forall>x. m = Ret x \<longrightarrow> Q x)"

lemma proceeds_with_simps [simp]:
  "proceeds_with (Ret x) Q \<longleftrightarrow> Q x" "proceeds_with (Panic c) Q"
  "\<not> proceeds_with Fault Q" "\<not> proceeds_with Hang Q"
  by (simp_all add: proceeds_with_def)

lemma proceeds_with_bind:
  "proceeds_with m P \<Longrightarrow> (\<And>x. P x \<Longrightarrow> proceeds_with (f x) Q) \<Longrightarrow> proceeds_with (kbind m f) Q"
  by (cases m) auto

lemma proceeds_with_mono: "proceeds_with m P \<Longrightarrow> (\<And>x. P x \<Longrightarrow> Q x) \<Longrightarrow> proceeds_with m Q"
  by (cases m) auto

lemma returns_proceeds: "returns m P \<Longrightarrow> proceeds_with m P"
  by (auto simp: returns_def)

text \<open>The panic codes of \<open>include/system/kpanic.h\<close>.\<close>

definition KPANIC_PMM_OUT_OF_MEMORY_CODE :: nat where
  "KPANIC_PMM_OUT_OF_MEMORY_CODE = 0x300000"

definition KPANIC_KHEAP_OUT_OF_MEMORY_CODE :: nat where
  "KPANIC_KHEAP_OUT_OF_MEMORY_CODE = 0x300002"

definition KPANIC_VMM_OUT_OF_USER_SPACE_MEMORY_CODE :: nat where
  "KPANIC_VMM_OUT_OF_USER_SPACE_MEMORY_CODE = 0x300003"

definition KPANIC_VMM_OUT_OF_KERNEL_SPACE_MEMORY_CODE :: nat where
  "KPANIC_VMM_OUT_OF_KERNEL_SPACE_MEMORY_CODE = 0x300004"

definition KPANCI_VMM_MEMORY_SPACE_BOUNDS_VIOLATION_CODE :: nat where
  "KPANCI_VMM_MEMORY_SPACE_BOUNDS_VIOLATION_CODE = 0x300005"

definition KPANIC_INIT_DIED_CODE :: nat where
  "KPANIC_INIT_DIED_CODE = 0x200005"

subsection \<open>Words\<close>

lemma unat_u32_less [simp]: "unat (x :: u32) < 4294967296"
  using unsigned_less [of x, where 'a = nat] by simp

lemma unat_u8_less [simp]: "unat (x :: u8) < 256"
  using unsigned_less [of x, where 'a = nat] by simp

lemma unat_u16_less [simp]: "unat (x :: u16) < 65536"
  using unsigned_less [of x, where 'a = nat] by simp

lemma unat_of_nat_u32 [simp]: "n < 4294967296 \<Longrightarrow> unat (of_nat n :: u32) = n"
  by (simp add: unat_of_nat)

lemma of_nat_u32_eq_iff:
  "a < 4294967296 \<Longrightarrow> b < 4294967296 \<Longrightarrow> (of_nat a :: u32) = of_nat b \<longleftrightarrow> a = b"
  by (metis unat_of_nat_u32)

lemma of_nat_u32_eq_0_iff: "a < 4294967296 \<Longrightarrow> (of_nat a :: u32) = 0 \<longleftrightarrow> a = 0"
  using of_nat_u32_eq_iff [of a 0] by simp

lemma u32_eq_iff: "(x :: u32) = y \<longleftrightarrow> unat x = unat y"
  by (simp add: word_unat_eq_iff)

lemma u32_less_iff: "(x :: u32) < y \<longleftrightarrow> unat x < unat y"
  by (simp add: word_less_nat_alt)

lemma u32_le_iff: "(x :: u32) \<le> y \<longleftrightarrow> unat x \<le> unat y"
  by (simp add: word_le_nat_alt)

lemma unat_u32_add: "unat (x + y :: u32) = (unat x + unat y) mod 4294967296"
  by (simp add: unat_word_ariths)

lemma unat_u32_mult: "unat (x * y :: u32) = (unat x * unat y) mod 4294967296"
  by (simp add: unat_word_ariths)

lemma unat_u32_add_small:
  "unat x + unat y < 4294967296 \<Longrightarrow> unat (x + y :: u32) = unat x + unat y"
  by (simp add: unat_u32_add)

lemma unat_u32_mult_small:
  "unat x * unat y < 4294967296 \<Longrightarrow> unat (x * y :: u32) = unat x * unat y"
  by (simp add: unat_u32_mult)

lemma unat_u32_sub: "y \<le> x \<Longrightarrow> unat (x - y :: u32) = unat x - unat y"
  by (simp add: unat_sub)

lemma unat_u32_div: "unat (x div y :: u32) = unat x div unat y"
  by (simp add: unat_div)

lemma unat_u32_mod: "unat (x mod y :: u32) = unat x mod unat y"
  by (simp add: unat_mod)

lemma sint_u32: "sint (n :: u32) = uint n - (if bit n 31 then 4294967296 else 0)"
  using uint_bounded [of n]
  by (simp add: sint_uint signed_take_bit_eq_take_bit_minus take_bit_eq_mod bit_uint_iff)

lemma sint_u32_small:
  assumes "unat (x :: u32) < 2147483648"
  shows "sint x = int (unat x)"
proof -
  have "uint x < 2147483648" using assms uint_nat [of x] by linarith
  then show ?thesis using signed_take_bit_int_eq_self [of 31 "uint x"] uint_ge_0 [of x]
    by (simp add: sint_uint order_trans [of _ 0])
qed

lemmas unat_u32_simps = u32_eq_iff u32_less_iff u32_le_iff unat_u32_add_small
  unat_u32_mult_small unat_u32_sub unat_u32_div unat_u32_mod

subsection \<open>Page alignment\<close>

lemma u32_page_mask: "(x :: u32) AND 4095 = x mod 4096"
proof -
  have m: "(4095 :: u32) = mask 12" by (simp add: mask_eq_exp_minus_1)
  show ?thesis unfolding m by (simp flip: take_bit_eq_mask add: take_bit_eq_mod)
qed

lemma unat_page_offset: "unat ((x :: u32) AND 4095) = unat x mod 4096"
  by (simp add: u32_page_mask unat_u32_mod)

lemma unat_and_mask_u32: "unat ((x :: u32) AND mask n) = unat x mod 2 ^ n"
  unfolding take_bit_eq_mask [symmetric] unsigned_take_bit_eq by (simp add: take_bit_eq_mod)

lemma unat_and_not_mask: "unat ((x :: u32) AND NOT (mask n)) = unat x - unat x mod 2 ^ n"
proof -
  have eq: "x AND NOT (mask n) = x - (x AND mask n)"
  proof -
    have "x - (x AND mask n) = x AND NOT (x AND mask n)"
      by (rule disjunctive_diff_eq_and_not) (auto intro!: bit_eqI simp: bit_simps)
    also have "\<dots> = x AND NOT (mask n)" by (rule bit_eqI) (auto simp: bit_simps)
    finally show ?thesis by simp
  qed
  have "x AND mask n \<le> x" by (rule word_and_le2)
  then show ?thesis unfolding eq by (simp add: unat_u32_sub unat_and_mask_u32)
qed

lemma unat_page_down: "unat ((x :: u32) AND NOT 4095) = unat x - unat x mod 4096"
proof -
  have m: "(4095 :: u32) = mask 12" by (simp add: mask_eq_exp_minus_1)
  show ?thesis unfolding m unat_and_not_mask by simp
qed

lemma unat_word_down: "unat ((x :: u32) AND NOT 3) = unat x - unat x mod 4"
proof -
  have m: "(3 :: u32) = mask 2" by (simp add: mask_eq_exp_minus_1)
  show ?thesis unfolding m unat_and_not_mask by simp
qed

subsection \<open>Byte memory\<close>

definition mem_read :: "bytes \<Rightarrow> nat \<Rightarrow> nat \<Rightarrow> bytes option" where
  "mem_read buf off n = (if off + n \<le> length buf then Some (take n (drop off buf)) else None)"

definition mem_write :: "bytes \<Rightarrow> nat \<Rightarrow> bytes \<Rightarrow> bytes option" where
  "mem_write buf off bs =
     (if off + length bs \<le> length buf
      then Some (take off buf @ bs @ drop (off + length bs) buf) else None)"

lemma mem_read_length: "mem_read buf off n = Some bs \<Longrightarrow> length bs = n"
  by (auto simp: mem_read_def split: if_splits)

lemma mem_write_length: "mem_write buf off bs = Some buf' \<Longrightarrow> length buf' = length buf"
  by (auto simp: mem_write_def split: if_splits)

lemma mem_read_write_same:
  "mem_write buf off bs = Some buf' \<Longrightarrow> mem_read buf' off (length bs) = Some bs"
  by (auto simp: mem_write_def mem_read_def min_def split: if_splits)

lemma mem_read_write_disjoint:
  assumes "mem_write buf off bs = Some buf'" and "i + n \<le> off \<or> off + length bs \<le> i"
  shows "mem_read buf' i n = mem_read buf i n"
proof -
  from assms(1) have le: "off + length bs \<le> length buf"
    and b: "buf' = take off buf @ bs @ drop (off + length bs) buf"
    by (auto simp: mem_write_def split: if_splits)
  have len: "length buf' = length buf" using le b by simp
  have nth: "buf' ! j = buf ! j" if "j < off \<or> off + length bs \<le> j" "j < length buf" for j
    using that le unfolding b by (auto simp: nth_append)
  have "take n (drop i buf') = take n (drop i buf)" if "i + n \<le> length buf"
  proof (rule nth_equalityI)
    show "length (take n (drop i buf')) = length (take n (drop i buf))" by (simp add: len)
    fix k assume "k < length (take n (drop i buf'))"
    then have k: "k < n" "i + k < length buf" using that len by auto
    then have "buf' ! (i + k) = buf ! (i + k)" using assms(2) by (intro nth) auto
    with k len show "take n (drop i buf') ! k = take n (drop i buf) ! k" by simp
  qed
  then show ?thesis by (simp add: mem_read_def len)
qed

text \<open>One byte store, undefined out of bounds.\<close>

definition put :: "bytes \<Rightarrow> nat \<Rightarrow> u8 \<Rightarrow> bytes option" where
  "put buf i c = (if i < length buf then Some (buf[i := c]) else None)"

lemma put_Some [simp]: "i < length buf \<Longrightarrow> put buf i c = Some (buf[i := c])"
  and put_None [simp]: "length buf \<le> i \<Longrightarrow> put buf i c = None"
  by (simp_all add: put_def)

subsection \<open>Little-endian fields of packed structures\<close>

definition le16 :: "bytes \<Rightarrow> nat \<Rightarrow> u16" where
  "le16 bs off = ucast (bs ! off) OR push_bit 8 (ucast (bs ! (off + 1)))"

definition le32 :: "bytes \<Rightarrow> nat \<Rightarrow> u32" where
  "le32 bs off = ucast (bs ! off) OR push_bit 8 (ucast (bs ! (off + 1))) OR
     push_bit 16 (ucast (bs ! (off + 2))) OR push_bit 24 (ucast (bs ! (off + 3)))"

definition enc16 :: "u16 \<Rightarrow> bytes" where
  "enc16 w = [ucast w, ucast (drop_bit 8 w)]"

definition enc32 :: "u32 \<Rightarrow> bytes" where
  "enc32 w = [ucast w, ucast (drop_bit 8 w), ucast (drop_bit 16 w), ucast (drop_bit 24 w)]"

lemma length_enc [simp]: "length (enc16 w) = 2" "length (enc32 x) = 4"
  by (simp_all add: enc16_def enc32_def)

lemma le16_enc: "(ucast (ucast w :: u8) OR push_bit 8 (ucast (ucast (drop_bit 8 w) :: u8)) :: u16) = w"
proof (rule bit_word_eqI, goal_cases)
  case (1 n)
  then consider "n < 8" | "8 \<le> n" "n < 16" by fastforce
  then show ?case by cases (auto simp: bit_simps)
qed

lemma le32_enc:
  "(ucast (ucast w :: u8) OR push_bit 8 (ucast (ucast (drop_bit 8 w) :: u8)) OR
    push_bit 16 (ucast (ucast (drop_bit 16 w) :: u8)) OR
    push_bit 24 (ucast (ucast (drop_bit 24 w) :: u8)) :: u32) = w"
proof (rule bit_word_eqI, goal_cases)
  case (1 n)
  then consider "n < 8" | "8 \<le> n" "n < 16" | "16 \<le> n" "n < 24" | "24 \<le> n" "n < 32" by fastforce
  then show ?case by cases (auto simp: bit_simps)
qed

lemma le16_append: "length xs = off \<Longrightarrow> le16 (xs @ enc16 w @ ys) off = w"
  by (auto simp: le16_def enc16_def nth_append le16_enc)

lemma le32_append: "length xs = off \<Longrightarrow> le32 (xs @ enc32 w @ ys) off = w"
  by (auto simp: le32_def enc32_def nth_append le32_enc)

lemma le32_enc32 [simp]: "le32 (enc32 w) 0 = w"
  using le32_append [of "[]" 0 w "[]"] by simp

subsection \<open>Characters and strings\<close>

definition asc :: "char \<Rightarrow> u8" where
  "asc c = of_nat (of_char c)"

definition str :: "string \<Rightarrow> bytes" where
  "str s = map (\<lambda>c. of_nat (of_char c)) s"

text \<open>The byte read through a pointer at the end of a C string is its terminating NUL.\<close>

fun c_at :: "bytes \<Rightarrow> u8" where
  "c_at [] = 0"
| "c_at (c # s) = c"

definition c_string :: "bytes \<Rightarrow> bool" where
  "c_string s \<longleftrightarrow> 0 \<notin> set s"

lemma c_at_eq_0: "c_string s \<Longrightarrow> c_at s = 0 \<longleftrightarrow> s = []"
  by (cases s) (auto simp: c_string_def)

end
