(* ===== verification/Kheap_Refine.thy ===== *)
theory Kheap_Refine
  imports Kheap
begin

text \<open>
  Refinement of the kernel heap: the abstract heap is a list of blocks (size, free) laid out
  back to back from the base address; \<open>heap_seg\<close> says that the store holds the doubly linked
  headers of such a list, and the splice lemma replaces a run of blocks by another run of the
  same total extent, which is what every split and every merge of \<open>kheap.c\<close> does.
\<close>

type_synonym ablk = "nat \<times> bool"

subsection \<open>Block lists and their headers in the store\<close>

fun extent :: "ablk list \<Rightarrow> nat" where
  "extent [] = 0"
| "extent ((n, f) # bs) = 20 + n + extent bs"

lemma extent_append [simp]: "extent (xs @ ys) = extent xs + extent ys"
  by (induction xs) auto

lemma extent_pos: "bs \<noteq> [] \<Longrightarrow> 20 \<le> extent bs"
  by (cases bs) auto

text \<open>The pointer to the last block of a run, or the predecessor of an empty run.\<close>

fun last_ptr :: "u32 \<Rightarrow> nat \<Rightarrow> ablk list \<Rightarrow> u32" where
  "last_ptr p a [] = p"
| "last_ptr p a ((n, f) # bs) = last_ptr (of_nat a) (a + 20 + n) bs"

lemma last_ptr_append:
  "last_ptr p a (xs @ ys) = last_ptr (last_ptr p a xs) (a + extent xs) ys"
  by (induction xs arbitrary: p a) (auto simp: add.assoc)

lemma last_ptr_nonempty: "ys \<noteq> [] \<Longrightarrow> last_ptr p a ys = last_ptr q a ys"
  by (cases ys) auto

text \<open>The pointer to the first block of a run, or what follows an empty run.\<close>

definition first_ptr :: "nat \<Rightarrow> ablk list \<Rightarrow> u32 \<Rightarrow> u32" where
  "first_ptr a bs e = (if bs = [] then e else of_nat a)"

lemma first_ptr_simps [simp]:
  "first_ptr a [] e = e" "first_ptr a (b # bs) e = of_nat a"
  by (simp_all add: first_ptr_def)

fun heap_seg :: "(u32 \<Rightarrow> kheap_block) \<Rightarrow> u32 \<Rightarrow> nat \<Rightarrow> ablk list \<Rightarrow> u32 \<Rightarrow> bool" where
  "heap_seg mem p a [] e \<longleftrightarrow> True"
| "heap_seg mem p a ((n, f) # bs) e \<longleftrightarrow>
     mem (of_nat a) = \<lparr>blk_magic = KHEAP_MAGIC, blk_size = of_nat n, blk_free = f,
                       blk_prev = p, blk_next = first_ptr (a + 20 + n) bs e\<rparr> \<and>
     heap_seg mem (of_nat a) (a + 20 + n) bs e"

lemma heap_seg_append:
  "heap_seg mem p a (xs @ ys) e \<longleftrightarrow>
     heap_seg mem p a xs (first_ptr (a + extent xs) ys e) \<and>
     heap_seg mem (last_ptr p a xs) (a + extent xs) ys e"
  by (induction xs arbitrary: p a) (auto simp: first_ptr_def add.assoc)

lemma heap_seg_cong:
  assumes "heap_seg mem p a bs e"
    and "\<And>x. a \<le> x \<Longrightarrow> x < a + extent bs \<Longrightarrow> mem' (of_nat x) = mem (of_nat x)"
  shows "heap_seg mem' p a bs e"
  using assms
proof (induction bs arbitrary: p a)
  case Nil
  then show ?case by simp
next
  case (Cons b bs)
  obtain n f where b: "b = (n, f)" by (cases b)
  have "heap_seg mem' (of_nat a) (a + 20 + n) bs e"
    using Cons.prems b by (intro Cons.IH) auto
  moreover have "mem' (of_nat a) = mem (of_nat a)"
    using Cons.prems(2) [of a] b by simp
  ultimately show ?case using Cons.prems(1) b by simp
qed

text \<open>A change of the predecessor touches only the first header of a run.\<close>

lemma heap_seg_prev:
  assumes "heap_seg mem p a bs e" and "a + extent bs \<le> 4294967296"
    and "bs \<noteq> [] \<Longrightarrow> mem' (of_nat a) = (mem (of_nat a))\<lparr>blk_prev := q\<rparr>"
    and "\<And>x. a < x \<Longrightarrow> x < a + extent bs \<Longrightarrow> mem' (of_nat x) = mem (of_nat x)"
  shows "heap_seg mem' q a bs e"
proof (cases bs)
  case Nil
  then show ?thesis by simp
next
  case (Cons b bs')
  obtain n f where b: "b = (n, f)" by (cases b)
  have "heap_seg mem' (of_nat a) (a + 20 + n) bs' e"
    by (rule heap_seg_cong [where mem = mem]) (use assms Cons b in auto)
  then show ?thesis using assms(1,3) Cons b by simp
qed

text \<open>
  The splice lemma: replace the run \<open>mid\<close> by \<open>mid'\<close> of the same extent. Only the headers
  inside the run and the predecessor pointer of the block behind it may change.
\<close>

lemma heap_seg_splice:
  assumes seg: "heap_seg mem p a (xs @ mid @ ys) e"
    and top: "a + extent (xs @ mid @ ys) \<le> 4294967296"
    and mid: "mid \<noteq> []" "mid' \<noteq> []" "extent mid' = extent mid"
    and same: "\<And>x. a \<le> x \<Longrightarrow> x < a + extent (xs @ mid @ ys) \<Longrightarrow>
                x < a + extent xs \<or> a + extent xs + extent mid < x \<Longrightarrow>
                mem' (of_nat x) = mem (of_nat x)"
    and nxt: "ys \<noteq> [] \<Longrightarrow> mem' (of_nat (a + extent xs + extent mid)) =
        (mem (of_nat (a + extent xs + extent mid)))
          \<lparr>blk_prev := last_ptr (last_ptr p a xs) (a + extent xs) mid'\<rparr>"
    and new: "heap_seg mem' (last_ptr p a xs) (a + extent xs) mid'
                (first_ptr (a + extent xs + extent mid) ys e)"
  shows "heap_seg mem' p a (xs @ mid' @ ys) e"
proof -
  let ?m = "a + extent xs" let ?y = "a + extent xs + extent mid"
  have f: "first_ptr ?m (mid' @ ys) e = first_ptr ?m (mid @ ys) e"
    using mid by (simp add: first_ptr_def)
  from seg have xs: "heap_seg mem p a xs (first_ptr ?m (mid @ ys) e)"
    and ys: "heap_seg mem (last_ptr (last_ptr p a xs) ?m mid) ?y ys e"
    by (auto simp: heap_seg_append add.assoc)
  have 1: "heap_seg mem' p a xs (first_ptr ?m (mid' @ ys) e)"
    unfolding f by (rule heap_seg_cong [OF xs]) (use same extent_pos [OF mid(1)] in auto)
  have 2: "heap_seg mem' (last_ptr (last_ptr p a xs) ?m mid') ?y ys e"
    by (rule heap_seg_prev [OF ys]) (use top nxt same in auto)
  show ?thesis using 1 2 new mid(3) by (simp add: heap_seg_append add.assoc)
qed

text \<open>The header of a block in the middle of a run.\<close>

lemma heap_seg_middle:
  assumes "heap_seg mem p a (xs @ (n, f) # ys) e"
  shows "mem (of_nat (a + extent xs)) =
     \<lparr>blk_magic = KHEAP_MAGIC, blk_size = of_nat n, blk_free = f, blk_prev = last_ptr p a xs,
      blk_next = first_ptr (a + extent xs + 20 + n) ys e\<rparr>"
  using assms by (simp add: heap_seg_append)

subsection \<open>The representation invariant\<close>

text \<open>No two free blocks are adjacent, and blocks in use have data.\<close>

definition coalesced :: "ablk list \<Rightarrow> bool" where
  "coalesced bs \<longleftrightarrow> successively (\<lambda>b c. \<not> (snd b \<and> snd c)) bs"

definition used_nonempty :: "ablk list \<Rightarrow> bool" where
  "used_nonempty bs \<longleftrightarrow> (\<forall>b \<in> set bs. snd b \<or> 0 < fst b)"

text \<open>
  The heap ends at least two pages below the top of the address space, so address arithmetic
  on blocks (including the alignment of the next page) does not wrap.
\<close>

definition kheap_shape :: "kheap \<Rightarrow> ablk list \<Rightarrow> bool" where
  "kheap_shape h bs \<longleftrightarrow>
     kheap_enabled h \<and> kheap_base h \<noteq> 0 \<and> kheap_head h = kheap_base h \<and>
     unat (kheap_base h) + 0x2000000 + 0x2000 \<le> 0x100000000 \<and>
     bs \<noteq> [] \<and> extent bs = 0x2000000 \<and>
     heap_seg (heap_hdr h) 0 (unat (kheap_base h)) bs 0 \<and>
     kheap_tail h = last_ptr 0 (unat (kheap_base h)) bs"

definition kheap_repr :: "kheap \<Rightarrow> ablk list \<Rightarrow> bool" where
  "kheap_repr h bs \<longleftrightarrow> kheap_shape h bs \<and> coalesced bs \<and> used_nonempty bs"

definition kheap_inv :: "kheap \<Rightarrow> bool" where
  "kheap_inv h \<longleftrightarrow> (\<exists>bs. kheap_repr h bs)"

lemmas heap_consts = KHEAP_HEAP_SIZE_def KHEAP_MAGIC_def sizeof_kheap_block_def PAGE_SIZE_def

definition blk_addr :: "nat \<Rightarrow> ablk list \<Rightarrow> nat \<Rightarrow> nat" where
  "blk_addr a bs i = a + extent (take i bs)"

subsection \<open>Best fit\<close>

text \<open>Bytes between the data of a block at \<open>a\<close> and the page-aligned data it is moved to.\<close>

definition padding :: "nat \<Rightarrow> nat" where
  "padding a = (if (a + 20) mod 4096 = 0 then 0
                else (a + 40 + 4095) div 4096 * 4096 - (a + 20))"

definition fits :: "nat \<Rightarrow> bool \<Rightarrow> nat \<Rightarrow> ablk \<Rightarrow> bool" where
  "fits sz align a b \<longleftrightarrow> snd b \<and> sz + (if align then padding a else 0) \<le> fst b"

definition best_fit :: "nat \<Rightarrow> nat \<Rightarrow> bool \<Rightarrow> ablk list \<Rightarrow> nat \<Rightarrow> bool" where
  "best_fit a sz align bs i \<longleftrightarrow>
     i < length bs \<and> fits sz align (blk_addr a bs i) (bs ! i) \<and>
     (\<forall>j < length bs. fits sz align (blk_addr a bs j) (bs ! j) \<longrightarrow> fst (bs ! i) \<le> fst (bs ! j)) \<and>
     (\<forall>j < i. fits sz align (blk_addr a bs j) (bs ! j) \<longrightarrow> fst (bs ! i) < fst (bs ! j))"

definition no_fit :: "nat \<Rightarrow> nat \<Rightarrow> bool \<Rightarrow> ablk list \<Rightarrow> bool" where
  "no_fit a sz align bs \<longleftrightarrow> (\<forall>j < length bs. \<not> fits sz align (blk_addr a bs j) (bs ! j))"

lemma round_up_bounds:
  "(x :: nat) \<le> (x + 4095) div 4096 * 4096" "(x + 4095) div 4096 * 4096 < x + 4096"
proof -
  have d: "(x + 4095) div 4096 * 4096 + (x + 4095) mod 4096 = x + 4095" by simp
  have m: "(x + 4095) mod 4096 < 4096" by simp
  show "x \<le> (x + 4095) div 4096 * 4096" using d m by linarith
  show "(x + 4095) div 4096 * 4096 < x + 4096" using d m by linarith
qed

lemma padding_unaligned:
  "(a + 20) mod 4096 \<noteq> 0 \<Longrightarrow> a + 20 + padding a = (a + 40 + 4095) div 4096 * 4096"
  using round_up_bounds(1) [of "a + 40"] by (simp add: padding_def)

lemma padding_bounds:
  "(a + 20) mod 4096 \<noteq> 0 \<Longrightarrow> 20 \<le> padding a"
  "padding a < 4116"
  "(a + 20 + padding a) mod 4096 = 0"
proof -
  note b = round_up_bounds [of "a + 40"]
  show "(a + 20) mod 4096 \<noteq> 0 \<Longrightarrow> 20 \<le> padding a" using b padding_unaligned [of a] by linarith
  show "padding a < 4116"
    using b padding_unaligned [of a] by (cases "(a + 20) mod 4096 = 0") (simp add: padding_def, linarith)
  show "(a + 20 + padding a) mod 4096 = 0"
    using padding_unaligned [of a] by (cases "(a + 20) mod 4096 = 0") (simp add: padding_def, simp)
qed

lemma aligned_word:
  "a + 20 < 4294967296 \<Longrightarrow> VMM_IS_ALIGNED (of_nat a + sizeof_kheap_block) \<longleftrightarrow> (a + 20) mod 4096 = 0"
proof -
  assume a: "a + 20 < 4294967296"
  have e: "(of_nat a + sizeof_kheap_block :: u32) = of_nat (a + 20)" by (simp add: heap_consts)
  show ?thesis unfolding VMM_IS_ALIGNED_def e
    using a unat_page_offset [of "of_nat (a + 20)"]
    by (simp add: heap_consts u32_eq_iff del: of_nat_add)
qed

lemma align_up_word:
  assumes "x + 4095 < 4294967296"
  shows "VMM_ALIGN_UP (of_nat x) = of_nat ((x + 4095) div 4096 * 4096)"
proof -
  have e: "(of_nat x + PAGE_SIZE - 1 :: u32) = of_nat (x + 4095)" by (simp add: heap_consts)
  have p: "PAGE_SIZE - 1 = (4095 :: u32)" by (simp add: heap_consts)
  have "unat (VMM_ALIGN_UP (of_nat x)) = (x + 4095) div 4096 * 4096"
    unfolding VMM_ALIGN_UP_def e p unat_page_down
    using assms by (simp add: minus_mod_eq_div_mult del: of_nat_add)
  then show ?thesis by (metis of_nat_unat ucast_id)
qed

lemma padding_word:
  assumes "a + 4135 < 4294967296" and "(a + 20) mod 4096 \<noteq> 0"
  shows "VMM_ALIGN_UP (of_nat a + 2 * sizeof_kheap_block) - (of_nat a + sizeof_kheap_block) =
         of_nat (padding a)"
    and "VMM_ALIGN_UP (of_nat a + 2 * sizeof_kheap_block) = of_nat (a + 20 + padding a)"
proof -
  have e: "of_nat a + 2 * sizeof_kheap_block = (of_nat (a + 40) :: u32)" by (simp add: heap_consts)
  have up: "VMM_ALIGN_UP (of_nat a + 2 * sizeof_kheap_block) =
            of_nat ((a + 40 + 4095) div 4096 * 4096)"
    unfolding e by (rule align_up_word) (use assms in simp)
  have p: "a + 20 + padding a = (a + 40 + 4095) div 4096 * 4096"
    using assms(2) by (rule padding_unaligned)
  show "VMM_ALIGN_UP (of_nat a + 2 * sizeof_kheap_block) = of_nat (a + 20 + padding a)"
    unfolding up p ..
  then show "VMM_ALIGN_UP (of_nat a + 2 * sizeof_kheap_block) - (of_nat a + sizeof_kheap_block) =
         of_nat (padding a)"
    by (simp add: heap_consts)
qed

text \<open>One step of the scan, in terms of the abstract block at \<open>a\<close>.\<close>

lemma kheap_consider_eq:
  assumes hd: "mem (of_nat a) = \<lparr>blk_magic = mg, blk_size = of_nat n, blk_free = f,
                                blk_prev = p, blk_next = q\<rparr>"
    and bounds: "a + 20 + n + 8192 \<le> 4294967296"
  shows "kheap_consider mem sz align (of_nat a) best =
     (if fits (unat sz) align a (n, f) \<and> (best = 0 \<or> n < unat (blk_size (mem best)))
      then of_nat a else best)"
proof -
  have n: "n < 4294967296" using bounds by simp
  have size: "sz \<le> (of_nat n :: u32) \<longleftrightarrow> unat sz \<le> n"
    and less: "(of_nat n :: u32) < x \<longleftrightarrow> n < unat x" for x
    using n by (simp_all add: u32_le_iff u32_less_iff)
  have pad: "sz + (of_nat (padding a) :: u32) \<le> of_nat n \<longleftrightarrow> unat sz + padding a \<le> n"
    if "unat sz \<le> n"
  proof -
    have "unat (sz + of_nat (padding a) :: u32) = unat sz + padding a"
      using that bounds padding_bounds(2) [of a] by (simp add: unat_u32_add_small)
    then show ?thesis using n by (simp add: u32_le_iff)
  qed
  have al: "VMM_IS_ALIGNED (of_nat a + sizeof_kheap_block) \<longleftrightarrow> (a + 20) mod 4096 = 0"
    using bounds by (intro aligned_word) simp
  have p0: "(a + 20) mod 4096 = 0 \<Longrightarrow> padding a = 0" by (simp add: padding_def)
  have pw: "(a + 20) mod 4096 \<noteq> 0 \<Longrightarrow>
      VMM_ALIGN_UP (of_nat a + 2 * sizeof_kheap_block) - (of_nat a + sizeof_kheap_block) =
      of_nat (padding a)"
    using bounds by (intro padding_word(1)) simp
  show ?thesis
    unfolding kheap_consider_def Let_def hd fits_def fst_conv snd_conv kheap_block.select_convs
      al size less
    using pad p0 pw by (cases "unat sz \<le> n"; cases "(a + 20) mod 4096 = 0") auto
qed

text \<open>What the scan has found after the run \<open>xs\<close>.\<close>

definition scan_result :: "nat \<Rightarrow> nat \<Rightarrow> bool \<Rightarrow> ablk list \<Rightarrow> u32 \<Rightarrow> bool" where
  "scan_result a sz align xs r \<longleftrightarrow>
     (r = 0 \<and> no_fit a sz align xs) \<or>
     (\<exists>i. best_fit a sz align xs i \<and> r = of_nat (blk_addr a xs i))"

lemma blk_addr_append: "i < length xs \<Longrightarrow> blk_addr a (xs @ ys) i = blk_addr a xs i"
  by (simp add: blk_addr_def)

lemma blk_addr_length: "blk_addr a (xs @ ys) (length xs) = a + extent xs"
  by (simp add: blk_addr_def)

lemma no_fit_snoc:
  "no_fit a sz align (xs @ [b]) \<longleftrightarrow> no_fit a sz align xs \<and> \<not> fits sz align (a + extent xs) b"
  by (auto simp: no_fit_def nth_append blk_addr_append blk_addr_length less_Suc_eq)

lemma best_fit_snoc_keep:
  assumes "best_fit a sz align xs i" and "fits sz align (a + extent xs) b \<Longrightarrow> fst (xs ! i) \<le> fst b"
  shows "best_fit a sz align (xs @ [b]) i"
  using assms
  by (auto simp: best_fit_def nth_append blk_addr_append blk_addr_length less_Suc_eq)

lemma best_fit_snoc_new:
  assumes "fits sz align (a + extent xs) b"
    and "\<And>j. j < length xs \<Longrightarrow> fits sz align (blk_addr a xs j) (xs ! j) \<Longrightarrow> fst b < fst (xs ! j)"
  shows "best_fit a sz align (xs @ [b]) (length xs)"
  using assms
  by (auto simp: best_fit_def nth_append blk_addr_append blk_addr_length less_Suc_eq
      intro: less_imp_le)

lemma blk_addr_bounds:
  "i < length xs \<Longrightarrow> a \<le> blk_addr a xs i \<and> blk_addr a xs i + 20 + fst (xs ! i) \<le> a + extent xs"
proof -
  assume i: "i < length xs"
  have "extent xs = extent (take i xs) + extent (xs ! i # drop (Suc i) xs)"
    using i by (metis Cons_nth_drop_Suc append_take_drop_id extent_append)
  then show ?thesis by (cases "xs ! i") (simp add: blk_addr_def)
qed

lemma heap_seg_nth:
  assumes "heap_seg mem p a xs e" and "i < length xs"
  shows "blk_size (mem (of_nat (blk_addr a xs i))) = of_nat (fst (xs ! i))"
proof -
  have "xs = take i xs @ (fst (xs ! i), snd (xs ! i)) # drop (Suc i) xs"
    using assms(2) by (simp add: id_take_nth_drop)
  then have "heap_seg mem p a (take i xs @ (fst (xs ! i), snd (xs ! i)) # drop (Suc i) xs) e"
    using assms(1) by simp
  from heap_seg_middle [OF this] show ?thesis by (simp add: blk_addr_def)
qed

lemma scan_step:
  assumes seg: "heap_seg mem p a (xs @ (n, f) # ys) 0" and a: "a \<noteq> 0"
    and top: "a + extent (xs @ (n, f) # ys) + 8192 \<le> 4294967296"
    and r: "scan_result a (unat sz) align xs r"
  shows "scan_result a (unat sz) align (xs @ [(n, f)])
           (kheap_consider mem sz align (of_nat (a + extent xs)) r)"
proof -
  let ?x = "a + extent xs"
  have step: "kheap_consider mem sz align (of_nat ?x) r =
     (if fits (unat sz) align ?x (n, f) \<and> (r = 0 \<or> n < unat (blk_size (mem r)))
      then of_nat ?x else r)"
    using heap_seg_middle [OF seg] by (rule kheap_consider_eq) (use top in simp)
  have new: "blk_addr a (xs @ [(n, f)]) (length xs) = ?x" by (simp add: blk_addr_def)
  from r consider "r = 0" "no_fit a (unat sz) align xs"
    | i where "best_fit a (unat sz) align xs i" "r = of_nat (blk_addr a xs i)"
    by (auto simp: scan_result_def)
  then show ?thesis
  proof cases
    case 1
    have "best_fit a (unat sz) align (xs @ [(n, f)]) (length xs)" if "fits (unat sz) align ?x (n, f)"
      using that 1(2) by (intro best_fit_snoc_new) (auto simp: no_fit_def)
    then show ?thesis using 1 new unfolding step scan_result_def
      by (auto simp: no_fit_snoc)
  next
    case (2 i)
    from 2(1) have i: "i < length xs" by (simp add: best_fit_def)
    have b: "blk_addr a xs i + fst (xs ! i) < 4294967296" "blk_addr a xs i \<noteq> 0"
      using blk_addr_bounds [OF i, of a] top a by auto
    have r0: "r \<noteq> 0" using b 2(2) by (simp add: of_nat_u32_eq_0_iff)
    from seg have "heap_seg mem p a xs (first_ptr ?x ((n, f) # ys) 0)" by (simp add: heap_seg_append)
    from heap_seg_nth [OF this i] have sz_r: "unat (blk_size (mem r)) = fst (xs ! i)"
      using b 2(2) by simp
    show ?thesis
    proof (cases "fits (unat sz) align ?x (n, f) \<and> n < fst (xs ! i)")
      case True
      have "best_fit a (unat sz) align (xs @ [(n, f)]) (length xs)"
        using True 2(1) by (intro best_fit_snoc_new) (auto simp: best_fit_def intro: less_le_trans)
      then show ?thesis using True r0 sz_r new unfolding step scan_result_def by auto
    next
      case False
      then have "best_fit a (unat sz) align (xs @ [(n, f)]) i"
        using 2(1) by (intro best_fit_snoc_keep) auto
      then show ?thesis using False r0 sz_r 2(2) i unfolding step scan_result_def
        by (auto simp: blk_addr_append)
    qed
  qed
qed

lemma find_best_fit_from:
  assumes "heap_seg mem p a (xs @ ys) 0" and "a \<noteq> 0"
    and "a + extent (xs @ ys) + 8192 \<le> 4294967296"
    and "scan_result a (unat sz) align xs r"
  shows "\<exists>r'. kheap_find_best_fit mem sz align (first_ptr (a + extent xs) ys 0) r = Some r' \<and>
              scan_result a (unat sz) align (xs @ ys) r'"
  using assms
proof (induction ys arbitrary: xs r)
  case Nil
  then show ?case by (simp add: first_ptr_def kheap_find_best_fit.simps)
next
  case (Cons b ys)
  obtain n f where b: "b = (n, f)" by (cases b)
  let ?x = "a + extent xs"
  have nz: "(of_nat ?x :: u32) \<noteq> 0" using Cons.prems by (simp add: of_nat_u32_eq_0_iff b del: of_nat_add)
  have nxt: "blk_next (mem (of_nat ?x)) = first_ptr (a + extent (xs @ [b])) ys 0"
    using heap_seg_middle [of mem p a xs n f ys 0] Cons.prems(1) b by (simp add: add.assoc)
  have "scan_result a (unat sz) align (xs @ [b]) (kheap_consider mem sz align (of_nat ?x) r)"
    unfolding b by (rule scan_step) (use Cons.prems b in auto)
  then obtain r' where "kheap_find_best_fit mem sz align (first_ptr (a + extent (xs @ [b])) ys 0)
      (kheap_consider mem sz align (of_nat ?x) r) = Some r'"
    and "scan_result a (unat sz) align ((xs @ [b]) @ ys) r'"
    using Cons.IH [of "xs @ [b]"] Cons.prems by auto
  then show ?case
    by (auto simp: first_ptr_def kheap_find_best_fit.simps [of mem sz align "of_nat ?x"] nz nxt
        simp del: of_nat_add)
qed

lemma find_best_fit_correct:
  assumes "kheap_repr h bs"
  shows "\<exists>r. kheap_find_best_fit (heap_hdr h) sz align (kheap_head h) 0 = Some r \<and>
             scan_result (unat (kheap_base h)) (unat sz) align bs r"
proof -
  have "scan_result (unat (kheap_base h)) (unat sz) align [] 0"
    by (simp add: scan_result_def no_fit_def)
  then show ?thesis
    using find_best_fit_from [of "heap_hdr h" 0 "unat (kheap_base h)" "[]" bs sz align 0] assms
    by (auto simp: kheap_repr_def kheap_shape_def first_ptr_def unat_eq_zero)
qed

subsection \<open>Splitting blocks\<close>

lemma kheap_shape_middle:
  assumes "kheap_shape h (xs @ (n, f) # ys)"
  shows "heap_hdr h (of_nat (unat (kheap_base h) + extent xs)) =
     \<lparr>blk_magic = KHEAP_MAGIC, blk_size = of_nat n, blk_free = f,
      blk_prev = last_ptr 0 (unat (kheap_base h)) xs,
      blk_next = first_ptr (unat (kheap_base h) + extent xs + 20 + n) ys 0\<rparr>"
  using assms by (intro heap_seg_middle) (simp add: kheap_shape_def)

lemma kheap_shape_bounds:
  assumes "kheap_shape h bs"
  shows "unat (kheap_base h) + extent bs + 8192 \<le> 4294967296" "0 < unat (kheap_base h)"
  using assms by (auto simp: kheap_shape_def unat_gt_0)

text \<open>Installing new headers for a run, as every split and merge does.\<close>

lemma kheap_shape_splice:
  fixes h h' :: kheap
  assumes old: "kheap_shape h (xs @ mid @ ys)"
    and m: "m = unat (kheap_base h) + extent xs" and y: "y = m + extent mid"
    and env: "kheap_enabled h' = kheap_enabled h" "kheap_base h' = kheap_base h"
      "kheap_head h' = kheap_head h"
    and mid: "mid \<noteq> []" "mid' \<noteq> []" "extent mid' = extent mid"
    and same: "\<And>x. x < 4294967296 \<Longrightarrow> x < m \<or> y < x \<Longrightarrow>
                heap_hdr h' (of_nat x) = heap_hdr h (of_nat x)"
    and nxt: "ys \<noteq> [] \<Longrightarrow> heap_hdr h' (of_nat y) =
        (heap_hdr h (of_nat y))\<lparr>blk_prev := last_ptr 0 m mid'\<rparr>"
    and tail: "ys \<noteq> [] \<Longrightarrow> kheap_tail h' = kheap_tail h"
      "ys = [] \<Longrightarrow> kheap_tail h' = last_ptr 0 m mid'"
    and new: "heap_seg (heap_hdr h') (last_ptr 0 (unat (kheap_base h)) xs) m mid' (first_ptr y ys 0)"
  shows "kheap_shape h' (xs @ mid' @ ys)"
proof -
  let ?a = "unat (kheap_base h)"
  note bounds = kheap_shape_bounds [OF old]
  have lp: "last_ptr q m mid' = last_ptr 0 m mid'" for q m
    using mid(2) by (rule last_ptr_nonempty)
  have seg: "heap_seg (heap_hdr h) 0 ?a (xs @ mid @ ys) 0" using old by (simp add: kheap_shape_def)
  have "heap_seg (heap_hdr h') 0 ?a (xs @ mid' @ ys) 0"
    by (rule heap_seg_splice [OF seg _ mid])
       (use bounds same nxt new lp [of "last_ptr 0 ?a xs" "?a + extent xs"] m y in auto)
  moreover have "kheap_tail h' = last_ptr 0 ?a (xs @ mid' @ ys)"
  proof (cases "ys = []")
    case True
    then show ?thesis using tail(2) lp [of "last_ptr 0 ?a xs"] m by (simp add: last_ptr_append)
  next
    case False
    then have "last_ptr 0 ?a (xs @ mid' @ ys) = last_ptr 0 ?a (xs @ mid @ ys)"
      unfolding last_ptr_append mid(3) by (rule last_ptr_nonempty)
    then show ?thesis using tail(1) [OF False] old by (simp add: kheap_shape_def)
  qed
  ultimately show ?thesis using old env mid by (simp add: kheap_shape_def)
qed

text \<open>Splitting one block in two, and joining two blocks to one.\<close>

lemma kheap_shape_split:
  assumes sh: "kheap_shape h (xs @ (n, f) # ys)" and m: "m = unat (kheap_base h) + extent xs"
    and n: "n = n1 + 20 + n2" and r: "r = m + 20 + n1"
    and hm: "heap_hdr h' (of_nat m) = \<lparr>blk_magic = KHEAP_MAGIC, blk_size = of_nat n1, blk_free = f1,
        blk_prev = last_ptr 0 (unat (kheap_base h)) xs, blk_next = of_nat r\<rparr>"
    and hr: "heap_hdr h' (of_nat r) = \<lparr>blk_magic = KHEAP_MAGIC, blk_size = of_nat n2, blk_free = f2,
        blk_prev = of_nat m, blk_next = first_ptr (m + 20 + n) ys 0\<rparr>"
    and hq: "ys \<noteq> [] \<Longrightarrow> heap_hdr h' (of_nat (m + 20 + n)) =
        (heap_hdr h (of_nat (m + 20 + n)))\<lparr>blk_prev := of_nat r\<rparr>"
    and ho: "\<And>x. x \<noteq> of_nat m \<Longrightarrow> x \<noteq> of_nat r \<Longrightarrow> (ys \<noteq> [] \<Longrightarrow> x \<noteq> of_nat (m + 20 + n)) \<Longrightarrow>
        heap_hdr h' x = heap_hdr h x"
    and tl: "kheap_tail h' = (if ys = [] then of_nat r else kheap_tail h)"
    and env: "kheap_base h' = kheap_base h" "kheap_enabled h' = kheap_enabled h"
        "kheap_head h' = kheap_head h"
  shows "kheap_shape h' (xs @ [(n1, f1), (n2, f2)] @ ys)"
proof (rule kheap_shape_splice [where mid = "[(n, f)]" and h = h and m = m and y = "m + 20 + n"])
  have "m + 20 + n + 8192 \<le> 4294967296" using kheap_shape_bounds [OF sh] m by simp
  then show "heap_hdr h' (of_nat x) = heap_hdr h (of_nat x)"
    if "x < 4294967296" "x < m \<or> m + 20 + n < x" for x
    using that n r by (intro ho) (auto simp: of_nat_u32_eq_iff simp del: of_nat_add)
  show "heap_seg (heap_hdr h') (last_ptr 0 (unat (kheap_base h)) xs) m [(n1, f1), (n2, f2)]
      (first_ptr (m + 20 + n) ys 0)"
    using hm hr r by (simp del: of_nat_add)
qed (use sh n r hq tl env m in \<open>simp_all del: of_nat_add\<close>)

lemma kheap_shape_join:
  assumes sh: "kheap_shape h (xs @ [(n1, f1), (n2, f2)] @ ys)"
    and m: "m = unat (kheap_base h) + extent xs" and n: "n = n1 + 20 + n2"
    and hm: "heap_hdr h' (of_nat m) = \<lparr>blk_magic = KHEAP_MAGIC, blk_size = of_nat n, blk_free = f,
        blk_prev = last_ptr 0 (unat (kheap_base h)) xs, blk_next = first_ptr (m + 20 + n) ys 0\<rparr>"
    and hq: "ys \<noteq> [] \<Longrightarrow> heap_hdr h' (of_nat (m + 20 + n)) =
        (heap_hdr h (of_nat (m + 20 + n)))\<lparr>blk_prev := of_nat m\<rparr>"
    and ho: "\<And>x. x < 4294967296 \<Longrightarrow> x < m \<or> m + 20 + n < x \<Longrightarrow>
        heap_hdr h' (of_nat x) = heap_hdr h (of_nat x)"
    and tl: "kheap_tail h' = (if ys = [] then of_nat m else kheap_tail h)"
    and env: "kheap_base h' = kheap_base h" "kheap_enabled h' = kheap_enabled h"
        "kheap_head h' = kheap_head h"
  shows "kheap_shape h' (xs @ (n, f) # ys)"
proof -
  have "kheap_shape h' (xs @ [(n, f)] @ ys)"
    by (rule kheap_shape_splice [where mid = "[(n1, f1), (n2, f2)]" and h = h and m = m
          and y = "m + 20 + n"])
       (use sh n hq tl env m hm ho in \<open>simp_all del: of_nat_add\<close>)
  then show ?thesis by simp
qed

lemma kheap_shape_next_prev:
  assumes "kheap_shape h (xs @ mid @ ys)" and "mid \<noteq> []" and "ys \<noteq> []"
  shows "blk_prev (heap_hdr h (of_nat (unat (kheap_base h) + extent xs + extent mid))) =
         last_ptr 0 (unat (kheap_base h) + extent xs) mid"
proof -
  obtain n f zs where ys: "ys = (n, f) # zs" using assms(3) by (cases ys) auto
  have "kheap_shape h ((xs @ mid) @ (n, f) # zs)" using assms(1) ys by simp
  from kheap_shape_middle [OF this] show ?thesis
    using last_ptr_nonempty [OF assms(2), of "last_ptr 0 (unat (kheap_base h)) xs"
        "unat (kheap_base h) + extent xs" 0]
    by (simp add: last_ptr_append add.assoc)
qed

definition carve_blks :: "nat \<Rightarrow> nat \<Rightarrow> ablk list" where
  "carve_blks n s = (if 20 < n - s then [(s, False), (n - s - 20, True)] else [(n, False)])"

lemma carve_blks_props:
  "carve_blks n s \<noteq> []" "s \<le> n \<Longrightarrow> extent (carve_blks n s) = 20 + n"
  by (auto simp: carve_blks_def)

lemma kheap_carve_block_shape:
  assumes sh: "kheap_shape h (xs @ (n, f) # ys)" and s: "s \<le> n"
    and m: "m = unat (kheap_base h) + extent xs"
  shows "\<exists>h'. kheap_carve_block (of_nat s) (of_nat m) h = (of_nat (m + 20), h') \<and>
     kheap_shape h' (xs @ carve_blks n s @ ys) \<and> heap_data h' = heap_data h \<and>
     kheap_base h' = kheap_base h"
proof -
  let ?a = "unat (kheap_base h)" let ?q = "first_ptr (m + 20 + n) ys 0"
  note b = kheap_shape_bounds [OF sh]
  have bm: "m + 20 + n + extent ys + 8192 \<le> 4294967296" "0 < m" using b m by simp_all
  have hd: "heap_hdr h (of_nat m) = \<lparr>blk_magic = KHEAP_MAGIC, blk_size = of_nat n, blk_free = f,
      blk_prev = last_ptr 0 ?a xs, blk_next = ?q\<rparr>"
    using kheap_shape_middle [OF sh] m by simp
  have inj: "(of_nat x :: u32) = of_nat y \<longleftrightarrow> x = y" if "x < 4294967296" "y < 4294967296" for x y
    using that by (rule of_nat_u32_eq_iff)
  have q0: "?q = 0 \<longleftrightarrow> ys = []" using bm extent_pos [of ys]
    by (auto simp: first_ptr_def of_nat_u32_eq_0_iff simp del: of_nat_add)
  have rem: "(of_nat n - of_nat s :: u32) = of_nat (n - s)" using s by simp
  have rem_le: "sizeof_kheap_block < (of_nat (n - s) :: u32) \<longleftrightarrow> 20 < n - s"
    using bm s by (simp add: u32_less_iff heap_consts del: of_nat_diff)
  have rb: "(of_nat m + of_nat s + sizeof_kheap_block :: u32) = of_nat (m + 20 + s)"
    by (simp add: heap_consts add_ac)
  have ret: "(of_nat m + sizeof_kheap_block :: u32) = of_nat (m + 20)" by (simp add: heap_consts)
  show ?thesis
  proof (cases "20 < n - s")
    case False
    let ?h' = "set_hdr (of_nat m) (\<lambda>b. b\<lparr>blk_free := False\<rparr>) h"
    have "kheap_carve_block (of_nat s) (of_nat m) h = (of_nat (m + 20), ?h')"
      using False rem_le by (simp add: kheap_carve_block_def hd rem ret Let_def del: of_nat_add of_nat_diff)
    moreover have "kheap_shape ?h' (xs @ [(n, False)] @ ys)"
    proof (rule kheap_shape_splice [where mid = "[(n, f)]" and m = m and y = "m + 20 + n"])
      show "ys \<noteq> [] \<Longrightarrow> heap_hdr ?h' (of_nat (m + 20 + n)) =
          (heap_hdr h (of_nat (m + 20 + n)))\<lparr>blk_prev := last_ptr 0 m [(n, False)]\<rparr>"
        using kheap_shape_next_prev [of h xs "[(n, f)]" ys] sh bm m inj [of "m + 20 + n" m]
          extent_pos [of ys]
        by (simp add: set_hdr_def add_ac del: of_nat_add)
      show "ys = [] \<Longrightarrow> kheap_tail ?h' = last_ptr 0 m [(n, False)]"
        using sh m by (simp add: set_hdr_def kheap_shape_def last_ptr_append)
      show "heap_hdr ?h' (of_nat x) = heap_hdr h (of_nat x)"
        if "x < 4294967296" "x < m \<or> m + 20 + n < x" for x
        using that bm inj [of x m] by (auto simp: set_hdr_def)
    qed (use sh m hd in \<open>simp_all add: set_hdr_def\<close>)
    ultimately show ?thesis using False by (auto simp: carve_blks_def set_hdr_def)
  next
    case True
    let ?r = "m + 20 + s"
    have szr: "(of_nat (n - s) - sizeof_kheap_block :: u32) = of_nat (n - s - 20)"
      using True by (simp add: heap_consts)
    have neq: "(of_nat ?r :: u32) \<noteq> of_nat m" "ys \<noteq> [] \<Longrightarrow> ?q \<noteq> of_nat m" "ys \<noteq> [] \<Longrightarrow> ?q \<noteq> of_nat ?r"
      using bm True inj extent_pos [of ys] by (auto simp: first_ptr_def simp del: of_nat_add)
    define h' where "h' = snd (kheap_carve_block (of_nat s) (of_nat m) h)"
    have carve: "kheap_carve_block (of_nat s) (of_nat m) h = (of_nat (m + 20), h')"
      unfolding h'_def by (simp add: kheap_carve_block_def Let_def ret del: of_nat_add)
    have hm: "heap_hdr h' (of_nat m) = \<lparr>blk_magic = KHEAP_MAGIC, blk_size = of_nat s,
        blk_free = False, blk_prev = last_ptr 0 ?a xs, blk_next = of_nat ?r\<rparr>"
      and hr: "heap_hdr h' (of_nat ?r) = \<lparr>blk_magic = KHEAP_MAGIC,
        blk_size = of_nat (n - s - 20), blk_free = True, blk_prev = of_nat m, blk_next = ?q\<rparr>"
      and hq: "ys \<noteq> [] \<Longrightarrow> heap_hdr h' ?q = (heap_hdr h ?q)\<lparr>blk_prev := of_nat ?r\<rparr>"
      and ho: "\<And>x. x \<noteq> of_nat m \<Longrightarrow> x \<noteq> of_nat ?r \<Longrightarrow> (ys \<noteq> [] \<Longrightarrow> x \<noteq> ?q) \<Longrightarrow>
        heap_hdr h' x = heap_hdr h x"
      and tl: "kheap_tail h' = (if ys = [] then of_nat ?r else kheap_tail h)"
      and env: "heap_data h' = heap_data h" "kheap_base h' = kheap_base h"
        "kheap_enabled h' = kheap_enabled h" "kheap_head h' = kheap_head h"
      using True neq
      by (auto simp: h'_def kheap_carve_block_def Let_def hd rem rem_le rb szr q0 set_hdr_def
          simp del: of_nat_add of_nat_diff)
    have "kheap_shape h' (xs @ [(s, False), (n - s - 20, True)] @ ys)"
      by (rule kheap_shape_split [OF sh m _ refl])
         (use True s hm hr hq ho tl env in \<open>simp_all add: first_ptr_def del: of_nat_add of_nat_diff\<close>)
    then show ?thesis using True carve env by (auto simp: carve_blks_def)
  qed
qed

lemma kheap_align_block_shape:
  assumes sh: "kheap_shape h (xs @ (n, True) # ys)" and fit: "s + padding m \<le> n"
    and m: "m = unat (kheap_base h) + extent xs"
  shows "\<exists>h'. kheap_align_block (of_nat s) (of_nat m) h = Some (of_nat (m + padding m), h') \<and>
     kheap_shape h' ((if padding m = 0 then xs else xs @ [(padding m - 20, True)]) @
                     (n - padding m, True) # ys) \<and>
     heap_data h' = heap_data h \<and> kheap_base h' = kheap_base h"
proof -
  let ?a = "unat (kheap_base h)" let ?q = "first_ptr (m + 20 + n) ys 0" let ?p = "padding m"
  note b = kheap_shape_bounds [OF sh]
  have bm: "m + 20 + n + extent ys + 8192 \<le> 4294967296" "0 < m" using b m by simp_all
  have hd: "heap_hdr h (of_nat m) = \<lparr>blk_magic = KHEAP_MAGIC, blk_size = of_nat n, blk_free = True,
      blk_prev = last_ptr 0 ?a xs, blk_next = ?q\<rparr>"
    using kheap_shape_middle [OF sh] m by simp
  have al: "VMM_IS_ALIGNED (of_nat m + sizeof_kheap_block) \<longleftrightarrow> (m + 20) mod 4096 = 0"
    using bm by (intro aligned_word) simp
  show ?thesis
  proof (cases "(m + 20) mod 4096 = 0")
    case True
    then have "?p = 0" by (simp add: padding_def)
    then show ?thesis using True al sh by (simp add: kheap_align_block_def)
  next
    case False
    let ?r = "m + ?p"
    have p: "20 \<le> ?p" "?p < 4116" using False by (simp_all add: padding_bounds)
    have pb: "m + 4135 < 4294967296" using bm by simp
    note pw = padding_word(2) [OF pb False]
    have pd: "of_nat (m + 20 + ?p) - (of_nat m + sizeof_kheap_block) = (of_nat ?p :: u32)"
      by (simp add: heap_consts)
    have le: "of_nat s + of_nat ?p \<le> (of_nat n :: u32)"
      using fit bm by (simp add: u32_le_iff unat_u32_add_small)
    have w: "of_nat (m + 20 + ?p) - sizeof_kheap_block = (of_nat ?r :: u32)"
      "of_nat n - of_nat ?p = (of_nat (n - ?p) :: u32)"
      "of_nat ?p - sizeof_kheap_block = (of_nat (?p - 20) :: u32)"
      using fit p by (simp_all add: heap_consts)
    have inj: "(of_nat x :: u32) = of_nat y \<longleftrightarrow> x = y" if "x < 4294967296" "y < 4294967296" for x y
      using that by (rule of_nat_u32_eq_iff)
    have q0: "?q = 0 \<longleftrightarrow> ys = []" using bm extent_pos [of ys]
      by (auto simp: first_ptr_def of_nat_u32_eq_0_iff simp del: of_nat_add)
    have neq: "(of_nat ?r :: u32) \<noteq> of_nat m" "ys \<noteq> [] \<Longrightarrow> ?q \<noteq> of_nat m" "ys \<noteq> [] \<Longrightarrow> ?q \<noteq> of_nat ?r"
      using bm p fit inj extent_pos [of ys] by (auto simp: first_ptr_def simp del: of_nat_add)
    obtain h' where al_h': "kheap_align_block (of_nat s) (of_nat m) h = Some (of_nat ?r, h')"
      and h'_def: "h' = snd (the (kheap_align_block (of_nat s) (of_nat m) h))"
      using False le hd by (simp add: kheap_align_block_def Let_def al pw pd w del: of_nat_add of_nat_diff)
    have hm: "heap_hdr h' (of_nat m) = \<lparr>blk_magic = KHEAP_MAGIC, blk_size = of_nat (?p - 20),
        blk_free = True, blk_prev = last_ptr 0 ?a xs, blk_next = of_nat ?r\<rparr>"
      and hr: "heap_hdr h' (of_nat ?r) = \<lparr>blk_magic = KHEAP_MAGIC,
        blk_size = of_nat (n - ?p), blk_free = True, blk_prev = of_nat m, blk_next = ?q\<rparr>"
      and hq: "ys \<noteq> [] \<Longrightarrow> heap_hdr h' ?q = (heap_hdr h ?q)\<lparr>blk_prev := of_nat ?r\<rparr>"
      and ho: "\<And>x. x \<noteq> of_nat m \<Longrightarrow> x \<noteq> of_nat ?r \<Longrightarrow> (ys \<noteq> [] \<Longrightarrow> x \<noteq> ?q) \<Longrightarrow>
        heap_hdr h' x = heap_hdr h x"
      and tl: "kheap_tail h' = (if ys = [] then of_nat ?r else kheap_tail h)"
      and env: "heap_data h' = heap_data h" "kheap_base h' = kheap_base h"
        "kheap_enabled h' = kheap_enabled h" "kheap_head h' = kheap_head h"
      using False neq
      by (auto simp: h'_def kheap_align_block_def Let_def al pw pd le hd w q0 set_hdr_def
          simp del: of_nat_add of_nat_diff)
    have "kheap_shape h' (xs @ [(?p - 20, True), (n - ?p, True)] @ ys)"
      by (rule kheap_shape_split [OF sh m, where r = ?r])
         (use p fit hm hr hq ho tl env in \<open>simp_all add: first_ptr_def del: of_nat_add of_nat_diff\<close>)
    then show ?thesis using p al_h' env by auto
  qed
qed

subsection \<open>kmalloc implements best-fit allocation\<close>

text \<open>The blocks that replace a free block of size \<open>n\<close> after padding and carving.\<close>

definition alloc_blks :: "nat \<Rightarrow> nat \<Rightarrow> nat \<Rightarrow> ablk list" where
  "alloc_blks p n s = (if p = 0 then [] else [(p - 20, True)]) @ carve_blks (n - p) s"

definition alloc_pad :: "bool \<Rightarrow> nat \<Rightarrow> nat" where
  "alloc_pad align m = (if align then padding m else 0)"

lemma coalesced_replace:
  assumes "coalesced (xs @ (n, True) # ys)"
  shows "coalesced (xs @ alloc_blks p n s @ ys)"
  using assms
  by (auto simp: coalesced_def alloc_blks_def carve_blks_def successively_append_iff
      successively_Cons)

lemma used_nonempty_replace:
  assumes "used_nonempty (xs @ (n, True) # ys)" and "0 < s" and "s + p \<le> n"
  shows "used_nonempty (xs @ alloc_blks p n s @ ys)"
  using assms by (auto simp: used_nonempty_def alloc_blks_def carve_blks_def)

lemma kmalloc_heap_block:
  assumes sh: "kheap_shape h (xs @ (n, True) # ys)"
    and m: "m = unat (kheap_base h) + extent xs"
    and fit: "unat sz + alloc_pad align m \<le> n"
    and scan: "kheap_find_best_fit (heap_hdr h) sz align (kheap_head h) 0 = Some (of_nat m)"
    and sz: "sz \<noteq> 0"
  shows "\<exists>h'. kmalloc_heap sz align h = Ret (of_nat (m + alloc_pad align m + 20), h') \<and>
     kheap_shape h' (xs @ alloc_blks (alloc_pad align m) n (unat sz) @ ys) \<and>
     heap_data h' = heap_data h \<and> kheap_base h' = kheap_base h"
proof -
  have m0: "(of_nat m :: u32) \<noteq> 0"
    using kheap_shape_bounds [OF sh] m by (simp add: of_nat_u32_eq_0_iff del: of_nat_add)
  have szw: "sz = of_nat (unat sz)" by simp
  show ?thesis
  proof (cases align)
    case False
    have "\<exists>h'. kheap_carve_block sz (of_nat m) h = (of_nat (m + 20), h') \<and>
        kheap_shape h' (xs @ carve_blks n (unat sz) @ ys) \<and> heap_data h' = heap_data h \<and>
        kheap_base h' = kheap_base h"
      using kheap_carve_block_shape [OF sh _ m, of "unat sz"] fit False by (simp add: alloc_pad_def)
    then show ?thesis using scan m0 sz False
      by (auto simp: kmalloc_heap_def alloc_pad_def alloc_blks_def)
  next
    case True
    let ?p = "padding m"
    let ?xs = "if ?p = 0 then xs else xs @ [(?p - 20, True)]"
    from True fit have fit': "unat sz + ?p \<le> n" by (simp add: alloc_pad_def)
    from kheap_align_block_shape [OF sh fit' m] obtain h1 where
      al: "kheap_align_block sz (of_nat m) h = Some (of_nat (m + ?p), h1)"
      and sh1: "kheap_shape h1 (?xs @ (n - ?p, True) # ys)"
      and d1: "heap_data h1 = heap_data h" "kheap_base h1 = kheap_base h"
      using szw by (auto simp del: of_nat_add)
    have m1: "m + ?p = unat (kheap_base h1) + extent ?xs"
      using m d1(2) padding_bounds(1) [of m] by (auto simp: padding_def)
    have fit2: "unat sz \<le> n - ?p" using fit' by simp
    from kheap_carve_block_shape [OF sh1 fit2 m1] obtain h2 where
      "kheap_carve_block sz (of_nat (m + ?p)) h1 = (of_nat (m + ?p + 20), h2)"
      "kheap_shape h2 (?xs @ carve_blks (n - ?p) (unat sz) @ ys)"
      "heap_data h2 = heap_data h1" "kheap_base h2 = kheap_base h1"
      using szw by (auto simp del: of_nat_add)
    then show ?thesis using scan m0 sz True al d1
      by (auto simp: kmalloc_heap_def alloc_pad_def alloc_blks_def simp del: of_nat_add split: if_splits)
  qed
qed

lemma split_at_nth: "i < length bs \<Longrightarrow> \<exists>xs ys. bs = xs @ bs ! i # ys \<and> length xs = i"
  by (metis id_take_nth_drop length_take min.absorb4)

theorem kmalloc_heap_refines:
  assumes repr: "kheap_repr h bs" and sz: "sz \<noteq> 0"
  defines "a \<equiv> unat (kheap_base h)"
  shows "(no_fit a (unat sz) align bs \<and> kmalloc_heap sz align h = Ret (0, h)) \<or>
     (\<exists>xs n ys m h'. bs = xs @ (n, True) # ys \<and> m = a + extent xs \<and>
        best_fit a (unat sz) align bs (length xs) \<and> unat sz + alloc_pad align m \<le> n \<and>
        kmalloc_heap sz align h = Ret (of_nat (m + alloc_pad align m + 20), h') \<and>
        kheap_repr h' (xs @ alloc_blks (alloc_pad align m) n (unat sz) @ ys) \<and>
        heap_data h' = heap_data h \<and> kheap_base h' = kheap_base h)"
proof -
  from find_best_fit_correct [OF repr] obtain r where
    scan: "kheap_find_best_fit (heap_hdr h) sz align (kheap_head h) 0 = Some r"
    and r: "scan_result a (unat sz) align bs r" unfolding a_def by blast
  from r consider "r = 0" "no_fit a (unat sz) align bs"
    | i where "best_fit a (unat sz) align bs i" "r = of_nat (blk_addr a bs i)"
    by (auto simp: scan_result_def)
  then show ?thesis
  proof cases
    case 1
    then show ?thesis using scan sz by (simp add: kmalloc_heap_def)
  next
    case (2 i)
    from 2(1) have i: "i < length bs" by (simp add: best_fit_def)
    obtain xs b ys where bs: "bs = xs @ b # ys" "length xs = i" using split_at_nth [OF i] by metis
    obtain n f where b: "b = (n, f)" by (cases b)
    have bi: "bs ! i = (n, f)" "blk_addr a bs i = a + extent xs"
      using bs b by (simp_all add: nth_append blk_addr_def flip: bs(2))
    from 2(1) bi have f: f and fit: "unat sz + alloc_pad align (a + extent xs) \<le> n"
      by (simp_all add: best_fit_def fits_def alloc_pad_def)
    have sh: "kheap_shape h (xs @ (n, True) # ys)" using repr bs b f by (simp add: kheap_repr_def)
    have scan': "kheap_find_best_fit (heap_hdr h) sz align (kheap_head h) 0 =
        Some (of_nat (a + extent xs))" using scan 2(2) bi by simp
    from kmalloc_heap_block [OF sh _ fit scan' sz] obtain h' where
      h': "kmalloc_heap sz align h = Ret (of_nat (a + extent xs + alloc_pad align (a + extent xs) + 20), h')"
      "kheap_shape h' (xs @ alloc_blks (alloc_pad align (a + extent xs)) n (unat sz) @ ys)"
      "heap_data h' = heap_data h" "kheap_base h' = kheap_base h"
      unfolding a_def by auto
    have "kheap_repr h' (xs @ alloc_blks (alloc_pad align (a + extent xs)) n (unat sz) @ ys)"
      using h'(2) repr bs b f fit sz
      by (simp add: kheap_repr_def coalesced_replace used_nonempty_replace unat_gt_0)
    then show ?thesis using h' 2(1) bs b f fit by blast
  qed
qed

end
