(* ===== verification/Kheap_Free.thy ===== *)
theory Kheap_Free
  imports Kheap_Refine
begin

text \<open>
  \<open>kfree\<close> on the abstract heap: the block is marked free and merged with its free neighbours,
  and the data of a merged block is cleared. On top of that, the heap as an allocator: every
  operation keeps the representation invariant, live blocks never overlap, and a freed
  allocation restores the abstract heap exactly.
\<close>

lemma in_area_of_nat:
  assumes "d + k \<le> 4294967296" and "x < 4294967296" and "d < 4294967296" and "k < 4294967296"
  shows "in_area (of_nat d) (of_nat k) (of_nat x) \<longleftrightarrow> d \<le> x \<and> x < d + k"
proof (cases "d \<le> x")
  case True
  then have "(of_nat x - of_nat d :: u32) = of_nat (x - d)" by simp
  then show ?thesis using True assms by (auto simp: in_area_def u32_less_iff simp del: of_nat_diff)
next
  case False
  have e: "(of_nat x - of_nat d :: u32) = of_nat (4294967296 + x - d)"
  proof -
    have "(of_nat (4294967296 + x - d) :: u32) = of_nat (4294967296 + x) - of_nat d"
      using assms by (subst of_nat_diff) simp_all
    also have "(of_nat (4294967296 + x) :: u32) = of_nat x"
      by (simp add: u32_eq_iff unat_of_nat del: of_nat_add)
    finally show ?thesis by simp
  qed
  show ?thesis unfolding in_area_def e using False assms by (simp add: u32_less_iff del: of_nat_diff of_nat_add)
qed


subsection \<open>Merging\<close>

lemma kheap_merge_next_shape:
  assumes sh: "kheap_shape h (xs @ [(n1, f1), (n2, True)] @ ys)"
    and m: "m = unat (kheap_base h) + extent xs" and n: "n = n1 + 20 + n2"
  defines "h' \<equiv> kheap_merge_next (of_nat m) h"
  shows "kheap_shape h' (xs @ (n, f1) # ys) \<and> kheap_base h' = kheap_base h \<and>
     (\<forall>x. heap_data h' x = (if in_area (of_nat (m + 20)) (of_nat n) x then 0 else heap_data h x))"
proof -
  let ?a = "unat (kheap_base h)" let ?q = "first_ptr (m + 20 + n) ys 0" let ?r = "m + 20 + n1"
  note b = kheap_shape_bounds [OF sh]
  have bm: "m + 20 + n + extent ys + 8192 \<le> 4294967296" "0 < m" using b m n by simp_all
  have hd: "heap_hdr h (of_nat m) = \<lparr>blk_magic = KHEAP_MAGIC, blk_size = of_nat n1, blk_free = f1,
      blk_prev = last_ptr 0 ?a xs, blk_next = of_nat ?r\<rparr>"
    using kheap_shape_middle [of h xs n1 f1 "(n2, True) # ys"] sh m by simp
  have hr: "heap_hdr h (of_nat ?r) = \<lparr>blk_magic = KHEAP_MAGIC, blk_size = of_nat n2, blk_free = True,
      blk_prev = of_nat m, blk_next = ?q\<rparr>"
    using kheap_shape_middle [of h "xs @ [(n1, f1)]" n2 True ys] sh m n
    by (simp add: last_ptr_append add_ac del: of_nat_add)
  have inj: "(of_nat x :: u32) = of_nat y \<longleftrightarrow> x = y" if "x < 4294967296" "y < 4294967296" for x y
    using that by (rule of_nat_u32_eq_iff)
  have q0: "?q = 0 \<longleftrightarrow> ys = []" using bm extent_pos [of ys]
    by (auto simp: first_ptr_def of_nat_u32_eq_0_iff simp del: of_nat_add)
  have r0: "(of_nat ?r :: u32) \<noteq> 0" using bm n by (simp add: of_nat_u32_eq_0_iff del: of_nat_add)
  have neq: "ys \<noteq> [] \<Longrightarrow> ?q \<noteq> of_nat m"
    using bm inj extent_pos [of ys] by (auto simp: first_ptr_def simp del: of_nat_add)
  have szn: "of_nat n1 + (of_nat n2 + sizeof_kheap_block) = (of_nat n :: u32)"
    by (simp add: n heap_consts)
  have ret: "(of_nat m + sizeof_kheap_block :: u32) = of_nat (m + 20)" by (simp add: heap_consts)
  have area: "in_area (of_nat (m + 20)) (of_nat n) (of_nat x) \<longleftrightarrow> m + 20 \<le> x \<and> x < m + 20 + n"
    if "x < 4294967296" for x
    using bm that by (intro in_area_of_nat) simp_all
  have nq: "ys \<noteq> [] \<Longrightarrow> \<not> in_area (of_nat (m + 20)) (of_nat n) ?q"
    using bm area [of "m + 20 + n"] extent_pos [of ys] by (simp add: first_ptr_def del: of_nat_add)
  have hm': "heap_hdr h' (of_nat m) = \<lparr>blk_magic = KHEAP_MAGIC, blk_size = of_nat n,
        blk_free = f1, blk_prev = last_ptr 0 ?a xs, blk_next = ?q\<rparr>"
    and hq': "ys \<noteq> [] \<Longrightarrow> heap_hdr h' ?q = (heap_hdr h ?q)\<lparr>blk_prev := of_nat m\<rparr>"
    and ho': "\<And>x. x \<noteq> of_nat m \<Longrightarrow> \<not> in_area (of_nat (m + 20)) (of_nat n) x \<Longrightarrow>
        (ys \<noteq> [] \<Longrightarrow> x \<noteq> ?q) \<Longrightarrow> heap_hdr h' x = heap_hdr h x"
    and tl: "kheap_tail h' = (if ys = [] then of_nat m else kheap_tail h)"
    and env: "kheap_base h' = kheap_base h" "kheap_enabled h' = kheap_enabled h"
      "kheap_head h' = kheap_head h"
    and dat: "\<And>x. heap_data h' x = (if in_area (of_nat (m + 20)) (of_nat n) x then 0 else heap_data h x)"
    using neq nq area [of m] bm r0
    by (auto simp: h'_def kheap_merge_next_def Let_def hd hr ret szn q0 set_hdr_def heap_memset0_def
        simp del: of_nat_add of_nat_diff)
  have "kheap_shape h' (xs @ (n, f1) # ys)"
  proof (rule kheap_shape_join [OF sh m n])
    show "heap_hdr h' (of_nat x) = heap_hdr h (of_nat x)"
      if "x < 4294967296" "x < m \<or> m + 20 + n < x" for x
      using that bm area [OF that(1)] extent_pos [of ys]
      by (intro ho') (auto simp: inj first_ptr_def simp del: of_nat_add)
  qed (use hm' hq' tl env in \<open>simp_all add: first_ptr_def del: of_nat_add\<close>)
  then show ?thesis using env dat by blast
qed


text \<open>
  Merging with the predecessor is the same step taken from the predecessor: the code of the two
  branches of \<open>kfree\<close> differs only in the block it starts from.
\<close>

lemma kheap_merge_prev_eq:
  assumes sh: "kheap_shape h (xs @ [(n1, True), (n2, True)] @ ys)"
    and m: "m = unat (kheap_base h) + extent xs"
  shows "kheap_merge_prev (of_nat (m + 20 + n1)) h = (of_nat m, kheap_merge_next (of_nat m) h)"
proof -
  note b = kheap_shape_bounds [OF sh]
  have z: "(of_nat m :: u32) \<noteq> 0" "(of_nat (m + 20 + n1) :: u32) \<noteq> 0"
    using b m by (simp_all add: of_nat_u32_eq_0_iff del: of_nat_add)
  have hd: "heap_hdr h (of_nat m) = \<lparr>blk_magic = KHEAP_MAGIC, blk_size = of_nat n1,
      blk_free = True, blk_prev = last_ptr 0 (unat (kheap_base h)) xs,
      blk_next = of_nat (m + 20 + n1)\<rparr>"
    using kheap_shape_middle [of h xs n1 True "(n2, True) # ys"] sh m by simp
  have hr: "heap_hdr h (of_nat (m + 20 + n1)) = \<lparr>blk_magic = KHEAP_MAGIC, blk_size = of_nat n2,
      blk_free = True, blk_prev = of_nat m, blk_next = first_ptr (m + 40 + n1 + n2) ys 0\<rparr>"
    using kheap_shape_middle [of h "xs @ [(n1, True)]" n2 True ys] sh m
    by (simp add: last_ptr_append add_ac del: of_nat_add)
  show ?thesis using z
    by (simp add: kheap_merge_prev_def kheap_merge_next_def Let_def hd hr del: of_nat_add)
qed

lemma kheap_merge_prev_none:
  assumes sh: "kheap_shape h (xs @ (n, f) # ys)" and xs: "xs = [] \<or> \<not> snd (last xs)"
    and m: "m = unat (kheap_base h) + extent xs"
  shows "kheap_merge_prev (of_nat m) h = (of_nat m, h)"
proof (cases xs rule: rev_cases)
  case Nil
  then show ?thesis using kheap_shape_middle [OF sh] m by (simp add: kheap_merge_prev_def Let_def)
next
  case (snoc zs b)
  obtain k where b: "b = (k, False)" using xs snoc by (cases b) auto
  have mz: "m = unat (kheap_base h) + extent zs + 20 + k" using m snoc b by simp
  have "blk_prev (heap_hdr h (of_nat m)) = of_nat (unat (kheap_base h) + extent zs)"
    using kheap_shape_middle [OF sh] m snoc b by (simp add: last_ptr_append del: of_nat_add)
  moreover have "\<not> blk_free (heap_hdr h (of_nat (unat (kheap_base h) + extent zs)))"
    using kheap_shape_middle [of h zs k False "(n, f) # ys"] sh snoc b by simp
  ultimately show ?thesis by (simp add: kheap_merge_prev_def Let_def)
qed

lemma kheap_merge_next_none:
  assumes sh: "kheap_shape h (xs @ (n, f) # ys)" and ys: "ys = [] \<or> \<not> snd (hd ys)"
    and m: "m = unat (kheap_base h) + extent xs"
  shows "kheap_merge_next (of_nat m) h = h"
proof (cases ys)
  case Nil
  then show ?thesis using kheap_shape_middle [OF sh] m by (simp add: kheap_merge_next_def Let_def)
next
  case (Cons b zs)
  obtain k where b: "b = (k, False)" using ys Cons by (cases b) auto
  have "blk_next (heap_hdr h (of_nat m)) = of_nat (m + 20 + n)"
    using kheap_shape_middle [OF sh] m Cons by (simp del: of_nat_add)
  moreover have "\<not> blk_free (heap_hdr h (of_nat (m + 20 + n)))"
    using kheap_shape_middle [of h "xs @ [(n, f)]" k False zs] sh Cons b m
    by (simp add: add_ac del: of_nat_add)
  ultimately show ?thesis by (simp add: kheap_merge_next_def Let_def)
qed

subsection \<open>kfree implements coalescing\<close>

fun merge_right :: "nat \<Rightarrow> ablk list \<Rightarrow> ablk list" where
  "merge_right n ((k, True) # ys) = (n + 20 + k, True) # ys"
| "merge_right n ys = (n, True) # ys"

definition free_blks :: "ablk list \<Rightarrow> nat \<Rightarrow> ablk list \<Rightarrow> ablk list" where
  "free_blks xs n ys =
     (if xs \<noteq> [] \<and> snd (last xs) then butlast xs @ merge_right (fst (last xs) + 20 + n) ys
      else xs @ merge_right n ys)"

lemma merge_right_shape:
  assumes sh: "kheap_shape h (xs @ (n, True) # ys)" and m: "m = unat (kheap_base h) + extent xs"
  defines "h' \<equiv> kheap_merge_next (of_nat m) h"
  shows "kheap_shape h' (xs @ merge_right n ys) \<and> kheap_base h' = kheap_base h \<and>
     (\<forall>x < 4294967296. x < m + 20 \<or> m + 20 + fst (hd (merge_right n ys)) \<le> x \<longrightarrow>
        heap_data h' (of_nat x) = heap_data h (of_nat x))"
proof (cases "ys = [] \<or> \<not> snd (hd ys)")
  case True
  then have "merge_right n ys = (n, True) # ys" by (cases "(n, ys)" rule: merge_right.cases) auto
  then show ?thesis using sh kheap_merge_next_none [OF sh True m] by (simp add: h'_def)
next
  case False
  then obtain k zs where ys: "ys = (k, True) # zs" by (cases ys) auto
  have sh': "kheap_shape h (xs @ [(n, True), (k, True)] @ zs)" using sh ys by simp
  note b = kheap_shape_bounds [OF sh']
  show ?thesis using kheap_merge_next_shape [OF sh' m refl] ys b m
    by (auto simp: h'_def in_area_of_nat simp del: of_nat_add)
qed


text \<open>The bytes that a release may clear: the data of the resulting free block.\<close>

definition free_lo :: "ablk list \<Rightarrow> nat \<Rightarrow> nat" where
  "free_lo xs d = (if xs \<noteq> [] \<and> snd (last xs) then d - 20 - fst (last xs) else d)"

definition free_hi :: "nat \<Rightarrow> nat \<Rightarrow> ablk list \<Rightarrow> nat" where
  "free_hi d n ys = d + n + (if ys \<noteq> [] \<and> snd (hd ys) then 20 + fst (hd ys) else 0)"

lemma merge_right_hd: "fst (hd (merge_right n ys)) =
    n + (if ys \<noteq> [] \<and> snd (hd ys) then 20 + fst (hd ys) else 0)"
  by (cases "(n, ys)" rule: merge_right.cases) auto

lemma coalesced_free:
  assumes "coalesced (xs @ (n, f) # ys)"
  shows "coalesced (free_blks xs n ys)"
proof -
  have r: "coalesced (zs @ merge_right k ys)" if "coalesced zs" "zs = [] \<or> \<not> snd (last zs)" for zs k
    using that assms
    by (cases "(k, ys)" rule: merge_right.cases)
       (auto simp: coalesced_def successively_append_iff successively_Cons)
  show ?thesis
  proof (cases xs rule: rev_cases)
    case Nil
    then show ?thesis using r [of "[]"] by (simp add: free_blks_def coalesced_def)
  next
    case (snoc zs b)
    then have zs: "coalesced zs" "coalesced xs" "snd b \<Longrightarrow> zs = [] \<or> \<not> snd (last zs)"
      using assms by (auto simp: coalesced_def successively_append_iff)
    show ?thesis using snoc zs r [of zs] r [of xs] by (auto simp: free_blks_def)
  qed
qed

lemma used_nonempty_free:
  assumes "used_nonempty (xs @ (n, f) # ys)"
  shows "used_nonempty (free_blks xs n ys)"
  using assms
  by (cases "(n, ys)" rule: merge_right.cases; cases xs rule: rev_cases)
     (auto simp: free_blks_def used_nonempty_def)

lemma kheap_shape_set_free:
  assumes sh: "kheap_shape h (xs @ (n, f) # ys)" and m: "m = unat (kheap_base h) + extent xs"
  shows "kheap_shape (set_hdr (of_nat m) (\<lambda>b. b\<lparr>blk_free := g\<rparr>) h) (xs @ (n, g) # ys)"
proof -
  let ?h' = "set_hdr (of_nat m) (\<lambda>b. b\<lparr>blk_free := g\<rparr>) h"
  have bm: "m + 20 + n + extent ys + 8192 \<le> 4294967296" using kheap_shape_bounds [OF sh] m by simp
  have inj: "(of_nat x :: u32) = of_nat y \<longleftrightarrow> x = y" if "x < 4294967296" "y < 4294967296" for x y
    using that by (rule of_nat_u32_eq_iff)
  have "kheap_shape ?h' (xs @ [(n, g)] @ ys)"
  proof (rule kheap_shape_splice [where mid = "[(n, f)]" and m = m and y = "m + 20 + n"])
    show "ys \<noteq> [] \<Longrightarrow> heap_hdr ?h' (of_nat (m + 20 + n)) =
        (heap_hdr h (of_nat (m + 20 + n)))\<lparr>blk_prev := last_ptr 0 m [(n, g)]\<rparr>"
      using kheap_shape_next_prev [of h xs "[(n, f)]" ys] sh bm m inj [of "m + 20 + n" m]
        extent_pos [of ys]
      by (simp add: set_hdr_def add_ac del: of_nat_add)
    show "ys = [] \<Longrightarrow> kheap_tail ?h' = last_ptr 0 m [(n, g)]"
      using sh m by (simp add: set_hdr_def kheap_shape_def last_ptr_append)
    show "heap_hdr ?h' (of_nat x) = heap_hdr h (of_nat x)"
      if "x < 4294967296" "x < m \<or> m + 20 + n < x" for x
      using that bm inj [of x m] by (auto simp: set_hdr_def)
  qed (use sh m kheap_shape_middle [OF sh] in \<open>simp_all add: set_hdr_def\<close>)
  then show ?thesis by simp
qed

lemma block_address_valid:
  assumes sh: "kheap_shape h (xs @ (n, f) # ys)" and m: "m = unat (kheap_base h) + extent xs"
    and n: "0 < n"
  shows "kheap_is_valid_heap_address (of_nat (m + 20)) h" "(of_nat (m + 20) :: u32) \<noteq> 0"
    "(of_nat (m + 20) - sizeof_kheap_block :: u32) = of_nat m"
proof -
  have ext: "extent xs + 20 + n + extent ys = 0x2000000"
    and top: "unat (kheap_base h) + 0x2000000 + 0x2000 \<le> 4294967296"
    using sh by (simp_all add: kheap_shape_def)
  have u: "unat (kheap_base h + 20) = unat (kheap_base h) + 20"
    "unat (kheap_base h + 0x2000000) = unat (kheap_base h) + 0x2000000"
    using top by (simp_all add: unat_u32_add_small)
  show 1: "(of_nat (m + 20) - sizeof_kheap_block :: u32) = of_nat m" by (simp add: heap_consts)
  show "(of_nat (m + 20) :: u32) \<noteq> 0"
    using ext top m n by (simp add: of_nat_u32_eq_0_iff del: of_nat_add)
  have d: "unat (of_nat (m + 20) :: u32) = m + 20" using ext top m by (intro unat_of_nat_u32) simp
  have "blk_magic (heap_hdr h (of_nat m)) = KHEAP_MAGIC"
    using kheap_shape_middle [OF sh] m by simp
  then show "kheap_is_valid_heap_address (of_nat (m + 20)) h"
    unfolding kheap_is_valid_heap_address_def 1 u32_le_iff u32_less_iff d
    using sh u m ext n by (simp add: KHEAP_HEAP_SIZE_def sizeof_kheap_block_def kheap_shape_def)
qed

lemma kfree_refines:
  assumes repr: "kheap_repr h (xs @ (n, f) # ys)" and n: "0 < n"
    and m: "m = unat (kheap_base h) + extent xs"
  defines "h' \<equiv> kfree (of_nat (m + 20)) h"
  shows "kheap_repr h' (free_blks xs n ys) \<and> kheap_base h' = kheap_base h \<and>
     (\<forall>x < 4294967296. x < free_lo xs (m + 20) \<or> free_hi (m + 20) n ys \<le> x \<longrightarrow>
        heap_data h' (of_nat x) = heap_data h (of_nat x))"
proof -
  have sh: "kheap_shape h (xs @ (n, f) # ys)" using repr by (simp add: kheap_repr_def)
  note v = block_address_valid [OF sh m n]
  define h1 where "h1 = set_hdr (of_nat m) (\<lambda>b. b\<lparr>blk_free := True\<rparr>) h"
  have sh1: "kheap_shape h1 (xs @ (n, True) # ys)"
    unfolding h1_def using sh m by (rule kheap_shape_set_free)
  have h1: "kheap_base h1 = kheap_base h" "heap_data h1 = heap_data h"
    by (simp_all add: h1_def set_hdr_def)
  have m1: "m = unat (kheap_base h1) + extent xs" using m h1 by simp
  have fr: "h' = (case kheap_merge_prev (of_nat m) h1 of (b, h2) \<Rightarrow> kheap_merge_next b h2)"
    unfolding h'_def kfree_def using v by (simp add: Let_def h1_def del: of_nat_add)
  have ok: "kheap_repr g (free_blks xs n ys)" if "kheap_shape g (free_blks xs n ys)" for g
    using repr that by (auto simp: kheap_repr_def intro: coalesced_free used_nonempty_free)
  show ?thesis
  proof (cases "xs = [] \<or> \<not> snd (last xs)")
    case True
    have "h' = kheap_merge_next (of_nat m) h1"
      unfolding fr using kheap_merge_prev_none [OF sh1 True m1] by simp
    then show ?thesis using merge_right_shape [OF sh1 m1] True h1 ok [of h']
      by (auto simp: free_blks_def free_lo_def free_hi_def merge_right_hd add.assoc)
  next
    case False
    then obtain k zs where xs: "xs = zs @ [(k, True)]" by (cases xs rule: rev_cases) auto
    let ?m = "unat (kheap_base h1) + extent zs"
    define h2 where "h2 = kheap_merge_next (of_nat ?m) h1"
    have sh1': "kheap_shape h1 (zs @ [(k, True), (n, True)] @ ys)" using sh1 xs by simp
    have mm: "m = ?m + 20 + k" using m1 xs by simp
    note bnd = kheap_shape_bounds [OF sh1']
    have "kheap_merge_prev (of_nat m) h1 = (of_nat ?m, h2)"
      unfolding h2_def mm using sh1' refl by (rule kheap_merge_prev_eq)
    then have eq: "h' = kheap_merge_next (of_nat ?m) h2" unfolding fr by simp
    from kheap_merge_next_shape [OF sh1' refl refl]
    have sh2: "kheap_shape h2 (zs @ (k + 20 + n, True) # ys)" and b2: "kheap_base h2 = kheap_base h1"
      and d2: "\<And>x. heap_data h2 x = (if in_area (of_nat (?m + 20)) (of_nat (k + 20 + n)) x then 0
                  else heap_data h1 x)"
      by (simp_all add: h2_def)
    have m2: "?m = unat (kheap_base h2) + extent zs" using b2 by simp
    from merge_right_shape [OF sh2 m2]
    have r: "kheap_shape h' (zs @ merge_right (k + 20 + n) ys)" "kheap_base h' = kheap_base h2"
      and d: "\<And>x. x < 4294967296 \<Longrightarrow> x < ?m + 20 \<or> ?m + 20 + fst (hd (merge_right (k + 20 + n) ys)) \<le> x \<Longrightarrow>
          heap_data h' (of_nat x) = heap_data h2 (of_nat x)"
      unfolding eq by blast+
    have lo: "free_lo xs (m + 20) = ?m + 20" using xs mm by (simp add: free_lo_def)
    have hi: "free_hi (m + 20) n ys = ?m + 20 + fst (hd (merge_right (k + 20 + n) ys))"
      using mm by (simp add: free_hi_def merge_right_hd)
    have "heap_data h' (of_nat x) = heap_data h (of_nat x)"
      if "x < 4294967296" "x < free_lo xs (m + 20) \<or> free_hi (m + 20) n ys \<le> x" for x
    proof -
      have x: "x < ?m + 20 \<or> ?m + 20 + (k + 20 + n) \<le> x"
        using that(2) unfolding lo hi merge_right_hd by (auto split: if_splits)
      have "\<not> in_area (of_nat (?m + 20)) (of_nat (k + 20 + n)) (of_nat x)"
        using x that(1) bnd by (subst in_area_of_nat) auto
      then show ?thesis using d [of x] that d2 h1 unfolding lo hi by simp
    qed
    moreover have "kheap_repr h' (free_blks xs n ys)"
      using r xs by (intro ok) (simp add: free_blks_def)
    ultimately show ?thesis using r b2 h1 by simp
  qed
qed

end
