(* ===== verification/Allocator.thy ===== *)
theory Allocator
  imports Prelude
begin

text \<open>
  The contract of a dynamic memory allocator, as a locale: what \<open>kmalloc\<close>/\<open>kfree\<close> in the kernel
  promise to their callers. \<open>live s\<close> is the set of blocks in use as
  pairs (address of the data, usable size).

  The client lemmas are proved once from the contract: allocation never hands out memory that
  is in use, an allocation followed by its release changes nothing, and the contents of a block
  survive every run of allocations and releases of other blocks.
\<close>

locale allocator =
  fixes inv :: "'s \<Rightarrow> bool"
    and live :: "'s \<Rightarrow> (nat \<times> nat) set"
    and data :: "'s \<Rightarrow> u32 \<Rightarrow> u8"
    and alloc :: "u32 \<Rightarrow> 's \<Rightarrow> (u32 \<times> 's) kres"
    and release :: "u32 \<Rightarrow> 's \<Rightarrow> 's"
  assumes alloc_returns: "inv s \<Longrightarrow> \<exists>p s'. alloc n s = Ret (p, s')"
    and alloc_fail: "inv s \<Longrightarrow> alloc n s = Ret (0, s') \<Longrightarrow> s' = s"
    and alloc_live: "inv s \<Longrightarrow> alloc n s = Ret (p, s') \<Longrightarrow> p \<noteq> 0 \<Longrightarrow>
      inv s' \<and> data s' = data s \<and>
      (\<exists>k \<ge> unat n. live s' = insert (unat p, k) (live s) \<and> (unat p, k) \<notin> live s)"
    and live_bounds: "inv s \<Longrightarrow> (d, k) \<in> live s \<Longrightarrow> 0 < d \<and> 0 < k \<and> d + k \<le> 4294967296"
    and live_disjoint: "inv s \<Longrightarrow> (d, k) \<in> live s \<Longrightarrow> (d', k') \<in> live s \<Longrightarrow>
      (d, k) = (d', k') \<or> d + k \<le> d' \<or> d' + k' \<le> d"
    and release_live: "inv s \<Longrightarrow> (d, k) \<in> live s \<Longrightarrow>
      inv (release (of_nat d) s) \<and> live (release (of_nat d) s) = live s - {(d, k)}"
    and release_data: "inv s \<Longrightarrow> (d, k) \<in> live s \<Longrightarrow> (d', k') \<in> live s \<Longrightarrow> (d', k') \<noteq> (d, k) \<Longrightarrow>
      i < k' \<Longrightarrow> data (release (of_nat d) s) (of_nat (d' + i)) = data s (of_nat (d' + i))"

text \<open>A run of a client that never releases the block \<open>b\<close> and releases only live blocks.\<close>

inductive client_run ::
    "('s \<Rightarrow> (nat \<times> nat) set) \<Rightarrow> (u32 \<Rightarrow> 's \<Rightarrow> (u32 \<times> 's) kres) \<Rightarrow> (u32 \<Rightarrow> 's \<Rightarrow> 's) \<Rightarrow>
     nat \<times> nat \<Rightarrow> 's \<Rightarrow> 's \<Rightarrow> bool"
  for live alloc release b where
  run_refl: "client_run live alloc release b s s"
| run_alloc: "client_run live alloc release b s t \<Longrightarrow> alloc n t = Ret (p, u) \<Longrightarrow>
    client_run live alloc release b s u"
| run_release: "client_run live alloc release b s t \<Longrightarrow> (d, k) \<in> live t \<Longrightarrow> (d, k) \<noteq> b \<Longrightarrow>
    client_run live alloc release b s (release (of_nat d) t)"

context allocator
begin

lemma alloc_inv: "inv s \<Longrightarrow> alloc n s = Ret (p, s') \<Longrightarrow> inv s'"
  using alloc_fail alloc_live by (cases "p = 0") auto

lemma alloc_keeps_data: "inv s \<Longrightarrow> alloc n s = Ret (p, s') \<Longrightarrow> data s' = data s"
  using alloc_fail alloc_live by (cases "p = 0") auto

lemma alloc_keeps_live: "inv s \<Longrightarrow> alloc n s = Ret (p, s') \<Longrightarrow> live s \<subseteq> live s'"
  using alloc_fail alloc_live by (cases "p = 0") blast+

text \<open>The new block is disjoint from every block that was in use before.\<close>

lemma alloc_fresh:
  assumes "inv s" and "alloc n s = Ret (p, s')" and "p \<noteq> 0"
  shows "\<exists>k \<ge> unat n. (unat p, k) \<in> live s' \<and>
    (\<forall>(d, l) \<in> live s. unat p + k \<le> d \<or> d + l \<le> unat p)"
proof -
  from alloc_live [OF assms] obtain k where k: "unat n \<le> k" "live s' = insert (unat p, k) (live s)"
    "(unat p, k) \<notin> live s" and i: "inv s'" by blast
  have "unat p + k \<le> d \<or> d + l \<le> unat p" if "(d, l) \<in> live s" for d l
    using live_disjoint [OF i, of "unat p" k d l] that k by auto
  then show ?thesis using k by blast
qed

lemma alloc_release:
  assumes "inv s" and "alloc n s = Ret (p, s')" and "p \<noteq> 0"
  shows "inv (release p s') \<and> live (release p s') = live s"
proof -
  from alloc_live [OF assms] obtain k where k: "live s' = insert (unat p, k) (live s)"
    "(unat p, k) \<notin> live s" and i: "inv s'" by blast
  then show ?thesis using release_live [OF i, of "unat p" k] by auto
qed

lemma run_preserves:
  assumes "client_run live alloc release b s t" and "inv s" and "b \<in> live s"
  shows "inv t \<and> b \<in> live t \<and>
    (\<forall>i < snd b. data t (of_nat (fst b + i)) = data s (of_nat (fst b + i)))"
  using assms
proof (induction rule: client_run.induct)
  case (run_refl s)
  then show ?case by simp
next
  case (run_alloc s t n p u)
  then show ?case using alloc_inv [of t n p u] alloc_keeps_live [of t n p u]
      alloc_keeps_data [of t n p u] by auto
next
  case (run_release s t d k)
  then have t: "inv t" "b \<in> live t" "(d, k) \<in> live t" "(d, k) \<noteq> b" by simp_all
  have "data (release (of_nat d) t) (of_nat (fst b + i)) = data t (of_nat (fst b + i))"
    if "i < snd b" for i
    using release_data [OF t(1,3), of "fst b" "snd b" i] t that by simp
  then show ?case using run_release release_live [OF t(1,3)] t(4) by auto
qed

end

end
