(* ===== verification/Kheap_Alloc.thy ===== *)
theory Kheap_Alloc
  imports Kheap_Free Allocator
begin

text \<open>
  The kernel heap as an allocator: the blocks in use, the interpretation of the allocator
  contract on \<open>kmalloc\<close>, \<open>kmalloc_a\<close> and \<open>kfree\<close>, and what initialization, accounting,
  \<open>kcalloc\<close> and \<open>krealloc\<close> add to it.
\<close>

subsection \<open>Blocks in use\<close>

fun used_at :: "nat \<Rightarrow> ablk list \<Rightarrow> (nat \<times> nat) set" where
  "used_at a [] = {}"
| "used_at a ((n, f) # bs) = (if f then {} else {(a + 20, n)}) \<union> used_at (a + 20 + n) bs"

lemma used_at_append: "used_at a (xs @ ys) = used_at a xs \<union> used_at (a + extent xs) ys"
  by (induction xs arbitrary: a) (auto simp: add.assoc)

lemma used_at_bounds: "(d, k) \<in> used_at a bs \<Longrightarrow> a + 20 \<le> d \<and> d + k \<le> a + extent bs"
  by (induction bs arbitrary: a) (fastforce split: if_splits)+

lemma used_at_disjoint:
  "(d, k) \<in> used_at a bs \<Longrightarrow> (d', k') \<in> used_at a bs \<Longrightarrow>
     (d, k) = (d', k') \<or> d + k + 20 \<le> d' \<or> d' + k' + 20 \<le> d"
proof (induction bs arbitrary: a)
  case Nil
  then show ?case by simp
next
  case (Cons b bs)
  obtain n f where b: "b = (n, f)" by (cases b)
  show ?case using Cons b used_at_bounds [of _ _ "a + 20 + n" bs]
    by (fastforce split: if_splits)
qed

lemma used_at_split:
  assumes "(d, k) \<in> used_at a bs"
  shows "\<exists>xs ys. bs = xs @ (k, False) # ys \<and> d = a + extent xs + 20"
  using assms
proof (induction bs arbitrary: a)
  case Nil
  then show ?case by simp
next
  case (Cons b bs)
  obtain n f where b: "b = (n, f)" by (cases b)
  show ?case
  proof (cases "(d, k) \<in> used_at (a + 20 + n) bs")
    case True
    then obtain xs ys where "bs = xs @ (k, False) # ys" "d = a + 20 + n + extent xs + 20"
      using Cons.IH by blast
    then have "b # bs = (b # xs) @ (k, False) # ys \<and> d = a + extent (b # xs) + 20"
      using b by simp
    then show ?thesis by blast
  next
    case False
    then have "b # bs = [] @ (k, False) # bs \<and> d = a + extent [] + 20"
      using Cons.prems b by (auto split: if_splits)
    then show ?thesis by blast
  qed
qed

lemma used_at_nonempty: "used_nonempty bs \<Longrightarrow> (d, k) \<in> used_at a bs \<Longrightarrow> 0 < k"
  by (induction bs arbitrary: a) (auto simp: used_nonempty_def split: if_splits)

lemma used_at_alloc:
  assumes "s + p \<le> n" and "p = 0 \<or> 20 \<le> p"
  shows "\<exists>k \<ge> s. used_at a (alloc_blks p n s) = {(a + p + 20, k)}"
  using assms by (auto simp: alloc_blks_def carve_blks_def)

lemma extent_alloc_blks: "s + p \<le> n \<Longrightarrow> p = 0 \<or> 20 \<le> p \<Longrightarrow> extent (alloc_blks p n s) = 20 + n"
  by (auto simp: alloc_blks_def carve_blks_def)

lemma used_at_free:
  "used_at a (free_blks xs n ys) = used_at a xs \<union> used_at (a + extent xs + 20 + n) ys"
proof -
  have r: "used_at a (merge_right k ys) = used_at (a + 20 + k) ys" for a k
    by (cases "(k, ys)" rule: merge_right.cases) (auto simp: add_ac)
  show ?thesis
  proof (cases "xs \<noteq> [] \<and> snd (last xs)")
    case True
    then obtain zs k where "xs = zs @ [(k, True)]" by (cases xs rule: rev_cases) auto
    then show ?thesis by (simp add: free_blks_def used_at_append r add_ac)
  next
    case False
    then show ?thesis by (auto simp: free_blks_def used_at_append r add_ac)
  qed
qed

subsection \<open>The abstract heap is determined by the store\<close>

lemma heap_seg_unique:
  assumes "heap_seg mem p a bs e" and "heap_seg mem p a cs e"
    and "a + extent bs < 4294967296" and "a + extent cs < 4294967296" and "0 < a" and "e = 0"
    and "bs = [] \<longleftrightarrow> cs = []"
  shows "bs = cs"
  using assms
proof (induction bs arbitrary: p a cs)
  case Nil
  then show ?case by simp
next
  case (Cons b bs)
  then obtain c cs' where cs: "cs = c # cs'" by (cases cs) auto
  obtain n f m g where bc: "b = (n, f)" "c = (m, g)" by (cases b; cases c) auto
  have "(of_nat n :: u32) = of_nat m" "f = g"
    and nx: "first_ptr (a + 20 + n) bs e = first_ptr (a + 20 + m) cs' e"
    using Cons.prems cs bc by auto
  then have nm: "n = m" using Cons.prems cs bc by (simp add: of_nat_u32_eq_iff)
  have "bs = [] \<longleftrightarrow> cs' = []"
    using nx Cons.prems(3-6) cs bc
    by (auto simp: first_ptr_def of_nat_u32_eq_0_iff simp del: of_nat_add split: if_splits)
  then have "bs = cs'"
    using Cons.prems cs bc nm by (intro Cons.IH [of "of_nat a" "a + 20 + n" cs']) simp_all
  then show ?case using cs bc nm \<open>f = g\<close> by simp
qed

lemma kheap_repr_unique: "kheap_repr h bs \<Longrightarrow> kheap_repr h cs \<Longrightarrow> bs = cs"
  by (rule heap_seg_unique [of "heap_hdr h" 0 "unat (kheap_base h)" bs 0 cs])
     (auto simp: kheap_repr_def kheap_shape_def unat_gt_0)

definition kheap_live :: "kheap \<Rightarrow> (nat \<times> nat) set" where
  "kheap_live h = {b. \<exists>bs. kheap_repr h bs \<and> b \<in> used_at (unat (kheap_base h)) bs}"

lemma kheap_live_eq: "kheap_repr h bs \<Longrightarrow> kheap_live h = used_at (unat (kheap_base h)) bs"
  by (auto simp: kheap_live_def dest: kheap_repr_unique)


lemma kheap_live_split:
  assumes "kheap_repr h bs" and "(d, k) \<in> kheap_live h"
  shows "\<exists>xs ys. bs = xs @ (k, False) # ys \<and> d = unat (kheap_base h) + extent xs + 20 \<and> 0 < k"
  using used_at_split [of d k "unat (kheap_base h)" bs] used_at_nonempty [of bs d k] assms
  by (auto simp: kheap_live_eq kheap_repr_def)

subsection \<open>The allocator contract\<close>

lemma alloc_pad_cases: "alloc_pad align m = 0 \<or> 20 \<le> alloc_pad align m"
  using padding_bounds(1) [of m] by (auto simp: alloc_pad_def padding_def)

lemma kmalloc_heap_alloc:
  assumes inv: "kheap_inv h" and r: "kmalloc_heap sz align h = Ret (p, h')"
  shows "p = 0 \<Longrightarrow> h' = h"
    and "p \<noteq> 0 \<Longrightarrow> kheap_inv h' \<and> heap_data h' = heap_data h \<and>
      (\<exists>k \<ge> unat sz. kheap_live h' = insert (unat p, k) (kheap_live h) \<and> (unat p, k) \<notin> kheap_live h)"
    and "p \<noteq> 0 \<Longrightarrow> align \<Longrightarrow> unat p mod 4096 = 0"
proof -
  obtain bs where repr: "kheap_repr h bs" using inv by (auto simp: kheap_inv_def)
  let ?a = "unat (kheap_base h)"
  consider "sz = 0" "p = 0" "h' = h" | "sz \<noteq> 0" "p = 0" "h' = h"
    | xs n ys m where "sz \<noteq> 0" "bs = xs @ (n, True) # ys" "m = ?a + extent xs"
        "unat sz + alloc_pad align m \<le> n" "p = of_nat (m + alloc_pad align m + 20)"
        "kheap_repr h' (xs @ alloc_blks (alloc_pad align m) n (unat sz) @ ys)"
        "heap_data h' = heap_data h" "kheap_base h' = kheap_base h"
  proof (cases "sz = 0")
    case True
    then show ?thesis using r that(1) by (simp add: kmalloc_heap_def)
  next
    case False
    from kmalloc_heap_refines [OF repr False, of align] r show ?thesis
      using False that(2) that(3) by (auto simp del: of_nat_add)
  qed
  then have "(p = 0 \<longrightarrow> h' = h) \<and> (p \<noteq> 0 \<longrightarrow> kheap_inv h' \<and> heap_data h' = heap_data h \<and>
      (\<exists>k \<ge> unat sz. kheap_live h' = insert (unat p, k) (kheap_live h) \<and> (unat p, k) \<notin> kheap_live h) \<and>
      (align \<longrightarrow> unat p mod 4096 = 0))"
  proof cases
    case (3 xs n ys m)
    let ?p = "alloc_pad align m"
    have top: "?a + extent bs + 8192 \<le> 4294967296"
      using repr kheap_shape_bounds by (auto simp: kheap_repr_def)
    have up: "unat p = m + ?p + 20" using 3 top by (simp del: of_nat_add)
    from used_at_alloc [OF 3(4) alloc_pad_cases, of m] obtain k where
      k: "unat sz \<le> k" "used_at m (alloc_blks ?p n (unat sz)) = {(m + ?p + 20, k)}" by blast
    have live': "kheap_live h' = insert (unat p, k) (used_at ?a xs \<union> used_at (m + 20 + n) ys)"
      using kheap_live_eq [OF 3(6)] 3(3,8) k(2) extent_alloc_blks [OF 3(4) alloc_pad_cases]
      by (simp add: used_at_append up add_ac)
    have live: "kheap_live h = used_at ?a xs \<union> used_at (m + 20 + n) ys"
      using kheap_live_eq [OF repr] 3(2,3) by (simp add: used_at_append)
    have fresh: "(unat p, k) \<notin> kheap_live h"
      using used_at_bounds [of "unat p" k ?a xs] used_at_bounds [of "unat p" k "m + 20 + n" ys]
        up 3(3,4) k(1) 3(1) unat_gt_0 [of sz] unfolding live by auto
    have al: "align \<longrightarrow> unat p mod 4096 = 0"
      using padding_bounds(3) [of m] unfolding up by (simp add: alloc_pad_def add_ac)
    have p0: "p \<noteq> 0" using up by auto
    have "kheap_inv h'" using 3(6) by (auto simp: kheap_inv_def)
    moreover have "kheap_live h' = insert (unat p, k) (kheap_live h)" using live live' by simp
    ultimately show ?thesis using 3(7) k(1) fresh al p0 by blast
  qed simp_all
  then show "p = 0 \<Longrightarrow> h' = h"
    and "p \<noteq> 0 \<Longrightarrow> kheap_inv h' \<and> heap_data h' = heap_data h \<and>
      (\<exists>k \<ge> unat sz. kheap_live h' = insert (unat p, k) (kheap_live h) \<and> (unat p, k) \<notin> kheap_live h)"
    and "p \<noteq> 0 \<Longrightarrow> align \<Longrightarrow> unat p mod 4096 = 0"
    by blast+
qed

lemma kheap_inv_enabled: "kheap_inv h \<Longrightarrow> kheap_enabled h"
  by (auto simp: kheap_inv_def kheap_repr_def kheap_shape_def)

lemma kmalloc_heap_returns:
  assumes "kheap_inv h" shows "\<exists>p h'. kmalloc_heap sz align h = Ret (p, h')"
proof (cases "sz = 0")
  case True
  then show ?thesis by (simp add: kmalloc_heap_def)
next
  case False
  obtain bs where "kheap_repr h bs" using assms by (auto simp: kheap_inv_def)
  from kmalloc_heap_refines [OF this False] show ?thesis by blast
qed

lemma kmalloc_eq: "kheap_inv h \<Longrightarrow> kmalloc sz h = kmalloc_heap sz False h"
  and kmalloc_a_eq: "kheap_inv h \<Longrightarrow> kmalloc_a sz h = kmalloc_heap sz True h"
  by (simp_all add: kmalloc_def kmalloc_a_def kmalloc_int_def kheap_inv_enabled)

lemma kfree_live:
  assumes inv: "kheap_inv h" and dk: "(d, k) \<in> kheap_live h"
  shows "kheap_inv (kfree (of_nat d) h)"
    and "kheap_live (kfree (of_nat d) h) = kheap_live h - {(d, k)}"
    and "(d', k') \<in> kheap_live h \<Longrightarrow> (d', k') \<noteq> (d, k) \<Longrightarrow> i < k' \<Longrightarrow>
      heap_data (kfree (of_nat d) h) (of_nat (d' + i)) = heap_data h (of_nat (d' + i))"
proof -
  obtain bs where repr: "kheap_repr h bs" using inv by (auto simp: kheap_inv_def)
  let ?a = "unat (kheap_base h)" let ?h = "kfree (of_nat d) h"
  from kheap_live_split [OF repr dk] obtain xs ys where
    bs: "bs = xs @ (k, False) # ys" and d: "d = ?a + extent xs + 20" and k: "0 < k" by blast
  note f = kfree_refines [OF repr [unfolded bs] k refl, folded d]
  from f have r': "kheap_repr ?h (free_blks xs k ys)" and b': "kheap_base ?h = kheap_base h" by blast+
  then show "kheap_inv ?h" by (auto simp: kheap_inv_def)
  have live: "kheap_live h = insert (d, k) (used_at ?a xs \<union> used_at (d + k) ys)"
    using kheap_live_eq [OF repr] bs d by (simp add: used_at_append add_ac)
  have live': "kheap_live ?h = used_at ?a xs \<union> used_at (d + k) ys"
    using kheap_live_eq [OF r'] b' d by (simp add: used_at_free add_ac)
  have out: "(d, k) \<notin> used_at ?a xs \<union> used_at (d + k) ys"
    using used_at_bounds [of d k ?a xs] used_at_bounds [of d k "d + k" ys] d k by auto
  show "kheap_live ?h = kheap_live h - {(d, k)}" using live live' out by auto
  have top: "?a + extent bs + 8192 \<le> 4294967296"
    using repr kheap_shape_bounds by (auto simp: kheap_repr_def)
  assume o: "(d', k') \<in> kheap_live h" "(d', k') \<noteq> (d, k)" and i: "i < k'"
  then have w: "(d', k') \<in> used_at ?a xs \<union> used_at (d + k) ys" using live by blast
  have "d' + i < free_lo xs d \<or> free_hi d k ys \<le> d' + i"
  proof (cases "(d', k') \<in> used_at ?a xs")
    case True
    show ?thesis
    proof (cases "xs \<noteq> [] \<and> snd (last xs)")
      case l: True
      then obtain zs n where xs: "xs = zs @ [(n, True)]" by (cases xs rule: rev_cases) auto
      then have "(d', k') \<in> used_at ?a zs" using True by (simp add: used_at_append)
      from used_at_bounds [OF this] show ?thesis using i xs d by (simp add: free_lo_def)
    next
      case False
      then show ?thesis using used_at_bounds [OF True] i d by (auto simp: free_lo_def)
    qed
  next
    case False
    then have y: "(d', k') \<in> used_at (d + k) ys" using w by blast
    show ?thesis
    proof (cases ys)
      case Nil
      then show ?thesis using y by simp
    next
      case (Cons b zs)
      obtain n g where b: "b = (n, g)" by (cases b)
      show ?thesis using used_at_bounds [OF y] used_at_bounds [of d' k' "d + k + 20 + n" zs] y Cons b i
        by (auto simp: free_hi_def split: if_splits)
    qed
  qed
  moreover have "d' + i < 4294967296"
    using used_at_bounds [of d' k' ?a bs] o(1) i kheap_live_eq [OF repr] top by simp
  ultimately show "heap_data ?h (of_nat (d' + i)) = heap_data h (of_nat (d' + i))" using f by blast
qed

lemma kheap_live_bounds:
  assumes "kheap_inv h" and "(d, k) \<in> kheap_live h"
  shows "unat (kheap_base h) + 20 \<le> d \<and> 0 < k \<and> d + k \<le> unat (kheap_base h) + 0x2000000 \<and>
    unat (kheap_base h) + 0x2000000 + 0x2000 \<le> 4294967296"
proof -
  obtain bs where repr: "kheap_repr h bs" using assms by (auto simp: kheap_inv_def)
  have "(d, k) \<in> used_at (unat (kheap_base h)) bs" using assms kheap_live_eq [OF repr] by simp
  from used_at_bounds [OF this] used_at_nonempty [OF _ this] repr show ?thesis
    by (auto simp: kheap_repr_def kheap_shape_def)
qed

lemma kheap_live_disjoint:
  assumes "kheap_inv h" and "(d, k) \<in> kheap_live h" and "(d', k') \<in> kheap_live h"
  shows "(d, k) = (d', k') \<or> d + k \<le> d' \<or> d' + k' \<le> d"
proof -
  obtain bs where repr: "kheap_repr h bs" using assms by (auto simp: kheap_inv_def)
  show ?thesis using used_at_disjoint [of d k "unat (kheap_base h)" bs d' k'] assms kheap_live_eq [OF repr]
    by auto
qed

lemmas kheap_allocator_laws = kmalloc_heap_returns kmalloc_heap_alloc kheap_live_bounds
  kheap_live_disjoint kfree_live

interpretation kheap: allocator kheap_inv kheap_live heap_data kmalloc kfree
proof
  show "kheap_inv s \<Longrightarrow> \<exists>p s'. kmalloc n s = Ret (p, s')" for s n
    by (simp add: kmalloc_eq kmalloc_heap_returns)
  show "kheap_inv s \<Longrightarrow> kmalloc n s = Ret (0, s') \<Longrightarrow> s' = s" for s s' n
    using kmalloc_heap_alloc(1) [of s n False 0 s'] by (simp add: kmalloc_eq)
  show "kheap_inv s \<Longrightarrow> kmalloc n s = Ret (p, s') \<Longrightarrow> p \<noteq> 0 \<Longrightarrow>
      kheap_inv s' \<and> heap_data s' = heap_data s \<and>
      (\<exists>k \<ge> unat n. kheap_live s' = insert (unat p, k) (kheap_live s) \<and> (unat p, k) \<notin> kheap_live s)"
    for s s' n p
    using kmalloc_heap_alloc(2) [of s n False p s'] by (simp add: kmalloc_eq)
qed (use kheap_live_bounds kheap_live_disjoint kfree_live in \<open>fastforce+\<close>)


interpretation kheap_a: allocator kheap_inv kheap_live heap_data kmalloc_a kfree
proof
  show "kheap_inv s \<Longrightarrow> \<exists>p s'. kmalloc_a n s = Ret (p, s')" for s n
    by (simp add: kmalloc_a_eq kmalloc_heap_returns)
  show "kheap_inv s \<Longrightarrow> kmalloc_a n s = Ret (0, s') \<Longrightarrow> s' = s" for s s' n
    using kmalloc_heap_alloc(1) [of s n True 0 s'] by (simp add: kmalloc_a_eq)
  show "kheap_inv s \<Longrightarrow> kmalloc_a n s = Ret (p, s') \<Longrightarrow> p \<noteq> 0 \<Longrightarrow>
      kheap_inv s' \<and> heap_data s' = heap_data s \<and>
      (\<exists>k \<ge> unat n. kheap_live s' = insert (unat p, k) (kheap_live s) \<and> (unat p, k) \<notin> kheap_live s)"
    for s s' n p
    using kmalloc_heap_alloc(2) [of s n True p s'] by (simp add: kmalloc_a_eq)
qed (use kheap.live_bounds kheap.live_disjoint kfree_live in \<open>fastforce+\<close>)

subsection \<open>Stores into a block in use\<close>

text \<open>
  A program that writes only to the data of its own blocks leaves the heap structure alone,
  whatever the bytes are.
\<close>

lemma kheap_repr_store:
  assumes repr: "kheap_repr h bs" and dk: "(d, k) \<in> kheap_live h"
    and hdr: "\<And>x. \<not> in_area (of_nat d) (of_nat k) x \<Longrightarrow> heap_hdr h' x = heap_hdr h x"
    and env: "kheap_base h' = kheap_base h" "kheap_enabled h' = kheap_enabled h"
      "kheap_head h' = kheap_head h" "kheap_tail h' = kheap_tail h"
  shows "kheap_repr h' bs"
proof -
  let ?a = "unat (kheap_base h)"
  from kheap_live_split [OF repr dk] obtain xs ys where
    bs: "bs = xs @ (k, False) # ys" and d: "d = ?a + extent xs + 20" and k: "0 < k" by blast
  have sh: "kheap_shape h bs" using repr by (simp add: kheap_repr_def)
  have top: "?a + extent bs + 8192 \<le> 4294967296" using kheap_shape_bounds [OF sh] by simp
  have same: "heap_hdr h' (of_nat x) = heap_hdr h (of_nat x)"
    if "x < 4294967296" "x < d \<or> d + k \<le> x" for x
    using that top bs d by (intro hdr) (auto simp: in_area_of_nat simp del: of_nat_add)
  have seg: "heap_seg (heap_hdr h) 0 ?a (xs @ (k, False) # ys) 0"
    using sh bs by (simp add: kheap_shape_def)
  have 1: "heap_seg (heap_hdr h') 0 ?a xs (of_nat (?a + extent xs))"
    by (rule heap_seg_cong [where mem = "heap_hdr h"])
       (use seg same top bs d in \<open>auto simp: heap_seg_append\<close>)
  have 2: "heap_seg (heap_hdr h') (of_nat (?a + extent xs)) (?a + extent xs + 20 + k) ys 0"
    by (rule heap_seg_cong [where mem = "heap_hdr h"])
       (use seg same top bs d in \<open>auto simp: heap_seg_append\<close>)
  have "heap_seg (heap_hdr h') 0 ?a bs 0"
    using 1 2 seg same [of "?a + extent xs"] top bs d by (simp add: heap_seg_append)
  then show ?thesis using repr env by (simp add: kheap_repr_def kheap_shape_def)
qed

lemma kheap_store_live:
  assumes inv: "kheap_inv h" and dk: "(d, k) \<in> kheap_live h"
    and hdr: "\<And>x. \<not> in_area (of_nat d) (of_nat k) x \<Longrightarrow> heap_hdr h' x = heap_hdr h x"
    and env: "kheap_base h' = kheap_base h" "kheap_enabled h' = kheap_enabled h"
      "kheap_head h' = kheap_head h" "kheap_tail h' = kheap_tail h"
  shows "kheap_inv h' \<and> kheap_live h' = kheap_live h"
proof -
  obtain bs where repr: "kheap_repr h bs" using inv by (auto simp: kheap_inv_def)
  have "kheap_repr h' bs" using repr dk hdr env by (rule kheap_repr_store)
  then show ?thesis using kheap_live_eq [OF repr] kheap_live_eq env(1) by (auto simp: kheap_inv_def)
qed

lemma in_area_mono: "unat m \<le> k \<Longrightarrow> k < 4294967296 \<Longrightarrow> in_area d m x \<Longrightarrow> in_area d (of_nat k) x"
  by (auto simp: in_area_def u32_less_iff)

lemma heap_memset0_live:
  assumes "kheap_inv h" and "(d, k) \<in> kheap_live h" and "unat m \<le> k"
  shows "kheap_inv (heap_memset0 (of_nat d) m h)"
    and "kheap_live (heap_memset0 (of_nat d) m h) = kheap_live h"
proof -
  have "k < 4294967296" using kheap.live_bounds [OF assms(1,2)] by linarith
  then have "kheap_inv (heap_memset0 (of_nat d) m h) \<and>
      kheap_live (heap_memset0 (of_nat d) m h) = kheap_live h"
    using assms in_area_mono [OF assms(3)]
    by (intro kheap_store_live [OF assms(1,2)]) (auto simp: heap_memset0_def)
  then show "kheap_inv (heap_memset0 (of_nat d) m h)"
    "kheap_live (heap_memset0 (of_nat d) m h) = kheap_live h" by blast+
qed

lemma heap_memcpy_live:
  assumes "kheap_inv h" and "(d, k) \<in> kheap_live h" and "unat m \<le> k"
  shows "kheap_inv (heap_memcpy (of_nat d) src m h)"
    and "kheap_live (heap_memcpy (of_nat d) src m h) = kheap_live h"
proof -
  have "k < 4294967296" using kheap.live_bounds [OF assms(1,2)] by linarith
  then have "kheap_inv (heap_memcpy (of_nat d) src m h) \<and>
      kheap_live (heap_memcpy (of_nat d) src m h) = kheap_live h"
    using assms in_area_mono [OF assms(3)]
    by (intro kheap_store_live [OF assms(1,2)]) (auto simp: heap_memcpy_def)
  then show "kheap_inv (heap_memcpy (of_nat d) src m h)"
    "kheap_live (heap_memcpy (of_nat d) src m h) = kheap_live h" by blast+
qed

subsection \<open>Initialization\<close>

lemma kheap_init_repr:
  assumes "base \<noteq> 0" and "unat base + 0x2000000 + 0x2000 \<le> 0x100000000"
  shows "\<exists>h'. kheap_init base h = Ret h' \<and> kheap_repr h' [(0x2000000 - 20, True)] \<and>
    kheap_live h' = {}"
proof -
  obtain h' where i: "kheap_init base h = Ret h'" using assms by (auto simp: kheap_init_def)
  have "kheap_repr h' [(0x2000000 - 20, True)]"
    using i assms
    by (auto simp: kheap_init_def kheap_repr_def kheap_shape_def set_hdr_def coalesced_def
        used_nonempty_def heap_consts)
  then show ?thesis using i kheap_live_eq by fastforce
qed

end
