(* ===== verification/Kheap_Props.thy ===== *)
theory Kheap_Props
  imports Kheap_Alloc
begin

text \<open>
  Properties of the kernel heap: contents under \<open>kcalloc\<close> and \<open>krealloc\<close>, accounting, the
  placement allocator, and the safety of every heap reachable from \<open>kheap_init\<close>.
\<close>

subsection \<open>kcalloc and krealloc\<close>

lemma live_header:
  assumes "kheap_inv h" and "(d, k) \<in> kheap_live h"
  shows "blk_size (heap_hdr h (of_nat d - sizeof_kheap_block)) = of_nat k"
    and "kheap_is_valid_heap_address (of_nat d) h"
proof -
  obtain bs where repr: "kheap_repr h bs" using assms by (auto simp: kheap_inv_def)
  from kheap_live_split [OF repr assms(2)] obtain xs ys where
    bs: "bs = xs @ (k, False) # ys" and d: "d = unat (kheap_base h) + extent xs + 20"
    and k: "0 < k" by blast
  have sh: "kheap_shape h (xs @ (k, False) # ys)" using repr bs by (simp add: kheap_repr_def)
  show "blk_size (heap_hdr h (of_nat d - sizeof_kheap_block)) = of_nat k"
    unfolding d block_address_valid(3) [OF sh refl k] kheap_shape_middle [OF sh] by simp
  show "kheap_is_valid_heap_address (of_nat d) h"
    unfolding d using sh refl k by (rule block_address_valid(1))
qed

lemma kcalloc_correct:
  assumes inv: "kheap_inv h" and r: "kcalloc num sz h = Ret (p, h')"
  shows "kheap_inv h' \<and> (p = 0 \<longrightarrow> h' = h) \<and>
    (p \<noteq> 0 \<longrightarrow> (\<exists>k \<ge> unat (num * sz). kheap_live h' = insert (unat p, k) (kheap_live h) \<and>
                  (unat p, k) \<notin> kheap_live h \<and>
                  (\<forall>x. heap_data h' x = (if in_area p (num * sz) x then 0 else heap_data h x))))"
proof -
  from r obtain h1 where m: "kmalloc (num * sz) h = Ret (p, h1)"
    and h': "h' = (if p \<noteq> 0 then heap_memset0 p (num * sz) h1 else h1)"
    by (auto simp: kcalloc_def kbind_Ret_iff)
  show ?thesis
  proof (cases "p = 0")
    case True
    then show ?thesis using kheap.alloc_fail [OF inv, of "num * sz" h1] m h' inv by simp
  next
    case False
    from kheap.alloc_live [OF inv m False] obtain k where k: "unat (num * sz) \<le> k"
      "kheap_live h1 = insert (unat p, k) (kheap_live h)" "(unat p, k) \<notin> kheap_live h"
      and i1: "kheap_inv h1" and d1: "heap_data h1 = heap_data h" by blast
    have pk: "(unat p, k) \<in> kheap_live h1" using k by simp
    have "kheap_inv h'" "kheap_live h' = kheap_live h1"
      using heap_memset0_live [OF i1 pk k(1)] False h' by simp_all
    moreover have "heap_data h' x = (if in_area p (num * sz) x then 0 else heap_data h x)" for x
      using False d1 h' by (simp add: heap_memset0_def)
    ultimately show ?thesis using False k by auto
  qed
qed

lemma krealloc_correct:
  assumes inv: "kheap_inv h" and pk: "(unat ptr, k) \<in> kheap_live h" and sz: "sz \<noteq> 0"
    and r: "krealloc ptr sz h = Ret (p, h')"
  shows "kheap_inv h' \<and> (p = 0 \<longrightarrow> h' = h) \<and>
    (p \<noteq> 0 \<longrightarrow> (\<exists>l \<ge> unat sz. kheap_live h' = insert (unat p, l) (kheap_live h - {(unat ptr, k)}) \<and>
      (\<forall>i < k. heap_data h' (p + of_nat i) = heap_data h (ptr + of_nat i))) \<and>
      (\<forall>(d, n) \<in> kheap_live h - {(unat ptr, k)}. \<forall>i < n.
         heap_data h' (of_nat (d + i)) = heap_data h (of_nat (d + i))))"
proof -
  have hd: "blk_size (heap_hdr g (ptr - sizeof_kheap_block)) = of_nat k"
    and va: "kheap_is_valid_heap_address ptr g"
    if "kheap_inv g" "(unat ptr, k) \<in> kheap_live g" for g
    using live_header [OF that] by simp_all
  note lb = kheap.live_bounds [OF inv pk]
  have p0: "ptr \<noteq> 0" using lb by auto
  have uk: "unat (of_nat k :: u32) = k" using lb by simp
  show ?thesis
  proof (cases "sz \<le> of_nat k")
    case True
    then have "p = ptr" "h' = h" using r p0 sz va [OF inv pk] hd [OF inv pk]
      by (auto simp: krealloc_def)
    then show ?thesis using True uk inv pk p0 by (auto simp: u32_le_iff)
  next
    case False
    obtain h1 where m: "kmalloc sz h = Ret (p, h1)"
      and h': "h' = (if p = 0 then h1
        else kfree ptr (heap_memcpy p ptr (blk_size (heap_hdr h1 (ptr - sizeof_kheap_block))) h1))"
      using r p0 sz va [OF inv pk] hd [OF inv pk] False
      by (auto simp: krealloc_def kbind_Ret_iff split: if_splits)
    show ?thesis
    proof (cases "p = 0")
      case True
      then show ?thesis using kheap.alloc_fail [OF inv, of sz h1] m h' inv by simp
    next
      case np: False
      from kheap.alloc_live [OF inv m np] obtain l where l: "unat sz \<le> l"
        "kheap_live h1 = insert (unat p, l) (kheap_live h)" "(unat p, l) \<notin> kheap_live h"
        and i1: "kheap_inv h1" and d1: "heap_data h1 = heap_data h" by blast
      let ?h2 = "heap_memcpy p ptr (of_nat k) h1"
      have kl: "k < l" using False uk l(1) by (simp add: u32_le_iff)
      have pl: "(unat p, l) \<in> kheap_live h1" and pk1: "(unat ptr, k) \<in> kheap_live h1"
        using l pk by simp_all
      have ne: "(unat p, l) \<noteq> (unat ptr, k)" using l pk by metis
      have i2: "kheap_inv ?h2" and l2: "kheap_live ?h2 = kheap_live h1"
        using heap_memcpy_live [OF i1 pl, of "of_nat k" ptr] kl uk by simp_all
      have eq: "h' = kfree (of_nat (unat ptr)) ?h2" using h' np hd [OF i1 pk1] by simp
      have pk2: "(unat ptr, k) \<in> kheap_live ?h2" using pk1 l2 by simp
      note fr = kfree_live [OF i2 pk2, folded eq]
      have new: "heap_data h' (p + of_nat i) = heap_data h (ptr + of_nat i)" if "i < k" for i
      proof -
        have "heap_data h' (of_nat (unat p + i)) = heap_data ?h2 (of_nat (unat p + i))"
          using fr(3) [of "unat p" l i] ne pl l2 that kl by simp
        also have "\<dots> = heap_data h (ptr + of_nat i)"
          using that uk lb d1 by (simp add: heap_memcpy_def in_area_def u32_less_iff add.commute)
        finally show ?thesis by simp
      qed
      have old: "heap_data h' (of_nat (d + i)) = heap_data h (of_nat (d + i))"
        if dn: "(d, n) \<in> kheap_live h" "(d, n) \<noteq> (unat ptr, k)" and "i < n" for d n i
      proof -
        have b: "d + i < 4294967296" "unat p + k \<le> 4294967296"
          using kheap.live_bounds [OF inv dn(1)] kheap.live_bounds [OF i1 pl] that(3) kl by simp_all
        have "heap_data h' (of_nat (d + i)) = heap_data ?h2 (of_nat (d + i))"
          using fr(3) [of d n i] that l2 l by simp
        moreover have "\<not> in_area (of_nat (unat p)) (of_nat k) (of_nat (d + i))"
          using kheap.live_disjoint [OF i1 pl, of d n] that l kl b uk lb
          by (subst in_area_of_nat) (auto)
        ultimately show ?thesis using d1 by (simp add: heap_memcpy_def)
      qed
      have "kheap_live h' = insert (unat p, l) (kheap_live h - {(unat ptr, k)})"
        using fr(2) l2 l ne by auto
      then show ?thesis using fr(1) np l(1) new old by blast
    qed
  qed
qed


subsection \<open>Accounting\<close>

definition free_bytes :: "ablk list \<Rightarrow> nat" where
  "free_bytes bs = sum_list (map fst (filter snd bs))"

definition used_bytes :: "ablk list \<Rightarrow> nat" where
  "used_bytes bs = sum_list (map fst (filter (\<lambda>b. \<not> snd b) bs))"

lemma extent_bytes: "extent bs = 20 * length bs + free_bytes bs + used_bytes bs"
  by (induction bs) (auto simp: free_bytes_def used_bytes_def)

lemma kheap_sum_free_seg:
  assumes "heap_seg mem p a bs 0" and "0 < a" and "a + extent bs < 4294967296"
  shows "kheap_sum_free mem (first_ptr a bs 0) acc = Some (acc + of_nat (free_bytes bs))"
  using assms
proof (induction bs arbitrary: p a acc)
  case Nil
  then show ?case by (simp add: kheap_sum_free.simps free_bytes_def)
next
  case (Cons b bs)
  obtain n f where b: "b = (n, f)" by (cases b)
  have nz: "(of_nat a :: u32) \<noteq> 0" using Cons.prems b by (simp add: of_nat_u32_eq_0_iff)
  have IH: "kheap_sum_free mem (first_ptr (a + 20 + n) bs 0) acc' = Some (acc' + of_nat (free_bytes bs))"
    for acc' using Cons b by (intro Cons.IH [of "of_nat a"]) simp_all
  show ?case using Cons.prems b nz IH
    by (simp add: kheap_sum_free.simps [of mem "of_nat a"] free_bytes_def add_ac)
qed

lemma available_memory:
  assumes "kheap_repr h bs"
  shows "kheap_get_available_memory_size h = Some (of_nat (free_bytes bs))"
proof -
  have "kheap_sum_free (heap_hdr h) (first_ptr (unat (kheap_base h)) bs 0) 0 =
      Some (0 + of_nat (free_bytes bs))"
    by (rule kheap_sum_free_seg [of _ 0])
       (use assms in \<open>auto simp: kheap_repr_def kheap_shape_def unat_gt_0\<close>)
  then show ?thesis using assms
    by (simp add: kheap_get_available_memory_size_def kheap_repr_def kheap_shape_def first_ptr_def)
qed

subsection \<open>Allocation followed by release\<close>

lemma alloc_free_blks:
  assumes "coalesced (xs @ (n, True) # ys)" and "s + p \<le> n" and "p = 0 \<or> 20 \<le> p"
  shows "\<exists>us k vs. alloc_blks p n s = us @ (k, False) # vs \<and> extent us = p \<and> s \<le> k \<and>
    free_blks (xs @ us) k (vs @ ys) = xs @ (n, True) # ys"
proof -
  have x: "xs = [] \<or> \<not> snd (last xs)" and y: "ys = [] \<or> \<not> snd (hd ys)"
    using assms(1) by (auto simp: coalesced_def successively_append_iff successively_Cons)
  have ry: "merge_right k ys = (k, True) # ys" for k
    using y by (cases "(k, ys)" rule: merge_right.cases) auto
  let ?us = "if p = 0 then [] else [(p - 20, True)]"
  have "alloc_blks p n s = ?us @ (if 20 < n - p - s then s else n - p, False) #
      (if 20 < n - p - s then [(n - p - s - 20, True)] else [])"
    by (simp add: alloc_blks_def carve_blks_def)
  moreover have "free_blks (xs @ ?us) (if 20 < n - p - s then s else n - p)
      ((if 20 < n - p - s then [(n - p - s - 20, True)] else []) @ ys) = xs @ (n, True) # ys"
    using x ry assms(2,3) by (auto simp: free_blks_def)
  moreover have "extent ?us = p" "s \<le> (if 20 < n - p - s then s else n - p)" using assms by auto
  ultimately show ?thesis by blast
qed

lemma kmalloc_heap_kfree:
  assumes repr: "kheap_repr h bs" and r: "kmalloc_heap sz align h = Ret (p, h1)" and p: "p \<noteq> 0"
  shows "kheap_repr (kfree p h1) bs"
proof -
  have sz: "sz \<noteq> 0" using r p by (auto simp: kmalloc_heap_def)
  from kmalloc_heap_refines [OF repr sz, of align] r p obtain xs n ys m where
    bs: "bs = xs @ (n, True) # ys" and m: "m = unat (kheap_base h) + extent xs"
    and fit: "unat sz + alloc_pad align m \<le> n" and pe: "p = of_nat (m + alloc_pad align m + 20)"
    and r1: "kheap_repr h1 (xs @ alloc_blks (alloc_pad align m) n (unat sz) @ ys)"
    and b1: "kheap_base h1 = kheap_base h"
    by (auto simp del: of_nat_add)
  have co: "coalesced (xs @ (n, True) # ys)" using repr bs by (simp add: kheap_repr_def)
  from alloc_free_blks [OF co fit alloc_pad_cases] obtain us k vs where
    ab: "alloc_blks (alloc_pad align m) n (unat sz) = us @ (k, False) # vs"
    and us: "extent us = alloc_pad align m" "unat sz \<le> k"
    and fb: "free_blks (xs @ us) k (vs @ ys) = xs @ (n, True) # ys" by blast
  have k: "0 < k" using us(2) sz unat_gt_0 [of sz] by simp
  have r1': "kheap_repr h1 ((xs @ us) @ (k, False) # (vs @ ys))" using r1 ab by simp
  have "m + alloc_pad align m = unat (kheap_base h1) + extent (xs @ us)" using m b1 us by simp
  from kfree_refines [OF r1' k this] show ?thesis using fb bs pe by simp
qed

subsection \<open>The placement allocator\<close>

lemma placement_result:
  assumes "kmalloc_placement sz align h = (p, h')"
    and wf: "unat (kheap_placement_memory_head h) + unat (kheap_placement_memory_free_memory h) + 4096
        \<le> 4294967296"
    and sz: "unat sz + 4096 \<le> 4294967296"
  shows "h' = h \<or>
    (unat (kheap_placement_memory_head h) \<le> unat p \<and>
     unat p + unat sz = unat (kheap_placement_memory_head h') \<and>
     unat (kheap_placement_memory_head h') + unat (kheap_placement_memory_free_memory h') =
       unat (kheap_placement_memory_head h) + unat (kheap_placement_memory_free_memory h) \<and>
     (align \<longrightarrow> unat p mod 4096 = 0))"
proof -
  let ?h = "kheap_placement_memory_head h" let ?f = "kheap_placement_memory_free_memory h"
  let ?u = "(unat ?h + 4095) div 4096 * 4096"
  have up: "(?h + PAGE_SIZE - 1) AND NOT (PAGE_SIZE - 1) = of_nat ?u"
    using align_up_word [of "unat ?h"] wf by (simp add: VMM_ALIGN_UP_def)
  note b = round_up_bounds [of "unat ?h"]
  have uu: "unat (of_nat ?u :: u32) = ?u" using b wf by (intro unat_of_nat_u32) linarith
  have hu: "?h \<le> of_nat ?u" unfolding u32_le_iff uu using b by simp
  have d: "unat (of_nat ?u - ?h) = ?u - unat ?h" using unat_u32_sub [OF hu] uu by simp
  show ?thesis
  proof (cases align)
    case False
    then show ?thesis using assms(1) wf
      by (auto simp: kmalloc_placement_def Let_def unat_u32_simps split: if_splits)
  next
    case True
    have t: "unat (sz + (of_nat ?u - ?h)) = unat sz + (?u - unat ?h)"
      using d b sz by (simp add: unat_u32_add_small)
    show ?thesis
    proof (cases "?f < sz + (of_nat ?u - ?h)")
      case f: True
      then show ?thesis using assms(1) True by (auto simp: kmalloc_placement_def Let_def up)
    next
      case f: False
      then have le: "sz + (of_nat ?u - ?h) \<le> ?f" by simp
      have fl: "unat sz + (?u - unat ?h) \<le> unat ?f" using le t by (simp add: u32_le_iff)
      have p: "p = of_nat ?u"
        and h': "kheap_placement_memory_head h' = ?h + (sz + (of_nat ?u - ?h))"
          "kheap_placement_memory_free_memory h' = ?f - (sz + (of_nat ?u - ?h))"
        using assms(1) True f by (auto simp: kmalloc_placement_def Let_def up)
      have 1: "unat (kheap_placement_memory_head h') = unat ?h + (unat sz + (?u - unat ?h))"
        unfolding h' using t fl wf by (subst unat_u32_add_small) simp_all
      have 2: "unat (kheap_placement_memory_free_memory h') = unat ?f - (unat sz + (?u - unat ?h))"
        unfolding h' unat_u32_sub [OF le] t ..
      show ?thesis unfolding p uu 1 2 using b fl by simp
    qed
  qed
qed


subsection \<open>Reachable heaps\<close>

text \<open>
  What a kernel may do with its heap: allocate, release blocks that are in use (or NULL),
  resize them, and store bytes into the data of a block in use.
\<close>

inductive kheap_step :: "kheap \<Rightarrow> kheap \<Rightarrow> bool" where
  step_malloc: "kmalloc sz h = Ret (p, h') \<Longrightarrow> kheap_step h h'"
| step_malloc_a: "kmalloc_a sz h = Ret (p, h') \<Longrightarrow> kheap_step h h'"
| step_calloc: "kcalloc num sz h = Ret (p, h') \<Longrightarrow> kheap_step h h'"
| step_realloc: "(unat ptr, k) \<in> kheap_live h \<Longrightarrow> krealloc ptr sz h = Ret (p, h') \<Longrightarrow> kheap_step h h'"
| step_free: "ptr = 0 \<or> (unat ptr, k) \<in> kheap_live h \<Longrightarrow> kheap_step h (kfree ptr h)"
| step_store: "(d, k) \<in> kheap_live h \<Longrightarrow>
    kheap_step h (h\<lparr>heap_hdr := (\<lambda>x. if in_area (of_nat d) (of_nat k) x then hdr x else heap_hdr h x),
                   heap_data := (\<lambda>x. if in_area (of_nat d) (of_nat k) x then dat x else heap_data h x)\<rparr>)"

inductive_cases kheap_stepE: "kheap_step h h'"

lemma kfree_live_ptr: "kheap_inv h \<Longrightarrow> (unat ptr, k) \<in> kheap_live h \<Longrightarrow> kheap_inv (kfree ptr h)"
  using kfree_live(1) [of h "unat ptr" k] by simp

lemma kheap_step_inv:
  assumes "kheap_step h h'" and inv: "kheap_inv h"
  shows "kheap_inv h'"
  using assms(1)
proof cases
  case (step_malloc sz p)
  with inv show ?thesis by (rule kheap.alloc_inv)
next
  case (step_malloc_a sz p)
  with inv show ?thesis by (rule kheap_a.alloc_inv)
next
  case (step_calloc num sz p)
  then show ?thesis using kcalloc_correct [OF inv] by blast
next
  case (step_realloc ptr k sz p)
  show ?thesis
  proof (cases "sz = 0")
    case True
    have "ptr \<noteq> 0" using kheap.live_bounds [OF inv step_realloc(1)] by auto
    then show ?thesis using True step_realloc kfree_live_ptr [OF inv] by (auto simp: krealloc_def)
  next
    case False
    from krealloc_correct [OF inv step_realloc(1) False step_realloc(2)] show ?thesis by blast
  qed
next
  case (step_free ptr k)
  then show ?thesis using inv kfree_live_ptr [OF inv, of ptr k] by (auto simp: kfree_def)
next
  case (step_store d k hdr dat)
  then show ?thesis using kheap_store_live [OF inv step_store(2), of h'] by simp
qed

lemma kheap_steps_inv: "kheap_step\<^sup>*\<^sup>* h h' \<Longrightarrow> kheap_inv h \<Longrightarrow> kheap_inv h'"
  by (induction rule: rtranclp_induct) (auto intro: kheap_step_inv)

text \<open>A heap for concrete evaluations: cleared memory, initialized at 256 MiB.\<close>

definition blank_heap :: kheap where
  "blank_heap = \<lparr>heap_hdr = (\<lambda>_. zero_block), heap_data = (\<lambda>_. 0), kheap_enabled = False,
     kheap_base = 0, kheap_head = 0, kheap_tail = 0,
     kheap_placement_memory_head = 0x200000, kheap_placement_memory_free_memory = 0x100000\<rparr>"

definition fresh_heap :: kheap where
  "fresh_heap = blank_heap\<lparr>heap_hdr := (\<lambda>_. zero_block)(0x10000000 :=
       \<lparr>blk_magic = KHEAP_MAGIC, blk_size = 0x1FFFFEC, blk_free = True, blk_prev = 0, blk_next = 0\<rparr>),
     kheap_enabled := True, kheap_base := 0x10000000, kheap_head := 0x10000000,
     kheap_tail := 0x10000000\<rparr>"

lemma fresh_heap_init: "kheap_init 0x10000000 blank_heap = Ret fresh_heap"
  by (simp add: kheap_init_def fresh_heap_def set_hdr_def blank_heap_def heap_consts)

lemma fresh_heap_repr: "kheap_repr fresh_heap [(0x1FFFFEC, True)]"
  using kheap_init_repr [of "0x10000000" blank_heap] fresh_heap_init by simp

lemma fresh_heap_inv: "kheap_inv fresh_heap"
  using fresh_heap_repr by (auto simp: kheap_inv_def)

lemma fresh_heap_kmalloc: "\<exists>h'. kmalloc 100 fresh_heap = Ret (0x10000014, h')"
  and fresh_heap_kmalloc_a: "\<exists>h'. kmalloc_a 100 fresh_heap = Ret (0x10001000, h')"
  by (simp_all add: kmalloc_def kmalloc_a_def kmalloc_int_def kmalloc_heap_def fresh_heap_def
      blank_heap_def kheap_find_best_fit.simps kheap_consider_def kheap_carve_block_def Let_def
      VMM_IS_ALIGNED_def VMM_ALIGN_UP_def heap_consts kheap_align_block_def)


subsection \<open>The properties\<close>

text \<open>
  C1. Every heap that the kernel can reach from \<open>kheap_init\<close> by allocating, releasing and resizing
  blocks and by storing into blocks in use satisfies the invariant: its blocks in use lie inside
  the heap and do not overlap, and every further allocation returns.
\<close>

theorem kheap_reachable_safe:
  assumes "base \<noteq> 0" and "unat base + 0x2000000 + 0x2000 \<le> 0x100000000"
    and "kheap_init base h0 = Ret h" and "kheap_step\<^sup>*\<^sup>* h h'"
  shows "kheap_inv h' \<and>
    (\<forall>(d, k) \<in> kheap_live h'.
      unat (kheap_base h') + 20 \<le> d \<and> 0 < k \<and> d + k \<le> unat (kheap_base h') + 0x2000000) \<and>
    (\<forall>(d, k) \<in> kheap_live h'. \<forall>(e, l) \<in> kheap_live h'. (d, k) \<noteq> (e, l) \<longrightarrow>
      {d..<d + k} \<inter> {e..<e + l} = {}) \<and>
    (\<forall>sz align. \<exists>p h''. kmalloc_int sz align h' = Ret (p, h''))"
proof -
  have "kheap_inv h" using kheap_init_repr [OF assms(1,2), of h0] assms(3) by (auto simp: kheap_inv_def)
  with assms(4) have inv: "kheap_inv h'" by (rule kheap_steps_inv)
  have "{d..<d + k} \<inter> {e..<e + l} = {}"
    if "(d, k) \<in> kheap_live h'" "(e, l) \<in> kheap_live h'" "(d, k) \<noteq> (e, l)" for d k e l
    using kheap_live_disjoint [OF inv that(1,2)] that(3) by auto
  moreover have "\<exists>p h''. kmalloc_int sz align h' = Ret (p, h'')" for sz align
    using kmalloc_heap_returns [OF inv] kheap_inv_enabled [OF inv] by (simp add: kmalloc_int_def)
  ultimately show ?thesis using inv kheap_live_bounds [OF inv] by blast
qed

theorem kheap_reachable_safe_witness:
  "\<exists>h'. kheap_step\<^sup>*\<^sup>* fresh_heap h' \<and> kheap_inv h' \<and> h' \<noteq> fresh_heap \<and>
     (\<exists>p h''. kmalloc_int 7 True h' = Ret (p, h''))"
proof -
  obtain h' where m: "kmalloc 100 fresh_heap = Ret (0x10000014, h')" using fresh_heap_kmalloc by blast
  then have s: "kheap_step\<^sup>*\<^sup>* fresh_heap h'" by (blast intro: step_malloc)
  have "h' \<noteq> fresh_heap"
    using kheap.alloc_live [OF fresh_heap_inv m] by auto
  then show ?thesis
    using s kheap_reachable_safe [OF _ _ fresh_heap_init s] by auto
qed

text \<open>
  C2. Allocation is best fit: with \<open>kmalloc\<close> or \<open>kmalloc_a\<close> either no free block can hold the
  request (with its alignment padding) and NULL is returned with the heap unchanged, or the
  first of the smallest free blocks that can hold it is split into padding, the returned block
  and the remainder, and every other block and all data bytes stay as they are.
\<close>

theorem kmalloc_best_fit:
  assumes "kheap_repr h bs" and "sz \<noteq> 0"
  shows "(no_fit (unat (kheap_base h)) (unat sz) align bs \<and> kmalloc_int sz align h = Ret (0, h)) \<or>
     (\<exists>xs n ys m h'. bs = xs @ (n, True) # ys \<and> m = unat (kheap_base h) + extent xs \<and>
        best_fit (unat (kheap_base h)) (unat sz) align bs (length xs) \<and>
        kmalloc_int sz align h = Ret (of_nat (m + alloc_pad align m + 20), h') \<and>
        kheap_repr h' (xs @ alloc_blks (alloc_pad align m) n (unat sz) @ ys) \<and>
        heap_data h' = heap_data h)"
proof -
  have "kmalloc_int sz align h = kmalloc_heap sz align h"
    using assms(1) by (simp add: kmalloc_int_def kheap_repr_def kheap_shape_def)
  then show ?thesis using kmalloc_heap_refines [OF assms, of align] by metis
qed

theorem kmalloc_best_fit_witness:
  "\<exists>h'. kmalloc_int 100 False fresh_heap = Ret (0x10000014, h') \<and>
     kheap_repr h' [(100, False), (0x1FFFF74, True)]"
proof -
  have nf: "\<not> no_fit (unat (kheap_base fresh_heap)) (unat (100 :: u32)) False [(0x1FFFFEC, True)]"
    by (simp add: no_fit_def fits_def)
  show ?thesis
    using kmalloc_best_fit [OF fresh_heap_repr, of 100 False] nf
    by (auto simp: Cons_eq_append_conv alloc_pad_def alloc_blks_def carve_blks_def)
       (simp add: fresh_heap_def)
qed

text \<open>
  C3. Releasing an allocation at once gives back exactly the heap before it: the block list, and
  with it every later placement decision, is the one before the allocation. Nothing fragments.
\<close>

theorem kmalloc_kfree_restores:
  assumes "kheap_repr h bs" and "kmalloc_int sz align h = Ret (p, h1)" and "p \<noteq> 0"
  shows "kheap_repr (kfree p h1) bs"
proof -
  have "kmalloc_heap sz align h = Ret (p, h1)"
    using assms(1,2) by (simp add: kmalloc_int_def kheap_repr_def kheap_shape_def)
  with assms(1) show ?thesis using assms(3) by (rule kmalloc_heap_kfree)
qed

theorem kmalloc_kfree_restores_witness:
  "\<exists>h'. kmalloc_a 100 fresh_heap = Ret (0x10001000, h') \<and>
     kheap_repr (kfree 0x10001000 h') [(0x1FFFFEC, True)]"
  using fresh_heap_kmalloc_a kmalloc_kfree_restores [OF fresh_heap_repr, of 100 True]
  by (auto simp: kmalloc_a_def)

text \<open>
  C4. \<open>kfree\<close> of a block coalesces: the block and its free neighbours become one free block,
  all other blocks stay, no two free blocks are adjacent afterwards, and only bytes of the
  resulting free block are cleared. Releasing a block that is already free changes no block.
\<close>

theorem kfree_coalesces:
  assumes "kheap_repr h (xs @ (n, f) # ys)" and "0 < n"
    and "d = unat (kheap_base h) + extent xs + 20"
  shows "kheap_repr (kfree (of_nat d) h) (free_blks xs n ys) \<and>
    (f \<longrightarrow> kheap_repr (kfree (of_nat d) h) (xs @ (n, f) # ys)) \<and>
    (\<forall>x < 0x100000000. x < free_lo xs d \<or> free_hi d n ys \<le> x \<longrightarrow>
       heap_data (kfree (of_nat d) h) (of_nat x) = heap_data h (of_nat x))"
proof -
  note fr = kfree_refines [OF assms(1,2) refl, folded assms(3)]
  have "kheap_repr (kfree (of_nat d) h) (xs @ (n, f) # ys)" if f
  proof -
    have x: "xs = [] \<or> \<not> snd (last xs)" and y: "ys = [] \<or> \<not> snd (hd ys)"
      using assms(1) that
      by (auto simp: kheap_repr_def coalesced_def successively_append_iff successively_Cons)
    have "merge_right n ys = (n, True) # ys"
      using y by (cases "(n, ys)" rule: merge_right.cases) auto
    then have "free_blks xs n ys = xs @ (n, f) # ys" using x that by (auto simp: free_blks_def)
    then show ?thesis using fr by simp
  qed
  then show ?thesis using fr by simp
qed

theorem kfree_coalesces_witness:
  "kheap_repr (kfree 0x10000014 fresh_heap) [(0x1FFFFEC, True)]"
proof -
  have "kheap_repr fresh_heap ([] @ (0x1FFFFEC, True) # [])" using fresh_heap_repr by simp
  from kfree_coalesces [OF this _ refl] show ?thesis by (simp add: fresh_heap_def)
qed

text \<open>
  The contents of a block in use survive every run of allocations and of releases of other
  blocks.
\<close>

theorem kheap_block_survives:
  assumes "client_run kheap_live kmalloc kfree b h h'" and "kheap_inv h" and "b \<in> kheap_live h"
  shows "kheap_inv h' \<and> b \<in> kheap_live h' \<and>
    (\<forall>i < snd b. heap_data h' (of_nat (fst b + i)) = heap_data h (of_nat (fst b + i)))"
  using assms by (rule kheap.run_preserves)

theorem kheap_block_survives_witness:
  "\<exists>h h' k. kmalloc 100 fresh_heap = Ret (0x10000014, h) \<and> (0x10000014, k) \<in> kheap_live h \<and>
     100 \<le> k \<and> (\<exists>p. kmalloc 40 h = Ret (p, h')) \<and>
     (\<forall>i < k. heap_data h' (of_nat (0x10000014 + i)) = heap_data h (of_nat (0x10000014 + i)))"
proof -
  obtain h where m: "kmalloc 100 fresh_heap = Ret (0x10000014, h)" using fresh_heap_kmalloc by blast
  from kheap.alloc_live [OF fresh_heap_inv m] obtain k where
    k: "100 \<le> k" "(0x10000014, k) \<in> kheap_live h" and i: "kheap_inv h" by auto
  obtain p h' where m': "kmalloc 40 h = Ret (p, h')" using kheap.alloc_returns [OF i] by blast
  have "client_run kheap_live kmalloc kfree (0x10000014, k) h h'"
    by (rule client_run.run_alloc [where n = 40 and p = p and t = h]) (rule client_run.run_refl, rule m')
  from kheap_block_survives [OF this i k(2)] show ?thesis using m m' k by auto
qed

text \<open>
  C5. \<open>krealloc\<close> of a block in use: on failure the heap is unchanged; on success the result is a
  block of at least the requested size that starts with the bytes of the old block, it replaces
  the old block among the blocks in use, and the bytes of all other blocks are unchanged.
\<close>

theorem krealloc_preserves:
  assumes "kheap_inv h" and "(unat ptr, k) \<in> kheap_live h" and "sz \<noteq> 0"
    and "krealloc ptr sz h = Ret (p, h')"
  shows "kheap_inv h' \<and> (p = 0 \<longrightarrow> h' = h) \<and>
    (p \<noteq> 0 \<longrightarrow> (\<exists>l \<ge> unat sz. kheap_live h' = insert (unat p, l) (kheap_live h - {(unat ptr, k)}) \<and>
      (\<forall>i < k. heap_data h' (p + of_nat i) = heap_data h (ptr + of_nat i))) \<and>
      (\<forall>(d, n) \<in> kheap_live h - {(unat ptr, k)}. \<forall>i < n.
         heap_data h' (of_nat (d + i)) = heap_data h (of_nat (d + i))))"
  using assms by (rule krealloc_correct)

theorem krealloc_preserves_witness:
  "\<exists>h k. kmalloc 100 fresh_heap = Ret (0x10000014, h) \<and> (0x10000014, k) \<in> kheap_live h \<and>
     (\<forall>p h'. krealloc 0x10000014 200 h = Ret (p, h') \<longrightarrow> kheap_inv h' \<and>
        (p \<noteq> 0 \<longrightarrow> (\<forall>i < k. heap_data h' (p + of_nat i) = heap_data h (0x10000014 + of_nat i))))"
proof -
  obtain h where m: "kmalloc 100 fresh_heap = Ret (0x10000014, h)" using fresh_heap_kmalloc by blast
  from kheap.alloc_live [OF fresh_heap_inv m] obtain k where
    k: "(unat (0x10000014 :: u32), k) \<in> kheap_live h" and i: "kheap_inv h" by auto
  show ?thesis using krealloc_preserves [OF i k, of 200] m k
    by (intro exI [of _ h] exI [of _ k]) auto
qed

text \<open>
  The free memory that the heap reports is the total size of its free blocks (the walk over
  the list ends and does not wrap), and together with the used blocks and a header of 20 bytes
  per block it makes up the whole heap.
\<close>

theorem kheap_accounting:
  assumes "kheap_repr h bs"
  shows "\<exists>avail. kheap_get_available_memory_size h = Some avail \<and> unat avail = free_bytes bs \<and>
    unat avail + used_bytes bs + 20 * length bs = unat kheap_get_total_memory_size"
proof -
  have e: "20 * length bs + free_bytes bs + used_bytes bs = 0x2000000"
    using assms extent_bytes [of bs] by (simp add: kheap_repr_def kheap_shape_def)
  then show ?thesis using available_memory [OF assms]
    by (simp add: kheap_get_total_memory_size_def KHEAP_HEAP_SIZE_def)
qed

theorem kheap_accounting_witness: "kheap_get_available_memory_size fresh_heap = Some 0x1FFFFEC"
proof -
  from kheap_accounting [OF fresh_heap_repr] obtain avail where
    "kheap_get_available_memory_size fresh_heap = Some avail" "unat avail = 0x1FFFFEC"
    by (auto simp: free_bytes_def)
  then show ?thesis by (metis unat_eq_nat_uint of_nat_numeral of_nat_unat ucast_id)
qed

text \<open>
  A page-aligned allocation starts on a page boundary, and \<open>kcalloc\<close> clears the block it
  returns; both hand out memory that no block in use overlaps.
\<close>

theorem kmalloc_a_kcalloc_blocks:
  assumes "kheap_inv h"
  shows "(\<forall>sz p h'. kmalloc_a sz h = Ret (p, h') \<and> p \<noteq> 0 \<longrightarrow> VMM_IS_ALIGNED p \<and>
      (\<exists>k \<ge> unat sz. (unat p, k) \<in> kheap_live h' \<and>
         (\<forall>(d, l) \<in> kheap_live h. unat p + k \<le> d \<or> d + l \<le> unat p))) \<and>
    (\<forall>num sz p h'. kcalloc num sz h = Ret (p, h') \<and> p \<noteq> 0 \<longrightarrow>
      (\<exists>k \<ge> unat (num * sz). kheap_live h' = insert (unat p, k) (kheap_live h) \<and>
         (\<forall>x. heap_data h' x = (if in_area p (num * sz) x then 0 else heap_data h x))))"
proof -
  have "VMM_IS_ALIGNED p \<and> (\<exists>k \<ge> unat sz. (unat p, k) \<in> kheap_live h' \<and>
         (\<forall>(d, l) \<in> kheap_live h. unat p + k \<le> d \<or> d + l \<le> unat p))"
    if m: "kmalloc_a sz h = Ret (p, h')" "p \<noteq> 0" for sz p h'
  proof -
    have "unat p mod 4096 = 0"
      using kmalloc_heap_alloc(3) [OF assms, of sz True p h'] m by (simp add: kmalloc_a_eq [OF assms])
    then have "VMM_IS_ALIGNED p"
      using unat_page_offset [of p] by (simp add: VMM_IS_ALIGNED_def heap_consts u32_eq_iff)
    then show ?thesis using kheap_a.alloc_fresh [OF assms m] by blast
  qed
  then show ?thesis using kcalloc_correct [OF assms] by blast
qed

theorem kmalloc_a_kcalloc_blocks_witness:
  "\<exists>h'. kmalloc_a 100 fresh_heap = Ret (0x10001000, h') \<and> VMM_IS_ALIGNED 0x10001000"
  using fresh_heap_kmalloc_a kmalloc_a_kcalloc_blocks [OF fresh_heap_inv] by force

end
