(* ===== verification/Linked_List.thy ===== *)
theory Linked_List
  imports Kheap_Props "HOL-Library.Multiset"
begin

text \<open>
  The doubly linked list of \<open>kernel/include/util/linked_list.h\<close>, over an explicit store: nodes and
  list headers live at the addresses \<open>kmalloc\<close> returned, and the heap state is threaded through
  the operations that allocate and release. Loops follow the \<open>next\<close> pointers.

  \<open>list_repr s l as\<close> says that the list at \<open>l\<close> consists of the nodes at the addresses \<open>as\<close>. The
  operations refine the list operations on the addresses (and on the data they point to), and
  \<open>linked_list_sort\<close> sorts.
\<close>

subsection \<open>The list\<close>

record linked_list_node =
  node_prev :: u32
  node_next :: u32
  node_data :: u32

record linked_list =
  list_head :: u32
  list_tail :: u32

record list_store =
  ls_heap :: kheap
  ls_node :: "u32 \<Rightarrow> linked_list_node"
  ls_list :: "u32 \<Rightarrow> linked_list"

definition set_node :: "u32 \<Rightarrow> (linked_list_node \<Rightarrow> linked_list_node) \<Rightarrow> list_store \<Rightarrow> list_store" where
  "set_node a f s = s\<lparr>ls_node := (ls_node s)(a := f (ls_node s a))\<rparr>"

definition set_list :: "u32 \<Rightarrow> (linked_list \<Rightarrow> linked_list) \<Rightarrow> list_store \<Rightarrow> list_store" where
  "set_list l f s = s\<lparr>ls_list := (ls_list s)(l := f (ls_list s l))\<rparr>"

definition linked_list_create :: "list_store \<Rightarrow> (u32 \<times> list_store) kres" where
  "linked_list_create s =
     kbind (kmalloc 8 (ls_heap s)) (\<lambda>(l, h).
       if l = 0 then Ret (0, s\<lparr>ls_heap := h\<rparr>)
       else Ret (l, set_list l (\<lambda>_. \<lparr>list_head = 0, list_tail = 0\<rparr>) (s\<lparr>ls_heap := h\<rparr>)))"

text \<open>The loop of \<open>linked_list_destroy\<close> and \<open>linked_list_clear\<close>.\<close>

partial_function (option) linked_list_free_nodes :: "bool \<Rightarrow> u32 \<Rightarrow> list_store \<Rightarrow> list_store option" where
  "linked_list_free_nodes free_data node s =
     (if node = 0 then Some s
      else let next = node_next (ls_node s node);
               h = (if free_data then kfree (node_data (ls_node s node)) (ls_heap s) else ls_heap s)
           in linked_list_free_nodes free_data next (s\<lparr>ls_heap := kfree node h\<rparr>))"

definition linked_list_destroy :: "u32 \<Rightarrow> bool \<Rightarrow> list_store \<Rightarrow> list_store option" where
  "linked_list_destroy l free_data s =
     map_option (\<lambda>s'. s'\<lparr>ls_heap := kfree l (ls_heap s')\<rparr>)
       (linked_list_free_nodes free_data (list_head (ls_list s l)) s)"

definition linked_list_clear :: "u32 \<Rightarrow> bool \<Rightarrow> list_store \<Rightarrow> list_store option" where
  "linked_list_clear l free_data s =
     map_option (set_list l (\<lambda>_. \<lparr>list_head = 0, list_tail = 0\<rparr>))
       (linked_list_free_nodes free_data (list_head (ls_list s l)) s)"

definition linked_list_create_node :: "u32 \<Rightarrow> list_store \<Rightarrow> (u32 \<times> list_store) kres" where
  "linked_list_create_node data s =
     kbind (kmalloc 12 (ls_heap s)) (\<lambda>(n, h).
       if n = 0 then Ret (0, s\<lparr>ls_heap := h\<rparr>)
       else Ret (n, set_node n (\<lambda>_. \<lparr>node_prev = 0, node_next = 0, node_data = data\<rparr>)
                      (s\<lparr>ls_heap := h\<rparr>)))"

definition linked_list_empty :: "u32 \<Rightarrow> list_store \<Rightarrow> bool" where
  "linked_list_empty l s \<longleftrightarrow> list_head (ls_list s l) = 0"

definition linked_list_append :: "u32 \<Rightarrow> u32 \<Rightarrow> list_store \<Rightarrow> list_store" where
  "linked_list_append l node s =
     (if linked_list_empty l s
      then set_node node (\<lambda>n. n\<lparr>node_prev := 0, node_next := 0\<rparr>)
             (set_list l (\<lambda>x. x\<lparr>list_head := node, list_tail := node\<rparr>) s)
      else let tail = list_tail (ls_list s l);
               s1 = set_node node (\<lambda>n. n\<lparr>node_prev := tail, node_next := 0\<rparr>) s;
               s2 = set_node tail (\<lambda>n. n\<lparr>node_next := node\<rparr>) s1
           in set_list l (\<lambda>x. x\<lparr>list_tail := node\<rparr>) s2)"

definition linked_list_prepend :: "u32 \<Rightarrow> u32 \<Rightarrow> list_store \<Rightarrow> list_store" where
  "linked_list_prepend l node s =
     (if linked_list_empty l s
      then set_node node (\<lambda>n. n\<lparr>node_prev := 0, node_next := 0\<rparr>)
             (set_list l (\<lambda>x. x\<lparr>list_head := node, list_tail := node\<rparr>) s)
      else let head = list_head (ls_list s l);
               s1 = set_node node (\<lambda>n. n\<lparr>node_prev := 0, node_next := head\<rparr>) s;
               s2 = set_node head (\<lambda>n. n\<lparr>node_prev := node\<rparr>) s1
           in set_list l (\<lambda>x. x\<lparr>list_head := node\<rparr>) s2)"

definition linked_list_remove :: "u32 \<Rightarrow> u32 \<Rightarrow> list_store \<Rightarrow> list_store" where
  "linked_list_remove l node s =
     (let s1 = (if list_head (ls_list s l) = node
                then set_list l (\<lambda>x. x\<lparr>list_head := node_next (ls_node s node)\<rparr>) s else s);
          s2 = (if list_tail (ls_list s1 l) = node
                then set_list l (\<lambda>x. x\<lparr>list_tail := node_prev (ls_node s1 node)\<rparr>) s1 else s1);
          s3 = (if node_prev (ls_node s2 node) \<noteq> 0
                then set_node (node_prev (ls_node s2 node))
                       (\<lambda>n. n\<lparr>node_next := node_next (ls_node s2 node)\<rparr>) s2 else s2);
          s4 = (if node_next (ls_node s3 node) \<noteq> 0
                then set_node (node_next (ls_node s3 node))
                       (\<lambda>n. n\<lparr>node_prev := node_prev (ls_node s3 node)\<rparr>) s3 else s3)
      in set_node node (\<lambda>n. n\<lparr>node_prev := 0, node_next := 0\<rparr>) s4)"

partial_function (option) linked_list_count :: "(u32 \<Rightarrow> linked_list_node) \<Rightarrow> u32 \<Rightarrow> u32 \<Rightarrow> u32 option" where
  "linked_list_count m node sz =
     (if node = 0 then Some sz else linked_list_count m (node_next (m node)) (sz + 1))"

definition linked_list_size :: "u32 \<Rightarrow> list_store \<Rightarrow> u32 option" where
  "linked_list_size l s = linked_list_count (ls_node s) (list_head (ls_list s l)) 0"

partial_function (option) linked_list_nth :: "(u32 \<Rightarrow> linked_list_node) \<Rightarrow> u32 \<Rightarrow> u32 \<Rightarrow> u32 \<Rightarrow> u32 option" where
  "linked_list_nth m node current_index index =
     (if node = 0 then Some 0
      else if current_index = index then Some node
      else linked_list_nth m (node_next (m node)) (current_index + 1) index)"

definition linked_list_get :: "u32 \<Rightarrow> u32 \<Rightarrow> list_store \<Rightarrow> u32 option" where
  "linked_list_get l index s = linked_list_nth (ls_node s) (list_head (ls_list s l)) 0 index"

partial_function (option) linked_list_search ::
    "(u32 \<Rightarrow> linked_list_node) \<Rightarrow> (u32 \<Rightarrow> bool) \<Rightarrow> u32 \<Rightarrow> u32 option" where
  "linked_list_search m compare node =
     (if node = 0 then Some 0
      else if compare (node_data (m node)) then Some node
      else linked_list_search m compare (node_next (m node)))"

definition linked_list_find :: "u32 \<Rightarrow> (u32 \<Rightarrow> u32 \<Rightarrow> bool) \<Rightarrow> u32 \<Rightarrow> list_store \<Rightarrow> u32 option" where
  "linked_list_find l compare data s =
     linked_list_search (ls_node s) (\<lambda>d. compare d data) (list_head (ls_list s l))"

partial_function (option) linked_list_sort_inner ::
    "(u32 \<Rightarrow> u32 \<Rightarrow> int) \<Rightarrow> u32 \<Rightarrow> u32 \<Rightarrow> (u32 \<Rightarrow> linked_list_node) \<Rightarrow> (u32 \<Rightarrow> linked_list_node) option" where
  "linked_list_sort_inner compare node next m =
     (if next = 0 then Some m
      else let x = node_data (m node); y = node_data (m next);
               m' = (if compare x y > 0
                     then let m1 = m(node := (m node)\<lparr>node_data := y\<rparr>)
                          in m1(next := (m1 next)\<lparr>node_data := x\<rparr>)
                     else m)
           in linked_list_sort_inner compare node (node_next (m' next)) m')"

partial_function (option) linked_list_sort_outer ::
    "(u32 \<Rightarrow> u32 \<Rightarrow> int) \<Rightarrow> u32 \<Rightarrow> (u32 \<Rightarrow> linked_list_node) \<Rightarrow> (u32 \<Rightarrow> linked_list_node) option" where
  "linked_list_sort_outer compare node m =
     (if node = 0 then Some m
      else case linked_list_sort_inner compare node (node_next (m node)) m of
             None \<Rightarrow> None
           | Some m' \<Rightarrow> linked_list_sort_outer compare (node_next (m' node)) m')"

definition linked_list_sort :: "u32 \<Rightarrow> (u32 \<Rightarrow> u32 \<Rightarrow> int) \<Rightarrow> list_store \<Rightarrow> list_store option" where
  "linked_list_sort l compare s =
     map_option (\<lambda>m. s\<lparr>ls_node := m\<rparr>)
       (linked_list_sort_outer compare (list_head (ls_list s l)) (ls_node s))"

subsection \<open>Representation\<close>

definition hd0 :: "u32 list \<Rightarrow> u32 \<Rightarrow> u32" where
  "hd0 xs e = (case xs of [] \<Rightarrow> e | x # _ \<Rightarrow> x)"

definition last0 :: "u32 \<Rightarrow> u32 list \<Rightarrow> u32" where
  "last0 p xs = (if xs = [] then p else last xs)"

lemma hd0_simps [simp]: "hd0 [] e = e" "hd0 (x # xs) e = x"
  and last0_simps [simp]: "last0 p [] = p" "last0 p (xs @ [x]) = x" "last0 p (x # xs) = last0 x xs"
  by (simp_all add: hd0_def last0_def)

lemma hd0_append [simp]: "hd0 (xs @ ys) e = hd0 xs (hd0 ys e)"
  and last0_append [simp]: "last0 p (xs @ ys) = last0 (last0 p xs) ys"
  by (cases xs; simp add: last0_def)+

lemma hd0_eq_iff: "e \<notin> set xs \<Longrightarrow> hd0 xs e = e \<longleftrightarrow> xs = []"
  and last0_eq_iff: "p \<notin> set xs \<Longrightarrow> last0 p xs = p \<longleftrightarrow> xs = []"
  by (cases xs; auto simp: last0_def)+

lemma last0_nonempty: "xs \<noteq> [] \<Longrightarrow> last0 p xs = last0 q xs"
  by (cases xs) auto

fun ll_seg :: "(u32 \<Rightarrow> linked_list_node) \<Rightarrow> u32 \<Rightarrow> u32 list \<Rightarrow> u32 \<Rightarrow> bool" where
  "ll_seg m p [] e \<longleftrightarrow> True"
| "ll_seg m p (a # xs) e \<longleftrightarrow>
     a \<noteq> 0 \<and> node_prev (m a) = p \<and> node_next (m a) = hd0 xs e \<and> ll_seg m a xs e"

definition list_repr :: "list_store \<Rightarrow> u32 \<Rightarrow> u32 list \<Rightarrow> bool" where
  "list_repr s l xs \<longleftrightarrow> distinct xs \<and> ll_seg (ls_node s) 0 xs 0 \<and>
     list_head (ls_list s l) = hd0 xs 0 \<and> list_tail (ls_list s l) = last0 0 xs"

definition list_data :: "list_store \<Rightarrow> u32 list \<Rightarrow> u32 list" where
  "list_data s xs = map (\<lambda>a. node_data (ls_node s a)) xs"

lemma ll_seg_append:
  "ll_seg m p (xs @ ys) e \<longleftrightarrow> ll_seg m p xs (hd0 ys e) \<and> ll_seg m (last0 p xs) ys e"
  by (induction xs arbitrary: p) (auto simp: hd0_def split: list.splits)

lemma ll_seg_cong:
  "(\<And>a. a \<in> set xs \<Longrightarrow> node_prev (m' a) = node_prev (m a) \<and> node_next (m' a) = node_next (m a)) \<Longrightarrow>
   ll_seg m' p xs e = ll_seg m p xs e"
  by (induction xs arbitrary: p) auto

lemma ll_seg_nonzero: "ll_seg m p xs e \<Longrightarrow> 0 \<notin> set xs"
  by (induction xs arbitrary: p) auto

lemma last0_in: "xs \<noteq> [] \<Longrightarrow> last0 p xs \<in> set xs"
  by (simp add: last0_def)

lemma hd0_in: "xs \<noteq> [] \<Longrightarrow> hd0 xs e \<in> set xs"
  by (cases xs) auto

lemma linked_list_empty_iff: "list_repr s l xs \<Longrightarrow> linked_list_empty l s \<longleftrightarrow> xs = []"
  by (cases xs) (auto simp: list_repr_def linked_list_empty_def)


subsection \<open>Insertion and removal\<close>

lemma list_data_cong:
  "(\<And>a. node_data (ls_node s' a) = node_data (ls_node s a)) \<Longrightarrow> list_data s' xs = list_data s xs"
  by (simp add: list_data_def)

lemmas store_simps = set_node_def set_list_def

lemma ll_seg_upd_other [simp]: "a \<notin> set xs \<Longrightarrow> ll_seg (m(a := n)) p xs e = ll_seg m p xs e"
  by (rule ll_seg_cong) auto

lemma append_refines:
  assumes r: "list_repr s l xs" and n: "n \<noteq> 0" "n \<notin> set xs"
  shows "list_repr (linked_list_append l n s) l (xs @ [n])"
    and "node_data (ls_node (linked_list_append l n s) a) = node_data (ls_node s a)"
proof -
  show "node_data (ls_node (linked_list_append l n s) a) = node_data (ls_node s a)"
    by (simp add: linked_list_append_def Let_def store_simps)
  show "list_repr (linked_list_append l n s) l (xs @ [n])"
  proof (cases xs rule: rev_cases)
    case Nil
    then show ?thesis using r n linked_list_empty_iff [OF r]
      by (simp add: linked_list_append_def list_repr_def store_simps)
  next
    case (snoc ys t)
    have t: "t \<noteq> 0" "t \<noteq> n" "t \<notin> set ys" "n \<notin> set ys"
      using r n snoc ll_seg_nonzero [of "ls_node s" 0 xs 0] by (auto simp: list_repr_def)
    show ?thesis using r n t snoc linked_list_empty_iff [OF r]
      by (auto simp: linked_list_append_def list_repr_def store_simps Let_def ll_seg_append)
  qed
qed

lemma prepend_refines:
  assumes r: "list_repr s l xs" and n: "n \<noteq> 0" "n \<notin> set xs"
  shows "list_repr (linked_list_prepend l n s) l (n # xs)"
    and "node_data (ls_node (linked_list_prepend l n s) a) = node_data (ls_node s a)"
proof -
  show "node_data (ls_node (linked_list_prepend l n s) a) = node_data (ls_node s a)"
    by (simp add: linked_list_prepend_def Let_def store_simps)
  show "list_repr (linked_list_prepend l n s) l (n # xs)"
  proof (cases xs)
    case Nil
    then show ?thesis using r n linked_list_empty_iff [OF r]
      by (simp add: linked_list_prepend_def list_repr_def store_simps)
  next
    case (Cons t ys)
    then show ?thesis using r n linked_list_empty_iff [OF r]
      by (auto simp: linked_list_prepend_def list_repr_def store_simps Let_def)
  qed
qed

lemma remove_refines:
  assumes r: "list_repr s l (us @ n # vs)"
  shows "list_repr (linked_list_remove l n s) l (us @ vs)"
    and "node_data (ls_node (linked_list_remove l n s) a) = node_data (ls_node s a)"
proof -
  show "node_data (ls_node (linked_list_remove l n s) a) = node_data (ls_node s a)"
    by (simp add: linked_list_remove_def Let_def store_simps)
  have d: "distinct (us @ n # vs)" and seg: "ll_seg (ls_node s) 0 (us @ n # vs) 0"
    using r by (simp_all add: list_repr_def)
  have nz: "0 \<notin> set (us @ n # vs)" using seg by (rule ll_seg_nonzero)
  have pn: "node_prev (ls_node s n) = last0 0 us" "node_next (ls_node s n) = hd0 vs 0"
    using seg by (simp_all add: ll_seg_append)
  have ht: "list_head (ls_list s l) = n \<longleftrightarrow> us = []" "list_tail (ls_list s l) = n \<longleftrightarrow> vs = []"
    using r d hd0_eq_iff [of n us] last0_eq_iff [of n vs] by (auto simp: list_repr_def)
  consider "us = []" "vs = []" | v vs' where "us = []" "vs = v # vs'"
    | u us' where "us = us' @ [u]" "vs = []" | u us' v vs' where "us = us' @ [u]" "vs = v # vs'"
    by (cases us rule: rev_cases; cases vs) auto
  then show "list_repr (linked_list_remove l n s) l (us @ vs)"
  proof cases
    case 1
    then show ?thesis using r by (auto simp: list_repr_def linked_list_remove_def Let_def store_simps)
  next
    case 2
    then show ?thesis using r d nz pn ht
      by (auto simp: list_repr_def linked_list_remove_def Let_def store_simps)
  next
    case 3
    then show ?thesis using r d nz pn ht
      by (auto simp: list_repr_def linked_list_remove_def Let_def store_simps ll_seg_append)
  next
    case 4
    then show ?thesis using r d nz pn ht
      by (auto simp: list_repr_def linked_list_remove_def Let_def store_simps ll_seg_append)
  qed
qed


subsection \<open>Traversal\<close>

lemma count_seg:
  "ll_seg m p xs 0 \<Longrightarrow> linked_list_count m (hd0 xs 0) sz = Some (sz + of_nat (length xs))"
proof (induction xs arbitrary: p sz)
  case Nil
  then show ?case by (simp add: linked_list_count.simps)
next
  case (Cons a xs)
  then show ?case using Cons.IH [of a] by (subst linked_list_count.simps) (simp add: add.assoc)
qed

lemma nth_seg:
  assumes "ll_seg m p xs 0" and "unat c + length xs < 4294967296" and "c \<le> i"
  shows "linked_list_nth m (hd0 xs 0) c i =
    Some (if unat i - unat c < length xs then xs ! (unat i - unat c) else 0)"
  using assms
proof (induction xs arbitrary: p c)
  case Nil
  then show ?case by (simp add: linked_list_nth.simps)
next
  case (Cons a xs)
  show ?case
  proof (cases "c = i")
    case True
    then show ?thesis using Cons.prems by (subst linked_list_nth.simps) simp
  next
    case False
    have c1: "unat (c + 1) = unat c + 1" using Cons.prems by (simp add: unat_u32_add_small)
    have le: "c + 1 \<le> i" using False Cons.prems(3) c1 by (simp add: u32_le_iff u32_eq_iff)
    have ci: "unat c < unat i" using False Cons.prems(3) by (simp add: u32_le_iff u32_eq_iff)
    have IH: "linked_list_nth m (hd0 xs 0) (c + 1) i =
        Some (if unat i - unat (c + 1) < length xs then xs ! (unat i - unat (c + 1)) else 0)"
      using Cons.prems c1 le by (intro Cons.IH [of a]) auto
    have "unat i - unat c = Suc (unat i - unat (c + 1))" using ci c1 by simp
    then show ?thesis using False Cons.prems IH by (subst linked_list_nth.simps) simp
  qed
qed

lemma search_seg:
  "ll_seg m p xs 0 \<Longrightarrow> linked_list_search m P (hd0 xs 0) =
     Some (case find (\<lambda>a. P (node_data (m a))) xs of None \<Rightarrow> 0 | Some a \<Rightarrow> a)"
proof (induction xs arbitrary: p)
  case Nil
  then show ?case by (simp add: linked_list_search.simps)
next
  case (Cons a xs)
  then show ?case using Cons.IH [of a] by (subst linked_list_search.simps) simp
qed

lemma size_refines: "list_repr s l xs \<Longrightarrow> linked_list_size l s = Some (of_nat (length xs))"
  using count_seg [of "ls_node s" 0 xs 0] by (simp add: linked_list_size_def list_repr_def)

lemma get_refines:
  "list_repr s l xs \<Longrightarrow> length xs < 4294967296 \<Longrightarrow>
   linked_list_get l i s = Some (if unat i < length xs then xs ! unat i else 0)"
  using nth_seg [of "ls_node s" 0 xs 0 i] by (simp add: linked_list_get_def list_repr_def)

lemma find_refines:
  "list_repr s l xs \<Longrightarrow> linked_list_find l compare d s =
   Some (case find (\<lambda>a. compare (node_data (ls_node s a)) d) xs of None \<Rightarrow> 0 | Some a \<Rightarrow> a)"
  using search_seg [of "ls_node s" 0 xs "\<lambda>x. compare x d"] by (simp add: linked_list_find_def list_repr_def)

subsection \<open>Sorting\<close>

text \<open>The exchange sort of \<open>linked_list_sort\<close> on the list of data.\<close>

fun xchg :: "('a \<Rightarrow> 'a \<Rightarrow> int) \<Rightarrow> 'a \<Rightarrow> 'a list \<Rightarrow> 'a \<times> 'a list" where
  "xchg cmp x [] = (x, [])"
| "xchg cmp x (y # ys) =
     (if cmp x y > 0 then (let (z, zs) = xchg cmp y ys in (z, x # zs))
      else (let (z, zs) = xchg cmp x ys in (z, y # zs)))"

lemma length_xchg [simp]: "length (snd (xchg cmp x ys)) = length ys"
  by (induction cmp x ys rule: xchg.induct) (auto split: prod.splits)

function xsort :: "('a \<Rightarrow> 'a \<Rightarrow> int) \<Rightarrow> 'a list \<Rightarrow> 'a list" where
  "xsort cmp [] = []"
| "xsort cmp (x # xs) = fst (xchg cmp x xs) # xsort cmp (snd (xchg cmp x xs))"
  by pat_completeness auto
termination by (relation "measure (length \<circ> snd)") auto

lemma mset_xchg: "add_mset (fst (xchg cmp x ys)) (mset (snd (xchg cmp x ys))) = add_mset x (mset ys)"
proof (induction ys arbitrary: x)
  case (Cons y ys)
  then show ?case by (simp add: split_beta)
qed simp

lemma mset_xsort: "mset (xsort cmp xs) = mset xs"
  by (induction cmp xs rule: xsort.induct) (auto simp: mset_xchg)

locale total_compare =
  fixes cmp :: "'a \<Rightarrow> 'a \<Rightarrow> int"
  assumes cmp_total: "cmp a b > 0 \<Longrightarrow> cmp b a \<le> 0"
    and cmp_trans: "cmp a b \<le> 0 \<Longrightarrow> cmp b c \<le> 0 \<Longrightarrow> cmp a c \<le> 0"
begin

lemma cmp_refl: "cmp a a \<le> 0"
  using cmp_total [of a a] by force

lemma xchg_min: "cmp (fst (xchg cmp x ys)) x \<le> 0 \<and> (\<forall>y \<in> set ys. cmp (fst (xchg cmp x ys)) y \<le> 0)"
proof (induction ys arbitrary: x)
  case Nil
  then show ?case by (simp add: cmp_refl)
next
  case (Cons z zs)
  show ?case
  proof (cases "cmp x z > 0")
    case True
    then have "cmp z x \<le> 0" by (rule cmp_total)
    then show ?thesis using True Cons [of z] cmp_trans [of "fst (xchg cmp z zs)" z x]
      by (auto simp: split_beta)
  next
    case False
    then show ?thesis using Cons [of x] cmp_trans [of "fst (xchg cmp x zs)" x z]
      by (auto simp: split_beta)
  qed
qed

lemma set_xchg: "set (snd (xchg cmp x ys)) \<subseteq> insert x (set ys)"
  using arg_cong [OF mset_xchg [of cmp x ys], of set_mset] by auto

lemma xsort_sorted_aux: "length xs = n \<Longrightarrow> sorted_wrt (\<lambda>a b. cmp a b \<le> 0) (xsort cmp xs)"
proof (induction n arbitrary: xs)
  case 0
  then show ?case by simp
next
  case (Suc n)
  then obtain x ys where xs: "xs = x # ys" "length ys = n" by (cases xs) auto
  let ?m = "fst (xchg cmp x ys)" let ?r = "snd (xchg cmp x ys)"
  have "cmp ?m z \<le> 0" if "z \<in> set (xsort cmp ?r)" for z
  proof -
    have "z \<in> set ?r" using that mset_eq_setD [OF mset_xsort [of cmp ?r]] by simp
    then show ?thesis using set_xchg [of x ys] xchg_min [of x ys] by auto
  qed
  then show ?case using Suc.IH [of ?r] xs by simp
qed

lemma xsort_sorted: "sorted_wrt (\<lambda>a b. cmp a b \<le> 0) (xsort cmp xs)"
  by (rule xsort_sorted_aux) (rule refl)

end

lemma sort_inner_seg:
  assumes "ll_seg m p ys 0" and "distinct ys" and "a \<notin> set ys"
  shows "\<exists>m'. linked_list_sort_inner cmp a (hd0 ys 0) m = Some m' \<and>
    (\<forall>b. node_prev (m' b) = node_prev (m b) \<and> node_next (m' b) = node_next (m b)) \<and>
    (\<forall>b. b \<noteq> a \<longrightarrow> b \<notin> set ys \<longrightarrow> m' b = m b) \<and>
    (node_data (m' a), map (\<lambda>b. node_data (m' b)) ys) =
      xchg cmp (node_data (m a)) (map (\<lambda>b. node_data (m b)) ys)"
  using assms
proof (induction ys arbitrary: m p)
  case Nil
  then show ?case by (simp add: linked_list_sort_inner.simps)
next
  case (Cons y ys)
  define m1 where "m1 = (if cmp (node_data (m a)) (node_data (m y)) > 0
     then (m(a := (m a)\<lparr>node_data := node_data (m y)\<rparr>))(y := (m y)\<lparr>node_data := node_data (m a)\<rparr>)
     else m)"
  have ay: "a \<noteq> y" "a \<notin> set ys" "y \<notin> set ys" using Cons.prems by auto
  have pn: "node_prev (m1 b) = node_prev (m b) \<and> node_next (m1 b) = node_next (m b)" for b
    by (simp add: m1_def)
  have seg: "ll_seg m1 y ys 0" using Cons.prems(1) ll_seg_cong [of ys m1 m y 0] pn by simp
  have nx: "node_next (m1 y) = hd0 ys 0" using Cons.prems(1) pn by simp
  have step: "linked_list_sort_inner cmp a y m = linked_list_sort_inner cmp a (hd0 ys 0) m1"
    using Cons.prems(1) ay nx by (subst linked_list_sort_inner.simps) (simp add: m1_def Let_def)
  from Cons.IH [OF seg] ay Cons.prems obtain m' where
    m': "linked_list_sort_inner cmp a (hd0 ys 0) m1 = Some m'"
    "\<forall>b. node_prev (m' b) = node_prev (m1 b) \<and> node_next (m' b) = node_next (m1 b)"
    "\<forall>b. b \<noteq> a \<longrightarrow> b \<notin> set ys \<longrightarrow> m' b = m1 b"
    "(node_data (m' a), map (\<lambda>b. node_data (m' b)) ys) =
      xchg cmp (node_data (m1 a)) (map (\<lambda>b. node_data (m1 b)) ys)" by auto
  have same: "map (\<lambda>b. node_data (m1 b)) ys = map (\<lambda>b. node_data (m b)) ys"
    using ay by (auto simp: m1_def)
  have y': "m' y = m1 y" using m'(3) ay by auto
  show ?case
  proof (intro exI conjI)
    show "linked_list_sort_inner cmp a (hd0 (y # ys) 0) m = Some m'" using step m'(1) by simp
    show "\<forall>b. node_prev (m' b) = node_prev (m b) \<and> node_next (m' b) = node_next (m b)"
      using m'(2) pn by simp
    show "\<forall>b. b \<noteq> a \<longrightarrow> b \<notin> set (y # ys) \<longrightarrow> m' b = m b" using m'(3) by (simp add: m1_def)
    show "(node_data (m' a), map (\<lambda>b. node_data (m' b)) (y # ys)) =
      xchg cmp (node_data (m a)) (map (\<lambda>b. node_data (m b)) (y # ys))"
    proof -
      have eq: "xchg cmp (node_data (m1 a)) (map (\<lambda>b. node_data (m b)) ys) =
          (node_data (m' a), map (\<lambda>b. node_data (m' b)) ys)"
        using m'(4) unfolding same by simp
      show ?thesis
      proof (cases "cmp (node_data (m a)) (node_data (m y)) > 0")
        case True
        then have "node_data (m1 a) = node_data (m y)" "node_data (m1 y) = node_data (m a)"
          using ay by (simp_all add: m1_def)
        then show ?thesis using True eq y' by simp
      next
        case False
        then have "m1 = m" by (simp add: m1_def)
        then show ?thesis using False eq y' by simp
      qed
    qed
  qed
qed

lemma sort_outer_seg:
  assumes "ll_seg m p xs 0" and "distinct xs"
  shows "\<exists>m'. linked_list_sort_outer cmp (hd0 xs 0) m = Some m' \<and>
    (\<forall>b. node_prev (m' b) = node_prev (m b) \<and> node_next (m' b) = node_next (m b)) \<and>
    (\<forall>b. b \<notin> set xs \<longrightarrow> m' b = m b) \<and>
    map (\<lambda>b. node_data (m' b)) xs = xsort cmp (map (\<lambda>b. node_data (m b)) xs)"
  using assms
proof (induction xs arbitrary: m p)
  case Nil
  then show ?case by (simp add: linked_list_sort_outer.simps)
next
  case (Cons a xs)
  then have ax: "a \<notin> set xs" "a \<noteq> 0" and seg: "ll_seg m a xs 0" and d: "distinct xs"
    and nx: "node_next (m a) = hd0 xs 0" by auto
  from sort_inner_seg [OF seg d ax(1), of cmp] obtain m1 where
    m1: "linked_list_sort_inner cmp a (hd0 xs 0) m = Some m1"
    "\<forall>b. node_prev (m1 b) = node_prev (m b) \<and> node_next (m1 b) = node_next (m b)"
    "\<forall>b. b \<noteq> a \<longrightarrow> b \<notin> set xs \<longrightarrow> m1 b = m b"
    "(node_data (m1 a), map (\<lambda>b. node_data (m1 b)) xs) =
      xchg cmp (node_data (m a)) (map (\<lambda>b. node_data (m b)) xs)" by blast
  have seg1: "ll_seg m1 a xs 0" using seg ll_seg_cong [of xs m1 m a 0] m1(2) by simp
  from Cons.IH [OF seg1 d] obtain m' where
    m': "linked_list_sort_outer cmp (hd0 xs 0) m1 = Some m'"
    "\<forall>b. node_prev (m' b) = node_prev (m1 b) \<and> node_next (m' b) = node_next (m1 b)"
    "\<forall>b. b \<notin> set xs \<longrightarrow> m' b = m1 b"
    "map (\<lambda>b. node_data (m' b)) xs = xsort cmp (map (\<lambda>b. node_data (m1 b)) xs)" by blast
  have "linked_list_sort_outer cmp a m = Some m'"
    using ax nx m1(1,2) m'(1) by (subst linked_list_sort_outer.simps) simp
  moreover have "map (\<lambda>b. node_data (m' b)) (a # xs) = xsort cmp (map (\<lambda>b. node_data (m b)) (a # xs))"
    using m'(3,4) ax m1(4) [symmetric] by simp
  ultimately show ?case using m1(2,3) m'(2,3) by auto
qed

lemma sort_refines:
  assumes r: "list_repr s l xs"
  shows "\<exists>s'. linked_list_sort l cmp s = Some s' \<and> list_repr s' l xs \<and>
    list_data s' xs = xsort cmp (list_data s xs) \<and> ls_heap s' = ls_heap s"
proof -
  have seg: "ll_seg (ls_node s) 0 xs 0" and d: "distinct xs" and h: "list_head (ls_list s l) = hd0 xs 0"
    using r by (simp_all add: list_repr_def)
  from sort_outer_seg [OF seg d, of cmp] obtain m' where
    m': "linked_list_sort_outer cmp (hd0 xs 0) (ls_node s) = Some m'"
    "\<forall>b. node_prev (m' b) = node_prev (ls_node s b) \<and> node_next (m' b) = node_next (ls_node s b)"
    "map (\<lambda>b. node_data (m' b)) xs = xsort cmp (map (\<lambda>b. node_data (ls_node s b)) xs)" by blast
  have "ll_seg m' 0 xs 0" using seg ll_seg_cong [of xs m' "ls_node s" 0 0] m'(2) by simp
  then show ?thesis using r m' h by (auto simp: linked_list_sort_def list_repr_def list_data_def)
qed


subsection \<open>Memory of the list\<close>

text \<open>
  The header and the nodes of a list are distinct blocks in use of the kernel heap; \<open>k\<close> gives
  their sizes.
\<close>

definition list_blocks :: "(u32 \<Rightarrow> nat) \<Rightarrow> u32 list \<Rightarrow> (nat \<times> nat) set" where
  "list_blocks k xs = (\<lambda>a. (unat a, k a)) ` set xs"

lemma list_blocks_simps [simp]:
  "list_blocks k [] = {}"
  "list_blocks k (a # xs) = insert (unat a, k a) (list_blocks k xs)"
  "list_blocks k (xs @ ys) = list_blocks k xs \<union> list_blocks k ys"
  "a \<notin> set xs \<Longrightarrow> list_blocks (k(a := b)) xs = list_blocks k xs"
  by (auto simp: list_blocks_def image_iff)

lemma list_blocks_iff [simp]: "(unat a, k a) \<in> list_blocks k xs \<longleftrightarrow> a \<in> set xs"
  by (auto simp: list_blocks_def dest: u32_eq_iff [THEN iffD2])

lemma list_blocks_mem: "a \<in> set xs \<Longrightarrow> list_blocks k xs \<subseteq> L \<Longrightarrow> (unat a, k a) \<in> L"
  by (auto simp: list_blocks_def)

definition list_owned :: "(u32 \<Rightarrow> nat) \<Rightarrow> list_store \<Rightarrow> u32 \<Rightarrow> u32 list \<Rightarrow> bool" where
  "list_owned k s l xs \<longleftrightarrow> list_repr s l xs \<and> kheap_inv (ls_heap s) \<and>
     distinct (l # xs) \<and> list_blocks k (l # xs) \<subseteq> kheap_live (ls_heap s)"

lemma live_ptr_unique:
  assumes "kheap_inv h" and "(d, k) \<in> kheap_live h" and "(d, k') \<in> kheap_live h"
  shows "k = k'"
  using kheap_live_disjoint [OF assms] kheap_live_bounds [OF assms(1,2)]
    kheap_live_bounds [OF assms(1,3)] by auto

lemma create_owned:
  assumes inv: "kheap_inv (ls_heap s)"
  shows "\<exists>l s'. linked_list_create s = Ret (l, s') \<and>
    (l = 0 \<longrightarrow> s' = s) \<and>
    (l \<noteq> 0 \<longrightarrow> (\<exists>k. list_owned (\<lambda>_. k) s' l [] \<and>
       kheap_live (ls_heap s') = insert (unat l, k) (kheap_live (ls_heap s)) \<and>
       (unat l, k) \<notin> kheap_live (ls_heap s)))"
proof -
  obtain l h where m: "kmalloc 8 (ls_heap s) = Ret (l, h)" using kheap.alloc_returns [OF inv] by blast
  show ?thesis
  proof (cases "l = 0")
    case True
    then show ?thesis using m kheap.alloc_fail [OF inv, of 8 h] by (simp add: linked_list_create_def)
  next
    case False
    from kheap.alloc_live [OF inv m False] obtain k where "kheap_inv h"
      "kheap_live h = insert (unat l, k) (kheap_live (ls_heap s))" "(unat l, k) \<notin> kheap_live (ls_heap s)"
      by blast
    then show ?thesis using m False
      by (auto simp: linked_list_create_def list_owned_def list_repr_def store_simps)
  qed
qed

text \<open>A freshly created node is not in the list, so it may be appended or prepended.\<close>

lemma fresh_node_owned:
  assumes own: "list_owned k s l xs" and m: "kmalloc sz (ls_heap s) = Ret (n, h)" and n: "n \<noteq> 0"
    and s': "s' = set_node n f (s\<lparr>ls_heap := h\<rparr>)"
  shows "\<exists>k'. list_owned k' s' l xs \<and> n \<notin> set (l # xs) \<and> node_data (ls_node s' n) = node_data (f (ls_node s n)) \<and>
    list_data s' xs = list_data s xs \<and> (unat n, k' n) \<in> kheap_live (ls_heap s')"
proof -
  have inv: "kheap_inv (ls_heap s)" and rp: "list_repr s l xs" and ds: "distinct (l # xs)"
    and bl: "list_blocks k (l # xs) \<subseteq> kheap_live (ls_heap s)"
    using own by (simp_all add: list_owned_def)
  from kheap.alloc_live [OF inv m n] obtain b where b: "kheap_inv h"
    "kheap_live h = insert (unat n, b) (kheap_live (ls_heap s))" "(unat n, b) \<notin> kheap_live (ls_heap s)"
    by blast
  have fresh: "n \<notin> set (l # xs)"
  proof
    assume "n \<in> set (l # xs)"
    then have "(unat n, k n) \<in> kheap_live (ls_heap s)" using bl by (rule list_blocks_mem)
    then show False using live_ptr_unique [OF b(1), of "unat n" "k n" b] b by simp
  qed
  have "list_repr s' l xs" using rp fresh s' by (simp add: list_repr_def store_simps)
  moreover have "list_blocks (k(n := b)) (l # xs) \<subseteq> kheap_live (ls_heap s')"
    using bl b(2) fresh s' by (auto simp: store_simps)
  moreover have "list_data s' xs = list_data s xs"
    using fresh s' by (auto simp: list_data_def store_simps)
  ultimately show ?thesis using fresh s' b ds
    by (intro exI [of _ "k(n := b)"]) (simp add: list_owned_def store_simps)
qed

lemma create_node_owned:
  assumes own: "list_owned k s l xs" and r: "linked_list_create_node d s = Ret (n, s')" and n: "n \<noteq> 0"
  shows "\<exists>k'. list_owned k' s' l xs \<and> n \<notin> set (l # xs) \<and> node_data (ls_node s' n) = d \<and>
    list_data s' xs = list_data s xs \<and> (unat n, k' n) \<in> kheap_live (ls_heap s')"
proof -
  from r n obtain h where m: "kmalloc 12 (ls_heap s) = Ret (n, h)"
    and s': "s' = set_node n (\<lambda>_. \<lparr>node_prev = 0, node_next = 0, node_data = d\<rparr>) (s\<lparr>ls_heap := h\<rparr>)"
    by (auto simp: linked_list_create_node_def kbind_Ret_iff split: if_splits)
  show ?thesis using fresh_node_owned [OF own m n s'] by simp
qed

lemma append_owned:
  assumes "list_owned k s l xs" and "n \<notin> set (l # xs)" and "(unat n, k n) \<in> kheap_live (ls_heap s)"
  shows "list_owned k (linked_list_append l n s) l (xs @ [n]) \<and>
    list_data (linked_list_append l n s) (xs @ [n]) = list_data s xs @ [node_data (ls_node s n)]"
proof -
  have "n \<noteq> 0" using assms(1) kheap.live_bounds [OF _ assms(3)] by (auto simp: list_owned_def)
  then have "list_repr (linked_list_append l n s) l (xs @ [n])"
    using assms by (intro append_refines) (auto simp: list_owned_def)
  moreover have "ls_heap (linked_list_append l n s) = ls_heap s"
    by (simp add: linked_list_append_def Let_def store_simps)
  ultimately show ?thesis using assms append_refines(2) [of s l xs n]
    by (auto simp: list_owned_def list_data_def linked_list_append_def Let_def store_simps)
qed

lemma free_nodes_seg:
  assumes "ll_seg (ls_node s) p xs 0" and "distinct xs" and "kheap_inv (ls_heap s)"
    and "list_blocks k xs \<subseteq> kheap_live (ls_heap s)"
  shows "\<exists>s'. linked_list_free_nodes False (hd0 xs 0) s = Some s' \<and> kheap_inv (ls_heap s') \<and>
    kheap_live (ls_heap s') = kheap_live (ls_heap s) - list_blocks k xs"
  using assms
proof (induction xs arbitrary: s p)
  case Nil
  then show ?case by (simp add: linked_list_free_nodes.simps)
next
  case (Cons a xs)
  let ?s = "s\<lparr>ls_heap := kfree a (ls_heap s)\<rparr>"
  have a: "(unat a, k a) \<in> kheap_live (ls_heap s)" using Cons.prems(4) by simp
  have fr: "kheap_inv (kfree a (ls_heap s))"
    "kheap_live (kfree a (ls_heap s)) = kheap_live (ls_heap s) - {(unat a, k a)}"
    using kfree_live(1,2) [OF Cons.prems(3) a] by simp_all
  have "\<exists>s'. linked_list_free_nodes False (hd0 xs 0) ?s = Some s' \<and> kheap_inv (ls_heap s') \<and>
      kheap_live (ls_heap s') = kheap_live (ls_heap ?s) - list_blocks k xs"
    using Cons.prems fr by (intro Cons.IH [of _ a]) auto
  moreover have "linked_list_free_nodes False a s = linked_list_free_nodes False (hd0 xs 0) ?s"
    using Cons.prems(1) by (subst linked_list_free_nodes.simps) simp
  ultimately show ?case using fr(2) by auto
qed

lemma destroy_owned:
  assumes "list_owned k s l xs"
  shows "\<exists>s'. linked_list_destroy l False s = Some s' \<and> kheap_inv (ls_heap s') \<and>
    kheap_live (ls_heap s') = kheap_live (ls_heap s) - list_blocks k (l # xs)"
proof -
  have "\<exists>s'. linked_list_free_nodes False (hd0 xs 0) s = Some s' \<and> kheap_inv (ls_heap s') \<and>
    kheap_live (ls_heap s') = kheap_live (ls_heap s) - list_blocks k xs"
    using assms by (intro free_nodes_seg [of _ 0]) (auto simp: list_owned_def list_repr_def)
  then obtain s1 where s1: "linked_list_free_nodes False (hd0 xs 0) s = Some s1" "kheap_inv (ls_heap s1)"
    "kheap_live (ls_heap s1) = kheap_live (ls_heap s) - list_blocks k xs" by blast
  have l: "(unat l, k l) \<in> kheap_live (ls_heap s1)"
    using assms s1(3) by (auto simp: list_owned_def)
  show ?thesis using assms s1 kfree_live(1,2) [OF s1(2) l]
    by (auto simp: linked_list_destroy_def list_owned_def list_repr_def)
qed


text \<open>A store with an empty list at address 64, for concrete evaluations.\<close>

definition empty_store :: list_store where
  "empty_store = \<lparr>ls_heap = fresh_heap,
     ls_node = (\<lambda>_. \<lparr>node_prev = 0, node_next = 0, node_data = 0\<rparr>),
     ls_list = (\<lambda>_. \<lparr>list_head = 0, list_tail = 0\<rparr>)\<rparr>"

lemma empty_store_repr: "list_repr empty_store 64 []"
  by (simp add: empty_store_def list_repr_def)

subsection \<open>The properties\<close>

text \<open>
  C7. The list operations refine operations on the sequence of nodes: appending and prepending
  add the node at the end and in front, removal takes exactly that node out, the size, the
  lookup by index and the search (for the first node whose data matches) return what they return
  for the sequence. No data pointer changes.
\<close>

theorem linked_list_refines:
  assumes r: "list_repr s l xs" and n: "n \<noteq> 0" "n \<notin> set xs" and len: "length xs < 0x100000000"
  shows "list_repr (linked_list_append l n s) l (xs @ [n]) \<and>
    list_repr (linked_list_prepend l n s) l (n # xs) \<and>
    (\<forall>m \<in> set xs. list_repr (linked_list_remove l m s) l (remove1 m xs)) \<and>
    (\<forall>a m. node_data (ls_node (linked_list_append l n s) a) = node_data (ls_node s a) \<and>
      node_data (ls_node (linked_list_prepend l n s) a) = node_data (ls_node s a) \<and>
      (m \<in> set xs \<longrightarrow> node_data (ls_node (linked_list_remove l m s) a) = node_data (ls_node s a))) \<and>
    (linked_list_empty l s \<longleftrightarrow> xs = []) \<and>
    linked_list_size l s = Some (of_nat (length xs)) \<and>
    (\<forall>i. linked_list_get l i s = Some (if unat i < length xs then xs ! unat i else 0)) \<and>
    (\<forall>compare d. linked_list_find l compare d s =
      Some (case find (\<lambda>a. compare (node_data (ls_node s a)) d) xs of None \<Rightarrow> 0 | Some a \<Rightarrow> a))"
proof -
  have "list_repr (linked_list_remove l m s) l (remove1 m xs) \<and>
      node_data (ls_node (linked_list_remove l m s) a) = node_data (ls_node s a)" if mx: "m \<in> set xs" for m a
  proof -
    obtain us vs where xs: "xs = us @ m # vs" using split_list [OF mx] by blast
    have "m \<notin> set us" using r xs by (auto simp: list_repr_def)
    then have "remove1 m xs = us @ vs" using xs by (simp add: remove1_append)
    then show ?thesis using remove_refines [of s l us m vs] r xs by simp
  qed
  then show ?thesis
    using append_refines [OF r n] prepend_refines [OF r n] linked_list_empty_iff [OF r]
      size_refines [OF r] get_refines [OF r len] find_refines [OF r] by blast
qed

theorem linked_list_refines_witness:
  "list_repr (linked_list_append 64 100 empty_store) 64 [100] \<and> linked_list_size 64 empty_store = Some 0"
  using linked_list_refines [OF empty_store_repr, of 100] by simp

text \<open>
  C8. \<open>linked_list_sort\<close> terminates, keeps the nodes and their links, permutes the data, and
  leaves them in order, for every comparison function that is total and transitive.
\<close>

theorem linked_list_sort_sorts:
  assumes "list_repr s l xs" and "\<forall>a b. cmp a b > 0 \<longrightarrow> cmp b a \<le> 0"
    and "\<forall>a b c. cmp a b \<le> 0 \<and> cmp b c \<le> 0 \<longrightarrow> cmp a c \<le> 0"
  shows "\<exists>s'. linked_list_sort l cmp s = Some s' \<and> list_repr s' l xs \<and>
    mset (list_data s' xs) = mset (list_data s xs) \<and>
    sorted_wrt (\<lambda>a b. cmp a b \<le> 0) (list_data s' xs)"
proof -
  have tc: "total_compare cmp" using assms(2,3) by unfold_locales blast+
  from sort_refines [OF assms(1), of cmp] obtain s' where
    "linked_list_sort l cmp s = Some s'" "list_repr s' l xs"
    "list_data s' xs = xsort cmp (list_data s xs)" by blast
  then show ?thesis using total_compare.xsort_sorted [OF tc] mset_xsort by metis
qed

theorem linked_list_sort_sorts_witness:
  "\<exists>s'. linked_list_sort 64 (\<lambda>a b. int (unat a) - int (unat b)) (linked_list_append 64 100 empty_store) =
     Some s' \<and> list_repr s' 64 [100]"
proof -
  have "list_repr (linked_list_append 64 100 empty_store) 64 ([] @ [100])"
    using append_refines(1) [OF empty_store_repr, of 100] by simp
  from linked_list_sort_sorts [OF this, of "\<lambda>a b. int (unat a) - int (unat b)"] show ?thesis by auto
qed

text \<open>
  Lists do not leak or corrupt memory: a node created for a list is a block of its own, so it
  can be appended and then holds its data behind the data already there; destroying a list
  returns exactly the blocks of its nodes and of its header to the heap.
\<close>

theorem linked_list_memory:
  assumes own: "list_owned k s l xs"
  shows "(\<forall>d n s'. linked_list_create_node d s = Ret (n, s') \<and> n \<noteq> 0 \<longrightarrow>
      (\<exists>k'. list_owned k' (linked_list_append l n s') l (xs @ [n]) \<and>
         list_data (linked_list_append l n s') (xs @ [n]) = list_data s xs @ [d])) \<and>
    (\<exists>s'. linked_list_destroy l False s = Some s' \<and> kheap_inv (ls_heap s') \<and>
      kheap_live (ls_heap s') = kheap_live (ls_heap s) - list_blocks k (l # xs))"
proof -
  have "\<exists>k'. list_owned k' (linked_list_append l n s') l (xs @ [n]) \<and>
         list_data (linked_list_append l n s') (xs @ [n]) = list_data s xs @ [d]"
    if "linked_list_create_node d s = Ret (n, s')" "n \<noteq> 0" for d n s'
    using create_node_owned [OF own that] append_owned by metis
  then show ?thesis using destroy_owned [OF own] by blast
qed

theorem linked_list_memory_witness:
  "\<exists>s k s'. linked_list_create empty_store = Ret (0x10000014, s) \<and>
     linked_list_destroy 0x10000014 False s = Some s' \<and>
     kheap_live (ls_heap s') = kheap_live (ls_heap s) - {(0x10000014, k)}"
proof -
  have inv: "kheap_inv (ls_heap empty_store)" using fresh_heap_inv by (simp add: empty_store_def)
  have "\<exists>h'. kmalloc 8 fresh_heap = Ret (0x10000014, h')"
    by (simp add: kmalloc_def kmalloc_int_def kmalloc_heap_def fresh_heap_def blank_heap_def
        kheap_find_best_fit.simps kheap_consider_def kheap_carve_block_def Let_def heap_consts)
  then obtain s where c: "linked_list_create empty_store = Ret (0x10000014, s)"
    by (auto simp: linked_list_create_def empty_store_def)
  then obtain k where "list_owned (\<lambda>_. k) s 0x10000014 []" using create_owned [OF inv] by auto
  from linked_list_memory [OF this] show ?thesis using c by auto
qed

end
