(* ===== verification/Pmm.thy ===== *)
theory Pmm
  imports Linked_List
begin

text \<open>
  The physical memory manager of \<open>kernel/src/memory/pmm.c\<close>: a bitmap with one bit per page
  frame, a counter of frames in use, and the memory regions that the boot loader reports.

  A bitmap access outside the bitmap is \<open>None\<close>. The set of frames in use is the abstract state;
  the counter is its cardinality. Lists of regions are given by their contents (the list
  operations are those of theory \<open>Linked_List\<close>); their nodes are still allocated from the
  kernel heap, whose exhaustion panics.
\<close>

subsection \<open>State\<close>

record pmm_memory_region =
  region_base :: u32
  region_length :: u32
  region_type :: u32

record pmm =
  pmm_memory_regions :: "pmm_memory_region list"
  pmm_total_memory_size :: u32
  pmm_num_memory_frames :: u32
  pmm_num_memory_frames_used :: u32
  pmm_bitmap_size :: u32
  pmm_bitmap :: bytes

definition PMM_PAS_SIZE :: u32 where "PMM_PAS_SIZE = 0xFFFFFFFF"
definition PMM_FRAME_SIZE :: u32 where "PMM_FRAME_SIZE = 4096"
definition PMM_FRAMES_PER_BITMAP_BYTE :: u32 where "PMM_FRAMES_PER_BITMAP_BYTE = 8"
definition MULTIBOOT_MEMORY_AVAILABLE :: u32 where "MULTIBOOT_MEMORY_AVAILABLE = 1"

lemmas pmm_consts = PMM_PAS_SIZE_def PMM_FRAME_SIZE_def PMM_FRAMES_PER_BITMAP_BYTE_def

subsection \<open>Frames\<close>

definition pmm_address_to_index :: "u32 \<Rightarrow> u32" where
  "pmm_address_to_index address = address div PMM_FRAME_SIZE"

definition pmm_index_to_address :: "u32 \<Rightarrow> u32" where
  "pmm_index_to_address index = index * PMM_FRAME_SIZE"

definition pmm_test_frame :: "pmm \<Rightarrow> u32 \<Rightarrow> bool option" where
  "pmm_test_frame p frame =
     (let i = unat (frame div PMM_FRAMES_PER_BITMAP_BYTE)
      in if i < length (pmm_bitmap p)
         then Some (pmm_bitmap p ! i AND push_bit (unat (frame mod PMM_FRAMES_PER_BITMAP_BYTE)) 1 \<noteq> 0)
         else None)"

definition pmm_set_frame :: "u32 \<Rightarrow> pmm \<Rightarrow> pmm option" where
  "pmm_set_frame frame p =
     (let i = unat (frame div PMM_FRAMES_PER_BITMAP_BYTE)
      in case pmm_test_frame p frame of
           None \<Rightarrow> None
         | Some True \<Rightarrow> Some p
         | Some False \<Rightarrow>
             Some (p\<lparr>pmm_bitmap := (pmm_bitmap p)[i := pmm_bitmap p ! i OR
                       push_bit (unat (frame mod PMM_FRAMES_PER_BITMAP_BYTE)) 1],
                     pmm_num_memory_frames_used := pmm_num_memory_frames_used p + 1\<rparr>))"

definition pmm_unset_frame :: "u32 \<Rightarrow> pmm \<Rightarrow> pmm option" where
  "pmm_unset_frame frame p =
     (let i = unat (frame div PMM_FRAMES_PER_BITMAP_BYTE)
      in case pmm_test_frame p frame of
           None \<Rightarrow> None
         | Some False \<Rightarrow> Some p
         | Some True \<Rightarrow>
             Some (p\<lparr>pmm_bitmap := (pmm_bitmap p)[i := pmm_bitmap p ! i AND
                       NOT (push_bit (unat (frame mod PMM_FRAMES_PER_BITMAP_BYTE)) 1)],
                     pmm_num_memory_frames_used := pmm_num_memory_frames_used p - 1\<rparr>))"

definition pmm_mark_frame_reserved :: "u32 \<Rightarrow> pmm \<Rightarrow> pmm option" where
  "pmm_mark_frame_reserved frame_addr = pmm_set_frame (pmm_address_to_index frame_addr)"

definition pmm_mark_frame_available :: "u32 \<Rightarrow> pmm \<Rightarrow> pmm option" where
  "pmm_mark_frame_available frame_addr = pmm_unset_frame (pmm_address_to_index frame_addr)"

subsection \<open>Search\<close>

fun pmm_scan_bits :: "u8 \<Rightarrow> nat list \<Rightarrow> nat option" where
  "pmm_scan_bits byte [] = None"
| "pmm_scan_bits byte (bit_index # bs) =
     (if byte AND push_bit bit_index 1 = 0 then Some bit_index else pmm_scan_bits byte bs)"

fun pmm_scan_bytes :: "bytes \<Rightarrow> nat list \<Rightarrow> int" where
  "pmm_scan_bytes bitmap [] = -1"
| "pmm_scan_bytes bitmap (index # is) =
     (if bitmap ! index \<noteq> 0xFF
      then (case pmm_scan_bits (bitmap ! index) [0..<8] of
              Some bit_index \<Rightarrow> int (index * 8 + bit_index)
            | None \<Rightarrow> pmm_scan_bytes bitmap is)
      else pmm_scan_bytes bitmap is)"

definition pmm_find_free_frame :: "pmm \<Rightarrow> int" where
  "pmm_find_free_frame p = pmm_scan_bytes (pmm_bitmap p)
     [0..<unat (pmm_num_memory_frames p div PMM_FRAMES_PER_BITMAP_BYTE)]"

text \<open>
  The inner loop of the contiguous search, with the byte it tests: the source reads
  \<open>pmm_bitmap[bit_index]\<close>. The result is either the start frame, or the loop state.
\<close>

fun pmm_scan_run :: "bytes \<Rightarrow> u32 \<Rightarrow> nat \<Rightarrow> nat list \<Rightarrow> u32 \<Rightarrow> u32 \<Rightarrow> u32 + (u32 \<times> u32)" where
  "pmm_scan_run bitmap n index [] free_frames start_frame = Inr (free_frames, start_frame)"
| "pmm_scan_run bitmap n index (bit_index # bs) free_frames start_frame =
     (if bitmap ! bit_index AND push_bit bit_index 1 = 0
      then let start = (if free_frames = 0 then of_nat (index * 8 + bit_index) else start_frame)
           in if free_frames + 1 = n then Inl start
              else pmm_scan_run bitmap n index bs (free_frames + 1) start
      else pmm_scan_run bitmap n index bs 0 start_frame)"

fun pmm_scan_runs :: "bytes \<Rightarrow> u32 \<Rightarrow> nat list \<Rightarrow> u32 \<Rightarrow> u32 \<Rightarrow> int" where
  "pmm_scan_runs bitmap n [] free_frames start_frame = -1"
| "pmm_scan_runs bitmap n (index # is) free_frames start_frame =
     (if bitmap ! index \<noteq> 0xFF
      then (case pmm_scan_run bitmap n index [0..<8] free_frames start_frame of
              Inl start \<Rightarrow> int (unat start)
            | Inr (free_frames', start') \<Rightarrow> pmm_scan_runs bitmap n is free_frames' start')
      else pmm_scan_runs bitmap n is free_frames start_frame)"

definition pmm_find_free_contiguous_frames :: "pmm \<Rightarrow> u32 \<Rightarrow> int" where
  "pmm_find_free_contiguous_frames p n = pmm_scan_runs (pmm_bitmap p) n
     [0..<unat (pmm_num_memory_frames p div PMM_FRAMES_PER_BITMAP_BYTE)] 0 0"

subsection \<open>Allocation and release\<close>

definition pmm_alloc_frame :: "pmm \<Rightarrow> (u32 \<times> pmm) option" where
  "pmm_alloc_frame p =
     (if pmm_num_memory_frames p \<le> pmm_num_memory_frames_used p then Some (0, p)
      else let frame = pmm_find_free_frame p
           in if frame = -1 then Some (0, p)
              else map_option (\<lambda>p'. (pmm_index_to_address (of_int frame), p'))
                     (pmm_set_frame (of_int frame) p))"

fun pmm_set_frames :: "u32 \<Rightarrow> nat list \<Rightarrow> pmm \<Rightarrow> pmm option" where
  "pmm_set_frames frame [] p = Some p"
| "pmm_set_frames frame (i # is) p =
     (case pmm_set_frame (frame + of_nat i) p of None \<Rightarrow> None | Some p' \<Rightarrow> pmm_set_frames frame is p')"

fun pmm_unset_frames :: "u32 \<Rightarrow> nat list \<Rightarrow> pmm \<Rightarrow> pmm option" where
  "pmm_unset_frames frame [] p = Some p"
| "pmm_unset_frames frame (i # is) p =
     (case pmm_unset_frame (frame + of_nat i) p of None \<Rightarrow> None | Some p' \<Rightarrow> pmm_unset_frames frame is p')"

definition pmm_alloc_frames :: "u32 \<Rightarrow> pmm \<Rightarrow> (u32 \<times> pmm) option" where
  "pmm_alloc_frames n p =
     (if pmm_num_memory_frames p \<le> pmm_num_memory_frames_used p + n then Some (0, p)
      else let frame = pmm_find_free_contiguous_frames p n
           in if frame = -1 then Some (0, p)
              else map_option (\<lambda>p'. (pmm_index_to_address (of_int frame), p'))
                     (pmm_set_frames (of_int frame) [0..<unat n] p))"

definition pmm_free_frame :: "u32 \<Rightarrow> pmm \<Rightarrow> pmm option" where
  "pmm_free_frame frame_addr p = pmm_unset_frame (pmm_address_to_index frame_addr) p"

definition pmm_free_frames :: "u32 \<Rightarrow> u32 \<Rightarrow> pmm \<Rightarrow> pmm option" where
  "pmm_free_frames frame_addr n p =
     pmm_unset_frames (pmm_address_to_index frame_addr) [0..<unat n] p"

definition pmm_get_total_memory_size :: "pmm \<Rightarrow> u32" where
  "pmm_get_total_memory_size p = pmm_total_memory_size p"

definition pmm_get_available_memory_size :: "pmm \<Rightarrow> u32" where
  "pmm_get_available_memory_size p =
     (pmm_num_memory_frames p - pmm_num_memory_frames_used p) * PMM_FRAME_SIZE"

subsection \<open>Memory regions and initialization\<close>

record multiboot_memory_map =
  mmap_addr :: "64 word"
  mmap_len :: "64 word"
  mmap_type :: u32

definition pmm_memory_region_compare :: "pmm_memory_region \<Rightarrow> pmm_memory_region \<Rightarrow> int" where
  "pmm_memory_region_compare a b =
     (if region_base a < region_base b then -1
      else if region_base b < region_base a then 1
      else if region_length a < region_length b then -1
      else if region_length b < region_length a then 1
      else 0)"

definition kmalloc_or_panic :: "u32 \<Rightarrow> kheap \<Rightarrow> (u32 \<times> kheap) kres" where
  "kmalloc_or_panic sz h = kbind (kmalloc sz h) (\<lambda>(ptr, h').
     if ptr = 0 then Panic KPANIC_KHEAP_OUT_OF_MEMORY_CODE else Ret (ptr, h'))"

fun pmm_read_mmap :: "multiboot_memory_map list \<Rightarrow> kheap \<Rightarrow> (pmm_memory_region list \<times> kheap) kres" where
  "pmm_read_mmap [] h = Ret ([], h)"
| "pmm_read_mmap (mmap # ms) h =
     kbind (kmalloc_or_panic 12 h) (\<lambda>(region, h1).
     kbind (kmalloc_or_panic 12 h1) (\<lambda>(node, h2).
     kbind (pmm_read_mmap ms h2) (\<lambda>(rs, h3).
       Ret (\<lparr>region_base = ucast (mmap_addr mmap), region_length = ucast (mmap_len mmap),
             region_type = mmap_type mmap\<rparr> # rs, h3))))"

text \<open>The clean-up of overlapping regions: the inner loop, then the outer one.\<close>

fun pmm_adjust :: "pmm_memory_region \<Rightarrow> pmm_memory_region list \<Rightarrow>
    pmm_memory_region \<times> pmm_memory_region list" where
  "pmm_adjust region [] = (region, [])"
| "pmm_adjust region (next_region # ns) =
     (if region_base region + region_length region > region_base next_region
      then if region_type region < region_type next_region
           then let region' = region\<lparr>region_length := region_base next_region - region_base region\<rparr>;
                    (r, rs) = pmm_adjust region' ns
                in (r, next_region # rs)
           else let next' = next_region\<lparr>region_length := region_base region - region_base next_region\<rparr>;
                    (r, rs) = pmm_adjust region ns
                in (r, next' # rs)
      else let (r, rs) = pmm_adjust region ns in (r, next_region # rs))"

lemma length_pmm_adjust [simp]: "length (snd (pmm_adjust r ns)) = length ns"
  by (induction ns arbitrary: r) (auto simp: Let_def split_beta)

function pmm_cleanup :: "pmm_memory_region list \<Rightarrow> pmm_memory_region list" where
  "pmm_cleanup [] = []"
| "pmm_cleanup (region # rs) =
     fst (pmm_adjust region rs) # pmm_cleanup (snd (pmm_adjust region rs))"
  by pat_completeness auto
termination by (relation "measure length") auto

definition pmm_fetch_memory_regions ::
    "multiboot_memory_map list \<Rightarrow> kheap \<Rightarrow> (pmm_memory_region list \<times> kheap) kres" where
  "pmm_fetch_memory_regions mmap h =
     kbind (kmalloc_or_panic 8 h) (\<lambda>(list, h1).
     kbind (pmm_read_mmap mmap h1) (\<lambda>(rs, h2).
       Ret (pmm_cleanup (xsort pmm_memory_region_compare rs), h2)))"

definition pmm_fetch_total_memory_size :: "pmm_memory_region list \<Rightarrow> u32" where
  "pmm_fetch_total_memory_size rs = foldl (\<lambda>acc r. acc + region_length r) 0 rs"

definition pmm_region_frames :: "pmm_memory_region \<Rightarrow> nat list" where
  "pmm_region_frames region =
     [unat (pmm_address_to_index (region_base region))..<
      Suc (unat (pmm_address_to_index (region_base region + region_length region - 1)))]"

fun pmm_mark_regions :: "pmm_memory_region list \<Rightarrow> pmm \<Rightarrow> pmm option" where
  "pmm_mark_regions [] p = Some p"
| "pmm_mark_regions (region # rs) p =
     (if region_type region = MULTIBOOT_MEMORY_AVAILABLE
      then (case pmm_unset_frames 0 (pmm_region_frames region) p of
              None \<Rightarrow> None
            | Some p' \<Rightarrow> pmm_mark_regions rs p')
      else pmm_mark_regions rs p)"

text \<open>
  The size of the bitmap, \<open>ceil (0xFFFFF / 8)\<close>, is exact in the floating point arithmetic used.
\<close>

definition pmm_init :: "multiboot_memory_map list \<Rightarrow> kheap \<Rightarrow> (pmm option \<times> kheap) kres" where
  "pmm_init mmap h =
     kbind (pmm_fetch_memory_regions mmap h) (\<lambda>(rs, h1).
     let frames = PMM_PAS_SIZE div PMM_FRAME_SIZE;
         bitmap_size = (frames + 7) div PMM_FRAMES_PER_BITMAP_BYTE
     in kbind (kmalloc_a bitmap_size h1) (\<lambda>(bitmap, h2).
        if bitmap = 0 then Panic KPANIC_KHEAP_OUT_OF_MEMORY_CODE
        else let p = \<lparr>pmm_memory_regions = rs,
                      pmm_total_memory_size = pmm_fetch_total_memory_size rs,
                      pmm_num_memory_frames = frames, pmm_num_memory_frames_used = frames,
                      pmm_bitmap_size = bitmap_size,
                      pmm_bitmap = replicate (unat bitmap_size) 0xFF\<rparr>
             in kbind (kmalloc_or_panic 96 h2) (\<lambda>(message, h3).
                  Ret (pmm_mark_regions rs p, h3))))"


subsection \<open>The set of frames in use\<close>

definition frame_used :: "bytes \<Rightarrow> nat \<Rightarrow> bool" where
  "frame_used bm f \<longleftrightarrow> bit (bm ! (f div 8)) (f mod 8)"

definition used_frames :: "pmm \<Rightarrow> nat set" where
  "used_frames p = {f. f < unat (pmm_num_memory_frames p) \<and> frame_used (pmm_bitmap p) f}"

definition pmm_inv :: "pmm \<Rightarrow> bool" where
  "pmm_inv p \<longleftrightarrow> length (pmm_bitmap p) = (unat (pmm_num_memory_frames p) + 7) div 8 \<and>
     unat (pmm_num_memory_frames p) < 0x100000 \<and>
     unat (pmm_num_memory_frames_used p) = card (used_frames p)"

lemma u8_test_bit: "(b :: u8) AND 2 ^ k = 0 \<longleftrightarrow> \<not> bit b k"
  by (rule and_exp_eq_0_iff_not_bit)

lemma u8_set_bit: "k < 8 \<Longrightarrow> bit ((b :: u8) OR 2 ^ k) j \<longleftrightarrow> bit b j \<or> j = k"
  by (auto simp: bit_or_iff bit_exp_iff possible_bit_def)

lemma u8_clear_bit: "j < 8 \<Longrightarrow> bit ((b :: u8) AND NOT (2 ^ k)) j \<longleftrightarrow> bit b j \<and> j \<noteq> k"
  by (auto simp: bit_and_iff bit_not_iff bit_exp_iff possible_bit_def)

lemma frame_index:
  assumes "pmm_inv p" and "f < unat (pmm_num_memory_frames p)"
  shows "f div 8 < length (pmm_bitmap p)" "f < 4294967296"
proof -
  have "f div 8 \<le> (unat (pmm_num_memory_frames p) - 1) div 8" using assms(2) by (intro div_le_mono) simp
  moreover have "(unat (pmm_num_memory_frames p) + 7) div 8 = Suc ((unat (pmm_num_memory_frames p) - 1) div 8)"
    using assms(2) by (cases "unat (pmm_num_memory_frames p)") simp_all
  ultimately show "f div 8 < length (pmm_bitmap p)" using assms(1) by (simp add: pmm_inv_def)
  show "f < 4294967296" using assms by (simp add: pmm_inv_def)
qed

lemma unat_frame_split:
  "f < 4294967296 \<Longrightarrow> unat ((of_nat f :: u32) div PMM_FRAMES_PER_BITMAP_BYTE) = f div 8"
  "f < 4294967296 \<Longrightarrow> unat ((of_nat f :: u32) mod PMM_FRAMES_PER_BITMAP_BYTE) = f mod 8"
  by (simp_all add: unat_u32_div unat_u32_mod pmm_consts)

lemma test_frame_eq:
  assumes "pmm_inv p" and "f < unat (pmm_num_memory_frames p)"
  shows "pmm_test_frame p (of_nat f) = Some (f \<in> used_frames p)"
  using frame_index [OF assms] assms
  by (simp add: pmm_test_frame_def unat_frame_split u8_test_bit used_frames_def frame_used_def)

lemma frame_used_update:
  assumes "f div 8 < length bm" and "\<And>j. j < 8 \<Longrightarrow> bit b j \<longleftrightarrow> (if j = f mod 8 then v else bit (bm ! (f div 8)) j)"
  shows "frame_used (bm[f div 8 := b]) g \<longleftrightarrow> (if g = f then v else frame_used bm g)"
proof (cases "g div 8 = f div 8")
  case True
  then have "g = f \<longleftrightarrow> g mod 8 = f mod 8" by (metis div_mult_mod_eq)
  then show ?thesis using True assms by (simp add: frame_used_def)
next
  case False
  then show ?thesis by (auto simp: frame_used_def)
qed

lemma finite_used_frames [simp]: "finite (used_frames p)"
  by (simp add: used_frames_def)

lemma card_used_frames: "card (used_frames p) \<le> unat (pmm_num_memory_frames p)"
proof -
  have "card (used_frames p) \<le> card {..<unat (pmm_num_memory_frames p)}"
    by (rule card_mono) (auto simp: used_frames_def)
  then show ?thesis by simp
qed

text \<open>What one step on the bitmap changes.\<close>

definition pmm_same :: "pmm \<Rightarrow> pmm \<Rightarrow> bool" where
  "pmm_same p p' \<longleftrightarrow> pmm_num_memory_frames p' = pmm_num_memory_frames p \<and>
     pmm_memory_regions p' = pmm_memory_regions p \<and>
     pmm_total_memory_size p' = pmm_total_memory_size p"

lemma pmm_same_refl [simp]: "pmm_same p p"
  and pmm_same_trans: "pmm_same p q \<Longrightarrow> pmm_same q r \<Longrightarrow> pmm_same p r"
  by (simp_all add: pmm_same_def)

lemma set_frame_correct:
  assumes inv: "pmm_inv p" and f: "f < unat (pmm_num_memory_frames p)"
  shows "\<exists>p'. pmm_set_frame (of_nat f) p = Some p' \<and> pmm_inv p' \<and> pmm_same p p' \<and>
    used_frames p' = insert f (used_frames p)"
proof (cases "f \<in> used_frames p")
  case True
  then show ?thesis using inv test_frame_eq [OF assms]
    by (auto simp: pmm_set_frame_def Let_def insert_absorb)
next
  case False
  note ix = frame_index [OF assms]
  let ?b = "pmm_bitmap p ! (f div 8) OR 2 ^ (f mod 8)"
  let ?p = "p\<lparr>pmm_bitmap := (pmm_bitmap p)[f div 8 := ?b],
     pmm_num_memory_frames_used := pmm_num_memory_frames_used p + 1\<rparr>"
  have s: "pmm_set_frame (of_nat f) p = Some ?p"
    using False test_frame_eq [OF assms] ix by (simp add: pmm_set_frame_def Let_def unat_frame_split)
  have "frame_used (pmm_bitmap ?p) g \<longleftrightarrow> g = f \<or> frame_used (pmm_bitmap p) g" for g
    using frame_used_update [OF ix(1), of ?b True g] by (simp add: u8_set_bit)
  then have u: "used_frames ?p = insert f (used_frames p)" using f by (auto simp: used_frames_def)
  have c: "card (used_frames ?p) = Suc (card (used_frames p))" using u False by simp
  have "card (used_frames ?p) < 4294967296"
    using card_used_frames [of ?p] inv by (simp add: pmm_inv_def)
  then have "pmm_inv ?p" using inv c by (simp add: pmm_inv_def unat_u32_add_small)
  then show ?thesis using s u by (simp add: pmm_same_def)
qed

lemma unset_frame_correct:
  assumes inv: "pmm_inv p" and f: "f < unat (pmm_num_memory_frames p)"
  shows "\<exists>p'. pmm_unset_frame (of_nat f) p = Some p' \<and> pmm_inv p' \<and> pmm_same p p' \<and>
    used_frames p' = used_frames p - {f}"
proof (cases "f \<in> used_frames p")
  case False
  then show ?thesis using inv test_frame_eq [OF assms] by (auto simp: pmm_unset_frame_def Let_def)
next
  case True
  note ix = frame_index [OF assms]
  let ?b = "pmm_bitmap p ! (f div 8) AND NOT (2 ^ (f mod 8))"
  let ?p = "p\<lparr>pmm_bitmap := (pmm_bitmap p)[f div 8 := ?b],
     pmm_num_memory_frames_used := pmm_num_memory_frames_used p - 1\<rparr>"
  have s: "pmm_unset_frame (of_nat f) p = Some ?p"
    using True test_frame_eq [OF assms] ix by (simp add: pmm_unset_frame_def Let_def unat_frame_split)
  have "frame_used (pmm_bitmap ?p) g \<longleftrightarrow> g \<noteq> f \<and> frame_used (pmm_bitmap p) g" for g
    using frame_used_update [OF ix(1), of ?b False g] by (simp add: u8_clear_bit)
  then have u: "used_frames ?p = used_frames p - {f}" by (auto simp: used_frames_def)
  have c: "card (used_frames ?p) = card (used_frames p) - 1" using u True by simp
  have pos: "0 < card (used_frames p)" using True by (auto simp: card_gt_0_iff)
  then have "1 \<le> pmm_num_memory_frames_used p" using inv by (simp add: pmm_inv_def u32_le_iff)
  then have "pmm_inv ?p" using inv c by (simp add: pmm_inv_def unat_u32_sub)
  then show ?thesis using s u by (simp add: pmm_same_def)
qed


subsection \<open>The search for a free frame\<close>

lemma scan_bits_None: "pmm_scan_bits b ks = None \<Longrightarrow> \<forall>k \<in> set ks. bit b k"
  by (induction ks) (auto simp: u8_test_bit split: if_splits)

lemma scan_bits_Some:
  "pmm_scan_bits b [k..<m] = Some j \<Longrightarrow> k \<le> j \<and> j < m \<and> \<not> bit b j \<and> (\<forall>i. k \<le> i \<and> i < j \<longrightarrow> bit b i)"
proof (induction "m - k" arbitrary: k)
  case 0
  then show ?case by simp
next
  case (Suc d)
  then have k: "[k..<m] = k # [Suc k..<m]" by (intro upt_conv_Cons) simp
  show ?case
  proof (cases "bit b k")
    case True
    then have "pmm_scan_bits b [Suc k..<m] = Some j" using Suc.prems k by (simp add: u8_test_bit)
    with Suc.hyps(1) [of "Suc k"] Suc.hyps(2) have IH: "Suc k \<le> j \<and> j < m \<and> \<not> bit b j \<and>
        (\<forall>i. Suc k \<le> i \<and> i < j \<longrightarrow> bit b i)" by simp
    have "bit b i" if "k \<le> i" "i < j" for i
      using True IH that by (cases "i = k") auto
    then show ?thesis using IH by simp
  next
    case False
    then show ?thesis using Suc.prems Suc.hyps(2) k by (auto simp: u8_test_bit)
  qed
qed

lemma u8_full: "(\<forall>k < 8. bit (b :: u8) k) \<longleftrightarrow> b = 0xFF"
proof -
  have m: "(0xFF :: u8) = mask 8" by (simp add: mask_eq_exp_minus_1)
  show ?thesis unfolding m
    by (auto intro!: bit_eqI simp: bit_mask_iff possible_bit_def dest: bit_imp_le_length)
qed

lemma frame_used_byte: "k < 8 \<Longrightarrow> frame_used bm (8 * i + k) \<longleftrightarrow> bit (bm ! i) k"
  by (simp add: frame_used_def)

lemma scan_bytes_correct:
  "(pmm_scan_bytes bm [a..<n] = -1 \<and> (\<forall>f. 8 * a \<le> f \<and> f < 8 * n \<longrightarrow> frame_used bm f)) \<or>
   (\<exists>f. pmm_scan_bytes bm [a..<n] = int f \<and> f < 8 * n \<and> \<not> frame_used bm f \<and>
        (\<forall>g. 8 * a \<le> g \<and> g < f \<longrightarrow> frame_used bm g))"
proof (induction "n - a" arbitrary: a)
  case 0
  then show ?case by auto
next
  case (Suc d)
  then have u: "[a..<n] = a # [Suc a..<n]" and an: "a < n" by (simp_all add: upt_conv_Cons)
  have byte: "frame_used bm g \<longleftrightarrow> bit (bm ! a) (g - 8 * a)" if "8 * a \<le> g" "g < 8 * a + 8" for g
    using frame_used_byte [of "g - 8 * a" bm a] that by simp
  show ?case
  proof (cases "bm ! a = 0xFF")
    case True
    have full: "frame_used bm g" if "8 * a \<le> g" "g < 8 * a + 8" for g
      using byte [OF that] u8_full [of "bm ! a"] True that by simp
    have IH: "(pmm_scan_bytes bm [Suc a..<n] = -1 \<and> (\<forall>f. 8 * Suc a \<le> f \<and> f < 8 * n \<longrightarrow> frame_used bm f)) \<or>
      (\<exists>f. pmm_scan_bytes bm [Suc a..<n] = int f \<and> f < 8 * n \<and> \<not> frame_used bm f \<and>
        (\<forall>g. 8 * Suc a \<le> g \<and> g < f \<longrightarrow> frame_used bm g))"
      using Suc.hyps(1) [of "Suc a"] Suc.hyps(2) by simp
    have e: "pmm_scan_bytes bm [a..<n] = pmm_scan_bytes bm [Suc a..<n]" using True u by simp
    have ext: "\<forall>g. 8 * a \<le> g \<and> g < f \<longrightarrow> frame_used bm g"
      if "\<forall>g. 8 * Suc a \<le> g \<and> g < f \<longrightarrow> frame_used bm g" for f
      using that full by (metis add.commute le_less_linear mult_Suc_right)
    show ?thesis using IH ext unfolding e by metis
  next
    case False
    then obtain k where k: "pmm_scan_bits (bm ! a) [0..<8] = Some k"
      using scan_bits_None [of "bm ! a" "[0..<8]"] u8_full [of "bm ! a"]
      by (cases "pmm_scan_bits (bm ! a) [0..<8]") auto
    note kk = scan_bits_Some [OF k]
    have "pmm_scan_bytes bm [a..<n] = int (8 * a + k)" using False k u by simp
    moreover have "8 * a + k < 8 * n" using kk an by linarith
    moreover have "\<not> frame_used bm (8 * a + k)" using kk frame_used_byte by simp
    moreover have "frame_used bm g" if "8 * a \<le> g" "g < 8 * a + k" for g
      using byte [of g] kk that by simp
    ultimately show ?thesis by blast
  qed
qed

text \<open>
  The scan covers the frames of whole bitmap bytes below the number of frames; what it returns is
  the lowest free frame among them.
\<close>

definition scanned :: "pmm \<Rightarrow> nat" where
  "scanned p = 8 * (unat (pmm_num_memory_frames p) div 8)"

lemma find_free_frame_correct:
  assumes "pmm_inv p"
  shows "(pmm_find_free_frame p = -1 \<and> {..<scanned p} \<subseteq> used_frames p) \<or>
   (\<exists>f. pmm_find_free_frame p = int f \<and> f < scanned p \<and> f \<notin> used_frames p \<and> {..<f} \<subseteq> used_frames p)"
proof -
  have n: "unat (pmm_num_memory_frames p div PMM_FRAMES_PER_BITMAP_BYTE) =
      unat (pmm_num_memory_frames p) div 8" by (simp add: unat_u32_div pmm_consts)
  have le: "scanned p \<le> unat (pmm_num_memory_frames p)" by (simp add: scanned_def)
  then have u: "f < scanned p \<Longrightarrow> f \<in> used_frames p \<longleftrightarrow> frame_used (pmm_bitmap p) f" for f
    by (simp add: used_frames_def)
  from scan_bytes_correct [of "pmm_bitmap p" 0 "unat (pmm_num_memory_frames p) div 8", folded scanned_def]
  show ?thesis
  proof (elim disjE)
    assume "pmm_scan_bytes (pmm_bitmap p) [0..<unat (pmm_num_memory_frames p) div 8] = - 1 \<and>
      (\<forall>f. 8 * 0 \<le> f \<and> f < scanned p \<longrightarrow> frame_used (pmm_bitmap p) f)"
    then show ?thesis unfolding pmm_find_free_frame_def n using u by auto
  next
    assume "\<exists>f. pmm_scan_bytes (pmm_bitmap p) [0..<unat (pmm_num_memory_frames p) div 8] = int f \<and>
      f < scanned p \<and> \<not> frame_used (pmm_bitmap p) f \<and> (\<forall>g. 8 * 0 \<le> g \<and> g < f \<longrightarrow> frame_used (pmm_bitmap p) g)"
    then obtain f where f: "pmm_scan_bytes (pmm_bitmap p) [0..<unat (pmm_num_memory_frames p) div 8] = int f"
      "f < scanned p" "\<not> frame_used (pmm_bitmap p) f" "\<forall>g < f. frame_used (pmm_bitmap p) g" by auto
    have "f \<notin> used_frames p" "{..<f} \<subseteq> used_frames p" using f u by auto
    then show ?thesis unfolding pmm_find_free_frame_def n using f by blast
  qed
qed


subsection \<open>Allocation and release on the set of frames\<close>

lemma index_to_address: "pmm_index_to_address (of_nat f) = of_nat (f * 4096)"
  by (simp add: pmm_index_to_address_def pmm_consts)

lemma address_to_index: "f < 0x100000 \<Longrightarrow> pmm_address_to_index (of_nat (f * 4096)) = of_nat f"
  by (simp add: pmm_address_to_index_def pmm_consts u32_eq_iff unat_u32_div del: of_nat_mult)

lemma scanned_le: "scanned p \<le> unat (pmm_num_memory_frames p)"
  by (simp add: scanned_def)

lemma alloc_frame_correct:
  assumes inv: "pmm_inv p"
  shows "(pmm_alloc_frame p = Some (0, p) \<and> {..<scanned p} \<subseteq> used_frames p) \<or>
    (\<exists>f p'. pmm_alloc_frame p = Some (of_nat (f * 4096), p') \<and> pmm_inv p' \<and> pmm_same p p' \<and>
       f < scanned p \<and> f \<notin> used_frames p \<and> {..<f} \<subseteq> used_frames p \<and>
       used_frames p' = insert f (used_frames p))"
proof (cases "pmm_num_memory_frames p \<le> pmm_num_memory_frames_used p")
  case True
  then have c: "unat (pmm_num_memory_frames p) \<le> card (used_frames p)"
    using inv by (simp add: pmm_inv_def u32_le_iff)
  have "used_frames p = {..<unat (pmm_num_memory_frames p)}"
    by (rule card_subset_eq) (use c card_used_frames [of p] in \<open>auto simp: used_frames_def\<close>)
  then have "{..<scanned p} \<subseteq> used_frames p" using scanned_le [of p] by auto
  then show ?thesis using True by (simp add: pmm_alloc_frame_def)
next
  case False
  from find_free_frame_correct [OF inv] show ?thesis
  proof (elim disjE exE conjE)
    assume "pmm_find_free_frame p = -1" "{..<scanned p} \<subseteq> used_frames p"
    then show ?thesis using False by (simp add: pmm_alloc_frame_def)
  next
    fix f assume f: "pmm_find_free_frame p = int f" "f < scanned p" "f \<notin> used_frames p" "{..<f} \<subseteq> used_frames p"
    have "f < unat (pmm_num_memory_frames p)" using f(2) scanned_le [of p] by simp
    from set_frame_correct [OF inv this] obtain p' where "pmm_set_frame (of_nat f) p = Some p'"
      "pmm_inv p'" "pmm_same p p'" "used_frames p' = insert f (used_frames p)" by blast
    then show ?thesis using False f
      by (auto simp: pmm_alloc_frame_def Let_def index_to_address simp del: of_nat_mult)
  qed
qed

lemma set_frames_correct:
  assumes "pmm_inv p" and "\<forall>i \<in> set is. f + i < unat (pmm_num_memory_frames p)"
  shows "\<exists>p'. pmm_set_frames (of_nat f) is p = Some p' \<and> pmm_inv p' \<and> pmm_same p p' \<and>
    used_frames p' = used_frames p \<union> (+) f ` set is"
  using assms
proof (induction "is" arbitrary: p)
  case Nil
  then show ?case by simp
next
  case (Cons i "is")
  have "f + i < unat (pmm_num_memory_frames p)" using Cons.prems by simp
  from set_frame_correct [OF Cons.prems(1) this] obtain p1 where
    p1: "pmm_set_frame (of_nat (f + i)) p = Some p1" "pmm_inv p1" "pmm_same p p1"
    "used_frames p1 = insert (f + i) (used_frames p)" by blast
  have "\<forall>i \<in> set is. f + i < unat (pmm_num_memory_frames p1)"
    using Cons.prems p1(3) by (simp add: pmm_same_def)
  from Cons.IH [OF p1(2) this] obtain p2 where "pmm_set_frames (of_nat f) is p1 = Some p2" "pmm_inv p2"
    "pmm_same p1 p2" "used_frames p2 = used_frames p1 \<union> (+) f ` set is" by blast
  then show ?case using p1 pmm_same_trans by (auto simp flip: of_nat_add)
qed

lemma unset_frames_correct:
  assumes "pmm_inv p" and "\<forall>i \<in> set is. f + i < unat (pmm_num_memory_frames p)"
  shows "\<exists>p'. pmm_unset_frames (of_nat f) is p = Some p' \<and> pmm_inv p' \<and> pmm_same p p' \<and>
    used_frames p' = used_frames p - (+) f ` set is"
  using assms
proof (induction "is" arbitrary: p)
  case Nil
  then show ?case by simp
next
  case (Cons i "is")
  have "f + i < unat (pmm_num_memory_frames p)" using Cons.prems by simp
  from unset_frame_correct [OF Cons.prems(1) this] obtain p1 where
    p1: "pmm_unset_frame (of_nat (f + i)) p = Some p1" "pmm_inv p1" "pmm_same p p1"
    "used_frames p1 = used_frames p - {f + i}" by blast
  have "\<forall>i \<in> set is. f + i < unat (pmm_num_memory_frames p1)"
    using Cons.prems p1(3) by (simp add: pmm_same_def)
  from Cons.IH [OF p1(2) this] obtain p2 where "pmm_unset_frames (of_nat f) is p1 = Some p2" "pmm_inv p2"
    "pmm_same p1 p2" "used_frames p2 = used_frames p1 - (+) f ` set is" by blast
  then show ?case using p1 pmm_same_trans by (auto simp flip: of_nat_add)
qed

lemma free_frame_correct:
  assumes "pmm_inv p" and "f < unat (pmm_num_memory_frames p)"
  shows "\<exists>p'. pmm_free_frame (of_nat (f * 4096)) p = Some p' \<and> pmm_inv p' \<and> pmm_same p p' \<and>
    used_frames p' = used_frames p - {f}"
proof -
  have "pmm_address_to_index (of_nat (f * 4096)) = of_nat f"
    using assms by (intro address_to_index) (simp add: pmm_inv_def)
  then show ?thesis using unset_frame_correct [OF assms] by (simp add: pmm_free_frame_def del: of_nat_mult)
qed

lemma available_memory_correct:
  assumes "pmm_inv p"
  shows "pmm_get_available_memory_size p =
    of_nat (4096 * (unat (pmm_num_memory_frames p) - card (used_frames p)))"
proof -
  have le: "pmm_num_memory_frames_used p \<le> pmm_num_memory_frames p"
    using assms card_used_frames [of p] by (simp add: pmm_inv_def u32_le_iff)
  have e: "unat (pmm_num_memory_frames p) - card (used_frames p) =
      unat (pmm_num_memory_frames p - pmm_num_memory_frames_used p)"
    using unat_u32_sub [OF le] assms by (simp add: pmm_inv_def)
  have "pmm_num_memory_frames p - pmm_num_memory_frames_used p =
      of_nat (unat (pmm_num_memory_frames p) - card (used_frames p))"
    unfolding e by simp
  then show ?thesis by (simp add: pmm_get_available_memory_size_def pmm_consts mult.commute)
qed

subsection \<open>Initialization\<close>

interpretation region_order: total_compare pmm_memory_region_compare
  by unfold_locales (auto simp: pmm_memory_region_compare_def split: if_splits)

lemma mark_regions_correct:
  assumes "pmm_inv p"
    and "\<forall>r \<in> set rs. region_type r = MULTIBOOT_MEMORY_AVAILABLE \<longrightarrow>
      (\<forall>f \<in> set (pmm_region_frames r). f < unat (pmm_num_memory_frames p))"
  shows "\<exists>p'. pmm_mark_regions rs p = Some p' \<and> pmm_inv p' \<and> pmm_same p p' \<and>
    used_frames p' = used_frames p -
      (\<Union>r \<in> {r \<in> set rs. region_type r = MULTIBOOT_MEMORY_AVAILABLE}. set (pmm_region_frames r))"
  using assms
proof (induction rs arbitrary: p)
  case Nil
  then show ?case by simp
next
  case (Cons r rs)
  show ?case
  proof (cases "region_type r = MULTIBOOT_MEMORY_AVAILABLE")
    case False
    then have e: "{q \<in> set (r # rs). region_type q = MULTIBOOT_MEMORY_AVAILABLE} =
        {q \<in> set rs. region_type q = MULTIBOOT_MEMORY_AVAILABLE}" by auto
    show ?thesis unfolding e using False Cons by simp
  next
    case True
    then have e: "{q \<in> set (r # rs). region_type q = MULTIBOOT_MEMORY_AVAILABLE} =
        insert r {q \<in> set rs. region_type q = MULTIBOOT_MEMORY_AVAILABLE}" by auto
    have "\<forall>i \<in> set (pmm_region_frames r). 0 + i < unat (pmm_num_memory_frames p)"
      using Cons.prems True by simp
    from unset_frames_correct [OF Cons.prems(1) this] obtain p1 where
      p1: "pmm_unset_frames 0 (pmm_region_frames r) p = Some p1" "pmm_inv p1" "pmm_same p p1"
      "used_frames p1 = used_frames p - set (pmm_region_frames r)" by auto
    from Cons.IH [OF p1(2)] Cons.prems p1(3) obtain p2 where "pmm_mark_regions rs p1 = Some p2"
      "pmm_inv p2" "pmm_same p1 p2" "used_frames p2 = used_frames p1 -
      (\<Union>r \<in> {r \<in> set rs. region_type r = MULTIBOOT_MEMORY_AVAILABLE}. set (pmm_region_frames r))"
      by (auto simp: pmm_same_def)
    then show ?thesis unfolding e using True p1 pmm_same_trans by auto
  qed
qed


lemma initial_pmm:
  assumes "p = \<lparr>pmm_memory_regions = rs, pmm_total_memory_size = t, pmm_num_memory_frames = 0xFFFFF,
     pmm_num_memory_frames_used = 0xFFFFF, pmm_bitmap_size = 0x20000, pmm_bitmap = replicate 0x20000 0xFF\<rparr>"
  shows "pmm_inv p" "used_frames p = {..<0xFFFFF}"
proof -
  have full: "bit (0xFF :: u8) k" if "k < 8" for k using u8_full [of "0xFF"] that by simp
  have "frame_used (pmm_bitmap p) f" if f: "f < 0xFFFFF" for f
  proof -
    have "f div 8 < 0x20000" using f by (simp add: div_less_iff_less_mult)
    then have "pmm_bitmap p ! (f div 8) = 0xFF" unfolding assms by simp
    moreover have "bit (0xFF :: u8) (f mod 8)" by (rule full) simp
    ultimately show ?thesis by (simp only: frame_used_def)
  qed
  then show u: "used_frames p = {..<0xFFFFF}" by (auto simp: used_frames_def assms)
  show "pmm_inv p" unfolding pmm_inv_def u by (simp add: assms)
qed

lemma pmm_init_correct:
  assumes "pmm_init mmap h = Ret (r, h')"
    and "pmm_fetch_memory_regions mmap h = Ret (rs, h1)"
    and "\<forall>r \<in> set rs. region_type r = MULTIBOOT_MEMORY_AVAILABLE \<longrightarrow>
      pmm_address_to_index (region_base r + region_length r - 1) < 0xFFFFF"
  shows "\<exists>p. r = Some p \<and> pmm_inv p \<and> pmm_memory_regions p = rs \<and>
    pmm_total_memory_size p = pmm_fetch_total_memory_size rs \<and> used_frames p = {..<0xFFFFF} -
      (\<Union>r \<in> {r \<in> set rs. region_type r = MULTIBOOT_MEMORY_AVAILABLE}. set (pmm_region_frames r))"
proof -
  define p0 where "p0 = \<lparr>pmm_memory_regions = rs, pmm_total_memory_size = pmm_fetch_total_memory_size rs,
     pmm_num_memory_frames = 0xFFFFF, pmm_num_memory_frames_used = 0xFFFFF,
     pmm_bitmap_size = 0x20000, pmm_bitmap = replicate 0x20000 0xFF\<rparr>"
  have r: "r = pmm_mark_regions rs p0"
    using assms(1,2) unfolding p0_def
    by (auto simp: pmm_init_def kbind_Ret_iff Let_def pmm_consts split: if_splits)
  note i = initial_pmm [OF p0_def]
  have n: "unat (pmm_num_memory_frames p0) = 0xFFFFF" by (simp add: p0_def)
  have "\<forall>r \<in> set rs. region_type r = MULTIBOOT_MEMORY_AVAILABLE \<longrightarrow>
      (\<forall>f \<in> set (pmm_region_frames r). f < unat (pmm_num_memory_frames p0))"
    unfolding n using assms(3) by (auto simp: pmm_region_frames_def u32_less_iff less_Suc_eq_le)
  from mark_regions_correct [OF i(1) this] show ?thesis
    using r i(2) by (auto simp: pmm_same_def p0_def)
qed

subsection \<open>Initialization from the map of the boot loader\<close>

text \<open>The placement allocator with room for \<open>n\<close> more bytes; it serves the kernel until \<open>kheap_init\<close>.\<close>

definition placement_room :: "kheap \<Rightarrow> nat \<Rightarrow> bool" where
  "placement_room h n \<longleftrightarrow> \<not> kheap_enabled h \<and> kheap_placement_memory_head h \<noteq> 0 \<and>
     unat (kheap_placement_memory_head h) + unat (kheap_placement_memory_free_memory h) + 4096 \<le> 4294967296 \<and>
     n \<le> unat (kheap_placement_memory_free_memory h)"

lemma placement_kmalloc:
  assumes "placement_room h (n + unat sz)"
  shows "\<exists>p h'. kmalloc sz h = Ret (p, h') \<and> p \<noteq> 0 \<and> placement_room h' n"
proof -
  let ?h = "kheap_placement_memory_head h" let ?f = "kheap_placement_memory_free_memory h"
  have r: "\<not> kheap_enabled h" "?h \<noteq> 0" "unat ?h + unat ?f + 4096 \<le> 4294967296" "n + unat sz \<le> unat ?f"
    using assms by (simp_all add: placement_room_def)
  have le: "sz \<le> ?f" using r(4) by (simp add: u32_le_iff)
  have u: "unat (?h + sz) = unat ?h + unat sz" "unat (?f - sz) = unat ?f - unat sz"
    using r le by (simp_all add: unat_u32_add_small unat_u32_sub)
  have "?h + sz \<noteq> 0" using u(1) r(2) by (metis add_is_0 unat_eq_zero)
  moreover have "kmalloc sz h = Ret (?h, h\<lparr>kheap_placement_memory_head := ?h + sz,
      kheap_placement_memory_free_memory := ?f - sz\<rparr>)"
    using r(1) le by (simp add: kmalloc_def kmalloc_int_def kmalloc_placement_def Let_def not_less [symmetric])
  ultimately show ?thesis using r u by (simp add: placement_room_def)
qed

lemma placement_kmalloc_a:
  assumes "placement_room h (n + unat sz + 4096)"
  shows "\<exists>p h'. kmalloc_a sz h = Ret (p, h') \<and> p \<noteq> 0 \<and> placement_room h' n"
proof -
  let ?h = "kheap_placement_memory_head h" let ?f = "kheap_placement_memory_free_memory h"
  let ?u = "(unat ?h + 4095) div 4096 * 4096"
  have r: "\<not> kheap_enabled h" "?h \<noteq> 0" "unat ?h + unat ?f + 4096 \<le> 4294967296" "n + unat sz + 4096 \<le> unat ?f"
    using assms by (simp_all add: placement_room_def)
  note b = round_up_bounds [of "unat ?h"]
  have up: "(?h + PAGE_SIZE - 1) AND NOT (PAGE_SIZE - 1) = of_nat ?u"
    using align_up_word [of "unat ?h"] r(3) by (simp add: VMM_ALIGN_UP_def)
  have uu: "unat (of_nat ?u :: u32) = ?u" using b r(3) by (intro unat_of_nat_u32) linarith
  have h0: "0 < unat ?h" using r(2) by (simp add: unat_gt_0)
  have hu: "?h \<le> of_nat ?u" unfolding u32_le_iff uu using b by simp
  have d: "unat (of_nat ?u - ?h) = ?u - unat ?h" using unat_u32_sub [OF hu] uu by simp
  define t where "t = sz + (of_nat ?u - ?h)"
  have t: "unat t = unat sz + (?u - unat ?h)"
    unfolding t_def using d b r(4) unat_u32_less [of ?f] by (subst unat_u32_add_small) linarith+
  have le: "t \<le> ?f" unfolding u32_le_iff t using b r(4) by linarith
  have u: "unat (?h + t) = unat ?h + unat t" "unat (?f - t) = unat ?f - unat t"
    using r(3) le by (simp_all add: unat_u32_add_small unat_u32_sub u32_le_iff)
  have nz: "(of_nat ?u :: u32) \<noteq> 0" "?h + t \<noteq> 0"
    using uu b(1) h0 u(1) by (metis unsigned_0 not_less zero_less_iff_neq_zero le_zero_eq, metis add_is_0 less_numeral_extra(3) unsigned_0)
  have k: "kmalloc_a sz h = Ret (of_nat ?u, h\<lparr>kheap_placement_memory_head := ?h + t,
      kheap_placement_memory_free_memory := ?f - t\<rparr>)"
    using r(1) le by (simp add: kmalloc_a_def kmalloc_int_def kmalloc_placement_def Let_def up t_def not_less [symmetric])
  show ?thesis unfolding k using r b t u le nz by (simp add: placement_room_def)
qed


lemma placement_or_panic:
  assumes "placement_room h (n + unat sz)"
  shows "\<exists>p h'. kmalloc_or_panic sz h = Ret (p, h') \<and> placement_room h' n"
  using placement_kmalloc [OF assms] by (auto simp: kmalloc_or_panic_def)

text \<open>The region of an entry of the boot loader's map, which lies below 4 GiB.\<close>

definition region_of :: "multiboot_memory_map \<Rightarrow> pmm_memory_region" where
  "region_of e = \<lparr>region_base = ucast (mmap_addr e), region_length = ucast (mmap_len e), region_type = mmap_type e\<rparr>"

definition entry_ok :: "multiboot_memory_map \<Rightarrow> bool" where
  "entry_ok e \<longleftrightarrow> 0 < unat (mmap_len e) \<and> unat (mmap_addr e) + unat (mmap_len e) \<le> 2 ^ 32 \<and>
     (mmap_type e = MULTIBOOT_MEMORY_AVAILABLE \<longrightarrow> unat (mmap_addr e) + unat (mmap_len e) \<le> 0xFFFFF000)"

definition entries_apart :: "multiboot_memory_map \<Rightarrow> multiboot_memory_map \<Rightarrow> bool" where
  "entries_apart d e \<longleftrightarrow> unat (mmap_addr d) + unat (mmap_len d) \<le> unat (mmap_addr e) \<or>
     unat (mmap_addr e) + unat (mmap_len e) \<le> unat (mmap_addr d)"

text \<open>Frame \<open>f\<close> holds an address that the map reports as available memory.\<close>

definition reported_available :: "multiboot_memory_map list \<Rightarrow> nat \<Rightarrow> bool" where
  "reported_available mmap f \<longleftrightarrow> (\<exists>e \<in> set mmap. mmap_type e = MULTIBOOT_MEMORY_AVAILABLE \<and>
     (\<exists>a. unat (mmap_addr e) \<le> a \<and> a < unat (mmap_addr e) + unat (mmap_len e) \<and> a div 4096 = f))"

lemma region_of_unat:
  assumes "entry_ok e"
  shows "unat (region_base (region_of e)) = unat (mmap_addr e)"
    and "unat (region_base (region_of e) + region_length (region_of e) - 1) = unat (mmap_addr e) + unat (mmap_len e) - 1"
proof -
  have l: "unat (mmap_addr e) < 2 ^ 32" using assms by (auto simp: entry_ok_def)
  then show a: "unat (region_base (region_of e)) = unat (mmap_addr e)"
    by (simp add: region_of_def unsigned_ucast_eq take_bit_nat_eq_self)
  have m: "unat (region_length (region_of e) - 1) = unat (mmap_len e) - 1"
  proof (cases "unat (mmap_len e) = 2 ^ 32")
    case True
    then have "mmap_len e = 2 ^ 32" by (simp add: word_unat_eq_iff)
    then show ?thesis by (simp add: region_of_def)
  next
    case False
    then have "unat (mmap_len e) < 2 ^ 32" using assms by (auto simp: entry_ok_def)
    then have "unat (region_length (region_of e)) = unat (mmap_len e)"
      by (simp add: region_of_def unsigned_ucast_eq take_bit_nat_eq_self)
    moreover from this have "1 \<le> region_length (region_of e)" using assms by (simp add: entry_ok_def u32_le_iff)
    ultimately show ?thesis by (simp add: unat_u32_sub)
  qed
  have "unat (region_base (region_of e) + (region_length (region_of e) - 1)) = unat (mmap_addr e) + (unat (mmap_len e) - 1)"
    using a m assms by (subst unat_u32_add_small) (auto simp: entry_ok_def)
  then show "unat (region_base (region_of e) + region_length (region_of e) - 1) = unat (mmap_addr e) + unat (mmap_len e) - 1"
    using assms by (simp add: entry_ok_def add_diff_eq)
qed

lemma div_interval: "(\<exists>a. m \<le> a \<and> a \<le> n \<and> a div k = f) \<longleftrightarrow> m div k \<le> f \<and> f \<le> n div k"
  if "m \<le> n" and "0 < k" for m n k f :: nat
proof
  assume "m div k \<le> f \<and> f \<le> n div k"
  then have f: "m div k \<le> f" "f \<le> n div k" by simp_all
  show "\<exists>a. m \<le> a \<and> a \<le> n \<and> a div k = f"
  proof (cases "m div k = f")
    case True
    then show ?thesis using that(1) by blast
  next
    case False
    then have "m div k < f" using f(1) by simp
    then have "m \<le> f * k" using that(2) by (simp add: div_less_iff_less_mult less_imp_le)
    moreover have "f * k \<le> n" using f(2) that(2) by (simp add: less_eq_div_iff_mult_less_eq)
    ultimately show ?thesis using that(2) by (intro exI [of _ "f * k"]) simp
  qed
qed (auto intro: div_le_mono)

lemma region_frames_of:
  assumes "entry_ok e"
  shows "f \<in> set (pmm_region_frames (region_of e)) \<longleftrightarrow>
    (\<exists>a. unat (mmap_addr e) \<le> a \<and> a < unat (mmap_addr e) + unat (mmap_len e) \<and> a div 4096 = f)"
proof -
  have p: "0 < unat (mmap_len e)" using assms by (simp add: entry_ok_def)
  have le: "a \<le> unat (mmap_addr e) + unat (mmap_len e) - 1 \<longleftrightarrow> a < unat (mmap_addr e) + unat (mmap_len e)" for a
    using p by linarith
  have "f \<in> set (pmm_region_frames (region_of e)) \<longleftrightarrow>
      unat (mmap_addr e) div 4096 \<le> f \<and> f \<le> (unat (mmap_addr e) + unat (mmap_len e) - 1) div 4096"
    using region_of_unat [OF assms]
    by (auto simp: pmm_region_frames_def pmm_address_to_index_def pmm_consts unat_u32_div less_Suc_eq_le)
  also have "\<dots> \<longleftrightarrow> (\<exists>a. unat (mmap_addr e) \<le> a \<and> a \<le> unat (mmap_addr e) + unat (mmap_len e) - 1 \<and> a div 4096 = f)"
    using p by (intro div_interval [symmetric]) simp_all
  finally show ?thesis unfolding le .
qed

lemma sorted_wrt_conj: "sorted_wrt P xs \<Longrightarrow> sorted_wrt Q xs \<Longrightarrow> sorted_wrt (\<lambda>x y. P x y \<and> Q x y) xs"
  by (induction xs) auto

text \<open>Regions that do not overlap: the clean-up changes nothing.\<close>

lemma pmm_adjust_apart:
  "\<forall>n \<in> set ns. \<not> region_base n < region_base r + region_length r \<Longrightarrow> pmm_adjust r ns = (r, ns)"
  by (induction ns) simp_all

lemma pmm_cleanup_apart:
  "sorted_wrt (\<lambda>r n. \<not> region_base n < region_base r + region_length r) rs \<Longrightarrow> pmm_cleanup rs = rs"
  by (induction rs) (simp_all add: pmm_adjust_apart)

lemma sorted_wrt_permuted:
  assumes "\<And>x y. R x y \<Longrightarrow> R y x"
  shows "mset xs = mset ys \<Longrightarrow> sorted_wrt R xs \<Longrightarrow> sorted_wrt R ys"
proof (induction ys arbitrary: xs)
  case (Cons y ys)
  have "y \<in> set xs" using mset_eq_setD [OF Cons.prems(1)] by simp
  then obtain a b where xs: "xs = a @ y # b" using split_list by fastforce
  then have m: "mset (a @ b) = mset ys" using Cons.prems(1) by simp
  have "sorted_wrt R (a @ b)" "\<forall>z \<in> set (a @ b). R y z"
    using Cons.prems(2) assms unfolding xs by (auto simp: sorted_wrt_append)
  then show ?case using Cons.IH [OF m] mset_eq_setD [OF m] by simp
qed simp

lemma sorted_regions_apart:
  assumes "\<forall>e \<in> set es. entry_ok e" and "sorted_wrt entries_apart es"
  shows "\<exists>rs. pmm_cleanup (xsort pmm_memory_region_compare (map region_of es)) = rs \<and> mset rs = mset (map region_of es) \<and>
    sorted_wrt (\<lambda>r n. region_base r \<le> region_base n) rs"
proof -
  let ?rs = "xsort pmm_memory_region_compare (map region_of es)"
  define apart where "apart r n \<longleftrightarrow> (\<exists>d e. r = region_of d \<and> n = region_of e \<and> entry_ok d \<and> entry_ok e \<and> entries_apart d e)" for r n
  have "sorted_wrt apart (map region_of es)"
    unfolding sorted_wrt_map by (rule sorted_wrt_mono_rel [OF _ assms(2)]) (use assms(1) in \<open>auto simp: apart_def\<close>)
  moreover have "apart r n \<Longrightarrow> apart n r" for r n by (auto simp: apart_def entries_apart_def)
  ultimately have a: "sorted_wrt apart ?rs" using sorted_wrt_permuted [OF _ mset_xsort [symmetric]] by blast
  have s: "sorted_wrt (\<lambda>r n. pmm_memory_region_compare r n \<le> 0) ?rs" by (rule region_order.xsort_sorted)
  have base: "region_base r \<le> region_base n" if "pmm_memory_region_compare r n \<le> 0" for r n
    using that by (auto simp: pmm_memory_region_compare_def split: if_splits)
  have imp: "\<not> region_base n < region_base r + region_length r"
    if "apart r n" "pmm_memory_region_compare r n \<le> 0" for r n
  proof -
    note ap = that(1)
    obtain d e where de: "r = region_of d" "n = region_of e" "entry_ok d" "entry_ok e" "entries_apart d e"
      using ap unfolding apart_def by blast
    have b: "unat (mmap_addr d) \<le> unat (mmap_addr e)"
      using base [OF that(2)] region_of_unat(1) [OF de(3)] region_of_unat(1) [OF de(4)] by (simp add: de u32_le_iff)
    then have le: "unat (mmap_addr d) + unat (mmap_len d) \<le> unat (mmap_addr e)"
      using de(4,5) by (auto simp: entries_apart_def entry_ok_def)
    have "unat (mmap_addr e) < 2 ^ 32" using de(4) by (auto simp: entry_ok_def)
    then have "unat (mmap_len d) < 2 ^ 32" using le by linarith
    then have "unat (region_length (region_of d)) = unat (mmap_len d)"
      by (simp add: region_of_def unsigned_ucast_eq take_bit_nat_eq_self)
    then have "unat (region_base r + region_length r) = unat (mmap_addr d) + unat (mmap_len d)"
      using le \<open>unat (mmap_addr e) < 2 ^ 32\<close> region_of_unat(1) [OF de(3)] unfolding de(1)
      by (subst unat_u32_add_small) simp_all
    then show ?thesis using le region_of_unat(1) [OF de(4)] by (simp add: u32_less_iff de(2) not_less)
  qed
  have "sorted_wrt (\<lambda>r n. \<not> region_base n < region_base r + region_length r) ?rs"
    by (rule sorted_wrt_mono_rel [OF _ sorted_wrt_conj [OF a s]]) (elim conjE, rule imp)
  then have "pmm_cleanup ?rs = ?rs" by (rule pmm_cleanup_apart)
  moreover have "sorted_wrt (\<lambda>r n. region_base r \<le> region_base n) ?rs"
    by (rule sorted_wrt_mono_rel [OF _ s]) (rule base)
  ultimately show ?thesis by (simp add: mset_xsort)
qed


subsection \<open>The whole initialization\<close>

lemma read_mmap_placement:
  "placement_room h (n + 24 * length mmap) \<Longrightarrow>
   \<exists>h'. pmm_read_mmap mmap h = Ret (map region_of mmap, h') \<and> placement_room h' n"
proof (induction mmap arbitrary: h)
  case (Cons e es)
  have "placement_room h (n + 24 * length es + 12 + unat (12 :: u32))" using Cons.prems by (simp add: placement_room_def)
  from placement_or_panic [OF this] obtain p1 h1 where 1: "kmalloc_or_panic 12 h = Ret (p1, h1)"
    "placement_room h1 (n + 24 * length es + unat (12 :: u32))" by auto
  from placement_or_panic [OF 1(2)] obtain p2 h2 where 2: "kmalloc_or_panic 12 h1 = Ret (p2, h2)"
    "placement_room h2 (n + 24 * length es)" by auto
  from Cons.IH [OF 2(2)] 1(1) 2(1) show ?case by (auto simp: region_of_def)
qed simp

lemma total_size_sum: "pmm_fetch_total_memory_size rs = (\<Sum>r\<leftarrow>rs. region_length r)"
proof -
  have "foldl (\<lambda>acc r. acc + region_length r) a rs = a + (\<Sum>r\<leftarrow>rs. region_length r)" for a
    by (induction rs arbitrary: a) (simp_all add: add.assoc)
  then show ?thesis by (simp add: pmm_fetch_total_memory_size_def)
qed

lemma total_size_regions:
  assumes "mset rs = mset (map region_of es)"
  shows "pmm_fetch_total_memory_size rs = (\<Sum>e\<leftarrow>es. ucast (mmap_len e))"
proof -
  have "(\<Sum>r\<leftarrow>rs. region_length r) = (\<Sum>r \<in># mset (map region_of es). region_length r)"
    unfolding assms [symmetric] by (metis mset_map sum_mset_sum_list)
  also have "\<dots> = (\<Sum>e\<leftarrow>es. ucast (mmap_len e))"
    by (simp add: sum_mset_sum_list [symmetric] region_of_def image_mset.compositionality comp_def)
  finally show ?thesis by (simp add: total_size_sum)
qed

lemma pmm_init_boot:
  assumes room: "placement_room h (24 * length mmap + 0x21080)"
    and ok: "\<forall>e \<in> set mmap. entry_ok e" and apart: "sorted_wrt entries_apart mmap"
  shows "\<exists>p h'. pmm_init mmap h = Ret (Some p, h') \<and> pmm_inv p \<and>
    pmm_total_memory_size p = (\<Sum>e\<leftarrow>mmap. ucast (mmap_len e)) \<and>
    sorted_wrt (\<lambda>r n. region_base r \<le> region_base n) (pmm_memory_regions p) \<and>
    mset (pmm_memory_regions p) = mset (map region_of mmap) \<and>
    (\<forall>f < 0xFFFFF. f \<in> used_frames p \<longleftrightarrow> \<not> reported_available mmap f)"
proof -
  obtain rs where rs: "pmm_cleanup (xsort pmm_memory_region_compare (map region_of mmap)) = rs"
    "mset rs = mset (map region_of mmap)" "sorted_wrt (\<lambda>r n. region_base r \<le> region_base n) rs"
    using sorted_regions_apart [OF ok apart] by blast
  have st: "set rs = region_of ` set mmap" using mset_eq_setD [OF rs(2)] by simp
  have "placement_room h (0x21078 + 24 * length mmap + unat (8 :: u32))" using room by (simp add: placement_room_def)
  from placement_or_panic [OF this] obtain q1 h1 where 1: "kmalloc_or_panic 8 h = Ret (q1, h1)"
    "placement_room h1 (0x21078 + 24 * length mmap)" by auto
  from read_mmap_placement [OF 1(2)] obtain h2 where 2: "pmm_read_mmap mmap h1 = Ret (map region_of mmap, h2)"
    "placement_room h2 0x21078" by auto
  have f: "pmm_fetch_memory_regions mmap h = Ret (rs, h2)"
    using 1(1) 2(1) rs(1) by (simp add: pmm_fetch_memory_regions_def)
  have "placement_room h2 (0x78 + unat (0x20000 :: u32) + 4096)" using 2(2) by (auto simp: placement_room_def)
  from placement_kmalloc_a [OF this] obtain q3 h3 where 3: "kmalloc_a 0x20000 h2 = Ret (q3, h3)" "q3 \<noteq> 0"
    "placement_room h3 0x78" by auto
  have "placement_room h3 (0 + unat (96 :: u32))" using 3(3) by (auto simp: placement_room_def)
  from placement_or_panic [OF this] obtain q4 h4 where 4: "kmalloc_or_panic 96 h3 = Ret (q4, h4)" by auto
  obtain r where i: "pmm_init mmap h = Ret (r, h4)"
    using f 3(1,2) 4 by (simp add: pmm_init_def Let_def pmm_consts)
  have "pmm_address_to_index (region_base (region_of e) + region_length (region_of e) - 1) < 0xFFFFF"
    if "e \<in> set mmap" "mmap_type e = MULTIBOOT_MEMORY_AVAILABLE" for e
  proof -
    have "entry_ok e" using ok that(1) by blast
    from region_of_unat(2) [OF this] this that(2) show ?thesis
      by (simp add: u32_less_iff pmm_address_to_index_def pmm_consts unat_u32_div entry_ok_def div_less_iff_less_mult) linarith
  qed
  then have "\<forall>r \<in> set rs. region_type r = MULTIBOOT_MEMORY_AVAILABLE \<longrightarrow>
      pmm_address_to_index (region_base r + region_length r - 1) < 0xFFFFF"
    unfolding st by (auto simp: region_of_def)
  from pmm_init_correct [OF i f this] obtain p where p: "r = Some p" "pmm_inv p" "pmm_memory_regions p = rs"
    "pmm_total_memory_size p = pmm_fetch_total_memory_size rs" "used_frames p = {..<0xFFFFF} -
      (\<Union>r \<in> {r \<in> set rs. region_type r = MULTIBOOT_MEMORY_AVAILABLE}. set (pmm_region_frames r))" by blast
  have "(\<exists>r \<in> set rs. region_type r = MULTIBOOT_MEMORY_AVAILABLE \<and> g \<in> set (pmm_region_frames r)) \<longleftrightarrow>
      reported_available mmap g" for g
    using ok region_frames_of unfolding st reported_available_def by (auto simp: region_of_def)
  then have u: "\<forall>f < 0xFFFFF. f \<in> used_frames p \<longleftrightarrow> \<not> reported_available mmap f" unfolding p(5) by blast
  show ?thesis using i p u rs by (simp add: total_size_regions)
qed

text \<open>A manager of 64 frames, for concrete evaluations; frames 0 and 1 are in use.\<close>

definition small_pmm :: pmm where
  "small_pmm = \<lparr>pmm_memory_regions = [], pmm_total_memory_size = 0x40000, pmm_num_memory_frames = 64,
     pmm_num_memory_frames_used = 2, pmm_bitmap_size = 8, pmm_bitmap = [3, 0, 0, 0, 0, 0, 0, 0]\<rparr>"

lemma small_pmm_inv: "pmm_inv small_pmm" "used_frames small_pmm = {0, 1}"
proof -
  have m: "(3 :: u8) = mask 2" by (simp add: mask_eq_exp_minus_1)
  have b: "bit (3 :: u8) k \<longleftrightarrow> k < 2" for k unfolding m bit_mask_iff by (auto simp: possible_bit_def)
  have f: "frame_used (pmm_bitmap small_pmm) f \<longleftrightarrow> f < 2" if "f < 64" for f
  proof -
    have d: "f div 8 < 8" using that by (simp add: div_less_iff_less_mult)
    have "[3, 0, 0, 0, 0, 0, 0, 0] ! k = (if k = 0 then 3 else 0 :: u8)" if "k < 8" for k
      using that by (auto simp: nth_Cons less_Suc_eq split: nat.splits)
    then have "frame_used (pmm_bitmap small_pmm) f \<longleftrightarrow> f div 8 = 0 \<and> f mod 8 < 2"
      using d b by (simp add: frame_used_def small_pmm_def)
    then show ?thesis by auto
  qed
  then show u: "used_frames small_pmm = {0, 1}" by (auto simp: used_frames_def small_pmm_def)
  show "pmm_inv small_pmm" unfolding pmm_inv_def u by (simp add: small_pmm_def)
qed

subsection \<open>The properties\<close>

text \<open>
  C9. Frame allocation and release implement a set of frames in use: \<open>pmm_alloc_frame\<close> returns the
  address of the lowest frame that is not in use and adds exactly that frame, or reports failure
  and changes nothing when all frames it scans are in use; releasing the frame restores the set;
  the counter always agrees with the bitmap, so the reported free memory is the number of free
  frames.
\<close>

theorem pmm_alloc_lowest_free:
  assumes inv: "pmm_inv p"
  shows "((pmm_alloc_frame p = Some (0, p) \<and> {..<scanned p} \<subseteq> used_frames p) \<or>
    (\<exists>f p'. pmm_alloc_frame p = Some (of_nat (f * 4096), p') \<and> pmm_inv p' \<and>
       f < scanned p \<and> f \<notin> used_frames p \<and> {..<f} \<subseteq> used_frames p \<and>
       used_frames p' = insert f (used_frames p) \<and>
       (\<exists>p''. pmm_free_frame (of_nat (f * 4096)) p' = Some p'' \<and> pmm_inv p'' \<and>
          used_frames p'' = used_frames p))) \<and>
    pmm_get_available_memory_size p =
      of_nat (4096 * (unat (pmm_num_memory_frames p) - card (used_frames p)))"
proof -
  have "\<exists>p''. pmm_free_frame (of_nat (f * 4096)) p' = Some p'' \<and> pmm_inv p'' \<and>
      used_frames p'' = used_frames p"
    if "pmm_inv p'" "pmm_same p p'" "f < scanned p" "f \<notin> used_frames p"
      "used_frames p' = insert f (used_frames p)" for f p'
  proof -
    have "f < unat (pmm_num_memory_frames p')" using that(2,3) scanned_le [of p] by (simp add: pmm_same_def)
    from free_frame_correct [OF that(1) this] that(4,5) show ?thesis by auto
  qed
  then show ?thesis using alloc_frame_correct [OF inv] available_memory_correct [OF inv] by blast
qed

theorem pmm_alloc_lowest_free_witness:
  "\<exists>p'. pmm_alloc_frame small_pmm = Some (0x2000, p') \<and> used_frames p' = {0, 1, 2}"
proof -
  have s: "scanned small_pmm = 64" by (simp add: scanned_def small_pmm_def)
  have "63 \<notin> used_frames small_pmm" "63 \<in> {..<64 :: nat}" unfolding small_pmm_inv by auto
  then have nf: "\<not> {..<scanned small_pmm} \<subseteq> used_frames small_pmm" unfolding s by blast
  obtain f p' where f0: "pmm_alloc_frame small_pmm = Some (of_nat (f * 4096), p')"
    "f \<notin> used_frames small_pmm" "{..<f} \<subseteq> used_frames small_pmm"
    "used_frames p' = insert f (used_frames small_pmm)"
    using conjunct1 [OF pmm_alloc_lowest_free [OF small_pmm_inv(1)]] nf by blast
  note f = f0 [unfolded small_pmm_inv]
  have "f = 2"
  proof (rule ccontr)
    assume "f \<noteq> 2"
    then have "2 \<in> {..<f}" using f(2) by auto
    then show False using f(3) by auto
  qed
  then show ?thesis using f by auto
qed

text \<open>
  C10. Initialization from the map of the boot loader, when the placement allocator has room for the
  bitmap and the list of regions: if the reported ranges are not empty, lie below 4 GiB and do not overlap,
  and no available range reaches into the last page, \<open>pmm_init\<close> returns. Then a frame is free exactly when
  some address in it is reported as available memory (also a frame of which another part is reported
  as reserved), the counter of frames in use is exact, the list of regions holds the reported ranges
  sorted by address, and the total memory size is the sum of their lengths.
\<close>

theorem pmm_init_marks_regions:
  assumes "placement_room h (24 * length mmap + 0x21080)"
    and "\<forall>e \<in> set mmap. 0 < unat (mmap_len e) \<and> unat (mmap_addr e) + unat (mmap_len e) \<le> 2 ^ 32 \<and>
      (mmap_type e = 1 \<longrightarrow> unat (mmap_addr e) + unat (mmap_len e) \<le> 0xFFFFF000)"
    and "sorted_wrt (\<lambda>d e. unat (mmap_addr d) + unat (mmap_len d) \<le> unat (mmap_addr e) \<or>
      unat (mmap_addr e) + unat (mmap_len e) \<le> unat (mmap_addr d)) mmap"
  shows "\<exists>p h'. pmm_init mmap h = Ret (Some p, h') \<and> pmm_inv p \<and>
    pmm_total_memory_size p = (\<Sum>e\<leftarrow>mmap. ucast (mmap_len e)) \<and>
    sorted_wrt (\<lambda>r n. region_base r \<le> region_base n) (pmm_memory_regions p) \<and>
    mset (pmm_memory_regions p) = mset (map (\<lambda>e. \<lparr>region_base = ucast (mmap_addr e),
      region_length = ucast (mmap_len e), region_type = mmap_type e\<rparr>) mmap) \<and>
    (\<forall>f < 0xFFFFF. f \<notin> used_frames p \<longleftrightarrow>
      (\<exists>e \<in> set mmap. mmap_type e = 1 \<and>
        (\<exists>a. unat (mmap_addr e) \<le> a \<and> a < unat (mmap_addr e) + unat (mmap_len e) \<and> a div 4096 = f)))"
proof -
  have r: "region_of = (\<lambda>e. \<lparr>region_base = ucast (mmap_addr e), region_length = ucast (mmap_len e), region_type = mmap_type e\<rparr>)"
    by (simp add: fun_eq_iff region_of_def)
  have "\<forall>e \<in> set mmap. entry_ok e" using assms(2) by (simp add: entry_ok_def MULTIBOOT_MEMORY_AVAILABLE_def)
  moreover have "sorted_wrt entries_apart mmap" using assms(3) by (simp add: entries_apart_def [abs_def])
  ultimately obtain p h' where "pmm_init mmap h = Ret (Some p, h')" "pmm_inv p"
    "pmm_total_memory_size p = (\<Sum>e\<leftarrow>mmap. ucast (mmap_len e))"
    "sorted_wrt (\<lambda>r n. region_base r \<le> region_base n) (pmm_memory_regions p)"
    "mset (pmm_memory_regions p) = mset (map region_of mmap)"
    "\<forall>f < 0xFFFFF. f \<in> used_frames p \<longleftrightarrow> \<not> reported_available mmap f"
    using pmm_init_boot [OF assms(1)] by blast
  then show ?thesis unfolding r reported_available_def MULTIBOOT_MEMORY_AVAILABLE_def by blast
qed

text \<open>The map of a machine with 16 MiB of memory: the end of the low memory is not on a page boundary.\<close>

definition boot_map :: "multiboot_memory_map list" where
  "boot_map =
     [\<lparr>mmap_addr = 0x100000, mmap_len = 0xF00000, mmap_type = 1\<rparr>,
      \<lparr>mmap_addr = 0, mmap_len = 0x9FC00, mmap_type = 1\<rparr>,
      \<lparr>mmap_addr = 0x9FC00, mmap_len = 0x400, mmap_type = 2\<rparr>,
      \<lparr>mmap_addr = 0xFFFC0000, mmap_len = 0x40000, mmap_type = 2\<rparr>]"

theorem pmm_init_marks_regions_witness:
  "\<exists>p h'. pmm_init boot_map blank_heap = Ret (Some p, h') \<and> pmm_inv p \<and> pmm_total_memory_size p = 0xFE0000 \<and>
     {0, 0x9E, 0x9F, 0x100, 0xFFF} \<inter> used_frames p = {} \<and> {0xA0, 0xFF, 0x1000} \<subseteq> used_frames p"
proof -
  have room: "placement_room blank_heap (24 * length boot_map + 0x21080)"
    by (simp add: placement_room_def blank_heap_def boot_map_def)
  have "\<exists>p h'. pmm_init boot_map blank_heap = Ret (Some p, h') \<and> pmm_inv p \<and>
    pmm_total_memory_size p = (\<Sum>e\<leftarrow>boot_map. ucast (mmap_len e)) \<and>
    sorted_wrt (\<lambda>r n. region_base r \<le> region_base n) (pmm_memory_regions p) \<and>
    mset (pmm_memory_regions p) = mset (map (\<lambda>e. \<lparr>region_base = ucast (mmap_addr e),
      region_length = ucast (mmap_len e), region_type = mmap_type e\<rparr>) boot_map) \<and>
    (\<forall>f < 0xFFFFF. f \<notin> used_frames p \<longleftrightarrow>
      (\<exists>e \<in> set boot_map. mmap_type e = 1 \<and>
        (\<exists>a. unat (mmap_addr e) \<le> a \<and> a < unat (mmap_addr e) + unat (mmap_len e) \<and> a div 4096 = f)))"
    by (rule pmm_init_marks_regions [OF room]) (simp_all add: boot_map_def)
  then obtain p h' where p: "pmm_init boot_map blank_heap = Ret (Some p, h')" "pmm_inv p"
    "pmm_total_memory_size p = (\<Sum>e\<leftarrow>boot_map. ucast (mmap_len e))"
    and f: "\<forall>f < 0xFFFFF. f \<notin> used_frames p \<longleftrightarrow>
      (\<exists>e \<in> set boot_map. mmap_type e = 1 \<and>
        (\<exists>a. unat (mmap_addr e) \<le> a \<and> a < unat (mmap_addr e) + unat (mmap_len e) \<and> a div 4096 = f))" by auto
  have i: "(\<exists>a. l \<le> a \<and> a < m \<and> a div 4096 = f) \<longleftrightarrow> l div 4096 \<le> f \<and> f \<le> (m - 1) div 4096" if "l < m" for l m f :: nat
  proof -
    have "(\<exists>a. l \<le> a \<and> a < m \<and> a div 4096 = f) \<longleftrightarrow> (\<exists>a. l \<le> a \<and> a \<le> m - 1 \<and> a div 4096 = f)"
      using that by (metis Suc_pred' less_Suc_eq_le not_less_zero zero_less_iff_neq_zero)
    then show ?thesis using that div_interval [of l "m - 1" 4096 f] by simp
  qed
  have g: "f \<notin> used_frames p \<longleftrightarrow> f \<le> 0x9F \<or> 0x100 \<le> f \<and> f \<le> 0xFFF" if "f < 0xFFFFF" for f
    using that f i [of 0 "0x9FC00" f] by (auto simp: boot_map_def i)
  have t: "pmm_total_memory_size p = 0xFE0000" unfolding p(3) by (simp add: boot_map_def)
  show ?thesis using p(1,2) t g [of 0] g [of "0x9E"] g [of "0x9F"] g [of "0x100"] g [of "0xFFF"] g [of "0xA0"] g [of "0xFF"] g [of "0x1000"] by auto
qed

text \<open>
  \<open>pmm_alloc_frames\<close> can hand out a frame that is already in use: the contiguous search
  tests \<open>pmm_bitmap[bit_index]\<close> where it should test \<open>pmm_bitmap[index]\<close>. Here frames 0 and 1
  are in use and a request for two frames returns frames 1 and 2.
\<close>

theorem pmm_alloc_frames_reuses_frame:
  "pmm_inv small_pmm \<and> 1 \<in> used_frames small_pmm \<and>
   (\<exists>p'. pmm_alloc_frames 2 small_pmm = Some (0x1000, p'))"
proof -
  have "pmm_find_free_contiguous_frames small_pmm 2 = 1"
    by (simp add: pmm_find_free_contiguous_frames_def small_pmm_def pmm_consts upt_rec u8_test_bit)
  then have "\<exists>p'. pmm_alloc_frames 2 small_pmm = Some (0x1000, p')"
    using set_frames_correct [OF small_pmm_inv(1), of "[0..<2]" 1]
    by (auto simp: pmm_alloc_frames_def small_pmm_def pmm_index_to_address_def pmm_consts)
  then show ?thesis using small_pmm_inv by simp
qed

end
