(* ===== verification/Paging.thy ===== *)
theory Paging
  imports Pmm
begin

text \<open>
  Page tables: \<open>kernel/src/arch/i386/paging.c\<close> and the structures of \<open>paging.h\<close>.

  Page directories and page tables are objects at heap addresses; \<open>page_dirs\<close> and \<open>page_tables\<close> give
  their contents. A page directory has, besides the entries that the MMU walks, the virtual
  addresses of its page tables, which is what the kernel itself uses for translation. TLB
  invalidation has no effect on this state.
\<close>

subsection \<open>Structures\<close>

record page_table_entry =
  pte_present :: bool
  pte_read_write :: bool
  pte_user_supervisor :: bool
  pte_write_through :: bool
  pte_available :: "3 word"
  pte_page_base :: "20 word"

record page_directory_entry =
  pde_present :: bool
  pde_read_write :: bool
  pde_user_supervisor :: bool
  pde_page_size :: bool
  pde_page_table_base :: "20 word"

type_synonym page_table = "nat \<Rightarrow> page_table_entry"

record page_directory =
  dir_entries :: "nat \<Rightarrow> page_directory_entry"
  dir_tables :: "nat \<Rightarrow> u32"

definition zero_pte :: page_table_entry where
  "zero_pte = \<lparr>pte_present = False, pte_read_write = False, pte_user_supervisor = False,
     pte_write_through = False, pte_available = 0, pte_page_base = 0\<rparr>"

definition zero_pde :: page_directory_entry where
  "zero_pde = \<lparr>pde_present = False, pde_read_write = False, pde_user_supervisor = False,
     pde_page_size = False, pde_page_table_base = 0\<rparr>"

text \<open>The memory system: kernel heap, frame manager, paging structures, physical memory.\<close>

record memory =
  mem_heap :: kheap
  mem_pmm :: pmm
  page_dirs :: "u32 \<Rightarrow> page_directory"
  page_tables :: "u32 \<Rightarrow> page_table"
  paging_enabled :: bool
  kernel_page_directory :: u32
  current_page_directory :: u32
  cr3 :: u32
  phys_pages :: "nat \<Rightarrow> bytes"

definition PAGE_FLAG_USED :: "3 word" where "PAGE_FLAG_USED = 1"
definition PAGE_FLAG_PRESENT :: "3 word" where "PAGE_FLAG_PRESENT = 0"
definition VMM_KERNEL_SPACE_BASE :: u32 where "VMM_KERNEL_SPACE_BASE = 0xC0000000"

definition PAGE_DIRECTORY_INDEX :: "u32 \<Rightarrow> nat" where
  "PAGE_DIRECTORY_INDEX virtual_address = unat (drop_bit 22 virtual_address)"

definition PAGE_TABLE_INDEX :: "u32 \<Rightarrow> nat" where
  "PAGE_TABLE_INDEX virtual_address = unat (drop_bit 12 virtual_address AND 0x3FF)"

definition PAGE_OFFSET :: "u32 \<Rightarrow> u32" where
  "PAGE_OFFSET virtual_address = virtual_address AND 0xFFF"

definition sizeof_page_table :: u32 where "sizeof_page_table = 4096"
definition sizeof_page_directory :: u32 where "sizeof_page_directory = 8192"

definition set_pte :: "u32 \<Rightarrow> nat \<Rightarrow> (page_table_entry \<Rightarrow> page_table_entry) \<Rightarrow> memory \<Rightarrow> memory" where
  "set_pte table i f s = s\<lparr>page_tables := (page_tables s)(table :=
     (page_tables s table)(i := f (page_tables s table i)))\<rparr>"

definition set_dir :: "u32 \<Rightarrow> (page_directory \<Rightarrow> page_directory) \<Rightarrow> memory \<Rightarrow> memory" where
  "set_dir d f s = s\<lparr>page_dirs := (page_dirs s)(d := f (page_dirs s d))\<rparr>"

subsection \<open>Translation\<close>

definition paging_virtual_to_physical_address :: "u32 \<Rightarrow> u32 \<Rightarrow> memory \<Rightarrow> u32" where
  "paging_virtual_to_physical_address page_directory virtual_address s =
     (if \<not> paging_enabled s then virtual_address - VMM_KERNEL_SPACE_BASE
      else let table = dir_tables (page_dirs s page_directory) (PAGE_DIRECTORY_INDEX virtual_address);
               entry = page_tables s table (PAGE_TABLE_INDEX virtual_address)
           in if table = 0 then 0
              else if \<not> pte_present entry then 0
              else push_bit 12 (ucast (pte_page_base entry)) + PAGE_OFFSET virtual_address)"

definition paging_is_page_used :: "u32 \<Rightarrow> u32 \<Rightarrow> memory \<Rightarrow> bool" where
  "paging_is_page_used page_directory virtual_address s =
     (let table = dir_tables (page_dirs s page_directory) (PAGE_DIRECTORY_INDEX virtual_address)
      in if table = 0 then False
         else pte_available (page_tables s table (PAGE_TABLE_INDEX virtual_address)) AND
              PAGE_FLAG_USED \<noteq> 0)"

definition paging_enable :: "memory \<Rightarrow> memory" where
  "paging_enable s = s\<lparr>paging_enabled := True\<rparr>"

definition paging_switch_page_directory :: "u32 \<Rightarrow> u32 \<Rightarrow> memory \<Rightarrow> memory" where
  "paging_switch_page_directory current new s =
     s\<lparr>cr3 := paging_virtual_to_physical_address current new s\<rparr>"

subsection \<open>Mapping\<close>

text \<open>The page table of an address, created when there is none.\<close>

definition paging_get_table :: "u32 \<Rightarrow> u32 \<Rightarrow> memory \<Rightarrow> (u32 \<times> memory) kres" where
  "paging_get_table page_directory virtual_address s =
     (let i = PAGE_DIRECTORY_INDEX virtual_address;
          table = dir_tables (page_dirs s page_directory) i
      in if table = 0
         then kbind (kmalloc_a sizeof_page_table (mem_heap s)) (\<lambda>(table, h).
                if table = 0 then Panic KPANIC_KHEAP_OUT_OF_MEMORY_CODE
                else let s1 = s\<lparr>mem_heap := heap_memset0 table sizeof_page_table h,
                                page_tables := (page_tables s)(table := (\<lambda>_. zero_pte))\<rparr>;
                         table_physical_address =
                           paging_virtual_to_physical_address page_directory table s1
                     in Ret (table, set_dir page_directory (\<lambda>d. d\<lparr>
                          dir_entries := (dir_entries d)(i := (dir_entries d i)\<lparr>
                            pde_present := True, pde_read_write := True,
                            pde_user_supervisor := True, pde_page_size := False,
                            pde_page_table_base := ucast (drop_bit 12 table_physical_address)\<rparr>),
                          dir_tables := (dir_tables d)(i := table)\<rparr>) s1))
         else Ret (table, s))"

definition paging_map_page :: "u32 \<Rightarrow> u32 \<Rightarrow> u32 \<Rightarrow> bool \<Rightarrow> bool \<Rightarrow> memory \<Rightarrow> memory kres" where
  "paging_map_page page_directory virtual_address frame_address is_kernel is_writeable s =
     kbind (paging_get_table page_directory virtual_address s) (\<lambda>(table, s1).
       Ret (set_pte table (PAGE_TABLE_INDEX virtual_address) (\<lambda>e. e\<lparr>
              pte_present := True, pte_read_write := is_writeable,
              pte_user_supervisor := \<not> is_kernel,
              pte_available := PAGE_FLAG_USED OR PAGE_FLAG_PRESENT,
              pte_page_base := ucast (pmm_address_to_index frame_address)\<rparr>) s1))"

text \<open>The result is \<open>None\<close> where the source returns without a value.\<close>

definition paging_unmap_page :: "u32 \<Rightarrow> u32 \<Rightarrow> memory \<Rightarrow> u32 option \<times> memory" where
  "paging_unmap_page page_directory virtual_address s =
     (let table = dir_tables (page_dirs s page_directory) (PAGE_DIRECTORY_INDEX virtual_address);
          i = PAGE_TABLE_INDEX virtual_address;
          entry = page_tables s table i
      in if table = 0 then (None, s)
         else if pte_available entry AND PAGE_FLAG_USED = 0 then (None, s)
         else (Some (pmm_index_to_address (ucast (pte_page_base entry))),
               set_pte table i (\<lambda>e. e\<lparr>pte_present := False,
                 pte_available := pte_available e AND NOT PAGE_FLAG_USED,
                 pte_page_base := 0\<rparr>) s))"

subsection \<open>Pages\<close>

definition page_of :: "u32 \<Rightarrow> nat" where
  "page_of v = unat v div 4096"

lemma dir_index: "PAGE_DIRECTORY_INDEX v = page_of v div 1024"
  by (simp add: PAGE_DIRECTORY_INDEX_def page_of_def drop_bit_eq_div unat_u32_div
      flip: div_mult2_eq)

lemma table_index: "PAGE_TABLE_INDEX v = page_of v mod 1024"
proof -
  have m: "(0x3FF :: u32) = mask 10" by (simp add: mask_eq_exp_minus_1)
  show ?thesis unfolding PAGE_TABLE_INDEX_def m unat_and_mask_u32
    by (simp add: page_of_def drop_bit_eq_div unat_u32_div)
qed

lemma index_eq_iff:
  "PAGE_DIRECTORY_INDEX v = PAGE_DIRECTORY_INDEX w \<and> PAGE_TABLE_INDEX v = PAGE_TABLE_INDEX w \<longleftrightarrow>
   page_of v = page_of w"
  unfolding dir_index table_index by (metis div_mult_mod_eq)

lemma dir_index_less: "PAGE_DIRECTORY_INDEX v < 1024"
  using unat_u32_less [of v] by (simp add: dir_index page_of_def div_less_iff_less_mult flip: div_mult2_eq)

subsection \<open>The mapping of a directory\<close>

text \<open>The entry that the kernel's walk finds for an address.\<close>

definition pte_at :: "u32 \<Rightarrow> u32 \<Rightarrow> memory \<Rightarrow> page_table_entry option" where
  "pte_at d v s = (let table = dir_tables (page_dirs s d) (PAGE_DIRECTORY_INDEX v)
     in if table = 0 then None else Some (page_tables s table (PAGE_TABLE_INDEX v)))"

definition pte_used :: "page_table_entry \<Rightarrow> bool" where
  "pte_used e \<longleftrightarrow> pte_available e AND PAGE_FLAG_USED \<noteq> 0"

definition pte_target :: "page_table_entry \<Rightarrow> u32 \<Rightarrow> u32" where
  "pte_target e v = (if pte_present e then push_bit 12 (ucast (pte_page_base e)) + PAGE_OFFSET v else 0)"

lemma zero_pte_simps [simp]: "\<not> pte_used zero_pte" "pte_target zero_pte v = 0"
  by (simp_all add: pte_used_def pte_target_def zero_pte_def)

lemma is_page_used_eq:
  "paging_is_page_used d v s = (case pte_at d v s of None \<Rightarrow> False | Some e \<Rightarrow> pte_used e)"
  by (simp add: paging_is_page_used_def pte_at_def pte_used_def Let_def)

lemma translate_eq:
  "paging_enabled s \<Longrightarrow> paging_virtual_to_physical_address d v s =
     (case pte_at d v s of None \<Rightarrow> 0 | Some e \<Rightarrow> pte_target e v)"
  by (simp add: paging_virtual_to_physical_address_def pte_at_def pte_target_def Let_def)

text \<open>
  The page tables of a directory are distinct blocks in use of the kernel heap.
\<close>

definition dir_inv :: "u32 \<Rightarrow> memory \<Rightarrow> bool" where
  "dir_inv d s \<longleftrightarrow> kheap_inv (mem_heap s) \<and>
     (\<forall>i < 1024. dir_tables (page_dirs s d) i \<noteq> 0 \<longrightarrow>
        (\<exists>k. (unat (dir_tables (page_dirs s d) i), k) \<in> kheap_live (mem_heap s))) \<and>
     (\<forall>i < 1024. \<forall>j < 1024. dir_tables (page_dirs s d) i = dir_tables (page_dirs s d) j \<longrightarrow>
        dir_tables (page_dirs s d) i \<noteq> 0 \<longrightarrow> i = j)"

text \<open>What the memory operations leave alone.\<close>

definition same_env :: "memory \<Rightarrow> memory \<Rightarrow> bool" where
  "same_env s s' \<longleftrightarrow> mem_pmm s' = mem_pmm s \<and> paging_enabled s' = paging_enabled s \<and>
     kernel_page_directory s' = kernel_page_directory s \<and>
     current_page_directory s' = current_page_directory s \<and> phys_pages s' = phys_pages s"

lemma get_table_correct:
  assumes inv: "dir_inv d s" and r: "paging_get_table d va s = Ret (table, s')"
  shows "dir_inv d s' \<and> same_env s s' \<and> table \<noteq> 0 \<and>
    dir_tables (page_dirs s' d) (PAGE_DIRECTORY_INDEX va) = table \<and>
    (\<forall>v. pte_at d v s' = (if pte_at d v s = None \<and> PAGE_DIRECTORY_INDEX v = PAGE_DIRECTORY_INDEX va
                          then Some zero_pte else pte_at d v s))"
proof -
  let ?i = "PAGE_DIRECTORY_INDEX va" let ?T = "dir_tables (page_dirs s d)"
  show ?thesis
  proof (cases "?T ?i = 0")
    case False
    then show ?thesis using r inv
      by (auto simp: paging_get_table_def Let_def same_env_def pte_at_def)
  next
    case True
    with r obtain h where m: "kmalloc_a sizeof_page_table (mem_heap s) = Ret (table, h)"
      and t0: "table \<noteq> 0"
      and s': "mem_heap s' = heap_memset0 table sizeof_page_table h"
        "page_tables s' = (page_tables s)(table := (\<lambda>_. zero_pte))"
        "dir_tables (page_dirs s' d) = (?T)(?i := table)" "same_env s s'"
      by (auto simp: paging_get_table_def Let_def kbind_Ret_iff set_dir_def same_env_def split: if_splits)
    have hinv: "kheap_inv (mem_heap s)" using inv by (simp add: dir_inv_def)
    from kheap_a.alloc_live [OF hinv m t0] obtain k where k: "unat sizeof_page_table \<le> k" "kheap_inv h"
      "kheap_live h = insert (unat table, k) (kheap_live (mem_heap s))"
      "(unat table, k) \<notin> kheap_live (mem_heap s)" by blast
    have pk: "(unat table, k) \<in> kheap_live h" using k by simp
    have ms: "kheap_inv (mem_heap s')" "kheap_live (mem_heap s') = kheap_live h"
      using heap_memset0_live [OF k(2) pk k(1)] s'(1) by simp_all
    have fresh: "?T i \<noteq> table" if i: "i < 1024" for i
    proof
      assume "?T i = table"
      then obtain l where "(unat table, l) \<in> kheap_live (mem_heap s)"
        using inv i t0 by (auto simp: dir_inv_def)
      then show False using k live_ptr_unique [OF k(2) pk, of l] by simp
    qed
    have "dir_inv d s'" using inv ms k fresh unfolding dir_inv_def s'(3)
      by (auto simp: fun_upd_def split: if_splits)
    moreover have "pte_at d v s' = (if pte_at d v s = None \<and> PAGE_DIRECTORY_INDEX v = ?i
                          then Some zero_pte else pte_at d v s)" for v
      using True t0 s' fresh [OF dir_index_less [of v]] by (auto simp: pte_at_def Let_def)
    ultimately show ?thesis using s' t0 by simp
  qed
qed

lemma set_pte_at:
  assumes inv: "dir_inv d s" and t: "dir_tables (page_dirs s d) (PAGE_DIRECTORY_INDEX va) = table" "table \<noteq> 0"
  shows "dir_inv d (set_pte table (PAGE_TABLE_INDEX va) f s)"
    and "pte_at d v (set_pte table (PAGE_TABLE_INDEX va) f s) =
      (if page_of v = page_of va then map_option f (pte_at d v s) else pte_at d v s)"
proof -
  show "dir_inv d (set_pte table (PAGE_TABLE_INDEX va) f s)"
    using inv by (simp add: dir_inv_def set_pte_def)
  have inj: "dir_tables (page_dirs s d) (PAGE_DIRECTORY_INDEX v) = table \<longleftrightarrow>
      PAGE_DIRECTORY_INDEX v = PAGE_DIRECTORY_INDEX va"
    using inv t dir_index_less [of v] dir_index_less [of va] unfolding dir_inv_def by metis
  show "pte_at d v (set_pte table (PAGE_TABLE_INDEX va) f s) =
      (if page_of v = page_of va then map_option f (pte_at d v s) else pte_at d v s)"
    using inj t index_eq_iff [of v va] by (auto simp: pte_at_def set_pte_def Let_def)
qed

lemma frame_base:
  "push_bit 12 (ucast (ucast (pmm_address_to_index fa) :: 20 word) :: u32) = of_nat (page_of fa * 4096)"
proof -
  have lt: "page_of fa < 2 ^ 20" using unat_u32_less [of fa] by (simp add: page_of_def div_less_iff_less_mult)
  have "pmm_address_to_index fa = of_nat (page_of fa)"
    using lt by (simp add: pmm_address_to_index_def pmm_consts page_of_def u32_eq_iff unat_u32_div)
  moreover have "ucast (ucast (of_nat (page_of fa) :: u32) :: 20 word) = (of_nat (page_of fa) :: u32)"
    using lt by (simp add: u32_eq_iff unsigned_ucast_eq unat_of_nat take_bit_eq_mod unat_u32_mod)
  ultimately show ?thesis by (simp add: push_bit_eq_mult mult.commute)
qed


lemma map_page_correct:
  assumes inv: "dir_inv d s" and r: "paging_map_page d va fa k w s = Ret s'"
  shows "dir_inv d s' \<and> same_env s s' \<and>
    (\<forall>v. paging_is_page_used d v s' \<longleftrightarrow> page_of v = page_of va \<or> paging_is_page_used d v s) \<and>
    (paging_enabled s \<longrightarrow> (\<forall>v. paging_virtual_to_physical_address d v s' =
       (if page_of v = page_of va then of_nat (page_of fa * 4096) + PAGE_OFFSET v
        else paging_virtual_to_physical_address d v s)))"
proof -
  let ?f = "\<lambda>e. e\<lparr>pte_present := True, pte_read_write := w, pte_user_supervisor := \<not> k,
     pte_available := PAGE_FLAG_USED OR PAGE_FLAG_PRESENT,
     pte_page_base := ucast (pmm_address_to_index fa)\<rparr>"
  from r obtain table s1 where g: "paging_get_table d va s = Ret (table, s1)"
    and s': "s' = set_pte table (PAGE_TABLE_INDEX va) ?f s1"
    by (auto simp: paging_map_page_def kbind_Ret_iff)
  from get_table_correct [OF inv g] have i1: "dir_inv d s1" and e1: "same_env s s1" and t: "table \<noteq> 0"
    "dir_tables (page_dirs s1 d) (PAGE_DIRECTORY_INDEX va) = table"
    and p1: "\<And>v. pte_at d v s1 = (if pte_at d v s = None \<and> PAGE_DIRECTORY_INDEX v = PAGE_DIRECTORY_INDEX va
                          then Some zero_pte else pte_at d v s)" by blast+
  note sp = set_pte_at [OF i1 t(2,1), where f = ?f]
  have new: "\<exists>e. pte_at d v s1 = Some e" if "page_of v = page_of va" for v
    using p1 [of v] that index_eq_iff [of v va] by (cases "pte_at d v s") auto
  have pa: "pte_at d v s' = (if page_of v = page_of va then map_option ?f (pte_at d v s1) else pte_at d v s1)" for v
    unfolding s' by (rule sp(2))
  have used: "paging_is_page_used d v s' \<longleftrightarrow> page_of v = page_of va \<or> paging_is_page_used d v s" for v
    unfolding is_page_used_eq pa using new [of v] p1 [of v]
    by (auto simp: pte_used_def PAGE_FLAG_USED_def PAGE_FLAG_PRESENT_def zero_pte_def)
  have env: "same_env s s'" using e1 by (simp add: same_env_def s' set_pte_def)
  have tr: "paging_virtual_to_physical_address d v s' =
       (if page_of v = page_of va then of_nat (page_of fa * 4096) + PAGE_OFFSET v
        else paging_virtual_to_physical_address d v s)" if pe: "paging_enabled s" for v
  proof -
    have "paging_enabled s'" using env pe by (simp add: same_env_def)
    then show ?thesis unfolding translate_eq [OF pe] translate_eq [OF \<open>paging_enabled s'\<close>] pa
      using new [of v] p1 [of v] frame_base [of fa] by (auto simp: pte_target_def zero_pte_def)
  qed
  show ?thesis using sp(1) used env tr unfolding s' by blast
qed

lemma unmap_page_correct:
  assumes inv: "dir_inv d s" and r: "paging_unmap_page d va s = (x, s')"
  shows "dir_inv d s' \<and> same_env s s' \<and> mem_heap s' = mem_heap s \<and>
    (\<forall>v. paging_is_page_used d v s' \<longleftrightarrow> page_of v \<noteq> page_of va \<and> paging_is_page_used d v s) \<and>
    (paging_enabled s \<longrightarrow> (\<forall>v. page_of v \<noteq> page_of va \<longrightarrow>
       paging_virtual_to_physical_address d v s' = paging_virtual_to_physical_address d v s)) \<and>
    (paging_enabled s \<and> paging_is_page_used d va s \<longrightarrow>
       (\<forall>v. page_of v = page_of va \<longrightarrow> paging_virtual_to_physical_address d v s' = 0))"
proof -
  let ?t = "dir_tables (page_dirs s d) (PAGE_DIRECTORY_INDEX va)"
  let ?f = "\<lambda>e. e\<lparr>pte_present := False, pte_available := pte_available e AND NOT PAGE_FLAG_USED,
      pte_page_base := 0\<rparr>"
  have same: "pte_at d v s = pte_at d va s" if "page_of v = page_of va" for v
    using that index_eq_iff [of v va] by (auto simp: pte_at_def Let_def)
  show ?thesis
  proof (cases "paging_is_page_used d va s")
    case False
    then have "s' = s" using r by (auto simp: paging_unmap_page_def paging_is_page_used_def Let_def split: if_splits)
    moreover have "\<not> paging_is_page_used d v s" if "page_of v = page_of va" for v
      using False same [OF that] by (simp add: is_page_used_eq)
    ultimately show ?thesis using inv False by (auto simp: same_env_def)
  next
    case True
    then have t: "?t \<noteq> 0" and s': "s' = set_pte ?t (PAGE_TABLE_INDEX va) ?f s"
      using r by (auto simp: paging_unmap_page_def paging_is_page_used_def Let_def split: if_splits)
    note sp = set_pte_at [OF inv refl t, where f = ?f, folded s']
    have nu: "\<not> pte_used (?f e)" for e
      by (simp add: pte_used_def and.assoc)
    have "paging_is_page_used d v s' \<longleftrightarrow> page_of v \<noteq> page_of va \<and> paging_is_page_used d v s" for v
      unfolding is_page_used_eq sp(2) using nu by (auto split: option.splits)
    moreover have env: "same_env s s'" "mem_heap s' = mem_heap s"
      by (simp_all add: s' same_env_def set_pte_def)
    moreover have "paging_virtual_to_physical_address d v s' =
        (if page_of v = page_of va then 0 else paging_virtual_to_physical_address d v s)"
      if pe: "paging_enabled s" for v
    proof -
      have pe': "paging_enabled s'" using env pe by (simp add: same_env_def)
      show ?thesis unfolding translate_eq [OF pe] translate_eq [OF pe'] sp(2)
        by (auto simp: pte_target_def split: option.splits)
    qed
    ultimately show ?thesis using sp(1) by simp
  qed
qed

end
