(* ===== verification/Vmm.thy ===== *)
theory Vmm
  imports Paging
begin

text \<open>
  The virtual memory manager of \<open>kernel/src/memory/vmm.c\<close>: mapping of memory ranges to frames of
  the physical memory manager, the search for free address space, and address spaces.

  The loops over pages step a 32-bit address by the page size and so may wrap around; they are
  partial functions. \<open>Hang\<close> stands for a loop that does not end, and for an access outside
  the frame bitmap.
\<close>

subsection \<open>Mapping\<close>

definition VMM_USER_SPACE_BASE :: u32 where "VMM_USER_SPACE_BASE = 0x1000"
definition VMM_USER_SPACE_SIZE :: u32 where "VMM_USER_SPACE_SIZE = 0xBFFFF000"
definition VMM_KERNEL_SPACE_SIZE :: u32 where "VMM_KERNEL_SPACE_SIZE = 0x3FFFFFFF"
definition VMM_REAL_MODE_MEMORY_BASE :: u32 where "VMM_REAL_MODE_MEMORY_BASE = 0xC0000000"
definition VMM_REAL_MODE_MEMORY_SIZE :: u32 where "VMM_REAL_MODE_MEMORY_SIZE = 0x100000"

lemmas vmm_consts = VMM_USER_SPACE_BASE_def VMM_USER_SPACE_SIZE_def VMM_KERNEL_SPACE_SIZE_def
  VMM_KERNEL_SPACE_BASE_def VMM_REAL_MODE_MEMORY_BASE_def VMM_REAL_MODE_MEMORY_SIZE_def PAGE_SIZE_def

fun kopt :: "'a option \<Rightarrow> 'a kres" where
  "kopt None = Hang"
| "kopt (Some x) = Ret x"

lemma kopt_iff [simp]: "kopt x = Ret y \<longleftrightarrow> x = Some y" "kopt x \<noteq> Panic c"
  by (cases x; simp)+

text \<open>The loops of \<open>vmm_find_free_memory\<close>.\<close>

partial_function (option) vmm_region_free ::
    "memory \<Rightarrow> u32 \<Rightarrow> u32 \<Rightarrow> u32 \<Rightarrow> u32 \<Rightarrow> bool option" where
  "vmm_region_free s page_address limit sz index =
     (if \<not> index < sz then Some True
      else if limit \<le> page_address + index then Some False
      else if paging_is_page_used (current_page_directory s) (page_address + index) s then Some False
      else vmm_region_free s page_address limit sz (index + PAGE_SIZE))"

partial_function (option) vmm_scan_space :: "memory \<Rightarrow> u32 \<Rightarrow> u32 \<Rightarrow> u32 \<Rightarrow> u32 option" where
  "vmm_scan_space s limit sz page_address =
     (if \<not> page_address < limit then Some 0
      else if paging_is_page_used (current_page_directory s) page_address s
      then vmm_scan_space s limit sz (page_address + PAGE_SIZE)
      else case vmm_region_free s page_address limit sz 0 of
             None \<Rightarrow> None
           | Some is_free \<Rightarrow> if is_free then Some page_address
                             else vmm_scan_space s limit sz (page_address + PAGE_SIZE))"

definition vmm_find_free_memory :: "u32 \<Rightarrow> bool \<Rightarrow> memory \<Rightarrow> u32 option" where
  "vmm_find_free_memory sz is_kernel s =
     (let space_base_address = (if is_kernel then VMM_KERNEL_SPACE_BASE else VMM_USER_SPACE_BASE);
          space_size = (if is_kernel then VMM_KERNEL_SPACE_SIZE else VMM_USER_SPACE_SIZE)
      in vmm_scan_space s (space_base_address + space_size) sz space_base_address)"

definition vmm_out_of_memory_code :: "bool \<Rightarrow> nat" where
  "vmm_out_of_memory_code is_kernel =
     (if is_kernel then KPANIC_VMM_OUT_OF_KERNEL_SPACE_MEMORY_CODE
      else KPANIC_VMM_OUT_OF_USER_SPACE_MEMORY_CODE)"

text \<open>The checks of \<open>vmm_map_page\<close> and the frame it uses, then the mapping.\<close>

definition vmm_get_frame :: "u32 \<Rightarrow> memory \<Rightarrow> (u32 \<times> memory) kres" where
  "vmm_get_frame physical_address s =
     (if physical_address = 0
      then kbind (kopt (pmm_alloc_frame (mem_pmm s))) (\<lambda>(frame, p).
             if frame = 0 then Panic KPANIC_PMM_OUT_OF_MEMORY_CODE
             else Ret (frame, s\<lparr>mem_pmm := p\<rparr>))
      else kbind (kopt (pmm_mark_frame_reserved physical_address (mem_pmm s))) (\<lambda>p.
             Ret (physical_address, s\<lparr>mem_pmm := p\<rparr>)))"

definition vmm_map_free_page :: "u32 \<Rightarrow> u32 \<Rightarrow> bool \<Rightarrow> bool \<Rightarrow> memory \<Rightarrow> (u32 \<times> memory) kres" where
  "vmm_map_free_page virtual_address physical_address is_kernel is_writeable s =
     (if is_kernel \<and> virtual_address < VMM_KERNEL_SPACE_BASE \<or>
         \<not> is_kernel \<and> VMM_KERNEL_SPACE_BASE \<le> virtual_address
      then Panic KPANCI_VMM_MEMORY_SPACE_BOUNDS_VIOLATION_CODE
      else kbind (vmm_get_frame physical_address s) (\<lambda>(frame, s1).
           kbind (paging_map_page (current_page_directory s1) virtual_address frame is_kernel
                    is_writeable s1) (\<lambda>s2.
             Ret (virtual_address, s2))))"

definition vmm_map_page :: "u32 \<Rightarrow> u32 \<Rightarrow> bool \<Rightarrow> bool \<Rightarrow> memory \<Rightarrow> (u32 \<times> memory) kres" where
  "vmm_map_page virtual_address physical_address is_kernel is_writeable s =
     (if virtual_address = 0
      then kbind (kopt (vmm_find_free_memory PAGE_SIZE is_kernel s)) (\<lambda>va.
             if va = 0 then Panic (vmm_out_of_memory_code is_kernel)
             else vmm_map_free_page va physical_address is_kernel is_writeable s)
      else if paging_is_page_used (current_page_directory s) virtual_address s then Ret (0, s)
      else vmm_map_free_page virtual_address physical_address is_kernel is_writeable s)"

definition vmm_unmap_page :: "u32 \<Rightarrow> memory \<Rightarrow> memory" where
  "vmm_unmap_page virtual_address s =
     snd (paging_unmap_page (current_page_directory s) virtual_address s)"

partial_function (option) vmm_unmap_pages :: "u32 \<Rightarrow> u32 \<Rightarrow> memory \<Rightarrow> memory option" where
  "vmm_unmap_pages page_address limit s =
     (if page_address < limit
      then vmm_unmap_pages (page_address + PAGE_SIZE) limit (vmm_unmap_page page_address s)
      else Some s)"

partial_function (option) vmm_map_pages ::
    "u32 \<Rightarrow> u32 \<Rightarrow> u32 \<Rightarrow> u32 \<Rightarrow> bool \<Rightarrow> bool \<Rightarrow> memory \<Rightarrow> (u32 \<times> memory) kres option" where
  "vmm_map_pages virtual_address limit page_address frame_address is_kernel is_writeable s =
     (if page_address < limit
      then (case vmm_map_page page_address frame_address is_kernel is_writeable s of
              Ret (resulted_address, s1) \<Rightarrow>
                (if resulted_address = 0
                 then map_option (\<lambda>s2. Ret (0, s2)) (vmm_unmap_pages virtual_address page_address s1)
                 else vmm_map_pages virtual_address limit (page_address + PAGE_SIZE)
                        (if frame_address \<noteq> 0 then frame_address + PAGE_SIZE else 0)
                        is_kernel is_writeable s1)
            | Panic code \<Rightarrow> Some (Panic code)
            | Hang \<Rightarrow> Some Hang
            | Fault \<Rightarrow> Some Fault)
      else Some (Ret (virtual_address, s)))"

definition vmm_map_range :: "u32 \<Rightarrow> u32 \<Rightarrow> u32 \<Rightarrow> bool \<Rightarrow> bool \<Rightarrow> memory \<Rightarrow> (u32 \<times> memory) kres" where
  "vmm_map_range virtual_address sz physical_address is_kernel is_writeable s =
     (let va = VMM_ALIGN_DOWN virtual_address
      in case vmm_map_pages va (va + sz) va physical_address is_kernel is_writeable s of
           None \<Rightarrow> Hang
         | Some r \<Rightarrow> r)"

definition vmm_map_memory :: "u32 \<Rightarrow> u32 \<Rightarrow> u32 \<Rightarrow> bool \<Rightarrow> bool \<Rightarrow> memory \<Rightarrow> (u32 \<times> memory) kres" where
  "vmm_map_memory virtual_address sz physical_address is_kernel is_writeable s =
     (if virtual_address = 0
      then kbind (kopt (vmm_find_free_memory sz is_kernel s)) (\<lambda>va.
             if va = 0 then Panic (vmm_out_of_memory_code is_kernel)
             else vmm_map_range va sz physical_address is_kernel is_writeable s)
      else vmm_map_range virtual_address sz physical_address is_kernel is_writeable s)"

definition vmm_unmap_memory :: "u32 \<Rightarrow> u32 \<Rightarrow> memory \<Rightarrow> memory option" where
  "vmm_unmap_memory virtual_address sz s =
     vmm_unmap_pages virtual_address (virtual_address + sz) s"

definition vmm_is_mapped :: "u32 \<Rightarrow> memory \<Rightarrow> bool" where
  "vmm_is_mapped virtual_address s = paging_is_page_used (current_page_directory s) virtual_address s"

definition vmm_get_physical_address :: "u32 \<Rightarrow> memory \<Rightarrow> u32" where
  "vmm_get_physical_address virtual_address s =
     paging_virtual_to_physical_address (current_page_directory s) virtual_address s"

subsection \<open>Address spaces\<close>

definition vmm_switch_address_space :: "u32 \<Rightarrow> memory \<Rightarrow> memory" where
  "vmm_switch_address_space page_directory s =
     (paging_switch_page_directory (current_page_directory s) page_directory s)
       \<lparr>current_page_directory := page_directory\<rparr>"

fun vmm_free_tables :: "u32 \<Rightarrow> nat list \<Rightarrow> memory \<Rightarrow> memory" where
  "vmm_free_tables page_directory [] s = s"
| "vmm_free_tables page_directory (i # is) s =
     (let table = dir_tables (page_dirs s page_directory) i
      in vmm_free_tables page_directory is
           (if table \<noteq> 0 \<and> table \<noteq> dir_tables (page_dirs s (kernel_page_directory s)) i
            then s\<lparr>mem_heap := kfree table (mem_heap s)\<rparr> else s))"

definition vmm_destroy_address_space :: "u32 \<Rightarrow> memory \<Rightarrow> memory option" where
  "vmm_destroy_address_space page_directory s =
     map_option (\<lambda>s1.
       let s2 = vmm_switch_address_space (kernel_page_directory s1) s1;
           s3 = vmm_free_tables page_directory [0..<1024] s2
       in s3\<lparr>mem_heap := kfree page_directory (mem_heap s3)\<rparr>)
     (vmm_unmap_memory VMM_USER_SPACE_BASE VMM_USER_SPACE_SIZE s)"

text \<open>\<open>memcpy\<close> of a whole page goes through the current address space.\<close>

definition copy_page :: "u32 \<Rightarrow> u32 \<Rightarrow> memory \<Rightarrow> memory" where
  "copy_page dest src s =
     s\<lparr>phys_pages := (phys_pages s)(page_of (vmm_get_physical_address dest s) :=
        phys_pages s (page_of (vmm_get_physical_address src s)))\<rparr>"

definition vmm_clone_page :: "u32 \<Rightarrow> u32 \<Rightarrow> u32 \<Rightarrow> nat \<Rightarrow> nat \<Rightarrow> memory \<Rightarrow> memory kres" where
  "vmm_clone_page dst src_table dst_table di ti s =
     (if pte_page_base (page_tables s src_table ti) \<noteq> 0
      then let va = of_nat (di * 0x400000 + ti * 4096)
           in kbind (kopt (pmm_alloc_frame (mem_pmm s))) (\<lambda>(frame, p).
              if frame = 0 then Panic KPANIC_PMM_OUT_OF_MEMORY_CODE
              else kbind (paging_map_page dst va frame False True (s\<lparr>mem_pmm := p\<rparr>)) (\<lambda>s1.
                   kbind (vmm_map_page 0 frame False True s1) (\<lambda>(tmp, s2).
                   let s3 = vmm_unmap_page tmp (copy_page tmp va s2);
                       e = page_tables s3 src_table ti
                   in Ret (set_pte dst_table ti (\<lambda>d. d\<lparr>
                        pte_page_base := ucast (drop_bit 12 frame), pte_present := pte_present e,
                        pte_read_write := pte_read_write e,
                        pte_user_supervisor := pte_user_supervisor e,
                        pte_write_through := pte_write_through e\<rparr>) s3))))
      else Ret s)"

fun vmm_clone_pages :: "u32 \<Rightarrow> u32 \<Rightarrow> u32 \<Rightarrow> nat \<Rightarrow> nat list \<Rightarrow> memory \<Rightarrow> memory kres" where
  "vmm_clone_pages dst src_table dst_table di [] s = Ret s"
| "vmm_clone_pages dst src_table dst_table di (ti # tis) s =
     kbind (vmm_clone_page dst src_table dst_table di ti s)
       (vmm_clone_pages dst src_table dst_table di tis)"

definition vmm_clone_table :: "u32 \<Rightarrow> u32 \<Rightarrow> nat \<Rightarrow> memory \<Rightarrow> memory kres" where
  "vmm_clone_table src dst di s =
     (let table = dir_tables (page_dirs s src) di
      in if table = 0 then Ret s
         else if table = dir_tables (page_dirs s (kernel_page_directory s)) di
         then Ret (set_dir dst (\<lambda>d. d\<lparr>
                dir_tables := (dir_tables d)(di := table),
                dir_entries := (dir_entries d)(di := dir_entries (page_dirs s src) di)\<rparr>) s)
         else kbind (kmalloc_a sizeof_page_table (mem_heap s)) (\<lambda>(dst_table, h).
                if dst_table = 0 then Panic KPANIC_KHEAP_OUT_OF_MEMORY_CODE
                else vmm_clone_pages dst table dst_table di [0..<1024]
                       (set_dir dst (\<lambda>d. d\<lparr>dir_tables := (dir_tables d)(di := dst_table)\<rparr>)
                          (s\<lparr>mem_heap := h\<rparr>))))"

fun vmm_clone_tables :: "u32 \<Rightarrow> u32 \<Rightarrow> nat list \<Rightarrow> memory \<Rightarrow> memory kres" where
  "vmm_clone_tables src dst [] s = Ret s"
| "vmm_clone_tables src dst (di # dis) s =
     kbind (vmm_clone_table src dst di s) (vmm_clone_tables src dst dis)"

definition vmm_clone_address_space :: "u32 \<Rightarrow> memory \<Rightarrow> (u32 \<times> memory) kres" where
  "vmm_clone_address_space src s =
     kbind (kmalloc_a sizeof_page_directory (mem_heap s)) (\<lambda>(dst, h).
       if dst = 0 then Panic KPANIC_KHEAP_OUT_OF_MEMORY_CODE
       else kbind (vmm_clone_tables src dst [0..<1024] (s\<lparr>mem_heap := h\<rparr>)) (\<lambda>s'. Ret (dst, s')))"

definition vmm_create_address_space :: "memory \<Rightarrow> (u32 \<times> memory) kres" where
  "vmm_create_address_space s = vmm_clone_address_space (kernel_page_directory s) s"

subsection \<open>Initialization\<close>

fun vmm_map_reserved :: "u32 \<Rightarrow> (u32 \<times> u32) list \<Rightarrow> memory \<Rightarrow> memory kres" where
  "vmm_map_reserved dir [] s = Ret s"
| "vmm_map_reserved dir ((virtual_address, physical_address) # ps) s =
     kbind (paging_map_page dir virtual_address physical_address True True s) (\<lambda>s1.
     kbind (kopt (pmm_mark_frame_reserved physical_address (mem_pmm s1))) (\<lambda>p.
       vmm_map_reserved dir ps (s1\<lparr>mem_pmm := p\<rparr>)))"

text \<open>
  The pages of the two loops: real-mode memory, and the kernel image between the addresses that
  the linker script provides.
\<close>

definition vmm_real_mode_pages :: "(u32 \<times> u32) list" where
  "vmm_real_mode_pages = map (\<lambda>i. (VMM_REAL_MODE_MEMORY_BASE + of_nat (i * 4096), of_nat (i * 4096)))
     [0..<unat (VMM_REAL_MODE_MEMORY_SIZE div PAGE_SIZE)]"

definition vmm_kernel_pages :: "u32 \<Rightarrow> u32 \<Rightarrow> u32 \<Rightarrow> (u32 \<times> u32) list" where
  "vmm_kernel_pages virtual_start virtual_end physical_start =
     map (\<lambda>i. (virtual_start + of_nat (i * 4096), physical_start + of_nat (i * 4096)))
       [0..<(unat virtual_end - unat virtual_start + 4095) div 4096]"

definition vmm_init :: "u32 \<Rightarrow> u32 \<Rightarrow> u32 \<Rightarrow> u32 \<Rightarrow> memory \<Rightarrow> memory kres" where
  "vmm_init prepaging_page_directory virtual_start virtual_end physical_start s =
     (let s0 = s\<lparr>current_page_directory := prepaging_page_directory\<rparr>
      in kbind (kmalloc_a sizeof_page_directory (mem_heap s0)) (\<lambda>(dir, h).
         if dir = 0 then Panic KPANIC_KHEAP_OUT_OF_MEMORY_CODE
         else let s1 = s0\<lparr>mem_heap := heap_memset0 dir sizeof_page_directory h,
                          kernel_page_directory := dir,
                          page_dirs := (page_dirs s0)(dir :=
                            \<lparr>dir_entries = (\<lambda>_. zero_pde), dir_tables = (\<lambda>_. 0)\<rparr>)\<rparr>
              in kbind (vmm_map_reserved dir vmm_real_mode_pages s1) (\<lambda>s2.
                 kbind (vmm_map_reserved dir (vmm_kernel_pages virtual_start virtual_end physical_start) s2) (\<lambda>s3.
                   Ret (paging_enable ((paging_switch_page_directory (current_page_directory s3) dir s3)
                          \<lparr>current_page_directory := dir\<rparr>))))))"


subsection \<open>Mapping one page\<close>

definition mem_inv :: "memory \<Rightarrow> bool" where
  "mem_inv s \<longleftrightarrow> dir_inv (current_page_directory s) s \<and> pmm_inv (mem_pmm s) \<and> paging_enabled s"

definition page_used :: "memory \<Rightarrow> nat \<Rightarrow> bool" where
  "page_used s n \<longleftrightarrow> paging_is_page_used (current_page_directory s) (of_nat (n * 4096)) s"

definition frames :: "memory \<Rightarrow> nat set" where
  "frames s = used_frames (mem_pmm s)"

lemma page_of_less: "page_of v < 0x100000"
  using unat_u32_less [of v] by (simp add: page_of_def div_less_iff_less_mult)

lemma page_of_of_nat: "n < 0x100000 \<Longrightarrow> page_of (of_nat (n * 4096)) = n"
  by (simp add: page_of_def del: of_nat_mult)

lemma is_page_used_page: "paging_is_page_used (current_page_directory s) v s \<longleftrightarrow> page_used s (page_of v)"
proof -
  have "page_of v = page_of (of_nat (page_of v * 4096))" using page_of_of_nat [OF page_of_less] by metis
  then show ?thesis
    using index_eq_iff [of v "of_nat (page_of v * 4096)"]
    by (auto simp: page_used_def paging_is_page_used_def Let_def simp del: of_nat_mult)
qed

text \<open>The effect of mapping page \<open>n\<close> to a frame that was free before.\<close>

definition maps_page :: "memory \<Rightarrow> nat \<Rightarrow> nat \<Rightarrow> memory \<Rightarrow> bool" where
  "maps_page s n f s' \<longleftrightarrow> mem_inv s' \<and> current_page_directory s' = current_page_directory s \<and>
     kernel_page_directory s' = kernel_page_directory s \<and> phys_pages s' = phys_pages s \<and>
     f \<notin> frames s \<and> frames s' = insert f (frames s) \<and> f \<noteq> 0 \<and> f < 0x100000 \<and>
     (\<forall>m < 0x100000. page_used s' m \<longleftrightarrow> m = n \<or> page_used s m) \<and>
     (\<forall>v. vmm_get_physical_address v s' =
        (if page_of v = n then of_nat (f * 4096) + PAGE_OFFSET v else vmm_get_physical_address v s))"

lemma map_page_at:
  assumes inv: "mem_inv s" and va: "va \<noteq> 0" "\<not> page_used s (page_of va)"
    and r: "vmm_map_page va 0 k w s = Ret (a, s')"
  shows "a = va \<and> (\<exists>f. maps_page s (page_of va) f s')"
proof -
  let ?d = "current_page_directory s"
  have pinv: "pmm_inv (mem_pmm s)" and dinv: "dir_inv ?d s" and pe: "paging_enabled s"
    using inv by (simp_all add: mem_inv_def)
  have nu: "\<not> paging_is_page_used ?d va s" using va(2) unfolding is_page_used_page .
  have "vmm_map_free_page va 0 k w s = Ret (a, s')" using r va(1) nu by (simp add: vmm_map_page_def)
  then obtain fa s1 where g: "vmm_get_frame 0 s = Ret (fa, s1)"
    and mp1: "paging_map_page (current_page_directory s1) va fa k w s1 = Ret s'" and a: "a = va"
    unfolding vmm_map_free_page_def by (force simp: kbind_Ret_iff split: if_splits)
  from g obtain p where al: "pmm_alloc_frame (mem_pmm s) = Some (fa, p)" and f0: "fa \<noteq> 0"
    and s1: "s1 = s\<lparr>mem_pmm := p\<rparr>"
    unfolding vmm_get_frame_def by (force simp: kbind_Ret_iff split: if_splits)
  have mp: "paging_map_page ?d va fa k w (s\<lparr>mem_pmm := p\<rparr>) = Ret s'" using mp1 s1 by simp
  from alloc_frame_correct [OF pinv] al f0 obtain f where
    f: "fa = of_nat (f * 4096)" "pmm_inv p" "f < scanned (mem_pmm s)" "f \<notin> used_frames (mem_pmm s)"
    "used_frames p = insert f (used_frames (mem_pmm s))" by (auto simp del: of_nat_mult)
  have fl: "f < 0x100000" using f(3) scanned_le [of "mem_pmm s"] pinv by (simp add: pmm_inv_def)
  have pf: "page_of fa = f" unfolding f(1) using fl by (rule page_of_of_nat)
  have "f \<noteq> 0" using f0 f(1) by (metis mult_zero_left of_nat_0)
  have dinv1: "dir_inv ?d (s\<lparr>mem_pmm := p\<rparr>)" using dinv by (simp add: dir_inv_def)
  from map_page_correct [OF dinv1 mp] pe have m: "dir_inv ?d s'" "same_env (s\<lparr>mem_pmm := p\<rparr>) s'"
    "\<And>v. paging_is_page_used ?d v s' \<longleftrightarrow> page_of v = page_of va \<or>
        paging_is_page_used ?d v (s\<lparr>mem_pmm := p\<rparr>)"
    "\<And>v. paging_virtual_to_physical_address ?d v s' =
       (if page_of v = page_of va then of_nat (page_of fa * 4096) + PAGE_OFFSET v
        else paging_virtual_to_physical_address ?d v (s\<lparr>mem_pmm := p\<rparr>))"
    by (simp_all del: of_nat_mult)
  have cur: "current_page_directory s' = ?d" using m(2) by (simp add: same_env_def)
  have pu: "page_used s' n \<longleftrightarrow> n = page_of va \<or> page_used s n" if n: "n < 0x100000" for n
    using m(3) [of "of_nat (n * 4096)"] page_of_of_nat [OF n]
    by (simp add: page_used_def cur paging_is_page_used_def del: of_nat_mult)
  have "maps_page s (page_of va) f s'"
    using m f pinv pe pf fl \<open>f \<noteq> 0\<close> pu cur
    by (auto simp: maps_page_def mem_inv_def same_env_def frames_def vmm_get_physical_address_def
        paging_virtual_to_physical_address_def simp del: of_nat_mult)
  then show ?thesis using a by blast
qed

text \<open>Mapping a page at a given address neither hangs nor faults, whatever is exhausted.\<close>

lemma get_table_proceeds: "dir_inv d s \<Longrightarrow> proceeds (paging_get_table d va s)"
  unfolding paging_get_table_def Let_def
  using kheap_a.alloc_returns [of "mem_heap s" sizeof_page_table]
  by (auto simp: dir_inv_def)

lemma map_page_proceeds:
  assumes inv: "mem_inv s" and va: "va \<noteq> 0"
  shows "proceeds (vmm_map_page va 0 k w s)"
proof -
  have pinv: "pmm_inv (mem_pmm s)" and dinv: "dir_inv (current_page_directory s) s"
    using inv by (simp_all add: mem_inv_def)
  from alloc_frame_correct [OF pinv] obtain fa p where al: "pmm_alloc_frame (mem_pmm s) = Some (fa, p)" by blast
  have "proceeds (paging_get_table (current_page_directory s) va (s\<lparr>mem_pmm := p\<rparr>))"
    by (rule get_table_proceeds) (use dinv in \<open>simp add: dir_inv_def\<close>)
  then show ?thesis using va al
    by (auto simp: vmm_map_page_def vmm_map_free_page_def vmm_get_frame_def paging_map_page_def
        intro!: proceeds_bind split: prod.splits)
qed

subsection \<open>Unmapping a range\<close>

lemma vmm_unmap_page_correct:
  assumes inv: "mem_inv s" and n: "n < 0x100000"
  defines "s' \<equiv> vmm_unmap_page (of_nat (n * 4096)) s"
  shows "mem_inv s' \<and> current_page_directory s' = current_page_directory s \<and>
    kernel_page_directory s' = kernel_page_directory s \<and> phys_pages s' = phys_pages s \<and>
    frames s' = frames s \<and>
    (\<forall>m < 0x100000. page_used s' m \<longleftrightarrow> m \<noteq> n \<and> page_used s m) \<and>
    (\<forall>v. page_of v \<noteq> n \<longrightarrow> vmm_get_physical_address v s' = vmm_get_physical_address v s)"
proof -
  let ?d = "current_page_directory s" let ?va = "of_nat (n * 4096) :: u32"
  have dinv: "dir_inv ?d s" and pe: "paging_enabled s" using inv by (simp_all add: mem_inv_def)
  have pv: "page_of ?va = n" using n by (rule page_of_of_nat)
  obtain x where u: "paging_unmap_page ?d ?va s = (x, s')"
    unfolding s'_def vmm_unmap_page_def by (metis prod.collapse)
  from unmap_page_correct [OF dinv u] have m: "dir_inv ?d s'" "same_env s s'" "mem_heap s' = mem_heap s"
    "\<forall>v. paging_is_page_used ?d v s' \<longleftrightarrow> page_of v \<noteq> n \<and> paging_is_page_used ?d v s"
    "\<forall>v. page_of v \<noteq> n \<longrightarrow>
       paging_virtual_to_physical_address ?d v s' = paging_virtual_to_physical_address ?d v s"
    unfolding pv using pe by blast+
  have cur: "current_page_directory s' = ?d" using m(2) by (simp add: same_env_def)
  have "page_used s' k \<longleftrightarrow> k \<noteq> n \<and> page_used s k" if k: "k < 0x100000" for k
    using m(4) page_of_of_nat [OF k] by (simp add: page_used_def cur del: of_nat_mult)
  then show ?thesis using m inv cur
    by (simp add: mem_inv_def same_env_def frames_def vmm_get_physical_address_def)
qed

lemma page_word_less:
  assumes "n < 0x100000" and "l \<le> 0xFFFFFFFF"
  shows "(of_nat (n * 4096) :: u32) < of_nat l \<longleftrightarrow> n * 4096 < l"
proof -
  have "n * 4096 < 4294967296" "l < 4294967296" using assms by simp_all
  then show ?thesis by (simp add: u32_less_iff del: of_nat_mult)
qed

lemma page_word_next: "(of_nat (n * 4096) + PAGE_SIZE :: u32) = of_nat ((n + 1) * 4096)"
  by (simp add: PAGE_SIZE_def add.commute)

text \<open>The pages of a byte range that starts on a page boundary.\<close>

definition pages_in :: "nat \<Rightarrow> nat \<Rightarrow> nat" where
  "pages_in n l = (l - n * 4096 + 4095) div 4096"

lemma page_count_step: "0 < d \<Longrightarrow> (d + 4095) div 4096 = Suc ((d - 4096 + 4095) div 4096)" for d :: nat
proof (cases "d \<le> 4096")
  case True
  assume "0 < d"
  with True have "(d + 4095) div 4096 = 1" by (intro div_nat_eqI) simp_all
  then show ?thesis using True by simp
next
  case False
  then obtain e where "d = e + 4096" by (metis le_add_diff_inverse2 nat_le_linear)
  then show ?thesis by (simp add: add.commute add.left_commute)
qed

lemma pages_in_Suc:
  "n * 4096 < l \<Longrightarrow> pages_in n l = Suc (pages_in (n + 1) l)"
  "\<not> n * 4096 < l \<Longrightarrow> pages_in n l = 0"
proof -
  have e: "l - (n + 1) * 4096 = l - n * 4096 - 4096"
    by (simp only: add_mult_distrib mult_1 diff_diff_left)
  show "n * 4096 < l \<Longrightarrow> pages_in n l = Suc (pages_in (n + 1) l)"
    unfolding pages_in_def e by (rule page_count_step) simp
  assume "\<not> n * 4096 < l"
  then have "l - n * 4096 = 0" by simp
  then show "pages_in n l = 0" unfolding pages_in_def by simp
qed

lemma unmap_pages_correct:
  assumes "mem_inv s" and "l \<le> 0xFFFFF000" and "n < 0x100000"
  shows "\<exists>s'. vmm_unmap_pages (of_nat (n * 4096)) (of_nat l) s = Some s' \<and> mem_inv s' \<and>
    current_page_directory s' = current_page_directory s \<and>
    kernel_page_directory s' = kernel_page_directory s \<and> frames s' = frames s \<and>
    phys_pages s' = phys_pages s \<and>
    (\<forall>m < 0x100000. page_used s' m \<longleftrightarrow> \<not> (n \<le> m \<and> m < n + pages_in n l) \<and> page_used s m) \<and>
    (\<forall>v. \<not> (n \<le> page_of v \<and> page_of v < n + pages_in n l) \<longrightarrow>
       vmm_get_physical_address v s' = vmm_get_physical_address v s)"
  using assms
proof (induction "pages_in n l" arbitrary: n s)
  case 0
  then have nl: "\<not> n * 4096 < l" using pages_in_Suc(1) [of n l] by auto
  then have "\<not> (of_nat (n * 4096) :: u32) < of_nat l"
    using page_word_less [of n l] 0 by simp
  then show ?case using 0 by (subst vmm_unmap_pages.simps) simp
next
  case (Suc d)
  then have nl: "n * 4096 < l" using pages_in_Suc(2) [of n l] by (cases "n * 4096 < l") auto
  then have p: "pages_in n l = Suc (pages_in (n + 1) l)" by (rule pages_in_Suc)
  have n1: "n + 1 < 0x100000" using nl Suc.prems by simp
  let ?s = "vmm_unmap_page (of_nat (n * 4096)) s"
  note u = vmm_unmap_page_correct [OF Suc.prems(1,3)]
  have "d = pages_in (n + 1) l" using Suc.hyps(2) p by simp
  from Suc.hyps(1) [OF this _ Suc.prems(2) n1, of ?s] u obtain s' where
    s': "vmm_unmap_pages (of_nat ((n + 1) * 4096)) (of_nat l) ?s = Some s'" "mem_inv s'"
    "current_page_directory s' = current_page_directory ?s"
    "kernel_page_directory s' = kernel_page_directory ?s" "frames s' = frames ?s"
    "phys_pages s' = phys_pages ?s"
    "\<forall>m < 0x100000. page_used s' m \<longleftrightarrow>
       \<not> (n + 1 \<le> m \<and> m < n + 1 + pages_in (n + 1) l) \<and> page_used ?s m"
    "\<forall>v. \<not> (n + 1 \<le> page_of v \<and> page_of v < n + 1 + pages_in (n + 1) l) \<longrightarrow>
       vmm_get_physical_address v s' = vmm_get_physical_address v ?s" by blast
  have "vmm_unmap_pages (of_nat (n * 4096)) (of_nat l) s = Some s'"
    using nl page_word_less [OF Suc.prems(3), of l] Suc.prems(2) s'(1) page_word_next [of n]
    by (subst vmm_unmap_pages.simps) (simp del: of_nat_mult of_nat_add)
  moreover have "page_used s' m \<longleftrightarrow> \<not> (n \<le> m \<and> m < n + pages_in n l) \<and> page_used s m"
    if "m < 0x100000" for m
    using s'(7) u that unfolding p by (cases "m = n") auto
  moreover have "vmm_get_physical_address v s' = vmm_get_physical_address v s"
    if "\<not> (n \<le> page_of v \<and> page_of v < n + pages_in n l)" for v
    using s'(8) u that unfolding p by (cases "page_of v = n") auto
  ultimately show ?case using s' u by simp
qed


subsection \<open>Mapping a range\<close>

text \<open>
  The first \<open>i\<close> pages from page \<open>n\<close> on are mapped to the frames \<open>F 0, F 1, \<dots>\<close>, which are distinct
  and were all free in \<open>s\<close>; every other page is as in \<open>s\<close>.
\<close>

definition maps_pages :: "memory \<Rightarrow> nat \<Rightarrow> nat \<Rightarrow> (nat \<Rightarrow> nat) \<Rightarrow> memory \<Rightarrow> bool" where
  "maps_pages s n i F s' \<longleftrightarrow> mem_inv s' \<and> current_page_directory s' = current_page_directory s \<and>
     kernel_page_directory s' = kernel_page_directory s \<and> phys_pages s' = phys_pages s \<and>
     frames s' = frames s \<union> F ` {..<i} \<and> inj_on F {..<i} \<and> F ` {..<i} \<inter> frames s = {} \<and>
     (\<forall>j < i. 0 < F j \<and> F j < 0x100000) \<and>
     (\<forall>m < 0x100000. page_used s' m \<longleftrightarrow> n \<le> m \<and> m < n + i \<or> page_used s m) \<and>
     (\<forall>v. vmm_get_physical_address v s' =
        (if n \<le> page_of v \<and> page_of v < n + i then of_nat (F (page_of v - n) * 4096) + PAGE_OFFSET v
         else vmm_get_physical_address v s))"

lemma maps_pages_0: "mem_inv s \<Longrightarrow> maps_pages s n 0 F s"
  by (auto simp: maps_pages_def)

lemma maps_pages_step:
  assumes m: "maps_pages s n i F t" and p: "maps_page t (n + i) f t'"
  shows "maps_pages s n (Suc i) (F(i := f)) t'"
proof -
  have img: "(F(i := f)) ` {..<Suc i} = insert f (F ` {..<i})"
    by (auto simp: lessThan_Suc)
  have fresh: "f \<notin> frames s" "f \<notin> F ` {..<i}" using m p by (auto simp: maps_pages_def maps_page_def)
  have "inj_on (F(i := f)) {..<Suc i}"
    using m fresh by (auto simp: maps_pages_def lessThan_Suc inj_on_def)
  moreover have "vmm_get_physical_address v t' =
      (if n \<le> page_of v \<and> page_of v < n + Suc i
       then of_nat ((F(i := f)) (page_of v - n) * 4096) + PAGE_OFFSET v
       else vmm_get_physical_address v s)" for v
    using m p by (cases "page_of v = n + i") (auto simp: maps_pages_def maps_page_def simp del: of_nat_mult)
  moreover have "page_used t' k \<longleftrightarrow> n \<le> k \<and> k < n + Suc i \<or> page_used s k" if "k < 0x100000" for k
    using m p that by (cases "k = n + i") (auto simp: maps_pages_def maps_page_def)
  ultimately show ?thesis using m p fresh img
    by (auto simp: maps_pages_def maps_page_def less_Suc_eq simp del: of_nat_mult)
qed

text \<open>What a mapping loop that returned has done.\<close>

definition map_result :: "memory \<Rightarrow> nat \<Rightarrow> nat \<Rightarrow> u32 \<Rightarrow> memory \<Rightarrow> bool" where
  "map_result s n c a s' \<longleftrightarrow>
     (a = of_nat (n * 4096) \<and> (\<forall>j < c. \<not> page_used s (n + j)) \<and> (\<exists>F. maps_pages s n c F s')) \<or>
     (a = 0 \<and> (\<exists>j < c. page_used s (n + j)) \<and> mem_inv s' \<and>
        current_page_directory s' = current_page_directory s \<and>
        kernel_page_directory s' = kernel_page_directory s \<and>
        phys_pages s' = phys_pages s \<and> frames s \<subseteq> frames s' \<and>
        (\<forall>m < 0x100000. page_used s' m \<longleftrightarrow> page_used s m) \<and>
        (\<forall>v. page_used s (page_of v) \<longrightarrow> vmm_get_physical_address v s' = vmm_get_physical_address v s))"

lemma map_rollback:
  assumes m: "maps_pages s n i F t" and free: "\<forall>j < i. \<not> page_used s (n + j)"
    and l: "(n + i) * 4096 \<le> 0xFFFFF000" and n: "0 < n"
    and u: "page_used s (n + i)" and ic: "i < c"
  shows "\<exists>s'. vmm_unmap_pages (of_nat (n * 4096)) (of_nat ((n + i) * 4096)) t = Some s' \<and>
    map_result s n c 0 s'"
proof -
  have ti: "mem_inv t" using m by (simp add: maps_pages_def)
  have nl: "n < 0x100000" using l by simp
  have "(n + i) * 4096 - n * 4096 + 4095 = i * 4096 + 4095" by simp
  then have pi: "pages_in n ((n + i) * 4096) = i" by (simp add: pages_in_def)
  from unmap_pages_correct [OF ti l nl] obtain s' where
    s': "vmm_unmap_pages (of_nat (n * 4096)) (of_nat ((n + i) * 4096)) t = Some s'" "mem_inv s'"
    "current_page_directory s' = current_page_directory t" "kernel_page_directory s' = kernel_page_directory t"
    "frames s' = frames t" "phys_pages s' = phys_pages t"
    "\<forall>k < 0x100000. page_used s' k \<longleftrightarrow> \<not> (n \<le> k \<and> k < n + i) \<and> page_used t k"
    "\<forall>v. \<not> (n \<le> page_of v \<and> page_of v < n + i) \<longrightarrow>
       vmm_get_physical_address v s' = vmm_get_physical_address v t" unfolding pi by blast
  have fr: "\<not> page_used s k" if "n \<le> k" "k < n + i" for k
    using free that by (metis le_add_diff_inverse nat_add_left_cancel_less)
  have "page_used s' k \<longleftrightarrow> page_used s k" if "k < 0x100000" for k
    using s'(7) m fr that by (auto simp: maps_pages_def)
  moreover have "vmm_get_physical_address v s' = vmm_get_physical_address v s"
    if "page_used s (page_of v)" for v
  proof -
    have "\<not> (n \<le> page_of v \<and> page_of v < n + i)" using fr that by blast
    then show ?thesis using s'(8) m by (auto simp: maps_pages_def)
  qed
  moreover have "current_page_directory s' = current_page_directory s"
    "kernel_page_directory s' = kernel_page_directory s" "phys_pages s' = phys_pages s" "frames s \<subseteq> frames s'"
    using s'(3-6) m by (auto simp: maps_pages_def)
  ultimately show ?thesis using s'(1,2) u ic by (auto simp: map_result_def)
qed

lemma map_pages_correct:
  assumes "maps_pages s n i F t" and "\<forall>j < i. \<not> page_used s (n + j)" and "0 < n"
    and "l \<le> 0xFFFFF000" and "i + pages_in (n + i) l = c" and "(n + i) * 4096 \<le> 0xFFFFF000"
  shows "\<exists>R. vmm_map_pages (of_nat (n * 4096)) (of_nat l) (of_nat ((n + i) * 4096)) 0 k w t = Some R \<and>
    proceeds R \<and> (\<forall>a s'. R = Ret (a, s') \<longrightarrow> map_result s n c a s')"
  using assms
proof (induction "pages_in (n + i) l" arbitrary: i F t)
  case 0
  then have nl: "\<not> (n + i) * 4096 < l" using pages_in_Suc(1) [of "n + i" l] by auto
  then have "\<not> (of_nat ((n + i) * 4096) :: u32) < of_nat l"
    using page_word_less [of "n + i" l] 0 by simp
  moreover have "map_result s n c (of_nat (n * 4096)) t"
    using 0 unfolding map_result_def by auto
  ultimately show ?case by (subst vmm_map_pages.simps) simp
next
  case (Suc d)
  let ?m = "n + i" let ?va = "of_nat ((n + i) * 4096) :: u32"
  have nl: "?m * 4096 < l" using Suc.hyps(2) pages_in_Suc(2) [of ?m l] by (cases "?m * 4096 < l") auto
  then have p: "pages_in ?m l = Suc (pages_in (?m + 1) l)" by (rule pages_in_Suc)
  have ml: "?m < 0x100000" using Suc.prems(6) by simp
  have lt: "?va < of_nat l" using nl page_word_less [OF ml, of l] Suc.prems(4) by simp
  have pv: "page_of ?va = ?m" using ml by (rule page_of_of_nat)
  have va0: "?va \<noteq> 0" using Suc.prems(3) ml by (simp add: of_nat_u32_eq_0_iff del: of_nat_mult of_nat_add)
  have ti: "mem_inv t" using Suc.prems(1) by (simp add: maps_pages_def)
  have ut: "page_used t ?m \<longleftrightarrow> page_used s ?m" using Suc.prems(1) ml by (auto simp: maps_pages_def)
  have ok: "proceeds (vmm_map_page ?va 0 k w t)" using ti va0 by (rule map_page_proceeds)
  show ?case
  proof (cases "page_used s ?m")
    case True
    have mp: "vmm_map_page ?va 0 k w t = Ret (0, t)"
      using True ut va0 is_page_used_page [of t ?va] pv by (simp add: vmm_map_page_def del: of_nat_mult of_nat_add)
    have ic: "i < c" using Suc.prems(5) p by simp
    from map_rollback [OF Suc.prems(1,2,6,3) True ic] obtain s' where
      "vmm_unmap_pages (of_nat (n * 4096)) ?va t = Some s'" "map_result s n c 0 s'" by blast
    then show ?thesis using lt mp by (subst vmm_map_pages.simps) (simp del: of_nat_mult of_nat_add)
  next
    case False
    show ?thesis
    proof (cases "vmm_map_page ?va 0 k w t")
      case (Ret r)
      obtain a t' where r: "r = (a, t')" by (cases r)
      have nu: "\<not> page_used t (page_of ?va)" unfolding pv using ut False by simp
      from map_page_at [OF ti va0 nu Ret [unfolded r]] obtain f where
        a: "a = ?va" and f: "maps_page t ?m f t'" unfolding pv by blast
      have "d = pages_in (n + Suc i) l" "Suc i + pages_in (n + Suc i) l = c"
        using Suc.hyps(2) Suc.prems(5) p by simp_all
      moreover have "\<forall>j < Suc i. \<not> page_used s (n + j)" using Suc.prems(2) False by (simp add: less_Suc_eq)
      moreover have "(n + Suc i) * 4096 \<le> 0xFFFFF000"
      proof -
        have "?m < 0xFFFFF" using nl Suc.prems(4) by simp
        then show ?thesis by simp
      qed
      ultimately obtain R where
        R: "vmm_map_pages (of_nat (n * 4096)) (of_nat l) (of_nat ((n + Suc i) * 4096)) 0 k w t' = Some R"
        "proceeds R" "\<forall>a s'. R = Ret (a, s') \<longrightarrow> map_result s n c a s'"
        using Suc.hyps(1) [of "Suc i" "F(i := f)" t'] maps_pages_step [OF Suc.prems(1) f] Suc.prems(3,4) by blast
      have "?va + PAGE_SIZE = of_nat ((n + Suc i) * 4096)" using page_word_next [of ?m] by simp
      then show ?thesis using lt Ret r a va0 R
        by (subst vmm_map_pages.simps) (simp del: of_nat_mult of_nat_add)
    qed (use lt ok in \<open>subst vmm_map_pages.simps, simp del: of_nat_mult of_nat_add\<close>)+
  qed
qed


lemma align_down_page: "VMM_ALIGN_DOWN v = of_nat (page_of v * 4096)"
proof -
  have "unat (VMM_ALIGN_DOWN v) = page_of v * 4096"
    unfolding VMM_ALIGN_DOWN_def PAGE_SIZE_def
    using unat_page_down [of v] by (simp add: page_of_def minus_mod_eq_div_mult)
  then show ?thesis by (metis of_nat_unat ucast_id)
qed

lemma map_range_correct:
  assumes inv: "mem_inv s" and n: "0 < page_of va" and top: "page_of va * 4096 + unat sz \<le> 0xFFFFF000"
  shows "proceeds (vmm_map_range va sz 0 k w s)"
    and "vmm_map_range va sz 0 k w s = Ret (a, s') \<Longrightarrow>
      map_result s (page_of va) ((unat sz + 4095) div 4096) a s'"
proof -
  let ?n = "page_of va" let ?l = "page_of va * 4096 + unat sz"
  have lim: "(of_nat (?n * 4096) + sz :: u32) = of_nat ?l" by simp
  have pc: "pages_in ?n ?l = (unat sz + 4095) div 4096" by (simp add: pages_in_def)
  from map_pages_correct [OF maps_pages_0 [OF inv, where n = ?n], of ?l "(unat sz + 4095) div 4096" k w]
  obtain R where R: "vmm_map_pages (of_nat (?n * 4096)) (of_nat ?l) (of_nat (?n * 4096)) 0 k w s = Some R"
    "proceeds R" "\<forall>a s'. R = Ret (a, s') \<longrightarrow> map_result s ?n ((unat sz + 4095) div 4096) a s'"
    using n top pc by (auto simp del: of_nat_mult of_nat_add)
  have e: "vmm_map_range va sz 0 k w s = R"
    unfolding vmm_map_range_def Let_def align_down_page lim using R(1) by simp
  show "proceeds (vmm_map_range va sz 0 k w s)" using e R(2) by simp
  show "map_result s ?n ((unat sz + 4095) div 4096) a s'" if "vmm_map_range va sz 0 k w s = Ret (a, s')"
    using that e R(3) by simp
qed

subsection \<open>The search for free address space\<close>

definition region_free :: "memory \<Rightarrow> u32 \<Rightarrow> u32 \<Rightarrow> u32 \<Rightarrow> nat \<Rightarrow> bool" where
  "region_free s page_address limit sz i \<longleftrightarrow> (\<forall>j \<ge> i. j * 4096 < unat sz \<longrightarrow>
     page_address + of_nat (j * 4096) < limit \<and>
     \<not> page_used s (page_of (page_address + of_nat (j * 4096))))"

lemma region_free_first: "region_free s p limit sz 0 \<Longrightarrow> 0 < sz \<Longrightarrow> \<not> page_used s (page_of p)"
  unfolding region_free_def by (drule spec [of _ 0]) (simp add: u32_less_iff)

lemma region_free_correct:
  assumes "unat sz \<le> 0xFFFFF000"
  shows "i * 4096 < unat sz + 4096 \<Longrightarrow>
    vmm_region_free s page_address limit sz (of_nat (i * 4096)) = Some (region_free s page_address limit sz i)"
proof (induction "unat sz + 4096 - i * 4096" arbitrary: i rule: less_induct)
  case less
  have u: "unat (of_nat (i * 4096) :: u32) = i * 4096"
    using less.prems assms by (intro unat_of_nat_u32) simp
  have ls: "(of_nat (i * 4096) :: u32) < sz \<longleftrightarrow> i * 4096 < unat sz" unfolding u32_less_iff u ..
  have un: "paging_is_page_used (current_page_directory s) (page_address + of_nat (i * 4096)) s \<longleftrightarrow>
      page_used s (page_of (page_address + of_nat (i * 4096)))" by (rule is_page_used_page)
  show ?case
  proof (cases "i * 4096 < unat sz")
    case False
    then have "region_free s page_address limit sz i" by (auto simp: region_free_def)
    then show ?thesis using False ls by (subst vmm_region_free.simps) (simp del: of_nat_mult)
  next
    case True
    let ?ok = "page_address + of_nat (i * 4096) < limit \<and>
      \<not> page_used s (page_of (page_address + of_nat (i * 4096)))"
    have split: "region_free s page_address limit sz i \<longleftrightarrow> ?ok \<and> region_free s page_address limit sz (Suc i)"
    proof -
      have all: "(\<forall>j \<ge> i. Q j) \<longleftrightarrow> Q i \<and> (\<forall>j \<ge> Suc i. Q j)" for Q :: "nat \<Rightarrow> bool"
        by (metis Suc_leD le_antisym not_less_eq_eq order_refl)
      show ?thesis unfolding region_free_def using True by (subst all) simp
    qed
    have nx: "(of_nat (i * 4096) + PAGE_SIZE :: u32) = of_nat (Suc i * 4096)" using page_word_next [of i] by simp
    have IH: "vmm_region_free s page_address limit sz (of_nat (Suc i * 4096)) =
        Some (region_free s page_address limit sz (Suc i))"
      using True by (intro less.hyps) simp_all
    have IH': "vmm_region_free s page_address limit sz (of_nat (i * 4096) + PAGE_SIZE) =
        Some (region_free s page_address limit sz (Suc i))" unfolding nx by (rule IH)
    show ?thesis unfolding split
      using True ls un IH' by (subst vmm_region_free.simps) (auto simp: not_le simp del: of_nat_mult)
  qed
qed

text \<open>
  If the space has a free region of the size, the search returns the first one; here \<open>b\<close> is the
  first page of the space and the region starts \<open>c\<close> pages above it.
\<close>

lemma scan_space_correct:
  assumes sz: "unat sz \<le> 0xFFFFF000"
    and free: "region_free s (of_nat ((b + c) * 4096)) limit sz 0" and szp: "0 < sz"
    and bl: "(b + c) * 4096 < unat limit"
  shows "\<exists>e \<le> c. vmm_scan_space s limit sz (of_nat (b * 4096)) = Some (of_nat ((b + e) * 4096)) \<and>
    region_free s (of_nat ((b + e) * 4096)) limit sz 0"
  using free bl
proof (induction c arbitrary: b)
  case 0
  have "(of_nat (b * 4096) :: u32) < limit"
  proof -
    have "b * 4096 < 4294967296" using less_trans [OF _ unat_u32_less, of "b * 4096" limit] 0(2) by simp
    then show ?thesis using 0(2) by (simp add: u32_less_iff del: of_nat_mult)
  qed
  moreover have "\<not> paging_is_page_used (current_page_directory s) (of_nat (b * 4096)) s"
    using region_free_first [OF _ szp] 0(1) by (simp add: is_page_used_page)
  moreover have "vmm_region_free s (of_nat (b * 4096)) limit sz 0 = Some True"
    using region_free_correct [OF sz, of 0] 0(1) by simp
  ultimately show ?case using 0 by (subst vmm_scan_space.simps) (simp del: of_nat_mult)
next
  case (Suc c)
  have lt: "(of_nat (b * 4096) :: u32) < limit"
  proof -
    have "b * 4096 < unat limit" using Suc.prems(2) by simp
    moreover have "b * 4096 < 4294967296" using calculation unat_u32_less by (rule less_trans)
    ultimately show ?thesis by (simp add: u32_less_iff del: of_nat_mult)
  qed
  have rf: "vmm_region_free s (of_nat (b * 4096)) limit sz 0 = Some (region_free s (of_nat (b * 4096)) limit sz 0)"
    using region_free_correct [OF sz, of 0] by simp
  show ?case
  proof (cases "region_free s (of_nat (b * 4096)) limit sz 0")
    case True
    moreover have "\<not> paging_is_page_used (current_page_directory s) (of_nat (b * 4096)) s"
      using region_free_first [OF True szp] by (simp add: is_page_used_page)
    ultimately have "vmm_scan_space s limit sz (of_nat (b * 4096)) = Some (of_nat ((b + 0) * 4096))"
      using lt rf by (subst vmm_scan_space.simps) (simp del: of_nat_mult)
    then show ?thesis using True by (intro exI [of _ 0]) simp
  next
    case False
    have "\<exists>e \<le> c. vmm_scan_space s limit sz (of_nat ((b + 1) * 4096)) = Some (of_nat ((b + 1 + e) * 4096)) \<and>
        region_free s (of_nat ((b + 1 + e) * 4096)) limit sz 0"
      using Suc.prems by (intro Suc.IH) (simp_all add: add.commute add.left_commute)
    then obtain e where e: "e \<le> c" "vmm_scan_space s limit sz (of_nat ((b + 1) * 4096)) = Some (of_nat ((b + Suc e) * 4096))"
      "region_free s (of_nat ((b + Suc e) * 4096)) limit sz 0" by (auto simp del: of_nat_mult of_nat_add)
    have "vmm_scan_space s limit sz (of_nat (b * 4096)) = vmm_scan_space s limit sz (of_nat ((b + 1) * 4096))"
      using lt rf False page_word_next [of b] by (subst vmm_scan_space.simps) (simp del: of_nat_mult of_nat_add)
    then show ?thesis using e by (intro exI [of _ "Suc e"]) simp
  qed
qed


subsection \<open>New address spaces\<close>

lemma clone_kernel_tables:
  assumes "dst \<noteq> kernel_page_directory s"
  shows "\<exists>s'. vmm_clone_tables (kernel_page_directory s) dst is s = Ret s' \<and>
    page_tables s' = page_tables s \<and> mem_heap s' = mem_heap s \<and> mem_pmm s' = mem_pmm s \<and>
    kernel_page_directory s' = kernel_page_directory s \<and>
    current_page_directory s' = current_page_directory s \<and>
    (\<forall>d. d \<noteq> dst \<longrightarrow> page_dirs s' d = page_dirs s d) \<and>
    (\<forall>i. dir_tables (page_dirs s' dst) i =
       (if i \<in> set is \<and> dir_tables (page_dirs s (kernel_page_directory s)) i \<noteq> 0
        then dir_tables (page_dirs s (kernel_page_directory s)) i
        else dir_tables (page_dirs s dst) i)) \<and>
    (\<forall>i. dir_entries (page_dirs s' dst) i =
       (if i \<in> set is \<and> dir_tables (page_dirs s (kernel_page_directory s)) i \<noteq> 0
        then dir_entries (page_dirs s (kernel_page_directory s)) i
        else dir_entries (page_dirs s dst) i))"
  using assms
proof (induction "is" arbitrary: s)
  case Nil
  then show ?case by simp
next
  case (Cons i "is")
  let ?k = "kernel_page_directory s" let ?t = "dir_tables (page_dirs s ?k) i"
  show ?case
  proof (cases "?t = 0")
    case True
    then have "vmm_clone_table ?k dst i s = Ret s" by (simp add: vmm_clone_table_def)
    then show ?thesis using Cons.IH [OF Cons.prems] True by auto
  next
    case False
    define s1 where "s1 = set_dir dst (\<lambda>d. d\<lparr>dir_tables := (dir_tables d)(i := ?t),
      dir_entries := (dir_entries d)(i := dir_entries (page_dirs s ?k) i)\<rparr>) s"
    have c: "vmm_clone_table ?k dst i s = Ret s1" using False by (simp add: vmm_clone_table_def s1_def Let_def)
    have f1: "kernel_page_directory s1 = ?k" "page_tables s1 = page_tables s" "mem_heap s1 = mem_heap s"
      "mem_pmm s1 = mem_pmm s" "current_page_directory s1 = current_page_directory s"
      "\<And>d. d \<noteq> dst \<Longrightarrow> page_dirs s1 d = page_dirs s d"
      "dir_tables (page_dirs s1 dst) = (dir_tables (page_dirs s dst))(i := ?t)"
      "dir_entries (page_dirs s1 dst) = (dir_entries (page_dirs s dst))(i := dir_entries (page_dirs s ?k) i)"
      by (simp_all add: s1_def set_dir_def)
    have k1: "page_dirs s1 ?k = page_dirs s ?k" using Cons.prems f1(6) by simp
    from Cons.IH [of s1, unfolded f1 k1, OF Cons.prems] obtain s' where
      s': "vmm_clone_tables ?k dst is s1 = Ret s'" "page_tables s' = page_tables s"
      "mem_heap s' = mem_heap s" "mem_pmm s' = mem_pmm s" "kernel_page_directory s' = ?k"
      "current_page_directory s' = current_page_directory s"
      "\<forall>d. d \<noteq> dst \<longrightarrow> page_dirs s' d = page_dirs s1 d"
      "\<forall>j. dir_tables (page_dirs s' dst) j =
       (if j \<in> set is \<and> dir_tables (page_dirs s ?k) j \<noteq> 0 then dir_tables (page_dirs s ?k) j
        else ((dir_tables (page_dirs s dst))(i := ?t)) j)"
      "\<forall>j. dir_entries (page_dirs s' dst) j =
       (if j \<in> set is \<and> dir_tables (page_dirs s ?k) j \<noteq> 0 then dir_entries (page_dirs s ?k) j
        else ((dir_entries (page_dirs s dst))(i := dir_entries (page_dirs s ?k) i)) j)" by blast
    show ?thesis
      by (intro exI [of _ s'] conjI) (use c s' f1(6) False in auto)
  qed
qed

lemma create_address_space_correct:
  assumes inv: "kheap_inv (mem_heap s)" and r: "vmm_create_address_space s = Ret (dst, s')"
    and kd: "(unat (kernel_page_directory s), l) \<in> kheap_live (mem_heap s)"
  shows "dst \<noteq> kernel_page_directory s \<and> page_tables s' = page_tables s \<and>
    page_dirs s' (kernel_page_directory s) = page_dirs s (kernel_page_directory s) \<and>
    (\<forall>i < 1024. dir_tables (page_dirs s' dst) i =
       (let t = dir_tables (page_dirs s (kernel_page_directory s)) i
        in if t \<noteq> 0 then t else dir_tables (page_dirs s dst) i))"
proof -
  from r obtain h where m: "kmalloc_a sizeof_page_directory (mem_heap s) = Ret (dst, h)" and d0: "dst \<noteq> 0"
    and c: "vmm_clone_tables (kernel_page_directory s) dst [0..<1024] (s\<lparr>mem_heap := h\<rparr>) = Ret s'"
    by (auto simp: vmm_create_address_space_def vmm_clone_address_space_def kbind_Ret_iff split: if_splits)
  from kheap_a.alloc_live [OF inv m d0] obtain k where k: "kheap_inv h"
    "kheap_live h = insert (unat dst, k) (kheap_live (mem_heap s))" "(unat dst, k) \<notin> kheap_live (mem_heap s)"
    by blast
  have ne: "dst \<noteq> kernel_page_directory s"
    using kd k live_ptr_unique [OF k(1), of "unat dst" k l] by auto
  let ?s = "s\<lparr>mem_heap := h\<rparr>"
  have ne': "dst \<noteq> kernel_page_directory ?s" using ne by simp
  from clone_kernel_tables [OF ne', of "[0..<1024]"] c show ?thesis using ne by (auto simp: Let_def)
qed


text \<open>A memory system for concrete evaluations: an empty current directory, 64 frames.\<close>

definition small_memory :: memory where
  "small_memory = \<lparr>mem_heap = fresh_heap, mem_pmm = small_pmm,
     page_dirs = (\<lambda>_. \<lparr>dir_entries = (\<lambda>_. zero_pde), dir_tables = (\<lambda>_. 0)\<rparr>),
     page_tables = (\<lambda>_ _. zero_pte), paging_enabled = True,
     kernel_page_directory = 0x500, current_page_directory = 0x500, cr3 = 0x500,
     phys_pages = (\<lambda>_. replicate 4096 0)\<rparr>"

lemma small_memory_inv: "mem_inv small_memory"
  using fresh_heap_inv small_pmm_inv by (simp add: mem_inv_def dir_inv_def small_memory_def)

lemma small_memory_unused: "\<not> page_used small_memory n"
  by (simp add: page_used_def paging_is_page_used_def small_memory_def)

lemma small_memory_frame: "\<exists>p. pmm_alloc_frame small_pmm = Some (0x2000, p)"
proof -
  have "63 \<in> {..<scanned small_pmm}" by (simp add: scanned_def small_pmm_def)
  moreover have "63 \<notin> used_frames small_pmm" unfolding small_pmm_inv by simp
  ultimately have nf: "\<not> {..<scanned small_pmm} \<subseteq> used_frames small_pmm" by blast
  from alloc_frame_correct [OF small_pmm_inv(1)] nf obtain f p where
    f: "pmm_alloc_frame small_pmm = Some (of_nat (f * 4096), p)" "f \<notin> used_frames small_pmm"
    "{..<f} \<subseteq> used_frames small_pmm" by blast
  note g = f(2,3) [unfolded small_pmm_inv(2)]
  have "f = 2"
  proof (rule ccontr)
    assume "f \<noteq> 2"
    then have "2 \<in> {..<f}" using g(1) by auto
    then show False using g(2) by auto
  qed
  then show ?thesis using f(1) by auto
qed

lemma small_memory_map:
  "\<exists>s'. vmm_map_page 0xC0000000 0 True True small_memory = Ret (0xC0000000, s')"
proof -
  obtain p where p: "pmm_alloc_frame small_pmm = Some (0x2000, p)" using small_memory_frame by blast
  have "\<exists>t h. kmalloc_a 4096 fresh_heap = Ret (t, h) \<and> t \<noteq> 0"
    by (simp add: kmalloc_a_def kmalloc_int_def kmalloc_heap_def fresh_heap_def
      blank_heap_def kheap_find_best_fit.simps kheap_consider_def kheap_carve_block_def Let_def
      VMM_IS_ALIGNED_def VMM_ALIGN_UP_def heap_consts kheap_align_block_def)
  then obtain t h where t: "kmalloc_a 4096 fresh_heap = Ret (t, h)" "t \<noteq> 0" by blast
  have "\<not> paging_is_page_used 0x500 0xC0000000 small_memory"
    by (simp add: paging_is_page_used_def small_memory_def)
  then show ?thesis using p t
    by (simp add: vmm_map_page_def vmm_map_free_page_def vmm_get_frame_def paging_map_page_def
        paging_get_table_def small_memory_def Let_def vmm_consts sizeof_page_table_def)
qed

subsection \<open>The properties\<close>

text \<open>
  C11. Mapping a page makes exactly its addresses translate to the frame, with their offset, and
  unmapping it makes them untranslatable; the translation of every other page of the directory is
  unchanged, also when a new page table has to be allocated, and the page tables stay distinct
  heap blocks.
\<close>

theorem paging_map_unmap:
  assumes inv: "dir_inv d s" and pe: "paging_enabled s" and r: "paging_map_page d va fa k w s = Ret s1"
    and u: "paging_unmap_page d va s1 = (x, s2)"
  shows "dir_inv d s1 \<and> dir_inv d s2 \<and>
    (\<forall>v. paging_virtual_to_physical_address d v s1 =
       (if page_of v = page_of va then of_nat (page_of fa * 4096) + PAGE_OFFSET v
        else paging_virtual_to_physical_address d v s)) \<and>
    (\<forall>v. paging_is_page_used d v s1 \<longleftrightarrow> page_of v = page_of va \<or> paging_is_page_used d v s) \<and>
    (\<forall>v. paging_virtual_to_physical_address d v s2 =
       (if page_of v = page_of va then 0 else paging_virtual_to_physical_address d v s)) \<and>
    (\<forall>v. paging_is_page_used d v s2 \<longleftrightarrow> page_of v \<noteq> page_of va \<and> paging_is_page_used d v s)"
proof -
  note m = map_page_correct [OF inv r]
  have i1: "dir_inv d s1" and pe1: "paging_enabled s1" using m pe by (auto simp: same_env_def)
  have ua: "paging_is_page_used d va s1" using m by simp
  note n = unmap_page_correct [OF i1 u]
  show ?thesis using m n pe pe1 ua by (auto simp del: of_nat_mult)
qed

theorem paging_map_unmap_witness:
  "\<exists>s1 x s2. paging_map_page 0x500 0xC0001234 0x5000 True True small_memory = Ret s1 \<and>
     paging_unmap_page 0x500 0xC0001234 s1 = (x, s2) \<and>
     paging_virtual_to_physical_address 0x500 0xC0001678 s1 = 0x5678 \<and>
     paging_virtual_to_physical_address 0x500 0xC0001678 s2 = 0"
proof -
  have "\<exists>t h. kmalloc_a 4096 fresh_heap = Ret (t, h) \<and> t \<noteq> 0"
    by (simp add: kmalloc_a_def kmalloc_int_def kmalloc_heap_def fresh_heap_def
      blank_heap_def kheap_find_best_fit.simps kheap_consider_def kheap_carve_block_def Let_def
      VMM_IS_ALIGNED_def VMM_ALIGN_UP_def heap_consts kheap_align_block_def)
  then obtain s1 where r: "paging_map_page 0x500 0xC0001234 0x5000 True True small_memory = Ret s1"
    by (auto simp: paging_map_page_def paging_get_table_def small_memory_def Let_def sizeof_page_table_def)
  obtain x s2 where u: "paging_unmap_page 0x500 0xC0001234 s1 = (x, s2)" by fastforce
  have inv: "dir_inv 0x500 small_memory" "paging_enabled small_memory"
    using small_memory_inv by (simp_all add: mem_inv_def small_memory_def)
  have pg: "page_of 0xC0001678 = page_of 0xC0001234" "page_of 0x5000 = 5" "PAGE_OFFSET 0xC0001678 = 0x678"
    by (simp_all add: page_of_def PAGE_OFFSET_def)
  from paging_map_unmap [OF inv r u] pg have
    "paging_virtual_to_physical_address 0x500 0xC0001678 s1 = 0x5678"
    "paging_virtual_to_physical_address 0x500 0xC0001678 s2 = 0" by simp_all
  then show ?thesis using r u by blast
qed

text \<open>
  C12. \<open>vmm_map_memory\<close> of a given range (inside the address space) either maps all its pages, each
  to a frame of its own that was free before, leaving every other page alone; or, if a page of the
  range is already in use, it returns NULL and the set of pages in use and their translation is
  what it was before (the pages mapped so far are rolled back).
\<close>

theorem vmm_map_memory_maps_range:
  assumes "mem_inv s" and "0 < page_of va" and "page_of va * 4096 + unat sz \<le> 0xFFFFF000"
    and "vmm_map_memory va sz 0 k w s = Ret (a, s')" and "c = (unat sz + 4095) div 4096"
  shows "(a = of_nat (page_of va * 4096) \<and> (\<forall>j < c. \<not> page_used s (page_of va + j)) \<and>
      (\<exists>F. maps_pages s (page_of va) c F s')) \<or>
     (a = 0 \<and> (\<exists>j < c. page_used s (page_of va + j)) \<and> mem_inv s' \<and>
        (\<forall>m < 0x100000. page_used s' m \<longleftrightarrow> page_used s m) \<and>
        (\<forall>v. page_used s (page_of v) \<longrightarrow> vmm_get_physical_address v s' = vmm_get_physical_address v s))"
proof -
  have "va \<noteq> 0" using assms(2) by (auto simp: page_of_def)
  then have "vmm_map_range va sz 0 k w s = Ret (a, s')" using assms(4) by (simp add: vmm_map_memory_def)
  from map_range_correct(2) [OF assms(1-3) this] show ?thesis unfolding map_result_def assms(5) by blast
qed

theorem vmm_map_memory_maps_range_witness:
  "\<exists>s' F. vmm_map_memory 0xC0000000 4096 0 True True small_memory = Ret (0xC0000000, s') \<and>
     maps_pages small_memory 0xC0000 1 F s'"
proof -
  obtain s' where m: "vmm_map_page 0xC0000000 0 True True small_memory = Ret (0xC0000000, s')"
    using small_memory_map by blast
  have al: "VMM_ALIGN_DOWN 0xC0000000 = 0xC0000000" by (simp add: VMM_ALIGN_DOWN_def PAGE_SIZE_def)
  have r: "vmm_map_memory 0xC0000000 4096 0 True True small_memory = Ret (0xC0000000, s')"
    by (simp add: vmm_map_memory_def vmm_map_range_def al Let_def vmm_map_pages.simps m PAGE_SIZE_def)
  have pg: "page_of 0xC0000000 = 0xC0000" by (simp add: page_of_def)
  from vmm_map_memory_maps_range [OF small_memory_inv _ _ r refl] show ?thesis
    using r by (auto simp: pg)
qed

text \<open>
  When the address space has room, \<open>vmm_find_free_memory\<close> terminates and returns the lowest
  page from which the whole region is free, inside the space that was asked for.
\<close>

theorem vmm_find_free_first:
  assumes "0 < sz" and "unat sz \<le> 0xFFFFF000"
    and "base = unat (if k then VMM_KERNEL_SPACE_BASE else VMM_USER_SPACE_BASE) div 4096"
    and "limit = (if k then VMM_KERNEL_SPACE_BASE + VMM_KERNEL_SPACE_SIZE
                  else VMM_USER_SPACE_BASE + VMM_USER_SPACE_SIZE)"
    and "(base + c) * 4096 < unat limit" and "region_free s (of_nat ((base + c) * 4096)) limit sz 0"
  shows "\<exists>e \<le> c. vmm_find_free_memory sz k s = Some (of_nat ((base + e) * 4096)) \<and>
    region_free s (of_nat ((base + e) * 4096)) limit sz 0"
proof -
  have b: "(of_nat (base * 4096) :: u32) = (if k then VMM_KERNEL_SPACE_BASE else VMM_USER_SPACE_BASE)"
    using assms(3) by (cases k) (simp_all add: vmm_consts)
  from scan_space_correct [OF assms(2,6,1,5)] show ?thesis
    unfolding b by (cases k) (simp_all add: vmm_find_free_memory_def assms(4) Let_def)
qed

theorem vmm_find_free_first_witness:
  "vmm_find_free_memory 0x3000 False small_memory = Some 0x1000"
proof -
  have "(of_nat ((1 + 0) * 4096) + of_nat (j * 4096) :: u32) < 0xC0000000"
    if "j * 4096 < unat (0x3000 :: u32)" for j
  proof -
    have "j * 4096 < 12288" using that by simp
    then consider "j = 0" | "j = 1" | "j = 2" by linarith
    then show ?thesis by cases simp_all
  qed
  then have "region_free small_memory (of_nat ((1 + 0) * 4096)) 0xC0000000 0x3000 0"
    unfolding region_free_def using small_memory_unused by blast
  from vmm_find_free_first [of "0x3000" 1 False "0xC0000000" 0 small_memory] this show ?thesis
    by (simp add: vmm_consts)
qed

text \<open>
  C13. A new address space shares every page table of the kernel directory, so kernel mappings
  are identical in it. The slots of the other tables are never written: they keep whatever the
  newly allocated memory held before.
\<close>

theorem vmm_create_address_space_shares_kernel:
  assumes "kheap_inv (mem_heap s)" and "vmm_create_address_space s = Ret (dst, s')"
    and "(unat (kernel_page_directory s), l) \<in> kheap_live (mem_heap s)"
  shows "dst \<noteq> kernel_page_directory s \<and>
    (\<forall>v. pte_at (kernel_page_directory s) v s \<noteq> None \<longrightarrow>
       pte_at dst v s' = pte_at (kernel_page_directory s) v s \<and>
       pte_at (kernel_page_directory s) v s' = pte_at (kernel_page_directory s) v s) \<and>
    (\<forall>i < 1024. dir_tables (page_dirs s (kernel_page_directory s)) i = 0 \<longrightarrow>
       dir_tables (page_dirs s' dst) i = dir_tables (page_dirs s dst) i)"
proof -
  note c = create_address_space_correct [OF assms]
  have "pte_at dst v s' = pte_at (kernel_page_directory s) v s \<and>
       pte_at (kernel_page_directory s) v s' = pte_at (kernel_page_directory s) v s"
    if "pte_at (kernel_page_directory s) v s \<noteq> None" for v
    using c dir_index_less [of v] that by (simp add: pte_at_def Let_def split: if_splits)
  then show ?thesis using c by (simp add: Let_def)
qed


lemma two_directories:
  "\<exists>d h e g. kmalloc_a 8192 fresh_heap = Ret (d, h) \<and> d \<noteq> 0 \<and> kmalloc_a 8192 h = Ret (e, g) \<and> e \<noteq> 0"
  by (simp add: kmalloc_a_def kmalloc_int_def kmalloc_heap_def fresh_heap_def
      blank_heap_def kheap_find_best_fit.simps kheap_consider_def kheap_carve_block_def Let_def
      VMM_IS_ALIGNED_def VMM_ALIGN_UP_def heap_consts kheap_align_block_def set_hdr_def)

theorem vmm_create_address_space_shares_kernel_witness:
  "\<exists>s dst s'. kheap_inv (mem_heap s) \<and> vmm_create_address_space s = Ret (dst, s') \<and>
     dst \<noteq> kernel_page_directory s"
proof -
  obtain d h e g where dh: "kmalloc_a 8192 fresh_heap = Ret (d, h)" "d \<noteq> 0"
    and eg: "kmalloc_a 8192 h = Ret (e, g)" "e \<noteq> 0" using two_directories by blast
  from kheap_a.alloc_live [OF fresh_heap_inv dh] obtain l where
    l: "kheap_inv h" "(unat d, l) \<in> kheap_live h" by auto
  define s where "s = small_memory\<lparr>mem_heap := h, kernel_page_directory := d\<rparr>"
  have "e \<noteq> d"
    using kheap_a.alloc_live [OF l(1) eg] l live_ptr_unique by (metis insert_iff)
  then have "e \<noteq> kernel_page_directory (s\<lparr>mem_heap := g\<rparr>)" by (simp add: s_def)
  from clone_kernel_tables [OF this, of "[0..<1024]"] obtain s' where
    "vmm_create_address_space s = Ret (e, s')"
    using eg by (auto simp: vmm_create_address_space_def vmm_clone_address_space_def s_def
        sizeof_page_directory_def)
  moreover have "kheap_inv (mem_heap s)" "(unat (kernel_page_directory s), l) \<in> kheap_live (mem_heap s)"
    using l by (simp_all add: s_def)
  ultimately show ?thesis using vmm_create_address_space_shares_kernel by blast
qed

end
