(* ===== verification/User_Memory.thy ===== *)
theory User_Memory
  imports Vmm
begin

text \<open>
  The memory that a program sees: bytes at virtual addresses, loaded and stored through the page
  tables of the current address space into the physical pages. A load or store at an address
  without a present page is a page fault in the kernel (\<open>Fault\<close>). The processor runs at ring 0
  with write protection off, so the kernel writes to read-only pages of a user as to others.

  The abstraction is a partial map from addresses to bytes. Under the invariant that distinct user
  pages lie in distinct frames, a store updates this map at one address, and mapping memory adds the
  new pages and changes no others.
\<close>

subsection \<open>Access\<close>

definition user_mapped :: "u32 \<Rightarrow> memory \<Rightarrow> bool" where
  "user_mapped v s = (case pte_at (current_page_directory s) v s of None \<Rightarrow> False | Some e \<Rightarrow> pte_present e)"

definition user_load :: "memory \<Rightarrow> u32 \<Rightarrow> u8 option" where
  "user_load s v =
     (if user_mapped v s
      then let p = vmm_get_physical_address v s in Some (phys_pages s (page_of p) ! unat (PAGE_OFFSET p))
      else None)"

definition user_store :: "u32 \<Rightarrow> u8 \<Rightarrow> memory \<Rightarrow> memory kres" where
  "user_store v b s =
     (if user_mapped v s
      then let p = vmm_get_physical_address v s
           in Ret (s\<lparr>phys_pages := (phys_pages s)(page_of p := (phys_pages s (page_of p))[unat (PAGE_OFFSET p) := b])\<rparr>)
      else Fault)"

text \<open>\<open>memcpy\<close> from and to user memory, byte by byte; addresses wrap around.\<close>

fun user_write :: "u32 \<Rightarrow> bytes \<Rightarrow> memory \<Rightarrow> memory kres" where
  "user_write v [] s = Ret s"
| "user_write v (b # bs) s = kbind (user_store v b s) (user_write (v + 1) bs)"

fun user_read :: "u32 \<Rightarrow> nat \<Rightarrow> memory \<Rightarrow> bytes kres" where
  "user_read v 0 s = Ret []"
| "user_read v (Suc n) s =
     kbind (or_fault (user_load s v)) (\<lambda>b. kbind (user_read (v + 1) n s) (\<lambda>bs. Ret (b # bs)))"

text \<open>Loads and stores of 32-bit values.\<close>

definition user_write32 :: "u32 \<Rightarrow> u32 \<Rightarrow> memory \<Rightarrow> memory kres" where
  "user_write32 v x s = user_write v (enc32 x) s"

text \<open>
  A C string in user memory. The scan for its NUL goes through the address space at most once.
\<close>

fun user_cstring :: "nat \<Rightarrow> u32 \<Rightarrow> memory \<Rightarrow> bytes kres" where
  "user_cstring 0 v s = Hang"
| "user_cstring (Suc n) v s =
     kbind (or_fault (user_load s v)) (\<lambda>b.
     if b = 0 then Ret [] else kbind (user_cstring n (v + 1) s) (\<lambda>bs. Ret (b # bs)))"

definition user_string :: "u32 \<Rightarrow> memory \<Rightarrow> bytes kres" where
  "user_string = user_cstring 4294967296"

definition user_read32 :: "u32 \<Rightarrow> memory \<Rightarrow> u32 kres" where
  "user_read32 v s = kbind (user_read v 4 s) (\<lambda>bs. Ret (le32 bs 0))"

subsection \<open>The invariant of user memory\<close>

definition frame_at :: "memory \<Rightarrow> nat \<Rightarrow> nat" where
  "frame_at s n = page_of (vmm_get_physical_address (of_nat (n * 4096)) s)"

definition user_pages :: "memory \<Rightarrow> nat set" where
  "user_pages s = {n. n < 0xC0000 \<and> page_used s n}"

definition user_ok :: "memory \<Rightarrow> bool" where
  "user_ok s \<longleftrightarrow> mem_inv s \<and> (\<forall>f. length (phys_pages s f) = 4096) \<and>
     inj_on (frame_at s) (user_pages s) \<and>
     (\<forall>n \<in> user_pages s. frame_at s n \<in> frames s \<and> 0 < frame_at s n)"

text \<open>What a program can read in the user half of the address space.\<close>

definition user_memory :: "memory \<Rightarrow> u32 \<Rightarrow> u8 option" where
  "user_memory s v = (if page_of v \<in> user_pages s then user_load s v else None)"

lemma user_okD:
  assumes "user_ok s"
  shows "mem_inv s" and "length (phys_pages s f) = 4096" and "inj_on (frame_at s) (user_pages s)"
    and "n \<in> user_pages s \<Longrightarrow> frame_at s n \<in> frames s \<and> 0 < frame_at s n"
  using assms by (auto simp: user_ok_def)

lemma page_offset_unat: "unat (PAGE_OFFSET v) = unat v mod 4096"
  by (simp add: PAGE_OFFSET_def unat_page_offset)

lemma frame_address:
  assumes "f < 0x100000"
  shows "page_of (of_nat (f * 4096) + PAGE_OFFSET v) = f"
    and "unat (PAGE_OFFSET (of_nat (f * 4096) + PAGE_OFFSET v)) = unat v mod 4096"
proof -
  have lt: "f * 4096 + unat v mod 4096 < (f + 1) * 4096" by simp
  also have "\<dots> \<le> 4294967296" using assms by simp
  finally have "f * 4096 + unat v mod 4096 < 4294967296" .
  then have u: "unat (of_nat (f * 4096) + PAGE_OFFSET v) = f * 4096 + unat v mod 4096"
    by (subst unat_u32_add_small) (simp_all add: page_offset_unat del: of_nat_mult)
  show "page_of (of_nat (f * 4096) + PAGE_OFFSET v) = f" unfolding page_of_def u by simp
  show "unat (PAGE_OFFSET (of_nat (f * 4096) + PAGE_OFFSET v)) = unat v mod 4096"
    unfolding page_offset_unat u by simp
qed

text \<open>The address of a page in use is translated through its frame.\<close>

lemma user_translation:
  assumes ok: "user_ok s" and v: "page_of v \<in> user_pages s"
  shows "user_mapped v s"
    and "vmm_get_physical_address v s = of_nat (frame_at s (page_of v) * 4096) + PAGE_OFFSET v"
    and "frame_at s (page_of v) < 0x100000"
proof -
  let ?d = "current_page_directory s" and ?w = "of_nat (page_of v * 4096) :: u32"
  have pe: "paging_enabled s" using user_okD(1) [OF ok] by (simp add: mem_inv_def)
  have same: "pte_at ?d ?w s = pte_at ?d v s"
    using page_of_of_nat [OF page_of_less, of v] index_eq_iff [of ?w v]
    by (simp add: pte_at_def Let_def del: of_nat_mult)
  have pos: "0 < frame_at s (page_of v)" using user_okD(4) [OF ok v] by blast
  have page_of_0: "page_of 0 = 0" by (simp add: page_of_def)
  have o: "PAGE_OFFSET ?w = 0"
    unfolding u32_eq_iff page_offset_unat
    using page_of_less [of v] by (subst unat_of_nat_u32) simp_all
  obtain e where e: "pte_at ?d v s = Some e" "pte_present e"
    and f: "frame_at s (page_of v) = page_of (push_bit 12 (ucast (pte_page_base e)))"
    using pos translate_eq [OF pe, of ?d ?w] unfolding frame_at_def vmm_get_physical_address_def same
    by (cases "pte_at ?d v s") (auto simp: pte_target_def o page_of_0 simp del: of_nat_mult split: if_splits)
  have b: "unat (pte_page_base e) < 0x100000" using unsigned_less [of "pte_page_base e", where 'a = nat] by simp
  have p: "push_bit 12 (ucast (pte_page_base e) :: u32) = of_nat (unat (pte_page_base e) * 4096)"
    by (simp add: push_bit_eq_mult mult.commute)
  have fb: "frame_at s (page_of v) = unat (pte_page_base e)"
    unfolding f p using b by (rule page_of_of_nat)
  show "user_mapped v s" using e by (simp add: user_mapped_def)
  show "vmm_get_physical_address v s = of_nat (frame_at s (page_of v) * 4096) + PAGE_OFFSET v"
    unfolding vmm_get_physical_address_def translate_eq [OF pe] fb
    using e p by (simp add: pte_target_def)
  show "frame_at s (page_of v) < 0x100000" using fb b by simp
qed

lemma user_memory_eq:
  assumes "user_ok s"
  shows "user_memory s v = (if page_of v \<in> user_pages s
    then Some (phys_pages s (frame_at s (page_of v)) ! (unat v mod 4096)) else None)"
  using user_translation [OF assms, of v] frame_address [of "frame_at s (page_of v)" v]
  by (simp add: user_memory_def user_load_def Let_def del: of_nat_mult)

subsection \<open>Stores\<close>

text \<open>Memory that differs in the contents of the physical pages only.\<close>

definition same_maps :: "memory \<Rightarrow> memory \<Rightarrow> bool" where
  "same_maps s s' \<longleftrightarrow> s' = s\<lparr>phys_pages := phys_pages s'\<rparr>"

lemma same_maps_refl [simp]: "same_maps s s"
  by (simp add: same_maps_def)

lemma same_maps_trans: "same_maps s t \<Longrightarrow> same_maps t u \<Longrightarrow> same_maps s u"
  by (metis (no_types, lifting) same_maps_def memory.surjective memory.update_convs(9))

lemma phys_update_maps:
  "page_used (s\<lparr>phys_pages := P\<rparr>) n = page_used s n"
  "vmm_get_physical_address v (s\<lparr>phys_pages := P\<rparr>) = vmm_get_physical_address v s"
  "frames (s\<lparr>phys_pages := P\<rparr>) = frames s" "mem_inv (s\<lparr>phys_pages := P\<rparr>) = mem_inv s"
  by (simp_all add: page_used_def paging_is_page_used_def vmm_get_physical_address_def
      paging_virtual_to_physical_address_def frames_def mem_inv_def dir_inv_def)

lemma same_maps_simps:
  assumes "same_maps s s'"
  shows "user_pages s' = user_pages s" and "frame_at s' = frame_at s" and "frames s' = frames s"
    and "mem_inv s' = mem_inv s" and "mem_heap s' = mem_heap s"
    and "current_page_directory s' = current_page_directory s"
    and "kernel_page_directory s' = kernel_page_directory s"
proof -
  have e: "s' = s\<lparr>phys_pages := phys_pages s'\<rparr>" using assms by (simp add: same_maps_def)
  show "user_pages s' = user_pages s" "frame_at s' = frame_at s" "frames s' = frames s"
    "mem_inv s' = mem_inv s" "mem_heap s' = mem_heap s"
    "current_page_directory s' = current_page_directory s"
    "kernel_page_directory s' = kernel_page_directory s"
    by (subst e, simp add: user_pages_def frame_at_def phys_update_maps fun_eq_iff)+
qed

lemma user_store_correct:
  assumes ok: "user_ok s" and v: "page_of v \<in> user_pages s"
  shows "returns (user_store v b s) (\<lambda>s'. user_ok s' \<and> same_maps s s' \<and>
    user_memory s' = (user_memory s)(v \<mapsto> b))"
proof -
  let ?f = "frame_at s (page_of v)"
  let ?P = "(phys_pages s)(?f := (phys_pages s ?f)[unat v mod 4096 := b])"
  let ?s = "s\<lparr>phys_pages := ?P\<rparr>"
  note tr = user_translation [OF ok v]
  have st: "user_store v b s = Ret ?s"
    using tr frame_address [OF tr(3), of v]
    by (simp add: user_store_def Let_def del: of_nat_mult)
  have sm: "same_maps s ?s" by (simp add: same_maps_def)
  note m = same_maps_simps [OF sm]
  have ok': "user_ok ?s" using ok unfolding user_ok_def m by auto
  have "user_memory ?s w = ((user_memory s)(v \<mapsto> b)) w" for w
  proof (cases "w = v")
    case True
    have "unat v mod 4096 < length (phys_pages s ?f)" using user_okD(2) [OF ok] by simp
    then show ?thesis using True v unfolding user_memory_eq [OF ok'] m by simp
  next
    case False
    have "page_of w \<noteq> page_of v \<or> unat w mod 4096 \<noteq> unat v mod 4096"
      using False by (metis page_of_def div_mult_mod_eq u32_eq_iff)
    moreover have "frame_at s (page_of w) = ?f \<longleftrightarrow> page_of w = page_of v" if "page_of w \<in> user_pages s"
      using inj_on_eq_iff [OF user_okD(3) [OF ok] that v] .
    ultimately show ?thesis using False unfolding user_memory_eq [OF ok'] user_memory_eq [OF ok] m by auto
  qed
  then have "user_memory ?s = (user_memory s)(v \<mapsto> b)" by (rule ext)
  then show ?thesis using st ok' sm by simp
qed

fun map_write :: "u32 \<Rightarrow> bytes \<Rightarrow> (u32 \<Rightarrow> u8 option) \<Rightarrow> u32 \<Rightarrow> u8 option" where
  "map_write v [] m = m"
| "map_write v (b # bs) m = map_write (v + 1) bs (m(v \<mapsto> b))"

text \<open>Consecutive addresses of user pages.\<close>

definition user_range :: "memory \<Rightarrow> u32 \<Rightarrow> nat \<Rightarrow> bool" where
  "user_range s v n \<longleftrightarrow> (\<forall>i < n. page_of (v + of_nat i) \<in> user_pages s)"

lemma user_range_Suc: "user_range s v (Suc n) \<longleftrightarrow> page_of v \<in> user_pages s \<and> user_range s (v + 1) n"
proof -
  have "(\<forall>i < Suc n. Q i) \<longleftrightarrow> Q 0 \<and> (\<forall>i < n. Q (Suc i))" for Q by (metis less_Suc_eq_0_disj)
  then show ?thesis by (simp add: user_range_def add.assoc)
qed

lemma user_range_0 [simp]: "user_range s v 0"
  by (simp add: user_range_def)

lemma user_range_same: "same_maps s s' \<Longrightarrow> user_range s' v n = user_range s v n"
  by (simp add: user_range_def same_maps_simps)

lemma user_write_correct:
  "user_ok s \<Longrightarrow> user_range s v (length bs) \<Longrightarrow>
   returns (user_write v bs s) (\<lambda>s'. user_ok s' \<and> same_maps s s' \<and>
     user_memory s' = map_write v bs (user_memory s))"
proof (induction bs arbitrary: v s)
  case Nil
  then show ?case by simp
next
  case (Cons b bs)
  have v: "page_of v \<in> user_pages s" and r: "user_range s (v + 1) (length bs)"
    using Cons.prems(2) by (simp_all add: user_range_Suc)
  show ?case
    unfolding user_write.simps
  proof (rule returns_bind [OF user_store_correct [OF Cons.prems(1) v]])
    fix t assume t: "user_ok t \<and> same_maps s t \<and> user_memory t = (user_memory s)(v \<mapsto> b)"
    then have "user_range t (v + 1) (length bs)" using r user_range_same by blast
    with Cons.IH t have "returns (user_write (v + 1) bs t) (\<lambda>s'. user_ok s' \<and> same_maps t s' \<and>
        user_memory s' = map_write (v + 1) bs (user_memory t))" by blast
    then show "returns (user_write (v + 1) bs t) (\<lambda>s'. user_ok s' \<and> same_maps s s' \<and>
        user_memory s' = map_write v (b # bs) (user_memory s))"
      by (rule returns_mono) (use t same_maps_trans in \<open>simp only: map_write.simps, blast\<close>)
  qed
qed

lemma map_write_at:
  assumes "unat v + length bs \<le> 4294967296"
  shows "map_write v bs m w =
    (if unat v \<le> unat w \<and> unat w < unat v + length bs then Some (bs ! (unat w - unat v)) else m w)"
  using assms
proof (induction bs arbitrary: v m)
  case Nil
  then show ?case by auto
next
  case (Cons b bs)
  show ?case
  proof (cases bs)
    case Nil
    then show ?thesis using u32_eq_iff [of v w] by auto
  next
    case (Cons c cs)
    then have u: "unat (v + 1) = unat v + 1" using Cons.prems by (simp add: unat_u32_add_small)
    have "map_write (v + 1) bs (m(v \<mapsto> b)) w =
        (if unat (v + 1) \<le> unat w \<and> unat w < unat (v + 1) + length bs then Some (bs ! (unat w - unat (v + 1)))
         else (m(v \<mapsto> b)) w)"
      by (rule Cons.IH) (use Cons.prems u in simp)
    also have "\<dots> = (if unat v \<le> unat w \<and> unat w < unat v + length (b # bs)
        then Some ((b # bs) ! (unat w - unat v)) else m w)"
      using u32_eq_iff [of v w] unfolding u by (auto simp: nth_Cons')
    finally show ?thesis unfolding map_write.simps .
  qed
qed

lemma user_write_at:
  assumes "user_ok s" and "user_range s v (length bs)" and "unat v + length bs \<le> 4294967296"
  shows "returns (user_write v bs s) (\<lambda>s'. user_ok s' \<and> same_maps s s' \<and>
    (\<forall>w. user_memory s' w = (if unat v \<le> unat w \<and> unat w < unat v + length bs
       then Some (bs ! (unat w - unat v)) else user_memory s w)))"
  by (rule returns_mono [OF user_write_correct [OF assms(1,2)]]) (simp add: map_write_at [OF assms(3)])

lemma user_read_correct:
  "user_ok s \<Longrightarrow> user_range s v n \<Longrightarrow>
   user_read v n s = Ret (map (\<lambda>i. the (user_memory s (v + of_nat i))) [0..<n])"
proof (induction n arbitrary: v)
  case 0
  then show ?case by simp
next
  case (Suc n)
  have v: "page_of v \<in> user_pages s" and r: "user_range s (v + 1) n"
    using Suc.prems(2) by (simp_all add: user_range_Suc)
  have "user_load s v = user_memory s v" "user_load s v = Some (the (user_memory s v))"
    using v user_translation(1) [OF Suc.prems(1) v] by (simp_all add: user_memory_def user_load_def Let_def)
  then have l: "or_fault (user_load s v) = Ret (the (user_memory s v))" by (metis or_simps(3))
  have "map (\<lambda>i. the (user_memory s (v + of_nat i))) [0..<Suc n] =
      the (user_memory s v) # map (\<lambda>i. the (user_memory s (v + 1 + of_nat i))) [0..<n]"
    by (simp add: upt_rec [of 0 "Suc n"] map_Suc_upt [symmetric] add.assoc del: upt_Suc)
  then show ?case using Suc.IH [OF Suc.prems(1) r] by (simp only: user_read.simps l kbind.simps)
qed

subsection \<open>Mapping\<close>

text \<open>
  The pages of a byte range, and what mapping them does to user memory: the pages were not in use
  and are added, or one was and nothing changes; the bytes of the pages in use before stay.
\<close>

definition pages_of :: "u32 \<Rightarrow> u32 \<Rightarrow> nat set" where
  "pages_of va sz = {page_of va..<page_of va + (unat sz + 4095) div 4096}"

definition user_map_result :: "memory \<Rightarrow> u32 \<Rightarrow> u32 \<Rightarrow> u32 \<Rightarrow> memory \<Rightarrow> bool" where
  "user_map_result s va sz a s' \<longleftrightarrow> user_ok s' \<and>
     current_page_directory s' = current_page_directory s \<and>
     kernel_page_directory s' = kernel_page_directory s \<and>
     (if user_pages s \<inter> pages_of va sz = {}
      then a = of_nat (page_of va * 4096) \<and> user_pages s' = user_pages s \<union> pages_of va sz
      else a = 0 \<and> user_pages s' = user_pages s) \<and>
     (\<forall>v. page_of v \<in> user_pages s \<longrightarrow> user_memory s' v = user_memory s v)"

lemma used_in_range:
  assumes "b + c \<le> 0xC0000"
  shows "(\<forall>j < c. \<not> page_used s (b + j)) \<longleftrightarrow> user_pages s \<inter> {b..<b + c} = {}"
proof -
  have "(\<exists>j < c. page_used s (b + j)) \<longleftrightarrow> (\<exists>n \<in> {b..<b + c}. page_used s n)"
    by (metis add.commute add_diff_cancel_left' atLeastLessThan_iff le_add1 le_add_diff_inverse nat_add_left_cancel_less)
  moreover have "user_pages s \<inter> {b..<b + c} = {n \<in> {b..<b + c}. page_used s n}"
    using assms by (auto simp: user_pages_def)
  ultimately show ?thesis by (metis (mono_tags, lifting) Collect_empty_eq)
qed

lemma kept_bytes:
  assumes "user_ok s" and "user_ok s'" and "phys_pages s' = phys_pages s"
    and "user_pages s \<subseteq> user_pages s'" and "\<And>n. n \<in> user_pages s \<Longrightarrow> frame_at s' n = frame_at s n"
    and "page_of v \<in> user_pages s"
  shows "user_memory s' v = user_memory s v"
  using assms by (auto simp: user_memory_eq)

lemma map_user_range:
  assumes ok: "user_ok s" and n: "0 < page_of va"
    and top: "page_of va + (unat sz + 4095) div 4096 \<le> 0xC0000"
    and r: "vmm_map_memory va sz 0 False w s = Ret (a, s')"
  shows "user_map_result s va sz a s'"
proof -
  let ?b = "page_of va" and ?c = "(unat sz + 4095) div 4096"
  note inv = user_okD(1) [OF ok]
  have "unat sz \<le> ?c * 4096" by linarith
  then have "?b * 4096 + unat sz \<le> (?b + ?c) * 4096" by simp
  also have "\<dots> \<le> 0xC0000 * 4096" using top by (rule mult_le_mono1)
  finally have t4: "?b * 4096 + unat sz \<le> 0xFFFFF000" by simp
  have "va \<noteq> 0" using n by (auto simp: page_of_def)
  then have "vmm_map_range va sz 0 False w s = Ret (a, s')" using r by (simp add: vmm_map_memory_def)
  from map_range_correct(2) [OF inv n t4 this] have "map_result s ?b ?c a s'" .
  then consider (mapped) F where "a = of_nat (?b * 4096)" "\<forall>j < ?c. \<not> page_used s (?b + j)" "maps_pages s ?b ?c F s'"
    | (busy) "a = 0" "\<not> (\<forall>j < ?c. \<not> page_used s (?b + j))" "mem_inv s'"
      "current_page_directory s' = current_page_directory s" "kernel_page_directory s' = kernel_page_directory s"
      "phys_pages s' = phys_pages s" "frames s \<subseteq> frames s'"
      "\<forall>m < 0x100000. page_used s' m \<longleftrightarrow> page_used s m"
      "\<forall>v. page_used s (page_of v) \<longrightarrow> vmm_get_physical_address v s' = vmm_get_physical_address v s"
    unfolding map_result_def by blast
  then show ?thesis
  proof cases
    case mapped
    note m = mapped(3) [unfolded maps_pages_def]
    have free: "user_pages s \<inter> pages_of va sz = {}"
      using mapped(2) unfolding used_in_range [OF top] pages_of_def .
    have up: "user_pages s' = user_pages s \<union> pages_of va sz"
      using m top by (auto simp: user_pages_def pages_of_def)
    have old: "frame_at s' k = frame_at s k" if "k \<in> user_pages s" for k
    proof -
      have "k < 0x100000" "\<not> (?b \<le> k \<and> k < ?b + ?c)"
        using that free by (auto simp: user_pages_def pages_of_def)
      then show ?thesis using m page_of_of_nat [of k] by (auto simp: frame_at_def simp del: of_nat_mult)
    qed
    have new: "frame_at s' k = F (k - ?b)" "F (k - ?b) \<in> F ` {..<?c}" "0 < F (k - ?b)" if "k \<in> pages_of va sz" for k
    proof -
      have k: "?b \<le> k" "k < ?b + ?c" "k < 0x100000" using that top by (auto simp: pages_of_def)
      then have j: "k - ?b < ?c" by linarith
      have f: "F (k - ?b) < 0x100000" "0 < F (k - ?b)" using m j by blast+
      show "0 < F (k - ?b)" using f by blast
      show "F (k - ?b) \<in> F ` {..<?c}" using j by blast
      have o: "PAGE_OFFSET (of_nat (k * 4096)) = 0"
        unfolding u32_eq_iff page_offset_unat using k by (subst unat_of_nat_u32) simp_all
      have "vmm_get_physical_address (of_nat (k * 4096)) s' = of_nat (F (k - ?b) * 4096) + 0"
        using m k page_of_of_nat [OF k(3)] o by (simp del: of_nat_mult)
      then show "frame_at s' k = F (k - ?b)"
        using page_of_of_nat [OF f(1)] by (simp add: frame_at_def del: of_nat_mult)
    qed
    have inj: "inj_on (frame_at s') (user_pages s')"
      unfolding up inj_on_Un
    proof (intro conjI)
      show "inj_on (frame_at s') (user_pages s)"
        using user_okD(3) [OF ok] old by (simp cong: inj_on_cong)
      have "inj_on F {..<?c}" using m by blast
      show "inj_on (frame_at s') (pages_of va sz)"
      proof (rule inj_onI)
        fix x y assume xy: "x \<in> pages_of va sz" "y \<in> pages_of va sz" "frame_at s' x = frame_at s' y"
        then have "F (x - ?b) = F (y - ?b)" using new(1) by simp
        moreover have "x - ?b \<in> {..<?c}" "y - ?b \<in> {..<?c}" "?b \<le> x" "?b \<le> y"
          using xy(1,2) unfolding pages_of_def by auto
        ultimately show "x = y" using \<open>inj_on F {..<?c}\<close> by (metis inj_onD eq_diff_iff)
      qed
      have "frame_at s' ` user_pages s \<subseteq> frames s" using user_okD(4) [OF ok] old by auto
      moreover have "frame_at s' ` pages_of va sz \<subseteq> F ` {..<?c}" using new(1,2) by auto
      moreover have "F ` {..<?c} \<inter> frames s = {}" using m by blast
      ultimately show "frame_at s' ` (user_pages s - pages_of va sz) \<inter> frame_at s' ` (pages_of va sz - user_pages s) = {}"
        by (meson Diff_subset disjoint_iff image_mono subset_iff)
    qed
    have ph: "phys_pages s' = phys_pages s" "mem_inv s'" and fr: "frames s' = frames s \<union> F ` {..<?c}"
      using m by blast+
    have "frame_at s' k \<in> frames s' \<and> 0 < frame_at s' k" if "k \<in> user_pages s'" for k
      using that user_okD(4) [OF ok, of k] old [of k] new [of k] unfolding up fr by auto
    then have "user_ok s'"
      unfolding user_ok_def using ph inj user_okD(2) [OF ok] by simp
    moreover have "user_memory s' v = user_memory s v" if "page_of v \<in> user_pages s" for v
      by (rule kept_bytes [OF ok \<open>user_ok s'\<close> _ _ old that]) (use m up in auto)
    ultimately show ?thesis using m free up mapped(1) by (simp add: user_map_result_def)
  next
    case busy
    have bz: "user_pages s \<inter> pages_of va sz \<noteq> {}"
      using busy(2) unfolding used_in_range [OF top] pages_of_def .
    have up: "user_pages s' = user_pages s" using busy(8) by (auto simp: user_pages_def)
    have old: "frame_at s' k = frame_at s k" if "k \<in> user_pages s" for k
    proof -
      have "k < 0x100000" "page_used s k" using that by (auto simp: user_pages_def)
      then show ?thesis using busy(9) page_of_of_nat [of k] by (simp add: frame_at_def del: of_nat_mult)
    qed
    have "user_ok s'" unfolding user_ok_def up
      using busy(3,6,7) user_okD(2,3,4) [OF ok] old by (auto cong: inj_on_cong)
    moreover have "user_memory s' v = user_memory s v" if "page_of v \<in> user_pages s" for v
      by (rule kept_bytes [OF ok \<open>user_ok s'\<close> _ _ old that]) (use busy up in auto)
    ultimately show ?thesis using busy bz up by (simp add: user_map_result_def)
  qed
qed

lemma map_user_memory:
  assumes ok: "user_ok s" and n: "0 < page_of va"
    and top: "page_of va + (unat sz + 4095) div 4096 \<le> 0xC0000"
  shows "proceeds_with (vmm_map_memory va sz 0 False w s) (\<lambda>(a, s'). user_map_result s va sz a s')"
proof -
  let ?b = "page_of va" and ?c = "(unat sz + 4095) div 4096"
  have "unat sz \<le> ?c * 4096" by linarith
  then have "?b * 4096 + unat sz \<le> (?b + ?c) * 4096" by simp
  also have "\<dots> \<le> 0xC0000 * 4096" using top by (rule mult_le_mono1)
  finally have t4: "?b * 4096 + unat sz \<le> 0xFFFFF000" by simp
  have "va \<noteq> 0" using n by (auto simp: page_of_def)
  then show ?thesis using map_range_correct(1) [OF user_okD(1) [OF ok] n t4] map_user_range [OF assms]
    by (auto simp: vmm_map_memory_def proceeds_with_def)
qed

text \<open>The addresses of a mapped range that ends on its last page.\<close>

definition fits_pages :: "u32 \<Rightarrow> u32 \<Rightarrow> bool" where
  "fits_pages va sz \<longleftrightarrow> 0 < page_of va \<and> page_of va + (unat sz + 4095) div 4096 \<le> 0xC0000 \<and>
     unat va mod 4096 + unat sz \<le> (unat sz + 4095) div 4096 * 4096"

lemma fits_pages_end: "fits_pages va sz \<Longrightarrow> unat va + unat sz \<le> 0xC0000000"
proof -
  assume f: "fits_pages va sz"
  let ?c = "(unat sz + 4095) div 4096"
  have v: "unat va = page_of va * 4096 + unat va mod 4096" by (simp add: page_of_def)
  have "(page_of va + ?c) * 4096 \<le> 0xC0000 * 4096"
    using f unfolding fits_pages_def by (intro mult_le_mono1) blast
  then have "page_of va * 4096 + ?c * 4096 \<le> 0xC0000000" by (simp add: add_mult_distrib)
  then show ?thesis using v f unfolding fits_pages_def by linarith
qed

lemma fits_pages_at:
  assumes f: "fits_pages va sz" and i: "i < unat sz"
  shows "page_of (va + of_nat i) \<in> pages_of va sz" and "unat (va + of_nat i) = unat va + i"
proof -
  let ?c = "(unat sz + 4095) div 4096"
  have v: "unat va = page_of va * 4096 + unat va mod 4096" by (simp add: page_of_def)
  have "unat va + i < 4294967296" using fits_pages_end [OF f] i by simp
  then show u: "unat (va + of_nat i) = unat va + i" using i by (subst unat_u32_add_small) auto
  have "unat va + i < (page_of va + ?c) * 4096"
    using v f i unfolding fits_pages_def by (simp only: add_mult_distrib) linarith
  then have "(unat va + i) div 4096 < page_of va + ?c" by (simp add: div_less_iff_less_mult)
  moreover have "page_of va \<le> (unat va + i) div 4096" by (simp add: page_of_def div_le_mono)
  ultimately show "page_of (va + of_nat i) \<in> pages_of va sz" by (simp add: pages_of_def page_of_def u)
qed

text \<open>Bytes written into a mapped range leave the pages in use before it as they were.\<close>

definition writes_range :: "memory \<Rightarrow> u32 \<Rightarrow> nat \<Rightarrow> (nat \<Rightarrow> u8) \<Rightarrow> memory \<Rightarrow> bool" where
  "writes_range s va n f s' \<longleftrightarrow> user_ok s' \<and> same_maps s s' \<and>
     (\<forall>w. user_memory s' w = (if unat va \<le> unat w \<and> unat w < unat va + n
        then Some (f (unat w - unat va)) else user_memory s w))"

lemma writes_range_cong:
  "(\<And>i. i < n \<Longrightarrow> f i = g i) \<Longrightarrow> writes_range s v n f t \<Longrightarrow> writes_range s v n g t"
proof -
  assume e: "\<And>i. i < n \<Longrightarrow> f i = g i" and w: "writes_range s v n f t"
  have "f (unat x - unat v) = g (unat x - unat v)" if "unat v \<le> unat x \<and> unat x < unat v + n" for x :: u32
    using that by (intro e) linarith
  then show "writes_range s v n g t" using w by (simp add: writes_range_def)
qed

lemma user_write_range:
  assumes "user_ok s" and "user_range s v (length bs)" and "unat v + length bs \<le> 4294967296"
  shows "returns (user_write v bs s) (writes_range s v (length bs) (\<lambda>i. bs ! i))"
  by (rule returns_mono [OF user_write_at [OF assms]]) (simp add: writes_range_def)

lemma writes_range_append:
  assumes "writes_range s v n f t" and "writes_range t (v + of_nat n) m g u" and "unat v + n + m \<le> 4294967296"
    and "0 < m"
  shows "writes_range s v (n + m) (\<lambda>i. if i < n then f i else g (i - n)) u"
proof -
  have "n < 4294967296" "unat v + n < 4294967296" using assms(3,4) by simp_all
  then have "unat (v + of_nat n) = unat v + n" by (subst unat_u32_add_small) simp_all
  then show ?thesis using assms(1,2) unfolding writes_range_def
    by (auto intro: same_maps_trans)
qed

lemma writes_range_keeps:
  assumes r: "user_map_result s va sz a s1" and w: "writes_range s1 va (unat sz) f t" and f: "fits_pages va sz"
    and d: "user_pages s \<inter> pages_of va sz = {}" and v: "page_of v \<in> user_pages s"
  shows "user_memory t v = user_memory s v"
proof -
  have "\<not> (unat va \<le> unat v \<and> unat v < unat va + unat sz)"
  proof
    assume b: "unat va \<le> unat v \<and> unat v < unat va + unat sz"
    then have "va + of_nat (unat v - unat va) = v" by (simp add: of_nat_diff)
    moreover have "page_of (va + of_nat (unat v - unat va)) \<in> pages_of va sz"
      using b by (intro fits_pages_at(1) [OF f]) linarith
    ultimately show False using v d by auto
  qed
  then have "user_memory t v = user_memory s1 v" using w unfolding writes_range_def by (metis (no_types, lifting))
  also have "\<dots> = user_memory s v" using r v by (simp add: user_map_result_def)
  finally show ?thesis .
qed

subsection \<open>Strings and words\<close>

definition bytes_at :: "memory \<Rightarrow> u32 \<Rightarrow> bytes \<Rightarrow> bool" where
  "bytes_at s v bs \<longleftrightarrow> (\<forall>i < length bs. user_memory s (v + of_nat i) = Some (bs ! i))"

lemma bytes_at_Cons: "bytes_at s v (b # bs) \<longleftrightarrow> user_memory s v = Some b \<and> bytes_at s (v + 1) bs"
proof -
  have "(\<forall>i < Suc n. Q i) \<longleftrightarrow> Q 0 \<and> (\<forall>i < n. Q (Suc i))" for Q n by (metis less_Suc_eq_0_disj)
  then show ?thesis by (simp add: bytes_at_def add.assoc)
qed

lemma user_load_memory: "user_memory s v = Some b \<Longrightarrow> user_load s v = Some b"
  by (simp add: user_memory_def split: if_splits)

lemma user_cstring_at:
  "c_string a \<Longrightarrow> bytes_at s v (a @ [0]) \<Longrightarrow> length a < n \<Longrightarrow> user_cstring n v s = Ret a"
proof (induction a arbitrary: n v)
  case Nil
  then show ?case by (cases n) (simp_all add: bytes_at_Cons user_load_memory)
next
  case (Cons b a)
  then show ?case by (cases n) (simp_all add: bytes_at_Cons user_load_memory c_string_def)
qed

lemma user_string_at: "c_string a \<Longrightarrow> bytes_at s v (a @ [0]) \<Longrightarrow> length a < 4294967296 \<Longrightarrow> user_string v s = Ret a"
  unfolding user_string_def by (rule user_cstring_at)

lemma user_read_at: "bytes_at s v bs \<Longrightarrow> user_read v (length bs) s = Ret bs"
  by (induction bs arbitrary: v) (simp_all add: bytes_at_Cons user_load_memory)

lemma user_read32_at: "bytes_at s v (enc32 x) \<Longrightarrow> user_read32 v s = Ret x"
  using user_read_at [of s v "enc32 x"] by (simp add: user_read32_def)

text \<open>Bytes outside a written range, and the bytes written.\<close>

lemma bytes_at_outside:
  assumes "writes_range s w n f s'" and "bytes_at s v bs" and "unat v + length bs \<le> 4294967296"
    and "unat v + length bs \<le> unat w \<or> unat w + n \<le> unat v"
  shows "bytes_at s' v bs"
  unfolding bytes_at_def
proof (intro allI impI)
  fix i assume i: "i < length bs"
  then have "unat (v + of_nat i) = unat v + i" using assms(3) by (subst unat_u32_add_small) simp_all
  then have "\<not> (unat w \<le> unat (v + of_nat i) \<and> unat (v + of_nat i) < unat w + n)" using assms(4) i by auto
  then have "user_memory s' (v + of_nat i) = user_memory s (v + of_nat i)"
    using assms(1) unfolding writes_range_def by (metis (no_types, lifting))
  then show "user_memory s' (v + of_nat i) = Some (bs ! i)" using assms(2) i by (simp add: bytes_at_def)
qed

lemma bytes_at_written:
  assumes "writes_range s v (length bs) (\<lambda>i. bs ! i) s'" and "unat v + length bs \<le> 4294967296"
  shows "bytes_at s' v bs"
  unfolding bytes_at_def
proof (intro allI impI)
  fix i assume i: "i < length bs"
  then have "unat (v + of_nat i) = unat v + i" using assms(2) by (subst unat_u32_add_small) simp_all
  then show "user_memory s' (v + of_nat i) = Some (bs ! i)" using assms(1) i by (simp add: writes_range_def)
qed

text \<open>A stretch of one page.\<close>

lemma page_range:
  assumes "page_of lim \<in> user_pages s" and "unat lim mod 4096 = 0"
    and "unat lim \<le> unat v" and "unat v + n \<le> unat lim + 4096"
  shows "user_range s v n" and "unat v + n \<le> 4294967296"
proof -
  have pl: "page_of lim < 0xC0000" using assms(1) by (simp add: user_pages_def)
  have l: "unat lim = page_of lim * 4096" using assms(2) by (simp add: page_of_def mod_0_imp_dvd)
  have "page_of lim * 4096 \<le> 0xBFFFF * 4096" using pl by (intro mult_le_mono1) simp
  then show b: "unat v + n \<le> 4294967296" using l assms(4) by simp
  show "user_range s v n" unfolding user_range_def
  proof (intro allI impI)
    fix i assume i: "i < n"
    then have u: "unat (v + of_nat i) = unat v + i" using b by (subst unat_u32_add_small) simp_all
    have "(unat v + i) div 4096 = page_of lim"
      using l assms(3,4) i by (intro div_nat_eqI) simp_all
    then show "page_of (v + of_nat i) \<in> user_pages s" using assms(1) unfolding page_of_def u by simp
  qed
qed

end
