(* ===== verification/Elf.thy ===== *)
theory Elf
  imports User_Memory
begin

text \<open>
  The loader of executables, \<open>kernel/src/system/elf.c\<close>: the headers of \<open>include/system/elf.h\<close> decoded from the
  bytes of the file, their validation, and the loop that maps every loadable segment into the
  current address space and copies it there. The file is a buffer of the kernel; a header or a
  segment outside it is an access out of bounds (\<open>Fault\<close>).
\<close>

subsection \<open>Headers\<close>

record elf_header =
  e_ident :: bytes
  e_type :: u16
  e_machine :: u16
  e_version :: u32
  e_entry :: u32
  e_phoff :: u32
  e_shoff :: u32
  e_flags :: u32
  e_ehsize :: u16
  e_phentsize :: u16
  e_phnum :: u16
  e_shentsize :: u16
  e_shnum :: u16
  e_shstrndx :: u16

record elf_program_header =
  p_type :: u32
  p_offset :: u32
  p_vaddr :: u32
  p_paddr :: u32
  p_filesz :: u32
  p_memsz :: u32
  p_flags :: u32
  p_align :: u32

definition sizeof_elf_header :: u32 where "sizeof_elf_header = 52"
definition sizeof_elf_program_header :: nat where "sizeof_elf_program_header = 32"
definition ELF_HEADER_MAGIC0 :: u8 where "ELF_HEADER_MAGIC0 = 0x7F"
definition ELF_HEADER_MAGIC1 :: u8 where "ELF_HEADER_MAGIC1 = asc CHR ''E''"
definition ELF_HEADER_MAGIC2 :: u8 where "ELF_HEADER_MAGIC2 = asc CHR ''L''"
definition ELF_HEADER_MAGIC3 :: u8 where "ELF_HEADER_MAGIC3 = asc CHR ''F''"
definition ELF_CLASS_32 :: u8 where "ELF_CLASS_32 = 1"
definition ELF_DATA_LSB :: u8 where "ELF_DATA_LSB = 1"
definition ELF_CURRENT_VERSION :: u8 where "ELF_CURRENT_VERSION = 1"
definition ELF_TYPE_EXEC :: u16 where "ELF_TYPE_EXEC = 2"
definition ELF_MACHINE_X86 :: u16 where "ELF_MACHINE_X86 = 3"
definition ELF_PROGRAM_TYPE_LOAD :: u32 where "ELF_PROGRAM_TYPE_LOAD = 1"
definition ELF_PROGRAM_FLAG_WRITE :: u32 where "ELF_PROGRAM_FLAG_WRITE = 2"

lemmas elf_consts = sizeof_elf_header_def sizeof_elf_program_header_def ELF_HEADER_MAGIC0_def
  ELF_HEADER_MAGIC1_def ELF_HEADER_MAGIC2_def ELF_HEADER_MAGIC3_def ELF_CLASS_32_def ELF_DATA_LSB_def
  ELF_CURRENT_VERSION_def ELF_TYPE_EXEC_def ELF_MACHINE_X86_def ELF_PROGRAM_TYPE_LOAD_def
  ELF_PROGRAM_FLAG_WRITE_def

definition elf_header_of :: "bytes \<Rightarrow> elf_header" where
  "elf_header_of b =
     \<lparr>e_ident = take 16 b, e_type = le16 b 16, e_machine = le16 b 18, e_version = le32 b 20,
      e_entry = le32 b 24, e_phoff = le32 b 28, e_shoff = le32 b 32, e_flags = le32 b 36,
      e_ehsize = le16 b 40, e_phentsize = le16 b 42, e_phnum = le16 b 44, e_shentsize = le16 b 46,
      e_shnum = le16 b 48, e_shstrndx = le16 b 50\<rparr>"

definition elf_program_header_of :: "bytes \<Rightarrow> elf_program_header" where
  "elf_program_header_of b =
     \<lparr>p_type = le32 b 0, p_offset = le32 b 4, p_vaddr = le32 b 8, p_paddr = le32 b 12,
      p_filesz = le32 b 16, p_memsz = le32 b 20, p_flags = le32 b 24, p_align = le32 b 28\<rparr>"

subsection \<open>Validation\<close>

definition elf_is_valid :: "bytes \<Rightarrow> u32 \<Rightarrow> bool" where
  "elf_is_valid data sz =
     (if sz < sizeof_elf_header then False
      else let header = elf_header_of data; ident = e_ident header
           in if ident ! 0 \<noteq> ELF_HEADER_MAGIC0 \<or> ident ! 1 \<noteq> ELF_HEADER_MAGIC1 \<or>
                 ident ! 2 \<noteq> ELF_HEADER_MAGIC2 \<or> ident ! 3 \<noteq> ELF_HEADER_MAGIC3 then False
              else if ident ! 4 \<noteq> ELF_CLASS_32 then False
              else if ident ! 5 \<noteq> ELF_DATA_LSB then False
              else if ident ! 6 \<noteq> ELF_CURRENT_VERSION then False
              else if e_type header \<noteq> ELF_TYPE_EXEC then False
              else if e_machine header \<noteq> ELF_MACHINE_X86 then False
              else True)"

definition elf_get_entry_point :: "bytes \<Rightarrow> u32 \<Rightarrow> u32" where
  "elf_get_entry_point data sz =
     (if \<not> elf_is_valid data sz then 0 else e_entry (elf_header_of data))"

subsection \<open>Loading\<close>

definition elf_load_segment :: "bytes \<Rightarrow> elf_program_header \<Rightarrow> memory \<Rightarrow> (int \<times> memory) kres" where
  "elf_load_segment data ph s =
     (let is_writeable = p_flags ph AND ELF_PROGRAM_FLAG_WRITE \<noteq> 0
      in kbind (vmm_map_memory (p_vaddr ph) (p_memsz ph) 0 False is_writeable s) (\<lambda>(a, s1).
         if a = 0 then Ret (-1, s1)
         else kbind (or_fault (mem_read data (unat (p_offset ph)) (unat (p_filesz ph)))) (\<lambda>bs.
              kbind (user_write (p_vaddr ph) bs s1) (\<lambda>s2.
              if p_filesz ph < p_memsz ph
              then kbind (user_write (p_vaddr ph + p_filesz ph)
                            (replicate (unat (p_memsz ph - p_filesz ph)) 0) s2) (\<lambda>s3. Ret (0, s3))
              else Ret (0, s2)))))"

fun elf_load_segments :: "bytes \<Rightarrow> nat \<Rightarrow> nat \<Rightarrow> memory \<Rightarrow> (int \<times> memory) kres" where
  "elf_load_segments data pos 0 s = Ret (0, s)"
| "elf_load_segments data pos (Suc n) s =
     kbind (or_fault (mem_read data pos sizeof_elf_program_header)) (\<lambda>b.
     let ph = elf_program_header_of b
     in if p_type ph = ELF_PROGRAM_TYPE_LOAD
        then kbind (elf_load_segment data ph s) (\<lambda>(e, s1).
             if e \<noteq> 0 then Ret (-1, s1)
             else elf_load_segments data (pos + sizeof_elf_program_header) n s1)
        else elf_load_segments data (pos + sizeof_elf_program_header) n s)"

definition elf_load :: "bytes \<Rightarrow> u32 \<Rightarrow> memory \<Rightarrow> (int \<times> memory) kres" where
  "elf_load data sz s =
     (if \<not> elf_is_valid data sz then Ret (-1, s)
      else let header = elf_header_of data
           in elf_load_segments data (unat (e_phoff header)) (unat (e_phnum header)) s)"

subsection \<open>The image of a file\<close>

text \<open>
  The loadable segments of a file, and the conditions under which loading one is defined: it lies
  in the file and in the user half of the address space, above page 0, its file part is not
  longer than its memory, and, as \<open>vmm_map_memory\<close> rounds the address down but not the size up, its
  last byte is on the last mapped page.
\<close>

definition elf_program_header_at :: "bytes \<Rightarrow> nat \<Rightarrow> elf_program_header" where
  "elf_program_header_at data pos = elf_program_header_of (take sizeof_elf_program_header (drop pos data))"

definition elf_segments :: "bytes \<Rightarrow> nat \<Rightarrow> nat \<Rightarrow> elf_program_header list" where
  "elf_segments data pos n = filter (\<lambda>ph. p_type ph = ELF_PROGRAM_TYPE_LOAD)
     (map (\<lambda>i. elf_program_header_at data (pos + i * sizeof_elf_program_header)) [0..<n])"

definition segment_pages :: "elf_program_header \<Rightarrow> nat set" where
  "segment_pages ph = pages_of (p_vaddr ph) (p_memsz ph)"

definition segment_ok :: "bytes \<Rightarrow> elf_program_header \<Rightarrow> bool" where
  "segment_ok data ph \<longleftrightarrow> fits_pages (p_vaddr ph) (p_memsz ph) \<and> unat (p_filesz ph) \<le> unat (p_memsz ph) \<and>
     unat (p_offset ph) + unat (p_filesz ph) \<le> length data"

text \<open>Byte \<open>i\<close> of the image of a segment: of the file, or 0.\<close>

definition segment_byte :: "bytes \<Rightarrow> elf_program_header \<Rightarrow> nat \<Rightarrow> u8" where
  "segment_byte data ph i = (if i < unat (p_filesz ph) then data ! (unat (p_offset ph) + i) else 0)"

definition segment_loaded :: "bytes \<Rightarrow> memory \<Rightarrow> elf_program_header \<Rightarrow> bool" where
  "segment_loaded data s ph \<longleftrightarrow>
     (\<forall>i < unat (p_memsz ph). user_memory s (p_vaddr ph + of_nat i) = Some (segment_byte data ph i))"

text \<open>The pages of the segments are disjoint from each other and from those in use.\<close>

fun segments_free :: "nat set \<Rightarrow> elf_program_header list \<Rightarrow> bool" where
  "segments_free used [] = True"
| "segments_free used (ph # phs) =
     (used \<inter> segment_pages ph = {} \<and> segments_free (used \<union> segment_pages ph) phs)"

definition keeps_user :: "memory \<Rightarrow> memory \<Rightarrow> bool" where
  "keeps_user s s' \<longleftrightarrow> user_ok s' \<and> user_pages s \<subseteq> user_pages s' \<and>
     current_page_directory s' = current_page_directory s \<and>
     kernel_page_directory s' = kernel_page_directory s \<and>
     (\<forall>v. page_of v \<in> user_pages s \<longrightarrow> user_memory s' v = user_memory s v)"

lemma keeps_user_refl: "user_ok s \<Longrightarrow> keeps_user s s"
  by (simp add: keeps_user_def)

lemma keeps_user_trans: "keeps_user s t \<Longrightarrow> keeps_user t u \<Longrightarrow> keeps_user s u"
  by (auto simp: keeps_user_def)

text \<open>The copy of a segment into pages that are mapped.\<close>

lemma copy_segment:
  assumes ok: "user_ok s" and r: "user_range s (p_vaddr ph) (unat (p_memsz ph))" and seg: "segment_ok data ph"
  shows "returns (kbind (or_fault (mem_read data (unat (p_offset ph)) (unat (p_filesz ph)))) (\<lambda>bs.
              kbind (user_write (p_vaddr ph) bs s) (\<lambda>s2.
              if p_filesz ph < p_memsz ph
              then kbind (user_write (p_vaddr ph + p_filesz ph)
                            (replicate (unat (p_memsz ph - p_filesz ph)) 0) s2) (\<lambda>s3. Ret (0, s3))
              else Ret (0, s2))))
    (\<lambda>(e, t). e = (0 :: int) \<and> writes_range s (p_vaddr ph) (unat (p_memsz ph)) (segment_byte data ph) t)"
proof -
  let ?v = "p_vaddr ph" and ?n = "unat (p_filesz ph)" and ?m = "unat (p_memsz ph)"
  let ?Q = "\<lambda>(e, t). e = (0 :: int) \<and> writes_range s ?v ?m (segment_byte data ph) t"
  have fm: "?n \<le> ?m" and inb: "unat (p_offset ph) + ?n \<le> length data" and tm: "unat ?v + ?m \<le> 4294967296"
    using seg fits_pages_end [of ?v "p_memsz ph"] unfolding segment_ok_def by auto
  define bs where "bs = take ?n (drop (unat (p_offset ph)) data)"
  have lb: "length bs = ?n" and bn: "\<And>i. i < ?n \<Longrightarrow> bs ! i = data ! (unat (p_offset ph) + i)"
    using inb by (simp_all add: bs_def)
  have rd: "mem_read data (unat (p_offset ph)) ?n = Some bs" using inb by (simp add: mem_read_def bs_def)
  have w1: "returns (user_write ?v bs s) (writes_range s ?v ?n (\<lambda>i. bs ! i))"
    using user_write_range [OF ok, of ?v bs] r fm tm by (simp add: lb user_range_def)
  show ?thesis
    unfolding rd or_simps kbind.simps
  proof (rule returns_bind [OF w1])
    fix s2 assume w: "writes_range s ?v ?n (\<lambda>i. bs ! i) s2"
    show "returns (if p_filesz ph < p_memsz ph
        then kbind (user_write (?v + p_filesz ph) (replicate (unat (p_memsz ph - p_filesz ph)) 0) s2) (\<lambda>s3. Ret (0, s3))
        else Ret (0, s2)) ?Q"
    proof (cases "p_filesz ph < p_memsz ph")
      case False
      then have "?n = ?m" using fm by (simp add: u32_less_iff)
      moreover have "writes_range s ?v ?n (segment_byte data ph) s2"
        by (rule writes_range_cong [OF _ w]) (simp add: bn segment_byte_def)
      ultimately show ?thesis using False by simp
    next
      case True
      let ?z = "replicate (unat (p_memsz ph - p_filesz ph)) (0 :: u8)"
      have lz: "length ?z = ?m - ?n" "0 < ?m - ?n" using True by (simp_all add: unat_u32_sub u32_less_iff u32_le_iff)
      have vf: "?v + p_filesz ph = ?v + of_nat ?n" by simp
      have uv: "unat (?v + of_nat ?n) = unat ?v + ?n" using tm lz(2) fm by (subst unat_u32_add_small) simp_all
      have "page_of (?v + of_nat ?n + of_nat i) \<in> user_pages s2" if "i < ?m - ?n" for i
      proof -
        have "?n + i < ?m" using that by linarith
        then have "page_of (?v + of_nat (?n + i)) \<in> user_pages s" using r unfolding user_range_def by blast
        then show ?thesis using w same_maps_simps(1) [of s s2] by (simp add: writes_range_def add.assoc)
      qed
      then have "user_range s2 (?v + of_nat ?n) (length ?z)" unfolding user_range_def lz by blast
      then have w2: "returns (user_write (?v + of_nat ?n) ?z s2) (writes_range s2 (?v + of_nat ?n) (?m - ?n) (\<lambda>i. ?z ! i))"
        using user_write_range [of s2 "?v + of_nat ?n" ?z] w uv tm fm unfolding lz by (simp add: writes_range_def)
      have "writes_range s ?v ?m (segment_byte data ph) s3"
        if w3: "writes_range s2 (?v + of_nat ?n) (?m - ?n) (\<lambda>i. ?z ! i) s3" for s3
      proof -
        have "?n + (?m - ?n) = ?m" using fm by simp
        moreover have "unat ?v + ?n + (?m - ?n) \<le> 4294967296" using tm fm by simp
        ultimately have "writes_range s ?v ?m (\<lambda>i. if i < ?n then bs ! i else ?z ! (i - ?n)) s3"
          using writes_range_append [OF w w3 _ lz(2)] by simp
        moreover have "(if i < ?n then bs ! i else ?z ! (i - ?n)) = segment_byte data ph i" if "i < ?m" for i
          using that bn lz(1) fm by (auto simp: segment_byte_def)
        ultimately show ?thesis by (intro writes_range_cong [of ?m _ "segment_byte data ph"])
      qed
      then show ?thesis unfolding if_P [OF True] vf by (intro returns_bind [OF w2]) simp
    qed
  qed
qed

lemma load_segment_correct:
  assumes ok: "user_ok s" and seg: "segment_ok data ph"
  shows "proceeds_with (elf_load_segment data ph s) (\<lambda>(e, s'). keeps_user s s' \<and>
    (if user_pages s \<inter> segment_pages ph = {}
     then e = 0 \<and> user_pages s' = user_pages s \<union> segment_pages ph \<and> segment_loaded data s' ph
     else e = -1))"
proof -
  let ?v = "p_vaddr ph" and ?sz = "p_memsz ph"
  have f: "fits_pages ?v ?sz" using seg by (simp add: segment_ok_def)
  then have n: "0 < page_of ?v" and top: "page_of ?v + (unat ?sz + 4095) div 4096 \<le> 0xC0000"
    by (simp_all add: fits_pages_def)
  show ?thesis
    unfolding elf_load_segment_def Let_def
  proof (rule proceeds_with_bind [OF map_user_memory [OF ok n top]], clarify)
    fix a s1 assume r: "user_map_result s ?v ?sz a s1"
    note m = r [unfolded user_map_result_def]
    show "proceeds_with (if a = 0 then Ret (-1 :: int, s1)
         else kbind (or_fault (mem_read data (unat (p_offset ph)) (unat (p_filesz ph)))) (\<lambda>bs.
              kbind (user_write ?v bs s1) (\<lambda>s2.
              if p_filesz ph < ?sz
              then kbind (user_write (?v + p_filesz ph) (replicate (unat (?sz - p_filesz ph)) 0) s2)
                     (\<lambda>s3. Ret (0, s3))
              else Ret (0, s2))))
      (\<lambda>(e, s'). keeps_user s s' \<and>
        (if user_pages s \<inter> segment_pages ph = {}
         then e = 0 \<and> user_pages s' = user_pages s \<union> segment_pages ph \<and> segment_loaded data s' ph
         else e = -1))"
    proof (cases "user_pages s \<inter> segment_pages ph = {}")
      case False
      then show ?thesis using m by (auto simp: segment_pages_def keeps_user_def)
    next
      case True
      then have d: "user_pages s \<inter> pages_of ?v ?sz = {}" by (simp add: segment_pages_def)
      have a0: "a \<noteq> 0" and up: "user_pages s1 = user_pages s \<union> pages_of ?v ?sz"
        using m d n page_of_less [of ?v] by (auto simp: of_nat_u32_eq_0_iff simp del: of_nat_mult)
      have ru: "user_range s1 ?v (unat ?sz)"
        unfolding user_range_def up using fits_pages_at(1) [OF f] by blast
      have "keeps_user s t \<and> user_pages t = user_pages s \<union> segment_pages ph \<and> segment_loaded data t ph"
        if w: "writes_range s1 ?v (unat ?sz) (segment_byte data ph) t" for t
      proof -
        have t: "user_ok t" "same_maps s1 t" using w by (simp_all add: writes_range_def)
        note sm = same_maps_simps [OF t(2)]
        have "segment_loaded data t ph"
          unfolding segment_loaded_def using w fits_pages_at(2) [OF f] by (simp add: writes_range_def)
        then show ?thesis using t sm up m writes_range_keeps [OF r w f d]
          by (simp add: keeps_user_def segment_pages_def)
      qed
      then have Q: "(\<lambda>(e, t). e = 0 \<and> writes_range s1 ?v (unat ?sz) (segment_byte data ph) t) x \<Longrightarrow>
          (case x of (e, s') \<Rightarrow> keeps_user s s' \<and> (e = (0 :: int) \<and>
             user_pages s' = user_pages s \<union> segment_pages ph \<and> segment_loaded data s' ph))" for x
        by (cases x) auto
      have ok1: "user_ok s1" using m by blast
      show ?thesis
        unfolding if_not_P [OF a0] if_P [OF True]
        by (rule proceeds_with_mono, rule returns_proceeds, rule copy_segment [OF ok1 ru seg]) (rule Q)
    qed
  qed
qed

text \<open>The loop: every loadable header in turn, until one does not fit.\<close>

lemma elf_segments_Suc:
  "elf_segments data pos (Suc n) =
    (let ph = elf_program_header_at data pos
     in if p_type ph = ELF_PROGRAM_TYPE_LOAD
        then ph # elf_segments data (pos + sizeof_elf_program_header) n
        else elf_segments data (pos + sizeof_elf_program_header) n)"
proof -
  have "map (\<lambda>i. elf_program_header_at data (pos + i * sizeof_elf_program_header)) [0..<Suc n] =
      elf_program_header_at data pos #
      map (\<lambda>i. elf_program_header_at data (pos + sizeof_elf_program_header + i * sizeof_elf_program_header)) [0..<n]"
    by (simp add: upt_rec [of 0 "Suc n"] map_Suc_upt [symmetric] add.assoc del: upt_Suc)
  then show ?thesis by (simp add: elf_segments_def Let_def)
qed

lemma segment_loaded_keeps:
  assumes "keeps_user s s'" and "segment_loaded data s ph" and "fits_pages (p_vaddr ph) (p_memsz ph)"
    and "segment_pages ph \<subseteq> user_pages s"
  shows "segment_loaded data s' ph"
  unfolding segment_loaded_def
proof (intro allI impI)
  fix i assume i: "i < unat (p_memsz ph)"
  then have "page_of (p_vaddr ph + of_nat i) \<in> user_pages s"
    using fits_pages_at(1) [OF assms(3)] assms(4) unfolding segment_pages_def by blast
  then show "user_memory s' (p_vaddr ph + of_nat i) = Some (segment_byte data ph i)"
    using assms(1,2) i by (simp add: keeps_user_def segment_loaded_def)
qed

lemma load_segments_correct:
  "user_ok s \<Longrightarrow> pos + n * sizeof_elf_program_header \<le> length data \<Longrightarrow>
   \<forall>ph \<in> set (elf_segments data pos n). segment_ok data ph \<Longrightarrow>
   proceeds_with (elf_load_segments data pos n s) (\<lambda>(e, s'). keeps_user s s' \<and>
     (if segments_free (user_pages s) (elf_segments data pos n)
      then e = 0 \<and> (\<forall>ph \<in> set (elf_segments data pos n). segment_loaded data s' ph) \<and>
        user_pages s' = user_pages s \<union> (\<Union>ph \<in> set (elf_segments data pos n). segment_pages ph)
      else e = -1))"
proof (induction n arbitrary: pos s)
  case 0
  then show ?case by (simp add: elf_segments_def keeps_user_refl)
next
  case (Suc n)
  let ?pos = "pos + sizeof_elf_program_header"
  define ph where "ph = elf_program_header_at data pos"
  define segs where "segs = elf_segments data ?pos n"
  have len: "?pos + n * sizeof_elf_program_header \<le> length data" using Suc.prems(2) by simp
  then have rd: "or_fault (mem_read data pos sizeof_elf_program_header) =
      Ret (take sizeof_elf_program_header (drop pos data))" by (simp add: mem_read_def)
  have ph': "elf_program_header_of (take sizeof_elf_program_header (drop pos data)) = ph"
    by (simp add: ph_def elf_program_header_at_def)
  have sg: "elf_segments data pos (Suc n) =
      (if p_type ph = ELF_PROGRAM_TYPE_LOAD then ph # segs else segs)"
    by (simp add: elf_segments_Suc Let_def ph_def segs_def)
  have ok: "\<forall>ph \<in> set segs. segment_ok data ph" using Suc.prems(3) unfolding sg by (auto split: if_splits)
  note IH = Suc.IH [OF _ len ok [unfolded segs_def], folded segs_def]
  show ?case
  proof (cases "p_type ph = ELF_PROGRAM_TYPE_LOAD")
    case False
    then show ?thesis using IH [OF Suc.prems(1)] unfolding sg
      by (simp only: elf_load_segments.simps rd kbind.simps Let_def ph' if_False)
  next
    case True
    have so: "segment_ok data ph" using Suc.prems(3) True unfolding sg by simp
    have fp: "fits_pages (p_vaddr ph) (p_memsz ph)" using so by (simp add: segment_ok_def)
    show ?thesis
      unfolding elf_load_segments.simps rd kbind.simps Let_def ph' sg if_P [OF True]
    proof (rule proceeds_with_bind [OF load_segment_correct [OF Suc.prems(1) so]], clarify)
      fix e :: int and s1
      assume k: "keeps_user s s1" and r: "if user_pages s \<inter> segment_pages ph = {}
        then e = 0 \<and> user_pages s1 = user_pages s \<union> segment_pages ph \<and> segment_loaded data s1 ph
        else e = -1"
      show "proceeds_with (if e \<noteq> 0 then Ret (-1, s1) else elf_load_segments data ?pos n s1)
        (\<lambda>(e, s'). keeps_user s s' \<and>
          (if segments_free (user_pages s) (ph # segs)
           then e = 0 \<and> (\<forall>ph \<in> set (ph # segs). segment_loaded data s' ph) \<and>
             user_pages s' = user_pages s \<union> (\<Union>ph \<in> set (ph # segs). segment_pages ph)
           else e = -1))"
      proof (cases "user_pages s \<inter> segment_pages ph = {}")
        case False
        then show ?thesis using r k by simp
      next
        case free: True
        then have e0: "e = 0" and up: "user_pages s1 = user_pages s \<union> segment_pages ph"
          and l1: "segment_loaded data s1 ph" using r by simp_all
        have ok1: "user_ok s1" using k by (simp add: keeps_user_def)
        have l2: "segment_loaded data s2 ph" if "keeps_user s1 s2" for s2
          using segment_loaded_keeps [OF that l1 fp] up by blast
        show ?thesis
          unfolding e0 if_not_P [OF not_not [THEN iffD2, OF refl]]
        proof (rule proceeds_with_mono [OF IH [OF ok1]], clarify)
          fix f :: int and s2
          assume k2: "keeps_user s1 s2" and q: "if segments_free (user_pages s1) segs
            then f = 0 \<and> (\<forall>ph \<in> set segs. segment_loaded data s2 ph) \<and>
              user_pages s2 = user_pages s1 \<union> (\<Union>ph \<in> set segs. segment_pages ph)
            else f = -1"
          then show "keeps_user s s2 \<and> (if segments_free (user_pages s) (ph # segs)
            then f = 0 \<and> (\<forall>ph \<in> set (ph # segs). segment_loaded data s2 ph) \<and>
              user_pages s2 = user_pages s \<union> (\<Union>ph \<in> set (ph # segs). segment_pages ph)
            else f = -1)"
            using keeps_user_trans [OF k k2] l2 [OF k2] free unfolding up by (simp add: Un_assoc split: if_splits)
        qed
      qed
    qed
  qed
qed

subsection \<open>The properties\<close>

lemma small_memory_user: "user_ok small_memory" "user_pages small_memory = {}"
proof -
  show e: "user_pages small_memory = {}" using small_memory_unused by (simp add: user_pages_def)
  show "user_ok small_memory"
    unfolding user_ok_def e using small_memory_inv by (simp add: small_memory_def)
qed

text \<open>A file with one segment: three bytes of the file at 0x1000, followed by a zero byte.\<close>

definition small_elf :: bytes where
  "small_elf =
     [0x7F, 0x45, 0x4C, 0x46, 1, 1, 1, 0, 0, 0, 0, 0, 0, 0, 0, 0] @
     [2, 0, 3, 0, 1, 0, 0, 0, 0, 0x10, 0, 0, 52, 0, 0, 0, 0, 0, 0, 0, 0, 0, 0, 0] @
     [52, 0, 32, 0, 1, 0, 0, 0, 0, 0, 0, 0] @
     [1, 0, 0, 0, 84, 0, 0, 0, 0, 0x10, 0, 0, 0, 0x10, 0, 0] @
     [3, 0, 0, 0, 4, 0, 0, 0, 7, 0, 0, 0, 0, 0x10, 0, 0] @ [0xEB, 0xFE, 0x90]"

lemma small_elf_simps:
  "length small_elf = 87" "elf_is_valid small_elf 87" "e_phoff (elf_header_of small_elf) = 52"
  "e_phnum (elf_header_of small_elf) = 1" "e_entry (elf_header_of small_elf) = 0x1000"
  "elf_program_header_at small_elf 52 = \<lparr>p_type = 1, p_offset = 84, p_vaddr = 0x1000, p_paddr = 0x1000,
     p_filesz = 3, p_memsz = 4, p_flags = 7, p_align = 0x1000\<rparr>"
  by (simp_all add: small_elf_def elf_is_valid_def elf_header_of_def elf_program_header_at_def
      elf_program_header_of_def elf_consts le16_def le32_def asc_def)

lemma small_memory_user_map:
  "\<exists>s'. vmm_map_page 0x1000 0 False True small_memory = Ret (0x1000, s')"
proof -
  obtain p where p: "pmm_alloc_frame small_pmm = Some (0x2000, p)" using small_memory_frame by blast
  have "\<exists>t h. kmalloc_a 4096 fresh_heap = Ret (t, h) \<and> t \<noteq> 0"
    by (simp add: kmalloc_a_def kmalloc_int_def kmalloc_heap_def fresh_heap_def
      blank_heap_def kheap_find_best_fit.simps kheap_consider_def kheap_carve_block_def Let_def
      VMM_IS_ALIGNED_def VMM_ALIGN_UP_def heap_consts kheap_align_block_def)
  then obtain t h where t: "kmalloc_a 4096 fresh_heap = Ret (t, h)" "t \<noteq> 0" by blast
  have "\<not> paging_is_page_used 0x500 0x1000 small_memory"
    by (simp add: paging_is_page_used_def small_memory_def)
  then show ?thesis using p t
    by (simp add: vmm_map_page_def vmm_map_free_page_def vmm_get_frame_def paging_map_page_def
        paging_get_table_def small_memory_def Let_def vmm_consts sizeof_page_table_def)
qed

lemma small_memory_mapped:
  "\<exists>s1. vmm_map_memory 0x1000 4 0 False True small_memory = Ret (0x1000, s1) \<and> user_ok s1 \<and> user_pages s1 = {1}"
proof -
  obtain s1 where pg: "vmm_map_page 0x1000 0 False True small_memory = Ret (0x1000, s1)"
    using small_memory_user_map by blast
  have mm: "vmm_map_memory 0x1000 4 0 False True small_memory = Ret (0x1000, s1)"
    by (simp add: vmm_map_memory_def vmm_map_range_def VMM_ALIGN_DOWN_def PAGE_SIZE_def Let_def vmm_map_pages.simps pg)
  have r: "user_map_result small_memory 0x1000 4 0x1000 s1"
    by (rule map_user_range [OF small_memory_user(1) _ _ mm]) (simp_all add: page_of_def)
  then have "user_ok s1" "user_pages s1 = {1}"
    by (auto simp: user_map_result_def small_memory_user pages_of_def page_of_def)
  then show ?thesis using mm by blast
qed



end
