(* ===== verification/CString.thy ===== *)
theory CString
  imports Prelude "HOL-Library.Sublist"
begin

text \<open>
  The string and memory functions of \<open>kernel/src/util/string.c\<close> (the C library has the same
  code in \<open>libc/src/string\<close>).

  A pointer is the list of bytes from the address it points to up to the end of its object. A
  read or write past the end of the object is \<open>None\<close>. \<open>char\<close> is signed on the target.
\<close>

subsection \<open>Memory functions\<close>

fun memcmp :: "bytes \<Rightarrow> bytes \<Rightarrow> nat \<Rightarrow> int option" where
  "memcmp (a # s1) (b # s2) n =
     (if a = b \<and> 0 < n then memcmp s1 s2 (n - 1)
      else if n = 0 then Some 0
      else Some (uint a - uint b))"
| "memcmp s1 s2 n = None"

fun memcpy :: "bytes \<Rightarrow> bytes \<Rightarrow> nat \<Rightarrow> bytes option" where
  "memcpy d s 0 = Some d"
| "memcpy (x # d) (c # s) (Suc n) = map_option ((#) c) (memcpy d s n)"
| "memcpy d s (Suc n) = None"

fun memset :: "bytes \<Rightarrow> u8 \<Rightarrow> nat \<Rightarrow> bytes option" where
  "memset d ch 0 = Some d"
| "memset (x # d) ch (Suc n) = map_option ((#) ch) (memset d ch n)"
| "memset [] ch (Suc n) = None"

fun memsetw :: "bytes \<Rightarrow> u16 \<Rightarrow> nat \<Rightarrow> bytes option" where
  "memsetw d v 0 = Some d"
| "memsetw (x # y # d) v (Suc n) =
     map_option (\<lambda>r. ucast v # ucast (drop_bit 8 v) # r) (memsetw d v n)"
| "memsetw d v (Suc n) = None"

subsection \<open>Strings\<close>

fun strlen :: "bytes \<Rightarrow> u32 option" where
  "strlen [] = None"
| "strlen (c # s) = (if c = 0 then Some 0 else map_option ((+) 1) (strlen s))"

fun strcmp :: "bytes \<Rightarrow> bytes \<Rightarrow> int option" where
  "strcmp (a # s1) (b # s2) =
     (if a \<noteq> 0 \<and> a = b then strcmp s1 s2 else Some (uint a - uint b))"
| "strcmp s1 s2 = None"

fun strncmp :: "bytes \<Rightarrow> bytes \<Rightarrow> nat \<Rightarrow> int option" where
  "strncmp s1 s2 0 = Some 0"
| "strncmp (a # s1) (b # s2) (Suc n) =
     (if a \<noteq> b then Some (sint a - sint b)
      else if a = 0 then Some 0
      else strncmp s1 s2 n)"
| "strncmp s1 s2 (Suc n) = None"

fun strcpy :: "bytes \<Rightarrow> bytes \<Rightarrow> bytes option" where
  "strcpy (x # d) (c # s) = (if c = 0 then Some (0 # d) else map_option ((#) c) (strcpy d s))"
| "strcpy d s = None"

fun strncpy :: "bytes \<Rightarrow> bytes \<Rightarrow> nat \<Rightarrow> bytes option" where
  "strncpy d s 0 = Some d"
| "strncpy (x # d) (c # s) (Suc n) =
     (if c \<noteq> 0 then map_option ((#) c) (strncpy d s n) else memset (x # d) 0 (Suc n))"
| "strncpy d s (Suc n) = None"

definition strcat :: "bytes \<Rightarrow> bytes \<Rightarrow> bytes option" where
  "strcat dest src =
     (case (strlen dest, strlen src) of
        (Some dest_len, Some src_len) \<Rightarrow>
          mem_write dest (unat dest_len) (take (unat src_len) src @ [0])
      | _ \<Rightarrow> None)"

fun accepts :: "u8 \<Rightarrow> bytes \<Rightarrow> bool option" where
  "accepts c [] = None"
| "accepts c (a # as) = (if a = 0 then Some False else if c = a then Some True else accepts c as)"

fun strpbrk :: "bytes \<Rightarrow> bytes \<Rightarrow> nat option option" where
  "strpbrk [] accept = None"
| "strpbrk (c # s) accept =
     (if c = 0 then Some None
      else case accepts c accept of
             None \<Rightarrow> None
           | Some True \<Rightarrow> Some (Some 0)
           | Some False \<Rightarrow> map_option (map_option Suc) (strpbrk s accept))"

text \<open>\<open>strsep\<close> on a buffer: the position is \<open>*stringp\<close>; the result is the token, the new position
  and the buffer.\<close>

definition strsep :: "bytes \<Rightarrow> nat option \<Rightarrow> bytes \<Rightarrow> (nat option \<times> nat option \<times> bytes) option" where
  "strsep buf stringp delim =
     (case stringp of
        None \<Rightarrow> Some (None, None, buf)
      | Some start \<Rightarrow>
          (case strpbrk (drop start buf) delim of
             None \<Rightarrow> None
           | Some None \<Rightarrow> Some (Some start, None, buf)
           | Some (Some k) \<Rightarrow> Some (Some start, Some (start + k + 1), buf[start + k := 0])))"

function strrev_loop :: "bytes \<Rightarrow> nat \<Rightarrow> nat \<Rightarrow> bytes" where
  "strrev_loop buf i j =
     (if i < j then strrev_loop (buf[i := buf ! j, j := buf ! i]) (i + 1) (j - 1) else buf)"
  by pat_completeness auto
termination by (relation "measure (\<lambda>(buf, i, j). j - i)") auto

declare strrev_loop.simps [simp del]

definition strrev :: "bytes \<Rightarrow> bytes option" where
  "strrev buf =
     (case strlen buf of
        None \<Rightarrow> None
      | Some len \<Rightarrow> Some (if len = 0 then buf else strrev_loop buf 0 (unat len - 1)))"

subsection \<open>Contents of strings\<close>

text \<open>\<open>buf\<close> holds the string \<open>s\<close>.\<close>

definition holds :: "bytes \<Rightarrow> bytes \<Rightarrow> bool" where
  "holds buf s \<longleftrightarrow> c_string s \<and> (\<exists>rest. buf = s @ 0 # rest)"

definition cstr_at :: "bytes \<Rightarrow> nat \<Rightarrow> bytes" where
  "cstr_at buf i = takeWhile (\<lambda>c. c \<noteq> 0) (drop i buf)"

lemma takeWhile_stop: "0 \<notin> set s \<Longrightarrow> takeWhile (\<lambda>c. c \<noteq> 0) (s @ (0 :: u8) # r) = s"
  by (induction s) auto

lemma holds_Nil [simp]: "holds (c # buf) [] \<longleftrightarrow> c = 0"
  by (auto simp: holds_def c_string_def)

lemma holds_Cons [simp]: "holds (c # buf) (x # s) \<longleftrightarrow> c = x \<and> x \<noteq> 0 \<and> holds buf s"
  by (auto simp: holds_def c_string_def)

lemma holds_nonempty [simp]: "\<not> holds [] s"
  by (simp add: holds_def)

lemma holds_cstr: "holds buf s \<Longrightarrow> cstr_at buf 0 = s"
  by (auto simp: holds_def cstr_at_def c_string_def intro: takeWhile_stop)

lemma strlen_holds: "holds buf s \<Longrightarrow> strlen buf = Some (of_nat (length s))"
proof (induction s arbitrary: buf)
  case Nil
  then show ?case by (cases buf) auto
next
  case (Cons c s)
  then show ?case by (cases buf) auto
qed

lemma strcmp_holds:
  "holds b1 s \<Longrightarrow> holds b2 t \<Longrightarrow>
     \<exists>d. strcmp b1 b2 = Some d \<and> (d = 0 \<longleftrightarrow> s = t) \<and> (d < 0 \<longleftrightarrow> (s, t) \<in> lexord {(a, b). a < b})"
proof (induction s arbitrary: t b1 b2)
  case Nil
  then obtain b1' c b2' where b: "b1 = 0 # b1'" "b2 = c # b2'" by (cases b1; cases b2) auto
  show ?case
  proof (cases t)
    case Nil
    then show ?thesis using b \<open>holds b2 t\<close> by simp
  next
    case (Cons x t')
    then have "c = x" "x \<noteq> 0" using b Nil.prems by auto
    then show ?thesis using b Cons by (simp add: word_uint_eq_iff) (metis uint_ge_0 le_neq_trans)
  qed
next
  case (Cons a s)
  then obtain b1' c b2' where b: "b1 = a # b1'" "a \<noteq> 0" "holds b1' s" "b2 = c # b2'"
    by (cases b1; cases b2) auto
  show ?case
  proof (cases t)
    case Nil
    then have "c = 0" using b Cons.prems by simp
    then show ?thesis using b Nil by (simp add: word_uint_eq_iff)
  next
    case (Cons x t')
    then have c: "c = x" "x \<noteq> 0" "holds b2' t'" using b Cons.prems by auto
    show ?thesis
    proof (cases "a = x")
      case True
      then show ?thesis using Cons.IH [OF b(3) c(3)] b c Cons by auto
    next
      case False
      then show ?thesis using b c Cons by (auto simp: word_less_def word_uint_eq_iff)
    qed
  qed
qed

lemma strcpy_holds:
  "holds src s \<Longrightarrow> length s < length dest \<Longrightarrow>
     strcpy dest src = Some (s @ 0 # drop (Suc (length s)) dest)"
proof (induction s arbitrary: dest src)
  case Nil
  then show ?case by (cases src; cases dest) auto
next
  case (Cons c s)
  then show ?case by (cases src; cases dest) auto
qed

lemma strcpy_overflow: "holds src s \<Longrightarrow> length dest \<le> length s \<Longrightarrow> strcpy dest src = None"
proof (induction s arbitrary: dest src)
  case Nil
  then show ?case by simp
next
  case (Cons c s)
  then show ?case by (cases src; cases dest) auto
qed

lemma strcat_holds:
  assumes "holds dest s" and "holds src t" and "length s + length t < length dest"
    and "length dest < 0x100000000" and "length t < 0x100000000"
  shows "strcat dest src = Some (s @ t @ 0 # drop (Suc (length s + length t)) dest)"
proof -
  obtain r q where r: "dest = s @ 0 # r" "src = t @ 0 # q" using assms by (auto simp: holds_def)
  then show ?thesis using assms strlen_holds [OF assms(1)] strlen_holds [OF assms(2)]
    by (simp add: strcat_def mem_write_def)
qed

lemma memcpy_eq: "n \<le> length d \<Longrightarrow> n \<le> length s \<Longrightarrow> memcpy d s n = Some (take n s @ drop n d)"
proof (induction d s n rule: memcpy.induct)
  case (2 x d c s n)
  then show ?case by simp
qed auto

lemma memset_eq: "n \<le> length d \<Longrightarrow> memset d ch n = Some (replicate n ch @ drop n d)"
  by (induction d ch n rule: memset.induct) auto

lemma strncpy_holds:
  "holds src s \<Longrightarrow> n \<le> length dest \<Longrightarrow>
     strncpy dest src n = Some (take n (s @ replicate n 0) @ drop n dest)"
proof (induction dest src n arbitrary: s rule: strncpy.induct)
  case (2 x d c src n)
  show ?case
  proof (cases s)
    case Nil
    have "take (Suc n) (replicate (Suc n) 0) = replicate (Suc n) (0 :: u8)" by simp
    then show ?thesis using 2 memset_eq [of "Suc n" "x # d" 0] Nil by auto
  next
    case (Cons y s')
    then have "strncpy d src n = Some (take n (s' @ replicate n 0) @ drop n d)"
      using 2 by auto
    moreover have "take n (s' @ replicate n 0) = take n (s' @ replicate (Suc n) 0)"
      by (simp add: min_def del: replicate_Suc)
    ultimately show ?thesis using 2 Cons by simp
  qed
qed auto

lemma strrev_loop_rev:
  "i + k = j + 1 \<Longrightarrow> length ys = k \<Longrightarrow> i = length xs \<Longrightarrow>
   strrev_loop (xs @ ys @ zs) i j = xs @ rev ys @ zs"
proof (induction k arbitrary: i j xs ys zs rule: less_induct)
  case (less k)
  show ?case
  proof (cases "i < j")
    case False
    then have "k \<le> 1" using less.prems by simp
    then have "rev ys = ys" using less.prems(2) by (cases ys) auto
    then show ?thesis using False by (simp add: strrev_loop.simps)
  next
    case True
    then have "2 \<le> length ys" using less.prems by simp
    then obtain a t where t: "ys = a # t" "t \<noteq> []" by (cases ys) (force simp: Suc_le_eq)+
    then obtain m b where "t = m @ [b]" by (cases t rule: rev_cases) auto
    then have ys: "ys = a # m @ [b]" using t by simp
    have j: "j = length xs + Suc (length m)" using less.prems ys by simp
    have upd: "(xs @ ys @ zs)[i := (xs @ ys @ zs) ! j, j := (xs @ ys @ zs) ! i] =
        (xs @ [b]) @ m @ a # zs"
      unfolding ys less.prems(3) j by (simp add: list_update_append nth_append)
    have "strrev_loop ((xs @ [b]) @ m @ a # zs) (i + 1) (j - 1) = (xs @ [b]) @ rev m @ a # zs"
      using less.IH [of "length m" "i + 1" "j - 1" m "xs @ [b]" "a # zs"] less.prems ys j by simp
    then have "strrev_loop (xs @ ys @ zs) i j = (xs @ [b]) @ rev m @ a # zs"
      unfolding strrev_loop.simps [of "xs @ ys @ zs" i j] upd using True by simp
    then show ?thesis using ys by simp
  qed
qed

lemma strrev_holds:
  assumes "holds buf s" and "length s < 0x100000000"
  shows "strrev buf = Some (rev s @ drop (length s) buf)"
proof -
  obtain r where b: "buf = s @ 0 # r" using assms(1) by (auto simp: holds_def)
  show ?thesis
  proof (cases "s = []")
    case True
    then show ?thesis using b by (simp add: strrev_def)
  next
    case False
    then have "strrev_loop ([] @ s @ 0 # r) 0 (length s - 1) = [] @ rev s @ 0 # r"
      by (intro strrev_loop_rev [of _ "length s"]) (auto simp: Suc_le_eq)
    then show ?thesis using strlen_holds [OF assms(1)] assms(2) False
      by (simp add: strrev_def b of_nat_u32_eq_0_iff)
  qed
qed

subsection \<open>Tokens\<close>

text \<open>The client loop \<open>while((token = strsep(&p, delim)) != NULL)\<close>: the tokens it sees.\<close>

partial_function (option) strsep_tokens ::
    "bytes \<Rightarrow> nat option \<Rightarrow> bytes \<Rightarrow> bytes list option" where
  "strsep_tokens buf stringp delim =
     (case strsep buf stringp delim of
        None \<Rightarrow> None
      | Some (token, stringp', buf') \<Rightarrow>
          (case token of
             None \<Rightarrow> Some []
           | Some start \<Rightarrow>
               Option.bind (strsep_tokens buf' stringp' delim)
                 (\<lambda>ts. Some (cstr_at buf' start # ts))))"

text \<open>The reference: split a list at the elements of a set, and join it again.\<close>

fun split_on :: "u8 set \<Rightarrow> bytes \<Rightarrow> bytes list" where
  "split_on D [] = [[]]"
| "split_on D (c # s) =
     (if c \<in> D then [] # split_on D s
      else case split_on D s of [] \<Rightarrow> [[c]] | t # ts \<Rightarrow> (c # t) # ts)"

fun join_with :: "u8 \<Rightarrow> bytes list \<Rightarrow> bytes" where
  "join_with d [] = []"
| "join_with d [t] = t"
| "join_with d (t # ts) = t @ d # join_with d ts"

lemma split_on_nonempty [simp]: "split_on D s \<noteq> []"
  by (induction s) (auto split: list.splits)

lemma join_split: "join_with d (split_on {d} s) = s"
proof (induction s)
  case (Cons c s)
  obtain t ts where t: "split_on {d} s = t # ts" by (cases "split_on {d} s") auto
  then show ?case using Cons by (cases ts) auto
qed simp

lemma split_on_tokens: "t \<in> set (split_on D s) \<Longrightarrow> set t \<inter> D = {} \<and> set t \<subseteq> set s"
proof (induction s arbitrary: t)
  case (Cons c s)
  obtain u us where u: "split_on D s = u # us" by (cases "split_on D s") auto
  show ?case
  proof (cases "c \<in> D")
    case True
    then show ?thesis using Cons by auto
  next
    case False
    then have "t = c # u \<or> t \<in> set us" using Cons.prems u by auto
    then show ?thesis using Cons.IH [of u] Cons.IH [of t] u False by auto
  qed
qed simp

lemma split_on_none: "set s \<inter> D = {} \<Longrightarrow> split_on D s = [s]"
  by (induction s) auto

lemma split_on_some: "set t \<inter> D = {} \<Longrightarrow> c \<in> D \<Longrightarrow> split_on D (t @ c # r) = t # split_on D r"
  by (induction t) auto

lemma accepts_holds: "holds d ds \<Longrightarrow> accepts c d = Some (c \<in> set ds)"
proof (induction ds arbitrary: d)
  case Nil
  then show ?case by (cases d) auto
next
  case (Cons x ds)
  then show ?case by (cases d) auto
qed

lemma strpbrk_none:
  assumes "holds d ds"
  shows "holds buf s \<Longrightarrow> set s \<inter> set ds = {} \<Longrightarrow> strpbrk buf d = Some None"
proof (induction s arbitrary: buf)
  case Nil
  then show ?case by (cases buf) auto
next
  case (Cons x s)
  then show ?case using accepts_holds [OF assms, of x] by (cases buf) auto
qed

lemma strpbrk_some:
  assumes "holds d ds"
  shows "holds buf (t @ c # r) \<Longrightarrow> set t \<inter> set ds = {} \<Longrightarrow> c \<in> set ds \<Longrightarrow>
    strpbrk buf d = Some (Some (length t))"
proof (induction t arbitrary: buf)
  case Nil
  then show ?case using accepts_holds [OF assms, of c] by (cases buf) auto
next
  case (Cons x t)
  then show ?case using accepts_holds [OF assms, of x] by (cases buf) auto
qed

lemma strsep_last:
  "holds d ds \<Longrightarrow> holds (drop i buf) s \<Longrightarrow> set s \<inter> set ds = {} \<Longrightarrow>
   strsep buf (Some i) d = Some (Some i, None, buf)"
  by (simp add: strsep_def strpbrk_none)

lemma drop_update_at: "drop i (buf[i + k := x]) = (drop i buf)[k := x]"
  by (simp add: drop_update_swap)

lemma strsep_next:
  assumes "holds d ds" and "holds (drop i buf) (t @ c # r)" and "set t \<inter> set ds = {}" and "c \<in> set ds"
  shows "strsep buf (Some i) d =
      Some (Some i, Some (i + length t + 1), buf[i + length t := 0])"
    and "cstr_at (buf[i + length t := 0]) i = t"
    and "holds (drop (i + length t + 1) (buf[i + length t := 0])) r"
proof -
  show "strsep buf (Some i) d = Some (Some i, Some (i + length t + 1), buf[i + length t := 0])"
    using strpbrk_some [OF assms] by (simp add: strsep_def)
  obtain q where q: "drop i buf = t @ c # r @ 0 # q" and z: "0 \<notin> set t" "0 \<notin> set r" "c \<noteq> 0"
    using assms(2) by (auto simp: holds_def c_string_def)
  have d: "drop i (buf[i + length t := 0]) = t @ 0 # r @ 0 # q"
    by (simp add: drop_update_at q list_update_append)
  show "cstr_at (buf[i + length t := 0]) i = t"
    using takeWhile_stop [OF z(1)] d by (simp add: cstr_at_def)
  have "drop (i + length t + 1) (buf[i + length t := 0]) =
      drop (length t + 1) (drop i (buf[i + length t := 0]))"
    by (simp add: add.commute add.left_commute)
  also have "\<dots> = r @ 0 # q" unfolding d by simp
  finally show "holds (drop (i + length t + 1) (buf[i + length t := 0])) r"
    using z by (auto simp: holds_def c_string_def)
qed

lemma strsep_tokens_split:
  assumes "holds d ds"
  shows "holds (drop i buf) s \<Longrightarrow> strsep_tokens buf (Some i) d = Some (split_on (set ds) s)"
proof (induction "length s" arbitrary: i buf s rule: less_induct)
  case less
  show ?case
  proof (cases "set s \<inter> set ds = {}")
    case True
    have "strsep_tokens buf None d = Some []"
      by (simp add: strsep_tokens.simps strsep_def)
    moreover have "cstr_at buf i = s"
      using less.prems holds_cstr by (auto simp: cstr_at_def)
    ultimately show ?thesis using strsep_last [OF assms less.prems True] True
      by (simp add: strsep_tokens.simps [of buf "Some i"] split_on_none)
  next
    case False
    then obtain t c r where s: "s = t @ c # r" and c: "c \<in> set ds" and t: "set t \<inter> set ds = {}"
      using split_list_first_prop [of s "\<lambda>x. x \<in> set ds"] by blast
    note n = strsep_next [OF assms less.prems [unfolded s] t c]
    have "strsep_tokens (buf[i + length t := 0]) (Some (i + length t + 1)) d = Some (split_on (set ds) r)"
      by (rule less.hyps) (use s n(3) in auto)
    then show ?thesis using n(1,2) split_on_some [OF t c, of r] s
      by (simp add: strsep_tokens.simps [of buf "Some i"])
  qed
qed

subsection \<open>Properties\<close>

text \<open>
  C14. On buffers that hold NUL-terminated strings the string functions compute the list
  functions: \<open>strlen\<close> is the length, \<open>strcmp\<close> decides equality and the lexicographic order of the
  unsigned bytes, \<open>strcpy\<close> and \<open>strcat\<close> store the string and the concatenation with their NUL and
  touch nothing else, \<open>strncpy\<close> pads with NULs, and \<open>strrev\<close> reverses in place.
\<close>

theorem string_functions_correct:
  assumes "holds buf s" and "holds src t" and "length s + length t < length buf"
    and "length buf < 0x100000000" and "n \<le> length buf"
  shows "strlen buf = Some (of_nat (length s)) \<and>
    (\<exists>d. strcmp buf src = Some d \<and> (d = 0 \<longleftrightarrow> s = t) \<and> (d < 0 \<longleftrightarrow> (s, t) \<in> lexord {(a, b). a < b})) \<and>
    strcpy buf src = Some (t @ 0 # drop (Suc (length t)) buf) \<and>
    strcat buf src = Some (s @ t @ 0 # drop (Suc (length s + length t)) buf) \<and>
    strncpy buf src n = Some (take n (t @ replicate n 0) @ drop n buf) \<and>
    strrev buf = Some (rev s @ drop (length s) buf)"
  using assms strlen_holds [OF assms(1)] strcmp_holds [OF assms(1,2)] strcpy_holds [OF assms(2), of buf]
    strcat_holds [OF assms(1,2)] strncpy_holds [OF assms(2,5)] strrev_holds [OF assms(1)]
  by simp

theorem string_functions_correct_witness:
  "strlen (str ''ab'' @ [0, 7, 7, 7]) = Some 2 \<and>
   strcat (str ''ab'' @ [0, 7, 7, 7]) (str ''xy'' @ [0]) = Some (str ''abxy'' @ [0, 7])"
proof -
  have h: "holds (str ''ab'' @ [0, 7, 7, 7]) (str ''ab'')" "holds (str ''xy'' @ [0]) (str ''xy'')"
    by (simp_all add: str_def)
  show ?thesis using string_functions_correct [OF h, of 0] by (simp add: str_def)
qed

text \<open>
  C15. Calling \<open>strsep\<close> until it returns NULL ends and yields the fields of the string between the
  delimiters, empty ones included; with a single delimiter the fields are free of it and joining
  them with it gives the string back.
\<close>

theorem strsep_splits:
  assumes "holds buf s" and "holds delim ds"
  shows "strsep_tokens buf (Some 0) delim = Some (split_on (set ds) s) \<and>
    (\<forall>c. ds = [c] \<longrightarrow> join_with c (split_on (set ds) s) = s \<and> (\<forall>t \<in> set (split_on (set ds) s). c \<notin> set t))"
  using strsep_tokens_split [OF assms(2), of 0 buf s] assms(1) join_split split_on_tokens by fastforce

theorem strsep_splits_witness:
  "strsep_tokens (str ''a//b'' @ [0]) (Some 0) (str ''/'' @ [0]) = Some [str ''a'', [], str ''b'']"
proof -
  have h: "holds (str ''a//b'' @ [0]) (str ''a//b'')" "holds (str ''/'' @ [0]) (str ''/'')"
    by (simp_all add: str_def)
  show ?thesis using strsep_splits [OF h] by (simp add: str_def)
qed

end
