(* ===== verification/Ata.thy ===== *)
theory Ata
  imports Pmm CString
begin

text \<open>
  The storage drivers: the legacy IDE driver of \<open>kernel/src/drivers/storage/ata.c\<close> and the initial
  ramdisk of \<open>kernel/src/drivers/storage/initrd.c\<close>.

  The IDE controller is not part of the sources. The port instructions of
  \<open>kernel/include/system/ports.h\<close> are a parameter: functions on an abstract hardware state. What the
  driver relies on is the predicate \<open>ide_transfers\<close>: the sector commands of the ATA standard.

  A read function returns its result together with the bytes it stores at the start of the
  caller's buffer.
\<close>

subsection \<open>Port input and output\<close>

record 'c ports =
  outb :: "u16 \<Rightarrow> u8 \<Rightarrow> 'c \<Rightarrow> 'c"
  inb :: "u16 \<Rightarrow> 'c \<Rightarrow> u8 \<times> 'c"
  outw :: "u16 \<Rightarrow> u16 \<Rightarrow> 'c \<Rightarrow> 'c"
  inw :: "u16 \<Rightarrow> 'c \<Rightarrow> u16 \<times> 'c"

subsection \<open>State\<close>

datatype ata_drive =
  ATA_PRIMARY_MASTER_DRIVE | ATA_PRIMARY_SLAVE_DRIVE | ATA_SECONDARY_MASTER_DRIVE | ATA_SECONDARY_SLAVE_DRIVE

record ata_device =
  present :: bool
  lba_supported :: bool
  lba48_supported :: bool
  ata_size :: u32

text \<open>The kernel heap, the hardware, the array \<open>ata_devices\<close> and the memory of the ramdisk.\<close>

record 'c kernel =
  k_heap :: kheap
  k_hw :: 'c
  ata_devices :: "ata_drive \<Rightarrow> ata_device"
  initrd_base :: bytes
  initrd_size :: u32

definition ATA_SECTOR_SIZE :: u32 where "ATA_SECTOR_SIZE = 512"
definition ATA_DATA_REGISTER :: u16 where "ATA_DATA_REGISTER = 0"
definition ATA_SECTOR_COUNT_REGISTER :: u16 where "ATA_SECTOR_COUNT_REGISTER = 2"
definition ATA_LBA_LOW_REGISTER :: u16 where "ATA_LBA_LOW_REGISTER = 3"
definition ATA_LBA_MID_REGISTER :: u16 where "ATA_LBA_MID_REGISTER = 4"
definition ATA_LBA_HIGH_REGISTER :: u16 where "ATA_LBA_HIGH_REGISTER = 5"
definition ATA_DRIVE_REGISTER :: u16 where "ATA_DRIVE_REGISTER = 6"
definition ATA_STATUS_REGISTER :: u16 where "ATA_STATUS_REGISTER = 7"
definition ATA_COMMAND_REGISTER :: u16 where "ATA_COMMAND_REGISTER = 7"

fun ata_get_io_base :: "ata_drive \<Rightarrow> u16" where
  "ata_get_io_base ATA_PRIMARY_MASTER_DRIVE = 0x1F0"
| "ata_get_io_base ATA_PRIMARY_SLAVE_DRIVE = 0x1F0"
| "ata_get_io_base ATA_SECONDARY_MASTER_DRIVE = 0x170"
| "ata_get_io_base ATA_SECONDARY_SLAVE_DRIVE = 0x170"

fun ata_is_master :: "ata_drive \<Rightarrow> bool" where
  "ata_is_master ATA_PRIMARY_MASTER_DRIVE = True"
| "ata_is_master ATA_SECONDARY_MASTER_DRIVE = True"
| "ata_is_master ATA_PRIMARY_SLAVE_DRIVE = False"
| "ata_is_master ATA_SECONDARY_SLAVE_DRIVE = False"

subsection \<open>Sectors\<close>

text \<open>\<open>while(inb(io_base + ATA_STATUS_REGISTER) & 0x80)\<close>\<close>

partial_function (option) ata_wait_ready :: "'c ports \<Rightarrow> u16 \<Rightarrow> 'c \<Rightarrow> 'c option" where
  "ata_wait_ready io io_base c =
     (case inb io (io_base + ATA_STATUS_REGISTER) c of
        (status, c') \<Rightarrow> if status AND 0x80 \<noteq> 0 then ata_wait_ready io io_base c' else Some c')"

fun ata_in_words :: "'c ports \<Rightarrow> u16 \<Rightarrow> nat \<Rightarrow> 'c \<Rightarrow> u16 list \<times> 'c" where
  "ata_in_words io port 0 c = ([], c)"
| "ata_in_words io port (Suc n) c =
     (let (w, c1) = inw io port c; (ws, c2) = ata_in_words io port n c1 in (w # ws, c2))"

fun ata_out_words :: "'c ports \<Rightarrow> u16 \<Rightarrow> u16 list \<Rightarrow> 'c \<Rightarrow> 'c" where
  "ata_out_words io port [] c = c"
| "ata_out_words io port (w # ws) c = ata_out_words io port ws (outw io port w c)"

fun words_of_bytes :: "bytes \<Rightarrow> u16 list" where
  "words_of_bytes (a # b # bs) = (ucast a OR push_bit 8 (ucast b)) # words_of_bytes bs"
| "words_of_bytes _ = []"

fun bytes_of_words :: "u16 list \<Rightarrow> bytes" where
  "bytes_of_words [] = []"
| "bytes_of_words (w # ws) = ucast w # ucast (drop_bit 8 w) # bytes_of_words ws"

text \<open>The register writes that precede a sector command, the same for reading and writing.\<close>

definition ata_select_sector :: "'c ports \<Rightarrow> u16 \<Rightarrow> u32 \<Rightarrow> u8 \<Rightarrow> 'c \<Rightarrow> 'c" where
  "ata_select_sector io io_base lba command c =
     (let c1 = outb io (io_base + ATA_DRIVE_REGISTER) (0xE0 OR ucast (drop_bit 24 lba AND 0x0F)) c;
          c2 = outb io (io_base + ATA_SECTOR_COUNT_REGISTER) 0x01 c1;
          c3 = outb io (io_base + ATA_LBA_LOW_REGISTER) (ucast (lba AND 0x000000FF)) c2;
          c4 = outb io (io_base + ATA_LBA_MID_REGISTER) (ucast (drop_bit 8 (lba AND 0x0000FF00))) c3;
          c5 = outb io (io_base + ATA_LBA_HIGH_REGISTER) (ucast (drop_bit 16 (lba AND 0x00FF0000))) c4
      in outb io (io_base + ATA_COMMAND_REGISTER) command c5)"

definition ata_write_sector_lba28 :: "'c ports \<Rightarrow> ata_drive \<Rightarrow> u32 \<Rightarrow> bytes \<Rightarrow> 'c \<Rightarrow> 'c option" where
  "ata_write_sector_lba28 io device lba buffer c =
     (let io_base = ata_get_io_base device
      in map_option (ata_out_words io (io_base + ATA_DATA_REGISTER) (words_of_bytes buffer))
           (ata_wait_ready io io_base (ata_select_sector io io_base lba 0x30 c)))"

definition ata_read_sector_lba28 :: "'c ports \<Rightarrow> ata_drive \<Rightarrow> u32 \<Rightarrow> 'c \<Rightarrow> (bytes \<times> 'c) option" where
  "ata_read_sector_lba28 io device lba c =
     (let io_base = ata_get_io_base device
      in map_option (\<lambda>c1. let (ws, c2) = ata_in_words io (io_base + ATA_DATA_REGISTER) 256 c1
                          in (bytes_of_words ws, c2))
           (ata_wait_ready io io_base (ata_select_sector io io_base lba 0x20 c)))"

subsection \<open>Detection\<close>

text \<open>The second polling loop of \<open>ata_device_probe\<close>; the result is \<open>err\<close>.\<close>

partial_function (option) ata_poll_drq :: "'c ports \<Rightarrow> u16 \<Rightarrow> 'c \<Rightarrow> (u8 \<times> 'c) option" where
  "ata_poll_drq io io_base c =
     (case inb io (io_base + ATA_STATUS_REGISTER) c of (s1, c1) \<Rightarrow>
        (case inb io (io_base + ATA_STATUS_REGISTER) c1 of (s2, c2) \<Rightarrow>
           (if s1 AND 0x08 = 0 \<and> s2 AND 0x01 = 0 then ata_poll_drq io io_base c2
            else Some (s2 AND 0x01, c2))))"

text \<open>
  The size of the drive. \<open>over\<close> is the value of the shifts \<open>identify_data[102] << 32\<close> and
  \<open>identify_data[103] << 48\<close> of an \<open>int\<close>, which the language leaves undefined.
\<close>

definition ata_identified :: "(u16 \<Rightarrow> nat \<Rightarrow> u32) \<Rightarrow> u16 list \<Rightarrow> ata_device \<Rightarrow> ata_device" where
  "ata_identified over identify_data d =
     (let lba = (lba_supported d \<or> identify_data ! 49 AND 0x0200 \<noteq> 0);
          lba48 = (lba48_supported d \<or> identify_data ! 83 AND 0x0400 \<noteq> 0);
          w = (\<lambda>i. ucast (identify_data ! i) :: u32);
          sz = (if lba
                then if lba48
                     then (w 100 OR push_bit 16 (w 101) OR over (identify_data ! 102) 32 OR
                           over (identify_data ! 103) 48) * ATA_SECTOR_SIZE
                     else (w 60 OR push_bit 16 (w 61)) * ATA_SECTOR_SIZE
                else (w 1 * w 3 * w 6) * ATA_SECTOR_SIZE)
      in d\<lparr>lba_supported := lba, lba48_supported := lba48, ata_size := sz, present := True\<rparr>)"

definition ata_device_probe ::
    "'c ports \<Rightarrow> (u16 \<Rightarrow> nat \<Rightarrow> u32) \<Rightarrow> ata_drive \<Rightarrow> ('c, 'm) kernel_scheme \<Rightarrow> (bool \<times> ('c, 'm) kernel_scheme) kres" where
  "ata_device_probe io over device k =
     (let io_base = ata_get_io_base device;
          is_master = ata_is_master device;
          c0 = outb io (io_base + ATA_DRIVE_REGISTER) (if is_master then 0xA0 else 0xB0) (k_hw k);
          c1 = outb io (io_base + ATA_SECTOR_COUNT_REGISTER) 0x00 c0;
          c2 = outb io (io_base + ATA_LBA_LOW_REGISTER) 0x00 c1;
          c3 = outb io (io_base + ATA_LBA_MID_REGISTER) 0x00 c2;
          c4 = outb io (io_base + ATA_LBA_HIGH_REGISTER) 0x00 c3;
          c5 = outb io (io_base + ATA_COMMAND_REGISTER) 0xEC c4;
          (status, c6) = inb io (io_base + ATA_STATUS_REGISTER) c5
      in if status = 0x00 then Ret (False, k\<lparr>k_hw := c6\<rparr>)
         else kbind (or_hang (ata_wait_ready io io_base c6)) (\<lambda>c7.
              let (mid, c8) = inb io (io_base + ATA_LBA_MID_REGISTER) c7
              in if mid \<noteq> 0x00 then Ret (False, k\<lparr>k_hw := c8\<rparr>)
                 else let (high, c9) = inb io (io_base + ATA_LBA_HIGH_REGISTER) c8
                      in if high \<noteq> 0x00 then Ret (False, k\<lparr>k_hw := c9\<rparr>)
                         else kbind (or_hang (ata_poll_drq io io_base c9)) (\<lambda>(err, c10).
                              if err \<noteq> 0 then Ret (False, k\<lparr>k_hw := c10\<rparr>)
                              else let (identify_data, c11) =
                                         ata_in_words io (io_base + ATA_DATA_REGISTER) 256 c10
                                   in Ret (True, k\<lparr>k_hw := c11,
                                        ata_devices := (ata_devices k)(device :=
                                          ata_identified over identify_data (ata_devices k device))\<rparr>))))"

subsection \<open>Reading and writing byte ranges\<close>

text \<open>
  The loop of \<open>ata_read\<close>: \<open>out\<close> is what has been copied to the caller's buffer so far. A copy that
  leaves the sector buffer is a \<open>Fault\<close>.
\<close>

function ata_read_loop ::
    "'c ports \<Rightarrow> ata_drive \<Rightarrow> u32 \<Rightarrow> u32 \<Rightarrow> u32 \<Rightarrow> u32 \<Rightarrow> nat \<Rightarrow> u32 \<Rightarrow> u32 \<Rightarrow> u32 \<Rightarrow> bytes \<Rightarrow> 'c \<Rightarrow>
     ((u32 \<times> bytes) \<times> 'c) kres" where
  "ata_read_loop io device start_sector start_sector_offset end_sector end_sector_offset
       sector_index read_offset read_size total_size out c =
     (if sector_index \<le> unat end_sector
      then kbind (or_hang (ata_read_sector_lba28 io device (of_nat sector_index) c)) (\<lambda>(sector_buffer, c1).
           let read_offset1 = (if sector_index = unat start_sector then start_sector_offset else read_offset);
               read_size1 = (if sector_index = unat start_sector then ATA_SECTOR_SIZE - read_offset1 else read_size);
               read_size2 = (if sector_index = unat end_sector then end_sector_offset - read_offset1 + 1 else read_size1)
           in kbind (or_fault (mem_read sector_buffer (unat read_offset1) (unat read_size2))) (\<lambda>bs.
              ata_read_loop io device start_sector start_sector_offset end_sector end_sector_offset
                (sector_index + 1) read_offset1 read_size2 (total_size + read_size2) (out @ bs) c1))
      else Ret ((total_size, out), c))"
  by pat_completeness auto
termination
  by (relation "measure (\<lambda>(_, _, _, _, e, _, i, _). Suc (unat e) - i)") auto

declare ata_read_loop.simps [simp del]

definition ata_read ::
    "'c ports \<Rightarrow> ata_drive \<Rightarrow> u32 \<Rightarrow> u32 \<Rightarrow> ('c, 'm) kernel_scheme \<Rightarrow>
     ((u32 \<times> bytes) \<times> ('c, 'm) kernel_scheme) kres" where
  "ata_read io device offset sz k =
     (let d = ata_devices k device
      in if ata_size d < offset + sz \<or> \<not> present d \<or> \<not> lba_supported d then Ret ((0, []), k)
         else let start_sector = offset div ATA_SECTOR_SIZE;
                  start_sector_offset = offset mod ATA_SECTOR_SIZE;
                  end_sector = (offset + sz - 1) div ATA_SECTOR_SIZE;
                  end_sector_offset = (offset + sz - 1) mod ATA_SECTOR_SIZE
              in kbind (kmalloc_or_panic ATA_SECTOR_SIZE (k_heap k)) (\<lambda>(sector_buffer, h).
                 kbind (ata_read_loop io device start_sector start_sector_offset end_sector end_sector_offset
                          (unat start_sector) 0 0 0 [] (k_hw k)) (\<lambda>((total_size, out), c).
                 Ret ((total_size, out), k\<lparr>k_heap := kfree sector_buffer h, k_hw := c\<rparr>))))"

function ata_write_loop ::
    "'c ports \<Rightarrow> ata_drive \<Rightarrow> u32 \<Rightarrow> u32 \<Rightarrow> u32 \<Rightarrow> u32 \<Rightarrow> nat \<Rightarrow> u32 \<Rightarrow> u32 \<Rightarrow> u32 \<Rightarrow> bytes \<Rightarrow> 'c \<Rightarrow>
     (u32 \<times> 'c) kres" where
  "ata_write_loop io device start_sector start_sector_offset end_sector end_sector_offset
       sector_index write_offset write_size total_size buffer_pointer c =
     (if sector_index \<le> unat end_sector
      then kbind (or_hang (ata_read_sector_lba28 io device (of_nat sector_index) c)) (\<lambda>(sector_buffer, c1).
           let write_offset1 = (if sector_index = unat start_sector then start_sector_offset else write_offset);
               write_size1 = (if sector_index = unat start_sector then ATA_SECTOR_SIZE - write_offset1 else write_size);
               write_size2 = (if sector_index = unat end_sector then end_sector_offset - write_offset1 + 1 else write_size1)
           in kbind (or_fault (mem_read buffer_pointer 0 (unat write_size2))) (\<lambda>bs.
              kbind (or_fault (mem_write sector_buffer (unat write_offset1) bs)) (\<lambda>sector_buffer1.
              kbind (or_hang (ata_write_sector_lba28 io device (of_nat sector_index) sector_buffer1 c1)) (\<lambda>c2.
              ata_write_loop io device start_sector start_sector_offset end_sector end_sector_offset
                (sector_index + 1) write_offset1 write_size2 (total_size + write_size2)
                (drop (unat write_size2) buffer_pointer) c2))))
      else Ret (total_size, c))"
  by pat_completeness auto
termination
  by (relation "measure (\<lambda>(_, _, _, _, e, _, i, _). Suc (unat e) - i)") auto

declare ata_write_loop.simps [simp del]

definition ata_write ::
    "'c ports \<Rightarrow> ata_drive \<Rightarrow> u32 \<Rightarrow> u32 \<Rightarrow> bytes \<Rightarrow> ('c, 'm) kernel_scheme \<Rightarrow>
     (u32 \<times> ('c, 'm) kernel_scheme) kres" where
  "ata_write io device offset sz buffer k =
     (let d = ata_devices k device
      in if ata_size d < offset + sz \<or> \<not> present d \<or> \<not> lba_supported d then Ret (0, k)
         else let start_sector = offset div ATA_SECTOR_SIZE;
                  start_sector_offset = offset mod ATA_SECTOR_SIZE;
                  end_sector = (offset + sz - 1) div ATA_SECTOR_SIZE;
                  end_sector_offset = (offset + sz - 1) mod ATA_SECTOR_SIZE
              in kbind (kmalloc_or_panic ATA_SECTOR_SIZE (k_heap k)) (\<lambda>(sector_buffer, h).
                 kbind (ata_write_loop io device start_sector start_sector_offset end_sector end_sector_offset
                          (unat start_sector) 0 0 0 buffer (k_hw k)) (\<lambda>(total_size, c).
                 Ret (total_size, k\<lparr>k_heap := kfree sector_buffer h, k_hw := c\<rparr>))))"

subsection \<open>The initial ramdisk\<close>

definition initrd_read :: "u32 \<Rightarrow> u32 \<Rightarrow> ('c, 'm) kernel_scheme \<Rightarrow> ((u32 \<times> bytes) \<times> ('c, 'm) kernel_scheme) kres" where
  "initrd_read offset sz k =
     (if initrd_size k < offset then Ret ((0, []), k)
      else let sz' = (if initrd_size k < offset + sz then initrd_size k - offset else sz)
           in kbind (or_fault (mem_read (initrd_base k) (unat offset) (unat sz'))) (\<lambda>bs.
              Ret ((sz', bs), k)))"

definition initrd_write :: "u32 \<Rightarrow> u32 \<Rightarrow> bytes \<Rightarrow> ('c, 'm) kernel_scheme \<Rightarrow> (u32 \<times> ('c, 'm) kernel_scheme) kres" where
  "initrd_write offset sz buffer k = Ret (0, k)"

end
