(* ===== verification/Ata_Props.thy ===== *)
theory Ata_Props
  imports Ata
begin

text \<open>
  Correctness of the IDE driver against the sector commands of the controller: byte ranges that
  start on a sector boundary or lie inside one sector are read and written as a flat disk. A
  concrete controller shows that the assumptions on the hardware can be met.
\<close>

subsection \<open>What the driver relies on\<close>

text \<open>
  \<open>disk c base lba\<close> is the contents of a sector of the master drive on the channel at \<open>base\<close>. After the
  register writes of a read (write) command, an operational controller becomes ready and then
  delivers (takes) the 256 words of that sector through the data register.
\<close>

definition ide_transfers ::
    "'c ports \<Rightarrow> ('c \<Rightarrow> bool) \<Rightarrow> ('c \<Rightarrow> u16 \<Rightarrow> nat \<Rightarrow> bytes) \<Rightarrow> bool" where
  "ide_transfers io ok disk \<longleftrightarrow>
     (\<forall>c base lba. ok c \<longrightarrow> base \<in> {0x1F0, 0x170} \<longrightarrow> lba < 2 ^ 28 \<longrightarrow>
        (\<exists>c1. ata_wait_ready io base (ata_select_sector io base (of_nat lba) 0x20 c) = Some c1 \<and>
           (let (ws, c2) = ata_in_words io base 256 c1
            in bytes_of_words ws = disk c base lba \<and> ok c2 \<and> disk c2 = disk c)) \<and>
        (\<exists>c1. ata_wait_ready io base (ata_select_sector io base (of_nat lba) 0x30 c) = Some c1 \<and>
           (\<forall>ws. length ws = 256 \<longrightarrow>
              (let c2 = ata_out_words io base ws c1
               in ok c2 \<and> disk c2 = (disk c)(base := (disk c base)(lba := bytes_of_words ws))))))"

definition disk_byte :: "('c \<Rightarrow> u16 \<Rightarrow> nat \<Rightarrow> bytes) \<Rightarrow> 'c \<Rightarrow> u16 \<Rightarrow> nat \<Rightarrow> u8" where
  "disk_byte disk c base i = disk c base (i div 512) ! (i mod 512)"

definition disk_range :: "('c \<Rightarrow> u16 \<Rightarrow> nat \<Rightarrow> bytes) \<Rightarrow> 'c \<Rightarrow> u16 \<Rightarrow> nat \<Rightarrow> nat \<Rightarrow> bytes" where
  "disk_range disk c base off n = map (disk_byte disk c base) [off..<off + n]"

subsection \<open>Words and sectors\<close>

lemma length_ata_in_words [simp]: "length (fst (ata_in_words io port n c)) = n"
  by (induction n arbitrary: c) (auto simp: Let_def split: prod.splits, metis fst_conv)

lemma length_bytes_of_words [simp]: "length (bytes_of_words ws) = 2 * length ws"
  by (induction ws) auto

lemma length_words_of_bytes [simp]: "length (words_of_bytes bs) = length bs div 2"
  by (induction bs rule: words_of_bytes.induct) auto

lemma word_of_two_bytes:
  "(ucast (ucast (a :: u8) OR push_bit 8 (ucast (b :: u8)) :: u16) :: u8) = a"
  "(ucast (drop_bit 8 (ucast (a :: u8) OR push_bit 8 (ucast (b :: u8)) :: u16)) :: u8) = b"
  "(ucast (drop_bit 8 (ucast (a :: u8)) OR drop_bit 8 (push_bit 8 (ucast (b :: u8)) :: u16)) :: u8) = b"
  by (rule bit_word_eqI; auto simp: bit_simps dest: bit_imp_le_length)+

lemma bytes_of_words_of_bytes: "even (length bs) \<Longrightarrow> bytes_of_words (words_of_bytes bs) = bs"
  by (induction bs rule: words_of_bytes.induct) (auto simp: word_of_two_bytes)

lemma io_base_cases: "ata_get_io_base device \<in> {0x1F0, 0x170}"
  by (cases device) auto

lemma read_sector:
  assumes "ide_transfers io ok disk" and "ok c" and "lba < 2 ^ 28"
  shows "\<exists>c2. ata_read_sector_lba28 io device (of_nat lba) c =
      Some (disk c (ata_get_io_base device) lba, c2) \<and> ok c2 \<and> disk c2 = disk c \<and>
      length (disk c (ata_get_io_base device) lba) = 512"
proof -
  let ?b = "ata_get_io_base device"
  obtain c1 where c1: "ata_wait_ready io ?b (ata_select_sector io ?b (of_nat lba) 0x20 c) = Some c1"
    and t: "let (ws, c2) = ata_in_words io ?b 256 c1
            in bytes_of_words ws = disk c ?b lba \<and> ok c2 \<and> disk c2 = disk c"
    using assms(1) [unfolded ide_transfers_def, rule_format, OF assms(2) io_base_cases assms(3)]
    by blast
  obtain ws c2 where w: "ata_in_words io ?b 256 c1 = (ws, c2)" by fastforce
  have "length ws = 256" using length_ata_in_words [of io ?b 256 c1] w by simp
  then have l: "length (bytes_of_words ws) = 512" by simp
  have "bytes_of_words ws = disk c ?b lba" "ok c2" "disk c2 = disk c" using t w by simp_all
  with l show ?thesis using w c1
    by (auto simp del: length_bytes_of_words simp: ata_read_sector_lba28_def Let_def ATA_DATA_REGISTER_def)
qed

lemma write_sector:
  assumes "ide_transfers io ok disk" and "ok c" and "lba < 2 ^ 28" and "length bs = 512"
  shows "\<exists>c2. ata_write_sector_lba28 io device (of_nat lba) bs c = Some c2 \<and> ok c2 \<and>
      disk c2 = (disk c)(ata_get_io_base device := (disk c (ata_get_io_base device))(lba := bs))"
proof -
  let ?b = "ata_get_io_base device"
  obtain c1 where c1: "ata_wait_ready io ?b (ata_select_sector io ?b (of_nat lba) 0x30 c) = Some c1"
    and t: "\<forall>ws. length ws = 256 \<longrightarrow>
              (let c2 = ata_out_words io ?b ws c1
               in ok c2 \<and> disk c2 = (disk c)(?b := (disk c ?b)(lba := bytes_of_words ws)))"
    using assms(1) [unfolded ide_transfers_def, rule_format, OF assms(2) io_base_cases assms(3)]
    by blast
  then show ?thesis using assms(4) spec [OF t, of "words_of_bytes bs"]
    by (auto simp: ata_write_sector_lba28_def Let_def ATA_DATA_REGISTER_def bytes_of_words_of_bytes)
qed

lemma disk_range_length [simp]: "length (disk_range disk c base off n) = n"
  by (simp add: disk_range_def)

lemma disk_range_append:
  "disk_range disk c base off (m + n) = disk_range disk c base off m @ disk_range disk c base (off + m) n"
  using upt_add_eq_append [of off "off + m" n] by (simp add: disk_range_def add.assoc)

lemma disk_range_in_sector:
  assumes "length (disk c base lba) = 512" and "j + n \<le> 512"
  shows "disk_range disk c base (512 * lba + j) n = take n (drop j (disk c base lba))"
proof (rule nth_equalityI)
  fix i assume "i < length (disk_range disk c base (512 * lba + j) n)"
  then have i: "i < n" by simp
  then have "(512 * lba + j + i) div 512 = lba" "(512 * lba + j + i) mod 512 = j + i"
    using assms(2) by (simp_all add: add.assoc)
  then show "disk_range disk c base (512 * lba + j) n ! i = take n (drop j (disk c base lba)) ! i"
    using i assms by (simp add: disk_range_def disk_byte_def)
qed (use assms in simp)

subsection \<open>Reading\<close>

lemma mem_read_take: "length buf = n + m \<Longrightarrow> j + n \<le> length buf \<Longrightarrow> mem_read buf j n = Some (take n (drop j buf))"
  by (simp add: mem_read_def)

lemma ata_read_loop_done:
  "unat e < i \<Longrightarrow> ata_read_loop io device st so e eo i ro rs tot out c = Ret ((tot, out), c)"
  by (simp add: ata_read_loop.simps)

text \<open>From a sector boundary on, the loop reads whole sectors and the first part of the last one.\<close>

lemma ata_read_loop_aligned:
  assumes ide: "ide_transfers io ok disk" and e: "unat e < 2 ^ 28" and eo: "unat eo < 512"
  shows "ok c \<Longrightarrow> i + d = unat e \<Longrightarrow> i = unat st \<or> (unat st < i \<and> rs = 512) \<Longrightarrow>
    \<exists>c'. ata_read_loop io device st 0 e eo i 0 rs tot out c =
      Ret ((tot + of_nat (512 * d + unat eo + 1),
            out @ disk_range disk c (ata_get_io_base device) (512 * i) (512 * d + unat eo + 1)), c') \<and>
      ok c' \<and> disk c' = disk c"
proof (induction d arbitrary: i rs tot out c)
  case 0
  obtain c1 where s: "ata_read_sector_lba28 io device (of_nat i) c =
      Some (disk c (ata_get_io_base device) i, c1)" "ok c1" "disk c1 = disk c"
      "length (disk c (ata_get_io_base device) i) = 512"
    using read_sector [OF ide 0(1), of i device] 0(2) e by auto
  have sz: "unat (eo + 1) = unat eo + 1" using eo by (simp add: unat_u32_add_small)
  then have m: "mem_read (disk c (ata_get_io_base device) i) 0 (unat (eo + 1)) =
      Some (disk_range disk c (ata_get_io_base device) (512 * i) (unat eo + 1))"
    using disk_range_in_sector [of disk c "ata_get_io_base device" i, OF s(4), of 0 "unat eo + 1"] s(4) eo by (simp add: mem_read_def)
  show ?case
    by (subst ata_read_loop.simps)
      (use 0 s m in \<open>simp add: Let_def ata_read_loop_done algebra_simps\<close>)
next
  case (Suc d)
  obtain c1 where s: "ata_read_sector_lba28 io device (of_nat i) c =
      Some (disk c (ata_get_io_base device) i, c1)" "ok c1" "disk c1 = disk c"
      "length (disk c (ata_get_io_base device) i) = 512"
    using read_sector [OF ide Suc.prems(1), of i device] Suc.prems(2) e by auto
  have m: "mem_read (disk c (ata_get_io_base device) i) 0 512 =
      Some (disk_range disk c (ata_get_io_base device) (512 * i) 512)"
    using disk_range_in_sector [of disk c "ata_get_io_base device" i, OF s(4), of 0 512] s(4) by (simp add: mem_read_def)
  have r: "ata_read_loop io device st 0 e eo i 0 rs tot out c =
      ata_read_loop io device st 0 e eo (i + 1) 0 512 (tot + 512)
        (out @ disk_range disk c (ata_get_io_base device) (512 * i) 512) c1"
    by (subst ata_read_loop.simps)
      (use Suc.prems s m in \<open>auto simp: Let_def ATA_SECTOR_SIZE_def\<close>)
  have "\<exists>c'. ata_read_loop io device st 0 e eo (i + 1) 0 512 (tot + 512)
        (out @ disk_range disk c (ata_get_io_base device) (512 * i) 512) c1 =
      Ret ((tot + 512 + of_nat (512 * d + unat eo + 1),
            (out @ disk_range disk c (ata_get_io_base device) (512 * i) 512) @
            disk_range disk c1 (ata_get_io_base device) (512 * (i + 1)) (512 * d + unat eo + 1)), c') \<and>
      ok c' \<and> disk c' = disk c1"
    by (rule Suc.IH [OF s(2)]) (use Suc.prems in auto)
  then obtain c' where c': "ata_read_loop io device st 0 e eo (i + 1) 0 512 (tot + 512)
        (out @ disk_range disk c (ata_get_io_base device) (512 * i) 512) c1 =
      Ret ((tot + 512 + of_nat (512 * d + unat eo + 1),
            (out @ disk_range disk c (ata_get_io_base device) (512 * i) 512) @
            disk_range disk c1 (ata_get_io_base device) (512 * (i + 1)) (512 * d + unat eo + 1)), c')"
      "ok c'" "disk c' = disk c1" by blast
  have rng: "disk_range disk c1 b x n = disk_range disk c b x n" for b x n
    using s(3) by (simp add: disk_range_def disk_byte_def)
  show ?case unfolding r c'(1) rng
    using c'(2,3) s(3) disk_range_append [of disk c "ata_get_io_base device" "512 * i" 512 "512 * d + unat eo + 1"]
    by (simp add: algebra_simps)
qed

text \<open>A range inside one sector is read at its offset.\<close>

lemma ata_read_loop_single:
  assumes ide: "ide_transfers io ok disk" and e: "unat e < 2 ^ 28"
    and eo: "unat so \<le> unat eo" "unat eo < 512" and c: "ok c"
  shows "\<exists>c'. ata_read_loop io device e so e eo (unat e) 0 0 0 [] c =
      Ret ((eo - so + 1, disk_range disk c (ata_get_io_base device) (512 * unat e + unat so)
              (unat eo - unat so + 1)), c') \<and> ok c' \<and> disk c' = disk c"
proof -
  obtain c1 where s: "ata_read_sector_lba28 io device (of_nat (unat e)) c =
      Some (disk c (ata_get_io_base device) (unat e), c1)" "ok c1" "disk c1 = disk c"
      "length (disk c (ata_get_io_base device) (unat e)) = 512"
    using read_sector [OF ide c, of "unat e" device] e by auto
  have sz: "unat (eo - so + 1) = unat eo - unat so + 1"
    using eo by (simp add: unat_u32_add_small unat_u32_sub u32_le_iff)
  then have m: "mem_read (disk c (ata_get_io_base device) (unat e)) (unat so) (unat (eo - so + 1)) =
      Some (disk_range disk c (ata_get_io_base device) (512 * unat e + unat so) (unat eo - unat so + 1))"
    using disk_range_in_sector [of disk c "ata_get_io_base device" "unat e", OF s(4), of "unat so" "unat eo - unat so + 1"] s(4) eo
    by (simp add: mem_read_def)
  show ?thesis
    by (subst ata_read_loop.simps)
      (use s m eo in \<open>simp add: Let_def ata_read_loop_done\<close>)
qed

subsection \<open>Writing\<close>

definition disk_written ::
    "('c \<Rightarrow> u16 \<Rightarrow> nat \<Rightarrow> bytes) \<Rightarrow> 'c \<Rightarrow> 'c \<Rightarrow> u16 \<Rightarrow> nat \<Rightarrow> bytes \<Rightarrow> bool" where
  "disk_written disk c c' base off bs \<longleftrightarrow>
     (\<forall>b i. disk_byte disk c' b i =
        (if b = base \<and> off \<le> i \<and> i < off + length bs then bs ! (i - off) else disk_byte disk c b i))"

lemma disk_written_trans:
  assumes "disk_written disk c c1 base off bs1" and "disk_written disk c1 c2 base (off + length bs1) bs2"
  shows "disk_written disk c c2 base off (bs1 @ bs2)"
  using assms unfolding disk_written_def by (auto simp: nth_append)

lemma disk_written_read:
  "disk_written disk c c' base off bs \<Longrightarrow> disk_range disk c' base off (length bs) = bs"
  by (rule nth_equalityI) (auto simp: disk_written_def disk_range_def)

lemma sector_write_bytes:
  assumes "disk c2 = (disk c)(base := (disk c base)(lba := s'))"
    and "length (disk c base lba) = 512" and "mem_write (disk c base lba) j bs = Some s'"
  shows "disk_written disk c c2 base (512 * lba + j) bs"
  unfolding disk_written_def
proof (intro allI)
  fix b i
  from assms(3) have le: "j + length bs \<le> 512"
    and s': "s' = take j (disk c base lba) @ bs @ drop (j + length bs) (disk c base lba)"
    using assms(2) by (auto simp: mem_write_def split: if_splits)
  show "disk_byte disk c2 b i = (if b = base \<and> 512 * lba + j \<le> i \<and> i < 512 * lba + j + length bs
      then bs ! (i - (512 * lba + j)) else disk_byte disk c b i)"
  proof (cases "b = base \<and> i div 512 = lba")
    case True
    define r where "r = i mod 512"
    have i: "i = 512 * lba + r" "r < 512" using True by (auto simp: r_def)
    have "disk_byte disk c2 b i = s' ! r" "disk_byte disk c b i = disk c base lba ! r"
      using True assms(1) by (simp_all add: disk_byte_def r_def)
    moreover have "s' ! r = (if j \<le> r \<and> r < j + length bs then bs ! (r - j) else disk c base lba ! r)"
      using le i(2) assms(2) by (auto simp: s' nth_append)
    ultimately show ?thesis using True i(1) by auto
  next
    case False
    then have "\<not> (b = base \<and> 512 * lba + j \<le> i \<and> i < 512 * lba + j + length bs)"
      using le by auto
    then show ?thesis using False assms(1) by (auto simp: disk_byte_def)
  qed
qed

lemma ata_write_loop_done:
  "unat e < i \<Longrightarrow> ata_write_loop io device st so e eo i wo ws tot buf c = Ret (tot, c)"
  by (simp add: ata_write_loop.simps)

lemma mem_write_Some: "j + length bs \<le> length buf \<Longrightarrow> \<exists>b. mem_write buf j bs = Some b \<and> length b = length buf"
  by (simp add: mem_write_def)

text \<open>One iteration of the loop: read the sector, change it, write it back.\<close>

definition ata_modify ::
    "'c ports \<Rightarrow> ata_drive \<Rightarrow> nat \<Rightarrow> u32 \<Rightarrow> u32 \<Rightarrow> bytes \<Rightarrow> ('c \<Rightarrow> 'r kres) \<Rightarrow> 'c \<Rightarrow> 'r kres" where
  "ata_modify io device i wo sz buf f c =
     kbind (or_hang (ata_read_sector_lba28 io device (of_nat i) c)) (\<lambda>(sector_buffer, c1).
     kbind (or_fault (mem_read buf 0 (unat sz))) (\<lambda>bs.
     kbind (or_fault (mem_write sector_buffer (unat wo) bs)) (\<lambda>sector_buffer1.
     kbind (or_hang (ata_write_sector_lba28 io device (of_nat i) sector_buffer1 c1)) f)))"

lemma ata_modify_sector:
  assumes ide: "ide_transfers io ok disk" and c: "ok c" and i: "i < 2 ^ 28"
    and len: "unat wo + unat sz \<le> 512" "unat sz \<le> length buf"
  shows "\<exists>c2. ata_modify io device i wo sz buf f c = f c2 \<and>
         ok c2 \<and> disk_written disk c c2 (ata_get_io_base device) (512 * i + unat wo) (take (unat sz) buf)"
proof -
  let ?b = "ata_get_io_base device"
  obtain c1 where s: "ata_read_sector_lba28 io device (of_nat i) c = Some (disk c ?b i, c1)" "ok c1"
      "disk c1 = disk c" "length (disk c ?b i) = 512"
    using read_sector [OF ide c i, of device] by blast
  have r: "mem_read buf 0 (unat sz) = Some (take (unat sz) buf)" using len by (simp add: mem_read_def)
  obtain s' where w: "mem_write (disk c ?b i) (unat wo) (take (unat sz) buf) = Some s'" "length s' = 512"
    using mem_write_Some [of "unat wo" "take (unat sz) buf" "disk c ?b i"] len s(4) by auto
  obtain c2 where c2: "ata_write_sector_lba28 io device (of_nat i) s' c1 = Some c2" "ok c2"
      "disk c2 = (disk c1)(?b := (disk c1 ?b)(i := s'))"
    using write_sector [OF ide s(2) i w(2), of device] by blast
  have "disk_written disk c c2 ?b (512 * i + unat wo) (take (unat sz) buf)"
    by (rule sector_write_bytes [of disk c2 c ?b i s', OF _ s(4) w(1)]) (use c2(3) s(3) in simp)
  then show ?thesis using s r w c2 by (auto simp: ata_modify_def)
qed

lemma ata_write_loop_step:
  "i \<le> unat e \<Longrightarrow> ata_write_loop io device st so e eo i wo ws tot buf c =
     (let wo1 = (if i = unat st then so else wo);
          ws2 = (if i = unat e then eo - wo1 + 1 else if i = unat st then 512 - wo1 else ws)
      in ata_modify io device i wo1 ws2 buf
           (ata_write_loop io device st so e eo (i + 1) wo1 ws2 (tot + ws2) (drop (unat ws2) buf)) c)"
  by (subst ata_write_loop.simps) (simp add: Let_def ata_modify_def ATA_SECTOR_SIZE_def)

lemma ata_write_loop_aligned:
  assumes ide: "ide_transfers io ok disk" and e: "unat e < 2 ^ 28" and eo: "unat eo < 512"
  shows "ok c \<Longrightarrow> i + d = unat e \<Longrightarrow> i = unat st \<or> (unat st < i \<and> ws = 512) \<Longrightarrow>
    512 * d + unat eo + 1 \<le> length buf \<Longrightarrow>
    \<exists>c'. ata_write_loop io device st 0 e eo i 0 ws tot buf c = Ret (tot + of_nat (512 * d + unat eo + 1), c') \<and>
      ok c' \<and> disk_written disk c c' (ata_get_io_base device) (512 * i) (take (512 * d + unat eo + 1) buf)"
proof (induction d arbitrary: i ws tot buf c)
  case 0
  have sz: "unat (eo + 1) = unat eo + 1" using eo by (simp add: unat_u32_add_small)
  have i: "i < 2 ^ 28" using 0(2) e by simp
  let ?f = "ata_write_loop io device st 0 e eo (i + 1) 0 (eo + 1) (tot + (eo + 1)) (drop (unat (eo + 1)) buf)"
  obtain c2 where c2: "ata_write_loop io device st 0 e eo i 0 ws tot buf c = ?f c2" "ok c2"
      "disk_written disk c c2 (ata_get_io_base device) (512 * i) (take (unat (eo + 1)) buf)"
    using ata_modify_sector [OF ide 0(1) i, of 0 "eo + 1" buf device ?f]
      ata_write_loop_step [of i e io device st 0 eo 0 ws tot buf c] sz eo 0 by (auto simp: Let_def)
  then show ?case using sz 0 by (simp add: ata_write_loop_done algebra_simps)
next
  case (Suc d)
  have i: "i < 2 ^ 28" using Suc.prems(2) e by simp
  let ?f = "ata_write_loop io device st 0 e eo (i + 1) 0 512 (tot + 512) (drop 512 buf)"
  obtain c2 where c2: "ata_write_loop io device st 0 e eo i 0 ws tot buf c = ?f c2" "ok c2"
      "disk_written disk c c2 (ata_get_io_base device) (512 * i) (take 512 buf)"
    using ata_modify_sector [OF ide Suc.prems(1) i, of 0 512 buf device ?f]
      ata_write_loop_step [of i e io device st 0 eo 0 ws tot buf c] Suc.prems by (auto simp: Let_def)
  have "\<exists>c'. ata_write_loop io device st 0 e eo (i + 1) 0 512 (tot + 512) (drop 512 buf) c2 =
      Ret (tot + 512 + of_nat (512 * d + unat eo + 1), c') \<and> ok c' \<and>
      disk_written disk c2 c' (ata_get_io_base device) (512 * (i + 1)) (take (512 * d + unat eo + 1) (drop 512 buf))"
    by (rule Suc.IH [OF c2(2)]) (use Suc.prems in auto)
  then obtain c' where c': "?f c2 = Ret (tot + 512 + of_nat (512 * d + unat eo + 1), c')" "ok c'"
      "disk_written disk c2 c' (ata_get_io_base device) (512 * (i + 1)) (take (512 * d + unat eo + 1) (drop 512 buf))"
    by blast
  have "disk_written disk c c' (ata_get_io_base device) (512 * i)
      (take 512 buf @ take (512 * d + unat eo + 1) (drop 512 buf))"
    by (rule disk_written_trans [OF c2(3)]) (use c'(3) Suc.prems(4) in \<open>simp add: algebra_simps\<close>)
  moreover have "take 512 buf @ take (512 * d + unat eo + 1) (drop 512 buf) = take (512 * Suc d + unat eo + 1) buf"
    by (simp add: take_add [symmetric] algebra_simps)
  ultimately show ?case using c2(1) c' by (simp add: algebra_simps)
qed

lemma ata_write_loop_single:
  assumes ide: "ide_transfers io ok disk" and e: "unat e < 2 ^ 28"
    and eo: "unat so \<le> unat eo" "unat eo < 512" and c: "ok c" and len: "unat eo - unat so + 1 \<le> length buf"
  shows "\<exists>c'. ata_write_loop io device e so e eo (unat e) 0 0 0 buf c = Ret (eo - so + 1, c') \<and> ok c' \<and>
      disk_written disk c c' (ata_get_io_base device) (512 * unat e + unat so) (take (unat eo - unat so + 1) buf)"
proof -
  have sz: "unat (eo - so + 1) = unat eo - unat so + 1"
    using eo by (simp add: unat_u32_add_small unat_u32_sub u32_le_iff)
  let ?f = "ata_write_loop io device e so e eo (unat e + 1) so (eo - so + 1) (0 + (eo - so + 1))
      (drop (unat (eo - so + 1)) buf)"
  obtain c2 where c2: "ata_write_loop io device e so e eo (unat e) 0 0 0 buf c = ?f c2" "ok c2"
      "disk_written disk c c2 (ata_get_io_base device) (512 * unat e + unat so) (take (unat (eo - so + 1)) buf)"
    using ata_modify_sector [OF ide c e, of so "eo - so + 1" buf device ?f]
      ata_write_loop_step [of "unat e" e io device e so eo 0 0 0 buf c] sz eo len by (auto simp: Let_def)
  then show ?thesis using sz by (simp add: ata_write_loop_done)
qed

subsection \<open>Temporary allocations\<close>

abbreviation oom :: nat where "oom \<equiv> KPANIC_KHEAP_OUT_OF_MEMORY_CODE"

text \<open>The heap is valid and holds the same blocks.\<close>

definition heap_same :: "kheap \<Rightarrow> kheap \<Rightarrow> bool" where
  "heap_same h h' \<longleftrightarrow> kheap_inv h' \<and> kheap_live h' = kheap_live h"

definition heap_plus :: "kheap \<Rightarrow> u32 \<Rightarrow> u32 \<Rightarrow> kheap \<Rightarrow> bool" where
  "heap_plus h p n h' \<longleftrightarrow> kheap_inv h' \<and> p \<noteq> 0 \<and>
     (\<exists>k \<ge> unat n. kheap_live h' = insert (unat p, k) (kheap_live h) \<and> (unat p, k) \<notin> kheap_live h)"

lemma heap_same_trans: "heap_same h h1 \<Longrightarrow> heap_same h1 h2 \<Longrightarrow> heap_same h h2"
  and heap_plus_same: "heap_plus h p n h1 \<Longrightarrow> heap_same h1 h2 \<Longrightarrow> heap_plus h p n h2"
  and heap_same_plus: "heap_same h h1 \<Longrightarrow> heap_plus h1 p n h2 \<Longrightarrow> heap_plus h p n h2"
  by (auto simp: heap_same_def heap_plus_def)

lemma heap_same_inv: "heap_same h h' \<Longrightarrow> kheap_inv h'"
  and heap_plus_inv: "heap_plus h p n h' \<Longrightarrow> kheap_inv h'"
  by (simp_all add: heap_same_def heap_plus_def)

lemma heap_same_refl: "kheap_inv h \<Longrightarrow> heap_same h h"
  by (simp add: heap_same_def)

lemma kmalloc_or_panic_plus:
  "kheap_inv h \<Longrightarrow> ret_or_panic oom (kmalloc_or_panic n h) (\<lambda>(p, h'). heap_plus h p n h' \<and> heap_data h' = heap_data h)"
  using kheap.alloc_returns [of h n] kheap.alloc_live [of h n]
  by (fastforce simp: kmalloc_or_panic_def heap_plus_def)

lemma kfree_plus: "heap_plus h p n h' \<Longrightarrow> heap_same h (kfree p h')"
  unfolding heap_plus_def heap_same_def using kheap.release_live [of h' "unat p"] by force

lemma ret_or_panic_temp:
  assumes "kheap_inv h"
    and "\<And>p h'. heap_plus h p n h' \<Longrightarrow> heap_data h' = heap_data h \<Longrightarrow> ret_or_panic oom (f p h') Q"
  shows "ret_or_panic oom (kbind (kmalloc_or_panic n h) (\<lambda>(p, h'). f p h')) Q"
  using assms by (intro ret_or_panic_bind [OF kmalloc_or_panic_plus]) auto

subsection \<open>Byte ranges of a drive\<close>

text \<open>A drive the driver serves, and a range of it that starts on a sector boundary or lies in one sector.\<close>

definition drive_ready :: "ata_device \<Rightarrow> bool" where
  "drive_ready d \<longleftrightarrow> present d \<and> lba_supported d"

definition sector_range :: "u32 \<Rightarrow> u32 \<Rightarrow> ata_device \<Rightarrow> bool" where
  "sector_range offset sz d \<longleftrightarrow> 0 < sz \<and> unat offset + unat sz \<le> unat (ata_size d) \<and>
     (512 dvd unat offset \<or> unat offset div 512 = (unat offset + unat sz - 1) div 512)"

lemma sector_range_unat:
  assumes "sector_range offset sz d"
  shows "unat ((offset + sz - 1) div 512) = (unat offset + unat sz - 1) div 512"
    and "unat ((offset + sz - 1) mod 512) = (unat offset + unat sz - 1) mod 512"
    and "\<not> ata_size d < offset + sz"
    and "unat ((offset + sz - 1) div 512) < 2 ^ 28"
proof -
  have le: "unat offset + unat sz \<le> unat (ata_size d)" "0 < unat sz"
    using assms by (auto simp: sector_range_def word_gt_0 unat_gt_0)
  then have s: "unat (offset + sz) = unat offset + unat sz"
    using unat_u32_less [of "ata_size d"] by (intro unat_u32_add_small) (simp only: le_less_trans)
  have "1 \<le> offset + sz" using s le by (simp add: u32_le_iff)
  then have m: "unat (offset + sz - 1) = unat offset + unat sz - 1" using s by (simp add: unat_u32_sub)
  then show "unat ((offset + sz - 1) div 512) = (unat offset + unat sz - 1) div 512"
    "unat ((offset + sz - 1) mod 512) = (unat offset + unat sz - 1) mod 512"
    by (simp_all add: unat_u32_div unat_u32_mod)
  show "\<not> ata_size d < offset + sz" using s le by (simp add: u32_less_iff)
  have "unat (offset + sz - 1) div 512 < 2 ^ 28"
    using less_trans [OF unat_u32_less [of "offset + sz - 1"], of 137438953472]
    by (simp add: div_less_iff_less_mult)
  then show "unat ((offset + sz - 1) div 512) < 2 ^ 28" by (simp add: unat_u32_div)
qed

lemma sector_range_cases:
  assumes "sector_range offset sz d"
  obtains (aligned) "offset mod 512 = 0" "unat offset = 512 * unat (offset div 512)"
      "unat (offset div 512) \<le> unat ((offset + sz - 1) div 512)"
      "512 * (unat ((offset + sz - 1) div 512) - unat (offset div 512)) +
        unat ((offset + sz - 1) mod 512) + 1 = unat sz"
    | (single) "offset div 512 = (offset + sz - 1) div 512"
      "unat (offset mod 512) \<le> unat ((offset + sz - 1) mod 512)"
      "unat ((offset + sz - 1) mod 512) - unat (offset mod 512) + 1 = unat sz"
      "512 * unat ((offset + sz - 1) div 512) + unat (offset mod 512) = unat offset"
proof -
  let ?o = "unat offset" and ?l = "unat offset + unat sz - 1"
  have sz: "0 < unat sz" using assms by (simp add: sector_range_def word_gt_0 unat_gt_0)
  note u = sector_range_unat(1,2) [OF assms]
  have l: "?l = 512 * (?l div 512) + ?l mod 512" "?o = 512 * (?o div 512) + ?o mod 512" by simp_all
  have le: "?o div 512 \<le> ?l div 512" using sz by (intro div_le_mono) simp
  show ?thesis
  proof (cases "512 dvd ?o")
    case True
    show ?thesis
    proof (rule aligned)
      show "offset mod 512 = 0" using True by (simp add: u32_eq_iff unat_u32_mod)
      show "?o = 512 * unat (offset div 512)" using True by (simp add: unat_u32_div)
      show "unat (offset div 512) \<le> unat ((offset + sz - 1) div 512)" using le u by (simp add: unat_u32_div)
      have o: "?o = 512 * (?o div 512)" using True by simp
      have "512 * (b - a) + r + 1 = n" if "512 * a + n - 1 = 512 * b + r" "a \<le> b" "0 < n" for a b r n :: nat
        using that by (simp add: diff_mult_distrib2)
      from this [OF _ le sz] show "512 * (unat ((offset + sz - 1) div 512) - unat (offset div 512)) +
          unat ((offset + sz - 1) mod 512) + 1 = unat sz"
        unfolding u unat_u32_div [of offset] using l(1) o by simp
    qed
  next
    case False
    then have eq: "?o div 512 = ?l div 512" using assms by (simp add: sector_range_def)
    have ml: "?o mod 512 + unat sz = ?l mod 512 + 1" using l eq sz by linarith
    have om: "unat (offset mod 512) = ?o mod 512" by (simp add: unat_u32_mod)
    show ?thesis
    proof (rule single)
      show "offset div 512 = (offset + sz - 1) div 512" using eq u by (simp add: u32_eq_iff unat_u32_div)
      show "unat (offset mod 512) \<le> unat ((offset + sz - 1) mod 512)"
        unfolding u om using ml sz by linarith
      show "unat ((offset + sz - 1) mod 512) - unat (offset mod 512) + 1 = unat sz"
        unfolding u om using ml sz by linarith
      show "512 * unat ((offset + sz - 1) div 512) + unat (offset mod 512) = ?o"
        unfolding u om using l eq by linarith
    qed
  qed
qed

lemma ata_read_eq:
  assumes ide: "ide_transfers io ok disk" and ok: "ok (k_hw k)"
    and d: "drive_ready (ata_devices k device)" and r: "sector_range offset sz (ata_devices k device)"
  shows "\<exists>c'. ata_read io device offset sz k = kbind (kmalloc_or_panic 512 (k_heap k)) (\<lambda>(p, h).
      Ret ((sz, disk_range disk (k_hw k) (ata_get_io_base device) (unat offset) (unat sz)),
        k\<lparr>k_heap := kfree p h, k_hw := c'\<rparr>)) \<and> ok c' \<and> disk c' = disk (k_hw k)"
proof -
  let ?e = "(offset + sz - 1) div 512" and ?eo = "(offset + sz - 1) mod 512"
  let ?st = "offset div 512" and ?so = "offset mod 512"
  note u = sector_range_unat [OF r]
  have eo: "unat ?eo < 512" by (simp add: u)
  have "\<exists>c'. ata_read_loop io device ?st ?so ?e ?eo (unat ?st) 0 0 0 [] (k_hw k) =
      Ret ((sz, disk_range disk (k_hw k) (ata_get_io_base device) (unat offset) (unat sz)), c') \<and>
      ok c' \<and> disk c' = disk (k_hw k)"
    using r
  proof (cases rule: sector_range_cases)
    case aligned
    show ?thesis
      using ata_read_loop_aligned [OF ide u(4) eo ok, of "unat ?st" "unat ?e - unat ?st" ?st 0 device 0 "[]", unfolded aligned(4)]
        aligned by simp
  next
    case single
    have eq: "?eo - ?so + 1 = sz"
      using single(2,3) eo by (simp add: u32_eq_iff unat_u32_add_small unat_u32_sub u32_le_iff)
    show ?thesis
      using ata_read_loop_single [OF ide u(4) single(2) eo ok, of device] single eq by simp
  qed
  then obtain c' where c': "ata_read_loop io device ?st ?so ?e ?eo (unat ?st) 0 0 0 [] (k_hw k) =
      Ret ((sz, disk_range disk (k_hw k) (ata_get_io_base device) (unat offset) (unat sz)), c')"
      "ok c'" "disk c' = disk (k_hw k)" by blast
  have "ata_read io device offset sz k = kbind (kmalloc_or_panic 512 (k_heap k)) (\<lambda>(p, h).
      Ret ((sz, disk_range disk (k_hw k) (ata_get_io_base device) (unat offset) (unat sz)),
        k\<lparr>k_heap := kfree p h, k_hw := c'\<rparr>))"
    using d u(3) c'(1) by (simp add: ata_read_def drive_ready_def Let_def ATA_SECTOR_SIZE_def)
  then show ?thesis using c'(2,3) by blast
qed

lemma ata_read_range:
  assumes ide: "ide_transfers io ok disk" and ok: "ok (k_hw k)" and h: "kheap_inv (k_heap k)"
    and d: "drive_ready (ata_devices k device)" and r: "sector_range offset sz (ata_devices k device)"
  shows "ret_or_panic oom (ata_read io device offset sz k) (\<lambda>((n, bs), k').
    n = sz \<and> bs = disk_range disk (k_hw k) (ata_get_io_base device) (unat offset) (unat sz) \<and>
    ok (k_hw k') \<and> disk (k_hw k') = disk (k_hw k) \<and> heap_same (k_heap k) (k_heap k') \<and>
    (\<exists>h c. k' = k\<lparr>k_heap := h, k_hw := c\<rparr>))"
proof -
  obtain c' where "ata_read io device offset sz k = kbind (kmalloc_or_panic 512 (k_heap k)) (\<lambda>(p, h).
      Ret ((sz, disk_range disk (k_hw k) (ata_get_io_base device) (unat offset) (unat sz)),
        k\<lparr>k_heap := kfree p h, k_hw := c'\<rparr>))" "ok c'" "disk c' = disk (k_hw k)"
    using ata_read_eq [OF ide ok d r] by blast
  then show ?thesis using h kfree_plus by (auto intro!: ret_or_panic_temp) metis
qed

lemma ata_write_range:
  assumes ide: "ide_transfers io ok disk" and ok: "ok (k_hw k)" and h: "kheap_inv (k_heap k)"
    and d: "drive_ready (ata_devices k device)" and r: "sector_range offset sz (ata_devices k device)"
    and len: "unat sz \<le> length buf"
  shows "ret_or_panic oom (ata_write io device offset sz buf k) (\<lambda>(n, k').
    n = sz \<and> ok (k_hw k') \<and> heap_same (k_heap k) (k_heap k') \<and> ata_devices k' = ata_devices k \<and>
    disk_written disk (k_hw k) (k_hw k') (ata_get_io_base device) (unat offset) (take (unat sz) buf))"
proof -
  let ?e = "(offset + sz - 1) div 512" and ?eo = "(offset + sz - 1) mod 512"
  let ?st = "offset div 512" and ?so = "offset mod 512"
  note u = sector_range_unat [OF r]
  have eo: "unat ?eo < 512" by (simp add: u)
  have "\<exists>c'. ata_write_loop io device ?st ?so ?e ?eo (unat ?st) 0 0 0 buf (k_hw k) = Ret (sz, c') \<and> ok c' \<and>
      disk_written disk (k_hw k) c' (ata_get_io_base device) (unat offset) (take (unat sz) buf)"
    using r
  proof (cases rule: sector_range_cases)
    case aligned
    show ?thesis
      using ata_write_loop_aligned [OF ide u(4) eo ok, of "unat ?st" "unat ?e - unat ?st" ?st 0 buf device 0, unfolded aligned(4)]
        aligned len by simp
  next
    case single
    have eq: "?eo - ?so + 1 = sz"
      using single(2,3) eo by (simp add: u32_eq_iff unat_u32_add_small unat_u32_sub u32_le_iff)
    show ?thesis
      using ata_write_loop_single [OF ide u(4) single(2) eo ok, of buf device] single eq len by simp
  qed
  then obtain c' where c': "ata_write_loop io device ?st ?so ?e ?eo (unat ?st) 0 0 0 buf (k_hw k) = Ret (sz, c')"
      "ok c'" "disk_written disk (k_hw k) c' (ata_get_io_base device) (unat offset) (take (unat sz) buf)" by blast
  have "ata_write io device offset sz buf k = kbind (kmalloc_or_panic 512 (k_heap k)) (\<lambda>(p, h).
      Ret (sz, k\<lparr>k_heap := kfree p h, k_hw := c'\<rparr>))"
    using d u(3) c'(1) by (simp add: ata_write_def drive_ready_def Let_def ATA_SECTOR_SIZE_def)
  then show ?thesis using c'(2,3) h kfree_plus by (auto intro!: ret_or_panic_temp)
qed

end
