(* ===== verification/Ata_Disk.thy ===== *)
theory Ata_Disk
  imports Ata_Props
begin

text \<open>
  A concrete IDE controller that meets \<open>ide_transfers\<close>, and the properties of the IDE driver: byte
  ranges of a drive behave as a flat array of bytes.
\<close>

subsection \<open>A controller\<close>

text \<open>The registers by port, the position of the transfer and the sectors of the two master drives.\<close>

record ide =
  ide_reg :: "u16 \<Rightarrow> u8"
  ide_pos :: nat
  ide_store :: "u16 \<Rightarrow> u32 \<Rightarrow> u16 list"

definition ide_lba :: "ide \<Rightarrow> u16 \<Rightarrow> u32" where
  "ide_lba c base = ucast (ide_reg c (base + 3)) OR push_bit 8 (ucast (ide_reg c (base + 4))) OR
     push_bit 16 (ucast (ide_reg c (base + 5))) OR push_bit 24 (ucast (ide_reg c (base + 6) AND 0x0F))"

definition ide_ports :: "ide ports" where
  "ide_ports = \<lparr>
     outb = (\<lambda>p v c. c\<lparr>ide_reg := (ide_reg c)(p := v), ide_pos := if p \<in> {0x1F7, 0x177} then 0 else ide_pos c\<rparr>),
     inb = (\<lambda>p c. (0, c)),
     outw = (\<lambda>p w c. c\<lparr>ide_store := (ide_store c)(p := (ide_store c p)(ide_lba c p :=
                 (ide_store c p (ide_lba c p))[ide_pos c := w])), ide_pos := ide_pos c + 1\<rparr>),
     inw = (\<lambda>p c. (ide_store c p (ide_lba c p) ! ide_pos c, c\<lparr>ide_pos := ide_pos c + 1\<rparr>))\<rparr>"

definition ide_ok :: "ide \<Rightarrow> bool" where
  "ide_ok c \<longleftrightarrow> (\<forall>b l. length (ide_store c b l) = 256)"

definition ide_disk :: "ide \<Rightarrow> u16 \<Rightarrow> nat \<Rightarrow> bytes" where
  "ide_disk c base lba = (if lba < 2 ^ 32 then bytes_of_words (ide_store c base (of_nat lba)) else [])"

lemma lba_masks:
  "(0xFF :: u32) = mask 8" "(0xFF00 :: u32) = push_bit 8 (mask 8)"
  "(0xFF0000 :: u32) = push_bit 16 (mask 8)" "(0x0F :: u32) = mask 4" "(0x0F :: u8) = mask 4"
  "(0xE0 :: u8) = push_bit 5 (mask 3)"
  by (simp_all add: mask_eq_exp_minus_1)

lemma lba_registers:
  assumes "(w :: u32) < 2 ^ 28"
  shows "ucast (ucast (w AND 0xFF) :: u8) OR push_bit 8 (ucast (ucast (drop_bit 8 (w AND 0xFF00)) :: u8)) OR
    push_bit 16 (ucast (ucast (drop_bit 16 (w AND 0xFF0000)) :: u8)) OR
    push_bit 24 (ucast ((0xE0 OR ucast (drop_bit 24 w AND 0x0F) :: u8) AND 0x0F)) = w"
proof -
  have b: "\<not> bit w n" if "28 \<le> n" for n
  proof -
    have "w = take_bit 28 w" using assms by (simp add: take_bit_eq_mask less_mask_eq)
    then show ?thesis using that by (metis bit_take_bit_iff not_less)
  qed
  show ?thesis unfolding lba_masks
  proof (rule bit_word_eqI, goal_cases)
    case (1 n)
    consider "n < 8" | "8 \<le> n" "n < 16" | "16 \<le> n" "n < 24" | "24 \<le> n" "n < 28" | "28 \<le> n" by linarith
    then show ?case by cases (use b in \<open>auto simp: bit_simps\<close>)
  qed
qed

lemma ide_select:
  assumes "base \<in> {0x1F0, 0x170}" and "w < 2 ^ 28"
  shows "ide_lba (ata_select_sector ide_ports base w cmd c) base = w"
    "ide_pos (ata_select_sector ide_ports base w cmd c) = 0"
    "ide_store (ata_select_sector ide_ports base w cmd c) = ide_store c"
  using assms lba_registers [OF assms(2)]
  by (auto simp: ata_select_sector_def ide_ports_def Let_def ide_lba_def ATA_DRIVE_REGISTER_def
      ATA_SECTOR_COUNT_REGISTER_def ATA_LBA_LOW_REGISTER_def ATA_LBA_MID_REGISTER_def
      ATA_LBA_HIGH_REGISTER_def ATA_COMMAND_REGISTER_def)

lemma ide_transfer_simps:
  "outw ide_ports p w c = c\<lparr>ide_store := (ide_store c)(p := (ide_store c p)(ide_lba c p :=
     (ide_store c p (ide_lba c p))[ide_pos c := w])), ide_pos := ide_pos c + 1\<rparr>"
  "inw ide_ports p c = (ide_store c p (ide_lba c p) ! ide_pos c, c\<lparr>ide_pos := ide_pos c + 1\<rparr>)"
  "ide_lba (c\<lparr>ide_store := s\<rparr>) p = ide_lba c p"
  "ide_lba (c\<lparr>ide_pos := n\<rparr>) p = ide_lba c p"
  by (simp_all add: ide_ports_def ide_lba_def)

lemma ide_wait: "ata_wait_ready ide_ports base c = Some c"
  by (simp add: ata_wait_ready.simps ide_ports_def)

lemma ide_in_words:
  "ide_pos c + n = length (ide_store c base (ide_lba c base)) \<Longrightarrow>
   ata_in_words ide_ports base n c =
     (drop (ide_pos c) (ide_store c base (ide_lba c base)), c\<lparr>ide_pos := ide_pos c + n\<rparr>)"
proof (induction n arbitrary: c)
  case 0
  then show ?case by simp
next
  case (Suc n)
  have "ide_pos c < length (ide_store c base (ide_lba c base))" using Suc.prems by simp
  then show ?case using Suc.prems Suc.IH [of "c\<lparr>ide_pos := Suc (ide_pos c)\<rparr>"]
    by (simp add: ide_transfer_simps Cons_nth_drop_Suc)
qed

lemma ide_out_words:
  "ide_pos c + length ws = length (ide_store c base (ide_lba c base)) \<Longrightarrow>
   ata_out_words ide_ports base ws c =
     c\<lparr>ide_store := (ide_store c)(base := (ide_store c base)(ide_lba c base :=
          take (ide_pos c) (ide_store c base (ide_lba c base)) @ ws)),
       ide_pos := ide_pos c + length ws\<rparr>"
proof (induction ws arbitrary: c)
  case Nil
  then show ?case by simp
next
  case (Cons w ws)
  define l where "l = ide_lba c base"
  define t where "t = ide_store c base l"
  define c1 where "c1 = c\<lparr>ide_store := (ide_store c)(base := (ide_store c base)(l := t[ide_pos c := w])),
    ide_pos := Suc (ide_pos c)\<rparr>"
  have pl: "ide_pos c + Suc (length ws) = length t" using Cons.prems by (simp add: t_def l_def)
  then have tk: "take (Suc (ide_pos c)) (t[ide_pos c := w]) = take (ide_pos c) t @ [w]"
    by (simp add: take_Suc_conv_app_nth)
  have c1: "ide_lba c1 base = l" "ide_store c1 base l = t[ide_pos c := w]" "ide_pos c1 = Suc (ide_pos c)"
    by (simp_all add: c1_def ide_transfer_simps l_def)
  have "ata_out_words ide_ports base (w # ws) c = ata_out_words ide_ports base ws c1"
    by (simp add: ide_transfer_simps c1_def l_def t_def)
  also have "\<dots> = c1\<lparr>ide_store := (ide_store c1)(base := (ide_store c1 base)(l := take (ide_pos c) t @ w # ws)),
      ide_pos := ide_pos c + length (w # ws)\<rparr>"
    using Cons.IH [of c1, unfolded c1] pl tk by (simp add: fun_upd_def)
  also have "\<dots> = c\<lparr>ide_store := (ide_store c)(base := (ide_store c base)(l := take (ide_pos c) t @ w # ws)),
      ide_pos := ide_pos c + length (w # ws)\<rparr>"
    by (simp add: c1_def)
  finally show ?case by (simp add: t_def l_def fun_upd_def)
qed

lemma ide_transfers_ide: "ide_transfers ide_ports ide_ok ide_disk"
  unfolding ide_transfers_def
proof (intro allI impI conjI)
  fix c :: ide and base :: u16 and lba :: nat
  assume ok: "ide_ok c" and b: "base \<in> {0x1F0, 0x170}" and l: "lba < 2 ^ 28"
  have w: "(of_nat lba :: u32) < 2 ^ 28" using l by (simp add: u32_less_iff)
  have len: "length (ide_store c b l) = 256" for b l using ok by (simp add: ide_ok_def)
  show "\<exists>c1. ata_wait_ready ide_ports base (ata_select_sector ide_ports base (of_nat lba) 0x20 c) = Some c1 \<and>
      (let (ws, c2) = ata_in_words ide_ports base 256 c1
       in bytes_of_words ws = ide_disk c base lba \<and> ide_ok c2 \<and> ide_disk c2 = ide_disk c)"
    using ide_in_words [of "ata_select_sector ide_ports base (of_nat lba) 0x20 c" 256 base] l ok
    by (auto simp: ide_wait ide_select [OF b w] len ide_disk_def ide_ok_def fun_eq_iff)
  show "\<exists>c1. ata_wait_ready ide_ports base (ata_select_sector ide_ports base (of_nat lba) 0x30 c) = Some c1 \<and>
      (\<forall>ws. length ws = 256 \<longrightarrow> (let c2 = ata_out_words ide_ports base ws c1
         in ide_ok c2 \<and> ide_disk c2 = (ide_disk c)(base := (ide_disk c base)(lba := bytes_of_words ws))))"
  proof (intro exI conjI allI impI)
    show "ata_wait_ready ide_ports base (ata_select_sector ide_ports base (of_nat lba) 0x30 c) =
        Some (ata_select_sector ide_ports base (of_nat lba) 0x30 c)" by (rule ide_wait)
    fix ws :: "u16 list" assume ws: "length ws = 256"
    show "let c2 = ata_out_words ide_ports base ws (ata_select_sector ide_ports base (of_nat lba) 0x30 c)
         in ide_ok c2 \<and> ide_disk c2 = (ide_disk c)(base := (ide_disk c base)(lba := bytes_of_words ws))"
      using ide_out_words [of "ata_select_sector ide_ports base (of_nat lba) 0x30 c" ws base] ws l ok
      by (auto simp: ide_select [OF b w] len ide_disk_def ide_ok_def fun_eq_iff of_nat_u32_eq_iff)
  qed
qed

text \<open>A machine with this controller, one present drive and a fresh heap.\<close>

definition small_ide :: ide where
  "small_ide = \<lparr>ide_reg = (\<lambda>_. 0), ide_pos = 0, ide_store = (\<lambda>b l. replicate 256 (ucast l))\<rparr>"

definition small_kernel :: "ide kernel" where
  "small_kernel = \<lparr>k_heap = fresh_heap, k_hw = small_ide,
     ata_devices = (\<lambda>_. \<lparr>present = True, lba_supported = True, lba48_supported = False, ata_size = 0x100000\<rparr>),
     initrd_base = [], initrd_size = 0\<rparr>"

lemma small_ide_ok: "ide_ok small_ide"
  by (simp add: ide_ok_def small_ide_def)

subsection \<open>Properties\<close>

text \<open>
  C18. On an operational controller, reading a range of a present drive that starts on a sector
  boundary or lies in one sector returns its size and exactly those bytes of the flat disk, leaves
  the disk unchanged and releases the sector buffer; the only other outcome is the panic for an
  exhausted kernel heap. The bytes are those of the master drive of the channel, whichever of its
  two drives is asked for.
\<close>

theorem ata_read_correct:
  assumes "ide_transfers io ok disk" and "ok (k_hw k)" and "kheap_inv (k_heap k)"
    and "drive_ready (ata_devices k device)" and "sector_range offset sz (ata_devices k device)"
  shows "ret_or_panic oom (ata_read io device offset sz k) (\<lambda>((n, bs), k').
    n = sz \<and> bs = disk_range disk (k_hw k) (ata_get_io_base device) (unat offset) (unat sz) \<and>
    disk (k_hw k') = disk (k_hw k) \<and> heap_same (k_heap k) (k_heap k'))"
  by (rule ret_or_panic_mono [OF ata_read_range [OF assms]]) auto

theorem ata_read_correct_witness:
  "ret_or_panic oom (ata_read ide_ports ATA_PRIMARY_MASTER_DRIVE 1024 1024 small_kernel)
     (\<lambda>((n, bs), k'). n = 1024 \<and> bs = disk_range ide_disk small_ide 0x1F0 1024 1024 \<and>
        ide_disk (k_hw k') = ide_disk small_ide \<and> heap_same fresh_heap (k_heap k'))"
  using ata_read_correct [OF ide_transfers_ide, of small_kernel ATA_PRIMARY_MASTER_DRIVE 1024 1024]
  by (simp add: small_kernel_def small_ide_ok fresh_heap_inv drive_ready_def sector_range_def)

text \<open>
  C19. On an operational controller, writing a non-empty range of a present drive with LBA that lies inside the
  drive and starts on a sector boundary or lies in one sector, and reading that range back, returns its size
  and the bytes written, and no other byte of any disk changes; the only other outcome is the panic for an
  exhausted kernel heap. The disk is the master drive of the channel, whichever of its two drives is asked
  for. Ranges that start inside a sector and go on into the next are left out: for them \<open>ata_write\<close> and
  \<open>ata_read\<close> use the offset inside the first sector for all the later sectors, too.
\<close>

theorem ata_write_read_roundtrip:
  assumes "ide_transfers io ok disk" and "ok (k_hw k)" and "kheap_inv (k_heap k)"
    and "drive_ready (ata_devices k device)" and "sector_range offset sz (ata_devices k device)"
    and "length bs = unat sz"
  shows "ret_or_panic oom (kbind (ata_write io device offset sz bs k) (\<lambda>(n, k1). ata_read io device offset sz k1))
    (\<lambda>((n, bs'), k'). n = sz \<and> bs' = bs \<and>
       disk_written disk (k_hw k) (k_hw k') (ata_get_io_base device) (unat offset) bs)"
proof (rule ret_or_panic_bind [OF ata_write_range [OF assms(1-5)]])
  show "unat sz \<le> length bs" using assms(6) by simp
  fix r :: "u32 \<times> ('a, 'b) kernel_scheme"
  assume "case r of (n, k1) \<Rightarrow> n = sz \<and> ok (k_hw k1) \<and> heap_same (k_heap k) (k_heap k1) \<and>
    ata_devices k1 = ata_devices k \<and>
    disk_written disk (k_hw k) (k_hw k1) (ata_get_io_base device) (unat offset) (take (unat sz) bs)"
  then obtain k1 where r: "r = (sz, k1)" and k1: "ok (k_hw k1)" "kheap_inv (k_heap k1)"
      "ata_devices k1 = ata_devices k"
      and w: "disk_written disk (k_hw k) (k_hw k1) (ata_get_io_base device) (unat offset) bs"
    using assms(6) heap_same_inv by (cases r) auto
  have b: "disk_range disk (k_hw k1) (ata_get_io_base device) (unat offset) (unat sz) = bs"
    using disk_written_read [OF w] assms(6) by simp
  have "disk_written disk (k_hw k) (k_hw k2) base off bs"
    if "disk (k_hw k2) = disk (k_hw k1)" "disk_written disk (k_hw k) (k_hw k1) base off bs"
    for k2 :: "('a, 'b) kernel_scheme" and base off
    using that by (simp add: disk_written_def disk_byte_def)
  then show "ret_or_panic oom (case r of (n, k1) \<Rightarrow> ata_read io device offset sz k1)
      (\<lambda>((n, bs'), k'). n = sz \<and> bs' = bs \<and>
         disk_written disk (k_hw k) (k_hw k') (ata_get_io_base device) (unat offset) bs)"
    using ata_read_range [OF assms(1) k1(1,2), of device offset sz] assms(4,5) k1(3) r b w
    by (auto elim!: ret_or_panic_mono)
qed

theorem ata_write_read_roundtrip_witness:
  "ret_or_panic oom (kbind (ata_write ide_ports ATA_SECONDARY_MASTER_DRIVE 700 3 [1, 2, 3] small_kernel)
       (\<lambda>(n, k1). ata_read ide_ports ATA_SECONDARY_MASTER_DRIVE 700 3 k1))
     (\<lambda>((n, bs'), k'). n = 3 \<and> bs' = [1, 2, 3] \<and>
        disk_written ide_disk small_ide (k_hw k') 0x170 700 [1, 2, 3])"
  using ata_write_read_roundtrip [OF ide_transfers_ide, of small_kernel ATA_SECONDARY_MASTER_DRIVE 700 3 "[1, 2, 3]"]
  by (simp add: small_kernel_def small_ide_ok fresh_heap_inv drive_ready_def sector_range_def)

end
