(* ===== verification/Strfmt.thy ===== *)
theory Strfmt
  imports CString
begin

text \<open>
  Number conversion and formatted output: \<open>itoa\<close> and \<open>gcvt\<close> of \<open>kernel/src/util/numeric.c\<close>,
  \<open>vstrfmt\<close> of \<open>kernel/src/util/string.c\<close>, \<open>stream_vprintf\<close> of \<open>kernel/src/io/stream.c\<close> and \<open>vprintf\<close>
  of \<open>libc/src/stdio/printf.c\<close>.

  Buffers are byte lists with bounds; a store past the end is \<open>None\<close>. Variable arguments are a
  list of tagged values, and fetching an argument of another kind is \<open>None\<close>. Floating-point
  arithmetic of the target is a record of operations.
\<close>

subsection \<open>itoa\<close>

definition ITOA_CHARS :: bytes where
  "ITOA_CHARS = str ''0123456789ABCDEFGHIJKLMNOPQRSTUVWXYZ''"

partial_function (option) itoa_loop :: "u32 \<Rightarrow> u32 \<Rightarrow> bytes \<Rightarrow> nat \<Rightarrow> (bytes \<times> nat) option" where
  "itoa_loop n base buf ptr =
     (if n \<noteq> 0
      then case put buf ptr (ITOA_CHARS ! unat (n mod base)) of
             None \<Rightarrow> None
           | Some buf' \<Rightarrow> itoa_loop (n div base) base buf' (ptr + 1)
      else Some (buf, ptr))"

definition itoa :: "u32 \<Rightarrow> bytes \<Rightarrow> u32 \<Rightarrow> bytes option" where
  "itoa n buf base =
     (if base < 2 \<or> base > 32 then put buf 0 0
      else if n = 0
      then Option.bind (put buf 0 (asc CHR ''0'')) (\<lambda>buf1. put buf1 1 0)
      else let is_negative = (sint n < 0 \<and> base = 10);
               n' = (if is_negative then - n else n)
           in Option.bind (itoa_loop n' base buf 0) (\<lambda>(buf1, ptr).
              Option.bind (if is_negative then map_option (\<lambda>b. (b, ptr + 1)) (put buf1 ptr (asc CHR ''-''))
                           else Some (buf1, ptr)) (\<lambda>(buf2, ptr2).
              Option.bind (put buf2 ptr2 0) strrev)))"

subsection \<open>gcvt\<close>

text \<open>The floating-point operations that \<open>gcvt\<close> uses: \<open>(int) n\<close>, \<open>n - i\<close> for an integer, \<open>n * 10\<close>.\<close>

record 'd fpu =
  to_int :: "'d \<Rightarrow> u32"
  sub_int :: "'d \<Rightarrow> u32 \<Rightarrow> 'd"
  mul10 :: "'d \<Rightarrow> 'd"

fun gcvt_digits :: "'d fpu \<Rightarrow> nat \<Rightarrow> 'd \<Rightarrow> bytes \<Rightarrow> nat \<Rightarrow> (bytes \<times> nat) option" where
  "gcvt_digits fp 0 fraction_part buf ptr = Some (buf, ptr)"
| "gcvt_digits fp (Suc k) fraction_part buf ptr =
     (let f = mul10 fp fraction_part; digit = to_int fp f
      in Option.bind (put buf ptr (asc CHR ''0'' + ucast digit))
           (\<lambda>buf'. gcvt_digits fp k (sub_int fp f digit) buf' (ptr + 1)))"

definition gcvt :: "'d fpu \<Rightarrow> 'd \<Rightarrow> nat \<Rightarrow> bytes \<Rightarrow> bytes option" where
  "gcvt fp n precision buf =
     (let whole_part = to_int fp n; fraction_part = sub_int fp n whole_part
      in Option.bind (itoa whole_part buf 10) (\<lambda>buf1.
         Option.bind (strlen buf1) (\<lambda>len.
         Option.bind (put buf1 (unat len) (asc CHR ''.'')) (\<lambda>buf2.
         Option.bind (gcvt_digits fp precision fraction_part buf2 (unat len + 1)) (\<lambda>(buf3, ptr).
         put buf3 ptr 0)))))"

subsection \<open>Formatted output\<close>

datatype 'd va_arg = VInt u32 | VStr bytes | VPtr u32 | VDouble 'd

text \<open>The contents of an uninitialised \<open>char num_str[32]\<close>; the functions write it before they read it.\<close>

definition num_str :: bytes where
  "num_str = replicate 32 0xCC"

text \<open>Copy a string into the output: the \<open>%s\<close> loop and the loops over \<open>num_str\<close>.\<close>

fun put_chars :: "bytes \<Rightarrow> bytes \<Rightarrow> nat \<Rightarrow> (bytes \<times> nat) option" where
  "put_chars [] out count = None"
| "put_chars (c # s) out count =
     (if c = 0 then Some (out, count)
      else Option.bind (put out count c) (\<lambda>out'. put_chars s out' (count + 1)))"

definition vstrfmt_conv ::
    "'d fpu \<Rightarrow> u8 \<Rightarrow> 'd va_arg list \<Rightarrow> bytes \<Rightarrow> nat \<Rightarrow> ('d va_arg list \<times> bytes \<times> nat) option" where
  "vstrfmt_conv fp f args out count =
     (if f = asc CHR ''%'' then map_option (\<lambda>out'. (args, out', count + 1)) (put out count (asc CHR ''%''))
      else if f = asc CHR ''c'' then
        (case args of VInt n # args' \<Rightarrow>
           map_option (\<lambda>out'. (args', out', count + 1)) (put out count (ucast n)) | _ \<Rightarrow> None)
      else if f = asc CHR ''s'' then
        (case args of VStr s # args' \<Rightarrow>
           map_option (Pair args') (put_chars s out count) | _ \<Rightarrow> None)
      else if f = asc CHR ''d'' then
        (case args of VInt n # args' \<Rightarrow>
           map_option (Pair args')
             (Option.bind (itoa n num_str 10) (\<lambda>s. put_chars s out count)) | _ \<Rightarrow> None)
      else if f = asc CHR ''x'' then
        (case args of VInt n # args' \<Rightarrow>
           map_option (Pair args')
             (Option.bind (put out count (asc CHR ''0'')) (\<lambda>out1.
              Option.bind (put out1 (count + 1) (asc CHR ''x'')) (\<lambda>out2.
              Option.bind (itoa n num_str 16) (\<lambda>s. put_chars s out2 (count + 2))))) | _ \<Rightarrow> None)
      else if f = asc CHR ''p'' then
        (case args of VPtr n # args' \<Rightarrow>
           map_option (Pair args')
             (Option.bind (itoa n num_str 16) (\<lambda>s. put_chars s out count)) | _ \<Rightarrow> None)
      else if f = asc CHR ''b'' then
        (case args of VInt n # args' \<Rightarrow>
           map_option (Pair args')
             (Option.bind (put out count (asc CHR ''0'')) (\<lambda>out1.
              Option.bind (put out1 (count + 1) (asc CHR ''b'')) (\<lambda>out2.
              Option.bind (itoa n num_str 2) (\<lambda>s. put_chars s out2 (count + 2))))) | _ \<Rightarrow> None)
      else if f = asc CHR ''f'' then
        (case args of VDouble d # args' \<Rightarrow>
           map_option (Pair args')
             (Option.bind (gcvt fp d 2 num_str) (\<lambda>s. put_chars s out count)) | _ \<Rightarrow> None)
      else Some (args, out, count))"

fun vstrfmt_loop ::
    "'d fpu \<Rightarrow> bytes \<Rightarrow> 'd va_arg list \<Rightarrow> bytes \<Rightarrow> nat \<Rightarrow> (bytes \<times> nat) option" where
  "vstrfmt_loop fp [] args out count = None"
| "vstrfmt_loop fp (c # format) args out count =
     (if c = 0 then Some (out, count)
      else if c = asc CHR ''%''
      then (case format of
              [] \<Rightarrow> None
            | f # format' \<Rightarrow>
                Option.bind (vstrfmt_conv fp f args out count) (\<lambda>(args', out', count').
                  vstrfmt_loop fp format' args' out' count'))
      else Option.bind (put out count c) (\<lambda>out'. vstrfmt_loop fp format args out' (count + 1)))"

definition vstrfmt :: "'d fpu \<Rightarrow> bytes \<Rightarrow> bytes \<Rightarrow> 'd va_arg list \<Rightarrow> (bytes \<times> nat) option" where
  "vstrfmt fp out format args =
     Option.bind (vstrfmt_loop fp format args out 0) (\<lambda>(out', count).
     Option.bind (put out' count 0) (\<lambda>out''. Some (out'', count)))"

text \<open>
  \<open>stream_vprintf\<close>: \<open>putc\<close> is the \<open>putchar\<close> function of the stream, acting on the state behind it.
\<close>

fun stream_chars :: "(u8 \<Rightarrow> 's \<Rightarrow> 's) \<Rightarrow> bytes \<Rightarrow> 's \<Rightarrow> nat \<Rightarrow> ('s \<times> nat) option" where
  "stream_chars putc [] st count = None"
| "stream_chars putc (c # s) st count =
     (if c = 0 then Some (st, count) else stream_chars putc s (putc c st) (count + 1))"

definition stream_conv ::
    "(u8 \<Rightarrow> 's \<Rightarrow> 's) \<Rightarrow> 'd fpu \<Rightarrow> u8 \<Rightarrow> 'd va_arg list \<Rightarrow> 's \<Rightarrow> nat \<Rightarrow> ('d va_arg list \<times> 's \<times> nat) option" where
  "stream_conv putc fp f args st count =
     (if f = asc CHR ''%'' then Some (args, putc (asc CHR ''%'') st, count + 1)
      else if f = asc CHR ''c'' then
        (case args of VInt n # args' \<Rightarrow> Some (args', putc (ucast n) st, count + 1) | _ \<Rightarrow> None)
      else if f = asc CHR ''s'' then
        (case args of VStr s # args' \<Rightarrow>
           map_option (Pair args') (stream_chars putc s st count) | _ \<Rightarrow> None)
      else if f = asc CHR ''d'' then
        (case args of VInt n # args' \<Rightarrow>
           map_option (Pair args')
             (Option.bind (itoa n num_str 10) (\<lambda>s. stream_chars putc s st count)) | _ \<Rightarrow> None)
      else if f = asc CHR ''x'' then
        (case args of VInt n # args' \<Rightarrow>
           map_option (Pair args')
             (let st2 = putc (asc CHR ''x'') (putc (asc CHR ''0'') st)
              in Option.bind (itoa n num_str 16) (\<lambda>s. stream_chars putc s st2 count)) | _ \<Rightarrow> None)
      else if f = asc CHR ''p'' then
        (case args of VPtr n # args' \<Rightarrow>
           map_option (Pair args')
             (Option.bind (itoa n num_str 16) (\<lambda>s. stream_chars putc s st count)) | _ \<Rightarrow> None)
      else if f = asc CHR ''b'' then
        (case args of VInt n # args' \<Rightarrow>
           map_option (Pair args')
             (let st2 = putc (asc CHR ''b'') (putc (asc CHR ''0'') st)
              in Option.bind (itoa n num_str 2) (\<lambda>s. stream_chars putc s st2 count)) | _ \<Rightarrow> None)
      else if f = asc CHR ''f'' then
        (case args of VDouble d # args' \<Rightarrow>
           map_option (Pair args')
             (Option.bind (gcvt fp d 2 num_str) (\<lambda>s. stream_chars putc s st count)) | _ \<Rightarrow> None)
      else Some (args, st, count))"

fun stream_vprintf_loop ::
    "(u8 \<Rightarrow> 's \<Rightarrow> 's) \<Rightarrow> 'd fpu \<Rightarrow> bytes \<Rightarrow> 'd va_arg list \<Rightarrow> 's \<Rightarrow> nat \<Rightarrow> ('s \<times> nat) option" where
  "stream_vprintf_loop putc fp [] args st count = None"
| "stream_vprintf_loop putc fp (c # format) args st count =
     (if c = 0 then Some (st, count)
      else if c = asc CHR ''%''
      then (case format of
              [] \<Rightarrow> None
            | f # format' \<Rightarrow>
                Option.bind (stream_conv putc fp f args st count) (\<lambda>(args', st', count').
                  stream_vprintf_loop putc fp format' args' st' count'))
      else stream_vprintf_loop putc fp format args (putc c st) (count + 1))"

definition stream_vprintf ::
    "(u8 \<Rightarrow> 's \<Rightarrow> 's) \<Rightarrow> 'd fpu \<Rightarrow> bytes \<Rightarrow> 'd va_arg list \<Rightarrow> 's \<Rightarrow> ('s \<times> nat) option" where
  "stream_vprintf putc fp format args st = stream_vprintf_loop putc fp format args st 0"

text \<open>
  \<open>vprintf\<close> of the C library writes through \<open>putchar\<close>, and the prefixes through \<open>puts\<close>, which
  here prints no newline.
\<close>

definition vprintf_conv ::
    "(u8 \<Rightarrow> 's \<Rightarrow> 's) \<Rightarrow> (bytes \<Rightarrow> 's \<Rightarrow> 's) \<Rightarrow> 'd fpu \<Rightarrow> u8 \<Rightarrow> 'd va_arg list \<Rightarrow> 's \<Rightarrow> nat \<Rightarrow>
     ('d va_arg list \<times> 's \<times> nat) option" where
  "vprintf_conv putchar puts fp f args st count =
     (if f = asc CHR ''%'' then Some (args, putchar (asc CHR ''%'') st, count + 1)
      else if f = asc CHR ''c'' then
        (case args of VInt n # args' \<Rightarrow> Some (args', putchar (ucast n) st, count + 1) | _ \<Rightarrow> None)
      else if f = asc CHR ''s'' then
        (case args of VStr s # args' \<Rightarrow>
           map_option (Pair args') (stream_chars putchar s st count) | _ \<Rightarrow> None)
      else if f = asc CHR ''d'' then
        (case args of VInt n # args' \<Rightarrow>
           map_option (Pair args')
             (Option.bind (itoa n num_str 10) (\<lambda>s. stream_chars putchar s st count)) | _ \<Rightarrow> None)
      else if f = asc CHR ''x'' then
        (case args of VInt n # args' \<Rightarrow>
           map_option (Pair args')
             (let st1 = puts (str ''0x'') st
              in Option.bind (itoa n num_str 16) (\<lambda>s. stream_chars putchar s st1 count)) | _ \<Rightarrow> None)
      else if f = asc CHR ''p'' then
        (case args of VPtr n # args' \<Rightarrow>
           map_option (Pair args')
             (Option.bind (itoa n num_str 16) (\<lambda>s. stream_chars putchar s st count)) | _ \<Rightarrow> None)
      else if f = asc CHR ''b'' then
        (case args of VInt n # args' \<Rightarrow>
           map_option (Pair args')
             (let st1 = puts (str ''0b'') st
              in Option.bind (itoa n num_str 2) (\<lambda>s. stream_chars putchar s st1 count)) | _ \<Rightarrow> None)
      else if f = asc CHR ''f'' then
        (case args of VDouble d # args' \<Rightarrow>
           map_option (Pair args')
             (Option.bind (gcvt fp d 2 num_str) (\<lambda>s. stream_chars putchar s st count)) | _ \<Rightarrow> None)
      else Some (args, st, count))"

fun vprintf_loop ::
    "(u8 \<Rightarrow> 's \<Rightarrow> 's) \<Rightarrow> (bytes \<Rightarrow> 's \<Rightarrow> 's) \<Rightarrow> 'd fpu \<Rightarrow> bytes \<Rightarrow> 'd va_arg list \<Rightarrow> 's \<Rightarrow> nat \<Rightarrow>
     ('s \<times> nat) option" where
  "vprintf_loop putchar puts fp [] args st count = None"
| "vprintf_loop putchar puts fp (c # format) args st count =
     (if c = 0 then Some (st, count)
      else if c = asc CHR ''%''
      then (case format of
              [] \<Rightarrow> None
            | f # format' \<Rightarrow>
                Option.bind (vprintf_conv putchar puts fp f args st count) (\<lambda>(args', st', count').
                  vprintf_loop putchar puts fp format' args' st' count'))
      else vprintf_loop putchar puts fp format args (putchar c st) (count + 1))"

definition vprintf ::
    "(u8 \<Rightarrow> 's \<Rightarrow> 's) \<Rightarrow> (bytes \<Rightarrow> 's \<Rightarrow> 's) \<Rightarrow> 'd fpu \<Rightarrow> bytes \<Rightarrow> 'd va_arg list \<Rightarrow> 's \<Rightarrow> ('s \<times> nat) option" where
  "vprintf putchar puts fp format args st = vprintf_loop putchar puts fp format args st 0"

subsection \<open>The numeral that itoa writes\<close>

function digits :: "nat \<Rightarrow> nat \<Rightarrow> nat list" where
  "digits b n = (if b < 2 \<or> n = 0 then [] else n mod b # digits b (n div b))"
  by pat_completeness auto
termination by (relation "measure snd") auto

declare digits.simps [simp del]

lemma digits_0 [simp]: "digits b 0 = []"
  by (simp add: digits.simps)

lemma digits_step: "2 \<le> b \<Longrightarrow> 0 < n \<Longrightarrow> digits b n = n mod b # digits b (n div b)"
  by (subst digits.simps) simp

lemma digits_less: "2 \<le> b \<Longrightarrow> d \<in> set (digits b n) \<Longrightarrow> d < b"
proof (induction n rule: less_induct)
  case (less n)
  show ?case
  proof (cases "n = 0")
    case False
    then have "n div b < n" using less.prems by simp
    then show ?thesis using less.IH [of "n div b"] less.prems False by (simp add: digits_step) auto
  qed (use less in simp)
qed

lemma digits_length: "2 \<le> b \<Longrightarrow> length (digits b n) \<le> k \<longleftrightarrow> n < b ^ k"
proof (induction n arbitrary: k rule: less_induct)
  case (less n)
  show ?case
  proof (cases "n = 0")
    case True
    then show ?thesis using less.prems by simp
  next
    case False
    then have d: "digits b n = n mod b # digits b (n div b)" "n div b < n"
      using less.prems by (simp_all add: digits_step)
    show ?thesis
    proof (cases k)
      case 0
      then show ?thesis using d False by simp
    next
      case (Suc j)
      have "n div b < b ^ j \<longleftrightarrow> n < b ^ k"
        using less.prems Suc by (simp add: less_mult_imp_div_less div_less_iff_less_mult mult.commute)
      then show ?thesis using d Suc less.IH [OF d(2) less.prems, of j] by simp
    qed
  qed
qed

lemma digits_value:
  "2 \<le> b \<Longrightarrow> foldr (\<lambda>d acc. acc * b + d) (digits b n) 0 = n"
proof (induction n rule: less_induct)
  case (less n)
  show ?case
  proof (cases "n = 0")
    case False
    then show ?thesis using less by (simp add: digits_step)
  qed simp
qed

definition digit_char :: "nat \<Rightarrow> u8" where
  "digit_char d = ITOA_CHARS ! d"

definition digit_value :: "u8 \<Rightarrow> nat" where
  "digit_value c = (if c < 58 then unat c - 48 else unat c - 55)"

lemma digit_char_all: "\<forall>d \<in> {..<36}. digit_value (digit_char d) = d \<and> digit_char d \<noteq> 0 \<and> digit_char d \<noteq> 45"
  by (simp add: digit_char_def digit_value_def ITOA_CHARS_def str_def lessThan_nat_numeral lessThan_Suc)

lemma digit_char:
  "d < 36 \<Longrightarrow> digit_value (digit_char d) = d" "d < 36 \<Longrightarrow> digit_char d \<noteq> 0"
  "d < 36 \<Longrightarrow> digit_char d \<noteq> 45"
  using digit_char_all by auto

definition itoa_negative :: "u32 \<Rightarrow> u32 \<Rightarrow> bool" where
  "itoa_negative n base \<longleftrightarrow> sint n < 0 \<and> base = 10"

definition itoa_string :: "u32 \<Rightarrow> u32 \<Rightarrow> bytes" where
  "itoa_string n base =
     (if n = 0 then [48]
      else (if itoa_negative n base then [45] else []) @
           rev (map digit_char (digits (unat base) (unat (if itoa_negative n base then - n else n)))))"

lemma itoa_loop_eq:
  assumes "2 \<le> unat base"
  shows "ptr \<le> length buf \<Longrightarrow> itoa_loop n base buf ptr =
    (let ds = map digit_char (digits (unat base) (unat n))
     in if ptr + length ds \<le> length buf
        then Some (take ptr buf @ ds @ drop (ptr + length ds) buf, ptr + length ds) else None)"
proof (induction "unat n" arbitrary: n buf ptr rule: less_induct)
  case less
  show ?case
  proof (cases "n = 0")
    case True
    then show ?thesis using less.prems by (simp add: itoa_loop.simps)
  next
    case False
    then have n0: "0 < unat n" by (simp add: word_unat_eq_iff)
    have lt: "unat (n div base) < unat n" using n0 assms by (simp add: unat_u32_div)
    have d: "digits (unat base) (unat n) = unat (n mod base) # digits (unat base) (unat (n div base))"
      using digits_step [OF assms n0] by (simp add: unat_u32_div unat_u32_mod)
    show ?thesis
    proof (cases "ptr < length buf")
      case False
      then show ?thesis using \<open>n \<noteq> 0\<close> less.prems d by (subst itoa_loop.simps) simp
    next
      case True
      let ?c = "digit_char (unat (n mod base))"
      have "itoa_loop n base buf ptr = itoa_loop (n div base) base (buf[ptr := ?c]) (ptr + 1)"
        using \<open>n \<noteq> 0\<close> True by (subst itoa_loop.simps) (simp add: digit_char_def)
      moreover have "take (ptr + 1) (buf[ptr := ?c]) = take ptr buf @ [?c]"
        using True by (simp add: take_Suc_conv_app_nth)
      ultimately show ?thesis using less.hyps [OF lt, of "ptr + 1" "buf[ptr := ?c]"] True d
        by (simp add: Let_def)
    qed
  qed
qed

lemma itoa_string_c_string: "2 \<le> unat base \<Longrightarrow> unat base \<le> 32 \<Longrightarrow> c_string (itoa_string n base)"
proof -
  assume b: "2 \<le> unat base" "unat base \<le> 32"
  have "digit_char d \<noteq> 0" if "d \<in> set (digits (unat base) m)" for d m
    using digits_less [OF b(1) that] b(2) digit_char(2) [of d] by simp
  then show ?thesis by (auto simp: c_string_def itoa_string_def)
qed

lemma itoa_string_length: "2 \<le> unat base \<Longrightarrow> length (itoa_string n base) \<le> 33"
proof -
  assume b: "2 \<le> unat base"
  have "unat (m :: u32) < unat base ^ 32" for m
  proof -
    have "(2 :: nat) ^ 32 \<le> unat base ^ 32" by (rule power_mono) (use b in auto)
    then show ?thesis by (intro less_le_trans [OF unat_u32_less [of m]]) simp
  qed
  then have "length (digits (unat base) (unat m)) \<le> 32" for m :: u32
    using digits_length [OF b, of _ 32] by simp
  from this [of n] this [of "- n"] show ?thesis by (simp add: itoa_string_def)
qed

lemma base_bounds: "\<not> (base < 2 \<or> base > (32 :: u32)) \<longleftrightarrow> 2 \<le> unat base \<and> unat base \<le> 32"
  by (auto simp: u32_less_iff)

text \<open>\<open>itoa\<close> stores the numeral and its NUL, and overruns the buffer exactly if they do not fit.\<close>

lemma itoa_eq:
  assumes b: "2 \<le> unat base" "unat base \<le> 32"
  shows "itoa n buf base =
    (let s = itoa_string n base
     in if length s < length buf then Some (s @ 0 # drop (Suc (length s)) buf) else None)"
proof -
  have nb: "\<not> (base < 2 \<or> base > 32)" using b base_bounds by blast
  show ?thesis
  proof (cases "n = 0")
    case True
    show ?thesis using nb True
      by (cases buf; cases "tl buf") (auto simp: itoa_def itoa_string_def asc_def put_def Let_def)
  next
    case False
    let ?neg = "itoa_negative n base"
    let ?ds = "map digit_char (digits (unat base) (unat (if ?neg then - n else n)))"
    let ?r = "?ds @ (if ?neg then [45] else [])"
    have s: "itoa_string n base = rev ?r" using False by (simp add: itoa_string_def)
    have z: "c_string ?r" using itoa_string_c_string [OF b, of n] s by (auto simp: c_string_def)
    have l: "length ?r < 4294967296" using itoa_string_length [OF b(1), of n] s by simp
    have loop: "itoa_loop (if ?neg then - n else n) base buf 0 =
        (if length ?ds \<le> length buf then Some (?ds @ drop (length ?ds) buf, length ?ds) else None)"
      using itoa_loop_eq [OF b(1), of 0 buf "if ?neg then - n else n"] by (simp add: Let_def)
    have unf: "itoa n buf base =
        Option.bind (itoa_loop (if ?neg then - n else n) base buf 0) (\<lambda>(buf1, ptr).
        Option.bind (if ?neg then map_option (\<lambda>b. (b, ptr + 1)) (put buf1 ptr (asc CHR ''-''))
                     else Some (buf1, ptr)) (\<lambda>(buf2, ptr2).
        Option.bind (put buf2 ptr2 0) strrev))"
      using nb False by (auto simp: itoa_def itoa_negative_def Let_def)
    show ?thesis
    proof (cases "length ?r < length buf")
      case True
      have "itoa n buf base = strrev (?r @ 0 # drop (Suc (length ?r)) buf)"
        unfolding unf loop using True
        by (auto simp: asc_def list_update_append upd_conv_take_nth_drop drop_Cons' split: if_splits
            simp flip: Cons_nth_drop_Suc)
      also have "\<dots> = Some (rev ?r @ 0 # drop (Suc (length ?r)) buf)"
        using strrev_holds [of "?r @ 0 # drop (Suc (length ?r)) buf" ?r] z l
        by (simp add: holds_def)
      finally show ?thesis using True s by (simp add: Let_def)
    next
      case False
      then show ?thesis unfolding unf loop s by (auto simp: Let_def put_def)
    qed
  qed
qed

definition parse_digits :: "nat \<Rightarrow> bytes \<Rightarrow> nat" where
  "parse_digits b s = foldl (\<lambda>acc c. acc * b + digit_value c) 0 s"

definition parse_int :: "nat \<Rightarrow> bytes \<Rightarrow> int" where
  "parse_int b s = (case s of [] \<Rightarrow> 0
     | c # s' \<Rightarrow> if c = 45 then - int (parse_digits b s') else int (parse_digits b s))"

lemma parse_digits_rev:
  assumes "2 \<le> b" and "b \<le> 36"
  shows "parse_digits b (rev (map digit_char (digits b n))) = n"
proof -
  have "parse_digits b (rev (map digit_char (digits b n))) =
      foldr (\<lambda>d acc. acc * b + digit_value (digit_char d)) (digits b n) 0"
    by (simp add: parse_digits_def foldl_conv_foldr foldr_map comp_def)
  also have "\<dots> = foldr (\<lambda>d acc. acc * b + d) (digits b n) 0"
    by (rule foldr_cong) (use assms digits_less digit_char(1) in fastforce)+
  finally show ?thesis using digits_value [OF assms(1)] by simp
qed

lemma itoa_string_value:
  assumes b: "2 \<le> unat base" "unat base \<le> 32"
  shows "parse_int (unat base) (itoa_string n base) = (if base = 10 then sint n else uint n)"
proof -
  let ?b = "unat base"
  have nonneg: "parse_int ?b (rev (map digit_char (digits ?b m))) = int m" for m
  proof (cases "rev (map digit_char (digits ?b m))")
    case Nil
    then show ?thesis using parse_digits_rev [of ?b m] b by (simp add: parse_int_def parse_digits_def)
  next
    case (Cons c s)
    then have "c \<in> digit_char ` set (digits ?b m)" by (metis image_set list.set_intros(1) set_rev)
    then have "c \<noteq> 45" using digits_less [OF b(1)] b(2) digit_char(3) by fastforce
    then show ?thesis using Cons parse_digits_rev [of ?b m] b by (simp add: parse_int_def)
  qed
  show ?thesis
  proof (cases "n = 0")
    case True
    then show ?thesis by (simp add: itoa_string_def parse_int_def parse_digits_def digit_value_def)
  next
    case n0: False
    show ?thesis
    proof (cases "itoa_negative n base")
      case True
      then have neg: "sint n < 0" "base = 10" by (simp_all add: itoa_negative_def)
      have "uint n mod 4294967296 = uint n" using uint_bounded [of n] by simp
      then have "uint (- n) = 4294967296 - uint n"
        using n0 by (simp add: uint_word_ariths zmod_zminus1_eq_if word_uint_eq_iff)
      moreover have "sint n = uint n - 4294967296"
        using neg(1) uint_bounded [of n] by (cases "bit n 31") (simp_all add: sint_u32)
      ultimately have "- int (unat (- n)) = sint n" by simp
      moreover have "parse_int ?b (itoa_string n base) = - int (unat (- n))"
        using True n0 parse_digits_rev [of ?b "unat (- n)"] b
        by (simp add: itoa_string_def parse_int_def)
      ultimately show ?thesis using neg by simp
    next
      case False
      then have "sint n = uint n" if "base = 10"
        using that uint_bounded [of n] by (cases "bit n 31") (simp_all add: itoa_negative_def sint_u32 not_less)
      then show ?thesis using False n0 nonneg by (auto simp: itoa_string_def)
    qed
  qed
qed

lemma itoa_num_str:
  assumes b: "2 \<le> unat base" "unat base \<le> 32"
  shows "itoa n num_str base = None \<longleftrightarrow> base = 2 \<and> 0x80000000 \<le> n"
proof -
  have "length (itoa_string n base) < 32 \<longleftrightarrow> \<not> (base = 2 \<and> 0x80000000 \<le> n)"
  proof (cases "base = 2")
    case True
    then show ?thesis using digits_length [of 2 "unat n" 31]
      by (auto simp: itoa_string_def itoa_negative_def u32_le_iff less_Suc_eq_le)
  next
    case False
    then have b3: "3 \<le> unat base" using b by (auto simp: u32_eq_iff)
    have "unat m < unat base ^ 21" for m :: u32
    proof -
      have "(3 :: nat) ^ 21 \<le> unat base ^ 21" by (rule power_mono) (use b3 in auto)
      then show ?thesis by (intro less_le_trans [OF unat_u32_less [of m]]) simp
    qed
    then have "length (digits (unat base) (unat m)) \<le> 21" for m :: u32
      using digits_length [OF b(1), of _ 21] by simp
    from this [of n] this [of "- n"] have "length (itoa_string n base) \<le> 22"
      by (simp add: itoa_string_def)
    then show ?thesis using False by simp
  qed
  then show ?thesis by (simp add: itoa_eq [OF b] Let_def num_str_def)
qed

subsection \<open>What formatted output prints\<close>

text \<open>The reference: the characters a conversion and a whole format produce.\<close>

definition c_text :: "bytes \<Rightarrow> bytes option" where
  "c_text s = (if 0 \<in> set s then Some (takeWhile (\<lambda>c. c \<noteq> 0) s) else None)"

definition conv_spec :: "'d fpu \<Rightarrow> u8 \<Rightarrow> 'd va_arg list \<Rightarrow> (bytes \<times> 'd va_arg list) option" where
  "conv_spec fp f args =
     (if f = asc CHR ''%'' then Some (str ''%'', args)
      else if f = asc CHR ''c'' then
        (case args of VInt n # args' \<Rightarrow> Some ([ucast n], args') | _ \<Rightarrow> None)
      else if f = asc CHR ''s'' then
        (case args of VStr s # args' \<Rightarrow> map_option (\<lambda>t. (t, args')) (c_text s) | _ \<Rightarrow> None)
      else if f = asc CHR ''d'' then
        (case args of VInt n # args' \<Rightarrow>
           map_option (\<lambda>t. (t, args')) (Option.bind (itoa n num_str 10) c_text) | _ \<Rightarrow> None)
      else if f = asc CHR ''x'' then
        (case args of VInt n # args' \<Rightarrow>
           map_option (\<lambda>t. (str ''0x'' @ t, args')) (Option.bind (itoa n num_str 16) c_text) | _ \<Rightarrow> None)
      else if f = asc CHR ''p'' then
        (case args of VPtr n # args' \<Rightarrow>
           map_option (\<lambda>t. (t, args')) (Option.bind (itoa n num_str 16) c_text) | _ \<Rightarrow> None)
      else if f = asc CHR ''b'' then
        (case args of VInt n # args' \<Rightarrow>
           map_option (\<lambda>t. (str ''0b'' @ t, args')) (Option.bind (itoa n num_str 2) c_text) | _ \<Rightarrow> None)
      else if f = asc CHR ''f'' then
        (case args of VDouble d # args' \<Rightarrow>
           map_option (\<lambda>t. (t, args')) (Option.bind (gcvt fp d 2 num_str) c_text) | _ \<Rightarrow> None)
      else Some ([], args))"

fun format_spec :: "'d fpu \<Rightarrow> bytes \<Rightarrow> 'd va_arg list \<Rightarrow> bytes option" where
  "format_spec fp [] args = None"
| "format_spec fp (c # format) args =
     (if c = 0 then Some []
      else if c = asc CHR ''%''
      then (case format of
              [] \<Rightarrow> None
            | f # format' \<Rightarrow>
                Option.bind (conv_spec fp f args) (\<lambda>(t, args').
                  map_option ((@) t) (format_spec fp format' args')))
      else map_option ((#) c) (format_spec fp format args))"

text \<open>The number of \<open>%x\<close> and \<open>%b\<close> conversions of a format.\<close>

fun prefixes :: "bytes \<Rightarrow> nat" where
  "prefixes [] = 0"
| "prefixes (c # format) =
     (if c = 0 then 0
      else if c = asc CHR ''%''
      then (case format of
              [] \<Rightarrow> 0
            | f # format' \<Rightarrow>
                (if f = asc CHR ''x'' \<or> f = asc CHR ''b'' then 1 else 0) + prefixes format')
      else prefixes format)"

definition emit :: "bytes \<Rightarrow> nat \<Rightarrow> bytes \<Rightarrow> (bytes \<times> nat) option" where
  "emit out count t =
     (if count + length t \<le> length out
      then Some (take count out @ t @ drop (count + length t) out, count + length t) else None)"

lemma emit_Nil [simp]: "count \<le> length out \<Longrightarrow> emit out count [] = Some (out, count)"
  by (simp add: emit_def)

lemma emit_bounds: "emit out count t = Some (out', count') \<Longrightarrow> length out' = length out \<and> count' \<le> length out'"
  by (auto simp: emit_def split: if_splits)

lemma emit_append:
  "count \<le> length out \<Longrightarrow>
   emit out count (t @ u) = Option.bind (emit out count t) (\<lambda>(out', count'). emit out' count' u)"
  by (auto simp: emit_def add.commute add.left_commute split: if_splits)

lemma put_emit:
  "count \<le> length out \<Longrightarrow> map_option (\<lambda>out'. (out', count + 1)) (put out count c) = emit out count [c]"
  by (auto simp: emit_def put_def upd_conv_take_nth_drop)

lemma put_bind_emit:
  "count \<le> length out \<Longrightarrow>
   Option.bind (put out count c) (\<lambda>out'. f out' (Suc count)) =
   Option.bind (emit out count [c]) (\<lambda>(out', count'). f out' count')"
  by (auto simp: emit_def put_def upd_conv_take_nth_drop)

lemma put_chars_emit:
  "count \<le> length out \<Longrightarrow> put_chars s out count = Option.bind (c_text s) (emit out count)"
proof (induction s arbitrary: out count)
  case (Cons c s)
  show ?case
  proof (cases "c = 0 \<or> count = length out")
    case True
    then show ?thesis using Cons.prems by (auto simp: c_text_def emit_def)
  next
    case False
    then have "count < length out" using Cons.prems by simp
    then have "put_chars s (out[count := c]) (Suc count) =
        Option.bind (c_text s) (emit (out[count := c]) (Suc count))"
      by (intro Cons.IH) simp
    moreover have "take (Suc count) (out[count := c]) = take count out @ [c]"
      using \<open>count < length out\<close> by (simp add: take_Suc_conv_app_nth)
    ultimately show ?thesis using False \<open>count < length out\<close> by (auto simp: c_text_def emit_def)
  qed
qed (simp add: c_text_def)

lemma bind_map_option: "Option.bind (map_option g m) f = Option.bind m (\<lambda>x. f (g x))"
  by (cases m) simp_all

lemma map_option_bind: "map_option g (Option.bind m h) = Option.bind m (\<lambda>x. map_option g (h x))"
  by (cases m) simp_all

lemma vstrfmt_conv_emit:
  assumes "count \<le> length out"
  shows "vstrfmt_conv fp f args out count =
    Option.bind (conv_spec fp f args) (\<lambda>(t, args'). map_option (Pair args') (emit out count t))"
proof -
  have one: "map_option (\<lambda>o'. (a, o', count + 1)) (put out count c) = map_option (Pair a) (emit out count [c])"
    for a c using put_emit [OF assms, of c, symmetric] by (simp add: option.map_comp comp_def)
  have chars: "put_chars s out count = Option.bind (c_text s) (emit out count)" for s
    by (rule put_chars_emit [OF assms])
  have two: "Option.bind (put out count a) (\<lambda>o1. Option.bind (put o1 (count + 1) b) (\<lambda>o2.
        Option.bind m (\<lambda>s. put_chars s o2 (count + 2)))) =
      Option.bind (Option.bind m c_text) (\<lambda>t. emit out count ([a, b] @ t))" for a b m
  proof (cases "count + 2 \<le> length out")
    case True
    then have "emit out count ([a, b] @ t) = emit (out[count := a, count + 1 := b]) (count + 2) t" for t
      by (auto simp: emit_def upd_conv_take_nth_drop take_append nth_append Suc_diff_le add.commute
          simp flip: Cons_nth_drop_Suc split: if_splits)
    then show ?thesis using True put_chars_emit [of "count + 2" "out[count := a, count + 1 := b]"]
      by (cases m) auto
  next
    case False
    then show ?thesis by (cases m) (auto simp: put_def emit_def bind_eq_None_conv split: Option.bind_splits)
  qed
  show ?thesis
    unfolding vstrfmt_conv_def conv_spec_def one chars two
    by (auto simp: str_def asc_def bind_map_option map_option_bind assms
        split: list.splits va_arg.splits)
qed

lemma vstrfmt_loop_emit:
  "count \<le> length out \<Longrightarrow>
   vstrfmt_loop fp format args out count = Option.bind (format_spec fp format args) (emit out count)"
proof (induction fp format args arbitrary: out count rule: format_spec.induct)
  case (1 fp args)
  then show ?case by simp
next
  case (2 fp c format args)
  consider "c = 0" | "c \<noteq> 0" "c = asc CHR ''%''" | "c \<noteq> 0" "c \<noteq> asc CHR ''%''" by blast
  then show ?case
  proof cases
    case 1
    then show ?thesis using 2 by simp
  next
    case pct: 2
    show ?thesis
    proof (cases format)
      case Nil
      then show ?thesis using pct by simp
    next
      case (Cons f format')
      have "Option.bind (emit out count t) (\<lambda>(o', n'). vstrfmt_loop fp format' args' o' n') =
          Option.bind (format_spec fp format' args') (\<lambda>u. emit out count (t @ u))"
        if "conv_spec fp f args = Some (t, args')" for t args'
      proof (cases "emit out count t")
        case None
        then show ?thesis using "2.prems" by (auto simp: emit_append split: Option.bind_splits)
      next
        case (Some p)
        then obtain o' n' where p: "emit out count t = Some (o', n')" by (cases p) auto
        then have "n' \<le> length o'" using emit_bounds by blast
        then show ?thesis using "2.IH"(1) [OF pct Cons that refl] p "2.prems" by (simp add: emit_append)
      qed
      then show ?thesis using pct Cons vstrfmt_conv_emit [OF "2.prems", of fp f args]
        by (cases "conv_spec fp f args") (auto simp: bind_map_option)
    qed
  next
    case 3
    have "Option.bind (emit out count [c]) (\<lambda>(o', n'). vstrfmt_loop fp format args o' n') =
        Option.bind (format_spec fp format args) (\<lambda>u. emit out count ([c] @ u))"
    proof (cases "emit out count [c]")
      case None
      then show ?thesis using "2.prems" by (auto simp only: emit_append) (auto split: Option.bind_splits)
    next
      case (Some p)
      then obtain o' n' where p: "emit out count [c] = Some (o', n')" by (cases p) auto
      then have "n' \<le> length o'" using emit_bounds by blast
      then show ?thesis using "2.IH"(2) [OF 3] p "2.prems" by (simp add: emit_append del: append_Cons append_Nil)
    qed
    then show ?thesis using 3 put_bind_emit [OF "2.prems", of c "vstrfmt_loop fp format args"]
      by (simp add: bind_map_option)
  qed
qed

lemma stream_chars_text:
  "stream_chars putc s st count = map_option (\<lambda>t. (fold putc t st, count + length t)) (c_text s)"
  by (induction s arbitrary: st count) (auto simp: c_text_def)

lemma stream_conv_spec:
  "stream_conv putc fp f args st count =
   map_option (\<lambda>(t, args'). (args', fold putc t st,
       count + length t - (if f = asc CHR ''x'' \<or> f = asc CHR ''b'' then 2 else 0)))
     (conv_spec fp f args)"
  by (auto simp: stream_conv_def conv_spec_def stream_chars_text asc_def str_def Let_def
      option.map_comp comp_def bind_map_option map_option_bind
      split: list.splits va_arg.splits Option.bind_splits)

lemma conv_spec_prefix:
  "conv_spec fp f args = Some (t, args') \<Longrightarrow> f = asc CHR ''x'' \<or> f = asc CHR ''b'' \<Longrightarrow> 2 \<le> length t"
  by (auto simp: conv_spec_def asc_def str_def split: list.splits va_arg.splits if_splits)

lemma stream_vprintf_loop_spec:
  "map_option (\<lambda>(st', n). (st', n + 2 * prefixes format)) (stream_vprintf_loop putc fp format args st count) =
   map_option (\<lambda>t. (fold putc t st, count + length t)) (format_spec fp format args)"
proof (induction fp format args arbitrary: st count rule: format_spec.induct)
  case (1 fp args)
  then show ?case by simp
next
  case (2 fp c format args)
  consider "c = 0" | "c \<noteq> 0" "c = asc CHR ''%''" | "c \<noteq> 0" "c \<noteq> asc CHR ''%''" by blast
  then show ?case
  proof cases
    case 1
    then show ?thesis by simp
  next
    case pct: 2
    show ?thesis
    proof (cases format)
      case Nil
      then show ?thesis using pct by simp
    next
      case (Cons f format')
      show ?thesis
      proof (cases "conv_spec fp f args")
        case None
        then show ?thesis using pct Cons by (simp add: stream_conv_spec)
      next
        case (Some p)
        then obtain t args' where p: "conv_spec fp f args = Some (t, args')" by (cases p) auto
        let ?k = "if f = asc CHR ''x'' \<or> f = asc CHR ''b'' then 2 else (0 :: nat)"
        have k: "?k \<le> length t" using conv_spec_prefix [OF p] by simp
        let ?r = "stream_vprintf_loop putc fp format' args' (fold putc t st) (count + length t - ?k)"
        have "stream_vprintf_loop putc fp (c # format) args st count = ?r"
          using pct Cons p by (simp add: stream_conv_spec)
        moreover have "prefixes (c # format) = (if f = asc CHR ''x'' \<or> f = asc CHR ''b'' then 1 else 0) + prefixes format'"
          using pct Cons by simp
        moreover have "map_option (\<lambda>(st', n). (st', n + 2 * prefixes format')) ?r =
            map_option (\<lambda>u. (fold putc u (fold putc t st), count + length t - ?k + length u))
              (format_spec fp format' args')"
          by (rule "2.IH"(1) [OF pct Cons p refl])
        moreover have "format_spec fp (c # format) args = map_option ((@) t) (format_spec fp format' args')"
          using pct Cons p by simp
        ultimately show ?thesis using k
          by (cases ?r; cases "format_spec fp format' args'") (auto split: if_splits)
      qed
    qed
  next
    case 3
    have "map_option (\<lambda>(st', n). (st', n + 2 * prefixes format))
          (stream_vprintf_loop putc fp format args (putc c st) (count + 1)) =
        map_option (\<lambda>t. (fold putc t (putc c st), count + 1 + length t)) (format_spec fp format args)"
      by (rule "2.IH"(2) [OF 3])
    then show ?thesis using 3 by (simp add: option.map_comp comp_def)
  qed
qed

lemma vprintf_conv_stream: "vprintf_conv putc (fold putc) fp f args st count = stream_conv putc fp f args st count"
  by (simp add: vprintf_conv_def stream_conv_def asc_def str_def split: list.splits va_arg.splits)

lemma vprintf_loop_stream:
  "vprintf_loop putc (fold putc) fp format args st count = stream_vprintf_loop putc fp format args st count"
  by (induction fp format args arbitrary: st count rule: format_spec.induct)
    (auto simp: vprintf_conv_stream stream_conv_spec split: list.splits Option.bind_splits)

subsection \<open>Properties\<close>

text \<open>
  C16. For every base from 2 to 32, \<open>itoa\<close> into a buffer of 34 bytes stores a numeral, its NUL and
  nothing else, and reading the numeral back gives the argument: signed for base 10 (the most
  negative value included), unsigned for every other base.
\<close>

theorem itoa_roundtrip:
  assumes "2 \<le> unat base" and "unat base \<le> 32" and "34 \<le> length buf"
  shows "\<exists>s. itoa n buf base = Some (s @ 0 # drop (Suc (length s)) buf) \<and> c_string s \<and>
    parse_int (unat base) s = (if base = 10 then sint n else uint n)"
  using itoa_eq [OF assms(1,2), of n buf] itoa_string_value [OF assms(1,2), of n] assms(3)
    itoa_string_c_string [OF assms(1,2), of n] itoa_string_length [OF assms(1), of n]
  by (intro exI [of _ "itoa_string n base"]) (simp add: Let_def)

theorem itoa_roundtrip_witness:
  "\<exists>s. itoa (- 42) (replicate 34 7) 10 = Some (s @ 0 # drop (Suc (length s)) (replicate 34 7)) \<and>
    c_string s \<and> parse_int 10 s = - 42"
  using itoa_roundtrip [of 10 "replicate 34 7" "- 42"] by simp

text \<open>
  Bounds of the 32-byte number buffers of \<open>vstrfmt\<close>, \<open>stream_vprintf\<close> and \<open>vprintf\<close>: \<open>itoa\<close> stays
  inside such a buffer in every base, except that in base 2 every number with the top bit set
  needs 33 bytes and is written past the end.
\<close>

theorem itoa_buffer_bounds:
  assumes "2 \<le> unat base" and "unat base \<le> 32" and "length buf = 32"
  shows "itoa n buf base = None \<longleftrightarrow> base = 2 \<and> 0x80000000 \<le> n"
proof -
  have "itoa n buf base = None \<longleftrightarrow> itoa n num_str base = None"
    by (simp add: itoa_eq [OF assms(1,2)] Let_def assms(3) num_str_def)
  then show ?thesis using itoa_num_str [OF assms(1,2)] by simp
qed

theorem itoa_buffer_bounds_witness:
  "itoa 0xFFFFFFFF num_str 2 = None \<and> itoa 0xFFFFFFFF num_str 16 \<noteq> None"
  using itoa_buffer_bounds [of 2 num_str "0xFFFFFFFF"] itoa_buffer_bounds [of 16 num_str "0xFFFFFFFF"]
  by (simp add: num_str_def)

text \<open>
  C17. The two formatted-output routines of the kernel print the same characters, those of
  \<open>format_spec\<close>: \<open>vstrfmt\<close> stores them with a NUL if they fit, leaves the rest of the buffer alone and
  returns their number; \<open>stream_vprintf\<close> passes them to the stream in order. Its count leaves out
  the two characters of the prefix of each \<open>%x\<close> and \<open>%b\<close>. \<open>vprintf\<close> of the C library behaves as
  \<open>stream_vprintf\<close> does, if \<open>puts\<close> writes the characters of its argument.
\<close>

theorem formatted_output_agrees:
  "vstrfmt fp out format args =
     (case format_spec fp format args of
        None \<Rightarrow> None
      | Some t \<Rightarrow> if length t < length out then Some (t @ 0 # drop (Suc (length t)) out, length t) else None) \<and>
   map_option (\<lambda>(st', n). (st', n + 2 * prefixes format)) (stream_vprintf putc fp format args st) =
     map_option (\<lambda>t. (fold putc t st, length t)) (format_spec fp format args) \<and>
   vprintf putc (fold putc) fp format args st = stream_vprintf putc fp format args st"
proof -
  have "vstrfmt fp out format args = Option.bind (format_spec fp format args)
      (\<lambda>t. if length t < length out then Some (t @ 0 # drop (Suc (length t)) out, length t) else None)"
    using vstrfmt_loop_emit [of 0 out fp format args]
    by (cases "format_spec fp format args")
      (auto simp: vstrfmt_def emit_def put_def list_update_append upd_conv_take_nth_drop
        split: if_splits simp flip: Cons_nth_drop_Suc)
  then show ?thesis using stream_vprintf_loop_spec [of format putc fp args st 0]
    by (simp add: stream_vprintf_def vprintf_def vprintf_loop_stream split: option.splits)
qed

end
