(* ===== verification/Volume.thy ===== *)
theory Volume
  imports Ata_Disk Strfmt
begin

text \<open>
  Storage devices and volumes: the driver tables of \<open>kernel/include/device/storage.h\<close>, the partition
  table of \<open>kernel/src/fs/mbr.c\<close>, the identifiers of \<open>kernel/src/util/shortid.c\<close> and \<open>random.c\<close>, and the
  volume manager of \<open>kernel/src/device/volume.c\<close>.

  A pointer to a driver table is the name of the table. The list of volumes is the sequence of
  its elements, which the operations of the linked list implement; blocks on the kernel heap are
  allocated and released as in the code, and the addresses that are released later are kept.
  Reading uninitialised memory gives the contents \<open>junk\<close>, an arbitrary byte per position.
\<close>

subsection \<open>Drivers and devices\<close>

datatype storage_driver = INITRD_DRIVER | ATA_DRIVER ata_drive

record storage_device =
  dev_addr :: u32
  dev_id :: bytes
  dev_name :: bytes
  dev_type :: u16
  dev_bus_type :: u8
  dev_driver :: storage_driver

fun drv_sector_size :: "storage_driver \<Rightarrow> u32" where
  "drv_sector_size INITRD_DRIVER = 0"
| "drv_sector_size (ATA_DRIVER d) = ATA_SECTOR_SIZE"

fun drv_total_size :: "storage_driver \<Rightarrow> ('c, 'm) kernel_scheme \<Rightarrow> u32" where
  "drv_total_size INITRD_DRIVER k = initrd_size k"
| "drv_total_size (ATA_DRIVER d) k = ata_size (ata_devices k d)"

fun drv_read :: "'c ports \<Rightarrow> storage_driver \<Rightarrow> u32 \<Rightarrow> u32 \<Rightarrow> ('c, 'm) kernel_scheme \<Rightarrow>
    ((u32 \<times> bytes) \<times> ('c, 'm) kernel_scheme) kres" where
  "drv_read io INITRD_DRIVER offset sz k = initrd_read offset sz k"
| "drv_read io (ATA_DRIVER d) offset sz k = ata_read io d offset sz k"

fun drv_write :: "'c ports \<Rightarrow> storage_driver \<Rightarrow> u32 \<Rightarrow> u32 \<Rightarrow> bytes \<Rightarrow> ('c, 'm) kernel_scheme \<Rightarrow>
    (u32 \<times> ('c, 'm) kernel_scheme) kres" where
  "drv_write io INITRD_DRIVER offset sz buffer k = initrd_write offset sz buffer k"
| "drv_write io (ATA_DRIVER d) offset sz buffer k = ata_write io d offset sz buffer k"

text \<open>A buffer of \<open>n\<close> bytes after a read stored \<open>bs\<close> at its start; the rest keeps its old contents.\<close>

definition filled :: "(nat \<Rightarrow> u8) \<Rightarrow> nat \<Rightarrow> bytes \<Rightarrow> bytes option" where
  "filled junk n bs = (if length bs \<le> n then Some (bs @ map junk [length bs..<n]) else None)"

lemma filled_full [simp]: "length bs = n \<Longrightarrow> filled junk n bs = Some bs"
  by (simp add: filled_def)

lemma filled_length: "filled junk n bs = Some b \<Longrightarrow> length b = n"
  by (auto simp: filled_def split: if_splits)

text \<open>The old contents of a block on the heap.\<close>

definition heap_junk :: "kheap \<Rightarrow> u32 \<Rightarrow> nat \<Rightarrow> u8" where
  "heap_junk h p i = heap_data h (p + of_nat i)"

subsection \<open>The partition table\<close>

record mbr_partition_entry =
  part_attributes :: u8
  part_type :: u8
  part_lba_start :: u32
  part_sectors :: u32

record mbr =
  mbr_partitions :: "mbr_partition_entry list"
  mbr_signature :: u16

definition MBR_SIGNATURE :: u16 where "MBR_SIGNATURE = 0xAA55"
definition sizeof_mbr :: u32 where "sizeof_mbr = 512"

definition mbr_partition_of :: "bytes \<Rightarrow> nat \<Rightarrow> mbr_partition_entry" where
  "mbr_partition_of b p =
     \<lparr>part_attributes = b ! p, part_type = b ! (p + 4), part_lba_start = le32 b (p + 8),
      part_sectors = le32 b (p + 12)\<rparr>"

definition mbr_of :: "bytes \<Rightarrow> mbr" where
  "mbr_of b = \<lparr>mbr_partitions = map (\<lambda>i. mbr_partition_of b (446 + 16 * i)) [0..<4],
     mbr_signature = le16 b 510\<rparr>"

definition mbr_valid :: "mbr \<Rightarrow> bool" where
  "mbr_valid m \<longleftrightarrow> mbr_signature m = MBR_SIGNATURE \<and>
     (\<forall>p \<in> set (mbr_partitions m). part_attributes p = 0x80 \<or> part_attributes p = 0x00)"

definition mbr_probe :: "'c ports \<Rightarrow> (nat \<Rightarrow> u8) \<Rightarrow> storage_device \<Rightarrow> ('c, 'm) kernel_scheme \<Rightarrow>
    (bool \<times> ('c, 'm) kernel_scheme) kres" where
  "mbr_probe io junk device k =
     kbind (drv_read io (dev_driver device) 0 sizeof_mbr k) (\<lambda>((n, bs), k1).
     kbind (or_fault (filled junk 512 bs)) (\<lambda>buf. Ret (mbr_valid (mbr_of buf), k1)))"

definition mbr_read :: "'c ports \<Rightarrow> storage_device \<Rightarrow> ('c, 'm) kernel_scheme \<Rightarrow>
    (mbr \<times> ('c, 'm) kernel_scheme) kres" where
  "mbr_read io device k =
     kbind (kmalloc_or_panic sizeof_mbr (k_heap k)) (\<lambda>(p, h).
     kbind (drv_read io (dev_driver device) 0 sizeof_mbr (k\<lparr>k_heap := h\<rparr>)) (\<lambda>((n, bs), k1).
     kbind (or_fault (filled (heap_junk h p) 512 bs)) (\<lambda>buf. Ret (mbr_of buf, k1))))"

subsection \<open>Identifiers\<close>

definition random_next :: "u32 \<Rightarrow> u32 \<times> u32" where
  "random_next next = (let next' = next * 1103515245 + 12345 in ((next' div 65536) mod 32768, next'))"

definition SHORT_ID_LENGTH :: nat where "SHORT_ID_LENGTH = 6"

definition hex_digits :: bytes where "hex_digits = str ''0123456789abcdef''"

fun short_id_chars :: "nat \<Rightarrow> u32 \<Rightarrow> bytes \<times> u32" where
  "short_id_chars 0 next = ([], next)"
| "short_id_chars (Suc n) next =
     (let (r, next1) = random_next next; (cs, next2) = short_id_chars n next1
      in (hex_digits ! unat (r AND 0x0F) # cs, next2))"

partial_function (option) generate_short_id :: "(bytes \<Rightarrow> bool) \<Rightarrow> u32 \<Rightarrow> (bytes \<times> u32) option" where
  "generate_short_id exists next =
     (case short_id_chars SHORT_ID_LENGTH next of
        (buffer, next') \<Rightarrow> if exists buffer then generate_short_id exists next' else Some (buffer, next'))"

subsection \<open>Volumes\<close>

record volume =
  vol_addr :: u32
  vol_name_addr :: u32
  vol_node_addr :: u32
  vol_id :: bytes
  vol_name :: bytes
  vol_offset :: u32
  vol_size :: u32
  vol_device :: storage_device

record 'c vkernel = "'c kernel" +
  volumes :: "volume list"
  random_state :: u32

definition volume_find_by_id :: "bytes \<Rightarrow> ('c, 'm) vkernel_scheme \<Rightarrow> volume option" where
  "volume_find_by_id i k = find (\<lambda>v. vol_id v = i) (volumes k)"

definition volume_find_by_name :: "bytes \<Rightarrow> ('c, 'm) vkernel_scheme \<Rightarrow> volume option" where
  "volume_find_by_name n k = find (\<lambda>v. vol_name v = n) (volumes k)"

definition volume_id_exists :: "('c, 'm) vkernel_scheme \<Rightarrow> bytes \<Rightarrow> bool" where
  "volume_id_exists k i \<longleftrightarrow> volume_find_by_id i k \<noteq> None"

text \<open>
  A NUL stored at an address: the byte, and the low byte of the magic number of a block header
  that starts there.
\<close>

definition heap_nul :: "u32 \<Rightarrow> kheap \<Rightarrow> kheap" where
  "heap_nul a h = set_hdr a (\<lambda>b. b\<lparr>blk_magic := blk_magic b AND NOT 0xFF\<rparr>)
     (h\<lparr>heap_data := (heap_data h)(a := 0)\<rparr>)"

text \<open>
  One new volume: the allocations of the structure, its name, its operation table and its list
  node. \<open>name_size\<close> is the size requested for the name.
\<close>

definition volume_add :: "storage_device \<Rightarrow> u32 \<Rightarrow> bytes \<Rightarrow> u32 \<Rightarrow> u32 \<Rightarrow> ('c, 'm) vkernel_scheme \<Rightarrow>
    ('c, 'm) vkernel_scheme kres" where
  "volume_add device name_size name offset sz k =
     kbind (kmalloc_or_panic 28 (k_heap k)) (\<lambda>(p_vol, h1).
     kbind (or_hang (generate_short_id (volume_id_exists k) (random_state k))) (\<lambda>(i, rs).
     kbind (kmalloc_or_panic name_size h1) (\<lambda>(p_name, h2).
     let h2' = (if unat name_size \<le> length name then heap_nul (p_name + name_size) h2 else h2)
     in kbind (kmalloc_or_panic 12 h2') (\<lambda>(p_ops, h3).
     kbind (kmalloc_or_panic 12 h3) (\<lambda>(p_node, h4).
     Ret (k\<lparr>k_heap := h4, random_state := rs,
            volumes := volumes k @ [\<lparr>vol_addr = p_vol, vol_name_addr = p_name, vol_node_addr = p_node,
              vol_id = i, vol_name = name, vol_offset = offset, vol_size = sz, vol_device = device\<rparr>]\<rparr>))))))"

fun volume_add_partitions :: "storage_device \<Rightarrow> nat \<Rightarrow> mbr_partition_entry list \<Rightarrow> u32 \<Rightarrow> ('c, 'm) vkernel_scheme \<Rightarrow>
    (u32 \<times> ('c, 'm) vkernel_scheme) kres" where
  "volume_add_partitions device i [] found k = Ret (found, k)"
| "volume_add_partitions device i (entry # ps) found k =
     (if part_type entry = 0 then volume_add_partitions device (i + 1) ps found k
      else kbind (or_fault (itoa (of_nat (i + 1)) [0xCC, 0xCC] 10)) (\<lambda>partition_number.
           kbind (volume_add device (of_nat (length (dev_name device)) + 4)
                    (dev_name device @ str '' #'' @ cstr_at partition_number 0)
                    (part_lba_start entry * drv_sector_size (dev_driver device))
                    (part_sectors entry * drv_sector_size (dev_driver device)) k) (\<lambda>k'.
           volume_add_partitions device (i + 1) ps (found + 1) k')))"

definition volume_register_device :: "'c ports \<Rightarrow> (nat \<Rightarrow> u8) \<Rightarrow> storage_device \<Rightarrow> ('c, 'm) vkernel_scheme \<Rightarrow>
    (u32 \<times> ('c, 'm) vkernel_scheme) kres" where
  "volume_register_device io junk device k =
     kbind (mbr_probe io junk device k) (\<lambda>(is_mbr, k1).
     if \<not> is_mbr
     then kbind (volume_add device (of_nat (length (dev_name device))) (dev_name device) 0
                   (drv_total_size (dev_driver device) k1) k1) (\<lambda>k2. Ret (1, k2))
     else kbind (mbr_read io device k1) (\<lambda>(mbr, k2).
          volume_add_partitions device 0 (mbr_partitions mbr) 0 k2))"

definition volume_unregister_device :: "storage_device \<Rightarrow> ('c, 'm) vkernel_scheme \<Rightarrow> ('c, 'm) vkernel_scheme" where
  "volume_unregister_device device k =
     (case find (\<lambda>v. dev_addr (vol_device v) = dev_addr device) (volumes k) of
        None \<Rightarrow> k
      | Some v \<Rightarrow>
          k\<lparr>volumes := filter (\<lambda>w. vol_node_addr w \<noteq> vol_node_addr v) (volumes k),
            k_heap := kfree (vol_node_addr v) (kfree (vol_addr v) (kfree (vol_name_addr v) (k_heap k)))\<rparr>)"

definition volume_total_size :: "volume \<Rightarrow> u32" where
  "volume_total_size v = vol_size v"

definition volume_read :: "'c ports \<Rightarrow> volume \<Rightarrow> u32 \<Rightarrow> u32 \<Rightarrow> ('c, 'm) kernel_scheme \<Rightarrow>
    ((u32 \<times> bytes) \<times> ('c, 'm) kernel_scheme) kres" where
  "volume_read io v offset sz k =
     (if vol_size v < offset then Ret ((0, []), k)
      else let sz' = (if vol_size v < offset + sz then vol_size v - offset else sz)
           in drv_read io (dev_driver (vol_device v)) (vol_offset v + offset) sz' k)"

definition volume_write :: "'c ports \<Rightarrow> volume \<Rightarrow> u32 \<Rightarrow> u32 \<Rightarrow> bytes \<Rightarrow> ('c, 'm) kernel_scheme \<Rightarrow>
    (u32 \<times> ('c, 'm) kernel_scheme) kres" where
  "volume_write io v offset sz buffer k =
     (if vol_size v < offset then Ret (0, k)
      else let sz' = (if vol_size v < offset + sz then vol_size v - offset else sz)
           in drv_write io (dev_driver (vol_device v)) (vol_offset v + offset) sz' buffer k)"

subsection \<open>Volumes as byte images\<close>

text \<open>
  What a file system may rely on: reading an admissible range inside the image returns its bytes,
  or the kernel heap is exhausted; nothing but the heap and the hardware changes.
\<close>

locale volume_image =
  fixes rd :: "u32 \<Rightarrow> u32 \<Rightarrow> ('c, 'm) kernel_scheme \<Rightarrow> ((u32 \<times> bytes) \<times> ('c, 'm) kernel_scheme) kres"
    and img :: bytes
    and ok_range :: "nat \<Rightarrow> nat \<Rightarrow> bool"
    and inv :: "('c, 'm) kernel_scheme \<Rightarrow> bool"
  assumes rd_range: "inv k \<Longrightarrow> ok_range (unat off) (unat sz) \<Longrightarrow> unat off + unat sz \<le> length img \<Longrightarrow>
      ret_or_panic oom (rd off sz k) (\<lambda>((n, bs), k'). n = sz \<and> bs = take (unat sz) (drop (unat off) img) \<and>
        inv k' \<and> heap_same (k_heap k) (k_heap k') \<and> (\<exists>h c. k' = k\<lparr>k_heap := h, k_hw := c\<rparr>))"
    and inv_heap: "inv k \<Longrightarrow> kheap_inv (k_heap k)"
    and inv_set_heap: "inv k \<Longrightarrow> kheap_inv h \<Longrightarrow> inv (k\<lparr>k_heap := h\<rparr>)"
begin

text \<open>The same for a read whose bytes are consumed as a full buffer.\<close>

lemma rd_bind:
  assumes "inv k" and "ok_range (unat off) (unat sz)" and "unat off + unat sz \<le> length img"
    and "\<And>k'. inv k' \<Longrightarrow> heap_same (k_heap k) (k_heap k') \<Longrightarrow> (\<exists>h c. k' = k\<lparr>k_heap := h, k_hw := c\<rparr>) \<Longrightarrow>
      ret_or_panic oom (f ((sz, take (unat sz) (drop (unat off) img)), k')) Q"
  shows "ret_or_panic oom (kbind (rd off sz k) f) Q"
  by (rule ret_or_panic_bind [OF rd_range [OF assms(1-3)]]) (use assms(4) in auto)

end

definition flat :: "(u16 \<Rightarrow> nat \<Rightarrow> bytes) \<Rightarrow> u16 \<Rightarrow> nat \<Rightarrow> nat \<Rightarrow> bytes" where
  "flat D base off n = map (\<lambda>i. D base (i div 512) ! (i mod 512)) [off..<off + n]"

lemma disk_range_flat: "disk_range disk c base off n = flat (disk c) base off n"
  by (simp add: disk_range_def disk_byte_def flat_def)

lemma flat_slice: "off + m \<le> n \<Longrightarrow> take m (drop off (flat D base o' n)) = flat D base (o' + off) m"
  by (simp add: flat_def drop_map take_map add.assoc)

definition initrd_volume :: "volume \<Rightarrow> bytes \<Rightarrow> ('c, 'm) kernel_scheme \<Rightarrow> bool" where
  "initrd_volume v mem k \<longleftrightarrow> dev_driver (vol_device v) = INITRD_DRIVER \<and> initrd_base k = mem \<and>
     unat (initrd_size k) = length mem \<and> unat (vol_offset v) + unat (vol_size v) \<le> length mem \<and>
     kheap_inv (k_heap k)"

definition ata_volume :: "'c ports \<Rightarrow> ('c \<Rightarrow> bool) \<Rightarrow> ('c \<Rightarrow> u16 \<Rightarrow> nat \<Rightarrow> bytes) \<Rightarrow> volume \<Rightarrow> ata_drive \<Rightarrow>
    (u16 \<Rightarrow> nat \<Rightarrow> bytes) \<Rightarrow> ('c, 'm) kernel_scheme \<Rightarrow> bool" where
  "ata_volume io ok disk v d D k \<longleftrightarrow> ide_transfers io ok disk \<and> dev_driver (vol_device v) = ATA_DRIVER d \<and>
     ok (k_hw k) \<and> disk (k_hw k) = D \<and> drive_ready (ata_devices k d) \<and> 512 dvd unat (vol_offset v) \<and>
     unat (vol_offset v) + unat (vol_size v) \<le> unat (ata_size (ata_devices k d)) \<and> kheap_inv (k_heap k)"

definition ata_range :: "nat \<Rightarrow> nat \<Rightarrow> bool" where
  "ata_range off n \<longleftrightarrow> 0 < n \<and> (512 dvd off \<or> off div 512 = (off + n - 1) div 512)"

lemma volume_offset:
  assumes "unat (vol_offset v) + unat (vol_size v) \<le> b" and "b < 4294967296"
    and "unat off + unat sz \<le> unat (vol_size v)"
  shows "unat (vol_offset v + off) = unat (vol_offset v) + unat off"
    and "unat (off + sz) = unat off + unat sz"
    and "\<not> vol_size v < off" and "\<not> vol_size v < off + sz"
proof -
  show s: "unat (off + sz) = unat off + unat sz"
    using assms(3) unat_u32_less [of "vol_size v"] by (intro unat_u32_add_small) linarith
  show "unat (vol_offset v + off) = unat (vol_offset v) + unat off"
    using assms by (intro unat_u32_add_small) linarith
  show "\<not> vol_size v < off" "\<not> vol_size v < off + sz" using assms(3) s by (simp_all add: u32_less_iff)
qed

lemma initrd_volume_read:
  assumes "initrd_volume v mem k" and "unat off + unat sz \<le> unat (vol_size v)"
  shows "volume_read io v off sz k = Ret ((sz, take (unat sz) (drop (unat (vol_offset v) + unat off) mem)), k)"
proof -
  have m: "length mem < 4294967296" using assms(1) by (metis initrd_volume_def unat_u32_less)
  have le: "unat (vol_offset v) + unat (vol_size v) \<le> length mem" using assms(1) by (simp add: initrd_volume_def)
  note u = volume_offset [OF le m assms(2)]
  have a: "unat (vol_offset v + off + sz) = unat (vol_offset v) + unat off + unat sz"
    using u(1) le m assms(2) by (subst unat_u32_add_small) linarith+
  have "\<not> initrd_size k < vol_offset v + off" "\<not> initrd_size k < vol_offset v + off + sz"
    using assms a u(1) le by (auto simp: initrd_volume_def u32_less_iff)
  then show ?thesis using assms u le
    by (simp add: volume_read_def initrd_read_def initrd_volume_def mem_read_def Let_def)
qed

interpretation initrd_image:
  volume_image "volume_read io v" "take (unat (vol_size v)) (drop (unat (vol_offset v)) mem)"
    "\<lambda>off sz. True" "initrd_volume v mem"
proof
  fix k :: "('a, 'b) kernel_scheme" and off sz :: u32 and h :: kheap
  assume i: "initrd_volume v mem k"
  then show "kheap_inv (k_heap k)" by (simp add: initrd_volume_def)
  show "kheap_inv h \<Longrightarrow> initrd_volume v mem (k\<lparr>k_heap := h\<rparr>)" using i by (simp add: initrd_volume_def)
  assume "unat off + unat sz \<le> length (take (unat (vol_size v)) (drop (unat (vol_offset v)) mem))"
  then have le: "unat off + unat sz \<le> unat (vol_size v)" by simp
  have "\<exists>h c. k = k\<lparr>k_heap := h, k_hw := c\<rparr>" by (intro exI [of _ "k_heap k"] exI [of _ "k_hw k"]) simp
  then show "ret_or_panic oom (volume_read io v off sz k) (\<lambda>((n, bs), k'). n = sz \<and>
      bs = take (unat sz) (drop (unat off) (take (unat (vol_size v)) (drop (unat (vol_offset v)) mem))) \<and>
      initrd_volume v mem k' \<and> heap_same (k_heap k) (k_heap k') \<and> (\<exists>h c. k' = k\<lparr>k_heap := h, k_hw := c\<rparr>))"
    using initrd_volume_read [OF i le, of io] i le
    by (simp add: drop_take take_take min_def add.commute heap_same_def initrd_volume_def)
qed

lemma ata_volume_read:
  assumes "ata_volume io ok disk v d D k" and le: "unat off + unat sz \<le> unat (vol_size v)"
    and r: "ata_range (unat off) (unat sz)"
  shows "ret_or_panic oom (volume_read io v off sz k) (\<lambda>((n, bs), k'). n = sz \<and>
    bs = flat D (ata_get_io_base d) (unat (vol_offset v) + unat off) (unat sz) \<and>
    ata_volume io ok disk v d D k' \<and> heap_same (k_heap k) (k_heap k') \<and> (\<exists>h c. k' = k\<lparr>k_heap := h, k_hw := c\<rparr>))"
proof -
  have v: "ide_transfers io ok disk" "ok (k_hw k)" "kheap_inv (k_heap k)" "drive_ready (ata_devices k d)"
    "disk (k_hw k) = D" "512 dvd unat (vol_offset v)" "dev_driver (vol_device v) = ATA_DRIVER d"
    and b: "unat (vol_offset v) + unat (vol_size v) \<le> unat (ata_size (ata_devices k d))"
    using assms(1) by (simp_all add: ata_volume_def)
  note u = volume_offset [OF b unat_u32_less le]
  obtain q where q: "unat (vol_offset v) = 512 * q" using v(6) by blast
  have "512 * q + unat off + unat sz - 1 = 512 * q + (unat off + unat sz - 1)"
    using r by (simp add: ata_range_def)
  then have "(512 * q + unat off) div 512 = q + unat off div 512"
    "(512 * q + unat off + unat sz - 1) div 512 = q + (unat off + unat sz - 1) div 512"
    by simp_all
  then have "sector_range (vol_offset v + off) sz (ata_devices k d)"
    using r le b q by (auto simp: sector_range_def ata_range_def u(1) word_gt_0 unat_gt_0)
  from ata_read_range [OF v(1-4) this] show ?thesis
    using u v assms(1) by (auto simp: volume_read_def Let_def disk_range_flat ata_volume_def heap_same_def
        elim!: ret_or_panic_mono)
qed

interpretation ata_image:
  volume_image "volume_read io v" "flat D (ata_get_io_base d) (unat (vol_offset v)) (unat (vol_size v))"
    ata_range "ata_volume io ok disk v d D"
proof
  fix k :: "('a, 'b) kernel_scheme" and off sz :: u32 and h :: kheap
  assume i: "ata_volume io ok disk v d D k"
  then show "kheap_inv (k_heap k)" by (simp add: ata_volume_def)
  show "kheap_inv h \<Longrightarrow> ata_volume io ok disk v d D (k\<lparr>k_heap := h\<rparr>)" using i by (simp add: ata_volume_def)
  assume r: "ata_range (unat off) (unat sz)"
  assume "unat off + unat sz \<le> length (flat D (ata_get_io_base d) (unat (vol_offset v)) (unat (vol_size v)))"
  then have le: "unat off + unat sz \<le> unat (vol_size v)" by (simp add: flat_def)
  then show "ret_or_panic oom (volume_read io v off sz k) (\<lambda>((n, bs), k'). n = sz \<and>
      bs = take (unat sz) (drop (unat off) (flat D (ata_get_io_base d) (unat (vol_offset v)) (unat (vol_size v)))) \<and>
      ata_volume io ok disk v d D k' \<and> heap_same (k_heap k) (k_heap k') \<and> (\<exists>h c. k' = k\<lparr>k_heap := h, k_hw := c\<rparr>))"
    using ata_volume_read [OF i le r] by (simp add: flat_slice)
qed

subsection \<open>Clamping and registration\<close>

lemma volume_read_clamped:
  assumes "unat off \<le> unat (vol_size v)" and "unat off + unat sz < 4294967296"
  shows "volume_read io v off sz k =
    volume_read io v off (of_nat (min (unat sz) (unat (vol_size v) - unat off))) k"
proof -
  have s: "unat (off + sz) = unat off + unat sz" using assms(2) by (rule unat_u32_add_small)
  show ?thesis
  proof (cases "unat off + unat sz \<le> unat (vol_size v)")
    case True
    then have "min (unat sz) (unat (vol_size v) - unat off) = unat sz" by simp
    then show ?thesis by simp
  next
    case False
    then have m: "min (unat sz) (unat (vol_size v) - unat off) = unat (vol_size v - off)"
      using assms(1) by (simp add: unat_u32_sub u32_le_iff)
    have "off + (vol_size v - off) = vol_size v" by simp
    then show ?thesis using False s m assms(1) by (simp add: volume_read_def u32_less_iff Let_def)
  qed
qed

lemma length_short_id_chars: "length (fst (short_id_chars n r)) = n"
proof (induction n arbitrary: r)
  case (Suc n)
  show ?case using Suc.IH [of "snd (random_next r)"]
    by (simp add: Let_def case_prod_beta split: prod.splits)
qed simp

lemma nibble_less: "unat (r AND 0x0F :: u32) < 16"
proof -
  have "r AND 0x0F \<le> 0x0F" by (rule word_and_le1)
  then show ?thesis by (simp add: u32_le_iff)
qed

lemma short_id_chars_hex: "set (fst (short_id_chars n r)) \<subseteq> set hex_digits"
proof (induction n arbitrary: r)
  case (Suc n)
  have "hex_digits ! unat (fst (random_next r) AND 0x0F) \<in> set hex_digits"
    using nibble_less [of "fst (random_next r)"] by (intro nth_mem) (simp add: hex_digits_def str_def)
  then show ?case using Suc.IH [of "snd (random_next r)"]
    by (simp add: Let_def case_prod_beta split: prod.splits)
qed simp

text \<open>An identifier that the loop returns is new and has six hexadecimal digits.\<close>

lemma generate_short_id_fresh:
  assumes "generate_short_id exists r = Some y"
  shows "\<not> exists (fst y) \<and> length (fst y) = SHORT_ID_LENGTH \<and> set (fst y) \<subseteq> set hex_digits"
proof (rule generate_short_id.raw_induct [where P = "\<lambda>ex r y. \<not> ex (fst y) \<and>
    length (fst y) = SHORT_ID_LENGTH \<and> set (fst y) \<subseteq> set hex_digits", OF _ assms], goal_cases)
  case (1 gen exists r y)
  obtain b n where b: "short_id_chars SHORT_ID_LENGTH r = (b, n)" by fastforce
  then have h: "length b = SHORT_ID_LENGTH" "set b \<subseteq> set hex_digits"
    using length_short_id_chars [of SHORT_ID_LENGTH r] short_id_chars_hex [of SHORT_ID_LENGTH r] by simp_all
  show ?case
  proof (cases "exists b")
    case True
    then show ?thesis using 1(1) [of exists n y] 1(2) b by simp
  next
    case False
    then show ?thesis using 1(2) b h by auto
  qed
qed

definition ids_unique :: "volume list \<Rightarrow> bool" where
  "ids_unique vs \<longleftrightarrow> distinct (map vol_id vs)"

lemma volume_add_ids:
  assumes "volume_add device ns name off sz k = Ret k'" and "ids_unique (volumes k)"
  shows "\<exists>v. volumes k' = volumes k @ [v] \<and> ids_unique (volumes k') \<and> vol_device v = device \<and>
    vol_name v = name \<and> vol_offset v = off \<and> vol_size v = sz \<and> length (vol_id v) = SHORT_ID_LENGTH"
proof -
  from assms(1) obtain i rs p_vol p_name p_node h4 where
    g: "or_hang (generate_short_id (volume_id_exists k) (random_state k)) = Ret (i, rs)" and
    k': "k' = k\<lparr>k_heap := h4, random_state := rs, volumes := volumes k @ [\<lparr>vol_addr = p_vol,
      vol_name_addr = p_name, vol_node_addr = p_node, vol_id = i, vol_name = name, vol_offset = off,
      vol_size = sz, vol_device = device\<rparr>]\<rparr>"
    unfolding volume_add_def Let_def kbind_Ret_iff by (auto simp: Let_def kbind_Ret_iff)
  have "generate_short_id (volume_id_exists k) (random_state k) = Some (i, rs)"
    using g by (cases "generate_short_id (volume_id_exists k) (random_state k)") auto
  from generate_short_id_fresh [OF this] have "i \<notin> vol_id ` set (volumes k)" "length i = SHORT_ID_LENGTH"
    by (auto simp: volume_id_exists_def volume_find_by_id_def find_None_iff)
  then show ?thesis using k' assms(2) by (simp add: ids_unique_def)
qed

text \<open>A volume on the first IDE drive, after a boot sector.\<close>

definition small_volume :: volume where
  "small_volume = \<lparr>vol_addr = 0, vol_name_addr = 0, vol_node_addr = 0, vol_id = str ''00a1b2'',
     vol_name = str ''disk'', vol_offset = 0x400, vol_size = 0x8000,
     vol_device = \<lparr>dev_addr = 1, dev_id = str ''000001'', dev_name = str ''disk'', dev_type = 0x200,
       dev_bus_type = 0, dev_driver = ATA_DRIVER ATA_PRIMARY_MASTER_DRIVE\<rparr>\<rparr>"

lemma small_ata_volume:
  "ata_volume ide_ports ide_ok ide_disk small_volume ATA_PRIMARY_MASTER_DRIVE (ide_disk small_ide) small_kernel"
  by (simp add: ata_volume_def ide_transfers_ide small_volume_def small_kernel_def small_ide_ok drive_ready_def
      fresh_heap_inv)

subsection \<open>Properties\<close>

text \<open>
  C20. A volume on an IDE drive that starts on a sector boundary confines its readers. A request that starts
  inside the volume and whose end does not wrap around the address space is cut at the end of the volume. If
  what remains is not empty, and starts on a sector boundary or lies in one sector, it returns its number of
  bytes and delivers exactly the bytes of the drive at the offset of the volume, or the kernel heap is
  exhausted. (For an unaligned request over several sectors the driver copies the later sectors from the
  wrong offset, so nothing is claimed.) A request that starts behind the end reads nothing.
\<close>

theorem volume_read_confined:
  assumes "ata_volume io ok disk v d D k" and "unat off + unat sz < 4294967296"
    and "n = min (unat sz) (unat (vol_size v) - unat off)"
    and "unat off \<le> unat (vol_size v) \<longrightarrow> ata_range (unat off) n"
  shows "if unat off \<le> unat (vol_size v)
    then ret_or_panic oom (volume_read io v off sz k) (\<lambda>((m, bs), k'). unat m = n \<and>
           bs = flat D (ata_get_io_base d) (unat (vol_offset v) + unat off) n \<and>
           unat off + n \<le> unat (vol_size v) \<and> heap_same (k_heap k) (k_heap k'))
    else volume_read io v off sz k = Ret ((0, []), k)"
proof (cases "unat off \<le> unat (vol_size v)")
  case True
  have n: "n < 4294967296" using assms(3) unat_u32_less [of sz] by (simp only: min_less_iff_disj) blast
  have le: "unat off + n \<le> unat (vol_size v)" using assms(3) True by simp
  show ?thesis
    using ata_volume_read [OF assms(1), of off "of_nat n"] volume_read_clamped [OF True assms(2), of io k]
      assms(3,4) True n le by (auto elim!: ret_or_panic_mono)
next
  case False
  then show ?thesis by (simp add: volume_read_def u32_less_iff)
qed

theorem volume_read_confined_witness:
  "ret_or_panic oom (volume_read ide_ports small_volume 0x7E00 0x400 small_kernel) (\<lambda>((m, bs), k').
     unat m = 0x200 \<and> bs = flat (ide_disk small_ide) 0x1F0 0x8200 0x200 \<and> heap_same fresh_heap (k_heap k'))"
  using volume_read_confined [OF small_ata_volume, of "0x7E00" "0x400" "0x200"]
  by (auto simp: small_volume_def ata_range_def small_kernel_def elim!: ret_or_panic_mono)

end
