(* ===== verification/Fs_Types.thy ===== *)
theory Fs_Types
  imports Volume
begin

text \<open>
  The data the file systems share: the nodes, directory entries and file systems of
  \<open>kernel/include/fs/vfs.h\<close>, and the on-disk structures of \<open>initfs.h\<close> and \<open>ext2.h\<close>, decoded from the bytes
  of a buffer (little-endian, packed).

  A node is a value that carries the address of its block; the file system it belongs to is
  referred to by address. A pointer to an operation table is the name of the table.
\<close>

subsection \<open>On-disk structures\<close>

record initfs_header =
  ih_magic :: u16
  ih_n_files :: u32

text \<open>\<open>ifh_name\<close> is the memory from the start of the field \<open>name\<close> to the end of the structure.\<close>

record initfs_file_header =
  ifh_magic :: u16
  ifh_name :: bytes
  ifh_offset :: u32
  ifh_length :: u32

definition INITFS_HEADER_MAGIC :: u16 where "INITFS_HEADER_MAGIC = 0xDEAD"
definition INITFS_FILE_HEADER_MAGIC :: u16 where "INITFS_FILE_HEADER_MAGIC = 0xBEEF"

definition initfs_header_of :: "bytes \<Rightarrow> initfs_header" where
  "initfs_header_of b = \<lparr>ih_magic = le16 b 0, ih_n_files = le32 b 2\<rparr>"

definition initfs_file_header_of :: "bytes \<Rightarrow> initfs_file_header" where
  "initfs_file_header_of b = \<lparr>ifh_magic = le16 b 0, ifh_name = drop 2 b, ifh_offset = le32 b 66,
     ifh_length = le32 b 70\<rparr>"

text \<open>The fields of the ext2 structures that the driver reads.\<close>

record ext2_superblock =
  s_blocks_count :: u32
  s_first_data_block :: u32
  s_log_block_size :: u32
  s_blocks_per_group :: u32
  s_inodes_per_group :: u32
  s_magic :: u16
  s_rev_level :: u32
  s_inode_size :: u16

record ext2_block_group_descriptor =
  bg_inode_table :: u32

record ext2_inode =
  i_mode :: u16
  i_uid :: u16
  i_size :: u32
  i_gid :: u16
  i_block :: "u32 list"

record ext2_dir_entry =
  e_inode :: u32
  e_rec_len :: u16
  e_name_len :: u8

definition EXT2_SUPERBLOCK_OFFSET :: u32 where "EXT2_SUPERBLOCK_OFFSET = 1024"
definition EXT2_SUPER_MAGIC :: u16 where "EXT2_SUPER_MAGIC = 0xEF53"
definition EXT2_ROOT_INODE :: u32 where "EXT2_ROOT_INODE = 2"
definition EXT2_S_IFMT :: u16 where "EXT2_S_IFMT = 0xF000"
definition EXT2_S_IFDIR :: u16 where "EXT2_S_IFDIR = 0x4000"
definition EXT2_S_IFLNK :: u16 where "EXT2_S_IFLNK = 0xA000"

definition ext2_superblock_of :: "bytes \<Rightarrow> ext2_superblock" where
  "ext2_superblock_of b = \<lparr>s_blocks_count = le32 b 4, s_first_data_block = le32 b 20,
     s_log_block_size = le32 b 24, s_blocks_per_group = le32 b 32, s_inodes_per_group = le32 b 40,
     s_magic = le16 b 56, s_rev_level = le32 b 76, s_inode_size = le16 b 88\<rparr>"

definition ext2_bgd_of :: "bytes \<Rightarrow> ext2_block_group_descriptor" where
  "ext2_bgd_of b = \<lparr>bg_inode_table = le32 b 8\<rparr>"

definition ext2_inode_of :: "bytes \<Rightarrow> ext2_inode" where
  "ext2_inode_of b = \<lparr>i_mode = le16 b 0, i_uid = le16 b 2, i_size = le32 b 4, i_gid = le16 b 24,
     i_block = map (\<lambda>i. le32 b (40 + 4 * i)) [0..<15]\<rparr>"

text \<open>The directory entry at a position of a block.\<close>

definition ext2_dir_entry_of :: "bytes \<Rightarrow> nat \<Rightarrow> ext2_dir_entry" where
  "ext2_dir_entry_of b p = \<lparr>e_inode = le32 b p, e_rec_len = le16 b (p + 4), e_name_len = b ! (p + 6)\<rparr>"

subsection \<open>Nodes and file systems\<close>

definition VFS_FILE :: u32 where "VFS_FILE = 1"
definition VFS_DIRECTORY :: u32 where "VFS_DIRECTORY = 2"
definition VFS_SYMLINK :: u32 where "VFS_SYMLINK = 3"

lemmas vfs_types = VFS_FILE_def VFS_DIRECTORY_def VFS_SYMLINK_def

text \<open>What \<open>inode_data\<close> points to: an arbitrary word (NULL is 0), or the structure a driver loaded there.\<close>

datatype inode_data = Raw u32 | Initfs_data u32 initfs_file_header | Ext2_data u32 ext2_inode

fun inode_data_addr :: "inode_data \<Rightarrow> u32" where
  "inode_data_addr (Raw a) = a"
| "inode_data_addr (Initfs_data a h) = a"
| "inode_data_addr (Ext2_data a i) = a"

datatype vfs_node_operations =
  initfs_directory_operations | initfs_file_operations | ext2_directory_operations | ext2_file_operations

record vfs_node =
  vn_addr :: u32
  vn_name :: bytes
  vn_permissions :: u32
  vn_type :: u32
  vn_uid :: u32
  vn_gid :: u32
  vn_length :: u32
  vn_inode :: u32
  vn_inode_data :: inode_data
  vn_link :: u32
  vn_operations :: vfs_node_operations
  vn_filesystem :: u32

record vfs_dirent =
  de_addr :: u32
  de_name :: bytes
  de_inode :: u32

definition sizeof_vfs_node :: u32 where "sizeof_vfs_node = 296"
definition sizeof_vfs_dirent :: u32 where "sizeof_vfs_dirent = 260"
definition sizeof_vfs_filesystem :: u32 where "sizeof_vfs_filesystem = 16"

text \<open>The word in an uninitialised field of a new block.\<close>

definition heap_word :: "kheap \<Rightarrow> u32 \<Rightarrow> u32" where
  "heap_word h a = le32 (map (\<lambda>i. heap_data h (a + of_nat i)) [0..<4]) 0"

text \<open>The in-memory state of a mounted ext2 file system, \<open>ext2_fs_t\<close>.\<close>

record ext2_fs =
  x_superblock :: ext2_superblock
  x_block_size :: u32
  x_inode_size :: u32
  x_inodes_per_group :: u32
  x_blocks_per_group :: u32
  x_bgd_table_block :: u32
  x_num_block_groups :: u32

datatype vfs_filesystem_operations = initfs_operations | ext2_operations

record vfs_filesystem =
  fs_root :: "vfs_node option"
  fs_volume :: volume
  fs_data :: "(u32 \<times> ext2_fs) option"
  fs_operations :: vfs_filesystem_operations
  fs_operations_addr :: u32

text \<open>The read operation of a volume, \<open>volume->operations->read\<close>.\<close>

type_synonym ('c, 'm) volume_reader =
  "volume \<Rightarrow> u32 \<Rightarrow> u32 \<Rightarrow> ('c, 'm) kernel_scheme \<Rightarrow> ((u32 \<times> bytes) \<times> ('c, 'm) kernel_scheme) kres"

text \<open>Read into a buffer of \<open>n\<close> bytes with the old contents \<open>junk\<close>.\<close>

definition read_struct :: "('c, 'm) volume_reader \<Rightarrow> (nat \<Rightarrow> u8) \<Rightarrow> volume \<Rightarrow> u32 \<Rightarrow> u32 \<Rightarrow> ('c, 'm) kernel_scheme \<Rightarrow>
    (bytes \<times> ('c, 'm) kernel_scheme) kres" where
  "read_struct vread junk v off n k =
     kbind (vread v off n k) (\<lambda>((m, bs), k1). kbind (or_fault (filled junk (unat n) bs)) (\<lambda>buf. Ret (buf, k1)))"

text \<open>Two kernel states that agree but for the heap and the hardware.\<close>

definition frame :: "('c, 'm) kernel_scheme \<Rightarrow> ('c, 'm) kernel_scheme \<Rightarrow> bool" where
  "frame k k' \<longleftrightarrow> (\<exists>h c. k' = k\<lparr>k_heap := h, k_hw := c\<rparr>)"

lemma frame_refl: "frame k k"
  unfolding frame_def by (intro exI [of _ "k_heap k"] exI [of _ "k_hw k"]) simp

lemma frame_trans: "frame k k1 \<Longrightarrow> frame k1 k2 \<Longrightarrow> frame k k2"
proof -
  assume "frame k k1" "frame k1 k2"
  then obtain h c h' c' where "k1 = k\<lparr>k_heap := h, k_hw := c\<rparr>" "k2 = k1\<lparr>k_heap := h', k_hw := c'\<rparr>"
    unfolding frame_def by blast
  then have "k2 = k\<lparr>k_heap := h', k_hw := c'\<rparr>" by simp
  then show ?thesis unfolding frame_def by blast
qed

lemma frame_heap: "frame k (k\<lparr>k_heap := h\<rparr>)"
proof -
  have "k\<lparr>k_heap := h\<rparr> = k\<lparr>k_heap := h, k_hw := k_hw k\<rparr>" by simp
  then show ?thesis unfolding frame_def by blast
qed

lemma frame_set_heap: "frame k k' \<Longrightarrow> frame k (k'\<lparr>k_heap := h\<rparr>)"
  by (rule frame_trans [OF _ frame_heap])

text \<open>A step that allocates but releases nothing.\<close>

definition grows :: "('c, 'm) kernel_scheme \<Rightarrow> ('c, 'm) kernel_scheme \<Rightarrow> bool" where
  "grows k k' \<longleftrightarrow> frame k k' \<and> kheap_live (k_heap k) \<subseteq> kheap_live (k_heap k')"

lemma grows_refl: "grows k k"
  by (simp add: grows_def frame_refl)

lemma grows_trans: "grows k k1 \<Longrightarrow> grows k1 k2 \<Longrightarrow> grows k k2"
  unfolding grows_def using frame_trans by blast

lemma grows_same: "heap_same (k_heap k) (k_heap k') \<Longrightarrow> frame k k' \<Longrightarrow> grows k k'"
  by (simp add: grows_def heap_same_def)

lemma grows_alloc: "heap_plus (k_heap k) p n h \<Longrightarrow> grows k (k\<lparr>k_heap := h\<rparr>)"
  by (auto simp: grows_def heap_plus_def frame_heap)

context volume_image
begin

text \<open>Reading a structure inside the image.\<close>

lemma read_struct_img:
  assumes "inv k" and "vread v = rd" and "ok_range (unat off) (unat n)" and "unat off + unat n \<le> length img"
  shows "ret_or_panic oom (read_struct vread junk v off n k) (\<lambda>(buf, k').
    buf = take (unat n) (drop (unat off) img) \<and> inv k' \<and> heap_same (k_heap k) (k_heap k') \<and> frame k k')"
  unfolding read_struct_def assms(2)
  by (rule rd_bind [OF assms(1,3,4)]) (use assms(4) in \<open>simp add: frame_def\<close>)

lemma read_struct_bind:
  assumes "inv k" and "vread v = rd" and "ok_range (unat off) (unat n)" and "unat off + unat n \<le> length img"
    and "\<And>k'. inv k' \<Longrightarrow> heap_same (k_heap k) (k_heap k') \<Longrightarrow> frame k k' \<Longrightarrow>
      ret_or_panic oom (f (take (unat n) (drop (unat off) img), k')) Q"
  shows "ret_or_panic oom (kbind (read_struct vread junk v off n k) f) Q"
  by (rule ret_or_panic_bind [OF read_struct_img [where vread = vread, OF assms(1-4)]]) (use assms(5) in auto)

text \<open>Allocating a block that stays allocated.\<close>

lemma kmalloc_bind:
  assumes "inv k"
    and "\<And>p h. heap_plus (k_heap k) p n h \<Longrightarrow> inv (k\<lparr>k_heap := h\<rparr>) \<Longrightarrow> ret_or_panic oom (f (p, h)) Q"
  shows "ret_or_panic oom (kbind (kmalloc_or_panic n (k_heap k)) f) Q"
  by (rule ret_or_panic_bind [OF kmalloc_or_panic_plus [OF inv_heap [OF assms(1)]]])
    (use assms inv_set_heap heap_plus_inv in blast)

end

end
