(* ===== verification/Ext2.thy ===== *)
theory Ext2
  imports Fs_Types
begin

text \<open>
  The read-only ext2 driver, \<open>kernel/src/fs/ext2.c\<close>. Division by zero, shifts out of range and accesses
  outside a buffer are \<open>Fault\<close>. A block buffer on the heap is the list of its bytes; it starts with
  the old contents of the heap block. \<open>fs_addr\<close> is the address of the file system.
\<close>

subsection \<open>Blocks\<close>

definition u32_divide :: "u32 \<Rightarrow> u32 \<Rightarrow> u32 kres" where
  "u32_divide x y = (if y = 0 then Fault else Ret (x div y))"

definition ext2_data :: "vfs_filesystem \<Rightarrow> ext2_fs kres" where
  "ext2_data filesystem = (case fs_data filesystem of None \<Rightarrow> Fault | Some (p, data) \<Rightarrow> Ret data)"

definition block_buffer :: "kheap \<Rightarrow> u32 \<Rightarrow> u32 \<Rightarrow> bytes" where
  "block_buffer h p n = map (heap_junk h p) [0..<unat n]"

definition ext2_read_block :: "('c, 'm) volume_reader \<Rightarrow> vfs_filesystem \<Rightarrow> u32 \<Rightarrow> bytes \<Rightarrow> ('c, 'm) kernel_scheme \<Rightarrow>
    ((u32 \<times> bytes) \<times> ('c, 'm) kernel_scheme) kres" where
  "ext2_read_block vread filesystem block buffer k =
     kbind (ext2_data filesystem) (\<lambda>data.
     kbind (vread (fs_volume filesystem) (block * x_block_size data) (x_block_size data) k) (\<lambda>((n, bs), k1).
     kbind (or_fault (mem_write buffer 0 bs)) (\<lambda>buffer'. Ret ((n, buffer'), k1))))"

definition ext2_read_bgd :: "('c, 'm) volume_reader \<Rightarrow> vfs_filesystem \<Rightarrow> u32 \<Rightarrow> ('c, 'm) kernel_scheme \<Rightarrow>
    (ext2_block_group_descriptor option \<times> ('c, 'm) kernel_scheme) kres" where
  "ext2_read_bgd vread filesystem grp k =
     kbind (ext2_data filesystem) (\<lambda>data.
     if x_num_block_groups data \<le> grp then Ret (None, k)
     else let offset = grp * 32
          in kbind (u32_divide offset (x_block_size data)) (\<lambda>q.
             let block = x_bgd_table_block data + q; offset_in_block = offset mod x_block_size data
             in kbind (kmalloc_or_panic (x_block_size data) (k_heap k)) (\<lambda>(p, h).
                kbind (ext2_read_block vread filesystem block (block_buffer h p (x_block_size data)) (k\<lparr>k_heap := h\<rparr>))
                  (\<lambda>((n, buffer), k1).
                kbind (or_fault (mem_read buffer (unat offset_in_block) 32)) (\<lambda>bs.
                Ret (Some (ext2_bgd_of bs), k1\<lparr>k_heap := kfree p (k_heap k1)\<rparr>))))))"

definition ext2_read_inode :: "('c, 'm) volume_reader \<Rightarrow> vfs_filesystem \<Rightarrow> u32 \<Rightarrow> ('c, 'm) kernel_scheme \<Rightarrow>
    (ext2_inode option \<times> ('c, 'm) kernel_scheme) kres" where
  "ext2_read_inode vread filesystem inode_no k =
     (if inode_no = 0 then Ret (None, k)
      else kbind (ext2_data filesystem) (\<lambda>data.
          kbind (u32_divide (inode_no - 1) (x_inodes_per_group data)) (\<lambda>grp.
          let index = (inode_no - 1) mod x_inodes_per_group data
          in kbind (ext2_read_bgd vread filesystem grp k) (\<lambda>(r, k1).
             case r of
               None \<Rightarrow> Ret (None, k1)
             | Some bgd \<Rightarrow>
                 let offset = index * x_inode_size data
                 in kbind (u32_divide offset (x_block_size data)) (\<lambda>q.
                    let block = bg_inode_table bgd + q; offset_in_block = offset mod x_block_size data
                    in kbind (kmalloc_or_panic (x_block_size data) (k_heap k1)) (\<lambda>(p, h).
                       kbind (ext2_read_block vread filesystem block (block_buffer h p (x_block_size data))
                                (k1\<lparr>k_heap := h\<rparr>)) (\<lambda>((n, buffer), k2).
                       kbind (or_fault (mem_read buffer (unat offset_in_block) 128)) (\<lambda>bs.
                       Ret (Some (ext2_inode_of bs), k2\<lparr>k_heap := kfree p (k_heap k2)\<rparr>)))))))))"

text \<open>The entry \<open>i\<close> of a buffer of words.\<close>

definition word_at :: "bytes \<Rightarrow> u32 \<Rightarrow> u32 option" where
  "word_at buffer i = (if 4 * unat i + 4 \<le> length buffer then Some (le32 buffer (4 * unat i)) else None)"

text \<open>Read a block of pointers and take one of them.\<close>

definition ext2_read_pointer :: "('c, 'm) volume_reader \<Rightarrow> vfs_filesystem \<Rightarrow> u32 \<Rightarrow> u32 \<Rightarrow> bytes \<Rightarrow> ('c, 'm) kernel_scheme \<Rightarrow>
    ((u32 \<times> bytes) \<times> ('c, 'm) kernel_scheme) kres" where
  "ext2_read_pointer vread filesystem block i buffer k =
     kbind (ext2_read_block vread filesystem block buffer k) (\<lambda>((n, buffer'), k1).
     kbind (or_fault (word_at buffer' i)) (\<lambda>w. Ret ((w, buffer'), k1)))"

text \<open>The three levels of indirect blocks, between the allocation of the buffer and its release.\<close>

definition ext2_single :: "('c, 'm) volume_reader \<Rightarrow> vfs_filesystem \<Rightarrow> ext2_inode \<Rightarrow> u32 \<Rightarrow> bytes \<Rightarrow> ('c, 'm) kernel_scheme \<Rightarrow>
    (u32 \<times> ('c, 'm) kernel_scheme) kres" where
  "ext2_single vread filesystem inode index buffer k =
     (if i_block inode ! 12 \<noteq> 0
      then kbind (ext2_read_pointer vread filesystem (i_block inode ! 12) index buffer k) (\<lambda>((result, b1), k1).
           Ret (result, k1))
      else Ret (0, k))"

definition ext2_double :: "('c, 'm) volume_reader \<Rightarrow> vfs_filesystem \<Rightarrow> ext2_inode \<Rightarrow> u32 \<Rightarrow> u32 \<Rightarrow> bytes \<Rightarrow> ('c, 'm) kernel_scheme \<Rightarrow>
    (u32 \<times> ('c, 'm) kernel_scheme) kres" where
  "ext2_double vread filesystem inode ppb index buffer k =
     (if i_block inode ! 13 \<noteq> 0
      then kbind (u32_divide index ppb) (\<lambda>q.
           kbind (ext2_read_pointer vread filesystem (i_block inode ! 13) q buffer k) (\<lambda>((single, b1), k1).
           if single \<noteq> 0
           then kbind (ext2_read_pointer vread filesystem single (index mod ppb) b1 k1) (\<lambda>((result, b2), k2).
                Ret (result, k2))
           else Ret (0, k1)))
      else Ret (0, k))"

definition ext2_triple :: "('c, 'm) volume_reader \<Rightarrow> vfs_filesystem \<Rightarrow> ext2_inode \<Rightarrow> u32 \<Rightarrow> u32 \<Rightarrow> bytes \<Rightarrow> ('c, 'm) kernel_scheme \<Rightarrow>
    (u32 \<times> ('c, 'm) kernel_scheme) kres" where
  "ext2_triple vread filesystem inode ppb index buffer k =
     (if i_block inode ! 14 \<noteq> 0
      then kbind (u32_divide index (ppb * ppb)) (\<lambda>q.
           kbind (ext2_read_pointer vread filesystem (i_block inode ! 14) q buffer k) (\<lambda>((double_block, b1), k1).
           if double_block \<noteq> 0
           then let remainder = index mod (ppb * ppb)
                in kbind (u32_divide remainder ppb) (\<lambda>q'.
                   kbind (ext2_read_pointer vread filesystem double_block q' b1 k1) (\<lambda>((single, b2), k2).
                   if single \<noteq> 0
                   then kbind (ext2_read_pointer vread filesystem single (remainder mod ppb) b2 k2) (\<lambda>((result, b3), k3).
                        Ret (result, k3))
                   else Ret (0, k2)))
           else Ret (0, k1)))
      else Ret (0, k))"

definition ext2_inode_block :: "('c, 'm) volume_reader \<Rightarrow> vfs_filesystem \<Rightarrow> ext2_inode \<Rightarrow> u32 \<Rightarrow> ('c, 'm) kernel_scheme \<Rightarrow>
    (u32 \<times> ('c, 'm) kernel_scheme) kres" where
  "ext2_inode_block vread filesystem inode index k =
     kbind (ext2_data filesystem) (\<lambda>data.
     let ppb = x_block_size data div 4
     in if index < 12 then Ret (i_block inode ! unat index, k)
        else let index1 = index - 12
             in kbind (kmalloc_or_panic (x_block_size data) (k_heap k)) (\<lambda>(p, h).
                let buffer = block_buffer h p (x_block_size data); k0 = k\<lparr>k_heap := h\<rparr>
                in kbind (if index1 < ppb then ext2_single vread filesystem inode index1 buffer k0
                          else let index2 = index1 - ppb
                               in if index2 < ppb * ppb then ext2_double vread filesystem inode ppb index2 buffer k0
                                  else ext2_triple vread filesystem inode ppb (index2 - ppb * ppb) buffer k0)
                     (\<lambda>(result, k1). Ret (result, k1\<lparr>k_heap := kfree p (k_heap k1)\<rparr>))))"

subsection \<open>Nodes\<close>

definition ext2_build_node :: "u32 \<Rightarrow> u32 \<Rightarrow> bytes \<Rightarrow> ext2_inode \<Rightarrow> ('c, 'm) kernel_scheme \<Rightarrow>
    (vfs_node \<times> ('c, 'm) kernel_scheme) kres" where
  "ext2_build_node fs_addr inode_no name inode k =
     kbind (kmalloc_or_panic sizeof_vfs_node (k_heap k)) (\<lambda>(p, h).
     kbind (or_fault (strncpy (replicate 256 0) (name @ [0]) 256)) (\<lambda>nm.
     let fmt = i_mode inode AND EXT2_S_IFMT;
         (ty, ops) = (if fmt = EXT2_S_IFDIR then (VFS_DIRECTORY, ext2_directory_operations)
                      else if fmt = EXT2_S_IFLNK then (VFS_SYMLINK, ext2_file_operations)
                      else (VFS_FILE, ext2_file_operations))
     in Ret (\<lparr>vn_addr = p, vn_name = cstr_at nm 0, vn_permissions = ucast (i_mode inode AND 0x0FFF), vn_type = ty,
              vn_uid = ucast (i_uid inode), vn_gid = ucast (i_gid inode), vn_length = i_size inode,
              vn_inode = inode_no, vn_inode_data = Raw 0, vn_link = 0, vn_operations = ops,
              vn_filesystem = fs_addr\<rparr>, k\<lparr>k_heap := h\<rparr>)))"

definition ext2_open :: "('c, 'm) volume_reader \<Rightarrow> vfs_filesystem \<Rightarrow> vfs_node \<Rightarrow> ('c, 'm) kernel_scheme \<Rightarrow>
    ((int \<times> vfs_node) \<times> ('c, 'm) kernel_scheme) kres" where
  "ext2_open vread filesystem node k =
     (if vn_type node = VFS_DIRECTORY then Ret ((0, node), k)
      else kbind (kmalloc_or_panic 128 (k_heap k)) (\<lambda>(p, h).
           kbind (ext2_read_inode vread filesystem (vn_inode node) (k\<lparr>k_heap := h\<rparr>)) (\<lambda>(r, k1).
           case r of
             None \<Rightarrow> Ret ((-1, node), k1\<lparr>k_heap := kfree p (k_heap k1)\<rparr>)
           | Some inode \<Rightarrow> Ret ((0, node\<lparr>vn_inode_data := Ext2_data p inode\<rparr>), k1))))"

definition ext2_close :: "vfs_node \<Rightarrow> ('c, 'm) kernel_scheme \<Rightarrow> ((int \<times> vfs_node) \<times> ('c, 'm) kernel_scheme) kres" where
  "ext2_close node k =
     (if inode_data_addr (vn_inode_data node) \<noteq> 0
      then Ret ((0, node\<lparr>vn_inode_data := Raw 0\<rparr>),
                k\<lparr>k_heap := kfree (inode_data_addr (vn_inode_data node)) (k_heap k)\<rparr>)
      else Ret ((0, node), k))"

lemma ext2_chunk:
  assumes "bytes_read < sz" and "block_size \<noteq> 0"
    and "chunk = (if sz - bytes_read < block_size - x mod block_size then sz - bytes_read
                  else block_size - x mod (block_size :: u32))"
  shows "unat chunk = min (unat sz - unat bytes_read) (unat block_size - unat x mod unat block_size)"
    and "0 < unat chunk" and "unat (bytes_read + chunk) = unat bytes_read + unat chunk"
proof -
  have b: "0 < unat block_size" using assms(2) by (simp add: u32_eq_iff)
  have "x mod block_size \<le> block_size" using b by (simp add: u32_le_iff unat_u32_mod less_imp_le)
  then have u: "unat (block_size - x mod block_size) = unat block_size - unat x mod unat block_size"
    by (simp add: unat_u32_sub unat_u32_mod)
  have s: "unat (sz - bytes_read) = unat sz - unat bytes_read" using assms(1) by (simp add: unat_u32_sub)
  show c: "unat chunk = min (unat sz - unat bytes_read) (unat block_size - unat x mod unat block_size)"
    using assms(3) u s by (auto simp: u32_less_iff)
  show "0 < unat chunk" using c assms(1) b by (simp add: u32_less_iff)
  have "unat bytes_read + unat chunk \<le> unat sz" using c assms(1) by (simp add: u32_less_iff)
  then have "unat bytes_read + unat chunk < 4294967296" using unat_u32_less by (rule le_less_trans)
  then show "unat (bytes_read + chunk) = unat bytes_read + unat chunk" by (rule unat_u32_add_small)
qed

lemma ext2_chunk_less:
  assumes "bytes_read < sz" and "block_size \<noteq> 0"
  shows "unat sz - unat (bytes_read + (if sz - bytes_read < block_size - x mod block_size then sz - bytes_read
           else block_size - x mod (block_size :: u32))) < unat sz - unat bytes_read"
proof -
  have "unat bytes_read < unat sz" using assms(1) by (simp add: u32_less_iff)
  then show ?thesis unfolding ext2_chunk(3) [OF assms refl]
    using ext2_chunk(2) [OF assms refl, of x] by (meson diff_less_mono2 less_add_same_cancel1)
qed

text \<open>The loop of \<open>ext2_read\<close>; \<open>out\<close> is what it has stored in the caller's buffer.\<close>

function ext2_read_loop :: "('c, 'm) volume_reader \<Rightarrow> vfs_filesystem \<Rightarrow> ext2_inode \<Rightarrow> u32 \<Rightarrow> u32 \<Rightarrow> u32 \<Rightarrow> u32 \<Rightarrow> bytes \<Rightarrow> bytes \<Rightarrow>
    ('c, 'm) kernel_scheme \<Rightarrow> ((u32 \<times> bytes) \<times> ('c, 'm) kernel_scheme) kres" where
  "ext2_read_loop vread filesystem inode block_size offset sz bytes_read out buffer k =
     (if bytes_read < sz
      then if block_size = 0 then Fault
           else let file_block = (offset + bytes_read) div block_size;
                    offset_in_block = (offset + bytes_read) mod block_size;
                    chunk0 = block_size - offset_in_block;
                    chunk = (if sz - bytes_read < chunk0 then sz - bytes_read else chunk0)
                in kbind (ext2_inode_block vread filesystem inode file_block k) (\<lambda>(physical_block, k1).
                   kbind (if physical_block = 0 then Ret ((replicate (unat chunk) 0, buffer), k1)
                          else kbind (ext2_read_block vread filesystem physical_block buffer k1) (\<lambda>((n, buffer'), k2).
                               kbind (or_fault (mem_read buffer' (unat offset_in_block) (unat chunk))) (\<lambda>bs.
                               Ret ((bs, buffer'), k2)))) (\<lambda>((bs, buffer'), k2).
                   ext2_read_loop vread filesystem inode block_size offset sz (bytes_read + chunk) (out @ bs) buffer' k2))
      else Ret ((bytes_read, out), k))"
  by pat_completeness auto

termination
  by (relation "measure (\<lambda>(_, _, _, _, _, sz, r, _). unat sz - unat r)")
    (simp, simp only: in_measure prod.case, rule ext2_chunk_less)

declare ext2_read_loop.simps [simp del]

definition ext2_read :: "('c, 'm) volume_reader \<Rightarrow> vfs_filesystem \<Rightarrow> vfs_node \<Rightarrow> u32 \<Rightarrow> u32 \<Rightarrow> ('c, 'm) kernel_scheme \<Rightarrow>
    ((int \<times> bytes) \<times> ('c, 'm) kernel_scheme) kres" where
  "ext2_read vread filesystem node offset sz k =
     (if vn_inode_data node = Raw 0 then Ret ((-1, []), k)
      else case vn_inode_data node of
             Ext2_data p inode \<Rightarrow>
               if i_size inode < offset then Ret ((0, []), k)
               else let sz' = (if i_size inode < offset + sz then i_size inode - offset else sz)
                    in if sz' = 0 then Ret ((0, []), k)
                       else kbind (ext2_data filesystem) (\<lambda>data.
                            kbind (kmalloc_or_panic (x_block_size data) (k_heap k)) (\<lambda>(p, h).
                            kbind (ext2_read_loop vread filesystem inode (x_block_size data) offset sz' 0 []
                                     (block_buffer h p (x_block_size data)) (k\<lparr>k_heap := h\<rparr>)) (\<lambda>((n, out), k1).
                            Ret ((sint n, out), k1\<lparr>k_heap := kfree p (k_heap k1)\<rparr>))))
           | _ \<Rightarrow> Fault)"

subsection \<open>Directories\<close>

text \<open>
  The fields of the entry at a position, read one at a time: the record length, then the name
  length.
\<close>

definition entry_rec_len :: "bytes \<Rightarrow> nat \<Rightarrow> u16 option" where
  "entry_rec_len buffer position =
     (if position + 6 \<le> length buffer then Some (e_rec_len (ext2_dir_entry_of buffer position)) else None)"

definition entry_name_len :: "bytes \<Rightarrow> nat \<Rightarrow> u8 option" where
  "entry_name_len buffer position =
     (if position + 7 \<le> length buffer then Some (e_name_len (ext2_dir_entry_of buffer position)) else None)"

text \<open>
  The inner loop of \<open>ext2_readdir\<close> over one block: \<open>Inr\<close> the position of the entry, or \<open>Inl\<close> the number
  of entries counted so far.
\<close>

function ext2_readdir_block :: "bytes \<Rightarrow> u32 \<Rightarrow> nat \<Rightarrow> u32 \<Rightarrow> (u32 + nat) option" where
  "ext2_readdir_block buffer index position current =
     (if position < length buffer
      then case entry_rec_len buffer position of
             None \<Rightarrow> None
           | Some rec_len \<Rightarrow>
               if rec_len = 0 then Some (Inl current)
               else if e_inode (ext2_dir_entry_of buffer position) \<noteq> 0
                    then if current = index then Some (Inr position)
                         else ext2_readdir_block buffer index (position + unat rec_len) (current + 1)
                    else ext2_readdir_block buffer index (position + unat rec_len) current
      else Some (Inl current))"
  by pat_completeness auto
termination by (relation "measure (\<lambda>(b, _, p, _). length b - p)") (auto simp: unat_gt_0 intro!: diff_less_mono2)

declare ext2_readdir_block.simps [simp del]

text \<open>The blocks of a directory from block \<open>b\<close> on, and the result: the block buffer and the position in it.\<close>

function ext2_readdir_loop :: "('c, 'm) volume_reader \<Rightarrow> vfs_filesystem \<Rightarrow> ext2_inode \<Rightarrow> u32 \<Rightarrow> nat \<Rightarrow> nat \<Rightarrow> u32 \<Rightarrow> bytes \<Rightarrow>
    ('c, 'm) kernel_scheme \<Rightarrow> ((bytes \<times> nat) option \<times> ('c, 'm) kernel_scheme) kres" where
  "ext2_readdir_loop vread filesystem inode index total_blocks b current buffer k =
     (if b < total_blocks
      then kbind (ext2_inode_block vread filesystem inode (of_nat b) k) (\<lambda>(physical_block, k1).
           if physical_block = 0
           then ext2_readdir_loop vread filesystem inode index total_blocks (b + 1) current buffer k1
           else kbind (ext2_read_block vread filesystem physical_block buffer k1) (\<lambda>((n, buffer'), k2).
                kbind (or_fault (ext2_readdir_block buffer' index 0 current)) (\<lambda>r.
                case r of
                  Inr position \<Rightarrow> Ret (Some (buffer', position), k2)
                | Inl current' \<Rightarrow>
                    ext2_readdir_loop vread filesystem inode index total_blocks (b + 1) current' buffer' k2)))
      else Ret (None, k))"
  by pat_completeness auto
termination by (relation "measure (\<lambda>(_, _, _, _, n, b, _). n - b)") auto

declare ext2_readdir_loop.simps [simp del]

definition ext2_total_blocks :: "ext2_fs \<Rightarrow> ext2_inode \<Rightarrow> u32 kres" where
  "ext2_total_blocks data inode = u32_divide (i_size inode + x_block_size data - 1) (x_block_size data)"

definition ext2_readdir :: "('c, 'm) volume_reader \<Rightarrow> vfs_filesystem \<Rightarrow> vfs_node \<Rightarrow> u32 \<Rightarrow> ('c, 'm) kernel_scheme \<Rightarrow>
    (vfs_dirent option \<times> ('c, 'm) kernel_scheme) kres" where
  "ext2_readdir vread filesystem node index k =
     kbind (ext2_read_inode vread filesystem (vn_inode node) k) (\<lambda>(r, k1).
     case r of
       None \<Rightarrow> Ret (None, k1)
     | Some inode \<Rightarrow>
         kbind (ext2_data filesystem) (\<lambda>data.
         kbind (kmalloc_or_panic (x_block_size data) (k_heap k1)) (\<lambda>(p, h).
         kbind (ext2_total_blocks data inode) (\<lambda>total_blocks.
         kbind (ext2_readdir_loop vread filesystem inode index (unat total_blocks) 0 0
                  (block_buffer h p (x_block_size data)) (k1\<lparr>k_heap := h\<rparr>)) (\<lambda>(found, k2).
         case found of
           None \<Rightarrow> Ret (None, k2\<lparr>k_heap := kfree p (k_heap k2)\<rparr>)
         | Some (buffer, position) \<Rightarrow>
             kbind (kmalloc_or_panic sizeof_vfs_dirent (k_heap k2)) (\<lambda>(q, h2).
             kbind (or_fault (entry_name_len buffer position)) (\<lambda>name_len.
             kbind (or_fault (mem_read buffer (position + 8) (unat name_len))) (\<lambda>name.
             Ret (Some \<lparr>de_addr = q, de_name = cstr_at (name @ [0]) 0,
                    de_inode = e_inode (ext2_dir_entry_of buffer position)\<rparr>, k2\<lparr>k_heap := kfree p h2\<rparr>)))))))))"

text \<open>The loops of \<open>ext2_finddir\<close>: the inode number of the entry with the name.\<close>

function ext2_finddir_block :: "bytes \<Rightarrow> bytes \<Rightarrow> u32 \<Rightarrow> nat \<Rightarrow> u32 option option" where
  "ext2_finddir_block buffer name name_len position =
     (if position < length buffer
      then case entry_rec_len buffer position of
             None \<Rightarrow> None
           | Some rec_len \<Rightarrow>
               if rec_len = 0 then Some None
               else if e_inode (ext2_dir_entry_of buffer position) \<noteq> 0
                    then case entry_name_len buffer position of
                           None \<Rightarrow> None
                         | Some l \<Rightarrow>
                             if ucast l = name_len
                             then case memcmp (name @ [0]) (drop (position + 8) buffer) (unat name_len) of
                                    None \<Rightarrow> None
                                  | Some d \<Rightarrow>
                                      if d = 0 then Some (Some (e_inode (ext2_dir_entry_of buffer position)))
                                      else ext2_finddir_block buffer name name_len (position + unat rec_len)
                             else ext2_finddir_block buffer name name_len (position + unat rec_len)
                    else ext2_finddir_block buffer name name_len (position + unat rec_len)
      else Some None)"
  by pat_completeness auto
termination by (relation "measure (\<lambda>(b, _, _, p). length b - p)") (auto simp: unat_gt_0 intro!: diff_less_mono2)

declare ext2_finddir_block.simps [simp del]

function ext2_finddir_loop :: "('c, 'm) volume_reader \<Rightarrow> vfs_filesystem \<Rightarrow> ext2_inode \<Rightarrow> bytes \<Rightarrow> u32 \<Rightarrow> nat \<Rightarrow> nat \<Rightarrow> bytes \<Rightarrow>
    ('c, 'm) kernel_scheme \<Rightarrow> (u32 option \<times> ('c, 'm) kernel_scheme) kres" where
  "ext2_finddir_loop vread filesystem inode name name_len total_blocks b buffer k =
     (if b < total_blocks
      then kbind (ext2_inode_block vread filesystem inode (of_nat b) k) (\<lambda>(physical_block, k1).
           if physical_block = 0
           then ext2_finddir_loop vread filesystem inode name name_len total_blocks (b + 1) buffer k1
           else kbind (ext2_read_block vread filesystem physical_block buffer k1) (\<lambda>((n, buffer'), k2).
                kbind (or_fault (ext2_finddir_block buffer' name name_len 0)) (\<lambda>r.
                case r of
                  Some child \<Rightarrow> Ret (Some child, k2)
                | None \<Rightarrow> ext2_finddir_loop vread filesystem inode name name_len total_blocks (b + 1) buffer' k2)))
      else Ret (None, k))"
  by pat_completeness auto
termination by (relation "measure (\<lambda>(_, _, _, _, _, n, b, _). n - b)") auto

declare ext2_finddir_loop.simps [simp del]

definition ext2_finddir :: "('c, 'm) volume_reader \<Rightarrow> vfs_filesystem \<Rightarrow> vfs_node \<Rightarrow> bytes \<Rightarrow> ('c, 'm) kernel_scheme \<Rightarrow>
    (vfs_node option \<times> ('c, 'm) kernel_scheme) kres" where
  "ext2_finddir vread filesystem node name k =
     kbind (ext2_read_inode vread filesystem (vn_inode node) k) (\<lambda>(r, k1).
     case r of
       None \<Rightarrow> Ret (None, k1)
     | Some inode \<Rightarrow>
         kbind (ext2_data filesystem) (\<lambda>data.
         kbind (kmalloc_or_panic (x_block_size data) (k_heap k1)) (\<lambda>(p, h).
         kbind (ext2_total_blocks data inode) (\<lambda>total_blocks.
         kbind (ext2_finddir_loop vread filesystem inode name (of_nat (length name)) (unat total_blocks) 0
                  (block_buffer h p (x_block_size data)) (k1\<lparr>k_heap := h\<rparr>)) (\<lambda>(found, k2).
         let k3 = k2\<lparr>k_heap := kfree p (k_heap k2)\<rparr>
         in case found of
              None \<Rightarrow> Ret (None, k3)
            | Some child_inode_no \<Rightarrow>
                kbind (ext2_read_inode vread filesystem child_inode_no k3) (\<lambda>(c, k4).
                case c of
                  None \<Rightarrow> Ret (None, k4)
                | Some child_inode \<Rightarrow>
                    kbind (ext2_build_node (vn_filesystem node) child_inode_no name child_inode k4) (\<lambda>(new_node, k5).
                    Ret (Some new_node, k5))))))))"

text \<open>The operations that change the file system are not supported.\<close>

definition ext2_rename :: "vfs_node \<Rightarrow> bytes \<Rightarrow> int" where "ext2_rename node new_name = -1"
definition ext2_write :: "vfs_node \<Rightarrow> u32 \<Rightarrow> u32 \<Rightarrow> bytes \<Rightarrow> int" where "ext2_write node offset sz buffer = -1"
definition ext2_create :: "vfs_node \<Rightarrow> bytes \<Rightarrow> u32 \<Rightarrow> int" where "ext2_create node name permissions = -1"
definition ext2_unlink :: "vfs_node \<Rightarrow> bytes \<Rightarrow> int" where "ext2_unlink node name = -1"
definition ext2_mkdir :: "vfs_node \<Rightarrow> bytes \<Rightarrow> u32 \<Rightarrow> int" where "ext2_mkdir node name permissions = -1"
definition ext2_rmdir :: "vfs_node \<Rightarrow> bytes \<Rightarrow> int" where "ext2_rmdir node name = -1"

subsection \<open>Probing and mounting\<close>

definition ext2_probe :: "('c, 'm) volume_reader \<Rightarrow> (nat \<Rightarrow> u8) \<Rightarrow> volume \<Rightarrow> ('c, 'm) kernel_scheme \<Rightarrow>
    (bool \<times> ('c, 'm) kernel_scheme) kres" where
  "ext2_probe vread junk volume k =
     kbind (read_struct vread junk volume EXT2_SUPERBLOCK_OFFSET 1024 k) (\<lambda>(buf, k1).
     Ret (s_magic (ext2_superblock_of buf) = EXT2_SUPER_MAGIC, k1))"

definition ext2_init :: "('c, 'm) volume_reader \<Rightarrow> (nat \<Rightarrow> u8) \<Rightarrow> volume \<Rightarrow> ('c, 'm) kernel_scheme \<Rightarrow>
    ((u32 \<times> vfs_filesystem) option \<times> ('c, 'm) kernel_scheme) kres" where
  "ext2_init vread junk volume k =
     kbind (ext2_probe vread junk volume k) (\<lambda>(found, k1).
     if \<not> found then Ret (None, k1)
     else kbind (kmalloc_or_panic sizeof_vfs_filesystem (k_heap k1)) (\<lambda>(p, h1).
          kbind (kmalloc_or_panic 8 h1) (\<lambda>(p_ops, h2).
          Ret (Some (p, \<lparr>fs_root = None, fs_volume = volume, fs_data = None,
                         fs_operations = ext2_operations, fs_operations_addr = p_ops\<rparr>),
               k1\<lparr>k_heap := h2\<rparr>))))"

text \<open>The layout parameters derived from the superblock.\<close>

definition ext2_layout :: "ext2_superblock \<Rightarrow> ext2_fs kres" where
  "ext2_layout sb =
     (if 21 \<le> s_log_block_size sb then Fault
      else kbind (u32_divide (s_blocks_count sb + s_blocks_per_group sb - 1) (s_blocks_per_group sb)) (\<lambda>num.
           Ret \<lparr>x_superblock = sb, x_block_size = push_bit (unat (s_log_block_size sb)) 1024,
                x_inode_size = (if 1 \<le> s_rev_level sb then ucast (s_inode_size sb) else 128),
                x_inodes_per_group = s_inodes_per_group sb, x_blocks_per_group = s_blocks_per_group sb,
                x_bgd_table_block = s_first_data_block sb + 1, x_num_block_groups = num\<rparr>))"

definition ext2_mount :: "('c, 'm) volume_reader \<Rightarrow> u32 \<Rightarrow> vfs_filesystem \<Rightarrow> ('c, 'm) kernel_scheme \<Rightarrow>
    ((int \<times> vfs_filesystem) \<times> ('c, 'm) kernel_scheme) kres" where
  "ext2_mount vread fs_addr filesystem k =
     kbind (kmalloc_or_panic 1048 (k_heap k)) (\<lambda>(p, h).
     kbind (read_struct vread (heap_junk h p) (fs_volume filesystem) EXT2_SUPERBLOCK_OFFSET 1024 (k\<lparr>k_heap := h\<rparr>))
       (\<lambda>(buf, k1).
     let sb = ext2_superblock_of buf
     in if s_magic sb \<noteq> EXT2_SUPER_MAGIC then Ret ((-1, filesystem), k1\<lparr>k_heap := kfree p (k_heap k1)\<rparr>)
        else kbind (ext2_layout sb) (\<lambda>data.
             let fs1 = filesystem\<lparr>fs_data := Some (p, data)\<rparr>
             in kbind (ext2_read_inode vread fs1 EXT2_ROOT_INODE k1) (\<lambda>(r, k2).
                case r of
                  None \<Rightarrow> Ret ((-1, fs1\<lparr>fs_data := None\<rparr>), k2\<lparr>k_heap := kfree p (k_heap k2)\<rparr>)
                | Some root_inode \<Rightarrow>
                    kbind (ext2_build_node fs_addr EXT2_ROOT_INODE (str ''/'') root_inode k2) (\<lambda>(root, k3).
                    Ret ((0, fs1\<lparr>fs_root := Some root\<rparr>), k3))))))"

text \<open>\<open>kfree\<close> of NULL for parts that are not there.\<close>

definition ext2_unmount :: "u32 \<Rightarrow> vfs_filesystem \<Rightarrow> ('c, 'm) kernel_scheme \<Rightarrow> (int \<times> ('c, 'm) kernel_scheme) kres" where
  "ext2_unmount fs_addr filesystem k =
     Ret (0, k\<lparr>k_heap := kfree fs_addr (kfree (fs_operations_addr filesystem)
       (kfree (case fs_data filesystem of None \<Rightarrow> 0 | Some (p, d) \<Rightarrow> p)
       (kfree (case fs_root filesystem of None \<Rightarrow> 0 | Some root \<Rightarrow> vn_addr root) (k_heap k))))\<rparr>)"

end
