(* ===== verification/Ext2_Props.thy ===== *)
theory Ext2_Props
  imports Ext2
begin

text \<open>
  The ext2 driver on an image: the block map of an inode as a walk down a tree of pointers, the
  contents of a file as the bytes of its blocks, and that the driver computes both.
\<close>

subsection \<open>Reference definitions\<close>

definition block_bytes :: "bytes \<Rightarrow> nat \<Rightarrow> u32 \<Rightarrow> bytes" where
  "block_bytes img bs b = take bs (drop (unat b * bs) img)"

text \<open>
  The block at position \<open>i\<close> below a pointer of a level: a pointer of level 0 is the block itself, a
  block of level \<open>d + 1\<close> holds \<open>bs div 4\<close> pointers of level \<open>d\<close>. The null pointer is a hole.
\<close>

fun ptr_walk :: "bytes \<Rightarrow> nat \<Rightarrow> nat \<Rightarrow> u32 \<Rightarrow> nat \<Rightarrow> u32" where
  "ptr_walk img bs 0 b i = b"
| "ptr_walk img bs (Suc d) b i =
     (if b = 0 then 0
      else ptr_walk img bs d (le32 (block_bytes img bs b) (4 * (i div (bs div 4) ^ d))) (i mod (bs div 4) ^ d))"

definition ext2_file_block :: "bytes \<Rightarrow> nat \<Rightarrow> ext2_inode \<Rightarrow> nat \<Rightarrow> u32" where
  "ext2_file_block img bs inode n =
     (let ppb = bs div 4
      in if n < 12 then i_block inode ! n
         else if n - 12 < ppb then ptr_walk img bs 1 (i_block inode ! 12) (n - 12)
         else if n - 12 - ppb < ppb ^ 2 then ptr_walk img bs 2 (i_block inode ! 13) (n - 12 - ppb)
         else ptr_walk img bs 3 (i_block inode ! 14) (n - 12 - ppb - ppb ^ 2))"

text \<open>The contents of a file: blocks of the image, and zeros in the holes.\<close>

definition ext2_file_byte :: "bytes \<Rightarrow> nat \<Rightarrow> ext2_inode \<Rightarrow> nat \<Rightarrow> u8" where
  "ext2_file_byte img bs inode i =
     (let b = ext2_file_block img bs inode (i div bs)
      in if b = 0 then 0 else block_bytes img bs b ! (i mod bs))"

definition ext2_contents :: "bytes \<Rightarrow> nat \<Rightarrow> ext2_inode \<Rightarrow> bytes" where
  "ext2_contents img bs inode = map (ext2_file_byte img bs inode) [0..<unat (i_size inode)]"

text \<open>A block that can be read, and all the blocks on the way to a block of the file.\<close>

definition block_ok :: "(nat \<Rightarrow> nat \<Rightarrow> bool) \<Rightarrow> bytes \<Rightarrow> nat \<Rightarrow> u32 \<Rightarrow> bool" where
  "block_ok okr img bs b \<longleftrightarrow> unat b * bs + bs \<le> length img \<and> okr (unat b * bs) bs"

fun ptr_ok :: "(nat \<Rightarrow> nat \<Rightarrow> bool) \<Rightarrow> bytes \<Rightarrow> nat \<Rightarrow> nat \<Rightarrow> u32 \<Rightarrow> nat \<Rightarrow> bool" where
  "ptr_ok okr img bs 0 b i \<longleftrightarrow> True"
| "ptr_ok okr img bs (Suc d) b i \<longleftrightarrow> (b \<noteq> 0 \<longrightarrow> block_ok okr img bs b \<and>
     ptr_ok okr img bs d (le32 (block_bytes img bs b) (4 * (i div (bs div 4) ^ d))) (i mod (bs div 4) ^ d))"

definition file_block_ok :: "(nat \<Rightarrow> nat \<Rightarrow> bool) \<Rightarrow> bytes \<Rightarrow> nat \<Rightarrow> ext2_inode \<Rightarrow> nat \<Rightarrow> bool" where
  "file_block_ok okr img bs inode n \<longleftrightarrow>
     (let ppb = bs div 4
      in n < 12 + ppb + ppb ^ 2 + ppb ^ 3 \<and>
         (12 \<le> n \<and> n - 12 < ppb \<longrightarrow> ptr_ok okr img bs 1 (i_block inode ! 12) (n - 12)) \<and>
         (12 + ppb \<le> n \<and> n - 12 - ppb < ppb ^ 2 \<longrightarrow> ptr_ok okr img bs 2 (i_block inode ! 13) (n - 12 - ppb)) \<and>
         (12 + ppb + ppb ^ 2 \<le> n \<longrightarrow> ptr_ok okr img bs 3 (i_block inode ! 14) (n - 12 - ppb - ppb ^ 2)))"

definition ext2_file_ok :: "(nat \<Rightarrow> nat \<Rightarrow> bool) \<Rightarrow> bytes \<Rightarrow> nat \<Rightarrow> ext2_inode \<Rightarrow> bool" where
  "ext2_file_ok okr img bs inode \<longleftrightarrow> (\<forall>b. b * bs < unat (i_size inode) \<longrightarrow> file_block_ok okr img bs inode b \<and>
     (ext2_file_block img bs inode b = 0 \<or> block_ok okr img bs (ext2_file_block img bs inode b)))"

text \<open>The block sizes for which the pointer arithmetic of the driver does not wrap.\<close>

definition block_size_ok :: "nat \<Rightarrow> bool" where
  "block_size_ok bs \<longleftrightarrow> 1024 \<le> bs \<and> bs \<le> 65536 \<and> 4 dvd bs"

definition ext2_on :: "vfs_filesystem \<Rightarrow> nat \<Rightarrow> bytes \<Rightarrow> bool" where
  "ext2_on filesystem bs img \<longleftrightarrow> block_size_ok bs \<and> length img < 4294967296 \<and>
     (\<exists>p data. fs_data filesystem = Some (p, data) \<and> unat (x_block_size data) = bs)"

text \<open>A step that leaves everything but the hardware and the free part of the heap unchanged.\<close>

definition quiet :: "('c, 'm) kernel_scheme \<Rightarrow> ('c, 'm) kernel_scheme \<Rightarrow> bool" where
  "quiet k k' \<longleftrightarrow> heap_same (k_heap k) (k_heap k') \<and> frame k k'"

lemma quiet_trans: "quiet k k1 \<Longrightarrow> quiet k1 k2 \<Longrightarrow> quiet k k2"
  unfolding quiet_def using heap_same_trans frame_trans by blast

lemma quiet_refl: "kheap_inv (k_heap k) \<Longrightarrow> quiet k k"
  by (simp add: quiet_def heap_same_refl frame_refl)

lemma quiet_free:
  assumes "heap_plus (k_heap k) p n h" and "quiet (k\<lparr>k_heap := h\<rparr>) k1"
  shows "quiet k (k1\<lparr>k_heap := kfree p (k_heap k1)\<rparr>)"
proof -
  have "heap_same h (k_heap k1)" using assms(2) by (simp add: quiet_def)
  then have "heap_same (k_heap k) (kfree p (k_heap k1))" using assms(1) heap_plus_same kfree_plus by blast
  moreover have "frame (k\<lparr>k_heap := h\<rparr>) k1" using assms(2) by (simp add: quiet_def)
  then have "frame k (k1\<lparr>k_heap := kfree p (k_heap k1)\<rparr>)"
    by (rule frame_set_heap [OF frame_trans [OF frame_heap]])
  ultimately show ?thesis by (simp add: quiet_def)
qed

subsection \<open>Blocks and pointers\<close>

lemma length_block_buffer [simp]: "length (block_buffer h p n) = unat n"
  by (simp add: block_buffer_def)

lemma block_bytes_length: "block_ok okr img bs b \<Longrightarrow> length (block_bytes img bs b) = bs"
  unfolding block_ok_def block_bytes_def by (simp add: min_def) linarith

context volume_image
begin

lemma free_temp:
  assumes "heap_plus (k_heap k) p n h" and "inv k1" and "quiet (k\<lparr>k_heap := h\<rparr>) k1"
  shows "inv (k1\<lparr>k_heap := kfree p (k_heap k1)\<rparr>)" and "quiet k (k1\<lparr>k_heap := kfree p (k_heap k1)\<rparr>)"
proof -
  show q: "quiet k (k1\<lparr>k_heap := kfree p (k_heap k1)\<rparr>)" using assms(1,3) by (rule quiet_free)
  then have "kheap_inv (kfree p (k_heap k1))" by (auto simp: quiet_def heap_same_def)
  then show "inv (k1\<lparr>k_heap := kfree p (k_heap k1)\<rparr>)" using assms(2) inv_set_heap by blast
qed

lemma read_block:
  assumes "inv k" and "vread (fs_volume filesystem) = rd" and "ext2_on filesystem bs img"
    and "block_ok ok_range img bs b" and "length buffer = bs"
  shows "ret_or_panic oom (ext2_read_block vread filesystem b buffer k) (\<lambda>((n, buffer'), k').
    buffer' = block_bytes img bs b \<and> inv k' \<and> quiet k k')"
proof -
  obtain p data where d: "fs_data filesystem = Some (p, data)" and bs: "unat (x_block_size data) = bs"
    using assms(3) by (auto simp: ext2_on_def)
  have le: "unat b * bs + bs \<le> length img" and ok: "ok_range (unat b * bs) bs" using assms(4) by (simp_all add: block_ok_def)
  have "unat b * unat (x_block_size data) < 4294967296"
    using le bs assms(3) block_size_ok_def by (auto simp: ext2_on_def)
  then have u: "unat (b * x_block_size data) = unat b * bs" using bs by (simp add: unat_u32_mult_small)
  show ?thesis unfolding ext2_read_block_def ext2_data_def d option.case prod.case kbind.simps assms(2)
  proof (rule rd_bind [OF assms(1)], goal_cases)
    case (3 k')
    then show ?case using assms(5) u bs le
      by (simp add: mem_write_def block_bytes_def quiet_def frame_def)
  qed (use ok le u bs in simp_all)
qed

lemma read_block_bind:
  assumes "inv k" and "vread (fs_volume filesystem) = rd" and "ext2_on filesystem bs img"
    and "block_ok ok_range img bs b" and "length buffer = bs"
    and "\<And>k' n. inv k' \<Longrightarrow> quiet k k' \<Longrightarrow> ret_or_panic oom (f ((n, block_bytes img bs b), k')) Q"
  shows "ret_or_panic oom (kbind (ext2_read_block vread filesystem b buffer k) f) Q"
  by (rule ret_or_panic_bind [OF read_block [where vread = vread and filesystem = filesystem, OF assms(1-5)]])
    (use assms(6) in auto)

lemma read_pointer_bind:
  assumes "inv k" and "vread (fs_volume filesystem) = rd" and "ext2_on filesystem bs img"
    and "block_ok ok_range img bs b" and "length buffer = bs" and "unat i < bs div 4"
    and "\<And>k'. inv k' \<Longrightarrow> quiet k k' \<Longrightarrow>
      ret_or_panic oom (f ((le32 (block_bytes img bs b) (4 * unat i), block_bytes img bs b), k')) Q"
  shows "ret_or_panic oom (kbind (ext2_read_pointer vread filesystem b i buffer k) f) Q"
proof -
  have "word_at (block_bytes img bs b) i = Some (le32 (block_bytes img bs b) (4 * unat i))"
    using assms(6) by (simp add: word_at_def block_bytes_length [OF assms(4)])
  then have "ret_or_panic oom (ext2_read_pointer vread filesystem b i buffer k) (\<lambda>((w, buffer'), k').
      w = le32 (block_bytes img bs b) (4 * unat i) \<and> buffer' = block_bytes img bs b \<and> inv k' \<and> quiet k k')"
    unfolding ext2_read_pointer_def
    by (intro read_block_bind [where vread = vread and filesystem = filesystem, OF assms(1-5)]) simp
  then show ?thesis by (rule ret_or_panic_bind) (use assms(7) in auto)
qed

text \<open>One, two and three levels of pointers below a pointer, as the driver follows them.\<close>

lemma walk_single:
  assumes "inv k" and "vread (fs_volume filesystem) = rd" and "ext2_on filesystem bs img" and "length buffer = bs"
    and "unat i < bs div 4" and "ptr_ok ok_range img bs 1 b (unat i)"
  shows "ret_or_panic oom
    (if b \<noteq> 0 then kbind (ext2_read_pointer vread filesystem b i buffer k) (\<lambda>((result, b1), k1). Ret (result, k1))
     else Ret (0, k))
    (\<lambda>(r, k'). r = ptr_walk img bs 1 b (unat i) \<and> inv k' \<and> quiet k k')"
proof (cases "b = 0")
  case True
  then show ?thesis using assms(1) by (simp add: quiet_refl inv_heap)
next
  case False
  then have "block_ok ok_range img bs b" using assms(6) by simp
  then show ?thesis unfolding if_P [OF False]
    by (intro read_pointer_bind [where vread = vread and filesystem = filesystem, OF assms(1-3) _ assms(4,5)])
      (use False in simp_all)
qed

lemma walk_double:
  assumes "inv k" and "vread (fs_volume filesystem) = rd" and "ext2_on filesystem bs img" and "length buffer = bs"
    and ppb: "unat ppb = bs div 4" and i: "unat i < (bs div 4) ^ 2" and ok: "ptr_ok ok_range img bs 2 b (unat i)"
  shows "ret_or_panic oom
    (if b \<noteq> 0
     then kbind (u32_divide i ppb) (\<lambda>q.
          kbind (ext2_read_pointer vread filesystem b q buffer k) (\<lambda>((single, b1), k1).
          if single \<noteq> 0
          then kbind (ext2_read_pointer vread filesystem single (i mod ppb) b1 k1) (\<lambda>((result, b2), k2). Ret (result, k2))
          else Ret (0, k1)))
     else Ret (0, k))
    (\<lambda>(r, k'). r = ptr_walk img bs 2 b (unat i) \<and> inv k' \<and> quiet k k')"
proof (cases "b = 0")
  case True
  then show ?thesis using assms(1) by (simp add: quiet_refl inv_heap numeral_2_eq_2)
next
  case False
  have p0: "0 < bs div 4" using assms(3) by (auto simp: ext2_on_def block_size_ok_def)
  then have pz: "ppb \<noteq> 0" using ppb by (auto simp: u32_eq_iff)
  have q: "unat (i div ppb) = unat i div (bs div 4)" "unat (i mod ppb) = unat i mod (bs div 4)"
    using ppb by (simp_all add: unat_u32_div unat_u32_mod)
  have lt: "unat (i div ppb) < bs div 4" "unat (i mod ppb) < bs div 4"
    using i p0 q by (simp_all add: power2_eq_square less_mult_imp_div_less)
  let ?b2 = "le32 (block_bytes img bs b) (4 * unat (i div ppb))"
  have ok1: "block_ok ok_range img bs b" and ok2: "ptr_ok ok_range img bs 1 ?b2 (unat (i mod ppb))"
    and w: "ptr_walk img bs 2 b (unat i) = ptr_walk img bs 1 ?b2 (unat (i mod ppb))"
    using ok False q by (simp_all add: numeral_2_eq_2)
  show ?thesis unfolding if_P [OF False] u32_divide_def if_not_P [OF pz] kbind.simps w
  proof (rule read_pointer_bind [where vread = vread and filesystem = filesystem, OF assms(1-3) ok1 assms(4) lt(1)], goal_cases)
    case (1 k1)
    then show ?case unfolding prod.case
      by (intro ret_or_panic_mono [OF walk_single [where vread = vread and filesystem = filesystem,
              OF 1(1) assms(2,3) block_bytes_length [OF ok1] lt(2) ok2]]) (auto intro: quiet_trans)
  qed
qed

lemma walk_triple:
  assumes "inv k" and "vread (fs_volume filesystem) = rd" and "ext2_on filesystem bs img" and "length buffer = bs"
    and ppb: "unat ppb = bs div 4" and i: "unat i < (bs div 4) ^ 3"
    and ok: "ptr_ok ok_range img bs 3 (i_block inode ! 14) (unat i)"
  shows "ret_or_panic oom (ext2_triple vread filesystem inode ppb i buffer k)
    (\<lambda>(r, k'). r = ptr_walk img bs 3 (i_block inode ! 14) (unat i) \<and> inv k' \<and> quiet k k')"
proof (cases "i_block inode ! 14 = 0")
  case True
  then show ?thesis using assms(1) by (simp add: ext2_triple_def quiet_refl inv_heap numeral_3_eq_3)
next
  case False
  let ?b = "i_block inode ! 14"
  have p0: "0 < bs div 4" "bs div 4 \<le> 16384" using assms(3) by (auto simp: ext2_on_def block_size_ok_def)
  have "(bs div 4) * (bs div 4) \<le> 16384 * 16384" using p0(2) by (intro mult_le_mono)
  then have u: "unat (ppb * ppb) = (bs div 4) ^ 2" using ppb by (simp add: unat_u32_mult_small power2_eq_square)
  then have pz: "ppb * ppb \<noteq> 0" using p0 by (auto simp: u32_eq_iff)
  have q: "unat (i div (ppb * ppb)) = unat i div (bs div 4) ^ 2" "unat (i mod (ppb * ppb)) = unat i mod (bs div 4) ^ 2"
    using u by (simp_all add: unat_u32_div unat_u32_mod)
  have lt: "unat (i div (ppb * ppb)) < bs div 4" "unat (i mod (ppb * ppb)) < (bs div 4) ^ 2"
    using i p0 q by (simp_all add: power2_eq_square power3_eq_cube less_mult_imp_div_less mult.assoc)
  let ?b2 = "le32 (block_bytes img bs ?b) (4 * unat (i div (ppb * ppb)))"
  have ok1: "block_ok ok_range img bs ?b" and ok2: "ptr_ok ok_range img bs 2 ?b2 (unat (i mod (ppb * ppb)))"
    and w: "ptr_walk img bs 3 ?b (unat i) = ptr_walk img bs 2 ?b2 (unat (i mod (ppb * ppb)))"
    using ok False q by (simp_all add: numeral_3_eq_3 numeral_2_eq_2)
  show ?thesis unfolding ext2_triple_def if_P [OF False] u32_divide_def [of i] if_not_P [OF pz] kbind.simps w
  proof (rule read_pointer_bind [where vread = vread and filesystem = filesystem, OF assms(1-3) ok1 assms(4) lt(1)], goal_cases)
    case (1 k1)
    then show ?case unfolding prod.case Let_def
      by (intro ret_or_panic_mono [OF walk_double [where vread = vread and filesystem = filesystem,
              OF 1(1) assms(2,3) block_bytes_length [OF ok1] ppb lt(2) ok2]]) (auto intro: quiet_trans)
  qed
qed

lemma inode_block_walk:
  assumes "inv k" and "vread (fs_volume filesystem) = rd" and "ext2_on filesystem bs img"
    and "file_block_ok ok_range img bs inode (unat n)"
  shows "ret_or_panic oom (ext2_inode_block vread filesystem inode n k)
    (\<lambda>(b, k'). b = ext2_file_block img bs inode (unat n) \<and> inv k' \<and> quiet k k')"
proof -
  obtain p data where d: "fs_data filesystem = Some (p, data)" and bs: "unat (x_block_size data) = bs"
    using assms(3) by (auto simp: ext2_on_def)
  let ?p = "bs div 4" and ?ppb = "x_block_size data div 4"
  have ppb: "unat ?ppb = ?p" using bs by (simp add: unat_u32_div)
  have p0: "?p \<le> 16384" using assms(3) by (auto simp: ext2_on_def block_size_ok_def)
  have "?p * ?p \<le> 16384 * 16384" using p0 by (intro mult_le_mono)
  then have u: "unat (?ppb * ?ppb) = ?p ^ 2" using ppb by (simp add: unat_u32_mult_small power2_eq_square)
  show ?thesis
  proof (cases "n < 12")
    case True
    then show ?thesis using d assms(1)
      by (simp add: ext2_inode_block_def ext2_data_def ext2_file_block_def Let_def u32_less_iff quiet_refl inv_heap)
  next
    case False
    then have i1: "unat (n - 12) = unat n - 12" "12 \<le> unat n" by (simp_all add: unat_u32_sub u32_less_iff u32_le_iff)
    let ?i2 = "n - 12 - ?ppb" and ?i3 = "n - 12 - ?ppb - ?ppb * ?ppb"
    have i2: "unat ?i2 = unat n - 12 - ?p" if "\<not> n - 12 < ?ppb"
      using that i1 ppb by (simp add: unat_u32_sub u32_less_iff u32_le_iff)
    have i3: "unat ?i3 = unat n - 12 - ?p - ?p ^ 2" if "\<not> n - 12 < ?ppb" "\<not> ?i2 < ?ppb * ?ppb"
      using that i2 u by (simp add: unat_u32_sub u32_less_iff u32_le_iff)
    have walk: "ret_or_panic oom (if n - 12 < ?ppb then ext2_single vread filesystem inode (n - 12) buffer k0
          else if ?i2 < ?ppb * ?ppb then ext2_double vread filesystem inode ?ppb ?i2 buffer k0
               else ext2_triple vread filesystem inode ?ppb ?i3 buffer k0)
        (\<lambda>(b, k'). b = ext2_file_block img bs inode (unat n) \<and> inv k' \<and> quiet k0 k')"
      if "inv k0" and lb: "length buffer = bs" for buffer k0
    proof (cases "n - 12 < ?ppb")
      case True
      then have "unat (n - 12) < ?p" using ppb by (simp add: u32_less_iff)
      then show ?thesis using True i1 assms(4)
          walk_single [where vread = vread and filesystem = filesystem, OF that(1) assms(2,3) lb, of "n - 12" "i_block inode ! 12"]
        by (simp add: ext2_single_def ext2_file_block_def file_block_ok_def Let_def)
    next
      case f1: False
      then have g1: "\<not> unat n - 12 < ?p" "12 + ?p \<le> unat n" using i1 ppb by (simp_all add: u32_less_iff)
      show ?thesis
      proof (cases "?i2 < ?ppb * ?ppb")
        case True
        then have "unat ?i2 < ?p ^ 2" using u by (simp add: u32_less_iff)
        then show ?thesis using True f1 g1 i1 i2 [OF f1] assms(4) walk_double [where vread = vread and filesystem = filesystem,
              OF that(1) assms(2,3) lb ppb, of ?i2 "i_block inode ! 13"]
          by (simp add: ext2_double_def ext2_file_block_def file_block_ok_def Let_def)
      next
        case f2: False
        then have "\<not> unat n - 12 - ?p < ?p ^ 2" using i2 [OF f1] u by (simp add: u32_less_iff)
        then have g2: "\<not> unat n - 12 - ?p < ?p ^ 2" "12 + ?p + ?p ^ 2 \<le> unat n" using g1(2) by linarith+
        have "unat n < 12 + ?p + ?p ^ 2 + ?p ^ 3" using assms(4) by (simp add: file_block_ok_def Let_def)
        then have "unat ?i3 < ?p ^ 3" using i3 [OF f1 f2] g2(2) by linarith
        then show ?thesis using f1 f2 g1 g2 i1 i3 [OF f1 f2] assms(4) walk_triple [where vread = vread and filesystem = filesystem,
              OF that(1) assms(2,3) lb ppb, of ?i3 inode]
          by (simp add: ext2_file_block_def file_block_ok_def Let_def)
      qed
    qed
    show ?thesis unfolding ext2_inode_block_def ext2_data_def d option.case prod.case kbind.simps Let_def if_not_P [OF False]
    proof (rule kmalloc_bind [OF assms(1)], goal_cases)
      case (1 q h)
      have "length (block_buffer h q (x_block_size data)) = bs" using bs by simp
      from walk [OF 1(2) this] show ?case unfolding prod.case
        by (rule ret_or_panic_bind) (auto dest: free_temp [OF 1(1)])
    qed
  qed
qed

end

subsection \<open>Reading a file\<close>

text \<open>The bytes of a file within one block.\<close>

lemma file_bytes_chunk:
  assumes "x mod bs + c \<le> bs" and "0 < c"
    and "b = ext2_file_block img bs inode (x div bs)" and "b \<noteq> 0 \<longrightarrow> length (block_bytes img bs b) = bs"
  shows "map (ext2_file_byte img bs inode) [x..<x + c] =
    (if b = 0 then replicate c 0 else take c (drop (x mod bs) (block_bytes img bs b)))"
proof (rule nth_equalityI)
  show "length (map (ext2_file_byte img bs inode) [x..<x + c]) =
      length (if b = 0 then replicate c 0 else take c (drop (x mod bs) (block_bytes img bs b)))"
    using assms(1,4) by auto
next
  fix i assume "i < length (map (ext2_file_byte img bs inode) [x..<x + c])"
  then have i: "i < c" by simp
  have "x mod bs + i < bs" using i assms(1) by linarith
  moreover have "x + i = x div bs * bs + (x mod bs + i)" by simp
  ultimately have "(x + i) div bs = x div bs" "(x + i) mod bs = x mod bs + i"
    by (metis add.commute add_cancel_left_left div_less div_mult_self3 gr_implies_not0, metis mod_less mod_mult_self3)
  then show "map (ext2_file_byte img bs inode) [x..<x + c] ! i =
      (if b = 0 then replicate c 0 else take c (drop (x mod bs) (block_bytes img bs b))) ! i"
    using i assms(1,3,4) by (auto simp: ext2_file_byte_def Let_def)
qed

context volume_image
begin

lemma read_loop_contents:
  assumes "vread (fs_volume filesystem) = rd" and "ext2_on filesystem bs img" and "ext2_file_ok ok_range img bs inode"
    and "unat block_size = bs" and "unat off + unat sz \<le> unat (i_size inode)"
  shows "inv k \<Longrightarrow> length buffer = bs \<Longrightarrow> r \<le> sz \<Longrightarrow>
    ret_or_panic oom (ext2_read_loop vread filesystem inode block_size off sz r out buffer k)
      (\<lambda>((n, out'), k'). n = sz \<and> inv k' \<and> quiet k k' \<and>
         out' = out @ map (ext2_file_byte img bs inode) [unat off + unat r..<unat off + unat sz])"
proof (induction "unat sz - unat r" arbitrary: r out buffer k rule: less_induct)
  case less
  show ?case
  proof (cases "r < sz")
    case False
    then have "r = sz" using less.prems(3) by simp
    then show ?thesis using less.prems(1) by (simp add: ext2_read_loop.simps quiet_refl inv_heap)
  next
    case True
    have bs0: "0 < bs" using assms(2) by (auto simp: ext2_on_def block_size_ok_def)
    then have bz: "block_size \<noteq> 0" using assms(4) by (auto simp: u32_eq_iff)
    have rs: "unat r < unat sz" using True by (simp add: u32_less_iff)
    let ?x = "unat off + unat r"
    have "?x < 4294967296" using rs assms(5) unat_u32_less [of "i_size inode"] by linarith
    then have x: "unat (off + r) = ?x" by (rule unat_u32_add_small)
    define c where "c = (if sz - r < block_size - (off + r) mod block_size then sz - r
                  else block_size - (off + r) mod block_size)"
    note ch = ext2_chunk [OF True bz c_def]
    have cb: "?x mod bs + unat c \<le> bs"
      using ch(1) mod_less_divisor [OF bs0, of ?x] unfolding x assms(4) by linarith
    have cs: "unat r + unat c \<le> unat sz" using ch(1) rs by linarith
    have fb: "unat ((off + r) div block_size) = ?x div bs" "unat ((off + r) mod block_size) = ?x mod bs"
      using x assms(4) by (simp_all add: unat_u32_div unat_u32_mod)
    define b where "b = ext2_file_block img bs inode (?x div bs)"
    have "?x div bs * bs < unat (i_size inode)"
      using rs assms(5) div_times_less_eq_dividend [of ?x bs] by linarith
    then have ok: "file_block_ok ok_range img bs inode (?x div bs)" and bok: "b \<noteq> 0 \<Longrightarrow> block_ok ok_range img bs b"
      using assms(3) unfolding ext2_file_ok_def b_def by blast+
    note bytes = file_bytes_chunk [OF cb ch(2) b_def]
    have split: "[?x..<unat off + unat sz] = [?x..<?x + unat c] @ [unat off + unat (r + c)..<unat off + unat sz]"
      using cs ch(3) upt_add_eq_append [of ?x "?x + unat c" "unat sz - unat r - unat c"] by (simp add: add.assoc)
    have more: "ret_or_panic oom (ext2_read_loop vread filesystem inode block_size off sz (r + c)
          (out @ map (ext2_file_byte img bs inode) [?x..<?x + unat c]) buffer' k2)
        (\<lambda>((n, out'), k'). n = sz \<and> inv k' \<and> quiet k k' \<and>
           out' = out @ map (ext2_file_byte img bs inode) [?x..<unat off + unat sz])"
      if "inv k2" "quiet k k2" "length buffer' = bs" for buffer' k2
    proof -
      have lt: "unat sz - unat (r + c) < unat sz - unat r" using ch(2,3) rs by linarith
      have le: "r + c \<le> sz" using cs ch(3) by (simp add: u32_le_iff)
      show ?thesis
        by (rule ret_or_panic_mono [OF less.hyps [OF lt that(1,3) le]])
          (use split in \<open>auto intro: quiet_trans [OF that(2)]\<close>)
    qed
    show ?thesis
      unfolding ext2_read_loop.simps [of _ _ _ _ _ _ r] if_P [OF True] if_not_P [OF bz] Let_def c_def [symmetric]
    proof (rule ret_or_panic_bind [OF inode_block_walk [where vread = vread and filesystem = filesystem,
          OF less.prems(1) assms(1,2), of inode "(off + r) div block_size"]], goal_cases)
      case 1
      then show ?case using ok fb by simp
    next
      case (2 y)
      obtain k1 where y: "y = (b, k1)" "inv k1" "quiet k k1" using 2 fb by (auto simp: b_def)
      show ?case
      proof (cases "b = 0")
        case True
        then show ?thesis using more [OF y(2,3) less.prems(2)] y(1) bytes by simp
      next
        case False
        note l = block_bytes_length [OF bok [OF False]]
        have "mem_read (block_bytes img bs b) (?x mod bs) (unat c) =
            Some (map (ext2_file_byte img bs inode) [?x..<?x + unat c])"
          using bytes l False cb by (simp add: mem_read_def)
        then show ?thesis unfolding y(1) prod.case if_not_P [OF False] fb(2) kbind_assoc
          by (intro read_block_bind [where vread = vread and filesystem = filesystem,
                OF y(2) assms(1,2) bok [OF False] less.prems(2)])
            (auto intro!: more quiet_trans [OF y(3)] simp: l)
      qed
    qed
  qed
qed

lemma ext2_read_contents:
  assumes "vread (fs_volume filesystem) = rd" and "ext2_on filesystem bs img" and "ext2_file_ok ok_range img bs inode"
    and "vn_inode_data node = Ext2_data p inode" and "unat off + unat sz < 4294967296"
    and "unat (i_size inode) < 2147483648" and "inv k"
  shows "ret_or_panic oom (ext2_read vread filesystem node off sz k)
    (\<lambda>((n, out), k'). out = take (unat sz) (drop (unat off) (ext2_contents img bs inode)) \<and>
       n = int (length out) \<and> inv k' \<and> quiet k k')"
proof -
  let ?size = "i_size inode"
  define sz' where "sz' = (if ?size < off + sz then ?size - off else sz)"
  have slice: "take (unat sz) (drop (unat off) (ext2_contents img bs inode)) =
      map (ext2_file_byte img bs inode) [unat off..<min (unat off + unat sz) (unat ?size)]"
    by (cases "unat off + unat sz \<le> unat ?size") (simp_all add: ext2_contents_def drop_map take_map min_def)
  obtain q data where d: "fs_data filesystem = Some (q, data)" and bs: "unat (x_block_size data) = bs"
    using assms(2) by (auto simp: ext2_on_def)
  have n: "Ext2_data p inode \<noteq> Raw 0" by simp
  show ?thesis
  proof (cases "?size < off")
    case True
    then show ?thesis using assms(4,7)
      by (simp add: ext2_read_def slice u32_less_iff quiet_refl inv_heap)
  next
    case False
    have s: "unat (off + sz) = unat off + unat sz" using assms(5) by (rule unat_u32_add_small)
    have u: "unat off + unat sz' = min (unat off + unat sz) (unat ?size)"
      using False s by (auto simp: sz'_def u32_less_iff unat_u32_sub u32_le_iff)
    show ?thesis
    proof (cases "sz' = 0")
      case True
      then show ?thesis using False assms(4,7) u
        by (simp add: ext2_read_def slice sz'_def [symmetric] quiet_refl inv_heap)
    next
      case z: False
      have le: "unat off + unat sz' \<le> unat ?size" using u by simp
      then have "sint sz' = int (unat sz')" using assms(6) by (intro sint_u32_small) linarith
      moreover have "unat sz' = min (unat off + unat sz) (unat ?size) - unat off" using u by linarith
      ultimately have sint: "sint sz' = int (min (unat off + unat sz) (unat ?size) - unat off)" by simp
      show ?thesis
        unfolding ext2_read_def assms(4) if_not_P [OF n] inode_data.case if_not_P [OF False] sz'_def [symmetric]
          Let_def if_not_P [OF z] ext2_data_def d option.case prod.case kbind.simps slice
      proof (rule kmalloc_bind [OF assms(7)], goal_cases)
        case (1 b h)
        have "length (block_buffer h b (x_block_size data)) = bs" using bs by simp
        from read_loop_contents [where vread = vread and filesystem = filesystem, OF assms(1-3) bs le 1(2) this]
        show ?case unfolding prod.case
          by (rule ret_or_panic_bind) (auto simp: u [simplified] sint intro: free_temp [OF 1(1)])
      qed
    qed
  qed
qed

end

subsection \<open>A small file system\<close>

text \<open>A file of three blocks, the second of them a hole, on the volume \<open>small_volume\<close>.\<close>

definition small_inode :: ext2_inode where
  "small_inode = \<lparr>i_mode = 0x81A4, i_uid = 0, i_size = 2500, i_gid = 0, i_block = [3, 0, 7, 0, 0, 0, 0, 0, 0, 0, 0, 0, 0, 0, 0]\<rparr>"

definition small_ext2 :: vfs_filesystem where
  "small_ext2 = \<lparr>fs_root = None, fs_volume = small_volume,
     fs_data = Some (1, \<lparr>x_superblock = \<lparr>s_blocks_count = 32, s_first_data_block = 1, s_log_block_size = 0,
        s_blocks_per_group = 8192, s_inodes_per_group = 32, s_magic = EXT2_SUPER_MAGIC, s_rev_level = 0, s_inode_size = 128\<rparr>,
        x_block_size = 1024, x_inode_size = 128, x_inodes_per_group = 32, x_blocks_per_group = 8192,
        x_bgd_table_block = 2, x_num_block_groups = 1\<rparr>),
     fs_operations = ext2_operations, fs_operations_addr = 2\<rparr>"

definition small_file :: vfs_node where
  "small_file = \<lparr>vn_addr = 0, vn_name = str ''f'', vn_permissions = 0x1A4, vn_type = VFS_FILE, vn_uid = 0, vn_gid = 0,
     vn_length = 2500, vn_inode = 12, vn_inode_data = Ext2_data 5 small_inode, vn_link = 0,
     vn_operations = ext2_file_operations, vn_filesystem = 1\<rparr>"

abbreviation volume_img :: "(u16 \<Rightarrow> nat \<Rightarrow> bytes) \<Rightarrow> ata_drive \<Rightarrow> volume \<Rightarrow> bytes" where
  "volume_img D d v \<equiv> flat D (ata_get_io_base d) (unat (vol_offset v)) (unat (vol_size v))"

lemma length_flat [simp]: "length (flat D base off n) = n"
  by (simp add: flat_def)

lemma small_ext2_on: "length img = 0x8000 \<Longrightarrow> ext2_on small_ext2 1024 img"
  by (simp add: ext2_on_def small_ext2_def block_size_ok_def)

lemma small_file_ok: "length img = 0x8000 \<Longrightarrow> ext2_file_ok ata_range img 1024 small_inode"
proof -
  assume l: "length img = 0x8000"
  have "file_block_ok ata_range img 1024 small_inode b \<and> (ext2_file_block img 1024 small_inode b = 0 \<or>
      block_ok ata_range img 1024 (ext2_file_block img 1024 small_inode b))" if "b * 1024 < 2500" for b
  proof -
    have "b = 0 \<or> b = 1 \<or> b = 2" using that by linarith
    then show ?thesis using l
      by (elim disjE) (simp_all add: small_inode_def file_block_ok_def ext2_file_block_def block_ok_def ata_range_def Let_def)
  qed
  then show ?thesis by (simp add: ext2_file_ok_def small_inode_def)
qed

lemma small_hole:
  "take 1024 (drop 24 (take 1200 (drop 1000 (ext2_contents img 1024 small_inode)))) = replicate 1024 0"
  by (rule nth_equalityI)
    (simp_all add: ext2_contents_def small_inode_def ext2_file_byte_def ext2_file_block_def Let_def div_if [of "_ + _"])

subsection \<open>Properties\<close>

text \<open>
  C23. The block map: on a volume of an IDE drive that holds the pointer blocks on the way, the
  driver's cascade for direct, single, double and triple indirect blocks returns exactly the
  block at the position in the pointer tree of the inode (0 in a hole), for block sizes of 1 to 64
  KiB, and releases its buffer; the only other outcome is the panic for an exhausted kernel heap.
\<close>

theorem ext2_inode_block_map:
  assumes "ata_volume io ok disk (fs_volume filesystem) d D k"
    and "ext2_on filesystem bs (volume_img D d (fs_volume filesystem))"
    and "file_block_ok ata_range (volume_img D d (fs_volume filesystem)) bs inode (unat n)"
  shows "ret_or_panic oom (ext2_inode_block (volume_read io) filesystem inode n k)
    (\<lambda>(b, k'). b = ext2_file_block (volume_img D d (fs_volume filesystem)) bs inode (unat n) \<and>
       heap_same (k_heap k) (k_heap k') \<and> disk (k_hw k') = disk (k_hw k))"
  by (rule ret_or_panic_mono [OF ata_image.inode_block_walk [where vread = "volume_read io", OF assms(1) refl assms(2,3)]])
    (use assms(1) in \<open>auto simp: quiet_def ata_volume_def\<close>)

theorem ext2_inode_block_map_witness:
  "ret_or_panic oom (ext2_inode_block (volume_read ide_ports) small_ext2 small_inode 2 small_kernel)
     (\<lambda>(b, k'). b = 7 \<and> heap_same fresh_heap (k_heap k'))"
  using ext2_inode_block_map [of ide_ports ide_ok ide_disk small_ext2 ATA_PRIMARY_MASTER_DRIVE "ide_disk small_ide"
      small_kernel 1024 small_inode 2] small_ata_volume small_ext2_on
  by (auto simp: small_ext2_def small_inode_def small_volume_def small_kernel_def ext2_file_block_def file_block_ok_def Let_def
      elim!: ret_or_panic_mono)

text \<open>
  C24. Reading a file: for an open file on such a volume whose blocks lie in it, a read returns
  exactly the bytes of the requested range of the contents of the file (its blocks in the order of
  the block map, zeros in holes, cut at its size) and their number, whatever the alignment, and
  leaves the heap and the disk as they were.
\<close>

theorem ext2_read_refines:
  assumes "ata_volume io ok disk (fs_volume filesystem) d D k"
    and "ext2_on filesystem bs (volume_img D d (fs_volume filesystem))"
    and "ext2_file_ok ata_range (volume_img D d (fs_volume filesystem)) bs inode"
    and "vn_inode_data node = Ext2_data p inode" and "unat off + unat sz < 4294967296"
    and "unat (i_size inode) < 2147483648"
  shows "ret_or_panic oom (ext2_read (volume_read io) filesystem node off sz k)
    (\<lambda>((n, out), k'). out = take (unat sz) (drop (unat off) (ext2_contents (volume_img D d (fs_volume filesystem)) bs inode)) \<and>
       n = int (length out) \<and> heap_same (k_heap k) (k_heap k') \<and> disk (k_hw k') = disk (k_hw k))"
  by (rule ret_or_panic_mono [OF ata_image.ext2_read_contents [where vread = "volume_read io", OF refl assms(2-6,1)]])
    (use assms(1) in \<open>auto simp: quiet_def ata_volume_def\<close>)

theorem ext2_read_refines_witness:
  "ret_or_panic oom (ext2_read (volume_read ide_ports) small_ext2 small_file 1000 1200 small_kernel)
     (\<lambda>((n, out), k'). length out = 1200 \<and> n = 1200 \<and> take 1024 (drop 24 out) = replicate 1024 0)"
  using ext2_read_refines [of ide_ports ide_ok ide_disk small_ext2 ATA_PRIMARY_MASTER_DRIVE "ide_disk small_ide"
      small_kernel 1024 small_inode small_file 5 1000 1200] small_ata_volume small_ext2_on small_file_ok small_hole
  by (auto simp: small_ext2_def small_file_def small_volume_def ext2_contents_def small_inode_def elim!: ret_or_panic_mono)

end
