(* ===== verification/Initfs.thy ===== *)
theory Initfs
  imports Fs_Types
begin

text \<open>
  The read-only file system of the initial ramdisk, \<open>kernel/src/fs/initfs.c\<close>, and the image that
  \<open>scripts/mkinitrd.py\<close> builds. \<open>junk\<close> is the contents of uninitialised stack buffers. \<open>filesystem\<close> is
  the file system a node points to.
\<close>

subsection \<open>Probing and mounting\<close>

definition initfs_probe :: "('c, 'm) volume_reader \<Rightarrow> (nat \<Rightarrow> u8) \<Rightarrow> volume \<Rightarrow> ('c, 'm) kernel_scheme \<Rightarrow>
    (bool \<times> ('c, 'm) kernel_scheme) kres" where
  "initfs_probe vread junk volume k =
     kbind (read_struct vread junk volume 0 6 k) (\<lambda>(buf, k1).
     Ret (ih_magic (initfs_header_of buf) = INITFS_HEADER_MAGIC, k1))"

text \<open>The new file system and its address; NULL is \<open>None\<close>.\<close>

definition initfs_init :: "('c, 'm) volume_reader \<Rightarrow> (nat \<Rightarrow> u8) \<Rightarrow> volume \<Rightarrow> ('c, 'm) kernel_scheme \<Rightarrow>
    ((u32 \<times> vfs_filesystem) option \<times> ('c, 'm) kernel_scheme) kres" where
  "initfs_init vread junk volume k =
     kbind (initfs_probe vread junk volume k) (\<lambda>(found, k1).
     if \<not> found then Ret (None, k1)
     else kbind (kmalloc_or_panic sizeof_vfs_filesystem (k_heap k1)) (\<lambda>(p, h1).
          kbind (kmalloc_or_panic 8 h1) (\<lambda>(p_ops, h2).
          Ret (Some (p, \<lparr>fs_root = None, fs_volume = volume, fs_data = None,
                         fs_operations = initfs_operations, fs_operations_addr = p_ops\<rparr>),
               k1\<lparr>k_heap := h2\<rparr>))))"

definition initfs_mount :: "u32 \<Rightarrow> vfs_filesystem \<Rightarrow> ('c, 'm) kernel_scheme \<Rightarrow>
    ((int \<times> vfs_filesystem) \<times> ('c, 'm) kernel_scheme) kres" where
  "initfs_mount fs_addr filesystem k =
     kbind (kmalloc_or_panic sizeof_vfs_node (k_heap k)) (\<lambda>(p, h).
     Ret ((0, filesystem\<lparr>fs_root := Some
            \<lparr>vn_addr = p, vn_name = str ''/'', vn_permissions = 0, vn_type = VFS_DIRECTORY, vn_uid = 0,
             vn_gid = 0, vn_length = 0, vn_inode = 0, vn_inode_data = Raw (heap_word h (p + 280)), vn_link = 0,
             vn_operations = initfs_directory_operations, vn_filesystem = fs_addr\<rparr>\<rparr>),
          k\<lparr>k_heap := h\<rparr>))"

text \<open>\<open>kfree(root->name)\<close> gets the address of the node itself, of which \<open>name\<close> is the first field.\<close>

definition initfs_unmount :: "u32 \<Rightarrow> vfs_filesystem \<Rightarrow> ('c, 'm) kernel_scheme \<Rightarrow> (int \<times> ('c, 'm) kernel_scheme) kres" where
  "initfs_unmount fs_addr filesystem k =
     (case fs_root filesystem of
        None \<Rightarrow> Fault
      | Some root \<Rightarrow> Ret (0, k\<lparr>k_heap := kfree fs_addr (kfree (vn_addr root) (kfree (vn_addr root) (k_heap k)))\<rparr>))"

subsection \<open>Node operations\<close>

definition initfs_open :: "('c, 'm) volume_reader \<Rightarrow> (nat \<Rightarrow> u8) \<Rightarrow> vfs_filesystem \<Rightarrow> vfs_node \<Rightarrow> ('c, 'm) kernel_scheme \<Rightarrow>
    ((int \<times> vfs_node) \<times> ('c, 'm) kernel_scheme) kres" where
  "initfs_open vread junk filesystem node k =
     (if vn_type node = VFS_DIRECTORY then Ret ((0, node), k)
      else kbind (read_struct vread junk (fs_volume filesystem) 0 6 k) (\<lambda>(buf, k1).
           if ih_n_files (initfs_header_of buf) \<le> vn_inode node then Ret ((-1, node), k1)
           else kbind (kmalloc_or_panic 74 (k_heap k1)) (\<lambda>(p, h).
                kbind (read_struct vread (heap_junk h p) (fs_volume filesystem) (6 + vn_inode node * 74) 74
                         (k1\<lparr>k_heap := h\<rparr>)) (\<lambda>(buf2, k2).
                let file_header = initfs_file_header_of buf2
                in if ifh_magic file_header \<noteq> INITFS_FILE_HEADER_MAGIC then Ret ((-1, node), k2)
                   else Ret ((0, node\<lparr>vn_inode_data := Initfs_data p file_header\<rparr>), k2)))))"

definition initfs_close :: "vfs_node \<Rightarrow> ('c, 'm) kernel_scheme \<Rightarrow> ((int \<times> vfs_node) \<times> ('c, 'm) kernel_scheme) kres" where
  "initfs_close node k = Ret ((0, node), k\<lparr>k_heap := kfree (inode_data_addr (vn_inode_data node)) (k_heap k)\<rparr>)"

text \<open>The bytes stored in the caller's buffer are part of the result.\<close>

definition initfs_read :: "('c, 'm) volume_reader \<Rightarrow> vfs_filesystem \<Rightarrow> vfs_node \<Rightarrow> u32 \<Rightarrow> u32 \<Rightarrow> ('c, 'm) kernel_scheme \<Rightarrow>
    ((int \<times> bytes) \<times> ('c, 'm) kernel_scheme) kres" where
  "initfs_read vread filesystem node offset sz k =
     (if vn_inode_data node = Raw 0 then Ret ((-1, []), k)
      else case vn_inode_data node of
             Initfs_data p file_header \<Rightarrow>
               (if ifh_length file_header < offset then Ret ((0, []), k)
                else let sz' = (if ifh_length file_header < offset + sz
                                then ifh_length file_header - offset else sz)
                     in kbind (vread (fs_volume filesystem) (ifh_offset file_header + offset) sz' k)
                          (\<lambda>((n, bs), k1). Ret ((sint sz', bs), k1)))
           | _ \<Rightarrow> Fault)"

definition initfs_readdir :: "('c, 'm) volume_reader \<Rightarrow> (nat \<Rightarrow> u8) \<Rightarrow> vfs_filesystem \<Rightarrow> vfs_node \<Rightarrow> u32 \<Rightarrow> ('c, 'm) kernel_scheme \<Rightarrow>
    (vfs_dirent option \<times> ('c, 'm) kernel_scheme) kres" where
  "initfs_readdir vread junk filesystem node index k =
     kbind (read_struct vread junk (fs_volume filesystem) 0 6 k) (\<lambda>(buf, k1).
     if ih_n_files (initfs_header_of buf) \<le> index then Ret (None, k1)
     else kbind (kmalloc_or_panic sizeof_vfs_dirent (k_heap k1)) (\<lambda>(p, h).
          kbind (read_struct vread junk (fs_volume filesystem) (6 + index * 74) 74 (k1\<lparr>k_heap := h\<rparr>)) (\<lambda>(buf2, k2).
          let file_header = initfs_file_header_of buf2
          in if ifh_magic file_header \<noteq> INITFS_FILE_HEADER_MAGIC then Ret (None, k2)
             else kbind (or_fault (strncpy (replicate 256 0) (ifh_name file_header) 256)) (\<lambda>name.
                  Ret (Some \<lparr>de_addr = p, de_name = cstr_at name 0, de_inode = index\<rparr>, k2)))))"

text \<open>The loop of \<open>initfs_finddir\<close> from an index on.\<close>

function initfs_find :: "('c, 'm) volume_reader \<Rightarrow> (nat \<Rightarrow> u8) \<Rightarrow> vfs_filesystem \<Rightarrow> vfs_node \<Rightarrow> bytes \<Rightarrow> nat \<Rightarrow> nat \<Rightarrow>
    ('c, 'm) kernel_scheme \<Rightarrow> (vfs_node option \<times> ('c, 'm) kernel_scheme) kres" where
  "initfs_find vread junk filesystem node name n_files index k =
     (if index < n_files
      then kbind (read_struct vread junk (fs_volume filesystem) (6 + of_nat index * 74) 74 k) (\<lambda>(buf, k1).
           let file_header = initfs_file_header_of buf
           in kbind (or_fault (strcmp (name @ [0]) (ifh_name file_header))) (\<lambda>d.
              if d = 0
              then kbind (kmalloc_or_panic sizeof_vfs_node (k_heap k1)) (\<lambda>(p, h).
                   kbind (or_fault (strncpy (replicate 256 0) (ifh_name file_header) 256)) (\<lambda>nm.
                   Ret (Some \<lparr>vn_addr = p, vn_name = cstr_at nm 0, vn_permissions = 0, vn_type = VFS_FILE,
                         vn_uid = 0, vn_gid = 0, vn_length = ifh_length file_header, vn_inode = of_nat index,
                         vn_inode_data = Raw (heap_word h (p + 280)), vn_link = 0,
                         vn_operations = initfs_file_operations, vn_filesystem = vn_filesystem node\<rparr>,
                        k1\<lparr>k_heap := h\<rparr>)))
              else initfs_find vread junk filesystem node name n_files (index + 1) k1))
      else Ret (None, k))"
  by pat_completeness auto
termination by (relation "measure (\<lambda>(_, _, _, _, _, n, i, _). n - i)") auto

declare initfs_find.simps [simp del]

definition initfs_finddir :: "('c, 'm) volume_reader \<Rightarrow> (nat \<Rightarrow> u8) \<Rightarrow> vfs_filesystem \<Rightarrow> vfs_node \<Rightarrow> bytes \<Rightarrow>
    ('c, 'm) kernel_scheme \<Rightarrow> (vfs_node option \<times> ('c, 'm) kernel_scheme) kres" where
  "initfs_finddir vread junk filesystem node name k =
     kbind (read_struct vread junk (fs_volume filesystem) 0 6 k) (\<lambda>(buf, k1).
     initfs_find vread junk filesystem node name (unat (ih_n_files (initfs_header_of buf))) 0 k1)"

text \<open>The operations that change the file system are not supported.\<close>

definition initfs_rename :: "vfs_node \<Rightarrow> bytes \<Rightarrow> int" where "initfs_rename node new_name = -1"
definition initfs_write :: "vfs_node \<Rightarrow> u32 \<Rightarrow> u32 \<Rightarrow> bytes \<Rightarrow> int" where "initfs_write node offset sz buffer = -1"
definition initfs_create :: "vfs_node \<Rightarrow> bytes \<Rightarrow> u32 \<Rightarrow> int" where "initfs_create node name permissions = -1"
definition initfs_unlink :: "vfs_node \<Rightarrow> bytes \<Rightarrow> int" where "initfs_unlink node name = -1"
definition initfs_mkdir :: "vfs_node \<Rightarrow> bytes \<Rightarrow> u32 \<Rightarrow> int" where "initfs_mkdir node name permissions = -1"
definition initfs_rmdir :: "vfs_node \<Rightarrow> bytes \<Rightarrow> int" where "initfs_rmdir node name = -1"

subsection \<open>Images\<close>

text \<open>The image \<open>mkinitrd.py\<close> writes behind the ramdisk header: the files by name and contents.\<close>

type_synonym initfs_entry = "bytes \<times> bytes"

definition file_header :: "bytes \<Rightarrow> nat \<Rightarrow> nat \<Rightarrow> bytes" where
  "file_header name offset len = enc16 INITFS_FILE_HEADER_MAGIC @ name @ replicate (64 - length name) 0 @
     enc32 (of_nat offset) @ enc32 (of_nat len)"

fun file_headers :: "nat \<Rightarrow> initfs_entry list \<Rightarrow> bytes" where
  "file_headers offset [] = []"
| "file_headers offset ((name, data) # fs) =
     file_header name offset (length data) @ file_headers (offset + length data) fs"

definition mkinitfs :: "initfs_entry list \<Rightarrow> bytes" where
  "mkinitfs files = enc16 INITFS_HEADER_MAGIC @ enc32 (of_nat (length files)) @
     file_headers (6 + 74 * length files) files @ concat (map snd files)"

text \<open>Names fit with their NUL, and the image is addressable.\<close>

definition files_ok :: "initfs_entry list \<Rightarrow> bool" where
  "files_ok files \<longleftrightarrow> (\<forall>(name, data) \<in> set files. c_string name \<and> length name < 64) \<and>
     length (mkinitfs files) < 4294967296"

definition data_offset :: "initfs_entry list \<Rightarrow> nat \<Rightarrow> nat" where
  "data_offset files i = 6 + 74 * length files + length (concat (map snd (take i files)))"

lemma length_file_header [simp]: "length name < 64 \<Longrightarrow> length (file_header name o' n) = 74"
  by (simp add: file_header_def)

lemma file_headers_at:
  "i < length fs \<Longrightarrow> \<forall>(name, data) \<in> set fs. length name < 64 \<Longrightarrow>
   take 74 (drop (74 * i) (file_headers off fs)) =
     file_header (fst (fs ! i)) (off + length (concat (map snd (take i fs)))) (length (snd (fs ! i)))"
proof (induction fs arbitrary: i off)
  case (Cons f fs)
  obtain name data where f: "f = (name, data)" by (cases f)
  then have l: "length (file_header name off (length data)) = 74" using Cons.prems(2) by auto
  show ?case
  proof (cases i)
    case 0
    then show ?thesis using f l by simp
  next
    case (Suc j)
    have "drop (74 * i) (file_headers off (f # fs)) = drop (74 * j) (file_headers (off + length data) fs)"
      using f l Suc by simp
    then show ?thesis using Cons.IH [of j "off + length data"] Cons.prems f Suc by (simp add: add.assoc)
  qed
qed simp

lemma length_file_headers:
  "\<forall>(name, data) \<in> set fs. length name < 64 \<Longrightarrow> length (file_headers off fs) = 74 * length fs"
  by (induction fs arbitrary: off) auto

lemma mkinitfs_parts:
  assumes "files_ok files"
  shows "take 6 (mkinitfs files) = enc16 INITFS_HEADER_MAGIC @ enc32 (of_nat (length files))"
    and "i < length files \<Longrightarrow> take 74 (drop (6 + 74 * i) (mkinitfs files)) =
      file_header (fst (files ! i)) (data_offset files i) (length (snd (files ! i)))"
    and "i < length files \<Longrightarrow> take (length (snd (files ! i))) (drop (data_offset files i) (mkinitfs files)) =
      snd (files ! i)"
    and "length (mkinitfs files) = 6 + 74 * length files + length (concat (map snd files))"
    and "i < length files \<Longrightarrow> data_offset files i + length (snd (files ! i)) \<le> length (mkinitfs files)"
proof -
  let ?h = "file_headers (6 + 74 * length files) files"
  have n: "\<forall>(name, data) \<in> set files. length name < 64" using assms by (auto simp: files_ok_def)
  have l: "length ?h = 74 * length files" using length_file_headers [OF n] by simp
  show "take 6 (mkinitfs files) = enc16 INITFS_HEADER_MAGIC @ enc32 (of_nat (length files))"
    by (simp add: mkinitfs_def)
  show len: "length (mkinitfs files) = 6 + 74 * length files + length (concat (map snd files))"
    by (simp add: mkinitfs_def l)
  assume i: "i < length files"
  have "take 74 (drop (74 * i) (?h @ concat (map snd files))) = take 74 (drop (74 * i) ?h)"
    using i l by simp
  then show "take 74 (drop (6 + 74 * i) (mkinitfs files)) =
      file_header (fst (files ! i)) (data_offset files i) (length (snd (files ! i)))"
    using file_headers_at [OF i n, of "6 + 74 * length files"]
    by (simp add: mkinitfs_def data_offset_def drop_append)
  have s: "concat (map snd files) = concat (map snd (take i files)) @ snd (files ! i) @ concat (map snd (drop (Suc i) files))"
    by (subst (1) id_take_nth_drop [OF i]) simp
  have "drop (data_offset files i) (mkinitfs files) = drop (length (concat (map snd (take i files)))) (concat (map snd files))"
    by (simp add: mkinitfs_def data_offset_def l)
  then show "take (length (snd (files ! i))) (drop (data_offset files i) (mkinitfs files)) = snd (files ! i)"
    by (subst (asm) s) simp
  show "data_offset files i + length (snd (files ! i)) \<le> length (mkinitfs files)"
    unfolding len s by (simp add: data_offset_def)
qed

subsection \<open>Reading an image back\<close>

lemma initfs_header_fields:
  "initfs_header_of (enc16 m @ enc32 n) = \<lparr>ih_magic = m, ih_n_files = n\<rparr>"
  using le16_append [of "[]" 0 m "enc32 n"] le32_append [of "enc16 m" 2 n "[]"]
  by (simp add: initfs_header_of_def)

lemma file_header_fields:
  assumes "length name < 64" and "c_string name"
  shows "ifh_magic (initfs_file_header_of (file_header name off n)) = INITFS_FILE_HEADER_MAGIC"
    and "ifh_offset (initfs_file_header_of (file_header name off n)) = of_nat off"
    and "ifh_length (initfs_file_header_of (file_header name off n)) = of_nat n"
    and "holds (ifh_name (initfs_file_header_of (file_header name off n))) name"
proof -
  let ?m = "enc16 INITFS_FILE_HEADER_MAGIC" and ?p = "replicate (64 - length name) (0 :: u8)"
  show "ifh_magic (initfs_file_header_of (file_header name off n)) = INITFS_FILE_HEADER_MAGIC"
    using le16_append [of "[]" 0] by (simp add: initfs_file_header_of_def file_header_def)
  show "ifh_offset (initfs_file_header_of (file_header name off n)) = of_nat off"
    using le32_append [of "?m @ name @ ?p" 66] assms(1) by (simp add: initfs_file_header_of_def file_header_def)
  show "ifh_length (initfs_file_header_of (file_header name off n)) = of_nat n"
    using le32_append [of "?m @ name @ ?p @ enc32 (of_nat off)" 70 "of_nat n" "[]"] assms(1)
    by (simp add: initfs_file_header_of_def file_header_def)
  obtain j where "64 - length name = Suc j" using assms(1) by (metis Suc_diff_Suc)
  then show "holds (ifh_name (initfs_file_header_of (file_header name off n))) name"
    using assms(2) by (simp add: initfs_file_header_of_def file_header_def holds_def)
qed

text \<open>The node that stands for the file at a position of the image.\<close>

definition initfs_node_of :: "initfs_entry list \<Rightarrow> nat \<Rightarrow> vfs_node \<Rightarrow> bool" where
  "initfs_node_of files i node \<longleftrightarrow> i < length files \<and> vn_name node = fst (files ! i) \<and> vn_type node = VFS_FILE \<and>
     vn_inode node = of_nat i \<and> vn_length node = of_nat (length (snd (files ! i))) \<and>
     vn_operations node = initfs_file_operations"

definition initfs_open_node_of :: "initfs_entry list \<Rightarrow> nat \<Rightarrow> vfs_node \<Rightarrow> bool" where
  "initfs_open_node_of files i node \<longleftrightarrow> initfs_node_of files i node \<and>
     (\<exists>p fh. vn_inode_data node = Initfs_data p fh \<and> ifh_offset fh = of_nat (data_offset files i) \<and>
        ifh_length fh = of_nat (length (snd (files ! i))))"

definition initfs_found :: "initfs_entry list \<Rightarrow> nat \<Rightarrow> bytes \<Rightarrow> u32 \<Rightarrow> vfs_node option \<Rightarrow> bool" where
  "initfs_found files j name p r = (case map_of (drop j files) name of
       None \<Rightarrow> r = None
     | Some data \<Rightarrow> \<exists>i node. r = Some node \<and> initfs_node_of files i node \<and> files ! i = (name, data) \<and>
         vn_filesystem node = p)"

lemma files_ok_at:
  assumes "files_ok files" and "i < length files"
  shows "length (fst (files ! i)) < 64" and "c_string (fst (files ! i))"
    and "6 + 74 * i + 74 \<le> length (mkinitfs files)"
    and "length (mkinitfs files) < 4294967296"
  using assms nth_mem [OF assms(2)] mkinitfs_parts(4) [OF assms(1)] by (auto simp: files_ok_def case_prod_beta)

lemma unat_header_offset:
  "6 + 74 * i + 74 \<le> n \<Longrightarrow> n < 4294967296 \<Longrightarrow> unat (6 + of_nat i * 74 :: u32) = 6 + 74 * i"
  using unat_of_nat_u32 [of "6 + i * 74"] by (simp add: mult.commute)

context volume_image
begin

lemma read_initfs_header:
  assumes "inv k" and "vread v = rd" and "\<And>off n. ok_range off n" and "img = mkinitfs files @ rest" and "files_ok files"
    and "\<And>k'. inv k' \<Longrightarrow> grows k k' \<Longrightarrow> ret_or_panic oom (f (enc16 INITFS_HEADER_MAGIC @ enc32 (of_nat (length files)), k')) Q"
  shows "ret_or_panic oom (kbind (read_struct vread junk v 0 6 k) f) Q"
proof (rule read_struct_bind [where vread = vread and v = v, OF assms(1-3)], goal_cases)
  case 1
  then show ?case using assms(4) mkinitfs_parts(4) [OF assms(5)] by simp
next
  case (2 k')
  have "take 6 img = enc16 INITFS_HEADER_MAGIC @ enc32 (of_nat (length files))"
    using assms(4) mkinitfs_parts(1,4) [OF assms(5)] by simp
  then show ?case using assms(6) [OF 2(1) grows_same [OF 2(2,3)]] by simp
qed

lemma read_file_header:
  assumes "inv k" and "vread v = rd" and "\<And>off n. ok_range off n" and "img = mkinitfs files @ rest" and "files_ok files"
    and "i < length files"
    and "\<And>k'. inv k' \<Longrightarrow> grows k k' \<Longrightarrow> ret_or_panic oom
       (f (file_header (fst (files ! i)) (data_offset files i) (length (snd (files ! i))), k')) Q"
  shows "ret_or_panic oom (kbind (read_struct vread junk v (6 + of_nat i * 74) 74 k) f) Q"
proof -
  note l = files_ok_at(3,4) [OF assms(5,6)]
  note u = unat_header_offset [OF l]
  have "take 74 (drop (6 + 74 * i) img) =
      file_header (fst (files ! i)) (data_offset files i) (length (snd (files ! i)))"
    using assms(4) l(1) mkinitfs_parts(2) [OF assms(5,6)] by simp
  then show ?thesis using assms(4,7) l(1) u
    by (intro read_struct_bind [where vread = vread and v = v, OF assms(1-3)]) (simp_all add: grows_same)
qed

lemma initfs_find_image:
  assumes "vread (fs_volume filesystem) = rd" and "\<And>off n. ok_range off n" and "img = mkinitfs files @ rest"
    and "files_ok files" and "c_string name" and "j \<le> length files" and "inv k"
  shows "ret_or_panic oom (initfs_find vread junk filesystem dir name (length files) j k)
    (\<lambda>(r, k'). initfs_found files j name (vn_filesystem dir) r \<and> inv k' \<and> grows k k')"
  using assms(6,7)
proof (induction "length files - j" arbitrary: j k)
  case 0
  then show ?case by (simp add: initfs_find.simps initfs_found_def grows_refl)
next
  case (Suc m)
  then have j: "j < length files" by simp
  obtain fname data where f: "files ! j = (fname, data)" by fastforce
  note fo = files_ok_at [OF assms(4) j, unfolded f fst_conv]
  note hf = file_header_fields [OF fo(1,2), of "data_offset files j" "length data"]
  have d: "drop j files = (fname, data) # drop (Suc j) files" using f j by (metis Cons_nth_drop_Suc)
  let ?b = "file_header fname (data_offset files j) (length data)"
  have "holds (name @ [0]) name" using assms(5) by (simp add: holds_def)
  from strcmp_holds [OF this hf(4)] obtain c where c:
    "strcmp (name @ [0]) (ifh_name (initfs_file_header_of ?b)) = Some c" "c = 0 \<longleftrightarrow> name = fname" by blast
  have nm: "strncpy (replicate 256 0) (ifh_name (initfs_file_header_of ?b)) 256 = Some (take 256 (fname @ replicate 256 0))"
    using strncpy_holds [OF hf(4), of 256 "replicate 256 0"] by simp
  have cs: "cstr_at (take 256 (fname @ replicate 256 0)) 0 = fname"
    using fo(1,2) by (intro holds_cstr) (auto simp: holds_def replicate_app_Cons_same intro!: exI [of _ "replicate (255 - length fname) 0"] simp flip: replicate_Suc)
  show ?case
  proof (subst initfs_find.simps, simp only: if_P [OF j], rule read_file_header [where vread = vread and v = "fs_volume filesystem", OF \<open>inv k\<close> assms(1-4) j], goal_cases)
    case (1 k')
    show ?case
    proof (cases "name = fname")
      case True
      have c0: "strcmp (fname @ [0]) (ifh_name (initfs_file_header_of ?b)) = Some 0" using c True by simp
      show ?thesis
        by (simp add: f c0 nm [simplified] cs [simplified] hf True Let_def, rule kmalloc_bind [OF 1(1)])
          (use f d j True in \<open>auto simp: initfs_found_def initfs_node_of_def intro: grows_trans [OF 1(2) grows_alloc]\<close>)
    next
      case False
      then have e: "initfs_found files j name = initfs_found files (Suc j) name"
        using d by (simp add: initfs_found_def fun_eq_iff)
      have "ret_or_panic oom (initfs_find vread junk filesystem dir name (length files) (Suc j) k')
          (\<lambda>(r, k'). initfs_found files j name (vn_filesystem dir) r \<and> inv k' \<and> grows k k')"
        unfolding e using Suc.hyps(2) j
        by (intro ret_or_panic_mono [OF Suc.hyps(1) [OF _ _ 1(1)]]) (auto intro: grows_trans [OF 1(2)])
      then show ?thesis using f c False by (simp add: Let_def)
    qed
  qed
qed

lemma initfs_finddir_image:
  assumes "vread (fs_volume filesystem) = rd" and "\<And>off n. ok_range off n" and "img = mkinitfs files @ rest"
    and "files_ok files" and "c_string name" and "inv k"
  shows "ret_or_panic oom (initfs_finddir vread junk filesystem dir name k)
    (\<lambda>(r, k'). initfs_found files 0 name (vn_filesystem dir) r \<and> inv k' \<and> grows k k')"
proof -
  have n: "length files < 4294967296"
    using mkinitfs_parts(4) [OF assms(4)] assms(4) by (simp add: files_ok_def)
  show ?thesis unfolding initfs_finddir_def
  proof (rule read_initfs_header [where vread = vread and v = "fs_volume filesystem", OF assms(6,1-4)], goal_cases)
    case (1 k')
    then show ?case using n
      by (auto simp: initfs_header_fields intro: grows_trans
          intro!: ret_or_panic_mono [OF initfs_find_image [where vread = vread, OF assms(1-5) _ 1(1), of 0]])
  qed
qed

lemma initfs_open_image:
  assumes "vread (fs_volume filesystem) = rd" and "\<And>off n. ok_range off n" and "img = mkinitfs files @ rest"
    and "files_ok files" and "initfs_node_of files i node" and "inv k"
  shows "ret_or_panic oom (initfs_open vread junk filesystem node k)
    (\<lambda>((e, node'), k'). e = 0 \<and> initfs_open_node_of files i node' \<and> vn_filesystem node' = vn_filesystem node \<and>
       inv k' \<and> grows k k')"
proof -
  have n: "length files < 4294967296"
    using mkinitfs_parts(4) [OF assms(4)] assms(4) by (simp add: files_ok_def)
  have i: "i < length files" and t: "vn_type node \<noteq> VFS_DIRECTORY" and ino: "vn_inode node = of_nat i"
    using assms(5) by (auto simp: initfs_node_of_def vfs_types)
  have "\<not> (of_nat (length files) :: u32) \<le> of_nat i" using i n by (simp add: u32_le_iff)
  note hf = file_header_fields [OF files_ok_at(1,2) [OF assms(4) i], of "data_offset files i" "length (snd (files ! i))"]
  show ?thesis unfolding initfs_open_def if_not_P [OF t]
  proof (rule read_initfs_header [where vread = vread and v = "fs_volume filesystem", OF assms(6,1-4)], goal_cases)
    case (1 k1)
    show ?case using \<open>\<not> of_nat (length files) \<le> of_nat i\<close>
    proof (simp add: initfs_header_fields ino, intro kmalloc_bind [OF 1(1)], simp, goal_cases)
      case prems: (1 p h)
      show ?case
        by (rule read_file_header [where vread = vread and v = "fs_volume filesystem", OF prems(2) assms(1-4) i])
          (use assms(5) hf grows_trans [OF grows_trans [OF 1(2) grows_alloc [OF prems(1)]]] in
            \<open>simp add: initfs_open_node_of_def initfs_node_of_def\<close>)
    qed
  qed
qed

lemma initfs_read_image:
  assumes "vread (fs_volume filesystem) = rd" and "\<And>off n. ok_range off n" and "img = mkinitfs files @ rest"
    and "files_ok files" and "initfs_open_node_of files i node" and "inv k"
    and "unat off + unat sz < 4294967296" and "length (snd (files ! i)) < 2147483648"
  shows "ret_or_panic oom (initfs_read vread filesystem node off sz k)
    (\<lambda>((n, bs), k'). bs = take (unat sz) (drop (unat off) (snd (files ! i))) \<and> n = int (length bs) \<and>
       inv k' \<and> heap_same (k_heap k) (k_heap k') \<and> frame k k')"
proof -
  let ?data = "snd (files ! i)"
  have i: "i < length files" using assms(5) by (simp add: initfs_open_node_of_def initfs_node_of_def)
  obtain p fh where d: "vn_inode_data node = Initfs_data p fh"
    and o: "ifh_offset fh = of_nat (data_offset files i)" and l: "ifh_length fh = of_nat (length ?data)"
    using assms(5) by (auto simp: initfs_open_node_of_def)
  have b: "data_offset files i + length ?data < 4294967296"
    using mkinitfs_parts(5) [OF assms(4) i] files_ok_at(4) [OF assms(4) i] by linarith
  show ?thesis
  proof (cases "length ?data < unat off")
    case True
    then show ?thesis using d l b assms(6) inv_heap by (simp add: initfs_read_def u32_less_iff heap_same_refl frame_refl)
  next
    case False
    define n where "n = min (unat sz) (length ?data - unat off)"
    have s: "unat (off + sz) = unat off + unat sz" using assms(7) by (rule unat_u32_add_small)
    have "(if ifh_length fh < off + sz then ifh_length fh - off else sz) = of_nat n"
      using False b l s by (auto simp: n_def u32_less_iff u32_eq_iff unat_u32_sub u32_le_iff)
    then have r: "initfs_read vread filesystem node off sz k =
        kbind (rd (of_nat (data_offset files i) + off) (of_nat n) k) (\<lambda>((n', bs), k1). Ret ((sint (of_nat n :: u32), bs), k1))"
      using False d l o b assms(1) by (simp add: initfs_read_def u32_less_iff Let_def)
    have n: "n < 2147483648" "unat off + n \<le> length ?data" using False assms(8) by (auto simp: n_def)
    have u: "unat (of_nat (data_offset files i) + off) = data_offset files i + unat off"
      using b n(2) by (subst unat_u32_add_small) simp_all
    have sn: "sint (of_nat n :: u32) = int n" using n(1) by (simp add: sint_u32_small)
    have t: "take n (drop (data_offset files i + unat off) img) = take (unat sz) (drop (unat off) ?data)"
    proof -
      have "take n (drop (unat off) (take (length ?data) (drop (data_offset files i) img))) = take n (drop (unat off) ?data)"
        using mkinitfs_parts(3,5) [OF assms(4) i] assms(3) by simp
      moreover have "take n (drop (unat off) ?data) = take (unat sz) (drop (unat off) ?data)"
        by (cases "unat sz \<le> length ?data - unat off") (simp_all add: n_def)
      ultimately show ?thesis using n(2) by (simp add: drop_take take_take min_absorb1 add.commute)
    qed
    have le: "data_offset files i + unat off + n \<le> length img"
      using n(2) mkinitfs_parts(5) [OF assms(4) i] assms(3) by simp
    show ?thesis unfolding r
      by (rule rd_bind [OF assms(6) assms(2)]) (use u n sn t le in \<open>auto simp: n_def min_def frame_def\<close>)
  qed
qed

end

text \<open>A ramdisk with two files of the same name and one other.\<close>

definition small_files :: "initfs_entry list" where
  "small_files = [(str ''a'', [1, 2, 3]), (str ''b'', [4, 5, 6, 7]), (str ''a'', [8])]"

definition small_ramdisk :: "ide kernel" where
  "small_ramdisk = small_kernel\<lparr>initrd_base := mkinitfs small_files, initrd_size := 236\<rparr>"

definition small_initfs :: vfs_filesystem where
  "small_initfs = \<lparr>fs_root = None,
     fs_volume = small_volume\<lparr>vol_offset := 0, vol_size := 236,
       vol_device := (vol_device small_volume)\<lparr>dev_driver := INITRD_DRIVER\<rparr>\<rparr>,
     fs_data = None, fs_operations = initfs_operations, fs_operations_addr = 0\<rparr>"

definition small_dir :: vfs_node where
  "small_dir = \<lparr>vn_addr = 0, vn_name = str ''/'', vn_permissions = 0, vn_type = VFS_DIRECTORY, vn_uid = 0,
     vn_gid = 0, vn_length = 0, vn_inode = 0, vn_inode_data = Raw 0, vn_link = 0,
     vn_operations = initfs_directory_operations, vn_filesystem = 1\<rparr>"

lemma small_files_ok: "files_ok small_files" and length_small_files: "length (mkinitfs small_files) = 236"
  by (simp_all add: files_ok_def small_files_def mkinitfs_def file_header_def str_def c_string_def)

lemma small_initfs_volume: "initrd_volume (fs_volume small_initfs) (mkinitfs small_files) small_ramdisk"
  by (simp add: initrd_volume_def small_initfs_def small_ramdisk_def small_kernel_def length_small_files fresh_heap_inv)

subsection \<open>Properties\<close>

text \<open>
  C22. What \<open>mkinitrd.py\<close> packs, the driver unpacks. On a volume of the ramdisk that starts with the
  image of a list of files, the driver recognises the file system; looking up a name finds the
  first file of the list with that name, and opening the node and reading a range of it returns the
  bytes of the file in the range (fewer at its end, none behind it) and their number; a name that
  is not in the list is not found.
\<close>

theorem initfs_roundtrip:
  assumes "initrd_volume (fs_volume filesystem) mem k"
    and "take (unat (vol_size (fs_volume filesystem))) (drop (unat (vol_offset (fs_volume filesystem))) mem) = mkinitfs files @ rest"
    and "files_ok files" and "c_string name" and "unat off + unat sz < 4294967296"
    and "\<forall>(n, data) \<in> set files. length data < 2147483648"
  shows "ret_or_panic oom (initfs_probe (volume_read io) junk (fs_volume filesystem) k) (\<lambda>(found, k'). found) \<and>
    (case map_of files name of
       None \<Rightarrow> ret_or_panic oom (initfs_finddir (volume_read io) junk filesystem dir name k) (\<lambda>(r, k'). r = None)
     | Some data \<Rightarrow> ret_or_panic oom
         (kbind (initfs_finddir (volume_read io) junk filesystem dir name k) (\<lambda>(r, k1).
          kbind (initfs_open (volume_read io) junk filesystem (the r) k1) (\<lambda>((e, node), k2).
          initfs_read (volume_read io) filesystem node off sz k2)))
         (\<lambda>((n, bs), k'). bs = take (unat sz) (drop (unat off) data) \<and> n = int (length bs) \<and> kheap_inv (k_heap k')))"
proof -
  note img = initrd_image.initfs_finddir_image [where vread = "volume_read io", OF refl TrueI assms(2-4,1), of junk dir]
    initrd_image.initfs_open_image [where vread = "volume_read io", OF refl TrueI assms(2,3)]
    initrd_image.initfs_read_image [where vread = "volume_read io", OF refl TrueI assms(2,3) _ _ assms(5)]
  have probe: "ret_or_panic oom (initfs_probe (volume_read io) junk (fs_volume filesystem) k) (\<lambda>(found, k'). found)"
    unfolding initfs_probe_def
    by (rule initrd_image.read_initfs_header [where vread = "volume_read io", OF assms(1) refl TrueI assms(2,3)])
      (simp add: initfs_header_fields)
  show ?thesis
  proof (cases "map_of files name")
    case None
    then show ?thesis using probe img(1) by (auto simp: initfs_found_def elim!: ret_or_panic_mono)
  next
    case (Some data)
    have "length data < 2147483648" using map_of_SomeD [OF Some] assms(6) by auto
    then have "ret_or_panic oom
         (kbind (initfs_finddir (volume_read io) junk filesystem dir name k) (\<lambda>(r, k1).
          kbind (initfs_open (volume_read io) junk filesystem (the r) k1) (\<lambda>((e, node), k2).
          initfs_read (volume_read io) filesystem node off sz k2)))
         (\<lambda>((n, bs), k'). bs = take (unat sz) (drop (unat off) data) \<and> n = int (length bs) \<and> kheap_inv (k_heap k'))"
      using Some by (intro ret_or_panic_bind [OF img(1)])
        (auto simp: initfs_found_def intro!: ret_or_panic_bind [OF img(2)]
          elim!: ret_or_panic_mono [OF img(3)] dest: heap_same_inv)
    then show ?thesis using probe Some by simp
  qed
qed

theorem initfs_roundtrip_witness:
  "ret_or_panic oom
     (kbind (initfs_finddir (volume_read ide_ports) (\<lambda>_. 0) small_initfs small_dir (str ''b'') small_ramdisk) (\<lambda>(r, k1).
      kbind (initfs_open (volume_read ide_ports) (\<lambda>_. 0) small_initfs (the r) k1) (\<lambda>((e, node), k2).
      initfs_read (volume_read ide_ports) small_initfs node 1 9 k2)))
     (\<lambda>((n, bs), k'). bs = [5, 6, 7] \<and> n = 3)"
  using initfs_roundtrip [OF small_initfs_volume, of small_files "[]" "str ''b''" 1 9 ide_ports "\<lambda>_. 0" small_dir]
    length_small_files small_files_ok
  by (auto simp: small_initfs_def small_files_def str_def c_string_def elim!: ret_or_panic_mono)

end
