(* ===== verification/Ext2_Dirs.thy ===== *)
theory Ext2_Dirs
  imports Ext2_Props Initfs
begin

text \<open>
  The directory operations of the ext2 driver on a volume with arbitrary contents: they end, and
  whatever they return they leave no temporary memory behind.
\<close>

subsection \<open>Ending\<close>

text \<open>The code does not run forever, and where it returns the result has the property.\<close>

definition ends :: "'a kres \<Rightarrow> ('a \<Rightarrow> bool) \<Rightarrow> bool" where
  "ends m P \<longleftrightarrow> m \<noteq> Hang \<and> (\<forall>x. m = Ret x \<longrightarrow> P x)"

lemma ends_simps [simp]:
  "ends (Ret x) P \<longleftrightarrow> P x" "ends (Panic c) P" "ends Fault P" "\<not> ends Hang P"
  "ends (or_fault m) P \<longleftrightarrow> (\<forall>x. m = Some x \<longrightarrow> P x)"
  by (auto simp: ends_def or_fault_def split: option.splits)

lemma ends_bind: "ends m P \<Longrightarrow> (\<And>x. P x \<Longrightarrow> ends (f x) Q) \<Longrightarrow> ends (kbind m f) Q"
  unfolding ends_def by (cases m) auto

lemma ends_mono: "ends m P \<Longrightarrow> (\<And>x. P x \<Longrightarrow> Q x) \<Longrightarrow> ends m Q"
  by (auto simp: ends_def)

lemma ends_divide [simp]: "ends (u32_divide x y) P \<longleftrightarrow> y = 0 \<or> P (x div y)"
  by (simp add: u32_divide_def)

lemma ends_data [simp]: "ends (ext2_data filesystem) P \<longleftrightarrow> (\<forall>p data. fs_data filesystem = Some (p, data) \<longrightarrow> P data)"
  by (auto simp: ext2_data_def split: option.splits)

lemma ends_divide_bind: "(y \<noteq> 0 \<Longrightarrow> ends (f (x div y)) Q) \<Longrightarrow> ends (kbind (u32_divide x y) f) Q"
  by (simp add: u32_divide_def)

lemma ends_data_bind: "(\<And>data. ends (f data) Q) \<Longrightarrow> ends (kbind (ext2_data filesystem) f) Q"
  by (rule ends_bind [of _ "\<lambda>_. True"]) auto

lemma ends_fault_bind: "(\<And>x. m = Some x \<Longrightarrow> ends (f x) Q) \<Longrightarrow> ends (kbind (or_fault m) f) Q"
  by (cases m) auto

lemma ends_kmalloc_bind:
  "kheap_inv (k_heap k) \<Longrightarrow> (\<And>p h. heap_plus (k_heap k) p n h \<Longrightarrow> kheap_inv h \<Longrightarrow> ends (f (p, h)) Q) \<Longrightarrow>
   ends (kbind (kmalloc_or_panic n (k_heap k)) f) Q"
  by (rule ends_bind [of _ "\<lambda>(p, h). heap_plus (k_heap k) p n h"])
    (use kmalloc_or_panic_plus [of "k_heap k" n] in \<open>auto simp: ends_def ret_or_panic_def heap_plus_inv\<close>)

text \<open>A volume that answers: reading it ends and leaves the heap as it was.\<close>

definition heap_kept :: "('c, 'm) kernel_scheme \<Rightarrow> 'r \<times> ('c, 'm) kernel_scheme \<Rightarrow> bool" where
  "heap_kept k r \<longleftrightarrow> heap_same (k_heap k) (k_heap (snd r))"

definition reader_ends :: "('c, 'm) volume_reader \<Rightarrow> volume \<Rightarrow> bool" where
  "reader_ends vread v \<longleftrightarrow> (\<forall>off n k. kheap_inv (k_heap k) \<longrightarrow> ends (vread v off n k) (heap_kept k))"

lemma heap_kept_inv: "heap_kept k r \<Longrightarrow> kheap_inv (k_heap (snd r))"
  by (simp add: heap_kept_def heap_same_inv)

lemma heap_kept_trans: "heap_kept k r \<Longrightarrow> heap_kept (snd r) r' \<Longrightarrow> heap_kept k r'"
  by (auto simp: heap_kept_def intro: heap_same_trans)

lemma heap_kept_refl [simp]: "heap_kept k (x, k) \<longleftrightarrow> kheap_inv (k_heap k)"
  by (simp add: heap_kept_def heap_same_def)

lemma heap_kept_free:
  "heap_plus (k_heap k) p n h \<Longrightarrow> heap_kept (k\<lparr>k_heap := h\<rparr>) (r, k1) \<Longrightarrow>
   heap_kept k (r', k1\<lparr>k_heap := kfree p (k_heap k1)\<rparr>)"
  by (auto simp: heap_kept_def dest: heap_plus_same kfree_plus)

text \<open>Sequencing steps that keep the heap.\<close>

lemma kept_bind:
  assumes "ends m (heap_kept k)" and "\<And>x k1. kheap_inv (k_heap k1) \<Longrightarrow> ends (f (x, k1)) (heap_kept k1)"
  shows "ends (kbind m f) (heap_kept k)"
proof (rule ends_bind [OF assms(1)], goal_cases)
  case (1 r)
  then show ?case
    by (cases r) (auto intro!: ends_mono [OF assms(2)] intro: heap_kept_trans dest: heap_kept_inv)
qed

lemma kept_temp:
  assumes "kheap_inv (k_heap k)"
    and "\<And>p h. kheap_inv h \<Longrightarrow> ends (m p h) (heap_kept (k\<lparr>k_heap := h\<rparr>))"
  shows "ends (kbind (kmalloc_or_panic n (k_heap k)) (\<lambda>(p, h). kbind (m p h) (\<lambda>(r, k1).
    Ret (g r, k1\<lparr>k_heap := kfree p (k_heap k1)\<rparr>)))) (heap_kept k)"
proof (rule ends_kmalloc_bind [OF assms(1)], unfold prod.case)
  fix p h assume "heap_plus (k_heap k) p n h" "kheap_inv h"
  then show "ends (kbind (m p h) (\<lambda>(r, k1). Ret (g r, k1\<lparr>k_heap := kfree p (k_heap k1)\<rparr>))) (heap_kept k)"
    by (intro ends_bind [OF assms(2)]) (auto intro: heap_kept_free)
qed

subsection \<open>Blocks\<close>

lemma read_block_ends:
  assumes "reader_ends vread (fs_volume filesystem)" and "kheap_inv (k_heap k)"
  shows "ends (ext2_read_block vread filesystem b buffer k) (heap_kept k)"
  unfolding ext2_read_block_def
  by (intro ends_data_bind kept_bind) (use assms in \<open>auto simp: reader_ends_def intro!: ends_fault_bind\<close>)

lemma read_pointer_ends:
  assumes "reader_ends vread (fs_volume filesystem)" and "kheap_inv (k_heap k)"
  shows "ends (ext2_read_pointer vread filesystem b i buffer k) (heap_kept k)"
  unfolding ext2_read_pointer_def
  by (rule kept_bind [OF read_block_ends [OF assms]]) (auto intro!: ends_fault_bind)

lemma indirect_ends:
  assumes "reader_ends vread (fs_volume filesystem)" and "kheap_inv (k_heap k)"
  shows "ends (ext2_single vread filesystem inode i buffer k) (heap_kept k)"
    and "ends (ext2_double vread filesystem inode ppb i buffer k) (heap_kept k)"
    and "ends (ext2_triple vread filesystem inode ppb i buffer k) (heap_kept k)"
  unfolding ext2_single_def ext2_double_def ext2_triple_def Let_def
  using assms by (auto intro!: ends_divide_bind kept_bind [OF read_pointer_ends])

lemma inode_block_ends:
  assumes "reader_ends vread (fs_volume filesystem)" and "kheap_inv (k_heap k)"
  shows "ends (ext2_inode_block vread filesystem inode n k) (heap_kept k)"
  unfolding ext2_inode_block_def Let_def
  by (rule ends_data_bind, cases "n < 12")
    (use assms indirect_ends [OF assms(1)] in \<open>auto intro!: kept_temp [where g = "\<lambda>r. r"]\<close>)

lemma read_bgd_ends:
  assumes "reader_ends vread (fs_volume filesystem)" and "kheap_inv (k_heap k)"
  shows "ends (ext2_read_bgd vread filesystem g k) (heap_kept k)"
  unfolding ext2_read_bgd_def Let_def
proof (rule ends_data_bind, goal_cases)
  case (1 data)
  show ?case
    using assms by (auto intro!: ends_divide_bind ends_kmalloc_bind ends_bind [OF read_block_ends [OF assms(1)]]
        ends_fault_bind intro: heap_kept_free)
qed

lemma read_inode_ends:
  assumes "reader_ends vread (fs_volume filesystem)" and "kheap_inv (k_heap k)"
  shows "ends (ext2_read_inode vread filesystem i k) (heap_kept k)"
  unfolding ext2_read_inode_def Let_def
  using assms(2)
  by (auto intro!: ends_data_bind ends_divide_bind kept_bind [OF read_bgd_ends [OF assms]] ends_kmalloc_bind
      ends_bind [OF read_block_ends [OF assms(1)]] ends_fault_bind split: option.split) (erule (1) heap_kept_free)

subsection \<open>Directories\<close>

lemma readdir_loop_ends:
  assumes "reader_ends vread (fs_volume filesystem)"
  shows "kheap_inv (k_heap k) \<Longrightarrow> ends (ext2_readdir_loop vread filesystem inode index n b current buffer k) (heap_kept k)"
proof (induction "n - b" arbitrary: b current buffer k)
  case 0
  then show ?case by (simp add: ext2_readdir_loop.simps)
next
  case (Suc m)
  have IH: "ends (ext2_readdir_loop vread filesystem inode index n (Suc b) c buf k') (heap_kept k')"
    if "kheap_inv (k_heap k')" for c buf and k' :: "('a, 'b) kernel_scheme"
    using Suc.hyps(1) [of "Suc b" k' c buf] Suc.hyps(2) that by simp
  show ?case
    by (subst ext2_readdir_loop.simps)
      (auto intro!: kept_bind [OF inode_block_ends [OF assms Suc.prems]] kept_bind [OF read_block_ends [OF assms]]
        ends_fault_bind IH simp: Suc.prems split: sum.split)
qed

lemma finddir_loop_ends:
  assumes "reader_ends vread (fs_volume filesystem)"
  shows "kheap_inv (k_heap k) \<Longrightarrow> ends (ext2_finddir_loop vread filesystem inode name l n b buffer k) (heap_kept k)"
proof (induction "n - b" arbitrary: b buffer k)
  case 0
  then show ?case by (simp add: ext2_finddir_loop.simps)
next
  case (Suc m)
  have IH: "ends (ext2_finddir_loop vread filesystem inode name l n (Suc b) buf k') (heap_kept k')"
    if "kheap_inv (k_heap k')" for buf and k' :: "('a, 'b) kernel_scheme"
    using Suc.hyps(1) [of "Suc b" k' buf] Suc.hyps(2) that by simp
  show ?case
    by (subst ext2_finddir_loop.simps)
      (auto intro!: kept_bind [OF inode_block_ends [OF assms Suc.prems]] kept_bind [OF read_block_ends [OF assms]]
        ends_fault_bind IH simp: Suc.prems split: option.split)
qed

text \<open>What a lookup leaves on the heap: the block of its result.\<close>

definition heap_result :: "('a \<Rightarrow> u32) \<Rightarrow> u32 \<Rightarrow> ('c, 'm) kernel_scheme \<Rightarrow> 'a option \<times> ('c, 'm) kernel_scheme \<Rightarrow> bool" where
  "heap_result addr n k r \<longleftrightarrow> (case fst r of
       None \<Rightarrow> heap_same (k_heap k) (k_heap (snd r))
     | Some x \<Rightarrow> heap_plus (k_heap k) (addr x) n (k_heap (snd r)))"

lemma heap_result_trans: "heap_kept k (x, k1) \<Longrightarrow> heap_result addr n k1 r \<Longrightarrow> heap_result addr n k r"
  by (auto simp: heap_result_def heap_kept_def intro: heap_same_trans heap_same_plus split: option.splits)

lemma result_bind:
  assumes "ends m (heap_kept k)" and "\<And>x k1. kheap_inv (k_heap k1) \<Longrightarrow> ends (f (x, k1)) (heap_result addr n k1)"
  shows "ends (kbind m f) (heap_result addr n k)"
proof (rule ends_bind [OF assms(1)], goal_cases)
  case (1 r)
  then show ?case
    by (cases r) (auto intro!: ends_mono [OF assms(2)] intro: heap_result_trans dest: heap_kept_inv)
qed

lemma heap_plus_free_first:
  assumes "heap_plus h p n h1" and "heap_same h1 h2" and "heap_plus h2 q m h3"
  shows "heap_plus h q m (kfree p h3)"
proof -
  from assms(1) obtain a where a: "kheap_live h1 = insert (unat p, a) (kheap_live h)" "(unat p, a) \<notin> kheap_live h"
    by (auto simp: heap_plus_def)
  from assms(3) obtain b where b: "kheap_live h3 = insert (unat q, b) (kheap_live h2)" "(unat q, b) \<notin> kheap_live h2"
    "unat m \<le> b" "kheap_inv h3" "q \<noteq> 0" by (auto simp: heap_plus_def)
  have l2: "kheap_live h2 = kheap_live h1" using assms(2) by (simp add: heap_same_def)
  have "kheap_inv (kfree p h3) \<and> kheap_live (kfree p h3) = kheap_live h3 - {(unat p, a)}"
    using kheap.release_live [OF b(4), of "unat p" a] a b l2 by simp
  then show ?thesis using a b l2 unfolding heap_plus_def by (intro conjI exI [of _ b]) auto
qed

lemma readdir_ends:
  assumes "reader_ends vread (fs_volume filesystem)" and "kheap_inv (k_heap k)"
  shows "ends (ext2_readdir vread filesystem node index k) (heap_result de_addr sizeof_vfs_dirent k)"
  unfolding ext2_readdir_def
proof (rule result_bind [OF read_inode_ends [OF assms]], goal_cases)
  case (1 r k1)
  show ?case
  proof (cases r)
    case None
    then show ?thesis using 1 by (simp add: heap_result_def heap_same_refl)
  next
    case (Some inode)
    show ?thesis unfolding Some prod.case option.case ext2_total_blocks_def
    proof (intro ends_data_bind ends_kmalloc_bind [OF 1], simp only: prod.case, intro ends_divide_bind
        ends_bind [OF readdir_loop_ends [OF assms(1)]], goal_cases)
      case (2 data p h x)
      then show ?case
        by (cases x) (auto intro!: ends_kmalloc_bind ends_fault_bind dest: heap_same_inv
            simp: heap_result_def heap_kept_def intro: heap_plus_free_first kfree_plus heap_plus_same split: option.split)
    qed simp
  qed
qed

lemma build_node_ends:
  assumes "kheap_inv (k_heap k)"
  shows "ends (ext2_build_node a i name inode k) (\<lambda>(n, k'). heap_plus (k_heap k) (vn_addr n) sizeof_vfs_node (k_heap k'))"
  unfolding ext2_build_node_def Let_def
  by (rule ends_kmalloc_bind [OF assms]) (auto intro!: ends_fault_bind)

lemma finddir_ends:
  assumes "reader_ends vread (fs_volume filesystem)" and "kheap_inv (k_heap k)"
  shows "ends (ext2_finddir vread filesystem node name k) (heap_result vn_addr sizeof_vfs_node k)"
  unfolding ext2_finddir_def
proof (rule result_bind [OF read_inode_ends [OF assms]], goal_cases)
  case (1 r k1)
  show ?case
  proof (cases r)
    case None
    then show ?thesis using 1 by (simp add: heap_result_def heap_same_refl)
  next
    case (Some inode)
    show ?thesis unfolding Some prod.case option.case ext2_total_blocks_def
    proof (intro ends_data_bind ends_kmalloc_bind [OF 1], simp only: prod.case, intro ends_divide_bind
        ends_bind [OF finddir_loop_ends [OF assms(1)]], goal_cases)
      case (2 data p h x)
      obtain found k2 where x: "x = (found, k2)" by (cases x)
      then have k3: "heap_kept k1 (r, k2\<lparr>k_heap := kfree p (k_heap k2)\<rparr>)" (is "heap_kept k1 (r, ?k3)")
        using 2 by (auto intro: heap_kept_free)
      have "ends (case found of None \<Rightarrow> Ret (None, ?k3)
          | Some c \<Rightarrow> kbind (ext2_read_inode vread filesystem c ?k3) (\<lambda>(c', k4). case c' of
              None \<Rightarrow> Ret (None, k4)
            | Some child \<Rightarrow> kbind (ext2_build_node (vn_filesystem node) c name child k4) (\<lambda>(n, k5). Ret (Some n, k5))))
          (heap_result vn_addr sizeof_vfs_node ?k3)"
        using heap_kept_inv [OF k3] by (auto simp: heap_result_def heap_same_refl split: option.split
            intro!: result_bind [OF read_inode_ends [OF assms(1)]] ends_bind [OF build_node_ends])
      then show ?case unfolding x prod.case Let_def by (rule ends_mono) (rule heap_result_trans [OF k3])
    qed simp
  qed
qed

lemma initrd_reader_ends:
  "dev_driver (vol_device v) = INITRD_DRIVER \<Longrightarrow> reader_ends (volume_read io) v"
  by (auto simp: reader_ends_def volume_read_def initrd_read_def Let_def intro!: ends_fault_bind)

text \<open>A file system on a ramdisk with the contents \<open>mem\<close>.\<close>

definition ramdisk_ext2 :: vfs_filesystem where
  "ramdisk_ext2 = small_ext2\<lparr>fs_volume := fs_volume small_initfs\<rparr>"

definition ramdisk_kernel :: "bytes \<Rightarrow> ide kernel" where
  "ramdisk_kernel mem = small_kernel\<lparr>initrd_base := mem, initrd_size := of_nat (length mem)\<rparr>"

subsection \<open>Properties\<close>

text \<open>
  C25. Listing and searching a directory always end, whatever the volume holds: record lengths
  of zero, sizes and block pointers of a corrupt image cannot make the driver run forever. The
  block buffers are released on every path, so that a result that is not found leaves the heap as
  it was and one that is found adds exactly the block of the result.
\<close>

theorem ext2_directories_end:
  assumes "reader_ends vread (fs_volume filesystem)" and "kheap_inv (k_heap k)"
  shows "ext2_readdir vread filesystem node index k \<noteq> Hang \<and> ext2_finddir vread filesystem node name k \<noteq> Hang \<and>
    (\<forall>r k'. ext2_readdir vread filesystem node index k = Ret (r, k') \<longrightarrow>
       (case r of None \<Rightarrow> heap_same (k_heap k) (k_heap k')
        | Some d \<Rightarrow> heap_plus (k_heap k) (de_addr d) sizeof_vfs_dirent (k_heap k'))) \<and>
    (\<forall>r k'. ext2_finddir vread filesystem node name k = Ret (r, k') \<longrightarrow>
       (case r of None \<Rightarrow> heap_same (k_heap k) (k_heap k')
        | Some n \<Rightarrow> heap_plus (k_heap k) (vn_addr n) sizeof_vfs_node (k_heap k')))"
  using readdir_ends [OF assms, of node index] finddir_ends [OF assms, of node name]
  by (auto simp: ends_def heap_result_def split: option.splits)

theorem ext2_directories_end_witness:
  "ext2_readdir (volume_read ide_ports) ramdisk_ext2 (small_dir\<lparr>vn_inode := 2\<rparr>) 0 (ramdisk_kernel (replicate 236 1)) \<noteq> Hang"
proof -
  have "reader_ends (volume_read ide_ports) (fs_volume ramdisk_ext2)"
    by (rule initrd_reader_ends) (simp add: ramdisk_ext2_def small_initfs_def)
  moreover have "kheap_inv (k_heap (ramdisk_kernel (replicate 236 1)))"
    by (simp add: ramdisk_kernel_def small_kernel_def fresh_heap_inv)
  ultimately show ?thesis by (rule ext2_directories_end [THEN conjunct1])
qed

end
