(* ===== verification/Vfs.thy ===== *)
theory Vfs
  imports Ext2_Dirs
begin

text \<open>
  The virtual file system, \<open>kernel/src/fs/vfs.c\<close>: the dispatch to the operation table of a node and the
  resolution of paths. A file system is found by its address; a node whose file system is gone is a
  dangling pointer (\<open>Fault\<close>). NULL is \<open>None\<close>.
\<close>

record 'c fkernel = "'c vkernel" +
  filesystems :: "u32 \<Rightarrow> vfs_filesystem option"
  mnt_mountpoints :: "u32 list"
  dir_descriptors :: "(vfs_node option \<times> u32) list"

text \<open>The tables have no \<open>NULL\<close> for \<open>open\<close>, \<open>close\<close> and \<open>rename\<close>; the other entries depend on the kind of node.\<close>

fun has_file_operations :: "vfs_node_operations \<Rightarrow> bool" where
  "has_file_operations initfs_file_operations = True"
| "has_file_operations ext2_file_operations = True"
| "has_file_operations ops = False"

abbreviation has_directory_operations :: "vfs_node_operations \<Rightarrow> bool" where
  "has_directory_operations ops \<equiv> \<not> has_file_operations ops"

fun is_initfs :: "vfs_node_operations \<Rightarrow> bool" where
  "is_initfs initfs_file_operations = True"
| "is_initfs initfs_directory_operations = True"
| "is_initfs ops = False"

definition node_filesystem :: "('c, 'm) fkernel_scheme \<Rightarrow> vfs_node \<Rightarrow> vfs_filesystem kres" where
  "node_filesystem k node = or_fault (filesystems k (vn_filesystem node))"

subsection \<open>Dispatch\<close>

definition vfs_is_abs_path :: "bytes \<Rightarrow> bool" where
  "vfs_is_abs_path path \<longleftrightarrow> 3 \<le> length path \<and>
     ((asc CHR ''A'' \<le> path ! 0 \<and> path ! 0 \<le> asc CHR ''Z'') \<or> (asc CHR ''a'' \<le> path ! 0 \<and> path ! 0 \<le> asc CHR ''z'')) \<and>
     path ! 1 = asc CHR '':'' \<and> path ! 2 = asc CHR ''/''"

definition vfs_is_file :: "vfs_node option \<Rightarrow> bool" where
  "vfs_is_file node = (case node of None \<Rightarrow> False | Some n \<Rightarrow> vn_type n = VFS_FILE)"

definition vfs_is_dir :: "vfs_node option \<Rightarrow> bool" where
  "vfs_is_dir node = (case node of None \<Rightarrow> False | Some n \<Rightarrow> vn_type n = VFS_DIRECTORY)"

text \<open>\<open>open\<close> and \<open>close\<close> return the node, whose \<open>inode_data\<close> they change.\<close>

definition vfs_open :: "'c ports \<Rightarrow> (nat \<Rightarrow> u8) \<Rightarrow> vfs_node option \<Rightarrow> ('c, 'm) fkernel_scheme \<Rightarrow>
    ((int \<times> vfs_node option) \<times> ('c, 'm) fkernel_scheme) kres" where
  "vfs_open io junk node k =
     (case node of
        None \<Rightarrow> Ret ((-1, None), k)
      | Some n \<Rightarrow>
          kbind (node_filesystem k n) (\<lambda>filesystem.
          kbind (if is_initfs (vn_operations n) then initfs_open (volume_read io) junk filesystem n k
                 else ext2_open (volume_read io) filesystem n k) (\<lambda>((e, n'), k1).
          Ret ((e, Some n'), k1))))"

definition vfs_close :: "vfs_node option \<Rightarrow> ('c, 'm) fkernel_scheme \<Rightarrow>
    ((int \<times> vfs_node option) \<times> ('c, 'm) fkernel_scheme) kres" where
  "vfs_close node k =
     (case node of
        None \<Rightarrow> Ret ((-1, None), k)
      | Some n \<Rightarrow>
          kbind (if is_initfs (vn_operations n) then initfs_close n k else ext2_close n k) (\<lambda>((e, n'), k1).
          Ret ((e, Some n'), k1)))"

definition vfs_rename :: "vfs_node option \<Rightarrow> bytes \<Rightarrow> int" where
  "vfs_rename node new_name =
     (case node of
        None \<Rightarrow> -1
      | Some n \<Rightarrow> if is_initfs (vn_operations n) then initfs_rename n new_name else ext2_rename n new_name)"

definition vfs_read :: "'c ports \<Rightarrow> vfs_node option \<Rightarrow> u32 \<Rightarrow> u32 \<Rightarrow> ('c, 'm) fkernel_scheme \<Rightarrow>
    ((int \<times> bytes) \<times> ('c, 'm) fkernel_scheme) kres" where
  "vfs_read io node offset sz k =
     (case node of
        None \<Rightarrow> Ret ((-1, []), k)
      | Some n \<Rightarrow>
          if has_file_operations (vn_operations n) \<and> vn_type n = VFS_FILE
          then kbind (node_filesystem k n) (\<lambda>filesystem.
               if is_initfs (vn_operations n) then initfs_read (volume_read io) filesystem n offset sz k
               else ext2_read (volume_read io) filesystem n offset sz k)
          else Ret ((-1, []), k))"

definition vfs_write :: "vfs_node option \<Rightarrow> u32 \<Rightarrow> u32 \<Rightarrow> bytes \<Rightarrow> int" where
  "vfs_write node offset sz buffer =
     (case node of
        None \<Rightarrow> -1
      | Some n \<Rightarrow>
          if has_file_operations (vn_operations n) \<and> vn_type n = VFS_FILE
          then if is_initfs (vn_operations n) then initfs_write n offset sz buffer else ext2_write n offset sz buffer
          else -1)"

definition vfs_create :: "vfs_node option \<Rightarrow> bytes \<Rightarrow> u32 \<Rightarrow> int" where
  "vfs_create node name permissions =
     (case node of
        None \<Rightarrow> -1
      | Some n \<Rightarrow>
          if has_file_operations (vn_operations n) \<and> vn_type n = VFS_DIRECTORY
          then if is_initfs (vn_operations n) then initfs_create n name permissions else ext2_create n name permissions
          else -1)"

definition vfs_unlink :: "vfs_node option \<Rightarrow> bytes \<Rightarrow> int" where
  "vfs_unlink node name =
     (case node of
        None \<Rightarrow> -1
      | Some n \<Rightarrow>
          if has_file_operations (vn_operations n) \<and> vn_type n = VFS_DIRECTORY
          then if is_initfs (vn_operations n) then initfs_unlink n name else ext2_unlink n name
          else -1)"

definition vfs_mkdir :: "vfs_node option \<Rightarrow> bytes \<Rightarrow> u32 \<Rightarrow> int" where
  "vfs_mkdir node name permissions =
     (case node of
        None \<Rightarrow> -1
      | Some n \<Rightarrow>
          if has_directory_operations (vn_operations n) \<and> vn_type n = VFS_DIRECTORY
          then if is_initfs (vn_operations n) then initfs_mkdir n name permissions else ext2_mkdir n name permissions
          else -1)"

definition vfs_rmdir :: "vfs_node option \<Rightarrow> bytes \<Rightarrow> int" where
  "vfs_rmdir node name =
     (case node of
        None \<Rightarrow> -1
      | Some n \<Rightarrow>
          if has_directory_operations (vn_operations n) \<and> vn_type n = VFS_DIRECTORY
          then if is_initfs (vn_operations n) then initfs_rmdir n name else ext2_rmdir n name
          else -1)"

definition vfs_readdir :: "'c ports \<Rightarrow> (nat \<Rightarrow> u8) \<Rightarrow> vfs_node option \<Rightarrow> u32 \<Rightarrow> ('c, 'm) fkernel_scheme \<Rightarrow>
    (vfs_dirent option \<times> ('c, 'm) fkernel_scheme) kres" where
  "vfs_readdir io junk node index k =
     (case node of
        None \<Rightarrow> Ret (None, k)
      | Some n \<Rightarrow>
          if has_directory_operations (vn_operations n) \<and> vn_type n = VFS_DIRECTORY
          then kbind (node_filesystem k n) (\<lambda>filesystem.
               if is_initfs (vn_operations n) then initfs_readdir (volume_read io) junk filesystem n index k
               else ext2_readdir (volume_read io) filesystem n index k)
          else Ret (None, k))"

definition vfs_finddir :: "'c ports \<Rightarrow> (nat \<Rightarrow> u8) \<Rightarrow> vfs_node option \<Rightarrow> bytes \<Rightarrow> ('c, 'm) fkernel_scheme \<Rightarrow>
    (vfs_node option \<times> ('c, 'm) fkernel_scheme) kres" where
  "vfs_finddir io junk node name k =
     (case node of
        None \<Rightarrow> Ret (None, k)
      | Some n \<Rightarrow>
          if has_directory_operations (vn_operations n) \<and> vn_type n = VFS_DIRECTORY
          then kbind (node_filesystem k n) (\<lambda>filesystem.
               if is_initfs (vn_operations n) then initfs_finddir (volume_read io) junk filesystem n name k
               else ext2_finddir (volume_read io) filesystem n name k)
          else Ret (None, k))"

subsection \<open>Paths\<close>

text \<open>A node that a path can lead through: a directory with a lookup operation.\<close>

definition searchable :: "vfs_node option \<Rightarrow> bool" where
  "searchable node = (case node of None \<Rightarrow> False
     | Some n \<Rightarrow> vn_type n = VFS_DIRECTORY \<and> has_directory_operations (vn_operations n))"

lemma strpbrk_bound: "strpbrk s d = Some (Some i) \<Longrightarrow> i < length s"
  by (induction s d arbitrary: i rule: strpbrk.induct) (auto split: if_splits option.splits bool.splits)

lemma strsep_progress:
  "strsep buf (Some i) d = Some (t, Some p, buf') \<Longrightarrow> i < p \<and> p \<le> length buf' \<and> length buf' = length buf"
  by (auto simp: strsep_def split: option.splits dest: strpbrk_bound)

text \<open>The path is the rest of the buffer \<open>path\<close> from \<open>pos\<close> on; \<open>strsep\<close> writes NULs into it.\<close>

function vfs_findpath_recursive :: "'c ports \<Rightarrow> (nat \<Rightarrow> u8) \<Rightarrow> vfs_node option \<Rightarrow> bytes \<Rightarrow> nat \<Rightarrow> ('c, 'm) fkernel_scheme \<Rightarrow>
    (vfs_node option \<times> ('c, 'm) fkernel_scheme) kres" where
  "vfs_findpath_recursive io junk node path pos k =
     (if \<not> searchable node then Ret (None, k)
      else case strsep path (Some pos) (str ''/'' @ [0]) of
             None \<Rightarrow> Fault
           | Some (None, rest, path') \<Rightarrow> Ret (node, k)
           | Some (Some token, None, path') \<Rightarrow>
               kbind (vfs_finddir io junk node (cstr_at path' token) k) (\<lambda>(next_node, k1). Ret (next_node, k1))
           | Some (Some token, Some pos', path') \<Rightarrow>
               kbind (vfs_finddir io junk node (cstr_at path' token) k) (\<lambda>(next_node, k1).
               if next_node = None then Ret (None, k1)
               else vfs_findpath_recursive io junk next_node path' pos' k1))"
  by pat_completeness auto
termination
  by (relation "measure (\<lambda>(_, _, _, path, pos, _). length path - pos)") (auto dest: strsep_progress)

declare vfs_findpath_recursive.simps [simp del]

text \<open>The copy of the path is a block on the heap, which \<open>path_copy++\<close> moves the pointer into.\<close>

definition vfs_findpath :: "'c ports \<Rightarrow> (nat \<Rightarrow> u8) \<Rightarrow> vfs_node option \<Rightarrow> bytes \<Rightarrow> ('c, 'm) fkernel_scheme \<Rightarrow>
    (vfs_node option \<times> ('c, 'm) fkernel_scheme) kres" where
  "vfs_findpath io junk node path k =
     (if \<not> searchable node then Ret (None, k)
      else if path = str ''/'' \<or> path = [] then Ret (node, k)
      else kbind (kmalloc_or_panic (of_nat (length path) + 1) (k_heap k)) (\<lambda>(p, h).
           let skip = (if path ! 0 = asc CHR ''/'' then 1 else 0)
           in kbind (vfs_findpath_recursive io junk node (path @ [0]) skip (k\<lparr>k_heap := h\<rparr>)) (\<lambda>(found_node, k1).
              Ret (found_node, k1\<lparr>k_heap := kfree (p + of_nat skip) (k_heap k1)\<rparr>))))"

text \<open>The reference: look up the components of the path one after the other.\<close>

fun vfs_walk :: "'c ports \<Rightarrow> (nat \<Rightarrow> u8) \<Rightarrow> vfs_node option \<Rightarrow> bytes list \<Rightarrow> ('c, 'm) fkernel_scheme \<Rightarrow>
    (vfs_node option \<times> ('c, 'm) fkernel_scheme) kres" where
  "vfs_walk io junk node [] k = Ret (node, k)"
| "vfs_walk io junk node (name # names) k =
     (if \<not> searchable node then Ret (None, k)
      else kbind (vfs_finddir io junk node name k) (\<lambda>(next_node, k1). vfs_walk io junk next_node names k1))"

abbreviation slash :: u8 where "slash \<equiv> asc CHR ''/''"

definition path_components :: "bytes \<Rightarrow> bytes list" where
  "path_components path = split_on {slash} (if path \<noteq> [] \<and> path ! 0 = slash then drop 1 path else path)"

lemma holds_slash: "holds (str ''/'' @ [0]) [slash]"
  by (simp add: str_def asc_def)

lemma vfs_walk_NULL: "names \<noteq> [] \<Longrightarrow> vfs_walk io junk None names k = Ret (None, k)"
  by (cases names) (simp_all add: searchable_def)

lemma vfs_walk_Nil: "vfs_walk io junk node [] = (\<lambda>k. Ret (node, k))"
  by (rule ext) simp

lemma findpath_recursive_walk:
  "holds (drop pos path) s \<Longrightarrow>
   vfs_findpath_recursive io junk node path pos k = vfs_walk io junk node (split_on {slash} s) k"
proof (induction "length s" arbitrary: pos path s node k rule: less_induct)
  case less
  show ?case
  proof (cases "set s \<inter> set [slash] = {}")
    case True
    have "cstr_at path pos = s" using less.prems holds_cstr by (auto simp: cstr_at_def)
    then show ?thesis using strsep_last [OF holds_slash less.prems True] True
      by (simp add: vfs_findpath_recursive.simps [of _ _ _ path] split_on_none vfs_walk_Nil)
  next
    case False
    then obtain t c r where s: "s = t @ c # r" and c: "c \<in> set [slash]" and t: "set t \<inter> set [slash] = {}"
      using split_list_first_prop [of s "\<lambda>x. x \<in> set [slash]"] by blast
    note n = strsep_next [OF holds_slash less.prems [unfolded s] t c]
    have sp: "split_on {slash} s = t # split_on {slash} r" using split_on_some [OF t c, of r] s by simp
    have IH: "vfs_findpath_recursive io junk node' (path[pos + length t := 0]) (pos + length t + 1) k' =
        vfs_walk io junk node' (split_on {slash} r) k'"
      for node' and k' :: "('a, 'b) fkernel_scheme"
      by (rule less.hyps) (use s n(3) in auto)
    show ?thesis unfolding sp
      by (simp add: vfs_findpath_recursive.simps [of _ _ _ path] n(1,2) IH [simplified] vfs_walk_NULL cong: if_cong)
        (auto intro!: arg_cong [of _ _ "kbind _"] simp: fun_eq_iff vfs_walk_NULL)
  qed
qed

text \<open>A kernel with the ramdisk \<open>small_initfs\<close> mounted as drive A.\<close>

definition small_fkernel :: "ide fkernel" where
  "small_fkernel = kernel.extend small_ramdisk \<lparr>volumes = [], random_state = 1,
     filesystems = (\<lambda>_. None)(1 := Some (small_initfs\<lparr>fs_root := Some small_dir\<rparr>)),
     mnt_mountpoints = (replicate 26 0)[0 := 1], dir_descriptors = replicate 256 (None, 0)\<rparr>"

subsection \<open>Properties\<close>

text \<open>
  C26. Resolving a path from a directory looks up its components, separated by slashes, one after
  the other, each in the node found before, and stops with NULL at the first component that is not
  found or lies below a node that is no directory; one leading slash is skipped, and the empty
  path and \<open>/\<close> are the node itself. The copy of the path is released through the pointer to its first
  component.
\<close>

theorem vfs_findpath_walks:
  assumes "c_string path"
  shows "vfs_findpath io junk node path k =
    (if \<not> searchable node then Ret (None, k)
     else if path = [] \<or> path = [slash] then Ret (node, k)
     else kbind (kmalloc_or_panic (of_nat (length path) + 1) (k_heap k)) (\<lambda>(p, h).
          kbind (vfs_walk io junk node (path_components path) (k\<lparr>k_heap := h\<rparr>)) (\<lambda>(found, k1).
          Ret (found, k1\<lparr>k_heap := kfree (if path ! 0 = slash then p + 1 else p) (k_heap k1)\<rparr>))))"
proof -
  have h: "holds (drop (if path ! 0 = slash then 1 else 0) (path @ [0]))
      (if path \<noteq> [] \<and> path ! 0 = slash then drop 1 path else path)" if "path \<noteq> []"
    using assms that by (cases path) (auto simp: holds_def c_string_def)
  have s: "str ''/'' = [slash]" by (simp add: str_def asc_def)
  show ?thesis
    unfolding vfs_findpath_def path_components_def s
    using findpath_recursive_walk [OF h, of io junk node "k\<lparr>k_heap := _\<rparr>"]
    by (auto simp: Let_def fun_eq_iff intro!: arg_cong [of _ _ "kbind _"])
qed

theorem vfs_findpath_walks_witness:
  "vfs_findpath ide_ports (\<lambda>_. 0) (Some small_dir) (str ''/a/b'') small_fkernel =
     kbind (kmalloc_or_panic 5 (k_heap small_fkernel)) (\<lambda>(p, h).
     kbind (vfs_walk ide_ports (\<lambda>_. 0) (Some small_dir) [str ''a'', str ''b''] (small_fkernel\<lparr>k_heap := h\<rparr>)) (\<lambda>(found, k1).
     Ret (found, k1\<lparr>k_heap := kfree (p + 1) (k_heap k1)\<rparr>)))"
  by (subst vfs_findpath_walks)
    (simp_all add: c_string_def str_def asc_def searchable_def small_dir_def path_components_def)

end
