(* ===== verification/Mount.thy ===== *)
theory Mount
  imports Vfs
begin

text \<open>
  The mount manager, \<open>kernel/src/fs/mount.c\<close>: 26 drive letters, each with the address of its file system
  (0 is NULL).
\<close>

definition FS_VOLUME_MAX_MOUNTPOINTS :: nat where "FS_VOLUME_MAX_MOUNTPOINTS = 26"

definition mnt_get_drive_index :: "u8 \<Rightarrow> int" where
  "mnt_get_drive_index drive =
     (if asc CHR ''a'' \<le> drive \<and> drive \<le> asc CHR ''z'' then uint (drive - asc CHR ''a'')
      else if asc CHR ''A'' \<le> drive \<and> drive \<le> asc CHR ''Z'' then uint (drive - asc CHR ''A'')
      else -1)"

definition set_mountpoint :: "nat \<Rightarrow> u32 \<Rightarrow> ('c, 'm) fkernel_scheme \<Rightarrow> ('c, 'm) fkernel_scheme" where
  "set_mountpoint index p k = k\<lparr>mnt_mountpoints := (mnt_mountpoints k)[index := p]\<rparr>"

definition set_filesystem :: "u32 \<Rightarrow> vfs_filesystem option \<Rightarrow> ('c, 'm) fkernel_scheme \<Rightarrow> ('c, 'm) fkernel_scheme" where
  "set_filesystem p filesystem k = k\<lparr>filesystems := (filesystems k)(p := filesystem)\<rparr>"

text \<open>The dispatch \<open>operations->mount\<close> and \<open>operations->unmount\<close>; unmounting releases the file system.\<close>

definition fs_mount :: "'c ports \<Rightarrow> u32 \<Rightarrow> ('c, 'm) fkernel_scheme \<Rightarrow> (int \<times> ('c, 'm) fkernel_scheme) kres" where
  "fs_mount io p k =
     kbind (or_fault (filesystems k p)) (\<lambda>filesystem.
     kbind (case fs_operations filesystem of
              initfs_operations \<Rightarrow> initfs_mount p filesystem k
            | ext2_operations \<Rightarrow> ext2_mount (volume_read io) p filesystem k) (\<lambda>((e, filesystem'), k1).
     Ret (e, set_filesystem p (Some filesystem') k1)))"

definition fs_unmount :: "u32 \<Rightarrow> ('c, 'm) fkernel_scheme \<Rightarrow> (int \<times> ('c, 'm) fkernel_scheme) kres" where
  "fs_unmount p k =
     kbind (or_fault (filesystems k p)) (\<lambda>filesystem.
     kbind (case fs_operations filesystem of
              initfs_operations \<Rightarrow> initfs_unmount p filesystem k
            | ext2_operations \<Rightarrow> ext2_unmount p filesystem k) (\<lambda>(e, k1).
     Ret (e, set_filesystem p None k1)))"

text \<open>What follows a successful probe: enter the new file system in the table and mount it.\<close>

definition mnt_install :: "'c ports \<Rightarrow> nat \<Rightarrow> (u32 \<times> vfs_filesystem) option \<Rightarrow> ('c, 'm) fkernel_scheme \<Rightarrow>
    (int \<times> ('c, 'm) fkernel_scheme) kres" where
  "mnt_install io index mountpoint k =
     (case mountpoint of
        None \<Rightarrow> Fault
      | Some (p, filesystem) \<Rightarrow>
          kbind (fs_mount io p (set_mountpoint index p (set_filesystem p (Some filesystem) k))) (\<lambda>(e, k1).
          if e \<noteq> 0
          then kbind (fs_unmount p k1) (\<lambda>(e', k2). Ret (-1, set_mountpoint index 0 k2))
          else Ret (0, k1)))"

definition mnt_volume_mount :: "'c ports \<Rightarrow> (nat \<Rightarrow> u8) \<Rightarrow> u8 \<Rightarrow> volume \<Rightarrow> ('c, 'm) fkernel_scheme \<Rightarrow>
    (int \<times> ('c, 'm) fkernel_scheme) kres" where
  "mnt_volume_mount io junk drive volume k =
     (let index = mnt_get_drive_index drive
      in if index = -1 then Ret (-1, k)
         else if mnt_mountpoints k ! nat index \<noteq> 0 then Ret (-1, k)
         else kbind (initfs_probe (volume_read io) junk volume k) (\<lambda>(is_initfs, k1).
              if is_initfs
              then kbind (initfs_init (volume_read io) junk volume k1) (\<lambda>(m, k2). mnt_install io (nat index) m k2)
              else kbind (ext2_probe (volume_read io) junk volume k1) (\<lambda>(is_ext2, k2).
                   if is_ext2
                   then kbind (ext2_init (volume_read io) junk volume k2) (\<lambda>(m, k3). mnt_install io (nat index) m k3)
                   else Ret (-1, k2))))"

definition mnt_volume_unmount :: "u8 \<Rightarrow> ('c, 'm) fkernel_scheme \<Rightarrow> (int \<times> ('c, 'm) fkernel_scheme) kres" where
  "mnt_volume_unmount drive k =
     (let index = mnt_get_drive_index drive
      in if index = -1 then Ret (-1, k)
         else if mnt_mountpoints k ! nat index = 0 then Ret (-1, k)
         else kbind (fs_unmount (mnt_mountpoints k ! nat index) k) (\<lambda>(e, k1).
              if e \<noteq> 0 then Ret (-1, k1) else Ret (0, set_mountpoint (nat index) 0 k1)))"

definition mnt_get_drive :: "u8 \<Rightarrow> ('c, 'm) fkernel_scheme \<Rightarrow> u32" where
  "mnt_get_drive drive k =
     (let index = mnt_get_drive_index drive in if index = -1 then 0 else mnt_mountpoints k ! nat index)"

definition mnt_get_mountpoint :: "bytes \<Rightarrow> ('c, 'm) fkernel_scheme \<Rightarrow> u32" where
  "mnt_get_mountpoint path k =
     (if length path < 3 then 0
      else let index = mnt_get_drive_index (path ! 0) in if index = -1 then 0 else mnt_mountpoints k ! nat index)"

end
