(* ===== verification/Files.thy ===== *)
theory Files
  imports Mount
begin

text \<open>
  Open files and directories, \<open>kernel/src/io/file.c\<close> and \<open>kernel/src/io/dir.c\<close>. The memory behind the pointer
  to a file descriptor is a value that the operations return updated.
\<close>

subsection \<open>Files\<close>

record file_descriptor =
  fd_addr :: u32
  fd_node :: "vfs_node option"
  fd_size :: u32
  fd_offset :: u32
  fd_flags :: u32

record file_stat =
  st_size :: u32
  st_uid :: u32
  st_gid :: u32
  st_permissions :: u32

definition FILE_RDONLY :: u32 where "FILE_RDONLY = 1"
definition FILE_WRONLY :: u32 where "FILE_WRONLY = 2"
definition FILE_SEEK_CUR :: int where "FILE_SEEK_CUR = 0"
definition FILE_SEEK_BEGIN :: int where "FILE_SEEK_BEGIN = 1"
definition FILE_SEEK_END :: int where "FILE_SEEK_END = 2"

lemmas file_seek_simps = FILE_SEEK_CUR_def FILE_SEEK_BEGIN_def FILE_SEEK_END_def

text \<open>The common start of \<open>file_open\<close>, \<open>file_stat\<close> and \<open>dir_open\<close>: the root of the drive of a path.\<close>

definition path_root :: "bytes \<Rightarrow> ('c, 'm) fkernel_scheme \<Rightarrow> vfs_node option kres" where
  "path_root path k =
     (if \<not> vfs_is_abs_path path then Ret None
      else let p = mnt_get_mountpoint path k
           in if p = 0 then Ret None
              else kbind (or_fault (filesystems k p)) (\<lambda>filesystem. Ret (fs_root filesystem)))"

definition file_open :: "'c ports \<Rightarrow> (nat \<Rightarrow> u8) \<Rightarrow> bytes \<Rightarrow> u32 \<Rightarrow> ('c, 'm) fkernel_scheme \<Rightarrow>
    (file_descriptor option \<times> ('c, 'm) fkernel_scheme) kres" where
  "file_open io junk path flags k =
     kbind (path_root path k) (\<lambda>root.
     if root = None then Ret (None, k)
     else kbind (vfs_findpath io junk root (drop 3 path) k) (\<lambda>(found, k1).
          case found of
            None \<Rightarrow> Ret (None, k1)
          | Some node \<Rightarrow>
              kbind (kmalloc_or_panic 16 (k_heap k1)) (\<lambda>(p, h).
              kbind (vfs_open io junk (Some node) (k1\<lparr>k_heap := h\<rparr>)) (\<lambda>((e, node'), k2).
              if e \<noteq> 0
              then Ret (None, k2\<lparr>k_heap := kfree (vn_addr node) (kfree (vn_addr node) (kfree p (k_heap k2)))\<rparr>)
              else Ret (Some \<lparr>fd_addr = p, fd_node = node', fd_size = vn_length node, fd_offset = 0,
                              fd_flags = flags\<rparr>, k2)))))"

definition file_close :: "file_descriptor option \<Rightarrow> ('c, 'm) fkernel_scheme \<Rightarrow>
    ((int \<times> file_descriptor option) \<times> ('c, 'm) fkernel_scheme) kres" where
  "file_close fd k =
     (case fd of
        None \<Rightarrow> Ret ((-1, fd), k)
      | Some f \<Rightarrow>
          if fd_node f = None then Ret ((-1, fd), k)
          else kbind (vfs_close (fd_node f) k) (\<lambda>((e, node'), k1).
               if e \<noteq> 0 then Ret ((-1, Some (f\<lparr>fd_node := node'\<rparr>)), k1)
               else Ret ((0, Some (f\<lparr>fd_node := node'\<rparr>)), k1\<lparr>k_heap := kfree (fd_addr f) (k_heap k1)\<rparr>)))"

definition file_read :: "'c ports \<Rightarrow> file_descriptor option \<Rightarrow> u32 \<Rightarrow> ('c, 'm) fkernel_scheme \<Rightarrow>
    ((int \<times> bytes \<times> file_descriptor option) \<times> ('c, 'm) fkernel_scheme) kres" where
  "file_read io fd sz k =
     (case fd of
        None \<Rightarrow> Ret ((-1, [], fd), k)
      | Some f \<Rightarrow>
          if fd_node f = None then Ret ((-1, [], fd), k)
          else if fd_flags f AND FILE_RDONLY = 0 then Ret ((-1, [], fd), k)
          else let sz' = (if fd_size f < fd_offset f + sz then fd_size f - fd_offset f else sz)
               in kbind (vfs_read io (fd_node f) (fd_offset f) sz' k) (\<lambda>((bytes_read, buffer), k1).
                  if bytes_read < 0 then Ret ((-1, buffer, fd), k1)
                  else Ret ((bytes_read, buffer, Some (f\<lparr>fd_offset := fd_offset f + of_int bytes_read\<rparr>)), k1)))"

definition file_write :: "file_descriptor option \<Rightarrow> bytes \<Rightarrow> u32 \<Rightarrow> int \<times> file_descriptor option" where
  "file_write fd buffer sz =
     (case fd of
        None \<Rightarrow> (-1, fd)
      | Some f \<Rightarrow>
          if fd_node f = None then (-1, fd)
          else if fd_flags f AND FILE_WRONLY = 0 then (-1, fd)
          else let sz' = (if fd_size f < fd_offset f + sz then fd_size f - fd_offset f else sz);
                   bytes_written = vfs_write (fd_node f) (fd_offset f) sz' buffer
               in if bytes_written < 0 then (-1, fd)
                  else (bytes_written, Some (f\<lparr>fd_offset := fd_offset f + of_int bytes_written\<rparr>)))"

text \<open>The offset is unsigned, so the test for a negative offset never holds.\<close>

definition file_seek :: "file_descriptor option \<Rightarrow> int \<Rightarrow> int \<Rightarrow> int \<times> file_descriptor option" where
  "file_seek fd offset whence =
     (case fd of
        None \<Rightarrow> (-1, fd)
      | Some f \<Rightarrow>
          if fd_node f = None then (-1, fd)
          else if whence \<noteq> FILE_SEEK_CUR \<and> whence \<noteq> FILE_SEEK_BEGIN \<and> whence \<noteq> FILE_SEEK_END then (-1, fd)
          else let o1 = (if whence = FILE_SEEK_CUR then fd_offset f + of_int offset
                         else if whence = FILE_SEEK_BEGIN then of_int offset
                         else fd_size f + of_int offset);
                   o2 = (if o1 < 0 then 0 else o1);
                   o3 = (if fd_size f < o2 then fd_size f else o2)
               in (0, Some (f\<lparr>fd_offset := o3\<rparr>)))"

definition file_stat_path :: "'c ports \<Rightarrow> (nat \<Rightarrow> u8) \<Rightarrow> bytes \<Rightarrow> ('c, 'm) fkernel_scheme \<Rightarrow>
    ((int \<times> file_stat option) \<times> ('c, 'm) fkernel_scheme) kres" where
  "file_stat_path io junk path k =
     kbind (path_root path k) (\<lambda>root.
     if root = None then Ret ((-1, None), k)
     else kbind (vfs_findpath io junk root (drop 3 path) k) (\<lambda>(found, k1).
          case found of
            None \<Rightarrow> Ret ((-1, None), k1)
          | Some node \<Rightarrow>
              let k2 = k1\<lparr>k_heap := kfree (vn_addr node) (k_heap k1)\<rparr>
              in if vn_type node \<noteq> VFS_FILE then Ret ((-1, None), k2)
                 else Ret ((0, Some \<lparr>st_size = vn_length node, st_uid = vn_uid node, st_gid = vn_gid node,
                                    st_permissions = vn_permissions node\<rparr>), k2)))"

subsection \<open>Directories\<close>

record dir_dirent =
  dd_addr :: u32
  dd_name :: bytes
  dd_inode :: u32

definition MAX_DIR_DESCRIPTORS :: nat where "MAX_DIR_DESCRIPTORS = 256"

fun free_descriptor_from :: "nat \<Rightarrow> (vfs_node option \<times> u32) list \<Rightarrow> int" where
  "free_descriptor_from i [] = -1"
| "free_descriptor_from i (d # ds) = (if fst d = None then int i else free_descriptor_from (i + 1) ds)"

definition dir_get_free_descriptor :: "('c, 'm) fkernel_scheme \<Rightarrow> int" where
  "dir_get_free_descriptor k = free_descriptor_from 0 (take MAX_DIR_DESCRIPTORS (dir_descriptors k))"

definition set_descriptor :: "nat \<Rightarrow> vfs_node option \<times> u32 \<Rightarrow> ('c, 'm) fkernel_scheme \<Rightarrow> ('c, 'm) fkernel_scheme" where
  "set_descriptor dd d k = k\<lparr>dir_descriptors := (dir_descriptors k)[dd := d]\<rparr>"

text \<open>The root node is copied, so that closing the directory does not free it.\<close>

definition dir_copy_root :: "vfs_node option \<Rightarrow> vfs_node \<Rightarrow> ('c, 'm) fkernel_scheme \<Rightarrow>
    (vfs_node \<times> ('c, 'm) fkernel_scheme) kres" where
  "dir_copy_root root node k =
     (if map_option vn_addr root = Some (vn_addr node)
      then kbind (kmalloc_or_panic sizeof_vfs_node (k_heap k)) (\<lambda>(p, h).
           Ret (node\<lparr>vn_addr := p\<rparr>, k\<lparr>k_heap := h\<rparr>))
      else Ret (node, k))"

text \<open>The last \<open>return NULL\<close> of \<open>dir_open\<close> is the value 0.\<close>

definition dir_open :: "'c ports \<Rightarrow> (nat \<Rightarrow> u8) \<Rightarrow> bytes \<Rightarrow> ('c, 'm) fkernel_scheme \<Rightarrow>
    (int \<times> ('c, 'm) fkernel_scheme) kres" where
  "dir_open io junk path k =
     kbind (path_root path k) (\<lambda>root.
     if root = None then Ret (-1, k)
     else kbind (vfs_findpath io junk root (drop 3 path) k) (\<lambda>(found, k1).
          case found of
            None \<Rightarrow> Ret (-1, k1)
          | Some node \<Rightarrow>
              if vn_type node \<noteq> VFS_DIRECTORY then Ret (-1, k1\<lparr>k_heap := kfree (vn_addr node) (k_heap k1)\<rparr>)
              else let dd = dir_get_free_descriptor k1
                   in if dd < 0 then Ret (-1, k1\<lparr>k_heap := kfree (vn_addr node) (k_heap k1)\<rparr>)
                      else kbind (dir_copy_root root node k1) (\<lambda>(node1, k2).
                           let k3 = set_descriptor (nat dd) (Some node1, 0) k2
                           in kbind (vfs_open io junk (Some node1) k3) (\<lambda>((e, node2), k4).
                              let k5 = set_descriptor (nat dd) (node2, 0) k4
                              in if e \<noteq> 0
                                 then Ret (0, k5\<lparr>k_heap := kfree (vn_addr node1) (kfree (vn_addr node1) (k_heap k5))\<rparr>)
                                 else Ret (dd, k5)))))"

definition dir_close :: "int \<Rightarrow> ('c, 'm) fkernel_scheme \<Rightarrow> int \<times> ('c, 'm) fkernel_scheme" where
  "dir_close dd k =
     (if dd < 0 \<or> int MAX_DIR_DESCRIPTORS \<le> dd then (-1, k)
      else case dir_descriptors k ! nat dd of
             (None, index) \<Rightarrow> (-1, k)
           | (Some node, index) \<Rightarrow>
               (0, set_descriptor (nat dd) (None, index)
                     (k\<lparr>k_heap := kfree (vn_addr node) (kfree (vn_addr node) (k_heap k))\<rparr>)))"

definition dir_read :: "'c ports \<Rightarrow> (nat \<Rightarrow> u8) \<Rightarrow> int \<Rightarrow> ('c, 'm) fkernel_scheme \<Rightarrow>
    (dir_dirent option \<times> ('c, 'm) fkernel_scheme) kres" where
  "dir_read io junk dd k =
     (if dd < 0 \<or> int MAX_DIR_DESCRIPTORS \<le> dd then Ret (None, k)
      else case dir_descriptors k ! nat dd of
             (None, index) \<Rightarrow> Ret (None, k)
           | (Some node, index) \<Rightarrow>
               kbind (vfs_readdir io junk (Some node) index k) (\<lambda>(r, k1).
               case r of
                 None \<Rightarrow> Ret (None, k1)
               | Some dirent \<Rightarrow>
                   kbind (kmalloc 260 (k_heap k1)) (\<lambda>(p, h).
                   if p = 0 then Ret (None, k1\<lparr>k_heap := kfree (de_addr dirent) h\<rparr>)
                   else kbind (or_fault (strncpy (replicate 256 0) (de_name dirent @ [0]) 256)) (\<lambda>name.
                        Ret (Some \<lparr>dd_addr = p, dd_name = cstr_at name 0, dd_inode = de_inode dirent\<rparr>,
                             set_descriptor (nat dd) (Some node, index + 1)
                               (k1\<lparr>k_heap := kfree (de_addr dirent) h\<rparr>))))))"

end
