(* ===== verification/Circular_Buffer.thy ===== *)
theory Circular_Buffer
  imports Kheap_Props
begin

text \<open>
  The ring buffer of \<open>kernel/include/util/circular_buffer.h\<close>, which backs the keyboard event
  queue and the terminal input buffer.

  The element storage is the block that \<open>kmalloc\<close> returned, held as its bytes; a \<open>memcpy\<close>
  outside the block, and a division by a zero capacity, give \<open>None\<close>. The buffer refines a bounded
  queue that drops its oldest element when an element is added to a full queue.
\<close>

subsection \<open>The buffer\<close>

record circular_buffer =
  cb_self :: u32
  cb_buffer :: u32
  cb_mem :: bytes
  cb_head :: u32
  cb_tail :: u32
  cb_capacity :: u32
  cb_element_size :: u32
  cb_full :: bool

definition sizeof_circular_buffer :: u32 where "sizeof_circular_buffer = 24"

definition heap_bytes :: "u32 \<Rightarrow> nat \<Rightarrow> kheap \<Rightarrow> bytes" where
  "heap_bytes p n h = map (\<lambda>i. heap_data h (p + of_nat i)) [0..<n]"

definition circular_buffer_create :: "u32 \<Rightarrow> u32 \<Rightarrow> kheap \<Rightarrow> (circular_buffer option \<times> kheap) kres" where
  "circular_buffer_create capacity element_size h =
     kbind (kmalloc sizeof_circular_buffer h) (\<lambda>(buffer, h1).
       if buffer = 0 then Ret (None, h1)
       else kbind (kmalloc (capacity * element_size) h1) (\<lambda>(data, h2).
         if data = 0 then Ret (None, kfree buffer h2)
         else Ret (Some \<lparr>cb_self = buffer, cb_buffer = data,
                         cb_mem = heap_bytes data (unat (capacity * element_size)) h2,
                         cb_head = 0, cb_tail = 0, cb_capacity = capacity,
                         cb_element_size = element_size, cb_full = False\<rparr>, h2)))"

definition circular_buffer_destroy :: "circular_buffer \<Rightarrow> kheap \<Rightarrow> kheap" where
  "circular_buffer_destroy buffer h = kfree (cb_self buffer) (kfree (cb_buffer buffer) h)"

definition circular_buffer_enqueue :: "circular_buffer \<Rightarrow> bytes \<Rightarrow> circular_buffer option" where
  "circular_buffer_enqueue buffer element =
     (if cb_capacity buffer = 0 then None
      else case mem_write (cb_mem buffer) (unat (cb_head buffer * cb_element_size buffer))
                  (take (unat (cb_element_size buffer)) element) of
        None \<Rightarrow> None
      | Some m \<Rightarrow>
          let tail = (if cb_full buffer then (cb_tail buffer + 1) mod cb_capacity buffer
                      else cb_tail buffer);
              head = (cb_head buffer + 1) mod cb_capacity buffer
          in Some (buffer\<lparr>cb_mem := m, cb_tail := tail, cb_head := head, cb_full := head = tail\<rparr>))"

text \<open>
  The flag says whether the caller passed a destination; the first component is what was copied
  there, if anything was.
\<close>

definition circular_buffer_dequeue ::
    "circular_buffer \<Rightarrow> bool \<Rightarrow> (bytes option \<times> circular_buffer) option" where
  "circular_buffer_dequeue buffer element =
     (if cb_tail buffer = cb_head buffer \<and> \<not> cb_full buffer then Some (None, buffer)
      else if cb_capacity buffer = 0 then None
      else let buffer' = buffer\<lparr>cb_tail := (cb_tail buffer + 1) mod cb_capacity buffer,
                                cb_full := False\<rparr>
           in if element
              then (case mem_read (cb_mem buffer) (unat (cb_tail buffer * cb_element_size buffer))
                           (unat (cb_element_size buffer)) of
                      None \<Rightarrow> None
                    | Some e \<Rightarrow> Some (Some e, buffer'))
              else Some (None, buffer'))"

definition circular_buffer_size :: "circular_buffer \<Rightarrow> u32" where
  "circular_buffer_size buffer =
     (if cb_full buffer then cb_capacity buffer
      else if cb_tail buffer \<le> cb_head buffer then cb_head buffer - cb_tail buffer
      else cb_capacity buffer + cb_head buffer - cb_tail buffer)"

definition circular_buffer_get :: "circular_buffer \<Rightarrow> u32 \<Rightarrow> bytes option option" where
  "circular_buffer_get buffer index =
     (if cb_capacity buffer \<le> index then Some None
      else if circular_buffer_size buffer \<le> index then Some None
      else let position = (cb_tail buffer + index) mod cb_capacity buffer
           in map_option Some (mem_read (cb_mem buffer)
                (unat (position * cb_element_size buffer)) (unat (cb_element_size buffer))))"

definition circular_buffer_set :: "circular_buffer \<Rightarrow> u32 \<Rightarrow> bytes \<Rightarrow> circular_buffer option" where
  "circular_buffer_set buffer index element =
     (if cb_capacity buffer \<le> index then Some buffer
      else if circular_buffer_size buffer \<le> index then Some buffer
      else let position = (cb_tail buffer + index) mod cb_capacity buffer
           in map_option (\<lambda>m. buffer\<lparr>cb_mem := m\<rparr>)
                (mem_write (cb_mem buffer) (unat (position * cb_element_size buffer))
                   (take (unat (cb_element_size buffer)) element)))"

definition circular_buffer_empty :: "circular_buffer \<Rightarrow> bool" where
  "circular_buffer_empty buffer \<longleftrightarrow> cb_tail buffer = cb_head buffer \<and> \<not> cb_full buffer"

definition circular_buffer_full :: "circular_buffer \<Rightarrow> bool" where
  "circular_buffer_full buffer = cb_full buffer"

subsection \<open>Invariant and abstraction\<close>

definition cb_inv :: "circular_buffer \<Rightarrow> bool" where
  "cb_inv b \<longleftrightarrow> cb_head b < cb_capacity b \<and> cb_tail b < cb_capacity b \<and> 0 < cb_element_size b \<and>
     unat (cb_capacity b) * unat (cb_element_size b) \<le> 0x2000000 \<and>
     length (cb_mem b) = unat (cb_capacity b) * unat (cb_element_size b) \<and>
     (cb_full b \<longrightarrow> cb_head b = cb_tail b)"

definition cb_slot :: "circular_buffer \<Rightarrow> nat \<Rightarrow> bytes" where
  "cb_slot b i = take (unat (cb_element_size b)) (drop (i * unat (cb_element_size b)) (cb_mem b))"

definition cb_count :: "circular_buffer \<Rightarrow> nat" where
  "cb_count b = (let c = unat (cb_capacity b); h = unat (cb_head b); t = unat (cb_tail b)
                 in if cb_full b then c else (c + h - t) mod c)"

definition cb_elems :: "circular_buffer \<Rightarrow> bytes list" where
  "cb_elems b = map (\<lambda>i. cb_slot b ((unat (cb_tail b) + i) mod unat (cb_capacity b))) [0..<cb_count b]"

lemma cb_inv_bounds:
  assumes "cb_inv b"
  shows "unat (cb_head b) < unat (cb_capacity b)" "unat (cb_tail b) < unat (cb_capacity b)"
    "0 < unat (cb_element_size b)" "unat (cb_capacity b) \<le> 0x2000000"
    "length (cb_mem b) = unat (cb_capacity b) * unat (cb_element_size b)"
    "cb_capacity b \<noteq> 0"
proof -
  show 1: "unat (cb_head b) < unat (cb_capacity b)" "unat (cb_tail b) < unat (cb_capacity b)"
    "0 < unat (cb_element_size b)"
    "length (cb_mem b) = unat (cb_capacity b) * unat (cb_element_size b)"
    using assms by (auto simp: cb_inv_def u32_less_iff)
  have "unat (cb_capacity b) * 1 \<le> unat (cb_capacity b) * unat (cb_element_size b)"
    using 1(3) by (intro mult_le_mono) auto
  moreover have "unat (cb_capacity b) * unat (cb_element_size b) \<le> 0x2000000"
    using assms by (simp add: cb_inv_def)
  ultimately show "unat (cb_capacity b) \<le> 0x2000000" by linarith
  show "cb_capacity b \<noteq> 0" using 1 by auto
qed

lemma cb_slot_offset:
  assumes "cb_inv b" and "x < cb_capacity b"
  shows "unat (x * cb_element_size b) = unat x * unat (cb_element_size b)"
    and "unat x * unat (cb_element_size b) + unat (cb_element_size b) \<le> length (cb_mem b)"
proof -
  have u: "unat x < unat (cb_capacity b)" using assms(2) by (simp add: u32_less_iff)
  then have "Suc (unat x) * unat (cb_element_size b) \<le> unat (cb_capacity b) * unat (cb_element_size b)"
    by (intro mult_le_mono1) simp
  then show 2: "unat x * unat (cb_element_size b) + unat (cb_element_size b) \<le> length (cb_mem b)"
    using cb_inv_bounds [OF assms(1)] by simp
  have "length (cb_mem b) \<le> 0x2000000" using assms(1) by (simp add: cb_inv_def)
  then show "unat (x * cb_element_size b) = unat x * unat (cb_element_size b)"
    using 2 by (intro unat_u32_mult_small) simp
qed

lemma cb_slot_write:
  assumes w: "mem_write (cb_mem b) (i * unat (cb_element_size b)) e = Some m"
    and e: "length e = unat (cb_element_size b)"
    and b': "cb_mem b' = m" "cb_element_size b' = cb_element_size b"
    and j: "j * unat (cb_element_size b) + unat (cb_element_size b) \<le> length (cb_mem b)"
  shows "cb_slot b' j = (if j = i then e else cb_slot b j)"
proof -
  let ?e = "unat (cb_element_size b)"
  have len: "length m = length (cb_mem b)" using mem_write_length [OF w] .
  have rd: "cb_slot x j = the (mem_read (cb_mem x) (j * ?e) ?e)"
    if "cb_element_size x = cb_element_size b" "length (cb_mem x) = length (cb_mem b)" for x
    using that j by (simp add: cb_slot_def mem_read_def)
  show ?thesis
  proof (cases "j = i")
    case True
    then show ?thesis using mem_read_write_same [OF w] e rd [of b'] b' len by simp
  next
    case False
    then have "j * ?e + ?e \<le> i * ?e \<or> i * ?e + length e \<le> j * ?e"
      unfolding e by (metis add.commute linorder_neqE_nat mult_Suc mult_le_mono1 Suc_leI)
    from mem_read_write_disjoint [OF w this] show ?thesis
      using False rd [of b'] rd [of b] b' len by simp
  qed
qed

lemma mod_succ_u32:
  assumes "x < c" and "unat c \<le> 0x2000000"
  shows "unat ((x + 1) mod c :: u32) = (unat x + 1) mod unat c"
  using assms by (simp add: unat_u32_mod unat_u32_add_small u32_less_iff)

lemma cb_count_le: "cb_inv b \<Longrightarrow> cb_count b \<le> unat (cb_capacity b)"
  using cb_inv_bounds(1) [of b] by (auto simp: cb_count_def Let_def less_imp_le)


text \<open>Positions of the ring, as linear arithmetic.\<close>

lemma ring_pos: "t < c \<Longrightarrow> i \<le> c \<Longrightarrow> (t + i) mod c = (if t + i < c then t + i else t + i - c)"
  for t i c :: nat
  by (simp add: mod_if)

lemma ring_count: "t < c \<Longrightarrow> h < c \<Longrightarrow> (c + h - t) mod c = (if t \<le> h then h - t else c + h - t)"
  for t h c :: nat
  by (auto simp: mod_if)

lemma cb_count_eq:
  assumes "cb_inv b"
  shows "cb_count b = (if cb_full b then unat (cb_capacity b)
     else if unat (cb_tail b) \<le> unat (cb_head b) then unat (cb_head b) - unat (cb_tail b)
     else unat (cb_capacity b) + unat (cb_head b) - unat (cb_tail b))"
  using ring_count cb_inv_bounds [OF assms] by (simp add: cb_count_def Let_def)

lemma length_cb_elems [simp]: "length (cb_elems b) = cb_count b"
  by (simp add: cb_elems_def)

lemma circular_buffer_size_eq:
  assumes "cb_inv b"
  shows "unat (circular_buffer_size b) = length (cb_elems b)"
proof -
  note bd = cb_inv_bounds [OF assms]
  have a: "unat (cb_capacity b + cb_head b) = unat (cb_capacity b) + unat (cb_head b)"
    using bd by (intro unat_u32_add_small) simp
  have "unat (cb_capacity b + cb_head b - cb_tail b) =
      unat (cb_capacity b) + unat (cb_head b) - unat (cb_tail b)"
    using unat_u32_sub [of "cb_tail b" "cb_capacity b + cb_head b"] a bd by (simp add: u32_le_iff)
  then show ?thesis using bd
    by (auto simp: circular_buffer_size_def cb_count_eq [OF assms] u32_le_iff unat_u32_sub)
qed

lemma cb_empty_iff: "cb_inv b \<Longrightarrow> circular_buffer_empty b \<longleftrightarrow> cb_elems b = []"
  using cb_inv_bounds [of b]
  by (auto simp: circular_buffer_empty_def cb_count_eq u32_eq_iff simp flip: length_0_conv
      split: if_splits)

lemma cb_full_iff: "cb_inv b \<Longrightarrow> circular_buffer_full b \<longleftrightarrow> length (cb_elems b) = unat (cb_capacity b)"
  using cb_inv_bounds [of b] by (auto simp: circular_buffer_full_def cb_count_eq split: if_splits)

lemma cb_elems_nth:
  "i < cb_count b \<Longrightarrow> cb_elems b ! i = cb_slot b ((unat (cb_tail b) + i) mod unat (cb_capacity b))"
  by (simp add: cb_elems_def)

lemma cb_pos_valid:
  assumes "cb_inv b" and "x < unat (cb_capacity b)"
  shows "x * unat (cb_element_size b) + unat (cb_element_size b) \<le> length (cb_mem b)"
proof -
  have "of_nat x < cb_capacity b" using assms(2) cb_inv_bounds(4) [OF assms(1)] by (simp add: u32_less_iff)
  from cb_slot_offset(2) [OF assms(1) this] show ?thesis
    using assms(2) cb_inv_bounds(4) [OF assms(1)] by simp
qed

subsection \<open>Refinement\<close>

lemma enqueue_refines:
  assumes inv: "cb_inv b" and e: "length e = unat (cb_element_size b)"
  shows "\<exists>b'. circular_buffer_enqueue b e = Some b' \<and> cb_inv b' \<and>
     cb_elems b' = (if circular_buffer_full b then tl (cb_elems b) else cb_elems b) @ [e] \<and>
     cb_capacity b' = cb_capacity b \<and> cb_element_size b' = cb_element_size b"
proof -
  let ?c = "unat (cb_capacity b)" let ?h = "unat (cb_head b)" let ?t = "unat (cb_tail b)"
  note bd = cb_inv_bounds [OF inv]
  have hc: "cb_head b < cb_capacity b" "cb_tail b < cb_capacity b" using inv by (simp_all add: cb_inv_def)
  obtain m where w: "mem_write (cb_mem b) (?h * unat (cb_element_size b)) e = Some m"
    using cb_pos_valid [OF inv bd(1)] e by (simp add: mem_write_def)
  obtain b' where en: "circular_buffer_enqueue b e = Some b'"
    and b'_def: "b' = the (circular_buffer_enqueue b e)"
    using w bd(6) cb_slot_offset(1) [OF inv hc(1)] e
    by (simp add: circular_buffer_enqueue_def Let_def)
  have f: "cb_mem b' = m" "cb_capacity b' = cb_capacity b" "cb_element_size b' = cb_element_size b"
    "cb_head b' = (cb_head b + 1) mod cb_capacity b"
    "cb_tail b' = (if cb_full b then (cb_tail b + 1) mod cb_capacity b else cb_tail b)"
    "cb_full b' \<longleftrightarrow> cb_head b' = cb_tail b'"
    using w bd(6) cb_slot_offset(1) [OF inv hc(1)] e
    by (simp_all add: b'_def circular_buffer_enqueue_def Let_def)
  have h': "unat (cb_head b') = (if ?h + 1 < ?c then ?h + 1 else 0)"
    using mod_succ_u32 [OF hc(1) bd(4)] ring_pos [of ?h ?c 1] bd f by simp
  have t': "unat (cb_tail b') = (if cb_full b then (if ?t + 1 < ?c then ?t + 1 else 0) else ?t)"
    using mod_succ_u32 [OF hc(2) bd(4)] ring_pos [of ?t ?c 1] bd f by simp
  have inv': "cb_inv b'"
    unfolding cb_inv_def u32_less_iff h' t' f(1,2,3) mem_write_length [OF w]
    using inv bd f(6) by (auto simp: cb_inv_def u32_less_iff)
  have full: "cb_full b \<Longrightarrow> ?h = ?t" using inv by (simp add: cb_inv_def)
  have full': "cb_full b' \<longleftrightarrow> unat (cb_head b') = unat (cb_tail b')" using f(6) by (simp add: u32_eq_iff)
  have cnt': "cb_count b' = (if cb_full b then cb_count b else cb_count b + 1)"
    unfolding cb_count_eq [OF inv'] cb_count_eq [OF inv] full' h' t' f(2) using bd full by auto
  have slot: "cb_slot b' j = (if j = ?h then e else cb_slot b j)" if "j < ?c" for j
    using cb_slot_write [OF w e f(1,3) cb_pos_valid [OF inv that]] .
  have "cb_elems b' ! i = ((if cb_full b then tl (cb_elems b) else cb_elems b) @ [e]) ! i"
    if "i < cb_count b'" for i
  proof -
    have ic: "i < ?c" using that cb_count_le [OF inv'] f by simp
    let ?p = "(unat (cb_tail b') + i) mod ?c"
    have pc: "?p < ?c" using bd by simp
    have pos: "?p = (if unat (cb_tail b') + i < ?c then unat (cb_tail b') + i else unat (cb_tail b') + i - ?c)"
      using ic inv' cb_inv_bounds(2) [OF inv'] f(2) by (intro ring_pos) auto
    have posb: "(?t + j) mod ?c = (if ?t + j < ?c then ?t + j else ?t + j - ?c)" if "j \<le> ?c" for j
      using that bd by (intro ring_pos) auto
    show ?thesis
    proof (cases "cb_full b")
      case True
      then have cb: "cb_count b = ?c" by (simp add: cb_count_eq [OF inv])
      show ?thesis
      proof (cases "i = ?c - 1")
        case last: True
        then have "?p = ?h" unfolding pos t' using True full bd by auto
        then show ?thesis using slot [OF pc] that True last f(2) cb by (simp add: cb_elems_nth nth_append)
      next
        case False
        then have "?p \<noteq> ?h" "?p = (?t + Suc i) mod ?c"
          using ic posb [of "Suc i"] full True bd unfolding pos t' by (auto split: if_splits)
        moreover have "i < ?c - 1" using False ic by simp
        ultimately show ?thesis using slot [OF pc] that True f(2) cb
          by (simp add: cb_elems_nth nth_append nth_tl)
      qed
    next
      case False
      show ?thesis
      proof (cases "i = cb_count b")
        case last: True
        then have "?p = ?h" unfolding pos t' using False bd by (auto simp: cb_count_eq [OF inv])
        then show ?thesis using slot [OF pc] that False last f(2) by (simp add: cb_elems_nth nth_append)
      next
        case ne: False
        then have ib: "i < cb_count b" using that cnt' False by simp
        then have "?p \<noteq> ?h" "?p = (?t + i) mod ?c"
          using posb [of i] ic False bd t' unfolding pos t' by (auto simp: cb_count_eq [OF inv] split: if_splits)
        then show ?thesis using slot [OF pc] that False ib f(2) by (simp add: cb_elems_nth nth_append)
      qed
    qed
  qed
  moreover have "length (cb_elems b') = length ((if cb_full b then tl (cb_elems b) else cb_elems b) @ [e])"
    using cnt' cb_count_eq [OF inv] bd by auto
  ultimately have "cb_elems b' = (if cb_full b then tl (cb_elems b) else cb_elems b) @ [e]"
    by (intro nth_equalityI) auto
  then show ?thesis using en inv' f by (auto simp: circular_buffer_full_def)
qed


lemma slot_read:
  assumes "cb_inv b" and "x < cb_capacity b"
  shows "mem_read (cb_mem b) (unat (x * cb_element_size b)) (unat (cb_element_size b)) =
    Some (cb_slot b (unat x))"
  using cb_slot_offset [OF assms] by (simp add: mem_read_def cb_slot_def)

lemma dequeue_refines:
  assumes inv: "cb_inv b"
  shows "cb_elems b = [] \<Longrightarrow> circular_buffer_dequeue b w = Some (None, b)"
    and "cb_elems b = e # es \<Longrightarrow> \<exists>b'. circular_buffer_dequeue b w = Some (if w then Some e else None, b') \<and>
      cb_inv b' \<and> cb_elems b' = es \<and>
      cb_capacity b' = cb_capacity b \<and> cb_element_size b' = cb_element_size b"
proof -
  let ?c = "unat (cb_capacity b)" let ?h = "unat (cb_head b)" let ?t = "unat (cb_tail b)"
  note bd = cb_inv_bounds [OF inv]
  have tc: "cb_tail b < cb_capacity b" using inv by (simp add: cb_inv_def)
  show "cb_elems b = [] \<Longrightarrow> circular_buffer_dequeue b w = Some (None, b)"
    using cb_empty_iff [OF inv] by (simp add: circular_buffer_dequeue_def circular_buffer_empty_def)
  assume es: "cb_elems b = e # es"
  then have ne: "\<not> (cb_tail b = cb_head b \<and> \<not> cb_full b)" and n: "0 < cb_count b"
    using cb_empty_iff [OF inv] length_cb_elems [of b] by (auto simp: circular_buffer_empty_def)
  have e: "e = cb_slot b ?t" using cb_elems_nth [OF n] es bd by simp
  let ?b = "b\<lparr>cb_tail := (cb_tail b + 1) mod cb_capacity b, cb_full := False\<rparr>"
  have t': "unat ((cb_tail b + 1) mod cb_capacity b) = (if ?t + 1 < ?c then ?t + 1 else 0)"
    using mod_succ_u32 [OF tc bd(4)] ring_pos [of ?t ?c 1] bd by simp
  have inv': "cb_inv ?b" using inv bd t' by (auto simp: cb_inv_def u32_less_iff)
  have full: "cb_full b \<Longrightarrow> ?h = ?t" using inv by (simp add: cb_inv_def)
  have ht: "\<not> cb_full b \<Longrightarrow> ?h \<noteq> ?t" using ne by (simp add: u32_eq_iff)
  have cnt: "cb_count ?b = cb_count b - 1"
    using cb_count_eq [OF inv'] cb_count_eq [OF inv] t' bd full ht by (cases "cb_full b") auto
  have "cb_elems ?b ! i = es ! i" if "i < cb_count ?b" for i
  proof -
    have ic: "Suc i < cb_count b" "Suc i < ?c" using that cnt cb_count_le [OF inv] by auto
    have "(unat (cb_tail ?b) + i) mod ?c = (?t + Suc i) mod ?c"
      using t' ic ring_pos [of ?t ?c "Suc i"] bd ring_pos [of "unat (cb_tail ?b)" ?c i] by auto
    then have "cb_elems ?b ! i = cb_elems b ! Suc i"
      using cb_elems_nth [OF that] cb_elems_nth [OF ic(1)] by (simp add: cb_slot_def)
    then show ?thesis using es by simp
  qed
  then have "cb_elems ?b = es"
    using cnt es length_cb_elems [of b] by (intro nth_equalityI) auto
  then show "\<exists>b'. circular_buffer_dequeue b w = Some (if w then Some e else None, b') \<and>
      cb_inv b' \<and> cb_elems b' = es \<and>
      cb_capacity b' = cb_capacity b \<and> cb_element_size b' = cb_element_size b"
    using ne bd(6) slot_read [OF inv tc] e inv' unfolding circular_buffer_dequeue_def Let_def by auto
qed

lemma get_set_position:
  assumes "cb_inv b" and "unat i < cb_count b"
  shows "(cb_tail b + i) mod cb_capacity b < cb_capacity b"
    and "unat ((cb_tail b + i) mod cb_capacity b) = (unat (cb_tail b) + unat i) mod unat (cb_capacity b)"
    and "\<not> cb_capacity b \<le> i" and "\<not> circular_buffer_size b \<le> i"
proof -
  note bd = cb_inv_bounds [OF assms(1)]
  have "unat i < unat (cb_capacity b)" using assms cb_count_le [OF assms(1)] by simp
  then show "unat ((cb_tail b + i) mod cb_capacity b) =
      (unat (cb_tail b) + unat i) mod unat (cb_capacity b)" "\<not> cb_capacity b \<le> i"
    using bd by (simp_all add: unat_u32_mod unat_u32_add_small u32_le_iff)
  then show "(cb_tail b + i) mod cb_capacity b < cb_capacity b"
    using bd by (simp add: u32_less_iff)
  show "\<not> circular_buffer_size b \<le> i"
    using assms circular_buffer_size_eq [OF assms(1)] by (simp add: u32_le_iff)
qed

lemma cb_get_refines:
  assumes inv: "cb_inv b"
  shows "circular_buffer_get b i =
    Some (if unat i < length (cb_elems b) then Some (cb_elems b ! unat i) else None)"
proof (cases "unat i < cb_count b")
  case True
  note p = get_set_position [OF inv True]
  show ?thesis using True p slot_read [OF inv p(1)] cb_elems_nth [OF True]
    by (simp add: circular_buffer_get_def Let_def)
next
  case False
  then have "circular_buffer_size b \<le> i"
    using circular_buffer_size_eq [OF inv] by (simp add: u32_le_iff)
  then show ?thesis using False by (simp add: circular_buffer_get_def)
qed

lemma cb_set_refines:
  assumes inv: "cb_inv b" and e: "length e = unat (cb_element_size b)"
  shows "\<exists>b'. circular_buffer_set b i e = Some b' \<and> cb_inv b' \<and>
    cb_elems b' = (cb_elems b)[unat i := e]"
proof (cases "unat i < cb_count b")
  case True
  note p = get_set_position [OF inv True] and bd = cb_inv_bounds [OF inv]
  let ?p = "(unat (cb_tail b) + unat i) mod unat (cb_capacity b)"
  obtain m where w: "mem_write (cb_mem b) (?p * unat (cb_element_size b)) e = Some m"
    using cb_pos_valid [OF inv, of ?p] bd e by (simp add: mem_write_def)
  let ?b = "b\<lparr>cb_mem := m\<rparr>"
  have s: "circular_buffer_set b i e = Some ?b"
    using w p e cb_slot_offset(1) [OF inv p(1)] by (simp add: circular_buffer_set_def Let_def)
  have inv': "cb_inv ?b" using inv mem_write_length [OF w] by (simp add: cb_inv_def)
  have cnt: "cb_count ?b = cb_count b" by (simp add: cb_count_def)
  have "cb_elems ?b ! j = (cb_elems b)[unat i := e] ! j" if "j < cb_count b" for j
  proof -
    let ?q = "(unat (cb_tail b) + j) mod unat (cb_capacity b)"
    have jc: "j < unat (cb_capacity b)" "unat i < unat (cb_capacity b)"
      using that True cb_count_le [OF inv] by auto
    have "?q = ?p \<longleftrightarrow> j = unat i"
      using ring_pos [of "unat (cb_tail b)" "unat (cb_capacity b)" j]
        ring_pos [of "unat (cb_tail b)" "unat (cb_capacity b)" "unat i"] bd jc by auto
    moreover have "cb_slot ?b ?q = (if ?q = ?p then e else cb_slot b ?q)"
      by (rule cb_slot_write [OF w e]) (use cb_pos_valid [OF inv, of ?q] bd in simp_all)
    ultimately show ?thesis using that cnt cb_elems_nth [of j ?b] cb_elems_nth [of j b]
      by (simp add: nth_list_update)
  qed
  then have "cb_elems ?b = (cb_elems b)[unat i := e]"
    using cnt by (intro nth_equalityI) auto
  then show ?thesis using s inv' by blast
next
  case False
  then have "circular_buffer_size b \<le> i"
    using circular_buffer_size_eq [OF inv] by (simp add: u32_le_iff)
  then show ?thesis using False inv by (auto simp: circular_buffer_set_def list_update_beyond)
qed


subsection \<open>The bounded queue interface\<close>

text \<open>
  A bounded queue that forgets its oldest element when it is full. The client lemmas: after any
  number of additions the queue holds the most recent elements in order, and removing them
  gives them back oldest first.
\<close>

locale ring_queue =
  fixes inv :: "'q \<Rightarrow> bool" and elems :: "'q \<Rightarrow> 'e list" and cap :: "'q \<Rightarrow> nat"
    and ok :: "'q \<Rightarrow> 'e \<Rightarrow> bool"
    and enq :: "'q \<Rightarrow> 'e \<Rightarrow> 'q option" and deq :: "'q \<Rightarrow> ('e option \<times> 'q) option"
  assumes bounded: "inv q \<Longrightarrow> length (elems q) \<le> cap q"
    and enq_law: "inv q \<Longrightarrow> ok q x \<Longrightarrow> \<exists>q'. enq q x = Some q' \<and> inv q' \<and> cap q' = cap q \<and>
      ok q' = ok q \<and> elems q' = (if length (elems q) = cap q then tl (elems q) else elems q) @ [x]"
    and deq_law: "inv q \<Longrightarrow> elems q = x # xs \<Longrightarrow>
      \<exists>q'. deq q = Some (Some x, q') \<and> inv q' \<and> cap q' = cap q \<and> elems q' = xs"
    and cap_pos: "inv q \<Longrightarrow> 0 < cap q"

fun enq_list :: "('q \<Rightarrow> 'e \<Rightarrow> 'q option) \<Rightarrow> 'q \<Rightarrow> 'e list \<Rightarrow> 'q option" where
  "enq_list enq q [] = Some q"
| "enq_list enq q (x # xs) = (case enq q x of None \<Rightarrow> None | Some q' \<Rightarrow> enq_list enq q' xs)"

fun deq_list :: "('q \<Rightarrow> ('e option \<times> 'q) option) \<Rightarrow> nat \<Rightarrow> 'q \<Rightarrow> ('e option list \<times> 'q) option" where
  "deq_list deq 0 q = Some ([], q)"
| "deq_list deq (Suc n) q =
     (case deq q of None \<Rightarrow> None
      | Some (x, q') \<Rightarrow> map_option (\<lambda>(xs, q''). (x # xs, q'')) (deq_list deq n q'))"

context ring_queue
begin

lemma enq_list_recent:
  assumes "inv q" and "\<forall>x \<in> set xs. ok q x"
  shows "\<exists>q'. enq_list enq q xs = Some q' \<and> inv q' \<and>
    elems q' = drop (length (elems q) + length xs - cap q) (elems q @ xs)"
  using assms
proof (induction xs arbitrary: q)
  case Nil
  then show ?case using bounded [of q] by simp
next
  case (Cons x xs)
  obtain q1 where q1: "enq q x = Some q1" "inv q1" "cap q1 = cap q" "ok q1 = ok q"
    and e1: "elems q1 = (if length (elems q) = cap q then tl (elems q) else elems q) @ [x]"
    using enq_law [of q x] Cons.prems by auto
  from Cons.IH [OF q1(2)] obtain q2 where q2: "enq_list enq q1 xs = Some q2" "inv q2"
    "elems q2 = drop (length (elems q1) + length xs - cap q) (elems q1 @ xs)"
    using Cons.prems q1 by auto
  have "elems q2 = drop (length (elems q) + length (x # xs) - cap q) (elems q @ x # xs)"
  proof (cases "length (elems q) = cap q")
    case True
    then obtain y ys where "elems q = y # ys" using cap_pos [of q] Cons.prems by (cases "elems q") auto
    moreover from this True have "cap q = Suc (length ys)" by simp
    ultimately show ?thesis using q2(3) e1 by simp
  next
    case False
    then show ?thesis using q2(3) e1 by simp
  qed
  then show ?case using q1 q2 by simp
qed

lemma deq_list_fifo:
  assumes "inv q" and "n \<le> length (elems q)"
  shows "\<exists>q'. deq_list deq n q = Some (map Some (take n (elems q)), q') \<and> inv q' \<and>
    elems q' = drop n (elems q)"
  using assms
proof (induction n arbitrary: q)
  case 0
  then show ?case by simp
next
  case (Suc n)
  then obtain x xs where e: "elems q = x # xs" by (cases "elems q") auto
  from deq_law [OF Suc.prems(1) e] obtain q1 where
    q1: "deq q = Some (Some x, q1)" "inv q1" "elems q1 = xs" by blast
  from Suc.IH [OF q1(2)] obtain q2 where "deq_list deq n q1 = Some (map Some (take n xs), q2)"
    "inv q2" "elems q2 = drop n xs" using Suc.prems q1 e by auto
  then show ?case using q1 e by simp
qed

lemma enq_deq_roundtrip:
  assumes "inv q" and "elems q = []" and "\<forall>x \<in> set xs. ok q x" and "length xs \<le> cap q"
  shows "\<exists>q' q''. enq_list enq q xs = Some q' \<and> deq_list deq (length xs) q' = Some (map Some xs, q'') \<and>
    inv q'' \<and> elems q'' = []"
proof -
  from enq_list_recent [OF assms(1,3)] obtain q' where
    q': "enq_list enq q xs = Some q'" "inv q'" "elems q' = xs" using assms(2,4) by auto
  from deq_list_fifo [OF q'(2), of "length xs"] q' show ?thesis by auto
qed

end

interpretation cb: ring_queue cb_inv cb_elems "\<lambda>b. unat (cb_capacity b)"
  "\<lambda>b e. length e = unat (cb_element_size b)" circular_buffer_enqueue
  "\<lambda>b. circular_buffer_dequeue b True"
proof
  fix b :: circular_buffer and e :: bytes assume inv: "cb_inv b"
  show "length (cb_elems b) \<le> unat (cb_capacity b)" using cb_count_le [OF inv] by simp
  show "0 < unat (cb_capacity b)" using cb_inv_bounds [OF inv] by simp
  show "length e = unat (cb_element_size b) \<Longrightarrow> \<exists>b'. circular_buffer_enqueue b e = Some b' \<and> cb_inv b' \<and>
      unat (cb_capacity b') = unat (cb_capacity b) \<and>
      (\<lambda>e. length e = unat (cb_element_size b')) = (\<lambda>e. length e = unat (cb_element_size b)) \<and>
      cb_elems b' = (if length (cb_elems b) = unat (cb_capacity b) then tl (cb_elems b)
                     else cb_elems b) @ [e]"
    using enqueue_refines [OF inv, of e] cb_full_iff [OF inv] by auto
  show "\<exists>b'. circular_buffer_dequeue b True = Some (Some x, b') \<and> cb_inv b' \<and>
      unat (cb_capacity b') = unat (cb_capacity b) \<and> cb_elems b' = xs" if "cb_elems b = x # xs" for x xs
    using dequeue_refines(2) [OF inv that, of True] by auto
qed


subsection \<open>Creation and destruction\<close>

lemma cb_create_correct:
  assumes inv: "kheap_inv h" and small: "unat capacity * unat element_size < 0x100000000"
    and r: "circular_buffer_create capacity element_size h = Ret (r, h')"
  shows "kheap_inv h' \<and>
    (case r of None \<Rightarrow> kheap_live h' = kheap_live h
     | Some b \<Rightarrow> cb_inv b \<and> cb_elems b = [] \<and> cb_capacity b = capacity \<and>
         cb_element_size b = element_size \<and>
         kheap_inv (circular_buffer_destroy b h') \<and>
         kheap_live (circular_buffer_destroy b h') = kheap_live h)"
proof -
  let ?n = "capacity * element_size"
  have n: "unat ?n = unat capacity * unat element_size" using small by (rule unat_u32_mult_small)
  obtain p h1 where m1: "kmalloc sizeof_circular_buffer h = Ret (p, h1)"
    using kheap.alloc_returns [OF inv] by blast
  have inv1: "kheap_inv h1" using inv m1 by (rule kheap.alloc_inv)
  obtain q h2 where m2: "kmalloc ?n h1 = Ret (q, h2)" using kheap.alloc_returns [OF inv1] by blast
  show ?thesis
  proof (cases "p = 0")
    case True
    then show ?thesis using r m1 kheap.alloc_fail [OF inv, of _ h1] inv
      by (auto simp: circular_buffer_create_def)
  next
    case p: False
    note lp = kheap.alloc_release [OF inv m1 p]
    show ?thesis
    proof (cases "q = 0")
      case True
      then have "h2 = h1" using kheap.alloc_fail [OF inv1] m2 by blast
      then show ?thesis using r m1 m2 p True lp by (auto simp: circular_buffer_create_def)
    next
      case q: False
      from kheap.alloc_live [OF inv1 m2 q] obtain k where k: "unat ?n \<le> k"
        "(unat q, k) \<in> kheap_live h2" and inv2: "kheap_inv h2" by auto
      have kb: "k \<le> 0x2000000" using kheap_live_bounds [OF inv2 k(2)] by linarith
      have "?n \<noteq> 0" using m2 q kmalloc_eq [OF inv1] by (auto simp: kmalloc_heap_def)
      then have pos: "0 < capacity" "0 < element_size"
        by (auto simp: word_gt_0)
      let ?b = "\<lparr>cb_self = p, cb_buffer = q, cb_mem = heap_bytes q (unat ?n) h2, cb_head = 0,
         cb_tail = 0, cb_capacity = capacity, cb_element_size = element_size, cb_full = False\<rparr>"
      have rb: "r = Some ?b" "h' = h2" using r m1 m2 p q by (auto simp: circular_buffer_create_def)
      have "cb_inv ?b" using pos n k kb by (simp add: cb_inv_def heap_bytes_def)
      moreover have "cb_elems ?b = []" by (simp add: cb_elems_def cb_count_def)
      moreover have "kheap_inv (circular_buffer_destroy ?b h') \<and>
          kheap_live (circular_buffer_destroy ?b h') = kheap_live h"
      proof -
        note fr = kheap.alloc_release [OF inv1 m2 q]
        from kheap.alloc_live [OF inv m1 p] obtain l where
          l: "kheap_live h1 = insert (unat p, l) (kheap_live h)" "(unat p, l) \<notin> kheap_live h" by blast
        have "kheap_inv (kfree q h2)" "(unat p, l) \<in> kheap_live (kfree q h2)" using fr l by simp_all
        from kheap.release_live [OF this] show ?thesis
          using fr l rb by (simp add: circular_buffer_destroy_def)
      qed
      ultimately show ?thesis using rb inv2 by simp
    qed
  qed
qed

text \<open>A buffer of four 2-byte elements, for concrete evaluations.\<close>

definition small_buffer :: circular_buffer where
  "small_buffer = \<lparr>cb_self = 0x100, cb_buffer = 0x200, cb_mem = replicate 8 0, cb_head = 0, cb_tail = 0,
     cb_capacity = 4, cb_element_size = 2, cb_full = False\<rparr>"

lemma small_buffer_inv: "cb_inv small_buffer" "cb_elems small_buffer = []"
  and small_buffer_fields: "unat (cb_element_size small_buffer) = 2"
    "unat (cb_capacity small_buffer) = 4" "\<not> circular_buffer_full small_buffer"
  by (simp_all add: cb_inv_def small_buffer_def cb_elems_def cb_count_def circular_buffer_full_def)


subsection \<open>The properties\<close>

text \<open>
  C6. The ring buffer refines a bounded list: size, emptiness and fullness are those of the list;
  \<open>enqueue\<close> appends (dropping the oldest element of a full buffer); \<open>dequeue\<close> removes the oldest
  element; \<open>get\<close> and \<open>set\<close> read and update by index and ignore an index outside the list. No
  operation accesses memory outside the element storage, and the invariant is kept.
\<close>

theorem circular_buffer_refines:
  assumes inv: "cb_inv b" and e: "length e = unat (cb_element_size b)"
  shows "unat (circular_buffer_size b) = length (cb_elems b) \<and>
    (circular_buffer_empty b \<longleftrightarrow> cb_elems b = []) \<and>
    (circular_buffer_full b \<longleftrightarrow> length (cb_elems b) = unat (cb_capacity b)) \<and>
    (\<exists>b'. circular_buffer_enqueue b e = Some b' \<and> cb_inv b' \<and>
       cb_elems b' = (if circular_buffer_full b then tl (cb_elems b) else cb_elems b) @ [e]) \<and>
    (\<forall>w. \<exists>b'. circular_buffer_dequeue b w =
          Some (if w \<and> cb_elems b \<noteq> [] then Some (hd (cb_elems b)) else None, b') \<and>
        cb_inv b' \<and> cb_elems b' = tl (cb_elems b)) \<and>
    (\<forall>i. circular_buffer_get b i =
          Some (if unat i < length (cb_elems b) then Some (cb_elems b ! unat i) else None)) \<and>
    (\<forall>i. \<exists>b'. circular_buffer_set b i e = Some b' \<and> cb_inv b' \<and>
        cb_elems b' = (cb_elems b)[unat i := e])"
proof -
  have "\<exists>b'. circular_buffer_dequeue b w =
      Some (if w \<and> cb_elems b \<noteq> [] then Some (hd (cb_elems b)) else None, b') \<and>
      cb_inv b' \<and> cb_elems b' = tl (cb_elems b)" for w
    using dequeue_refines(1) [OF inv, of w] dequeue_refines(2) [OF inv, of _ _ w] inv
    by (cases "cb_elems b") auto
  then show ?thesis
    using circular_buffer_size_eq [OF inv] cb_empty_iff [OF inv] cb_full_iff [OF inv]
      enqueue_refines [OF inv e] cb_get_refines [OF inv] cb_set_refines [OF inv e] by blast
qed

theorem circular_buffer_refines_witness:
  "unat (circular_buffer_size small_buffer) = 0 \<and>
   (\<exists>b'. circular_buffer_enqueue small_buffer [1, 2] = Some b' \<and> cb_elems b' = [[1, 2]])"
  using circular_buffer_refines [OF small_buffer_inv(1), of "[1, 2]"] small_buffer_inv(2)
    length_cb_elems [of small_buffer]
  by (auto simp: small_buffer_fields)

text \<open>
  After any sequence of \<open>enqueue\<close>s the buffer holds the most recent elements, in order, up
  to its capacity; in particular what is written to an empty buffer that is large enough is read
  back first in, first out.
\<close>

theorem circular_buffer_recent:
  assumes "cb_inv b" and "\<forall>e \<in> set xs. length e = unat (cb_element_size b)"
  shows "\<exists>b'. enq_list circular_buffer_enqueue b xs = Some b' \<and> cb_inv b' \<and>
      cb_elems b' = drop (length (cb_elems b) + length xs - unat (cb_capacity b)) (cb_elems b @ xs) \<and>
      (cb_elems b = [] \<and> length xs \<le> unat (cb_capacity b) \<longrightarrow>
        (\<exists>b''. deq_list (\<lambda>b. circular_buffer_dequeue b True) (length xs) b' =
          Some (map Some xs, b'') \<and> cb_elems b'' = []))"
proof -
  from cb.enq_list_recent [OF assms] obtain b' where b': "enq_list circular_buffer_enqueue b xs = Some b'"
    "cb_inv b'"
    "cb_elems b' = drop (length (cb_elems b) + length xs - unat (cb_capacity b)) (cb_elems b @ xs)"
    by blast
  moreover have "\<exists>b''. deq_list (\<lambda>b. circular_buffer_dequeue b True) (length xs) b' =
      Some (map Some xs, b'') \<and> cb_elems b'' = []" if "cb_elems b = []" "length xs \<le> unat (cb_capacity b)"
    using cb.enq_deq_roundtrip [OF assms(1) that(1) assms(2) that(2)] b'(1) by auto
  ultimately show ?thesis by blast
qed

theorem circular_buffer_recent_witness:
  "\<exists>b'. enq_list circular_buffer_enqueue small_buffer [[1, 1], [2, 2], [3, 3], [4, 4], [5, 5]] = Some b' \<and>
     cb_elems b' = [[2, 2], [3, 3], [4, 4], [5, 5]]"
  using circular_buffer_recent [OF small_buffer_inv(1), of "[[1, 1], [2, 2], [3, 3], [4, 4], [5, 5]]"]
    small_buffer_inv(2) by (auto simp: small_buffer_fields)

text \<open>
  Creating a ring buffer (whose storage size does not overflow) either fails and leaves no
  block allocated, or gives an empty buffer satisfying the invariant; destroying it returns
  exactly the memory that was allocated for it.
\<close>

theorem circular_buffer_create_destroy:
  assumes "kheap_inv h" and "unat capacity * unat element_size < 0x100000000"
  shows "\<exists>r h'. circular_buffer_create capacity element_size h = Ret (r, h') \<and> kheap_inv h' \<and>
    (case r of None \<Rightarrow> kheap_live h' = kheap_live h
     | Some b \<Rightarrow> cb_inv b \<and> cb_elems b = [] \<and> cb_capacity b = capacity \<and>
         cb_element_size b = element_size \<and>
         kheap_inv (circular_buffer_destroy b h') \<and>
         kheap_live (circular_buffer_destroy b h') = kheap_live h)"
proof -
  obtain p h1 where m1: "kmalloc sizeof_circular_buffer h = Ret (p, h1)"
    using kheap.alloc_returns [OF assms(1)] by blast
  moreover obtain q h2 where "kmalloc (capacity * element_size) h1 = Ret (q, h2)"
    using kheap.alloc_returns [OF kheap.alloc_inv [OF assms(1) m1]] by blast
  ultimately obtain r h' where r: "circular_buffer_create capacity element_size h = Ret (r, h')"
    by (cases "p = 0"; cases "q = 0") (auto simp: circular_buffer_create_def)
  with cb_create_correct [OF assms r] show ?thesis by blast
qed

theorem circular_buffer_create_destroy_witness:
  "\<exists>r h'. circular_buffer_create 16 8 fresh_heap = Ret (r, h') \<and> kheap_inv h'"
  using circular_buffer_create_destroy [OF fresh_heap_inv, of 16 8] by auto

end
