(* ===== verification/Keyboard.thy ===== *)
theory Keyboard
  imports Ata
begin

text \<open>
  The keyboard: the keycodes of \<open>kernel/include/device/keyboard.h\<close>, the PS/2 driver
  \<open>kernel/src/drivers/input/ps2/keyboard.c\<close>, and the layout table and its lookup from
  \<open>kernel/src/io/keyboard_layout.c\<close> and \<open>tty.c\<close>. The ports are the parameter of the storage drivers.
\<close>

subsection \<open>Keycodes\<close>

definition KEYBOARD_KEYCODE :: "u32 \<Rightarrow> u32 \<Rightarrow> u32" where
  "KEYBOARD_KEYCODE t v = push_bit 8 t OR v"

definition KEYBOARD_KEYCODE_TYPE_LATIN :: u32 where "KEYBOARD_KEYCODE_TYPE_LATIN = 1"
definition KEYBOARD_KEYCODE_TYPE_FUNCTION :: u32 where "KEYBOARD_KEYCODE_TYPE_FUNCTION = 2"
definition KEYBOARD_KEYCODE_TYPE_CURSOR :: u32 where "KEYBOARD_KEYCODE_TYPE_CURSOR = 3"
definition KEYBOARD_KEYCODE_TYPE_KEYPAD :: u32 where "KEYBOARD_KEYCODE_TYPE_KEYPAD = 4"
definition KEYBOARD_KEYCODE_TYPE_CONTROL :: u32 where "KEYBOARD_KEYCODE_TYPE_CONTROL = 5"
definition KEYBOARD_KEYCODE_TYPE_MEDIA :: u32 where "KEYBOARD_KEYCODE_TYPE_MEDIA = 6"
definition KEYBOARD_KEYCODE_TYPE_ACPI :: u32 where "KEYBOARD_KEYCODE_TYPE_ACPI = 7"

definition KEYBOARD_KEYCODE_A :: u32 where "KEYBOARD_KEYCODE_A = KEYBOARD_KEYCODE KEYBOARD_KEYCODE_TYPE_LATIN 0"
definition KEYBOARD_KEYCODE_B :: u32 where "KEYBOARD_KEYCODE_B = KEYBOARD_KEYCODE KEYBOARD_KEYCODE_TYPE_LATIN 1"
definition KEYBOARD_KEYCODE_C :: u32 where "KEYBOARD_KEYCODE_C = KEYBOARD_KEYCODE KEYBOARD_KEYCODE_TYPE_LATIN 2"
definition KEYBOARD_KEYCODE_D :: u32 where "KEYBOARD_KEYCODE_D = KEYBOARD_KEYCODE KEYBOARD_KEYCODE_TYPE_LATIN 3"
definition KEYBOARD_KEYCODE_E :: u32 where "KEYBOARD_KEYCODE_E = KEYBOARD_KEYCODE KEYBOARD_KEYCODE_TYPE_LATIN 4"
definition KEYBOARD_KEYCODE_F :: u32 where "KEYBOARD_KEYCODE_F = KEYBOARD_KEYCODE KEYBOARD_KEYCODE_TYPE_LATIN 5"
definition KEYBOARD_KEYCODE_G :: u32 where "KEYBOARD_KEYCODE_G = KEYBOARD_KEYCODE KEYBOARD_KEYCODE_TYPE_LATIN 6"
definition KEYBOARD_KEYCODE_H :: u32 where "KEYBOARD_KEYCODE_H = KEYBOARD_KEYCODE KEYBOARD_KEYCODE_TYPE_LATIN 7"
definition KEYBOARD_KEYCODE_I :: u32 where "KEYBOARD_KEYCODE_I = KEYBOARD_KEYCODE KEYBOARD_KEYCODE_TYPE_LATIN 8"
definition KEYBOARD_KEYCODE_J :: u32 where "KEYBOARD_KEYCODE_J = KEYBOARD_KEYCODE KEYBOARD_KEYCODE_TYPE_LATIN 9"
definition KEYBOARD_KEYCODE_K :: u32 where "KEYBOARD_KEYCODE_K = KEYBOARD_KEYCODE KEYBOARD_KEYCODE_TYPE_LATIN 10"
definition KEYBOARD_KEYCODE_L :: u32 where "KEYBOARD_KEYCODE_L = KEYBOARD_KEYCODE KEYBOARD_KEYCODE_TYPE_LATIN 11"
definition KEYBOARD_KEYCODE_M :: u32 where "KEYBOARD_KEYCODE_M = KEYBOARD_KEYCODE KEYBOARD_KEYCODE_TYPE_LATIN 12"
definition KEYBOARD_KEYCODE_N :: u32 where "KEYBOARD_KEYCODE_N = KEYBOARD_KEYCODE KEYBOARD_KEYCODE_TYPE_LATIN 13"
definition KEYBOARD_KEYCODE_O :: u32 where "KEYBOARD_KEYCODE_O = KEYBOARD_KEYCODE KEYBOARD_KEYCODE_TYPE_LATIN 14"
definition KEYBOARD_KEYCODE_P :: u32 where "KEYBOARD_KEYCODE_P = KEYBOARD_KEYCODE KEYBOARD_KEYCODE_TYPE_LATIN 15"
definition KEYBOARD_KEYCODE_Q :: u32 where "KEYBOARD_KEYCODE_Q = KEYBOARD_KEYCODE KEYBOARD_KEYCODE_TYPE_LATIN 16"
definition KEYBOARD_KEYCODE_R :: u32 where "KEYBOARD_KEYCODE_R = KEYBOARD_KEYCODE KEYBOARD_KEYCODE_TYPE_LATIN 17"
definition KEYBOARD_KEYCODE_S :: u32 where "KEYBOARD_KEYCODE_S = KEYBOARD_KEYCODE KEYBOARD_KEYCODE_TYPE_LATIN 18"
definition KEYBOARD_KEYCODE_T :: u32 where "KEYBOARD_KEYCODE_T = KEYBOARD_KEYCODE KEYBOARD_KEYCODE_TYPE_LATIN 19"
definition KEYBOARD_KEYCODE_U :: u32 where "KEYBOARD_KEYCODE_U = KEYBOARD_KEYCODE KEYBOARD_KEYCODE_TYPE_LATIN 20"
definition KEYBOARD_KEYCODE_V :: u32 where "KEYBOARD_KEYCODE_V = KEYBOARD_KEYCODE KEYBOARD_KEYCODE_TYPE_LATIN 21"
definition KEYBOARD_KEYCODE_W :: u32 where "KEYBOARD_KEYCODE_W = KEYBOARD_KEYCODE KEYBOARD_KEYCODE_TYPE_LATIN 22"
definition KEYBOARD_KEYCODE_X :: u32 where "KEYBOARD_KEYCODE_X = KEYBOARD_KEYCODE KEYBOARD_KEYCODE_TYPE_LATIN 23"
definition KEYBOARD_KEYCODE_Y :: u32 where "KEYBOARD_KEYCODE_Y = KEYBOARD_KEYCODE KEYBOARD_KEYCODE_TYPE_LATIN 24"
definition KEYBOARD_KEYCODE_Z :: u32 where "KEYBOARD_KEYCODE_Z = KEYBOARD_KEYCODE KEYBOARD_KEYCODE_TYPE_LATIN 25"
definition KEYBOARD_KEYCODE_0 :: u32 where "KEYBOARD_KEYCODE_0 = KEYBOARD_KEYCODE KEYBOARD_KEYCODE_TYPE_LATIN 26"
definition KEYBOARD_KEYCODE_1 :: u32 where "KEYBOARD_KEYCODE_1 = KEYBOARD_KEYCODE KEYBOARD_KEYCODE_TYPE_LATIN 27"
definition KEYBOARD_KEYCODE_2 :: u32 where "KEYBOARD_KEYCODE_2 = KEYBOARD_KEYCODE KEYBOARD_KEYCODE_TYPE_LATIN 28"
definition KEYBOARD_KEYCODE_3 :: u32 where "KEYBOARD_KEYCODE_3 = KEYBOARD_KEYCODE KEYBOARD_KEYCODE_TYPE_LATIN 29"
definition KEYBOARD_KEYCODE_4 :: u32 where "KEYBOARD_KEYCODE_4 = KEYBOARD_KEYCODE KEYBOARD_KEYCODE_TYPE_LATIN 30"
definition KEYBOARD_KEYCODE_5 :: u32 where "KEYBOARD_KEYCODE_5 = KEYBOARD_KEYCODE KEYBOARD_KEYCODE_TYPE_LATIN 31"
definition KEYBOARD_KEYCODE_6 :: u32 where "KEYBOARD_KEYCODE_6 = KEYBOARD_KEYCODE KEYBOARD_KEYCODE_TYPE_LATIN 32"
definition KEYBOARD_KEYCODE_7 :: u32 where "KEYBOARD_KEYCODE_7 = KEYBOARD_KEYCODE KEYBOARD_KEYCODE_TYPE_LATIN 33"
definition KEYBOARD_KEYCODE_8 :: u32 where "KEYBOARD_KEYCODE_8 = KEYBOARD_KEYCODE KEYBOARD_KEYCODE_TYPE_LATIN 34"
definition KEYBOARD_KEYCODE_9 :: u32 where "KEYBOARD_KEYCODE_9 = KEYBOARD_KEYCODE KEYBOARD_KEYCODE_TYPE_LATIN 35"
definition KEYBOARD_KEYCODE_EQUAL :: u32 where "KEYBOARD_KEYCODE_EQUAL = KEYBOARD_KEYCODE KEYBOARD_KEYCODE_TYPE_LATIN 36"
definition KEYBOARD_KEYCODE_MINUS :: u32 where "KEYBOARD_KEYCODE_MINUS = KEYBOARD_KEYCODE KEYBOARD_KEYCODE_TYPE_LATIN 37"
definition KEYBOARD_KEYCODE_LEFT_BRACKET :: u32 where "KEYBOARD_KEYCODE_LEFT_BRACKET = KEYBOARD_KEYCODE KEYBOARD_KEYCODE_TYPE_LATIN 38"
definition KEYBOARD_KEYCODE_RIGHT_BRACKET :: u32 where "KEYBOARD_KEYCODE_RIGHT_BRACKET = KEYBOARD_KEYCODE KEYBOARD_KEYCODE_TYPE_LATIN 39"
definition KEYBOARD_KEYCODE_SEMICOLON :: u32 where "KEYBOARD_KEYCODE_SEMICOLON = KEYBOARD_KEYCODE KEYBOARD_KEYCODE_TYPE_LATIN 40"
definition KEYBOARD_KEYCODE_APOSTROPHE :: u32 where "KEYBOARD_KEYCODE_APOSTROPHE = KEYBOARD_KEYCODE KEYBOARD_KEYCODE_TYPE_LATIN 41"
definition KEYBOARD_KEYCODE_GRAVE :: u32 where "KEYBOARD_KEYCODE_GRAVE = KEYBOARD_KEYCODE KEYBOARD_KEYCODE_TYPE_LATIN 42"
definition KEYBOARD_KEYCODE_COMMA :: u32 where "KEYBOARD_KEYCODE_COMMA = KEYBOARD_KEYCODE KEYBOARD_KEYCODE_TYPE_LATIN 43"
definition KEYBOARD_KEYCODE_PERIOD :: u32 where "KEYBOARD_KEYCODE_PERIOD = KEYBOARD_KEYCODE KEYBOARD_KEYCODE_TYPE_LATIN 44"
definition KEYBOARD_KEYCODE_SLASH :: u32 where "KEYBOARD_KEYCODE_SLASH = KEYBOARD_KEYCODE KEYBOARD_KEYCODE_TYPE_LATIN 45"
definition KEYBOARD_KEYCODE_BACKSLASH :: u32 where "KEYBOARD_KEYCODE_BACKSLASH = KEYBOARD_KEYCODE KEYBOARD_KEYCODE_TYPE_LATIN 46"
definition KEYBOARD_KEYCODE_SPACE :: u32 where "KEYBOARD_KEYCODE_SPACE = KEYBOARD_KEYCODE KEYBOARD_KEYCODE_TYPE_LATIN 47"
definition KEYBOARD_KEYCODE_F1 :: u32 where "KEYBOARD_KEYCODE_F1 = KEYBOARD_KEYCODE KEYBOARD_KEYCODE_TYPE_FUNCTION 0"
definition KEYBOARD_KEYCODE_F2 :: u32 where "KEYBOARD_KEYCODE_F2 = KEYBOARD_KEYCODE KEYBOARD_KEYCODE_TYPE_FUNCTION 1"
definition KEYBOARD_KEYCODE_F3 :: u32 where "KEYBOARD_KEYCODE_F3 = KEYBOARD_KEYCODE KEYBOARD_KEYCODE_TYPE_FUNCTION 2"
definition KEYBOARD_KEYCODE_F4 :: u32 where "KEYBOARD_KEYCODE_F4 = KEYBOARD_KEYCODE KEYBOARD_KEYCODE_TYPE_FUNCTION 3"
definition KEYBOARD_KEYCODE_F5 :: u32 where "KEYBOARD_KEYCODE_F5 = KEYBOARD_KEYCODE KEYBOARD_KEYCODE_TYPE_FUNCTION 4"
definition KEYBOARD_KEYCODE_F6 :: u32 where "KEYBOARD_KEYCODE_F6 = KEYBOARD_KEYCODE KEYBOARD_KEYCODE_TYPE_FUNCTION 5"
definition KEYBOARD_KEYCODE_F7 :: u32 where "KEYBOARD_KEYCODE_F7 = KEYBOARD_KEYCODE KEYBOARD_KEYCODE_TYPE_FUNCTION 6"
definition KEYBOARD_KEYCODE_F8 :: u32 where "KEYBOARD_KEYCODE_F8 = KEYBOARD_KEYCODE KEYBOARD_KEYCODE_TYPE_FUNCTION 7"
definition KEYBOARD_KEYCODE_F9 :: u32 where "KEYBOARD_KEYCODE_F9 = KEYBOARD_KEYCODE KEYBOARD_KEYCODE_TYPE_FUNCTION 8"
definition KEYBOARD_KEYCODE_F10 :: u32 where "KEYBOARD_KEYCODE_F10 = KEYBOARD_KEYCODE KEYBOARD_KEYCODE_TYPE_FUNCTION 9"
definition KEYBOARD_KEYCODE_F11 :: u32 where "KEYBOARD_KEYCODE_F11 = KEYBOARD_KEYCODE KEYBOARD_KEYCODE_TYPE_FUNCTION 10"
definition KEYBOARD_KEYCODE_F12 :: u32 where "KEYBOARD_KEYCODE_F12 = KEYBOARD_KEYCODE KEYBOARD_KEYCODE_TYPE_FUNCTION 11"
definition KEYBOARD_KEYCODE_PRINT_SCREEN :: u32 where "KEYBOARD_KEYCODE_PRINT_SCREEN = KEYBOARD_KEYCODE KEYBOARD_KEYCODE_TYPE_FUNCTION 12"
definition KEYBOARD_KEYCODE_SCROLL_LOCK :: u32 where "KEYBOARD_KEYCODE_SCROLL_LOCK = KEYBOARD_KEYCODE KEYBOARD_KEYCODE_TYPE_FUNCTION 13"
definition KEYBOARD_KEYCODE_PAUSE :: u32 where "KEYBOARD_KEYCODE_PAUSE = KEYBOARD_KEYCODE KEYBOARD_KEYCODE_TYPE_FUNCTION 14"
definition KEYBOARD_KEYCODE_INSERT :: u32 where "KEYBOARD_KEYCODE_INSERT = KEYBOARD_KEYCODE KEYBOARD_KEYCODE_TYPE_FUNCTION 15"
definition KEYBOARD_KEYCODE_DELETE :: u32 where "KEYBOARD_KEYCODE_DELETE = KEYBOARD_KEYCODE KEYBOARD_KEYCODE_TYPE_FUNCTION 16"
definition KEYBOARD_KEYCODE_HOME :: u32 where "KEYBOARD_KEYCODE_HOME = KEYBOARD_KEYCODE KEYBOARD_KEYCODE_TYPE_FUNCTION 17"
definition KEYBOARD_KEYCODE_END :: u32 where "KEYBOARD_KEYCODE_END = KEYBOARD_KEYCODE KEYBOARD_KEYCODE_TYPE_FUNCTION 18"
definition KEYBOARD_KEYCODE_PAGE_UP :: u32 where "KEYBOARD_KEYCODE_PAGE_UP = KEYBOARD_KEYCODE KEYBOARD_KEYCODE_TYPE_FUNCTION 19"
definition KEYBOARD_KEYCODE_PAGE_DOWN :: u32 where "KEYBOARD_KEYCODE_PAGE_DOWN = KEYBOARD_KEYCODE KEYBOARD_KEYCODE_TYPE_FUNCTION 20"
definition KEYBOARD_KEYCODE_LEFT :: u32 where "KEYBOARD_KEYCODE_LEFT = KEYBOARD_KEYCODE KEYBOARD_KEYCODE_TYPE_CURSOR 0"
definition KEYBOARD_KEYCODE_RIGHT :: u32 where "KEYBOARD_KEYCODE_RIGHT = KEYBOARD_KEYCODE KEYBOARD_KEYCODE_TYPE_CURSOR 1"
definition KEYBOARD_KEYCODE_UP :: u32 where "KEYBOARD_KEYCODE_UP = KEYBOARD_KEYCODE KEYBOARD_KEYCODE_TYPE_CURSOR 2"
definition KEYBOARD_KEYCODE_DOWN :: u32 where "KEYBOARD_KEYCODE_DOWN = KEYBOARD_KEYCODE KEYBOARD_KEYCODE_TYPE_CURSOR 3"
definition KEYBOARD_KEYCODE_KEYPAD_0 :: u32 where "KEYBOARD_KEYCODE_KEYPAD_0 = KEYBOARD_KEYCODE KEYBOARD_KEYCODE_TYPE_KEYPAD 0"
definition KEYBOARD_KEYCODE_KEYPAD_1 :: u32 where "KEYBOARD_KEYCODE_KEYPAD_1 = KEYBOARD_KEYCODE KEYBOARD_KEYCODE_TYPE_KEYPAD 1"
definition KEYBOARD_KEYCODE_KEYPAD_2 :: u32 where "KEYBOARD_KEYCODE_KEYPAD_2 = KEYBOARD_KEYCODE KEYBOARD_KEYCODE_TYPE_KEYPAD 2"
definition KEYBOARD_KEYCODE_KEYPAD_3 :: u32 where "KEYBOARD_KEYCODE_KEYPAD_3 = KEYBOARD_KEYCODE KEYBOARD_KEYCODE_TYPE_KEYPAD 3"
definition KEYBOARD_KEYCODE_KEYPAD_4 :: u32 where "KEYBOARD_KEYCODE_KEYPAD_4 = KEYBOARD_KEYCODE KEYBOARD_KEYCODE_TYPE_KEYPAD 4"
definition KEYBOARD_KEYCODE_KEYPAD_5 :: u32 where "KEYBOARD_KEYCODE_KEYPAD_5 = KEYBOARD_KEYCODE KEYBOARD_KEYCODE_TYPE_KEYPAD 5"
definition KEYBOARD_KEYCODE_KEYPAD_6 :: u32 where "KEYBOARD_KEYCODE_KEYPAD_6 = KEYBOARD_KEYCODE KEYBOARD_KEYCODE_TYPE_KEYPAD 6"
definition KEYBOARD_KEYCODE_KEYPAD_7 :: u32 where "KEYBOARD_KEYCODE_KEYPAD_7 = KEYBOARD_KEYCODE KEYBOARD_KEYCODE_TYPE_KEYPAD 7"
definition KEYBOARD_KEYCODE_KEYPAD_8 :: u32 where "KEYBOARD_KEYCODE_KEYPAD_8 = KEYBOARD_KEYCODE KEYBOARD_KEYCODE_TYPE_KEYPAD 8"
definition KEYBOARD_KEYCODE_KEYPAD_9 :: u32 where "KEYBOARD_KEYCODE_KEYPAD_9 = KEYBOARD_KEYCODE KEYBOARD_KEYCODE_TYPE_KEYPAD 9"
definition KEYBOARD_KEYCODE_KEYPAD_PERIOD :: u32 where "KEYBOARD_KEYCODE_KEYPAD_PERIOD = KEYBOARD_KEYCODE KEYBOARD_KEYCODE_TYPE_KEYPAD 10"
definition KEYBOARD_KEYCODE_KEYPAD_SLASH :: u32 where "KEYBOARD_KEYCODE_KEYPAD_SLASH = KEYBOARD_KEYCODE KEYBOARD_KEYCODE_TYPE_KEYPAD 11"
definition KEYBOARD_KEYCODE_KEYPAD_PLUS :: u32 where "KEYBOARD_KEYCODE_KEYPAD_PLUS = KEYBOARD_KEYCODE KEYBOARD_KEYCODE_TYPE_KEYPAD 12"
definition KEYBOARD_KEYCODE_KEYPAD_MINUS :: u32 where "KEYBOARD_KEYCODE_KEYPAD_MINUS = KEYBOARD_KEYCODE KEYBOARD_KEYCODE_TYPE_KEYPAD 13"
definition KEYBOARD_KEYCODE_KEYPAD_ENTER :: u32 where "KEYBOARD_KEYCODE_KEYPAD_ENTER = KEYBOARD_KEYCODE KEYBOARD_KEYCODE_TYPE_KEYPAD 14"
definition KEYBOARD_KEYCODE_KEYPAD_ASTERISK :: u32 where "KEYBOARD_KEYCODE_KEYPAD_ASTERISK = KEYBOARD_KEYCODE KEYBOARD_KEYCODE_TYPE_KEYPAD 15"
definition KEYBOARD_KEYCODE_KEYPAD_NUM_LOCK :: u32 where "KEYBOARD_KEYCODE_KEYPAD_NUM_LOCK = KEYBOARD_KEYCODE KEYBOARD_KEYCODE_TYPE_KEYPAD 16"
definition KEYBOARD_KEYCODE_LEFT_CONTROL :: u32 where "KEYBOARD_KEYCODE_LEFT_CONTROL = KEYBOARD_KEYCODE KEYBOARD_KEYCODE_TYPE_CONTROL 0"
definition KEYBOARD_KEYCODE_LEFT_SHIFT :: u32 where "KEYBOARD_KEYCODE_LEFT_SHIFT = KEYBOARD_KEYCODE KEYBOARD_KEYCODE_TYPE_CONTROL 1"
definition KEYBOARD_KEYCODE_LEFT_ALT :: u32 where "KEYBOARD_KEYCODE_LEFT_ALT = KEYBOARD_KEYCODE KEYBOARD_KEYCODE_TYPE_CONTROL 2"
definition KEYBOARD_KEYCODE_CAPS_LOCK :: u32 where "KEYBOARD_KEYCODE_CAPS_LOCK = KEYBOARD_KEYCODE KEYBOARD_KEYCODE_TYPE_CONTROL 3"
definition KEYBOARD_KEYCODE_TAB :: u32 where "KEYBOARD_KEYCODE_TAB = KEYBOARD_KEYCODE KEYBOARD_KEYCODE_TYPE_CONTROL 4"
definition KEYBOARD_KEYCODE_BACKSPACE :: u32 where "KEYBOARD_KEYCODE_BACKSPACE = KEYBOARD_KEYCODE KEYBOARD_KEYCODE_TYPE_CONTROL 5"
definition KEYBOARD_KEYCODE_ENTER :: u32 where "KEYBOARD_KEYCODE_ENTER = KEYBOARD_KEYCODE KEYBOARD_KEYCODE_TYPE_CONTROL 6"
definition KEYBOARD_KEYCODE_RIGHT_SHIFT :: u32 where "KEYBOARD_KEYCODE_RIGHT_SHIFT = KEYBOARD_KEYCODE KEYBOARD_KEYCODE_TYPE_CONTROL 7"
definition KEYBOARD_KEYCODE_RIGHT_CONTROL :: u32 where "KEYBOARD_KEYCODE_RIGHT_CONTROL = KEYBOARD_KEYCODE KEYBOARD_KEYCODE_TYPE_CONTROL 8"
definition KEYBOARD_KEYCODE_RIGHT_ALT :: u32 where "KEYBOARD_KEYCODE_RIGHT_ALT = KEYBOARD_KEYCODE KEYBOARD_KEYCODE_TYPE_CONTROL 9"
definition KEYBOARD_KEYCODE_ESCAPE :: u32 where "KEYBOARD_KEYCODE_ESCAPE = KEYBOARD_KEYCODE KEYBOARD_KEYCODE_TYPE_CONTROL 10"
definition KEYBOARD_KEYCODE_LEFT_GUI :: u32 where "KEYBOARD_KEYCODE_LEFT_GUI = KEYBOARD_KEYCODE KEYBOARD_KEYCODE_TYPE_CONTROL 11"
definition KEYBOARD_KEYCODE_RIGHT_GUI :: u32 where "KEYBOARD_KEYCODE_RIGHT_GUI = KEYBOARD_KEYCODE KEYBOARD_KEYCODE_TYPE_CONTROL 12"
definition KEYBOARD_KEYCODE_APPLICATION :: u32 where "KEYBOARD_KEYCODE_APPLICATION = KEYBOARD_KEYCODE KEYBOARD_KEYCODE_TYPE_CONTROL 13"
definition KEYBOARD_KEYCODE_MEDIA_VOLUME_UP :: u32 where "KEYBOARD_KEYCODE_MEDIA_VOLUME_UP = KEYBOARD_KEYCODE KEYBOARD_KEYCODE_TYPE_MEDIA 0"
definition KEYBOARD_KEYCODE_MEDIA_VOLUME_DOWN :: u32 where "KEYBOARD_KEYCODE_MEDIA_VOLUME_DOWN = KEYBOARD_KEYCODE KEYBOARD_KEYCODE_TYPE_MEDIA 1"
definition KEYBOARD_KEYCODE_MEDIA_VOLUME_MUTE :: u32 where "KEYBOARD_KEYCODE_MEDIA_VOLUME_MUTE = KEYBOARD_KEYCODE KEYBOARD_KEYCODE_TYPE_MEDIA 2"
definition KEYBOARD_KEYCODE_MEDIA_PLAY :: u32 where "KEYBOARD_KEYCODE_MEDIA_PLAY = KEYBOARD_KEYCODE KEYBOARD_KEYCODE_TYPE_MEDIA 3"
definition KEYBOARD_KEYCODE_MEDIA_STOP :: u32 where "KEYBOARD_KEYCODE_MEDIA_STOP = KEYBOARD_KEYCODE KEYBOARD_KEYCODE_TYPE_MEDIA 4"
definition KEYBOARD_KEYCODE_MEDIA_PREVIOUS :: u32 where "KEYBOARD_KEYCODE_MEDIA_PREVIOUS = KEYBOARD_KEYCODE KEYBOARD_KEYCODE_TYPE_MEDIA 5"
definition KEYBOARD_KEYCODE_MEDIA_NEXT :: u32 where "KEYBOARD_KEYCODE_MEDIA_NEXT = KEYBOARD_KEYCODE KEYBOARD_KEYCODE_TYPE_MEDIA 6"
definition KEYBOARD_KEYCODE_MEDIA_PAUSE :: u32 where "KEYBOARD_KEYCODE_MEDIA_PAUSE = KEYBOARD_KEYCODE KEYBOARD_KEYCODE_TYPE_MEDIA 7"
definition KEYBOARD_KEYCODE_MEDIA_SELECT :: u32 where "KEYBOARD_KEYCODE_MEDIA_SELECT = KEYBOARD_KEYCODE KEYBOARD_KEYCODE_TYPE_MEDIA 8"
definition KEYBOARD_KEYCODE_MEDIA_CALCULATOR :: u32 where "KEYBOARD_KEYCODE_MEDIA_CALCULATOR = KEYBOARD_KEYCODE KEYBOARD_KEYCODE_TYPE_MEDIA 9"
definition KEYBOARD_KEYCODE_MEDIA_EMAIL :: u32 where "KEYBOARD_KEYCODE_MEDIA_EMAIL = KEYBOARD_KEYCODE KEYBOARD_KEYCODE_TYPE_MEDIA 10"
definition KEYBOARD_KEYCODE_MEDIA_WWW_HOME :: u32 where "KEYBOARD_KEYCODE_MEDIA_WWW_HOME = KEYBOARD_KEYCODE KEYBOARD_KEYCODE_TYPE_MEDIA 11"
definition KEYBOARD_KEYCODE_MEDIA_WWW_SEARCH :: u32 where "KEYBOARD_KEYCODE_MEDIA_WWW_SEARCH = KEYBOARD_KEYCODE KEYBOARD_KEYCODE_TYPE_MEDIA 12"
definition KEYBOARD_KEYCODE_MEDIA_WWW_FAVORITES :: u32 where "KEYBOARD_KEYCODE_MEDIA_WWW_FAVORITES = KEYBOARD_KEYCODE KEYBOARD_KEYCODE_TYPE_MEDIA 13"
definition KEYBOARD_KEYCODE_MEDIA_WWW_REFRESH :: u32 where "KEYBOARD_KEYCODE_MEDIA_WWW_REFRESH = KEYBOARD_KEYCODE KEYBOARD_KEYCODE_TYPE_MEDIA 14"
definition KEYBOARD_KEYCODE_MEDIA_WWW_STOP :: u32 where "KEYBOARD_KEYCODE_MEDIA_WWW_STOP = KEYBOARD_KEYCODE KEYBOARD_KEYCODE_TYPE_MEDIA 15"
definition KEYBOARD_KEYCODE_MEDIA_WWW_FORWARD :: u32 where "KEYBOARD_KEYCODE_MEDIA_WWW_FORWARD = KEYBOARD_KEYCODE KEYBOARD_KEYCODE_TYPE_MEDIA 16"
definition KEYBOARD_KEYCODE_MEDIA_WWW_BACK :: u32 where "KEYBOARD_KEYCODE_MEDIA_WWW_BACK = KEYBOARD_KEYCODE KEYBOARD_KEYCODE_TYPE_MEDIA 17"
definition KEYBOARD_KEYCODE_MEDIA_MY_COMPUTER :: u32 where "KEYBOARD_KEYCODE_MEDIA_MY_COMPUTER = KEYBOARD_KEYCODE KEYBOARD_KEYCODE_TYPE_MEDIA 18"
definition KEYBOARD_KEYCODE_ACPI_POWER :: u32 where "KEYBOARD_KEYCODE_ACPI_POWER = KEYBOARD_KEYCODE KEYBOARD_KEYCODE_TYPE_ACPI 0"
definition KEYBOARD_KEYCODE_ACPI_SLEEP :: u32 where "KEYBOARD_KEYCODE_ACPI_SLEEP = KEYBOARD_KEYCODE KEYBOARD_KEYCODE_TYPE_ACPI 1"
definition KEYBOARD_KEYCODE_ACPI_WAKE :: u32 where "KEYBOARD_KEYCODE_ACPI_WAKE = KEYBOARD_KEYCODE KEYBOARD_KEYCODE_TYPE_ACPI 2"

lemmas keycode_types = KEYBOARD_KEYCODE_def KEYBOARD_KEYCODE_TYPE_LATIN_def KEYBOARD_KEYCODE_TYPE_FUNCTION_def KEYBOARD_KEYCODE_TYPE_CURSOR_def KEYBOARD_KEYCODE_TYPE_KEYPAD_def KEYBOARD_KEYCODE_TYPE_CONTROL_def KEYBOARD_KEYCODE_TYPE_MEDIA_def KEYBOARD_KEYCODE_TYPE_ACPI_def

lemmas keycodes =
  KEYBOARD_KEYCODE_A_def KEYBOARD_KEYCODE_B_def KEYBOARD_KEYCODE_C_def
  KEYBOARD_KEYCODE_D_def KEYBOARD_KEYCODE_E_def KEYBOARD_KEYCODE_F_def
  KEYBOARD_KEYCODE_G_def KEYBOARD_KEYCODE_H_def KEYBOARD_KEYCODE_I_def
  KEYBOARD_KEYCODE_J_def KEYBOARD_KEYCODE_K_def KEYBOARD_KEYCODE_L_def
  KEYBOARD_KEYCODE_M_def KEYBOARD_KEYCODE_N_def KEYBOARD_KEYCODE_O_def
  KEYBOARD_KEYCODE_P_def KEYBOARD_KEYCODE_Q_def KEYBOARD_KEYCODE_R_def
  KEYBOARD_KEYCODE_S_def KEYBOARD_KEYCODE_T_def KEYBOARD_KEYCODE_U_def
  KEYBOARD_KEYCODE_V_def KEYBOARD_KEYCODE_W_def KEYBOARD_KEYCODE_X_def
  KEYBOARD_KEYCODE_Y_def KEYBOARD_KEYCODE_Z_def KEYBOARD_KEYCODE_0_def
  KEYBOARD_KEYCODE_1_def KEYBOARD_KEYCODE_2_def KEYBOARD_KEYCODE_3_def
  KEYBOARD_KEYCODE_4_def KEYBOARD_KEYCODE_5_def KEYBOARD_KEYCODE_6_def
  KEYBOARD_KEYCODE_7_def KEYBOARD_KEYCODE_8_def KEYBOARD_KEYCODE_9_def
  KEYBOARD_KEYCODE_EQUAL_def KEYBOARD_KEYCODE_MINUS_def KEYBOARD_KEYCODE_LEFT_BRACKET_def
  KEYBOARD_KEYCODE_RIGHT_BRACKET_def KEYBOARD_KEYCODE_SEMICOLON_def KEYBOARD_KEYCODE_APOSTROPHE_def
  KEYBOARD_KEYCODE_GRAVE_def KEYBOARD_KEYCODE_COMMA_def KEYBOARD_KEYCODE_PERIOD_def
  KEYBOARD_KEYCODE_SLASH_def KEYBOARD_KEYCODE_BACKSLASH_def KEYBOARD_KEYCODE_SPACE_def
  KEYBOARD_KEYCODE_F1_def KEYBOARD_KEYCODE_F2_def KEYBOARD_KEYCODE_F3_def
  KEYBOARD_KEYCODE_F4_def KEYBOARD_KEYCODE_F5_def KEYBOARD_KEYCODE_F6_def
  KEYBOARD_KEYCODE_F7_def KEYBOARD_KEYCODE_F8_def KEYBOARD_KEYCODE_F9_def
  KEYBOARD_KEYCODE_F10_def KEYBOARD_KEYCODE_F11_def KEYBOARD_KEYCODE_F12_def
  KEYBOARD_KEYCODE_PRINT_SCREEN_def KEYBOARD_KEYCODE_SCROLL_LOCK_def KEYBOARD_KEYCODE_PAUSE_def
  KEYBOARD_KEYCODE_INSERT_def KEYBOARD_KEYCODE_DELETE_def KEYBOARD_KEYCODE_HOME_def
  KEYBOARD_KEYCODE_END_def KEYBOARD_KEYCODE_PAGE_UP_def KEYBOARD_KEYCODE_PAGE_DOWN_def
  KEYBOARD_KEYCODE_LEFT_def KEYBOARD_KEYCODE_RIGHT_def KEYBOARD_KEYCODE_UP_def
  KEYBOARD_KEYCODE_DOWN_def KEYBOARD_KEYCODE_KEYPAD_0_def KEYBOARD_KEYCODE_KEYPAD_1_def
  KEYBOARD_KEYCODE_KEYPAD_2_def KEYBOARD_KEYCODE_KEYPAD_3_def KEYBOARD_KEYCODE_KEYPAD_4_def
  KEYBOARD_KEYCODE_KEYPAD_5_def KEYBOARD_KEYCODE_KEYPAD_6_def KEYBOARD_KEYCODE_KEYPAD_7_def
  KEYBOARD_KEYCODE_KEYPAD_8_def KEYBOARD_KEYCODE_KEYPAD_9_def KEYBOARD_KEYCODE_KEYPAD_PERIOD_def
  KEYBOARD_KEYCODE_KEYPAD_SLASH_def KEYBOARD_KEYCODE_KEYPAD_PLUS_def KEYBOARD_KEYCODE_KEYPAD_MINUS_def
  KEYBOARD_KEYCODE_KEYPAD_ENTER_def KEYBOARD_KEYCODE_KEYPAD_ASTERISK_def KEYBOARD_KEYCODE_KEYPAD_NUM_LOCK_def
  KEYBOARD_KEYCODE_LEFT_CONTROL_def KEYBOARD_KEYCODE_LEFT_SHIFT_def KEYBOARD_KEYCODE_LEFT_ALT_def
  KEYBOARD_KEYCODE_CAPS_LOCK_def KEYBOARD_KEYCODE_TAB_def KEYBOARD_KEYCODE_BACKSPACE_def
  KEYBOARD_KEYCODE_ENTER_def KEYBOARD_KEYCODE_RIGHT_SHIFT_def KEYBOARD_KEYCODE_RIGHT_CONTROL_def
  KEYBOARD_KEYCODE_RIGHT_ALT_def KEYBOARD_KEYCODE_ESCAPE_def KEYBOARD_KEYCODE_LEFT_GUI_def
  KEYBOARD_KEYCODE_RIGHT_GUI_def KEYBOARD_KEYCODE_APPLICATION_def KEYBOARD_KEYCODE_MEDIA_VOLUME_UP_def
  KEYBOARD_KEYCODE_MEDIA_VOLUME_DOWN_def KEYBOARD_KEYCODE_MEDIA_VOLUME_MUTE_def KEYBOARD_KEYCODE_MEDIA_PLAY_def
  KEYBOARD_KEYCODE_MEDIA_STOP_def KEYBOARD_KEYCODE_MEDIA_PREVIOUS_def KEYBOARD_KEYCODE_MEDIA_NEXT_def
  KEYBOARD_KEYCODE_MEDIA_PAUSE_def KEYBOARD_KEYCODE_MEDIA_SELECT_def KEYBOARD_KEYCODE_MEDIA_CALCULATOR_def
  KEYBOARD_KEYCODE_MEDIA_EMAIL_def KEYBOARD_KEYCODE_MEDIA_WWW_HOME_def KEYBOARD_KEYCODE_MEDIA_WWW_SEARCH_def
  KEYBOARD_KEYCODE_MEDIA_WWW_FAVORITES_def KEYBOARD_KEYCODE_MEDIA_WWW_REFRESH_def KEYBOARD_KEYCODE_MEDIA_WWW_STOP_def
  KEYBOARD_KEYCODE_MEDIA_WWW_FORWARD_def KEYBOARD_KEYCODE_MEDIA_WWW_BACK_def KEYBOARD_KEYCODE_MEDIA_MY_COMPUTER_def
  KEYBOARD_KEYCODE_ACPI_POWER_def KEYBOARD_KEYCODE_ACPI_SLEEP_def KEYBOARD_KEYCODE_ACPI_WAKE_def

record keyboard_event =
  ke_keycode :: u32
  ke_pressed :: bool

subsection \<open>The PS/2 driver\<close>

definition PS2_STATUS_REGISTER :: u16 where "PS2_STATUS_REGISTER = 0x64"
definition PS2_DATA_REGISTER :: u16 where "PS2_DATA_REGISTER = 0x60"

definition PS2_KEYBOARD_SET1_STANDARD_KEYCODES :: "u32 list" where
  "PS2_KEYBOARD_SET1_STANDARD_KEYCODES =
    [0, KEYBOARD_KEYCODE_ESCAPE, KEYBOARD_KEYCODE_1, KEYBOARD_KEYCODE_2,
     KEYBOARD_KEYCODE_3, KEYBOARD_KEYCODE_4, KEYBOARD_KEYCODE_5, KEYBOARD_KEYCODE_6,
     KEYBOARD_KEYCODE_7, KEYBOARD_KEYCODE_8, KEYBOARD_KEYCODE_9, KEYBOARD_KEYCODE_0,
     KEYBOARD_KEYCODE_MINUS, KEYBOARD_KEYCODE_EQUAL, KEYBOARD_KEYCODE_BACKSPACE, KEYBOARD_KEYCODE_TAB,
     KEYBOARD_KEYCODE_Q, KEYBOARD_KEYCODE_W, KEYBOARD_KEYCODE_E, KEYBOARD_KEYCODE_R,
     KEYBOARD_KEYCODE_T, KEYBOARD_KEYCODE_Y, KEYBOARD_KEYCODE_U, KEYBOARD_KEYCODE_I,
     KEYBOARD_KEYCODE_O, KEYBOARD_KEYCODE_P, KEYBOARD_KEYCODE_LEFT_BRACKET, KEYBOARD_KEYCODE_RIGHT_BRACKET,
     KEYBOARD_KEYCODE_ENTER, KEYBOARD_KEYCODE_LEFT_CONTROL, KEYBOARD_KEYCODE_A, KEYBOARD_KEYCODE_S,
     KEYBOARD_KEYCODE_D, KEYBOARD_KEYCODE_F, KEYBOARD_KEYCODE_G, KEYBOARD_KEYCODE_H,
     KEYBOARD_KEYCODE_J, KEYBOARD_KEYCODE_K, KEYBOARD_KEYCODE_L, KEYBOARD_KEYCODE_SEMICOLON,
     KEYBOARD_KEYCODE_APOSTROPHE, KEYBOARD_KEYCODE_GRAVE, KEYBOARD_KEYCODE_LEFT_SHIFT, KEYBOARD_KEYCODE_BACKSLASH,
     KEYBOARD_KEYCODE_Z, KEYBOARD_KEYCODE_X, KEYBOARD_KEYCODE_C, KEYBOARD_KEYCODE_V,
     KEYBOARD_KEYCODE_B, KEYBOARD_KEYCODE_N, KEYBOARD_KEYCODE_M, KEYBOARD_KEYCODE_COMMA,
     KEYBOARD_KEYCODE_PERIOD, KEYBOARD_KEYCODE_SLASH, KEYBOARD_KEYCODE_RIGHT_SHIFT, KEYBOARD_KEYCODE_KEYPAD_ASTERISK,
     KEYBOARD_KEYCODE_LEFT_ALT, KEYBOARD_KEYCODE_SPACE, KEYBOARD_KEYCODE_CAPS_LOCK, KEYBOARD_KEYCODE_F1,
     KEYBOARD_KEYCODE_F2, KEYBOARD_KEYCODE_F3, KEYBOARD_KEYCODE_F4, KEYBOARD_KEYCODE_F5,
     KEYBOARD_KEYCODE_F6, KEYBOARD_KEYCODE_F7, KEYBOARD_KEYCODE_F8, KEYBOARD_KEYCODE_F9,
     KEYBOARD_KEYCODE_F10, KEYBOARD_KEYCODE_KEYPAD_NUM_LOCK, KEYBOARD_KEYCODE_SCROLL_LOCK, KEYBOARD_KEYCODE_KEYPAD_7,
     KEYBOARD_KEYCODE_KEYPAD_8, KEYBOARD_KEYCODE_KEYPAD_9, KEYBOARD_KEYCODE_KEYPAD_MINUS, KEYBOARD_KEYCODE_KEYPAD_4,
     KEYBOARD_KEYCODE_KEYPAD_5, KEYBOARD_KEYCODE_KEYPAD_6, KEYBOARD_KEYCODE_KEYPAD_PLUS, KEYBOARD_KEYCODE_KEYPAD_1,
     KEYBOARD_KEYCODE_KEYPAD_2, KEYBOARD_KEYCODE_KEYPAD_3, KEYBOARD_KEYCODE_KEYPAD_0, KEYBOARD_KEYCODE_KEYPAD_PERIOD,
     0, 0, 0, KEYBOARD_KEYCODE_F11,
     KEYBOARD_KEYCODE_F12]"

definition PS2_KEYBOARD_SET1_EXTENDED_KEYCODES :: "u32 list" where
  "PS2_KEYBOARD_SET1_EXTENDED_KEYCODES =
    [0, 0, 0, 0,
     0, 0, 0, 0,
     0, 0, 0, 0,
     0, 0, 0, 0,
     KEYBOARD_KEYCODE_MEDIA_PREVIOUS, 0, 0, 0,
     0, 0, 0, 0,
     0, KEYBOARD_KEYCODE_MEDIA_NEXT, 0, 0,
     KEYBOARD_KEYCODE_KEYPAD_ENTER, KEYBOARD_KEYCODE_RIGHT_CONTROL, 0, 0,
     KEYBOARD_KEYCODE_MEDIA_VOLUME_MUTE, KEYBOARD_KEYCODE_MEDIA_CALCULATOR, KEYBOARD_KEYCODE_MEDIA_PLAY, 0,
     KEYBOARD_KEYCODE_MEDIA_STOP, 0, 0, 0,
     0, 0, 0, 0,
     0, 0, KEYBOARD_KEYCODE_MEDIA_VOLUME_DOWN, 0,
     KEYBOARD_KEYCODE_MEDIA_VOLUME_UP, 0, KEYBOARD_KEYCODE_MEDIA_WWW_HOME, 0,
     0, KEYBOARD_KEYCODE_KEYPAD_SLASH, 0, 0,
     KEYBOARD_KEYCODE_RIGHT_ALT, 0, 0, 0,
     0, 0, 0, 0,
     0, 0, 0, 0,
     0, 0, 0, KEYBOARD_KEYCODE_HOME,
     KEYBOARD_KEYCODE_UP, KEYBOARD_KEYCODE_PAGE_UP, 0, KEYBOARD_KEYCODE_LEFT,
     0, KEYBOARD_KEYCODE_RIGHT, 0, KEYBOARD_KEYCODE_END,
     KEYBOARD_KEYCODE_DOWN, KEYBOARD_KEYCODE_PAGE_DOWN, KEYBOARD_KEYCODE_INSERT, KEYBOARD_KEYCODE_DELETE,
     0, 0, 0, 0,
     0, 0, 0, KEYBOARD_KEYCODE_LEFT_GUI,
     KEYBOARD_KEYCODE_RIGHT_GUI, KEYBOARD_KEYCODE_APPLICATION, KEYBOARD_KEYCODE_ACPI_POWER, KEYBOARD_KEYCODE_ACPI_SLEEP,
     0, 0, 0, KEYBOARD_KEYCODE_ACPI_WAKE,
     0, KEYBOARD_KEYCODE_MEDIA_WWW_SEARCH, KEYBOARD_KEYCODE_MEDIA_WWW_FAVORITES, KEYBOARD_KEYCODE_MEDIA_WWW_REFRESH,
     KEYBOARD_KEYCODE_MEDIA_WWW_STOP, KEYBOARD_KEYCODE_MEDIA_WWW_FORWARD, KEYBOARD_KEYCODE_MEDIA_WWW_BACK, KEYBOARD_KEYCODE_MEDIA_MY_COMPUTER,
     KEYBOARD_KEYCODE_MEDIA_EMAIL, KEYBOARD_KEYCODE_MEDIA_SELECT]"

definition ps2_keyboard_probe :: "'c ports \<Rightarrow> 'c \<Rightarrow> bool \<times> 'c" where
  "ps2_keyboard_probe io c =
     (let (response, c1) = inb io PS2_DATA_REGISTER (outb io PS2_DATA_REGISTER 0xFF c)
      in (response \<noteq> 0xFC \<and> response \<noteq> 0xFD, c1))"

text \<open>A keycode read from a table, \<open>Fault\<close> outside of it, and the event it is reported as.\<close>

definition ps2_keycode_event :: "u32 list \<Rightarrow> u8 \<Rightarrow> bool \<Rightarrow> keyboard_event option kres" where
  "ps2_keycode_event table index pressed =
     (if length table \<le> unat index then Fault
      else let keycode = table ! unat index
           in Ret (if keycode \<noteq> 0 then Some \<lparr>ke_keycode = keycode, ke_pressed = pressed\<rparr> else None))"

text \<open>The nested tests of the multi-byte scancodes: read a byte, compare, go on.\<close>

fun ps2_expect :: "'c ports \<Rightarrow> bytes \<Rightarrow> 'c \<Rightarrow> bool \<times> 'c" where
  "ps2_expect io [] c = (True, c)"
| "ps2_expect io (b # bs) c =
     (let (scancode, c1) = inb io PS2_DATA_REGISTER c
      in if scancode = b then ps2_expect io bs c1 else (False, c1))"

definition ps2_expect_event :: "'c ports \<Rightarrow> bytes \<Rightarrow> u32 \<Rightarrow> bool \<Rightarrow> 'c \<Rightarrow> (keyboard_event option \<times> 'c) kres" where
  "ps2_expect_event io bs keycode pressed c =
     (let (found, c1) = ps2_expect io bs c
      in Ret (if found then Some \<lparr>ke_keycode = keycode, ke_pressed = pressed\<rparr> else None, c1))"

text \<open>The handler reports at most one event, as the last thing it does; here it is its result.\<close>

definition ps2_keyboard_extended :: "'c ports \<Rightarrow> 'c \<Rightarrow> (keyboard_event option \<times> 'c) kres" where
  "ps2_keyboard_extended io c =
     (let (status, c1) = inb io PS2_STATUS_REGISTER c
      in if status AND 0x01 = 0 then Ret (None, c1)
         else let (scancode, c2) = inb io PS2_DATA_REGISTER c1
              in if scancode = 0x2A then ps2_expect_event io [0xE0, 0x37] KEYBOARD_KEYCODE_PRINT_SCREEN True c2
                 else if scancode = 0xB7 then ps2_expect_event io [0xE0, 0xAA] KEYBOARD_KEYCODE_PRINT_SCREEN False c2
                 else if scancode \<le> 0x6D
                 then kbind (ps2_keycode_event PS2_KEYBOARD_SET1_EXTENDED_KEYCODES scancode True) (\<lambda>e. Ret (e, c2))
                 else if 0x80 \<le> scancode \<and> scancode \<le> 0xED
                 then kbind (ps2_keycode_event PS2_KEYBOARD_SET1_EXTENDED_KEYCODES (scancode - 0x80) False)
                        (\<lambda>e. Ret (e, c2))
                 else Ret (None, c2))"

definition ps2_keyboard_interrupt_handler :: "'c ports \<Rightarrow> 'c \<Rightarrow> (keyboard_event option \<times> 'c) kres" where
  "ps2_keyboard_interrupt_handler io c =
     (let (status, c1) = inb io PS2_STATUS_REGISTER c
      in if status AND 0x01 = 0 then Ret (None, c1)
         else let (scancode, c2) = inb io PS2_DATA_REGISTER c1
              in if scancode \<le> 0x58
                 then kbind (ps2_keycode_event PS2_KEYBOARD_SET1_STANDARD_KEYCODES scancode True) (\<lambda>e. Ret (e, c2))
                 else if 0x80 \<le> scancode \<and> scancode \<le> 0xD8
                 then kbind (ps2_keycode_event PS2_KEYBOARD_SET1_STANDARD_KEYCODES (scancode - 0x80) False)
                        (\<lambda>e. Ret (e, c2))
                 else if scancode = 0xE1
                 then ps2_expect_event io [0x1D, 0x45, 0xE1, 0x9D, 0xC5] KEYBOARD_KEYCODE_PAUSE True c2
                 else if scancode = 0xE0 then ps2_keyboard_extended io c2
                 else Ret (None, c2))"

subsection \<open>Layouts\<close>

text \<open>A keymap entry: keycode, normal and shifted character.\<close>

type_synonym tty_keymap_entry = "u32 \<times> u8 \<times> u8"

record tty_keyboard_layout =
  layout_name :: bytes
  keymap :: "tty_keymap_entry list"
  keymap_size :: u32

text \<open>
  The source file is UTF-8, so the letters outside ASCII are character constants of two bytes; the
  compiler takes such a constant as an \<open>int\<close> and the table keeps its low byte, the second one.
\<close>

definition tty_keyboard_layout_de_DE :: tty_keyboard_layout where
  "tty_keyboard_layout_de_DE = \<lparr>layout_name = str ''de_DE'', keymap =
    [(KEYBOARD_KEYCODE_GRAVE, asc CHR ''^'', 0xB0), (KEYBOARD_KEYCODE_1, asc CHR ''1'', asc CHR ''!''),
     (KEYBOARD_KEYCODE_2, asc CHR ''2'', 34), (KEYBOARD_KEYCODE_3, asc CHR ''3'', 0xA7),
     (KEYBOARD_KEYCODE_4, asc CHR ''4'', asc CHR ''$''), (KEYBOARD_KEYCODE_5, asc CHR ''5'', asc CHR ''%''),
     (KEYBOARD_KEYCODE_6, asc CHR ''6'', asc CHR ''&''), (KEYBOARD_KEYCODE_7, asc CHR ''7'', asc CHR ''/''),
     (KEYBOARD_KEYCODE_8, asc CHR ''8'', asc CHR ''(''), (KEYBOARD_KEYCODE_9, asc CHR ''9'', asc CHR '')''),
     (KEYBOARD_KEYCODE_0, asc CHR ''0'', asc CHR ''=''), (KEYBOARD_KEYCODE_MINUS, 0x9F, asc CHR ''?''),
     (KEYBOARD_KEYCODE_EQUAL, asc CHR ''`'', asc CHR ''`''), (KEYBOARD_KEYCODE_BACKSPACE, 8, 8),
     (KEYBOARD_KEYCODE_TAB, 9, 9), (KEYBOARD_KEYCODE_Q, asc CHR ''q'', asc CHR ''Q''),
     (KEYBOARD_KEYCODE_W, asc CHR ''w'', asc CHR ''W''), (KEYBOARD_KEYCODE_E, asc CHR ''e'', asc CHR ''E''),
     (KEYBOARD_KEYCODE_R, asc CHR ''r'', asc CHR ''R''), (KEYBOARD_KEYCODE_T, asc CHR ''t'', asc CHR ''T''),
     (KEYBOARD_KEYCODE_Y, asc CHR ''z'', asc CHR ''Z''), (KEYBOARD_KEYCODE_U, asc CHR ''u'', asc CHR ''U''),
     (KEYBOARD_KEYCODE_I, asc CHR ''i'', asc CHR ''I''), (KEYBOARD_KEYCODE_O, asc CHR ''o'', asc CHR ''O''),
     (KEYBOARD_KEYCODE_P, asc CHR ''p'', asc CHR ''P''), (KEYBOARD_KEYCODE_LEFT_BRACKET, 0xBC, 0x9C),
     (KEYBOARD_KEYCODE_RIGHT_BRACKET, asc CHR ''+'', asc CHR ''*''), (KEYBOARD_KEYCODE_ENTER, 10, 10),
     (KEYBOARD_KEYCODE_A, asc CHR ''a'', asc CHR ''A''), (KEYBOARD_KEYCODE_S, asc CHR ''s'', asc CHR ''S''),
     (KEYBOARD_KEYCODE_D, asc CHR ''d'', asc CHR ''D''), (KEYBOARD_KEYCODE_F, asc CHR ''f'', asc CHR ''F''),
     (KEYBOARD_KEYCODE_G, asc CHR ''g'', asc CHR ''G''), (KEYBOARD_KEYCODE_H, asc CHR ''h'', asc CHR ''H''),
     (KEYBOARD_KEYCODE_J, asc CHR ''j'', asc CHR ''J''), (KEYBOARD_KEYCODE_K, asc CHR ''k'', asc CHR ''K''),
     (KEYBOARD_KEYCODE_L, asc CHR ''l'', asc CHR ''L''), (KEYBOARD_KEYCODE_SEMICOLON, 0xB6, 0x96),
     (KEYBOARD_KEYCODE_APOSTROPHE, 0xA4, 0x84), (KEYBOARD_KEYCODE_BACKSLASH, asc CHR ''#'', 39),
     (KEYBOARD_KEYCODE_LEFT_SHIFT, 0, 0), (KEYBOARD_KEYCODE_Z, asc CHR ''y'', asc CHR ''Y''),
     (KEYBOARD_KEYCODE_X, asc CHR ''x'', asc CHR ''X''), (KEYBOARD_KEYCODE_C, asc CHR ''c'', asc CHR ''C''),
     (KEYBOARD_KEYCODE_V, asc CHR ''v'', asc CHR ''V''), (KEYBOARD_KEYCODE_B, asc CHR ''b'', asc CHR ''B''),
     (KEYBOARD_KEYCODE_N, asc CHR ''n'', asc CHR ''N''), (KEYBOARD_KEYCODE_M, asc CHR ''m'', asc CHR ''M''),
     (KEYBOARD_KEYCODE_COMMA, asc CHR '','', asc CHR '';''), (KEYBOARD_KEYCODE_PERIOD, asc CHR ''.'', asc CHR '':''),
     (KEYBOARD_KEYCODE_SLASH, asc CHR ''-'', asc CHR ''_''), (KEYBOARD_KEYCODE_SPACE, asc CHR '' '', asc CHR '' '')],
     keymap_size = 52\<rparr>"

fun tty_keymap_scan :: "tty_keymap_entry list \<Rightarrow> u32 \<Rightarrow> bool \<Rightarrow> u8" where
  "tty_keymap_scan [] keycode shifted = 0"
| "tty_keymap_scan ((k, normal, shift) # es) keycode shifted =
     (if k = keycode then if shifted then shift else normal else tty_keymap_scan es keycode shifted)"

definition tty_keycode_to_char :: "tty_keyboard_layout \<Rightarrow> u32 \<Rightarrow> bool \<Rightarrow> u8" where
  "tty_keycode_to_char layout keycode shifted =
     tty_keymap_scan (take (unat (keymap_size layout)) (keymap layout)) keycode shifted"

end
