(* ===== verification/Vga.thy ===== *)
theory Vga
  imports Ata
begin

text \<open>
  The VGA controller in text mode, \<open>kernel/src/drivers/video/vga\<close>, and the text part of the driver
  interface of \<open>kernel/include/device/video.h\<close>. The video memory is a map from cells to 16-bit entries,
  which reaches behind the visible screen; the ports are the parameter of the storage drivers.
\<close>

subsection \<open>Video modes\<close>

datatype vga_video_mode = VGA_80x25_16_TEXT | VGA_640X480X16_GFX | VGA_320X200X256_GFX

record vga_video_mode_descriptor =
  vm_mode :: vga_video_mode
  vm_config :: bytes
  vm_framebuffer :: u32
  vm_width :: u32
  vm_height :: u32
  vm_colors :: u32

definition VGA_80x25_16_TEXT_CONFIG :: bytes where
  "VGA_80x25_16_TEXT_CONFIG =
    [0x67, 0x03, 0x00, 0x03, 0x00, 0x02, 0x5F, 0x4F, 0x50, 0x82, 0x55, 0x81, 0xBF, 0x1F, 0x00, 0x4F,
     0x0D, 0x0E, 0x00, 0x00, 0x00, 0x50, 0x9C, 0x0E, 0x8F, 0x28, 0x1F, 0x96, 0xB9, 0xA3, 0xFF, 0x00,
     0x00, 0x00, 0x00, 0x00, 0x10, 0x0E, 0x00, 0xFF, 0x00, 0x01, 0x02, 0x03, 0x04, 0x05, 0x14, 0x07,
     0x38, 0x39, 0x3A, 0x3B, 0x3C, 0x3D, 0x3E, 0x3F, 0x0C, 0x00, 0x0F, 0x08, 0x00]"

definition VGA_320X200X256_GFX_CONFIG :: bytes where
  "VGA_320X200X256_GFX_CONFIG =
    [0x63, 0x03, 0x01, 0x0F, 0x00, 0x0E, 0x5F, 0x4F, 0x50, 0x82, 0x54, 0x80, 0xBF, 0x1F, 0x00, 0x41,
     0x00, 0x00, 0x00, 0x00, 0x00, 0x00, 0x9C, 0x0E, 0x8F, 0x28, 0x40, 0x96, 0xB9, 0xA3, 0xFF, 0x00,
     0x00, 0x00, 0x00, 0x00, 0x40, 0x05, 0x0F, 0xFF, 0x00, 0x01, 0x02, 0x03, 0x04, 0x05, 0x06, 0x07,
     0x08, 0x09, 0x0A, 0x0B, 0x0C, 0x0D, 0x0E, 0x0F, 0x41, 0x00, 0x0F, 0x00, 0x00]"

definition VGA_640X480X16_GFX_CONFIG :: bytes where
  "VGA_640X480X16_GFX_CONFIG =
    [0xE3, 0x03, 0x01, 0x0F, 0x00, 0x06, 0x5F, 0x4F, 0x50, 0x82, 0x54, 0x80, 0x0B, 0x3E, 0x00, 0x40,
     0x00, 0x00, 0x00, 0x00, 0x00, 0x59, 0xEA, 0x8C, 0xDF, 0x28, 0x00, 0xE7, 0x04, 0xE3, 0xFF, 0x00,
     0x00, 0x00, 0x00, 0x00, 0x00, 0x05, 0x0F, 0xFF, 0x00, 0x01, 0x02, 0x03, 0x04, 0x05, 0x06, 0x07,
     0x08, 0x09, 0x0A, 0x0B, 0x0C, 0x0D, 0x0E, 0x0F, 0x01, 0x00, 0x0F, 0x00, 0x00]"

definition VGA_TM_VIDEO_MEMORY :: u32 where "VGA_TM_VIDEO_MEMORY = 0xC00B8000"
definition VGA_GFX_VIDEO_MEMORY :: u32 where "VGA_GFX_VIDEO_MEMORY = 0xC00A0000"

fun VGA_VIDEO_MODE_DESCRIPTOR_TABLE :: "vga_video_mode \<Rightarrow> vga_video_mode_descriptor" where
  "VGA_VIDEO_MODE_DESCRIPTOR_TABLE VGA_80x25_16_TEXT =
     \<lparr>vm_mode = VGA_80x25_16_TEXT, vm_config = VGA_80x25_16_TEXT_CONFIG, vm_framebuffer = VGA_TM_VIDEO_MEMORY,
      vm_width = 80, vm_height = 25, vm_colors = 16\<rparr>"
| "VGA_VIDEO_MODE_DESCRIPTOR_TABLE VGA_320X200X256_GFX =
     \<lparr>vm_mode = VGA_320X200X256_GFX, vm_config = VGA_320X200X256_GFX_CONFIG, vm_framebuffer = VGA_GFX_VIDEO_MEMORY,
      vm_width = 320, vm_height = 200, vm_colors = 256\<rparr>"
| "VGA_VIDEO_MODE_DESCRIPTOR_TABLE VGA_640X480X16_GFX =
     \<lparr>vm_mode = VGA_640X480X16_GFX, vm_config = VGA_640X480X16_GFX_CONFIG, vm_framebuffer = VGA_GFX_VIDEO_MEMORY,
      vm_width = 640, vm_height = 480, vm_colors = 16\<rparr>"

record 'c vga =
  vga_tm_video_memory :: "u32 \<Rightarrow> u16"
  vga_current_video_mode :: "vga_video_mode_descriptor option"
  vga_hw :: 'c

subsection \<open>Registers\<close>

definition VGA_GC_ADDRESS_REGISTER_PORT :: u16 where "VGA_GC_ADDRESS_REGISTER_PORT = 0x3CE"
definition VGA_GC_DATA_REGISTER_PORT :: u16 where "VGA_GC_DATA_REGISTER_PORT = 0x3CF"
definition VGA_SEQ_ADDRESS_REGISTER_PORT :: u16 where "VGA_SEQ_ADDRESS_REGISTER_PORT = 0x3C4"
definition VGA_SEQ_DATA_REGISTER_PORT :: u16 where "VGA_SEQ_DATA_REGISTER_PORT = 0x3C5"
definition VGA_CRTC_ADDRESS_REGISTER_PORT :: u16 where "VGA_CRTC_ADDRESS_REGISTER_PORT = 0x3D4"
definition VGA_CRTC_DATA_REGISTER_PORT :: u16 where "VGA_CRTC_DATA_REGISTER_PORT = 0x3D5"
definition VGA_AC_ADDRESS_REGISTER_PORT :: u16 where "VGA_AC_ADDRESS_REGISTER_PORT = 0x3C0"
definition VGA_AC_ATTRIBUTE_ADDRESS_REGISTER :: u16 where "VGA_AC_ATTRIBUTE_ADDRESS_REGISTER = 0x3C0"
definition VGA_MISC_OUTPUT_REGISTER_WRITE_PORT :: u16 where "VGA_MISC_OUTPUT_REGISTER_WRITE_PORT = 0x3C2"
definition VGA_INPUT_STATUS_1_REGISTER_COLOR_READ_PORT :: u16 where
  "VGA_INPUT_STATUS_1_REGISTER_COLOR_READ_PORT = 0x3DA"
definition VGA_NUM_SEQ_REGISTERS :: nat where "VGA_NUM_SEQ_REGISTERS = 5"
definition VGA_NUM_CRTC_REGISTERS :: nat where "VGA_NUM_CRTC_REGISTERS = 25"
definition VGA_NUM_GC_REGISTERS :: nat where "VGA_NUM_GC_REGISTERS = 9"
definition VGA_NUM_AC_REGISTERS :: nat where "VGA_NUM_AC_REGISTERS = 21"
definition VGA_CRTC_CURSOR_START_REGISTER :: u8 where "VGA_CRTC_CURSOR_START_REGISTER = 0x0A"
definition VGA_CRTC_CURSOR_END_REGISTER :: u8 where "VGA_CRTC_CURSOR_END_REGISTER = 0x0B"
definition VGA_CRTC_CURSOR_LOCATION_HIGH_REGISTER :: u8 where "VGA_CRTC_CURSOR_LOCATION_HIGH_REGISTER = 0x0E"
definition VGA_CRTC_CURSOR_LOCATION_LOW_REGISTER :: u8 where "VGA_CRTC_CURSOR_LOCATION_LOW_REGISTER = 0x0F"

text \<open>A register is selected by its index at the address port and read or written at the data port.\<close>

definition vga_out :: "'c ports \<Rightarrow> u16 \<Rightarrow> u16 \<Rightarrow> u8 \<Rightarrow> u8 \<Rightarrow> 'c \<Rightarrow> 'c" where
  "vga_out io address data index value c = outb io data value (outb io address index c)"

fun vga_out_registers :: "'c ports \<Rightarrow> u16 \<Rightarrow> u16 \<Rightarrow> u8 \<Rightarrow> bytes \<Rightarrow> 'c \<Rightarrow> 'c" where
  "vga_out_registers io address data index [] c = c"
| "vga_out_registers io address data index (b # bs) c =
     vga_out_registers io address data (index + 1) bs (vga_out io address data index b c)"

fun vga_out_attributes :: "'c ports \<Rightarrow> u8 \<Rightarrow> bytes \<Rightarrow> 'c \<Rightarrow> 'c" where
  "vga_out_attributes io index [] c = c"
| "vga_out_attributes io index (b # bs) c =
     (let (status, c1) = inb io VGA_INPUT_STATUS_1_REGISTER_COLOR_READ_PORT c
      in vga_out_attributes io (index + 1) bs
           (vga_out io VGA_AC_ADDRESS_REGISTER_PORT VGA_AC_ATTRIBUTE_ADDRESS_REGISTER index b c1))"

text \<open>The configuration is read from front to back; its CRT part is changed in place (the result).\<close>

definition vga_init_registers :: "'c ports \<Rightarrow> bytes \<Rightarrow> 'c \<Rightarrow> (bytes \<times> 'c) kres" where
  "vga_init_registers io config c =
     (if length config < 1 + VGA_NUM_SEQ_REGISTERS + VGA_NUM_CRTC_REGISTERS + VGA_NUM_GC_REGISTERS + VGA_NUM_AC_REGISTERS
      then Fault
      else let c1 = outb io VGA_MISC_OUTPUT_REGISTER_WRITE_PORT (config ! 0) c;
               seq = take VGA_NUM_SEQ_REGISTERS (drop 1 config);
               c2 = vga_out_registers io VGA_SEQ_ADDRESS_REGISTER_PORT VGA_SEQ_DATA_REGISTER_PORT 0 seq c1;
               p = 1 + VGA_NUM_SEQ_REGISTERS;
               (r3, c3) = inb io VGA_CRTC_DATA_REGISTER_PORT (outb io VGA_CRTC_ADDRESS_REGISTER_PORT 0x03 c2);
               c4 = outb io VGA_CRTC_DATA_REGISTER_PORT (r3 OR 0x80) c3;
               (r11, c5) = inb io VGA_CRTC_DATA_REGISTER_PORT (outb io VGA_CRTC_ADDRESS_REGISTER_PORT 0x11 c4);
               c6 = outb io VGA_CRTC_DATA_REGISTER_PORT (r11 AND NOT 0x80) c5;
               config1 = config[p + 0x03 := config ! (p + 0x03) OR 0x80];
               config2 = config1[p + 0x11 := config1 ! (p + 0x11) AND NOT 0x80];
               crtc = take VGA_NUM_CRTC_REGISTERS (drop p config2);
               c7 = vga_out_registers io VGA_CRTC_ADDRESS_REGISTER_PORT VGA_CRTC_DATA_REGISTER_PORT 0 crtc c6;
               gc = take VGA_NUM_GC_REGISTERS (drop (p + VGA_NUM_CRTC_REGISTERS) config2);
               c8 = vga_out_registers io VGA_GC_ADDRESS_REGISTER_PORT VGA_GC_DATA_REGISTER_PORT 0 gc c7;
               ac = take VGA_NUM_AC_REGISTERS (drop (p + VGA_NUM_CRTC_REGISTERS + VGA_NUM_GC_REGISTERS) config2);
               c9 = vga_out_attributes io 0 ac c8;
               (status, c10) = inb io VGA_INPUT_STATUS_1_REGISTER_COLOR_READ_PORT c9
           in Ret (config2, outb io VGA_AC_ADDRESS_REGISTER_PORT 0x20 c10))"

definition vga_probe :: "'c ports \<Rightarrow> 'c \<Rightarrow> bool \<times> 'c" where
  "vga_probe io c =
     (let (r, c1) = inb io VGA_GC_ADDRESS_REGISTER_PORT (outb io VGA_GC_ADDRESS_REGISTER_PORT 0x0F c)
      in (r = 0x0F, c1))"

definition vga_tm_probe :: "'c vga \<Rightarrow> bool" where
  "vga_tm_probe v = (case vga_current_video_mode v of None \<Rightarrow> False | Some m \<Rightarrow> vm_mode m = VGA_80x25_16_TEXT)"

definition vga_gfx_probe :: "'c vga \<Rightarrow> bool" where
  "vga_gfx_probe v = (case vga_current_video_mode v of None \<Rightarrow> False | Some m \<Rightarrow> vm_mode m = VGA_320X200X256_GFX)"

subsection \<open>Text mode\<close>

definition VGA_TM_WHITE :: u8 where "VGA_TM_WHITE = 0x0F"
definition VGA_TM_BLACK :: u8 where "VGA_TM_BLACK = 0x00"

definition VGA_TM_ENTRY :: "u8 \<Rightarrow> u8 \<Rightarrow> u8 \<Rightarrow> u16" where
  "VGA_TM_ENTRY ch fgcolor bgcolor =
     ucast ch OR push_bit 8 (push_bit 4 (ucast (bgcolor AND 0x0F)) OR ucast (fgcolor AND 0x0F))"

text \<open>A dereference of \<open>vga_current_video_mode\<close>; before any mode is set it is NULL.\<close>

definition with_mode :: "'c vga \<Rightarrow> (vga_video_mode_descriptor \<Rightarrow> 'a) \<Rightarrow> 'a kres" where
  "with_mode v f = kbind (or_fault (vga_current_video_mode v)) (\<lambda>m. Ret (f m))"

definition set_cell :: "u32 \<Rightarrow> u16 \<Rightarrow> 'c vga \<Rightarrow> 'c vga" where
  "set_cell cell entry v = v\<lparr>vga_tm_video_memory := (vga_tm_video_memory v)(cell := entry)\<rparr>"

definition vga_tm_total_rows :: "'c vga \<Rightarrow> u32 kres" where
  "vga_tm_total_rows v = with_mode v vm_height"

definition vga_tm_total_columns :: "'c vga \<Rightarrow> u32 kres" where
  "vga_tm_total_columns v = with_mode v vm_width"

definition vga_tm_fill :: "u8 \<Rightarrow> 'c vga \<Rightarrow> 'c vga kres" where
  "vga_tm_fill bgcolor v =
     (let entry = VGA_TM_ENTRY 0x00 VGA_TM_WHITE bgcolor
      in with_mode v (\<lambda>m. fold (\<lambda>cell. set_cell (of_nat cell) entry) [0..<unat (vm_width m * vm_height m)] v))"

definition vga_tm_write :: "u32 \<Rightarrow> u8 \<Rightarrow> u8 \<Rightarrow> u8 \<Rightarrow> 'c vga \<Rightarrow> (int \<times> 'c vga) kres" where
  "vga_tm_write cell ch fgcolor bgcolor v =
     with_mode v (\<lambda>m. if vm_width m * vm_height m \<le> cell then (-1, v)
                       else (0, set_cell cell (VGA_TM_ENTRY ch fgcolor bgcolor) v))"

fun vga_tm_strwrite :: "u32 \<Rightarrow> bytes \<Rightarrow> u8 \<Rightarrow> u8 \<Rightarrow> 'c vga \<Rightarrow> (int \<times> 'c vga) kres" where
  "vga_tm_strwrite cell [] fgcolor bgcolor v = Ret (0, v)"
| "vga_tm_strwrite cell (c # cs) fgcolor bgcolor v =
     kbind (vga_tm_write cell c fgcolor bgcolor v) (\<lambda>(done', v1).
     if done' < 0 then Ret (done', v1) else vga_tm_strwrite (cell + 1) cs fgcolor bgcolor v1)"

text \<open>The distance of the copy is the literal 80, whatever the width; the indices fit 16 bits in text mode.\<close>

definition vga_tm_scroll :: "u8 \<Rightarrow> u8 \<Rightarrow> 'c vga \<Rightarrow> 'c vga kres" where
  "vga_tm_scroll fgcolor bgcolor v =
     with_mode v (\<lambda>m.
       let v1 = fold (\<lambda>index v. set_cell (of_nat index - 80) (vga_tm_video_memory v (of_nat index)) v)
                  [unat (vm_width m)..<unat (vm_width m * vm_height m)] v
       in fold (\<lambda>index. set_cell (of_nat index - 80) (VGA_TM_ENTRY (asc CHR '' '') fgcolor bgcolor))
            [unat (vm_width m * vm_height m)..<unat (vm_width m * (vm_height m + 1))] v1)"

definition vga_tm_move_cursor :: "'c ports \<Rightarrow> u32 \<Rightarrow> 'c vga \<Rightarrow> (int \<times> 'c vga) kres" where
  "vga_tm_move_cursor io cell v =
     with_mode v (\<lambda>m. if vm_width m * vm_height m \<le> cell then (-1, v)
       else (0, v\<lparr>vga_hw :=
         vga_out io VGA_CRTC_ADDRESS_REGISTER_PORT VGA_CRTC_DATA_REGISTER_PORT
           VGA_CRTC_CURSOR_LOCATION_LOW_REGISTER (ucast (cell AND 0xFF))
        (vga_out io VGA_CRTC_ADDRESS_REGISTER_PORT VGA_CRTC_DATA_REGISTER_PORT
           VGA_CRTC_CURSOR_LOCATION_HIGH_REGISTER (ucast (drop_bit 8 cell)) (vga_hw v))\<rparr>))"

definition vga_tm_enable_cursor :: "'c ports \<Rightarrow> u8 \<Rightarrow> u8 \<Rightarrow> 'c vga \<Rightarrow> 'c vga" where
  "vga_tm_enable_cursor io start end' v =
     (let c1 = outb io VGA_CRTC_ADDRESS_REGISTER_PORT VGA_CRTC_CURSOR_START_REGISTER (vga_hw v);
          (r1, c2) = inb io VGA_CRTC_DATA_REGISTER_PORT c1;
          c3 = outb io VGA_CRTC_DATA_REGISTER_PORT ((r1 AND 0xC0) OR start) c2;
          c4 = outb io VGA_CRTC_ADDRESS_REGISTER_PORT VGA_CRTC_CURSOR_END_REGISTER c3;
          (r2, c5) = inb io VGA_CRTC_DATA_REGISTER_PORT c4
      in v\<lparr>vga_hw := outb io VGA_CRTC_DATA_REGISTER_PORT ((r2 AND 0xE0) OR end') c5\<rparr>)"

definition vga_tm_disable_cursor :: "'c ports \<Rightarrow> 'c vga \<Rightarrow> 'c vga" where
  "vga_tm_disable_cursor io v =
     v\<lparr>vga_hw := vga_out io VGA_CRTC_ADDRESS_REGISTER_PORT VGA_CRTC_DATA_REGISTER_PORT
        VGA_CRTC_CURSOR_START_REGISTER 0x20 (vga_hw v)\<rparr>"

definition vga_tm_init :: "'c ports \<Rightarrow> 'c vga \<Rightarrow> 'c vga kres" where
  "vga_tm_init io v = kbind (vga_tm_fill VGA_TM_BLACK v) (\<lambda>v1. Ret (vga_tm_enable_cursor io 0 15 v1))"

text \<open>Setting a mode without probing, as the panic screen does.\<close>

definition vga_init_no_probe :: "'c ports \<Rightarrow> vga_video_mode \<Rightarrow> 'c vga \<Rightarrow> 'c vga kres" where
  "vga_init_no_probe io mode v =
     (let descriptor = VGA_VIDEO_MODE_DESCRIPTOR_TABLE mode
      in kbind (vga_init_registers io (vm_config descriptor) (vga_hw v)) (\<lambda>(config, c).
         Ret (v\<lparr>vga_hw := c, vga_current_video_mode := Some (descriptor\<lparr>vm_config := config\<rparr>)\<rparr>)))"

subsection \<open>The driver interface\<close>

text \<open>The text part of \<open>struct video_driver\<close>, functions on a state of the driver, and what \<open>vga_init\<close> enters.\<close>

record 's video_driver =
  tm_probe :: "'s \<Rightarrow> bool"
  tm_total_rows :: "'s \<Rightarrow> u32 kres"
  tm_total_columns :: "'s \<Rightarrow> u32 kres"
  tm_write :: "u32 \<Rightarrow> u8 \<Rightarrow> u8 \<Rightarrow> u8 \<Rightarrow> 's \<Rightarrow> (int \<times> 's) kres"
  tm_scroll :: "u8 \<Rightarrow> u8 \<Rightarrow> 's \<Rightarrow> 's kres"
  tm_move_cursor :: "u32 \<Rightarrow> 's \<Rightarrow> (int \<times> 's) kres"
  tm_enable_cursor :: "u8 \<Rightarrow> u8 \<Rightarrow> 's \<Rightarrow> 's"
  tm_disable_cursor :: "'s \<Rightarrow> 's"

definition vga_driver :: "'c ports \<Rightarrow> 'c vga video_driver" where
  "vga_driver io =
     \<lparr>tm_probe = vga_tm_probe, tm_total_rows = vga_tm_total_rows, tm_total_columns = vga_tm_total_columns,
      tm_write = vga_tm_write, tm_scroll = vga_tm_scroll, tm_move_cursor = vga_tm_move_cursor io,
      tm_enable_cursor = vga_tm_enable_cursor io, tm_disable_cursor = vga_tm_disable_cursor io\<rparr>"

text \<open>
  What a text screen promises: a visible screen of rows and columns, which writing changes in one
  cell and scrolling moves up by a row; nothing outside the screen changes.
\<close>

locale text_screen =
  fixes drv :: "'s video_driver" and inv :: "'s \<Rightarrow> bool" and screen :: "'s \<Rightarrow> u16 list" and outside :: "'s \<Rightarrow> 'o"
    and rows columns :: u32
  assumes size_pos: "0 < rows" "0 < columns" and size_small: "unat rows * unat columns < 65536"
    and probe: "inv s \<Longrightarrow> tm_probe drv s"
    and totals: "inv s \<Longrightarrow> tm_total_rows drv s = Ret rows" "inv s \<Longrightarrow> tm_total_columns drv s = Ret columns"
    and screen_length: "inv s \<Longrightarrow> length (screen s) = unat rows * unat columns"
    and write_cell: "inv s \<Longrightarrow> unat cell < unat rows * unat columns \<Longrightarrow> returns (tm_write drv cell ch fg bg s) (\<lambda>(e, s').
      inv s' \<and> screen s' = (screen s)[unat cell := VGA_TM_ENTRY ch fg bg] \<and> outside s' = outside s)"
    and scroll_up: "inv s \<Longrightarrow> returns (tm_scroll drv fg bg s) (\<lambda>s'. inv s' \<and> outside s' = outside s \<and>
      screen s' = drop (unat columns) (screen s) @ replicate (unat columns) (VGA_TM_ENTRY (asc CHR '' '') fg bg))"
    and move: "inv s \<Longrightarrow> returns (tm_move_cursor drv cell s) (\<lambda>(e, s').
      inv s' \<and> screen s' = screen s \<and> outside s' = outside s)"
    and cursor: "inv s \<Longrightarrow> inv (tm_enable_cursor drv a b s) \<and> screen (tm_enable_cursor drv a b s) = screen s \<and>
      outside (tm_enable_cursor drv a b s) = outside s"
    "inv s \<Longrightarrow> inv (tm_disable_cursor drv s) \<and> screen (tm_disable_cursor drv s) = screen s \<and>
      outside (tm_disable_cursor drv s) = outside s"

text \<open>The VGA controller in its 80x25 mode provides one.\<close>

definition vga_text_inv :: "'c vga \<Rightarrow> bool" where
  "vga_text_inv v \<longleftrightarrow> (\<exists>m. vga_current_video_mode v = Some m \<and> vm_mode m = VGA_80x25_16_TEXT \<and>
     vm_width m = 80 \<and> vm_height m = 25)"

definition vga_screen :: "'c vga \<Rightarrow> u16 list" where
  "vga_screen v = map (\<lambda>i. vga_tm_video_memory v (of_nat i)) [0..<2000]"

definition vga_outside :: "'c vga \<Rightarrow> u32 \<Rightarrow> u16 option" where
  "vga_outside v cell = (if unat cell < 2000 then None else Some (vga_tm_video_memory v cell))"

lemma set_cell_simps [simp]:
  "vga_current_video_mode (set_cell i e v) = vga_current_video_mode v"
  "vga_tm_video_memory (set_cell i e v) = (vga_tm_video_memory v)(i := e)"
  "vga_hw (set_cell i e v) = vga_hw v"
  by (simp_all add: set_cell_def)

lemma fold_set_cell:
  "vga_current_video_mode (fold (\<lambda>i v. set_cell (f i) (g i v) v) is v) = vga_current_video_mode v"
  by (induction "is" arbitrary: v) simp_all

text \<open>Writing a range of cells moved down by a fixed distance, front to back.\<close>

lemma cell_of_nat:
  assumes "d \<le> b" and "b < 4294967296"
  shows "(of_nat b - of_nat d :: u32) = c \<longleftrightarrow> b = unat c + d" and "unat (of_nat b :: u32) = b"
proof -
  have "of_nat b - of_nat d = (of_nat (b - d) :: u32)" using assms(1) by (simp add: of_nat_diff)
  moreover have "unat (of_nat (b - d) :: u32) = b - d" using assms(2) by (intro unat_of_nat_u32) simp
  ultimately have "(of_nat b - of_nat d = c) = (b - d = unat c)" by (simp add: u32_eq_iff)
  then show "(of_nat b - of_nat d :: u32) = c \<longleftrightarrow> b = unat c + d" using assms(1) by linarith
  show "unat (of_nat b :: u32) = b" using assms(2) by (rule unat_of_nat_u32)
qed

lemma fold_shift:
  assumes "d \<le> a" and "0 < d" and "b < 4294967296"
  shows "vga_tm_video_memory (fold (\<lambda>i v. set_cell (of_nat i - of_nat d) (vga_tm_video_memory v (of_nat i)) v) [a..<b] v) c =
    (if a \<le> unat c + d \<and> unat c + d < b then vga_tm_video_memory v (of_nat (unat c + d)) else vga_tm_video_memory v c)"
  using assms
proof (induction b arbitrary: c)
  case (Suc b)
  let ?w = "fold (\<lambda>i v. set_cell (of_nat i - of_nat d) (vga_tm_video_memory v (of_nat i)) v) [a..<b] v"
  show ?case
  proof (cases "a \<le> b")
    case True
    have b: "d \<le> b" "b < 4294967296" using True Suc.prems by simp_all
    note n = cell_of_nat [OF b]
    have IH: "vga_tm_video_memory ?w c = (if a \<le> unat c + d \<and> unat c + d < b then vga_tm_video_memory v (of_nat (unat c + d))
        else vga_tm_video_memory v c)" for c
      by (rule Suc.IH) (use Suc.prems b in simp_all)
    have top: "vga_tm_video_memory ?w (of_nat b) = vga_tm_video_memory v (of_nat b)" by (simp add: IH n(2))
    have "vga_tm_video_memory (fold (\<lambda>i v. set_cell (of_nat i - of_nat d) (vga_tm_video_memory v (of_nat i)) v) [a..<Suc b] v) c =
        (if of_nat b - of_nat d = c then vga_tm_video_memory v (of_nat b) else vga_tm_video_memory ?w c)"
      using True by (simp add: top eq_commute)
    also have "\<dots> = (if a \<le> unat c + d \<and> unat c + d < Suc b then vga_tm_video_memory v (of_nat (unat c + d))
        else vga_tm_video_memory v c)"
    proof (cases "b = unat c + d")
      case bc: True
      then have "of_nat b - of_nat d = c" using n(1) by blast
      then show ?thesis using bc True by (simp only: if_True) simp
    next
      case False
      then have "of_nat b - of_nat d \<noteq> c" using n(1) by blast
      moreover have "unat c + d < Suc b \<longleftrightarrow> unat c + d < b" using False by linarith
      ultimately show ?thesis by (simp only: if_False IH)
    qed
    finally show ?thesis .
  next
    case False
    then have "\<not> (a \<le> unat c + d \<and> unat c + d < Suc b)" by linarith
    then show ?thesis using False by (simp only: if_False) simp
  qed
qed simp

lemma fold_fill:
  assumes "d \<le> a" and "b < 4294967296"
  shows "vga_tm_video_memory (fold (\<lambda>i. set_cell (of_nat i - of_nat d) e) [a..<b] v) c =
    (if a \<le> unat c + d \<and> unat c + d < b then e else vga_tm_video_memory v c)"
  using assms
proof (induction b)
  case (Suc b)
  show ?case
  proof (cases "a \<le> b")
    case True
    have b: "d \<le> b" "b < 4294967296" using True Suc.prems by simp_all
    have IH: "vga_tm_video_memory (fold (\<lambda>i. set_cell (of_nat i - of_nat d) e) [a..<b] v) c =
        (if a \<le> unat c + d \<and> unat c + d < b then e else vga_tm_video_memory v c)"
      by (rule Suc.IH) (use Suc.prems b in simp_all)
    have "vga_tm_video_memory (fold (\<lambda>i. set_cell (of_nat i - of_nat d) e) [a..<Suc b] v) c =
        (if of_nat b - of_nat d = c then e else
          vga_tm_video_memory (fold (\<lambda>i. set_cell (of_nat i - of_nat d) e) [a..<b] v) c)"
      using True by (simp add: eq_commute)
    also have "\<dots> = (if a \<le> unat c + d \<and> unat c + d < Suc b then e else vga_tm_video_memory v c)"
      unfolding cell_of_nat(1) [OF b] IH using True by (auto simp: less_Suc_eq)
    finally show ?thesis .
  next
    case False
    then have "\<not> (a \<le> unat c + d \<and> unat c + d < Suc b)" by linarith
    then show ?thesis using False by (simp only: if_False) simp
  qed
qed simp

lemma vga_screen_write:
  assumes "unat cell < 2000"
  shows "vga_screen (set_cell cell e v) = (vga_screen v)[unat cell := e]" and "vga_outside (set_cell cell e v) = vga_outside v"
proof -
  have "(of_nat i :: u32) = cell \<longleftrightarrow> i = unat cell" if "i < 2000" for i
    using that unat_of_nat_u32 [of i] by (auto simp: u32_eq_iff)
  then show "vga_screen (set_cell cell e v) = (vga_screen v)[unat cell := e]"
    using assms by (intro nth_equalityI) (auto simp: vga_screen_def nth_list_update)
  show "vga_outside (set_cell cell e v) = vga_outside v" using assms by (auto simp: vga_outside_def fun_eq_iff)
qed

lemma vga_scroll_memory:
  assumes "vga_text_inv v"
  shows "\<exists>v'. vga_tm_scroll fg bg v = Ret v' \<and> vga_current_video_mode v' = vga_current_video_mode v \<and>
    (\<forall>c. vga_tm_video_memory v' c = (if unat c < 1920 then vga_tm_video_memory v (of_nat (unat c + 80))
       else if unat c < 2000 then VGA_TM_ENTRY (asc CHR '' '') fg bg else vga_tm_video_memory v c))"
proof -
  obtain m where m: "vga_current_video_mode v = Some m" "vm_width m = 80" "vm_height m = 25"
    using assms by (auto simp: vga_text_inv_def)
  let ?v1 = "fold (\<lambda>i v. set_cell (of_nat i - of_nat 80) (vga_tm_video_memory v (of_nat i)) v) [80..<2000] v"
  let ?v2 = "fold (\<lambda>i. set_cell (of_nat i - of_nat 80) (VGA_TM_ENTRY (asc CHR '' '') fg bg)) [2000..<2080] ?v1"
  have u: "unat (80 :: u32) = 80" "unat (80 * 25 :: u32) = 2000" "unat (80 * (25 + 1) :: u32) = 2080" by simp_all
  have "vga_tm_scroll fg bg v = Ret ?v2"
    unfolding vga_tm_scroll_def with_mode_def Let_def m or_simps kbind.simps u by (simp only: of_nat_numeral)
  moreover have "vga_current_video_mode ?v2 = vga_current_video_mode v"
    by (simp only: fold_set_cell)
  moreover have "vga_tm_video_memory ?v2 c = (if unat c < 1920 then vga_tm_video_memory v (of_nat (unat c + 80))
       else if unat c < 2000 then VGA_TM_ENTRY (asc CHR '' '') fg bg else vga_tm_video_memory v c)" for c
  proof -
    have 2: "vga_tm_video_memory ?v2 c =
        (if 2000 \<le> unat c + 80 \<and> unat c + 80 < 2080 then VGA_TM_ENTRY (asc CHR '' '') fg bg else vga_tm_video_memory ?v1 c)"
      by (rule fold_fill) simp_all
    have 1: "vga_tm_video_memory ?v1 c =
        (if 80 \<le> unat c + 80 \<and> unat c + 80 < 2000 then vga_tm_video_memory v (of_nat (unat c + 80)) else vga_tm_video_memory v c)"
      by (rule fold_shift) simp_all
    have "2000 \<le> unat c + 80 \<and> unat c + 80 < 2080 \<longleftrightarrow> 1920 \<le> unat c \<and> unat c < 2000"
      and "80 \<le> unat c + 80 \<and> unat c + 80 < 2000 \<longleftrightarrow> unat c < 1920" by linarith+
    then show ?thesis unfolding 2 1 by (simp del: of_nat_add)
  qed
  ultimately show ?thesis by blast
qed

lemma vga_screen_scroll:
  assumes "vga_text_inv v"
  shows "returns (vga_tm_scroll fg bg v) (\<lambda>v'. vga_text_inv v' \<and> vga_outside v' = vga_outside v \<and>
    vga_screen v' = drop 80 (vga_screen v) @ replicate 80 (VGA_TM_ENTRY (asc CHR '' '') fg bg))"
proof -
  obtain v' where v': "vga_tm_scroll fg bg v = Ret v'" "vga_current_video_mode v' = vga_current_video_mode v"
    and c: "\<And>c. vga_tm_video_memory v' c = (if unat c < 1920 then vga_tm_video_memory v (of_nat (unat c + 80))
       else if unat c < 2000 then VGA_TM_ENTRY (asc CHR '' '') fg bg else vga_tm_video_memory v c)"
    using vga_scroll_memory [OF assms] by blast
  have "vga_screen v' = drop 80 (vga_screen v) @ replicate 80 (VGA_TM_ENTRY (asc CHR '' '') fg bg)"
  proof (rule nth_equalityI)
    fix i assume "i < length (vga_screen v')"
    then have i: "i < 2000" by (simp add: vga_screen_def)
    then show "vga_screen v' ! i = (drop 80 (vga_screen v) @ replicate 80 (VGA_TM_ENTRY (asc CHR '' '') fg bg)) ! i"
      using unat_of_nat_u32 [of i] by (simp add: vga_screen_def c nth_append add.commute)
  qed (simp add: vga_screen_def)
  moreover have "vga_outside v' = vga_outside v" by (auto simp: vga_outside_def c fun_eq_iff)
  ultimately show ?thesis using assms v' by (simp add: vga_text_inv_def)
qed

interpretation vga: text_screen "vga_driver io" vga_text_inv vga_screen vga_outside 25 80 for io :: "'c ports"
proof (unfold_locales, goal_cases)
  case (8 s cell ch fg bg)
  then show ?case using vga_screen_write [of cell "VGA_TM_ENTRY ch fg bg" s]
    by (auto simp: vga_driver_def vga_tm_write_def with_mode_def vga_text_inv_def word_le_nat_alt)
next
  case (9 s fg bg)
  then show ?case using vga_screen_scroll [of s fg bg] by (simp add: vga_driver_def)
qed (auto simp: vga_driver_def vga_text_inv_def vga_tm_probe_def vga_tm_total_rows_def vga_tm_total_columns_def with_mode_def
    vga_screen_def vga_outside_def vga_tm_move_cursor_def vga_tm_enable_cursor_def vga_tm_disable_cursor_def Let_def
    case_prod_beta fun_eq_iff)

text \<open>
  Each of the mode tables has an entry for every register: initialising the controller never reads
  behind its table, and the new mode is in force.
\<close>

lemma vga_mode_set:
  "returns (vga_init_no_probe io mode v) (\<lambda>v'. (mode = VGA_80x25_16_TEXT \<longrightarrow> vga_text_inv v') \<and>
     (\<exists>m. vga_current_video_mode v' = Some m \<and> vm_mode m = mode) \<and> vga_tm_video_memory v' = vga_tm_video_memory v)"
  by (cases mode) (simp_all add: vga_init_no_probe_def vga_init_registers_def VGA_NUM_SEQ_REGISTERS_def
      VGA_NUM_CRTC_REGISTERS_def VGA_NUM_GC_REGISTERS_def VGA_NUM_AC_REGISTERS_def VGA_80x25_16_TEXT_CONFIG_def
      VGA_640X480X16_GFX_CONFIG_def VGA_320X200X256_GFX_CONFIG_def Let_def case_prod_beta vga_text_inv_def)

end
