(* ===== verification/Tty.thy ===== *)
theory Tty
  imports Circular_Buffer Keyboard Vga Ata_Disk
begin

text \<open>
  The terminal, \<open>kernel/src/io/tty.c\<close>: the escape-sequence parser, rendering, the keyboard listener and
  line input. A function on a \<open>tty\<close> returns it updated, with the state of the video driver.
\<close>

subsection \<open>State\<close>

datatype tty_ansi_state = TTY_ANSI_STATE_NORMAL | TTY_ANSI_STATE_ESC | TTY_ANSI_STATE_CSI

definition TTY_ANSI_MAX_PARAMS :: u32 where "TTY_ANSI_MAX_PARAMS = 8"
definition TTY_BUFFER_SIZE :: u32 where "TTY_BUFFER_SIZE = 1024"
definition TTY_WHITE :: u8 where "TTY_WHITE = 0x0F"
definition TTY_BLACK :: u8 where "TTY_BLACK = 0x00"
definition sizeof_tty :: u32 where "sizeof_tty = 84"

record tty =
  tty_addr :: u32
  tty_rows :: u32
  tty_columns :: u32
  cursor_x :: u32
  cursor_y :: u32
  fgcolor :: u8
  bgcolor :: u8
  tty_input :: circular_buffer
  tty_output :: circular_buffer
  tty_layout :: tty_keyboard_layout
  ansi_state :: tty_ansi_state
  ansi_params :: "u32 list"
  ansi_param_count :: u32
  ansi_current :: u32

text \<open>The cell of a position and the cursor, \<open>cursor_y * columns + cursor_x\<close>.\<close>

definition tty_cell :: "tty \<Rightarrow> u32 \<Rightarrow> u32 \<Rightarrow> u32" where
  "tty_cell t y x = y * tty_columns t + x"

definition tty_move_cursor :: "'s video_driver \<Rightarrow> tty \<Rightarrow> 's \<Rightarrow> (tty \<times> 's) kres" where
  "tty_move_cursor drv t s =
     kbind (tm_move_cursor drv (tty_cell t (cursor_y t) (cursor_x t)) s) (\<lambda>(e, s1). Ret (t, s1))"

definition tty_write :: "'s video_driver \<Rightarrow> u8 \<Rightarrow> u32 \<Rightarrow> u32 \<Rightarrow> tty \<Rightarrow> 's \<Rightarrow> 's kres" where
  "tty_write drv ch y x t s =
     kbind (tm_write drv (tty_cell t y x) ch (fgcolor t) (bgcolor t) s) (\<lambda>(e, s1). Ret s1)"

subsection \<open>Rendering\<close>

lemma u32_count_up:
  assumes "x < (c :: u32)"
  shows "unat (x + 1) = unat x + 1" and "unat c - unat (x + 1) < unat c - unat x"
proof -
  have "unat x + 1 < 4294967296" using assms unat_u32_less [of c] unfolding u32_less_iff by linarith
  then show "unat (x + 1) = unat x + 1" by (simp add: unat_u32_add_small)
  then show "unat c - unat (x + 1) < unat c - unat x" using assms by (simp add: u32_less_iff)
qed

text \<open>The loops of \<open>tty_clear\<close> and of the command \<open>K\<close>: blanks from a column to the end of a line.\<close>

function tty_blank_line :: "'s video_driver \<Rightarrow> u32 \<Rightarrow> u32 \<Rightarrow> tty \<Rightarrow> 's \<Rightarrow> 's kres" where
  "tty_blank_line drv y x t s =
     (if x < tty_columns t
      then kbind (tty_write drv (asc CHR '' '') y x t s) (\<lambda>s1. tty_blank_line drv y (x + 1) t s1)
      else Ret s)"
  by pat_completeness auto
termination
  by (relation "measure (\<lambda>(_, _, x, t, _). unat (tty_columns t) - unat x)") (auto intro: u32_count_up(2))

function tty_blank_screen :: "'s video_driver \<Rightarrow> u32 \<Rightarrow> tty \<Rightarrow> 's \<Rightarrow> 's kres" where
  "tty_blank_screen drv y t s =
     (if y < tty_rows t
      then kbind (tty_blank_line drv y 0 t s) (\<lambda>s1. tty_blank_screen drv (y + 1) t s1)
      else Ret s)"
  by pat_completeness auto
termination
  by (relation "measure (\<lambda>(_, y, t, _). unat (tty_rows t) - unat y)") (auto intro: u32_count_up(2))

declare tty_blank_line.simps [simp del] tty_blank_screen.simps [simp del]

definition tty_clear :: "'s video_driver \<Rightarrow> tty \<Rightarrow> 's \<Rightarrow> (tty \<times> 's) kres" where
  "tty_clear drv t s =
     kbind (tty_blank_screen drv 0 t s) (\<lambda>s1. tty_move_cursor drv (t\<lparr>cursor_x := 0, cursor_y := 0\<rparr>) s1)"

text \<open>A parameter of a command; the first one is always committed before a command is dispatched.\<close>

definition ansi_param :: "tty \<Rightarrow> nat \<Rightarrow> u32" where
  "ansi_param t i = ansi_params t ! i"

definition tty_csi_dispatch :: "'s video_driver \<Rightarrow> u8 \<Rightarrow> tty \<Rightarrow> 's \<Rightarrow> (tty \<times> 's) kres" where
  "tty_csi_dispatch drv command t s =
     (if command = asc CHR ''J'' then (if ansi_param t 0 = 2 then tty_clear drv t s else Ret (t, s))
      else if command = asc CHR ''H'' \<or> command = asc CHR ''f''
      then let row = (if ansi_param t 0 \<noteq> 0 then ansi_param t 0 else 1);
               col = (if 1 < ansi_param_count t \<and> ansi_param t 1 \<noteq> 0 then ansi_param t 1 else 1);
               row' = (if tty_rows t < row then tty_rows t else row);
               col' = (if tty_columns t < col then tty_columns t else col)
           in tty_move_cursor drv (t\<lparr>cursor_y := row' - 1, cursor_x := col' - 1\<rparr>) s
      else if command = asc CHR ''K''
      then (if ansi_param t 0 = 0
            then kbind (tty_blank_line drv (cursor_y t) (cursor_x t) t s) (\<lambda>s1. Ret (t, s1))
            else Ret (t, s))
      else if command = asc CHR ''C''
      then let amount = (if ansi_param t 0 \<noteq> 0 then ansi_param t 0 else 1);
               max_x = tty_columns t - 1
           in tty_move_cursor drv (t\<lparr>cursor_x := (if max_x < cursor_x t + amount then max_x else cursor_x t + amount)\<rparr>) s
      else if command = asc CHR ''D''
      then let amount = (if ansi_param t 0 \<noteq> 0 then ansi_param t 0 else 1)
           in tty_move_cursor drv (t\<lparr>cursor_x := (if cursor_x t < amount then 0 else cursor_x t - amount)\<rparr>) s
      else Ret (t, s))"

text \<open>The switch on the character, then the wrap at the end of a line, then the end of the screen.\<close>

definition tty_put :: "'s video_driver \<Rightarrow> u8 \<Rightarrow> tty \<Rightarrow> 's \<Rightarrow> (tty \<times> 's) kres" where
  "tty_put drv ch t s =
     (if ch = 10 then Ret (t\<lparr>cursor_x := 0, cursor_y := cursor_y t + 1\<rparr>, s)
      else if ch = 13 then Ret (t\<lparr>cursor_x := 0\<rparr>, s)
      else if ch = 8
      then let t1 = (if 0 < cursor_x t then t\<lparr>cursor_x := cursor_x t - 1\<rparr> else t)
           in kbind (tty_write drv (asc CHR '' '') (cursor_y t1) (cursor_x t1) t1 s) (\<lambda>s1. Ret (t1, s1))
      else if ch = 9 then Ret (t\<lparr>cursor_x := (cursor_x t + 8) AND NOT (8 - 1)\<rparr>, s)
      else kbind (tty_write drv ch (cursor_y t) (cursor_x t) t s) (\<lambda>s1. Ret (t\<lparr>cursor_x := cursor_x t + 1\<rparr>, s1)))"

definition tty_wrap :: "tty \<Rightarrow> tty" where
  "tty_wrap t = (if tty_columns t \<le> cursor_x t then t\<lparr>cursor_x := 0, cursor_y := cursor_y t + 1\<rparr> else t)"

definition tty_scroll :: "'s video_driver \<Rightarrow> tty \<Rightarrow> 's \<Rightarrow> (tty \<times> 's) kres" where
  "tty_scroll drv t s =
     (if tty_rows t \<le> cursor_y t
      then kbind (tm_scroll drv (fgcolor t) (bgcolor t) s) (\<lambda>s1.
           tty_move_cursor drv (t\<lparr>cursor_y := cursor_y t - 1\<rparr>) s1)
      else Ret (t, s))"

definition tty_render_char :: "'s video_driver \<Rightarrow> u8 \<Rightarrow> tty \<Rightarrow> 's \<Rightarrow> (tty \<times> 's) kres" where
  "tty_render_char drv ch t s =
     kbind (tty_put drv ch t s) (\<lambda>(t1, s1).
     kbind (tty_scroll drv (tty_wrap t1) s1) (\<lambda>(t2, s2). tty_move_cursor drv t2 s2))"

text \<open>Commit the pending number as a parameter; a number past the last parameter is dropped.\<close>

definition tty_commit_param :: "tty \<Rightarrow> tty" where
  "tty_commit_param t =
     (if ansi_param_count t < TTY_ANSI_MAX_PARAMS
      then t\<lparr>ansi_params := (ansi_params t)[unat (ansi_param_count t) := ansi_current t],
             ansi_param_count := ansi_param_count t + 1\<rparr>
      else t)"

definition tty_render :: "'s video_driver \<Rightarrow> u8 \<Rightarrow> tty \<Rightarrow> 's \<Rightarrow> (tty \<times> 's) kres" where
  "tty_render drv ch t s =
     (case ansi_state t of
        TTY_ANSI_STATE_NORMAL \<Rightarrow>
          (if ch = 0x1B then Ret (t\<lparr>ansi_state := TTY_ANSI_STATE_ESC\<rparr>, s) else tty_render_char drv ch t s)
      | TTY_ANSI_STATE_ESC \<Rightarrow>
          Ret (if ch = asc CHR ''[''
               then t\<lparr>ansi_state := TTY_ANSI_STATE_CSI, ansi_param_count := 0, ansi_current := 0\<rparr>
               else t\<lparr>ansi_state := TTY_ANSI_STATE_NORMAL\<rparr>, s)
      | TTY_ANSI_STATE_CSI \<Rightarrow>
          (if asc CHR ''0'' \<le> ch \<and> ch \<le> asc CHR ''9''
           then Ret (t\<lparr>ansi_current := ansi_current t * 10 + ucast (ch - asc CHR ''0'')\<rparr>, s)
           else if ch = asc CHR '';''
           then Ret ((tty_commit_param t)\<lparr>ansi_current := 0\<rparr>, s)
           else kbind (tty_csi_dispatch drv ch (tty_commit_param t) s) (\<lambda>(t1, s1).
                Ret (t1\<lparr>ansi_state := TTY_ANSI_STATE_NORMAL\<rparr>, s1))))"

subsection \<open>Output\<close>

partial_function (option) tty_flush_loop :: "'s video_driver \<Rightarrow> tty \<Rightarrow> 's \<Rightarrow> (tty \<times> 's) kres option" where
  "tty_flush_loop drv t s =
     (if circular_buffer_empty (tty_output t) then Some (Ret (t, s))
      else case circular_buffer_dequeue (tty_output t) True of
             None \<Rightarrow> Some Fault
           | Some (e, b) \<Rightarrow>
               (case tty_render drv (case e of None \<Rightarrow> 0 | Some bs \<Rightarrow> bs ! 0) (t\<lparr>tty_output := b\<rparr>) s of
                  Ret (t1, s1) \<Rightarrow> tty_flush_loop drv t1 s1
                | Panic c \<Rightarrow> Some (Panic c)
                | Hang \<Rightarrow> Some Hang
                | Fault \<Rightarrow> Some Fault))"

definition tty_flush :: "'s video_driver \<Rightarrow> tty \<Rightarrow> 's \<Rightarrow> (tty \<times> 's) kres" where
  "tty_flush drv t s = (case tty_flush_loop drv t s of None \<Rightarrow> Hang | Some r \<Rightarrow> r)"

definition tty_putchar :: "'s video_driver \<Rightarrow> u8 \<Rightarrow> tty \<Rightarrow> 's \<Rightarrow> (tty \<times> 's) kres" where
  "tty_putchar drv ch t s =
     kbind (or_fault (circular_buffer_enqueue (tty_output t) [ch])) (\<lambda>b. tty_flush drv (t\<lparr>tty_output := b\<rparr>) s)"

fun tty_puts :: "'s video_driver \<Rightarrow> bytes \<Rightarrow> tty \<Rightarrow> 's \<Rightarrow> (tty \<times> 's) kres" where
  "tty_puts drv [] t s = Ret (t, s)"
| "tty_puts drv (c # cs) t s = kbind (tty_putchar drv c t s) (\<lambda>(t1, s1). tty_puts drv cs t1 s1)"

definition tty_set_fgcolor :: "u8 \<Rightarrow> tty \<Rightarrow> tty" where "tty_set_fgcolor c t = t\<lparr>fgcolor := c\<rparr>"
definition tty_set_bgcolor :: "u8 \<Rightarrow> tty \<Rightarrow> tty" where "tty_set_bgcolor c t = t\<lparr>bgcolor := c\<rparr>"

definition tty_disable_cursor :: "'s video_driver \<Rightarrow> tty \<Rightarrow> 's \<Rightarrow> 's" where
  "tty_disable_cursor drv t s = tm_disable_cursor drv s"

definition tty_enable_cursor :: "'s video_driver \<Rightarrow> tty \<Rightarrow> 's \<Rightarrow> 's" where
  "tty_enable_cursor drv t s = tm_enable_cursor drv 0 15 s"

subsection \<open>Input\<close>

text \<open>The value -1 of an empty buffer is the character 0xFF.\<close>

definition tty_getchar :: "tty \<Rightarrow> (u8 \<times> tty) kres" where
  "tty_getchar t =
     (if circular_buffer_empty (tty_input t) then Ret (0xFF, t)
      else kbind (or_fault (circular_buffer_dequeue (tty_input t) True)) (\<lambda>(e, b).
           Ret (case e of None \<Rightarrow> 0 | Some bs \<Rightarrow> bs ! 0, t\<lparr>tty_input := b\<rparr>)))"

definition tty_enqueue_input :: "u8 \<Rightarrow> tty \<Rightarrow> tty kres" where
  "tty_enqueue_input ch t =
     kbind (or_fault (circular_buffer_enqueue (tty_input t) [ch])) (\<lambda>b. Ret (t\<lparr>tty_input := b\<rparr>))"

text \<open>The static variables of the listener.\<close>

record key_state =
  shift :: bool
  ctrl :: bool

definition is_shift_key :: "u32 \<Rightarrow> bool" where
  "is_shift_key k \<longleftrightarrow> k = KEYBOARD_KEYCODE_LEFT_SHIFT \<or> k = KEYBOARD_KEYCODE_RIGHT_SHIFT"

definition is_control_key :: "u32 \<Rightarrow> bool" where
  "is_control_key k \<longleftrightarrow> k = KEYBOARD_KEYCODE_LEFT_CONTROL \<or> k = KEYBOARD_KEYCODE_RIGHT_CONTROL"

definition arrow_char :: "u32 \<Rightarrow> u8" where
  "arrow_char k =
     (if k = KEYBOARD_KEYCODE_UP then asc CHR ''A''
      else if k = KEYBOARD_KEYCODE_DOWN then asc CHR ''B''
      else if k = KEYBOARD_KEYCODE_RIGHT then asc CHR ''C''
      else if k = KEYBOARD_KEYCODE_LEFT then asc CHR ''D'' else 0)"

text \<open>
  The flag says whether the current process may be interrupted (it has a parent that has a parent).
  Killing it does not return to the listener: the result says with which exit code it was called.
\<close>

definition tty_keyboard_listener :: "'s video_driver \<Rightarrow> bool \<Rightarrow> keyboard_event \<Rightarrow> key_state \<Rightarrow> tty \<Rightarrow> 's \<Rightarrow>
    (int option \<times> key_state \<times> tty \<times> 's) kres" where
  "tty_keyboard_listener drv interruptible event ks t s =
     (let k = ke_keycode event
      in if \<not> ke_pressed event
         then let ks1 = (if is_shift_key k then ks\<lparr>shift := False\<rparr> else ks);
                  ks2 = (if is_control_key k then ks1\<lparr>ctrl := False\<rparr> else ks1)
              in Ret (None, ks2, t, s)
         else if is_shift_key k then Ret (None, ks\<lparr>shift := True\<rparr>, t, s)
         else if is_control_key k then Ret (None, ks\<lparr>ctrl := True\<rparr>, t, s)
         else if k = KEYBOARD_KEYCODE_CAPS_LOCK then Ret (None, ks\<lparr>shift := \<not> shift ks\<rparr>, t, s)
         else if ctrl ks \<and> k = KEYBOARD_KEYCODE_C
         then (if interruptible
               then kbind (tty_puts drv (str ''^C'' @ [10]) t s) (\<lambda>(t1, s1). Ret (Some 130, ks, t1, s1))
               else Ret (None, ks, t, s))
         else if arrow_char k \<noteq> 0
         then kbind (tty_enqueue_input 0x1B t) (\<lambda>t1.
              kbind (tty_enqueue_input (asc CHR ''['') t1) (\<lambda>t2.
              kbind (tty_enqueue_input (arrow_char k) t2) (\<lambda>t3. Ret (None, ks, t3, s))))
         else let ch = tty_keycode_to_char (tty_layout t) k (shift ks)
              in if ch \<noteq> 0 then kbind (tty_enqueue_input ch t) (\<lambda>t1. Ret (None, ks, t1, s))
                 else Ret (None, ks, t, s))"

text \<open>
  Line input. The characters that \<open>tty_getchar\<close> delivers while the loop spins are a list (without the
  value -1, which is skipped); when it ends, the loop waits for ever. A store outside the buffer
  is a fault.
\<close>

definition line_store :: "u32 \<Rightarrow> u32 \<Rightarrow> u32 \<Rightarrow> u8 \<Rightarrow> kheap \<Rightarrow> kheap kres" where
  "line_store buffer buffer_size index ch h =
     (if buffer = 0 \<or> buffer_size \<le> index then Fault
      else Ret (h\<lparr>heap_data := (heap_data h)(buffer + index := ch)\<rparr>))"

fun tty_gets_loop :: "'s video_driver \<Rightarrow> bytes \<Rightarrow> u32 \<Rightarrow> u32 \<Rightarrow> u32 \<Rightarrow> tty \<Rightarrow> 's \<Rightarrow> kheap \<Rightarrow>
    (u32 \<times> tty \<times> 's \<times> kheap) kres" where
  "tty_gets_loop drv [] buffer buffer_size buffer_index t s h = Hang"
| "tty_gets_loop drv (ch # cs) buffer buffer_size buffer_index t s h =
     (if ch = 0xFF then tty_gets_loop drv cs buffer buffer_size buffer_index t s h
      else if ch = 10
      then kbind (tty_putchar drv ch t s) (\<lambda>(t1, s1).
           kbind (line_store buffer buffer_size buffer_index 0 h) (\<lambda>h1. Ret (buffer, t1, s1, h1)))
      else if ch = 8
      then (if buffer_index = 0 then tty_gets_loop drv cs buffer buffer_size buffer_index t s h
            else kbind (tty_putchar drv ch t s) (\<lambda>(t1, s1).
                 tty_gets_loop drv cs buffer buffer_size (buffer_index - 1) t1 s1 h))
      else kbind (if buffer_index = buffer_size
                  then kbind (krealloc buffer (buffer_size * 2) h) (\<lambda>(p, h1). Ret (p, buffer_size * 2, h1))
                  else Ret (buffer, buffer_size, h)) (\<lambda>(buffer', buffer_size', h1).
           kbind (line_store buffer' buffer_size' buffer_index ch h1) (\<lambda>h2.
           kbind (tty_putchar drv ch t s) (\<lambda>(t1, s1).
           tty_gets_loop drv cs buffer' buffer_size' (buffer_index + 1) t1 s1 h2))))"

definition tty_gets :: "'s video_driver \<Rightarrow> bytes \<Rightarrow> tty \<Rightarrow> 's \<Rightarrow> kheap \<Rightarrow> (u32 \<times> tty \<times> 's \<times> kheap) kres" where
  "tty_gets drv cs t s h =
     kbind (kmalloc 1 h) (\<lambda>(buffer, h1). tty_gets_loop drv cs buffer 1 0 t s h1)"

subsection \<open>Creation\<close>

text \<open>
  The first check swaps the arguments of \<open>KPANIC\<close>, so its code is the address of the message. The
  parameters of escape sequences are uninitialised. The first terminal becomes the standard
  terminal and listens to the keyboard (the second component of the result).
\<close>

definition tty_create :: "'s video_driver \<Rightarrow> tty_keyboard_layout \<Rightarrow> u32 list \<Rightarrow> nat \<Rightarrow> bool \<Rightarrow> 's \<Rightarrow> kheap \<Rightarrow>
    ((tty option \<times> bool) \<times> kheap) kres" where
  "tty_create drv layout junk message stdterm s h =
     (if \<not> tm_probe drv s then Ret ((None, stdterm), h)
      else kbind (kmalloc sizeof_tty h) (\<lambda>(p, h1).
           if p = 0 then Panic message
           else kbind (tm_total_rows drv s) (\<lambda>rows.
                kbind (tm_total_columns drv s) (\<lambda>columns.
                kbind (circular_buffer_create TTY_BUFFER_SIZE 1 h1) (\<lambda>(input, h2).
                case input of
                  None \<Rightarrow> Panic KPANIC_KHEAP_OUT_OF_MEMORY_CODE
                | Some input' \<Rightarrow>
                    kbind (circular_buffer_create TTY_BUFFER_SIZE 1 h2) (\<lambda>(out, h3).
                    case out of
                      None \<Rightarrow> Panic KPANIC_KHEAP_OUT_OF_MEMORY_CODE
                    | Some out' \<Rightarrow>
                        Ret ((Some \<lparr>tty_addr = p, tty_rows = rows, tty_columns = columns, cursor_x = 0, cursor_y = 0,
                                    fgcolor = TTY_WHITE, bgcolor = TTY_BLACK, tty_input = input', tty_output = out',
                                    tty_layout = layout, ansi_state = TTY_ANSI_STATE_NORMAL,
                                    ansi_params = take 8 (junk @ replicate 8 0), ansi_param_count = 0,
                                    ansi_current = 0\<rparr>, True), h3)))))))"

end
