(* ===== verification/Process.thy ===== *)
theory Process
  imports Elf Files Tty
begin

text \<open>
  Processes, \<open>kernel/src/system/process.c\<close>: creation from an executable with the argument vector on the
  user stack, running, and termination, which resumes the parent that waits for the process.

  The memory of the virtual memory manager and the state of the file layer share the kernel heap;
  \<open>with_vm\<close> runs an operation of the former on the state of the latter. A process is found by its
  address; fields that the code does not initialise keep what the memory at this address held.
  Leaving the kernel for user mode is a value: entry at an address with a stack, or the saved
  state that \<open>context_restore\<close> resumes.
\<close>

subsection \<open>State\<close>

record isr_cpu_state =
  isr_ds :: u32
  isr_edi :: u32
  isr_esi :: u32
  isr_ebp :: u32
  isr_esp :: u32
  isr_ebx :: u32
  isr_edx :: u32
  isr_ecx :: u32
  isr_eax :: u32
  isr_interrupt_code :: u32
  isr_error_code :: u32
  isr_eip :: u32
  isr_cs :: u32
  isr_eflags :: u32
  isr_useresp :: u32
  isr_ss :: u32

datatype process_state = PROCESS_STATE_READY | PROCESS_STATE_RUNNING | PROCESS_STATE_EXITED | PROCESS_STATE_WAITING

record process =
  pr_pid :: u32
  pr_name :: "u32 \<times> bytes"
  pr_path :: "u32 \<times> bytes"
  pr_state :: process_state
  pr_address_space :: u32
  pr_eip :: u32
  pr_esp :: u32
  pr_eflags :: u32
  pr_parent :: u32
  pr_saved_state :: isr_cpu_state
  pr_stack_base :: u32
  pr_stack_limit :: u32
  pr_heap_base :: u32
  pr_heap_limit :: u32
  pr_out :: u32
  pr_in :: u32
  pr_err :: u32
  pr_files :: "file_descriptor option list"
  pr_exit_code :: u32
  pr_exception_code :: u32

text \<open>A stream names its terminal; the functions it has are those for output or for input.\<close>

record stream =
  stream_is_output :: bool
  stream_data :: u32

record ('c, 's) pkernel = "'c fkernel" +
  vm :: memory
  processes :: "u32 \<Rightarrow> process"
  current_process :: u32
  next_pid :: u32
  streams :: "u32 \<Rightarrow> stream"
  ttys :: "u32 \<Rightarrow> tty"
  video :: 's

definition PROCESS_MAX_FILE_DESCRIPTORS :: nat where "PROCESS_MAX_FILE_DESCRIPTORS = 32"
definition sizeof_process :: u32 where "sizeof_process = 292"

definition vm_of :: "('c, 's, 'm) pkernel_scheme \<Rightarrow> memory" where
  "vm_of k = (vm k)\<lparr>mem_heap := k_heap k\<rparr>"

definition set_vm :: "memory \<Rightarrow> ('c, 's, 'm) pkernel_scheme \<Rightarrow> ('c, 's, 'm) pkernel_scheme" where
  "set_vm s k = k\<lparr>vm := s, k_heap := mem_heap s\<rparr>"

definition with_vm :: "(memory \<Rightarrow> ('a \<times> memory) kres) \<Rightarrow> ('c, 's, 'm) pkernel_scheme \<Rightarrow>
    ('a \<times> ('c, 's, 'm) pkernel_scheme) kres" where
  "with_vm f k = kbind (f (vm_of k)) (\<lambda>(x, s). Ret (x, set_vm s k))"

definition set_process :: "u32 \<Rightarrow> (process \<Rightarrow> process) \<Rightarrow> ('c, 's, 'm) pkernel_scheme \<Rightarrow> ('c, 's, 'm) pkernel_scheme" where
  "set_process p f k = k\<lparr>processes := (processes k)(p := f (processes k p))\<rparr>"

definition k_free :: "u32 \<Rightarrow> ('c, 's, 'm) pkernel_scheme \<Rightarrow> ('c, 's, 'm) pkernel_scheme" where
  "k_free p k = k\<lparr>k_heap := kfree p (k_heap k)\<rparr>"

definition switch_to :: "u32 \<Rightarrow> ('c, 's, 'm) pkernel_scheme \<Rightarrow> ('c, 's, 'm) pkernel_scheme" where
  "switch_to d k = set_vm (vmm_switch_address_space d (vm_of k)) k"

subsection \<open>The argument vector\<close>

text \<open>
  The strings of the arguments, the last one first, below the top of the stack; then, below an
  aligned address, NULL, the pointers in the same order, and their number.
\<close>

fun push_strings :: "bytes list \<Rightarrow> u32 \<Rightarrow> memory \<Rightarrow> (u32 list \<times> u32 \<times> memory) kres" where
  "push_strings [] user_esp s = Ret ([], user_esp, s)"
| "push_strings (a # args) user_esp s =
     (let esp = user_esp - of_nat (length a + 1)
      in kbind (user_write esp (a @ [0]) s) (\<lambda>s1.
         kbind (push_strings args esp s1) (\<lambda>(arg_addresses, esp', s2).
         Ret (esp # arg_addresses, esp', s2))))"

fun push_words :: "u32 list \<Rightarrow> u32 \<Rightarrow> memory \<Rightarrow> (u32 \<times> memory) kres" where
  "push_words [] user_esp s = Ret (user_esp, s)"
| "push_words (w # ws) user_esp s =
     kbind (user_write32 (user_esp - 4) w s) (push_words ws (user_esp - 4))"

definition process_push_arguments :: "bytes list \<Rightarrow> u32 \<Rightarrow> memory \<Rightarrow> (u32 \<times> memory) kres" where
  "process_push_arguments argv user_stack_limit s =
     kbind (push_strings (rev argv) (user_stack_limit + PAGE_SIZE) s) (\<lambda>(arg_addresses, user_esp, s1).
     push_words (0 # arg_addresses @ [of_nat (length argv)]) (user_esp AND NOT 3) s1)"

subsection \<open>Creation\<close>

definition process_discard :: "u32 list \<Rightarrow> ('c, 's, 'm) pkernel_scheme \<Rightarrow> (u32 \<times> ('c, 's, 'm) pkernel_scheme) kres" where
  "process_discard ps k = Ret (0, fold k_free ps k)"

text \<open>The buffer of the file: the bytes that were read over what the heap block held.\<close>

definition read_executable :: "'c ports \<Rightarrow> bytes \<Rightarrow> u32 \<Rightarrow> file_descriptor option \<Rightarrow> ('c, 's, 'm) pkernel_scheme \<Rightarrow>
    ((u32 \<times> bytes) option \<times> ('c, 's, 'm) pkernel_scheme) kres" where
  "read_executable io path sz executable_fd k =
     kbind (kmalloc_or_panic sz (k_heap k)) (\<lambda>(executable_data, h).
     kbind (file_read io executable_fd sz (k\<lparr>k_heap := h\<rparr>)) (\<lambda>((n, bs, fd), k1).
     if of_int n \<noteq> sz
     then kbind (file_close fd (k_free executable_data k1)) (\<lambda>((e, fd'), k2). Ret (None, k2))
     else kbind (or_fault (filled (heap_junk h executable_data) (unat sz) bs)) (\<lambda>data.
          kbind (file_close fd k1) (\<lambda>((e, fd'), k2). Ret (Some (executable_data, data), k2)))))"

definition alloc_string :: "bytes \<Rightarrow> ('c, 's, 'm) pkernel_scheme \<Rightarrow> (u32 \<times> ('c, 's, 'm) pkernel_scheme) kres" where
  "alloc_string s k =
     kbind (kmalloc_or_panic (of_nat (length s + 1)) (k_heap k)) (\<lambda>(p, h). Ret (p, k\<lparr>k_heap := h\<rparr>))"

definition process_load :: "bytes \<Rightarrow> bytes list \<Rightarrow> u32 \<Rightarrow> u32 \<Rightarrow> memory \<Rightarrow>
    ((u32 \<times> u32) option \<times> memory) kres" where
  "process_load data argv sz address_space s =
     (let former_address_space = current_page_directory s;
          s1 = vmm_switch_address_space address_space s
      in kbind (elf_load data sz s1) (\<lambda>(e, s2).
         if e \<noteq> 0 then Ret (None, s2)
         else kbind (vmm_map_memory 0 PAGE_SIZE 0 False True s2) (\<lambda>(user_stack_limit, s3).
              if user_stack_limit = 0 then Panic KPANIC_VMM_OUT_OF_USER_SPACE_MEMORY_CODE
              else kbind (kmalloc_or_panic (of_nat (max 1 (length argv)) * 4) (mem_heap s3)) (\<lambda>(arg_addresses, h).
                   kbind (process_push_arguments argv user_stack_limit (s3\<lparr>mem_heap := h\<rparr>)) (\<lambda>(user_esp, s4).
                   Ret (Some (user_stack_limit, user_esp),
                        vmm_switch_address_space former_address_space
                          (s4\<lparr>mem_heap := kfree arg_addresses (mem_heap s4)\<rparr>)))))))"

definition process_create :: "'c ports \<Rightarrow> (nat \<Rightarrow> u8) \<Rightarrow> bytes \<Rightarrow> bytes \<Rightarrow> bytes list \<Rightarrow> u32 \<Rightarrow> u32 \<Rightarrow> u32 \<Rightarrow>
    ('c, 's, 'm) pkernel_scheme \<Rightarrow> (u32 \<times> ('c, 's, 'm) pkernel_scheme) kres" where
  "process_create io junk name path argv out inp err k =
     kbind (file_stat_path io junk path k) (\<lambda>((e, stat), k1).
     case stat of
       None \<Rightarrow> Ret (0, k1)
     | Some executable_stat \<Rightarrow>
         let sz = st_size executable_stat
         in kbind (file_open io junk path FILE_RDONLY k1) (\<lambda>(executable_fd, k2).
            kbind (read_executable io path sz executable_fd k2) (\<lambda>(executable, k3).
            case executable of
              None \<Rightarrow> Ret (0, k3)
            | Some (executable_data, data) \<Rightarrow>
                kbind (kmalloc_or_panic sizeof_process (k_heap k3)) (\<lambda>(process, h).
                let pid = next_pid k3
                in kbind (alloc_string name (k3\<lparr>k_heap := h, next_pid := pid + 1\<rparr>)) (\<lambda>(pname, k4).
                   kbind (alloc_string path k4) (\<lambda>(ppath, k5).
                   if \<not> elf_is_valid data sz then process_discard [pname, ppath, process, executable_data] k5
                   else let former_address_space = current_page_directory (vm k5)
                        in kbind (with_vm vmm_create_address_space k5) (\<lambda>(address_space, k6).
                        if address_space = 0 then process_discard [pname, ppath, process, executable_data] k6
                        else kbind (with_vm (process_load data argv sz address_space) k6) (\<lambda>(r, k7).
                             case r of
                               None \<Rightarrow> kbind (process_discard [pname, ppath, process, executable_data] k7) (\<lambda>(z, k8).
                                        Ret (z, switch_to former_address_space k8))
                             | Some (user_stack_limit, user_esp) \<Rightarrow>
                                 Ret (process, k_free executable_data (set_process process (\<lambda>p. p\<lparr>
                                   pr_pid := pid, pr_name := (pname, name), pr_path := (ppath, path),
                                   pr_state := PROCESS_STATE_READY, pr_address_space := address_space,
                                   pr_stack_base := user_stack_limit + PAGE_SIZE - 1,
                                   pr_stack_limit := user_stack_limit, pr_heap_base := 0, pr_heap_limit := 0,
                                   pr_eip := elf_get_entry_point data sz, pr_esp := user_esp, pr_eflags := 0x200,
                                   pr_out := out, pr_in := inp, pr_err := err,
                                   pr_files := replicate PROCESS_MAX_FILE_DESCRIPTORS None,
                                   pr_parent := 0, pr_exit_code := 0, pr_exception_code := -1\<rparr>) k7))))))))))"

subsection \<open>Running and termination\<close>

datatype flow = Returned | Enter_user u32 u32 u32 | Resume isr_cpu_state

definition process_destroy :: "u32 \<Rightarrow> ('c, 's, 'm) pkernel_scheme \<Rightarrow> ('c, 's, 'm) pkernel_scheme kres" where
  "process_destroy process k =
     kbind (or_hang (vmm_destroy_address_space (pr_address_space (processes k process)) (vm_of k))) (\<lambda>s.
     Ret (fold k_free [fst (pr_name (processes k process)), fst (pr_path (processes k process)), process] (set_vm s k)))"

definition process_run :: "u32 \<Rightarrow> ('c, 's, 'm) pkernel_scheme \<Rightarrow> flow \<times> ('c, 's, 'm) pkernel_scheme" where
  "process_run process k =
     (let p = processes k process
      in if pr_state p \<noteq> PROCESS_STATE_READY then (Returned, k)
         else (Enter_user (pr_eip p) (pr_esp p) (pr_eflags p),
               switch_to (pr_address_space p)
                 (set_process process (\<lambda>p. p\<lparr>pr_state := PROCESS_STATE_RUNNING\<rparr>) (k\<lparr>current_process := process\<rparr>))))"

text \<open>The end of the spawn system call: the child runs and its parent waits.\<close>

definition process_start_child :: "u32 \<Rightarrow> u32 \<Rightarrow> ('c, 's, 'm) pkernel_scheme \<Rightarrow> flow \<times> ('c, 's, 'm) pkernel_scheme" where
  "process_start_child child parent k =
     process_run child (set_process parent (\<lambda>p. p\<lparr>pr_state := PROCESS_STATE_WAITING\<rparr>)
       (set_process child (\<lambda>c. c\<lparr>pr_parent := parent\<rparr>) k))"

definition process_terminate :: "u32 \<Rightarrow> ('c, 's, 'm) pkernel_scheme \<Rightarrow> (flow \<times> ('c, 's, 'm) pkernel_scheme) kres" where
  "process_terminate process k =
     (let exit_code = pr_exit_code (processes k process);
          exception_code = pr_exception_code (processes k process);
          parent = pr_parent (processes k process)
      in kbind (process_destroy process k) (\<lambda>k1.
         if parent \<noteq> 0
         then let k2 = (switch_to (pr_address_space (processes k1 parent)) k1)\<lparr>current_process := parent\<rparr>;
                  eax = (if exception_code \<noteq> -1 then 128 + exception_code else exit_code AND 0xFF);
                  k3 = set_process parent (\<lambda>p. p\<lparr>pr_state := PROCESS_STATE_RUNNING,
                         pr_saved_state := (pr_saved_state p)\<lparr>isr_eax := eax\<rparr>\<rparr>) k2
              in Ret (Resume (pr_saved_state (processes k3 parent)), k3)
         else Panic KPANIC_INIT_DIED_CODE))"

definition process_kill_current :: "u32 \<Rightarrow> ('c, 's, 'm) pkernel_scheme \<Rightarrow> (flow \<times> ('c, 's, 'm) pkernel_scheme) kres" where
  "process_kill_current exit_code k =
     (if current_process k = 0 then Ret (Returned, k)
      else process_terminate (current_process k) (set_process (current_process k)
             (\<lambda>p. p\<lparr>pr_exit_code := exit_code, pr_exception_code := -1\<rparr>) k))"

end
