(* ===== verification/Process_Props.thy ===== *)
theory Process_Props
  imports Process
begin

text \<open>
  The argument vector that a program finds on its stack, and the life cycle of processes: the
  running process and the processes that wait for it form a stack.
\<close>

subsection \<open>The argument vector\<close>

definition strings_size :: "bytes list \<Rightarrow> nat" where
  "strings_size args = (\<Sum>a \<leftarrow> args. length a + 1)"

text \<open>Memory that differs from \<open>lo\<close> on and below \<open>hi\<close> only.\<close>

definition changes_between :: "nat \<Rightarrow> nat \<Rightarrow> memory \<Rightarrow> memory \<Rightarrow> bool" where
  "changes_between lo hi s s' \<longleftrightarrow> user_ok s' \<and> same_maps s s' \<and>
     (\<forall>w. \<not> (lo \<le> unat w \<and> unat w < hi) \<longrightarrow> user_memory s' w = user_memory s w)"

lemma changes_between_refl: "user_ok s \<Longrightarrow> changes_between b t s s"
  by (simp add: changes_between_def)

lemma changes_between_trans:
  "changes_between b t s s1 \<Longrightarrow> changes_between b' b s1 s2 \<Longrightarrow> b' \<le> b \<Longrightarrow> b \<le> t \<Longrightarrow> changes_between b' t s s2"
  unfolding changes_between_def by (auto intro: same_maps_trans)

lemma writes_changes:
  "writes_range s v n f s' \<Longrightarrow> changes_between (unat v) (unat v + n) s s'"
  by (auto simp: writes_range_def changes_between_def)

lemma bytes_at_changes:
  assumes "changes_between b t s s'" and "bytes_at s v bs" and "t \<le> unat v" and "unat v + length bs \<le> 4294967296"
  shows "bytes_at s' v bs"
  unfolding bytes_at_def
proof (intro allI impI)
  fix i assume i: "i < length bs"
  then have "unat (v + of_nat i) = unat v + i" using assms(4) by (subst unat_u32_add_small) simp_all
  then show "user_memory s' (v + of_nat i) = Some (bs ! i)"
    using assms(1-3) i by (simp add: changes_between_def bytes_at_def)
qed

lemma push_strings_correct:
  assumes "page_of lim \<in> user_pages s" and "unat lim mod 4096 = 0" and "user_ok s"
    and "unat lim + strings_size args \<le> unat esp" and "unat esp \<le> unat lim + 4096"
  shows "returns (push_strings args esp s) (\<lambda>(ps, esp', s'). unat esp' = unat esp - strings_size args \<and>
    changes_between (unat esp') (unat esp) s s' \<and>
    list_all2 (\<lambda>p a. unat esp' \<le> unat p \<and> unat p + length a < unat esp \<and> bytes_at s' p (a @ [0])) ps args)"
  using assms
proof (induction args arbitrary: esp s)
  case Nil
  then show ?case by (simp add: strings_size_def changes_between_refl)
next
  case (Cons a args)
  let ?e = "esp - of_nat (length a + 1)"
  have sz: "strings_size (a # args) = length a + 1 + strings_size args" by (simp add: strings_size_def)
  have la: "length a + 1 \<le> unat esp" "length a + 1 < 4294967296"
    using Cons.prems(4) sz unat_u32_less [of esp] by linarith+
  have ue: "unat ?e = unat esp - (length a + 1)"
    using la(1) unat_u32_sub [of "of_nat (length a + 1)" esp]
    unfolding u32_le_iff unat_of_nat_u32 [OF la(2)] by blast
  have lo: "unat lim \<le> unat ?e" "unat ?e + length (a @ [0]) \<le> unat lim + 4096"
    using Cons.prems(4,5) ue sz by simp_all
  note pr = page_range [OF Cons.prems(1,2) lo]
  have w: "returns (user_write ?e (a @ [0]) s) (writes_range s ?e (length (a @ [0])) (\<lambda>i. (a @ [0]) ! i))"
    by (rule user_write_range [OF Cons.prems(3) pr])
  show ?case
    unfolding push_strings.simps Let_def
  proof (rule returns_bind [OF w])
    fix s1 assume w1: "writes_range s ?e (length (a @ [0])) (\<lambda>i. (a @ [0]) ! i) s1"
    have te: "unat ?e + length (a @ [0]) = unat esp" using ue la by simp
    have c1: "changes_between (unat ?e) (unat esp) s s1" using writes_changes [OF w1] unfolding te .
    have sm: "same_maps s s1" "user_ok s1" using c1 by (simp_all add: changes_between_def)
    have b1: "bytes_at s1 ?e (a @ [0])" by (rule bytes_at_written [OF w1 pr(2)])
    have IH: "returns (push_strings args ?e s1) (\<lambda>(ps, esp', s'). unat esp' = unat ?e - strings_size args \<and>
      changes_between (unat esp') (unat ?e) s1 s' \<and>
      list_all2 (\<lambda>p a. unat esp' \<le> unat p \<and> unat p + length a < unat ?e \<and> bytes_at s' p (a @ [0])) ps args)"
      by (rule Cons.IH) (use Cons.prems sm ue sz lo in \<open>simp_all add: same_maps_simps\<close>)
    show "returns (kbind (push_strings args ?e s1) (\<lambda>(arg_addresses, esp', s2). Ret (?e # arg_addresses, esp', s2)))
      (\<lambda>(ps, esp', s'). unat esp' = unat esp - strings_size (a # args) \<and>
        changes_between (unat esp') (unat esp) s s' \<and>
        list_all2 (\<lambda>p a. unat esp' \<le> unat p \<and> unat p + length a < unat esp \<and> bytes_at s' p (a @ [0])) ps (a # args))"
    proof (rule returns_bind [OF IH], unfold case_prod_beta, goal_cases)
      case (1 x)
      obtain ps esp' s2 where x: "x = (ps, esp', s2)" by (cases x)
      from 1 have e: "unat esp' = unat ?e - strings_size args" and c2: "changes_between (unat esp') (unat ?e) s1 s2"
        and l: "list_all2 (\<lambda>p a. unat esp' \<le> unat p \<and> unat p + length a < unat ?e \<and> bytes_at s2 p (a @ [0])) ps args"
        unfolding x by auto
      have le: "unat esp' \<le> unat ?e" "unat ?e \<le> unat esp" using e ue by simp_all
      have "bytes_at s2 ?e (a @ [0])" by (rule bytes_at_changes [OF c2 b1 order_refl pr(2)])
      moreover have "list_all2 (\<lambda>p a. unat esp' \<le> unat p \<and> unat p + length a < unat esp \<and> bytes_at s2 p (a @ [0])) ps args"
        by (rule list_all2_mono [OF l]) (use le in auto)
      moreover have "unat esp' = unat esp - strings_size (a # args)" using e ue sz by linarith
      moreover have "unat ?e + length a < unat esp" using te by simp
      ultimately show ?case
        using le changes_between_trans [OF c1 c2 le] by (simp add: x del: of_nat_add of_nat_Suc)
    qed
  qed
qed

lemma push_words_correct:
  assumes "page_of lim \<in> user_pages s" and "unat lim mod 4096 = 0" and "user_ok s"
    and "unat lim + 4 * length ws \<le> unat esp" and "unat esp \<le> unat lim + 4096"
  shows "returns (push_words ws esp s) (\<lambda>(esp', s'). unat esp' = unat esp - 4 * length ws \<and>
    changes_between (unat esp') (unat esp) s s' \<and>
    (\<forall>i < length ws. bytes_at s' (esp' + of_nat (4 * i)) (enc32 (rev ws ! i))))"
  using assms
proof (induction ws arbitrary: esp s)
  case Nil
  then show ?case by (simp add: changes_between_refl)
next
  case (Cons w ws)
  let ?e = "esp - 4"
  have e4: "4 \<le> unat esp" using Cons.prems(4) by simp
  then have ue: "unat ?e = unat esp - 4" by (subst unat_u32_sub) (simp_all add: u32_le_iff)
  have lo: "unat lim \<le> unat ?e" "unat ?e + length (enc32 w) \<le> unat lim + 4096"
    using Cons.prems(4,5) ue by simp_all
  note pr = page_range [OF Cons.prems(1,2) lo]
  have wr: "returns (user_write32 ?e w s) (writes_range s ?e (length (enc32 w)) (\<lambda>i. enc32 w ! i))"
    unfolding user_write32_def by (rule user_write_range [OF Cons.prems(3) pr])
  show ?case
    unfolding push_words.simps
  proof (rule returns_bind [OF wr])
    fix s1 assume w1: "writes_range s ?e (length (enc32 w)) (\<lambda>i. enc32 w ! i) s1"
    have te: "unat ?e + length (enc32 w) = unat esp" using ue e4 by simp
    have c1: "changes_between (unat ?e) (unat esp) s s1" using writes_changes [OF w1] unfolding te .
    have sm: "same_maps s s1" "user_ok s1" using c1 by (simp_all add: changes_between_def)
    have b1: "bytes_at s1 ?e (enc32 w)" by (rule bytes_at_written [OF w1 pr(2)])
    have IH: "returns (push_words ws ?e s1) (\<lambda>(esp', s'). unat esp' = unat ?e - 4 * length ws \<and>
      changes_between (unat esp') (unat ?e) s1 s' \<and>
      (\<forall>i < length ws. bytes_at s' (esp' + of_nat (4 * i)) (enc32 (rev ws ! i))))"
      by (rule Cons.IH) (use Cons.prems sm ue lo in \<open>simp_all add: same_maps_simps\<close>)
    show "returns (push_words ws ?e s1) (\<lambda>(esp', s'). unat esp' = unat esp - 4 * length (w # ws) \<and>
      changes_between (unat esp') (unat esp) s s' \<and>
      (\<forall>i < length (w # ws). bytes_at s' (esp' + of_nat (4 * i)) (enc32 (rev (w # ws) ! i))))"
    proof (rule returns_mono [OF IH], unfold case_prod_beta, goal_cases)
      case (1 x)
      obtain esp' s2 where x: "x = (esp', s2)" by (cases x)
      from 1 have e: "unat esp' = unat ?e - 4 * length ws" and c2: "changes_between (unat esp') (unat ?e) s1 s2"
        and l: "\<And>i. i < length ws \<Longrightarrow> bytes_at s2 (esp' + of_nat (4 * i)) (enc32 (rev ws ! i))"
        unfolding x by auto
      have le: "unat esp' \<le> unat ?e" "unat ?e \<le> unat esp" using e ue by simp_all
      have s: "unat esp' + 4 * length ws = unat ?e" using e ue Cons.prems(4) by simp
      have n: "unat (of_nat (4 * length ws) :: u32) = 4 * length ws"
        using s unat_u32_less [of ?e] by (intro unat_of_nat_u32) linarith
      have "unat (esp' + of_nat (4 * length ws)) = unat ?e"
        using s n unat_u32_less [of ?e] by (subst unat_u32_add_small) simp_all
      then have "esp' + of_nat (4 * length ws) = ?e" unfolding u32_eq_iff .
      moreover have "bytes_at s2 ?e (enc32 w)" by (rule bytes_at_changes [OF c2 b1 order_refl pr(2)])
      ultimately have "bytes_at s2 (esp' + of_nat (4 * i)) (enc32 (rev (w # ws) ! i))" if "i < length (w # ws)" for i
        using that l [of i] by (cases "i < length ws") (auto simp: nth_append less_Suc_eq simp del: of_nat_mult)
      moreover have "unat esp' = unat esp - 4 * length (w # ws)" using e ue by simp
      ultimately show ?case
        using changes_between_trans [OF c1 c2 le] by (simp add: x del: of_nat_mult)
    qed
  qed
qed

text \<open>
  How \<open>_start\<close> of the C library (\<open>libc/src/sys/crt0.c\<close>) and \<open>main\<close> read the vector.
\<close>

definition crt0_start :: "u32 \<Rightarrow> memory \<Rightarrow> (u32 \<times> u32) kres" where
  "crt0_start esp s = kbind (user_read32 esp s) (\<lambda>argc. Ret (argc, esp + 4))"

text \<open>The string \<open>argv[i]\<close>.\<close>

definition argv_string :: "u32 \<Rightarrow> nat \<Rightarrow> memory \<Rightarrow> bytes kres" where
  "argv_string argv i s = kbind (user_read32 (argv + of_nat (4 * i)) s) (\<lambda>p. user_string p s)"

lemma push_arguments_correct:
  assumes ok: "user_ok s" and pg: "page_of lim \<in> user_pages s" "unat lim mod 4096 = 0"
    and sz: "strings_size argv + 4 * (length argv + 2) + 3 \<le> 4096" and cs: "\<forall>a \<in> set argv. c_string a"
  shows "returns (process_push_arguments argv lim s) (\<lambda>(esp, s').
    user_ok s' \<and> same_maps s s' \<and> unat esp mod 4 = 0 \<and> page_of esp = page_of lim \<and>
    crt0_start esp s' = Ret (of_nat (length argv), esp + 4) \<and>
    (\<forall>i < length argv. argv_string (esp + 4) i s' = Ret (argv ! i)) \<and>
    user_read32 (esp + 4 + of_nat (4 * length argv)) s' = Ret 0 \<and>
    (\<forall>v. page_of v \<noteq> page_of lim \<longrightarrow> user_memory s' v = user_memory s v))"
proof -
  let ?n = "length argv" and ?S = "strings_size argv"
  have pl: "page_of lim < 0xC0000" using pg(1) by (simp add: user_pages_def)
  have l: "unat lim = page_of lim * 4096" using pg(2) by (simp add: page_of_def mod_0_imp_dvd)
  have "page_of lim * 4096 \<le> 0xBFFFF * 4096" using pl by (intro mult_le_mono1) simp
  then have lb: "unat lim + 4096 \<le> 0xC0000000" using l by simp
  have top: "unat (lim + PAGE_SIZE) = unat lim + 4096"
    using lb by (subst unat_u32_add_small) (simp_all add: PAGE_SIZE_def)
  have rs: "strings_size (rev argv) = ?S" by (simp add: strings_size_def rev_map [symmetric] sum_list_rev)
  have S: "returns (push_strings (rev argv) (lim + PAGE_SIZE) s) (\<lambda>(ps, e, s1). unat e = unat lim + 4096 - ?S \<and>
    changes_between (unat e) (unat lim + 4096) s s1 \<and>
    list_all2 (\<lambda>p a. unat e \<le> unat p \<and> unat p + length a < unat lim + 4096 \<and> bytes_at s1 p (a @ [0])) ps (rev argv))"
    using push_strings_correct [OF pg ok, of "rev argv" "lim + PAGE_SIZE"] sz unfolding rs top by simp
  show ?thesis
    unfolding process_push_arguments_def
  proof (rule returns_bind [OF S], unfold case_prod_beta, goal_cases)
    case (1 x)
    obtain ps e s1 where x: "x = (ps, e, s1)" by (cases x)
    from 1 have ue: "unat e = unat lim + 4096 - ?S" and c1: "changes_between (unat e) (unat lim + 4096) s s1"
      and st: "list_all2 (\<lambda>p a. unat e \<le> unat p \<and> unat p + length a < unat lim + 4096 \<and> bytes_at s1 p (a @ [0])) ps (rev argv)"
      unfolding x by auto
    let ?e = "e AND NOT 3" and ?ws = "0 # ps @ [of_nat ?n]"
    have ae: "unat ?e = unat e - unat e mod 4" by (rule unat_word_down)
    have lp: "length ps = ?n" using list_all2_lengthD [OF st] by simp
    have m4: "unat e mod 4 < 4" by simp
    have lo: "unat lim + 4 * length ?ws \<le> unat ?e" "unat ?e \<le> unat e" "unat e \<le> unat lim + 4096"
      using ue ae sz m4 lp by simp_all
    have sm1: "same_maps s s1" "user_ok s1" using c1 by (simp_all add: changes_between_def)
    have pg1: "page_of lim \<in> user_pages s1" using pg(1) sm1 by (simp add: same_maps_simps)
    have W: "returns (push_words ?ws ?e s1) (\<lambda>(e', s2). unat e' = unat ?e - 4 * length ?ws \<and>
      changes_between (unat e') (unat ?e) s1 s2 \<and>
      (\<forall>i < length ?ws. bytes_at s2 (e' + of_nat (4 * i)) (enc32 (rev ?ws ! i))))"
      by (rule push_words_correct [OF pg1 pg(2) sm1(2)]) (use lo in simp_all)
    show ?case
      unfolding x fst_conv snd_conv
    proof (rule returns_mono [OF W], unfold case_prod_beta, goal_cases)
      case (1 y)
      obtain e' s2 where y: "y = (e', s2)" by (cases y)
      from 1 have ue': "unat e' = unat ?e - 4 * (?n + 2)" and c2: "changes_between (unat e') (unat ?e) s1 s2"
        and b: "\<And>i. i < ?n + 2 \<Longrightarrow> bytes_at s2 (e' + of_nat (4 * i)) (enc32 (rev ?ws ! i))"
        unfolding y by (auto simp: lp)
      have le: "unat lim \<le> unat e'" "unat e' < unat lim + 4096" "unat e' \<le> unat ?e"
        using ue' lo lp by simp_all
      have "unat e' = 4 * (unat e div 4 - (?n + 2))"
        unfolding ue' ae minus_mod_eq_mult_div diff_mult_distrib2 ..
      then have m: "unat e' mod 4 = 0" by simp
      have inp: "page_of v = page_of lim" if "unat lim \<le> unat v" "unat v < unat lim + 4096" for v
        unfolding page_of_def [of v] using that l by (intro div_nat_eqI) simp_all
      have pe: "page_of e' = page_of lim" by (rule inp [OF le(1,2)])
      have rd: "user_read32 (e' + of_nat (4 * i)) s2 = Ret (rev ?ws ! i)" if "i < ?n + 2" for i
        by (rule user_read32_at [OF b [OF that]])
      have rw: "rev ?ws = of_nat ?n # rev ps @ [0]" by simp
      have nx: "e' + 4 + of_nat (4 * i) = e' + of_nat (4 * Suc i)" for i by simp
      have "crt0_start e' s2 = Ret (of_nat ?n, e' + 4)"
        using rd [of 0] unfolding rw by (simp add: crt0_start_def)
      moreover have "user_read32 (e' + 4 + of_nat (4 * ?n)) s2 = Ret 0"
        using rd [of "Suc ?n"] unfolding rw nx by (simp add: nth_append lp del: of_nat_mult)
      moreover have "argv_string (e' + 4) i s2 = Ret (argv ! i)" if i: "i < ?n" for i
      proof -
        let ?j = "?n - Suc i" and ?a = "argv ! i"
        have j: "?j < length ps" "rev argv ! ?j = ?a" using i lp by (simp_all add: rev_nth)
        from list_all2_nthD [OF st j(1)] have pj: "unat e \<le> unat (ps ! ?j)"
          "unat (ps ! ?j) + length ?a < unat lim + 4096" "bytes_at s1 (ps ! ?j) (?a @ [0])" unfolding j(2) by auto
        have "bytes_at s2 (ps ! ?j) (?a @ [0])"
          by (rule bytes_at_changes [OF c2 pj(3)]) (use pj lo(2) lb in simp_all)
        moreover have "length ?a < 4294967296" using pj(2) lb by simp
        ultimately have "user_string (ps ! ?j) s2 = Ret ?a" using cs i by (intro user_string_at) simp_all
        moreover have "user_read32 (e' + 4 + of_nat (4 * i)) s2 = Ret (ps ! ?j)"
          using rd [of "Suc i"] i unfolding rw nx by (simp add: nth_append lp rev_nth del: of_nat_mult)
        ultimately show ?thesis by (simp add: argv_string_def del: of_nat_mult)
      qed
      moreover have "user_memory s2 v = user_memory s v" if "page_of v \<noteq> page_of lim" for v
      proof -
        have "\<not> (unat lim \<le> unat v \<and> unat v < unat lim + 4096)"
          using inp [of v] that by blast
        then show ?thesis using c1 c2 le lo unfolding changes_between_def by auto
      qed
      ultimately show ?case
        using c2 sm1 m pe same_maps_trans [OF sm1(1)] by (auto simp: y changes_between_def simp del: of_nat_mult)
    qed
  qed
qed

text \<open>
  C34. The kernel's argument vector is the one the program reads: when strings and pointers fit on the
  stack page, \<open>_start\<close> of the C library finds at the stack pointer \<open>argc\<close> and \<open>argv\<close>, each \<open>argv[i]\<close>
  is the string that was passed, and \<open>argv[argc]\<close> is NULL; the stack pointer is aligned and no other page
  changes.
\<close>

theorem push_arguments_roundtrip:
  assumes "user_ok s" and "page_of lim \<in> user_pages s" and "unat lim mod 4096 = 0"
    and "strings_size argv + 4 * (length argv + 2) + 3 \<le> 4096" and "\<forall>a \<in> set argv. c_string a"
  shows "\<exists>esp s'. process_push_arguments argv lim s = Ret (esp, s') \<and> unat esp mod 4 = 0 \<and>
    page_of esp = page_of lim \<and> crt0_start esp s' = Ret (of_nat (length argv), esp + 4) \<and>
    (\<forall>i < length argv. argv_string (esp + 4) i s' = Ret (argv ! i)) \<and>
    user_read32 (esp + 4 + of_nat (4 * length argv)) s' = Ret 0 \<and>
    (\<forall>v. page_of v \<noteq> page_of lim \<longrightarrow> user_memory s' v = user_memory s v)"
  using push_arguments_correct [OF assms] by (auto simp: returns_def)

theorem push_arguments_roundtrip_witness:
  "\<exists>s lim esp s'. process_push_arguments [[0x6C, 0x73], [0x2F]] lim s = Ret (esp, s') \<and>
     crt0_start esp s' = Ret (2, esp + 4) \<and> argv_string (esp + 4) 0 s' = Ret [0x6C, 0x73] \<and>
     argv_string (esp + 4) 1 s' = Ret [0x2F]"
proof -
  obtain s where s: "user_ok s" "user_pages s = {1}" using small_memory_mapped by blast
  have "page_of 0x1000 \<in> user_pages s" by (simp add: s(2) page_of_def)
  from push_arguments_roundtrip [OF s(1) this, of "[[0x6C, 0x73], [0x2F]]"] obtain esp s' where
    "process_push_arguments [[0x6C, 0x73], [0x2F]] 0x1000 s = Ret (esp, s')" "crt0_start esp s' = Ret (2, esp + 4)"
    and a: "\<forall>i < 2. argv_string (esp + 4) i s' = Ret ([[0x6C, 0x73], [0x2F]] ! i)"
    by (auto simp: strings_size_def c_string_def)
  moreover have "argv_string (esp + 4) 0 s' = Ret [0x6C, 0x73]" "argv_string (esp + 4) 1 s' = Ret [0x2F]"
    using spec [OF a, of 0] spec [OF a, of 1] by simp_all
  ultimately show ?thesis by blast
qed

end
