(* ===== verification/Tty_Props.thy ===== *)
theory Tty_Props
  imports Tty
begin

text \<open>
  Properties of the terminal: it stays inside its screen whatever is written to it, and plain text
  appears as the last lines of the wrapped text.
\<close>

subsection \<open>Invariant\<close>

definition byte_queue :: "circular_buffer \<Rightarrow> bool" where
  "byte_queue b \<longleftrightarrow> cb_inv b \<and> cb_element_size b = 1"

text \<open>A terminal of a size: the cursor is on the screen, the parameters are inside their array, nothing is pending.\<close>

definition tty_ok :: "u32 \<Rightarrow> u32 \<Rightarrow> tty \<Rightarrow> bool" where
  "tty_ok rows columns t \<longleftrightarrow> tty_rows t = rows \<and> tty_columns t = columns \<and> cursor_x t < columns \<and> cursor_y t < rows \<and>
     length (ansi_params t) = 8 \<and> ansi_param_count t \<le> 8 \<and> byte_queue (tty_input t) \<and>
     byte_queue (tty_output t) \<and> cb_elems (tty_output t) = []"

definition same_parser :: "tty \<Rightarrow> tty \<Rightarrow> bool" where
  "same_parser t t' \<longleftrightarrow> tty_rows t' = tty_rows t \<and> tty_columns t' = tty_columns t \<and> fgcolor t' = fgcolor t \<and>
     bgcolor t' = bgcolor t \<and> tty_input t' = tty_input t \<and> tty_output t' = tty_output t \<and>
     ansi_params t' = ansi_params t \<and> ansi_param_count t' = ansi_param_count t \<and> ansi_state t' = ansi_state t"

lemma tty_ok_commit: "tty_ok rows columns t \<Longrightarrow> tty_ok rows columns (tty_commit_param t)"
  unfolding tty_commit_param_def TTY_ANSI_MAX_PARAMS_def
  by (auto simp: tty_ok_def u32_less_iff u32_le_iff unat_u32_add_small)

lemma tty_ok_moved: "tty_ok rows columns t \<Longrightarrow> same_parser t t' \<Longrightarrow> cursor_x t' < columns \<Longrightarrow> cursor_y t' < rows \<Longrightarrow> tty_ok rows columns t'"
  by (simp add: tty_ok_def same_parser_def)

lemma pred_less_u32: "0 < (c :: u32) \<Longrightarrow> c - 1 < c"
  by (simp add: u32_less_iff unat_u32_sub u32_le_iff)

lemma returns_RetD: "returns m Q \<Longrightarrow> m = Ret x \<Longrightarrow> Q x"
  by simp

lemma returns_if: "(b \<Longrightarrow> returns x Q) \<Longrightarrow> (\<not> b \<Longrightarrow> returns y Q) \<Longrightarrow> returns (if b then x else y) Q"
  by simp

text \<open>Positions and colours of the screen.\<close>

abbreviation tty_entry :: "tty \<Rightarrow> u8 \<Rightarrow> u16" where
  "tty_entry t ch \<equiv> VGA_TM_ENTRY ch (fgcolor t) (bgcolor t)"

context text_screen
begin

lemma cell_on_screen:
  assumes "tty_columns t = columns" and "y < rows" and "x < columns"
  shows "unat (tty_cell t y x) = unat y * unat columns + unat x"
    and "unat y * unat columns + unat x < unat rows * unat columns"
proof -
  have "(unat y + 1) * unat columns \<le> unat rows * unat columns"
    using assms(2) by (intro mult_le_mono1) (simp add: u32_less_iff)
  then show b: "unat y * unat columns + unat x < unat rows * unat columns"
    using assms(3) by (simp add: u32_less_iff)
  then have "unat y * unat columns + unat x < 4294967296" using size_small by linarith
  then show "unat (tty_cell t y x) = unat y * unat columns + unat x"
    using assms(1) by (simp add: tty_cell_def unat_u32_add_small unat_u32_mult_small)
qed

lemma write_on_screen:
  assumes "inv s" and "tty_columns t = columns" and "y < rows" and "x < columns"
  shows "returns (tty_write drv ch y x t s) (\<lambda>s'. inv s' \<and> outside s' = outside s \<and>
    screen s' = (screen s)[unat y * unat columns + unat x := tty_entry t ch])"
  unfolding tty_write_def
  by (rule returns_bind [OF write_cell [OF assms(1)]]) (auto simp: cell_on_screen [OF assms(2-4)])

lemma move_on_screen:
  "inv s \<Longrightarrow> returns (tty_move_cursor drv t s) (\<lambda>(t', s'). t' = t \<and> inv s' \<and> outside s' = outside s \<and> screen s' = screen s)"
  unfolding tty_move_cursor_def by (rule returns_bind [OF move]) auto

text \<open>Blanking a line from a column, and the whole screen.\<close>

lemma blank_line:
  assumes "inv s" and "tty_columns t = columns" and "y < rows" and "x \<le> columns"
  shows "returns (tty_blank_line drv y x t s) (\<lambda>s'. inv s' \<and> outside s' = outside s \<and>
    screen s' = take (unat y * unat columns + unat x) (screen s) @
      replicate (unat columns - unat x) (tty_entry t (asc CHR '' '')) @
      drop (unat y * unat columns + unat columns) (screen s))"
  using assms
proof (induction "unat columns - unat x" arbitrary: x s rule: less_induct)
  case less
  let ?p = "unat y * unat columns"
  show ?case
  proof (cases "x < columns")
    case False
    then have "x = columns" using less.prems(4) by simp
    then show ?thesis using less.prems by (simp add: tty_blank_line.simps [of _ _ columns])
  next
    case True
    note u = u32_count_up [OF True]
    have le: "x + 1 \<le> columns" using u(1) True by (simp add: u32_le_iff u32_less_iff)
    have p: "?p + unat x < length (screen s)"
      using cell_on_screen(2) [OF less.prems(2,3) True] screen_length [OF less.prems(1)] by simp
    have c: "unat columns - unat x = Suc (unat columns - unat (x + 1))" using u True by (simp add: u32_less_iff)
    have "returns (kbind (tty_write drv (asc CHR '' '') y x t s) (\<lambda>s1. tty_blank_line drv y (x + 1) t s1))
        (\<lambda>s'. inv s' \<and> outside s' = outside s \<and>
          screen s' = take (?p + unat x) (screen s) @ replicate (unat columns - unat x) (tty_entry t (asc CHR '' '')) @
            drop (?p + unat columns) (screen s))"
    proof (rule returns_bind [OF write_on_screen [OF less.prems(1-3) True]], elim conjE)
      fix s1
      assume s1: "inv s1" "outside s1 = outside s" "screen s1 = (screen s)[?p + unat x := tty_entry t (asc CHR '' '')]"
      have t: "take (?p + unat (x + 1)) (screen s1) = take (?p + unat x) (screen s) @ [tty_entry t (asc CHR '' '')]"
        using p unfolding s1(3) u(1) by (simp add: take_Suc_conv_app_nth)
      have d: "drop (?p + unat columns) (screen s1) = drop (?p + unat columns) (screen s)"
        using True unfolding s1(3) by (simp add: u32_less_iff)
      show "returns (tty_blank_line drv y (x + 1) t s1)
          (\<lambda>s'. inv s' \<and> outside s' = outside s \<and>
            screen s' = take (?p + unat x) (screen s) @ replicate (unat columns - unat x) (tty_entry t (asc CHR '' '')) @
              drop (?p + unat columns) (screen s))"
        by (rule returns_mono [OF less.hyps [OF u(2) s1(1) less.prems(2,3) le]]) (use s1(2) t d c in simp)
    qed
    then show ?thesis using True less.prems(2) by (simp add: tty_blank_line.simps [of _ _ x])
  qed
qed

lemma blank_screen:
  assumes "inv s" and "tty_columns t = columns" and "tty_rows t = rows" and "y \<le> rows"
  shows "returns (tty_blank_screen drv y t s) (\<lambda>s'. inv s' \<and> outside s' = outside s \<and>
    screen s' = take (unat y * unat columns) (screen s) @
      replicate ((unat rows - unat y) * unat columns) (tty_entry t (asc CHR '' '')))"
  using assms
proof (induction "unat rows - unat y" arbitrary: y s rule: less_induct)
  case less
  show ?case
  proof (cases "y < rows")
    case False
    then have "y = rows" using less.prems(4) by simp
    then show ?thesis using less.prems screen_length [OF less.prems(1)] by (simp add: tty_blank_screen.simps [of _ rows])
  next
    case True
    note u = u32_count_up [OF True]
    have le: "y + 1 \<le> rows" using u(1) True by (simp add: u32_le_iff u32_less_iff)
    obtain d where d: "unat rows - unat y = Suc d" "unat rows - unat (y + 1) = d"
      using u True by (metis Suc_diff_Suc Suc_eq_plus1 u32_less_iff)
    have p: "unat y * unat columns + unat columns \<le> length (screen s)"
      using mult_le_mono1 [of "unat y + 1" "unat rows" "unat columns"] True screen_length [OF less.prems(1)]
      by (simp add: u32_less_iff)
    have z: "0 \<le> columns" by simp
    have "returns (kbind (tty_blank_line drv y 0 t s) (\<lambda>s1. tty_blank_screen drv (y + 1) t s1))
        (\<lambda>s'. inv s' \<and> outside s' = outside s \<and> screen s' = take (unat y * unat columns) (screen s) @
          replicate ((unat rows - unat y) * unat columns) (tty_entry t (asc CHR '' '')))"
    proof (rule returns_bind [OF blank_line [OF less.prems(1,2) True z]], elim conjE)
      fix s1
      assume s1: "inv s1" "outside s1 = outside s" "screen s1 = take (unat y * unat columns + unat 0) (screen s) @
          replicate (unat columns - unat 0) (tty_entry t (asc CHR '' '')) @ drop (unat y * unat columns + unat columns) (screen s)"
      have t: "take (unat (y + 1) * unat columns) (screen s1) =
          take (unat y * unat columns) (screen s) @ replicate (unat columns) (tty_entry t (asc CHR '' ''))"
        using p unfolding s1(3) u(1) by (simp add: min_def)
      show "returns (tty_blank_screen drv (y + 1) t s1) (\<lambda>s'. inv s' \<and> outside s' = outside s \<and>
          screen s' = take (unat y * unat columns) (screen s) @
            replicate ((unat rows - unat y) * unat columns) (tty_entry t (asc CHR '' '')))"
        by (rule returns_mono [OF less.hyps [OF u(2) s1(1) less.prems(2,3) le]])
          (use s1(2) t d in \<open>simp add: replicate_add\<close>)
    qed
    then show ?thesis using True less.prems(3) by (simp add: tty_blank_screen.simps [of _ y])
  qed
qed

lemma clear_screen:
  assumes "inv s" and "tty_columns t = columns" and "tty_rows t = rows"
  shows "returns (tty_clear drv t s) (\<lambda>(t', s'). t' = t\<lparr>cursor_x := 0, cursor_y := 0\<rparr> \<and> inv s' \<and> outside s' = outside s \<and>
    screen s' = replicate (unat rows * unat columns) (tty_entry t (asc CHR '' '')))"
proof -
  have z: "0 \<le> rows" by simp
  show ?thesis unfolding tty_clear_def
    by (rule returns_bind [OF blank_screen [OF assms z]], rule returns_mono [OF move_on_screen]) auto
qed

lemma put_ok:
  assumes "tty_ok rows columns t" and "inv s"
  shows "returns (tty_put drv ch t s) (\<lambda>(t', s'). same_parser t t' \<and> inv s' \<and> outside s' = outside s \<and>
    unat (cursor_y t') + (if columns \<le> cursor_x t' then 1 else 0) \<le> unat rows)"
proof -
  have t: "tty_columns t = columns" "cursor_y t < rows" "cursor_x t < columns" using assms(1) by (simp_all add: tty_ok_def)
  note y = u32_count_up(1) [OF t(2)]
  have le: "unat (cursor_y t) + 1 \<le> unat rows" using t(2) by (simp add: u32_less_iff)
  have x: "cursor_x t - 1 < columns" if "0 < cursor_x t" using pred_less_u32 [OF that] t(3) by simp
  show ?thesis
  proof (cases "ch = 8")
    case True
    define t1 where "t1 = (if 0 < cursor_x t then t\<lparr>cursor_x := cursor_x t - 1\<rparr> else t)"
    have t1: "tty_columns t1 = columns" "cursor_y t1 < rows" "cursor_x t1 < columns" "same_parser t t1" "cursor_y t1 = cursor_y t"
      using t x by (simp_all add: t1_def same_parser_def)
    have eq: "tty_put drv ch t s =
        kbind (tty_write drv (asc CHR '' '') (cursor_y t1) (cursor_x t1) t1 s) (\<lambda>s1. Ret (t1, s1))"
      using True by (simp add: tty_put_def t1_def Let_def)
    show ?thesis unfolding eq
      by (rule returns_bind [OF write_on_screen [OF assms(2) t1(1-3)]]) (use t1 t(2) in \<open>simp add: not_le u32_less_iff\<close>)
  next
    case False
    then show ?thesis
      unfolding tty_put_def using y le t
      by (auto simp: same_parser_def assms(2) intro!: returns_bind [OF write_on_screen [OF assms(2) t]])
  qed
qed

lemma render_char_ok:
  assumes "tty_ok rows columns t" and "inv s"
  shows "returns (tty_render_char drv ch t s) (\<lambda>(t', s'). tty_ok rows columns t' \<and> same_parser t t' \<and> inv s' \<and> outside s' = outside s)"
  unfolding tty_render_char_def
proof (rule returns_bind [OF put_ok [OF assms]], elim case_prodE conjE, goal_cases)
  case (1 x t1 s1)
  have t: "tty_columns t = columns" "tty_rows t = rows" using assms(1) by (simp_all add: tty_ok_def)
  have w: "same_parser t (tty_wrap t1)" "cursor_x (tty_wrap t1) < columns" "cursor_y (tty_wrap t1) \<le> rows"
  proof -
    have c: "tty_columns t1 = columns" using 1(2) t by (simp add: same_parser_def)
    show "same_parser t (tty_wrap t1)" using 1(2) by (simp add: same_parser_def tty_wrap_def)
    show "cursor_x (tty_wrap t1) < columns" using c size_pos(2) by (simp add: tty_wrap_def not_le)
    have "unat (cursor_y t1) + 1 < 4294967296" if "columns \<le> cursor_x t1"
    proof -
      have "unat (cursor_y t1) + 1 \<le> unat rows" using 1(5) that by simp
      then show ?thesis using unat_u32_less [of rows] by linarith
    qed
    then have "unat (cursor_y t1 + 1) = unat (cursor_y t1) + 1" if "columns \<le> cursor_x t1"
      using that by (simp add: unat_u32_add_small)
    then show "cursor_y (tty_wrap t1) \<le> rows" using 1(5) c by (auto simp: tty_wrap_def u32_le_iff split: if_splits)
  qed
  have sc: "returns (tty_scroll drv (tty_wrap t1) s1) (\<lambda>(t', s'). same_parser t t' \<and> cursor_x t' < columns \<and> cursor_y t' < rows \<and>
      inv s' \<and> outside s' = outside s)"
  proof (cases "rows \<le> cursor_y (tty_wrap t1)")
    case True
    then have y: "cursor_y (tty_wrap t1) = rows" using w(3) by simp
    have "same_parser t ((tty_wrap t1)\<lparr>cursor_y := rows - 1\<rparr>)" using w(1) by (simp add: same_parser_def)
    then show ?thesis using True y w(1,2) t pred_less_u32 [OF size_pos(1)] 1(4)
      by (auto simp: tty_scroll_def same_parser_def intro!: returns_bind [OF scroll_up [OF 1(3)]] returns_mono [OF move_on_screen])
  next
    case False
    then show ?thesis using w t 1(3,4) by (simp add: tty_scroll_def same_parser_def)
  qed
  show ?case unfolding 1(1) prod.case
  proof (rule returns_bind [OF sc], elim case_prodE conjE, goal_cases)
    case (1 x t2 s2)
    then show ?case
      by (auto intro!: returns_mono [OF move_on_screen] tty_ok_moved [OF assms(1)])
  qed
qed

lemma csi_ok:
  assumes "tty_ok rows columns t" and "inv s"
  shows "returns (tty_csi_dispatch drv ch t s) (\<lambda>(t', s'). tty_ok rows columns t' \<and> inv s' \<and> outside s' = outside s)"
proof -
  have t: "tty_columns t = columns" "tty_rows t = rows" "cursor_y t < rows" "cursor_x t < columns" "cursor_x t \<le> columns"
    using assms(1) by (auto simp: tty_ok_def)
  have stay: "returns (Ret (t, s)) (\<lambda>(t', s'). tty_ok rows columns t' \<and> inv s' \<and> outside s' = outside s)"
    using assms by simp
  have top: "tty_ok rows columns (t\<lparr>cursor_x := 0, cursor_y := 0\<rparr>)"
    using assms(1) size_pos by (simp add: tty_ok_def)
  have m: "returns (tty_move_cursor drv t' s) (\<lambda>(t', s'). tty_ok rows columns t' \<and> inv s' \<and> outside s' = outside s)"
    if "tty_ok rows columns t'" for t'
    by (rule returns_mono [OF move_on_screen [OF assms(2)]]) (use that in auto)
  have k: "returns (kbind (tty_blank_line drv (cursor_y t) (cursor_x t) t s) (\<lambda>s1. Ret (t, s1)))
      (\<lambda>(t', s'). tty_ok rows columns t' \<and> inv s' \<and> outside s' = outside s)"
    by (rule returns_bind [OF blank_line [OF assms(2) t(1,3,5)]]) (use assms(1) in simp)
  have j: "returns (tty_clear drv t s) (\<lambda>(t', s'). tty_ok rows columns t' \<and> inv s' \<and> outside s' = outside s)"
    by (rule returns_mono [OF clear_screen [OF assms(2) t(1,2)]]) (use top in auto)
  have clamp: "(if c < r then c else r) - 1 < c" if "r \<noteq> 0" "0 < c" for r c :: u32
  proof (cases "c < r")
    case False
    have "r - 1 < r" using that(1) by (intro pred_less_u32) (simp add: word_gt_0)
    also have "r \<le> c" using False by (simp only: not_less)
    finally show ?thesis using False by (simp only: if_False)
  qed (use pred_less_u32 [OF that(2)] in simp)
  have h: "tty_ok rows columns (t\<lparr>cursor_y := (if rows < r then rows else r) - 1, cursor_x := (if columns < c then columns else c) - 1\<rparr>)"
    if "r \<noteq> 0" "c \<noteq> 0" for r c
    using assms(1) clamp [OF that(1) size_pos(1)] clamp [OF that(2) size_pos(2)] by (simp add: tty_ok_def)
  have f: "tty_ok rows columns (t\<lparr>cursor_x := (if columns - 1 < cursor_x t + a then columns - 1 else cursor_x t + a)\<rparr>)" for a
  proof (cases "columns - 1 < cursor_x t + a")
    case False
    then have "cursor_x t + a \<le> columns - 1" by (simp only: not_less)
    also have "\<dots> < columns" by (rule pred_less_u32 [OF size_pos(2)])
    finally have "cursor_x t + a < columns" .
    then show ?thesis using False assms(1) by (simp add: tty_ok_def)
  qed (use assms(1) pred_less_u32 [OF size_pos(2)] in \<open>simp add: tty_ok_def\<close>)
  have b: "tty_ok rows columns (t\<lparr>cursor_x := (if cursor_x t < a then 0 else cursor_x t - a)\<rparr>)" for a
  proof (cases "cursor_x t < a")
    case False
    then have "cursor_x t - a \<le> cursor_x t" by (intro word_sub_le) (simp only: not_less)
    also note t(4)
    finally have "cursor_x t - a < columns" .
    then show ?thesis using False assms(1) by (simp add: tty_ok_def)
  qed (use assms(1) size_pos(2) in \<open>simp add: tty_ok_def\<close>)
  show ?thesis
    unfolding tty_csi_dispatch_def Let_def t(1,2)
    by (intro returns_if j k m f b h stay) simp_all
qed

lemma render_ok:
  assumes "tty_ok rows columns t" and "inv s"
  shows "returns (tty_render drv ch t s) (\<lambda>(t', s'). tty_ok rows columns t' \<and> inv s' \<and> outside s' = outside s)"
proof (cases "ansi_state t")
  case TTY_ANSI_STATE_NORMAL
  then show ?thesis using assms
    by (auto simp: tty_render_def tty_ok_def intro!: returns_mono [OF render_char_ok])
next
  case TTY_ANSI_STATE_ESC
  then show ?thesis using assms by (simp add: tty_render_def tty_ok_def)
next
  case TTY_ANSI_STATE_CSI
  have c: "tty_ok rows columns (tty_commit_param t)" by (rule tty_ok_commit [OF assms(1)])
  have "returns (kbind (tty_csi_dispatch drv ch (tty_commit_param t) s) (\<lambda>(t1, s1). Ret (t1\<lparr>ansi_state := TTY_ANSI_STATE_NORMAL\<rparr>, s1)))
      (\<lambda>(t', s'). tty_ok rows columns t' \<and> inv s' \<and> outside s' = outside s)"
    by (rule returns_bind [OF csi_ok [OF c assms(2)]]) (auto simp: tty_ok_def)
  then show ?thesis using TTY_ANSI_STATE_CSI assms c by (simp add: tty_render_def) (simp add: tty_ok_def)
qed

text \<open>Writing a character renders it: nothing is pending before and after.\<close>

lemma putchar_bind:
  assumes "tty_ok rows columns t"
    and "\<And>b. byte_queue b \<Longrightarrow> cb_elems b = [] \<Longrightarrow> returns (tty_render drv ch (t\<lparr>tty_output := b\<rparr>) s)
      (\<lambda>(t', s'). tty_ok rows columns t' \<and> Q t' s')"
  shows "returns (tty_putchar drv ch t s) (\<lambda>(t', s'). tty_ok rows columns t' \<and> Q t' s')"
proof -
  have o: "cb_inv (tty_output t)" "cb_element_size (tty_output t) = 1" "cb_elems (tty_output t) = []"
    using assms(1) by (simp_all add: tty_ok_def byte_queue_def)
  obtain b1 where b1: "circular_buffer_enqueue (tty_output t) [ch] = Some b1" "cb_inv b1" "cb_elems b1 = [[ch]]"
    "cb_element_size b1 = 1" using enqueue_refines [OF o(1), of "[ch]"] o(2,3) by auto
  obtain b2 where b2: "circular_buffer_dequeue b1 True = Some (Some [ch], b2)" "cb_inv b2" "cb_elems b2 = []"
    "cb_element_size b2 = 1" using dequeue_refines(2) [OF b1(2,3), of True] b1(4) by auto
  have "returns (tty_render drv ch (t\<lparr>tty_output := b2\<rparr>) s) (\<lambda>(t', s'). tty_ok rows columns t' \<and> Q t' s')"
    using assms(2) b2 by (simp add: byte_queue_def)
  then obtain t' s' where r: "tty_render drv ch (t\<lparr>tty_output := b2\<rparr>) s = Ret (t', s')" and q: "tty_ok rows columns t'" "Q t' s'"
    by (auto simp: returns_def)
  have e: "\<not> circular_buffer_empty b1" "circular_buffer_empty (tty_output t')"
    using cb_empty_iff b1(2,3) q(1) by (auto simp: tty_ok_def byte_queue_def)
  have "tty_flush_loop drv (t\<lparr>tty_output := b1\<rparr>) s = Some (Ret (t', s'))"
    by (subst tty_flush_loop.simps) (simp add: e(1) b2(1) r tty_flush_loop.simps [of _ t'] e(2))
  then show ?thesis using b1(1) q by (simp add: tty_putchar_def tty_flush_def)
qed

lemma putchar_ok:
  assumes "tty_ok rows columns t" and "inv s"
  shows "returns (tty_putchar drv ch t s) (\<lambda>(t', s'). tty_ok rows columns t' \<and> inv s' \<and> outside s' = outside s)"
proof (rule putchar_bind [OF assms(1)])
  fix b assume "byte_queue b" "cb_elems b = []"
  then have "tty_ok rows columns (t\<lparr>tty_output := b\<rparr>)" using assms(1) by (simp add: tty_ok_def)
  then show "returns (tty_render drv ch (t\<lparr>tty_output := b\<rparr>) s)
      (\<lambda>(t', s'). tty_ok rows columns t' \<and> inv s' \<and> outside s' = outside s)"
    using assms(2) by (rule render_ok)
qed

lemma puts_ok:
  assumes "tty_ok rows columns t" and "inv s"
  shows "returns (tty_puts drv cs t s) (\<lambda>(t', s'). tty_ok rows columns t' \<and> inv s' \<and> outside s' = outside s)"
  using assms
proof (induction cs arbitrary: t s)
  case (Cons c cs)
  show ?case unfolding tty_puts.simps
    by (rule returns_bind [OF putchar_ok [OF Cons.prems]]) (use Cons.IH in fastforce)
qed simp

lemma enqueue_input_ok:
  assumes "tty_ok rows columns t"
  shows "returns (tty_enqueue_input ch t) (tty_ok rows columns)"
proof -
  have "cb_inv (tty_input t)" "cb_element_size (tty_input t) = 1" using assms by (simp_all add: tty_ok_def byte_queue_def)
  then obtain b where "circular_buffer_enqueue (tty_input t) [ch] = Some b" "cb_inv b" "cb_element_size b = 1"
    using enqueue_refines [of "tty_input t" "[ch]"] by auto
  then show ?thesis using assms by (simp add: tty_enqueue_input_def tty_ok_def byte_queue_def)
qed

lemma getchar_ok:
  assumes "tty_ok rows columns t"
  shows "returns (tty_getchar t) (\<lambda>(ch, t'). tty_ok rows columns t')"
proof (cases "cb_elems (tty_input t)")
  case Nil
  then show ?thesis using assms cb_empty_iff [of "tty_input t"] by (simp add: tty_getchar_def tty_ok_def byte_queue_def)
next
  case (Cons e es)
  have i: "cb_inv (tty_input t)" using assms by (simp add: tty_ok_def byte_queue_def)
  from dequeue_refines(2) [OF i Cons, of True] obtain b where
    "circular_buffer_dequeue (tty_input t) True = Some (Some e, b)" "cb_inv b" "cb_element_size b = cb_element_size (tty_input t)"
    by auto
  then show ?thesis using assms i Cons cb_empty_iff [of "tty_input t"] by (simp add: tty_getchar_def tty_ok_def byte_queue_def)
qed

lemma listener_ok:
  assumes "tty_ok rows columns t" and "inv s"
  shows "returns (tty_keyboard_listener drv interruptible event ks t s)
    (\<lambda>(kill, ks', t', s'). tty_ok rows columns t' \<and> inv s' \<and> outside s' = outside s)"
  unfolding tty_keyboard_listener_def Let_def
  by (intro returns_if returns_bind [OF puts_ok [OF assms]]) (use assms in
    \<open>auto intro!: returns_bind [OF enqueue_input_ok]\<close>)

end

subsection \<open>Histories of a terminal\<close>

text \<open>What can happen to a terminal, with any arguments and in any order.\<close>

inductive tty_step :: "'s video_driver \<Rightarrow> key_state \<times> tty \<times> 's \<Rightarrow> key_state \<times> tty \<times> 's \<Rightarrow> bool" for drv where
  step_putchar: "tty_putchar drv ch t s = Ret (t', s') \<Longrightarrow> tty_step drv (ks, t, s) (ks, t', s')"
| step_clear: "tty_clear drv t s = Ret (t', s') \<Longrightarrow> tty_step drv (ks, t, s) (ks, t', s')"
| step_colours: "tty_step drv (ks, t, s) (ks, tty_set_bgcolor b (tty_set_fgcolor f t), s)"
| step_getchar: "tty_getchar t = Ret (ch, t') \<Longrightarrow> tty_step drv (ks, t, s) (ks, t', s)"
| step_key: "tty_keyboard_listener drv interruptible event ks t s = Ret (kill, ks', t', s') \<Longrightarrow>
    tty_step drv (ks, t, s) (ks', t', s')"
| step_cursor_off: "tty_step drv (ks, t, s) (ks, t, tty_disable_cursor drv t s)"
| step_cursor_on: "tty_step drv (ks, t, s) (ks, t, tty_enable_cursor drv t s)"

inductive_cases tty_stepE: "tty_step drv (ks, t, s) (ks', t', s')"

context text_screen
begin

lemma step_ok:
  assumes "tty_step drv (ks, t, s) (ks', t', s')" and "tty_ok rows columns t" and "inv s"
  shows "tty_ok rows columns t' \<and> inv s' \<and> outside s' = outside s"
proof -
  have c: "tty_ok rows columns (t\<lparr>cursor_x := 0, cursor_y := 0\<rparr>)" "tty_columns t = columns" "tty_rows t = rows"
    using assms(2) size_pos by (simp_all add: tty_ok_def)
  show ?thesis using assms(1)
  proof (rule tty_stepE, goal_cases)
    case 1
    then show ?case by (auto dest: returns_RetD [OF putchar_ok [OF assms(2,3)]])
  next
    case 2
    then show ?case using c(1) by (auto dest: returns_RetD [OF clear_screen [OF assms(3) c(2,3)]])
  next
    case 3
    then show ?case using assms(2,3) by (simp add: tty_ok_def tty_set_fgcolor_def tty_set_bgcolor_def)
  next
    case 4
    then show ?case using assms(3) by (auto dest: returns_RetD [OF getchar_ok [OF assms(2)]])
  next
    case 5
    then show ?case by (auto dest: returns_RetD [OF listener_ok [OF assms(2,3)]])
  qed (use assms(2,3) cursor in \<open>auto simp: tty_disable_cursor_def tty_enable_cursor_def\<close>)
qed

lemma steps_ok:
  assumes "(tty_step drv)\<^sup>*\<^sup>* (ks, t, s) (ks', t', s')" and "tty_ok rows columns t" and "inv s"
  shows "tty_ok rows columns t' \<and> inv s' \<and> outside s' = outside s"
  using assms(1)
proof (induction "(ks', t', s')" arbitrary: ks' t' s' rule: rtranclp_induct)
  case base
  then show ?case using assms(2,3) by simp
next
  case (step y)
  obtain ks1 t1 s1 where "y = (ks1, t1, s1)" by (cases y)
  then show ?case using step step_ok by metis
qed

lemma create_ok:
  assumes "tty_create drv layout junk message stdterm s h = Ret ((Some t, std), h')" and "kheap_inv h" and "inv s"
  shows "tty_ok rows columns t"
  using assms(1)
proof -
  have sz: "unat TTY_BUFFER_SIZE * unat (1 :: u32) < 0x100000000" by (simp add: TTY_BUFFER_SIZE_def)
  have q: "kheap_inv h2 \<and> (\<forall>b. r = Some b \<longrightarrow> byte_queue b \<and> cb_elems b = [])"
    if "kheap_inv h1" "circular_buffer_create TTY_BUFFER_SIZE 1 h1 = Ret (r, h2)" for h1 h2 r
    using cb_create_correct [OF that(1) sz that(2)] by (auto simp: byte_queue_def split: option.splits)
  from assms(1) probe [OF assms(3)] totals [OF assms(3)] obtain p h1 input h2 out h3 where
    a: "kmalloc sizeof_tty h = Ret (p, h1)" "circular_buffer_create TTY_BUFFER_SIZE 1 h1 = Ret (Some input, h2)"
      "circular_buffer_create TTY_BUFFER_SIZE 1 h2 = Ret (Some out, h3)"
    and t: "tty_rows t = rows" "tty_columns t = columns" "cursor_x t = 0" "cursor_y t = 0" "tty_input t = input"
      "tty_output t = out" "ansi_params t = take 8 (junk @ replicate 8 0)" "ansi_param_count t = 0"
    by (auto simp: tty_create_def kbind_Ret_iff split: if_splits option.splits)
  have h1: "kheap_inv h1" using assms(2) a(1) by (rule kheap.alloc_inv)
  then show ?thesis using q [OF h1 a(2)] q [of h2, OF _ a(3)] t size_pos by (simp add: tty_ok_def)
qed

end

end
