(* ===== verification/Tty_Text.thy ===== *)
theory Tty_Text
  imports Tty_Props
begin

text \<open>
  What a terminal displays: plain text appears on the screen as the last lines of the text, wrapped
  at the width of the screen.
\<close>

subsection \<open>Wrapped text\<close>

text \<open>The complete lines and the current one. A line that reaches the width is complete at once.\<close>

fun type_char :: "nat \<Rightarrow> bytes list \<times> bytes \<Rightarrow> u8 \<Rightarrow> bytes list \<times> bytes" where
  "type_char width (ls, cur) c =
     (if c = 10 then (ls @ [cur], [])
      else if length cur + 1 = width then (ls @ [cur @ [c]], [])
      else (ls, cur @ [c]))"

definition wrap_text :: "nat \<Rightarrow> bytes \<Rightarrow> bytes list \<times> bytes" where
  "wrap_text width = foldl (type_char width) ([], [])"

text \<open>A screen of entries: the last lines, each filled up with blanks, then blank lines.\<close>

definition text_row :: "(u8 \<Rightarrow> u16) \<Rightarrow> nat \<Rightarrow> bytes \<Rightarrow> u16 list" where
  "text_row e width l = map e l @ replicate (width - length l) (e (asc CHR '' ''))"

definition text_display :: "(u8 \<Rightarrow> u16) \<Rightarrow> nat \<Rightarrow> nat \<Rightarrow> bytes list \<times> bytes \<Rightarrow> u16 list" where
  "text_display e height width lc =
     (let lines = fst lc @ [snd lc]
      in concat (map (text_row e width) (drop (length lines - height) lines)) @
         replicate ((height - length lines) * width) (e (asc CHR '' '')))"

lemma length_text_row: "length l \<le> width \<Longrightarrow> length (text_row e width l) = width"
  by (simp add: text_row_def)

lemma text_row_add:
  "length l < width \<Longrightarrow> (text_row e width l)[length l := e c] = text_row e width (l @ [c])"
  by (cases "width - length l") (auto simp: text_row_def list_update_append)

lemma text_row_empty: "text_row e width [] = replicate width (e (asc CHR '' ''))"
  by (simp add: text_row_def)

lemma length_concat_rows: "\<forall>l \<in> set ls. length l \<le> width \<Longrightarrow> length (concat (map (text_row e width) ls)) = length ls * width"
  by (induction ls) (simp_all add: length_text_row)

text \<open>The lines above the current one that are visible.\<close>

definition lines_above :: "nat \<Rightarrow> bytes list \<Rightarrow> bytes list" where
  "lines_above height ls = drop (length ls + 1 - height) ls"

lemma text_display_split:
  assumes "0 < height"
  shows "text_display e height width (ls, cur) =
    concat (map (text_row e width) (lines_above height ls)) @ text_row e width cur @
    replicate ((height - 1 - length ls) * width) (e (asc CHR '' ''))"
  using assms by (simp add: text_display_def lines_above_def Let_def)

lemma length_lines_above: "0 < height \<Longrightarrow> length (lines_above height ls) = min (length ls) (height - 1)"
  by (auto simp: lines_above_def)

lemma text_display_add:
  assumes "0 < height" and "\<forall>l \<in> set ls. length l \<le> width" and "length cur < width"
  shows "(text_display e height width (ls, cur))[min (length ls) (height - 1) * width + length cur := e c] =
    text_display e height width (ls, cur @ [c])"
proof -
  have "\<forall>l \<in> set (lines_above height ls). length l \<le> width"
    using assms(2) by (auto simp: lines_above_def dest: in_set_dropD)
  then have l: "length (concat (map (text_row e width) (lines_above height ls))) = min (length ls) (height - 1) * width"
    using length_concat_rows [of _ width e] length_lines_above [OF assms(1)] by simp
  show ?thesis
    unfolding text_display_split [OF assms(1)]
    using assms(3) l text_row_add [OF assms(3), of e c] length_text_row [of cur width e]
    by (simp add: list_update_append)
qed

text \<open>A line feed moves the screen up when the last row is reached.\<close>

lemma text_display_feed:
  assumes "length ls + 1 < height"
  shows "text_display e height width (ls @ [cur], []) = text_display e height width (ls, cur)"
proof -
  obtain d where d: "height = length ls + 2 + d" using assms by (metis add_2_eq_Suc' less_iff_Suc_add Suc_eq_plus1 add_Suc_right add_Suc)
  show ?thesis
    by (simp add: d text_display_def Let_def text_row_empty replicate_add [symmetric] add.commute)
qed

lemma text_display_scroll:
  assumes "0 < height" and "height \<le> length ls + 1" and "\<forall>l \<in> set ls. length l \<le> width" and "length cur \<le> width"
  shows "text_display e height width (ls @ [cur], []) =
    drop width (text_display e height width (ls, cur)) @ replicate width (e (asc CHR '' ''))"
proof -
  let ?all = "ls @ [cur]"
  have n: "length ?all - height < length ?all" using assms(1) by simp
  obtain l rest where c: "drop (length ?all - height) ?all = l # rest"
    using Cons_nth_drop_Suc [OF n] by metis
  have "l \<in> set ?all" using c in_set_dropD [of l "length ?all - height" ?all] by simp
  then have l: "length (text_row e width l) = width" using assms(3,4) by (auto intro: length_text_row)
  have "drop (length (?all @ [[]]) - height) (?all @ [[]]) = rest @ [[]]"
  proof -
    have k: "length (?all @ [[]]) - height = Suc (length ?all - height)" using assms(2) by simp
    have "drop (Suc (length ?all - height)) ?all = rest" using c by (metis drop_Suc tl_drop list.sel(3))
    moreover have "drop (Suc (length ?all - height)) (?all @ [[]]) = drop (Suc (length ?all - height)) ?all @ [[]]"
      using n by (simp only: drop_append) simp
    ultimately show ?thesis unfolding k by simp
  qed
  then show ?thesis
    using assms(1,2) l c by (simp add: text_display_def Let_def text_row_empty)
qed

subsection \<open>The terminal\<close>

definition tty_shows :: "u32 \<Rightarrow> u32 \<Rightarrow> bytes list \<times> bytes \<Rightarrow> tty \<Rightarrow> u16 list \<Rightarrow> bool" where
  "tty_shows rows columns lc t scr \<longleftrightarrow> scr = text_display (tty_entry t) (unat rows) (unat columns) lc \<and>
     unat (cursor_y t) = min (length (fst lc)) (unat rows - 1) \<and> unat (cursor_x t) = length (snd lc) \<and>
     (\<forall>l \<in> set (fst lc). length l \<le> unat columns)"

text \<open>The characters that are not interpreted, and the line feed.\<close>

definition plain_char :: "u8 \<Rightarrow> bool" where
  "plain_char c \<longleftrightarrow> c \<noteq> 8 \<and> c \<noteq> 9 \<and> c \<noteq> 13 \<and> c \<noteq> 27"

abbreviation feed :: "tty \<Rightarrow> tty" where
  "feed t \<equiv> t\<lparr>cursor_x := 0, cursor_y := cursor_y t + 1\<rparr>"

context text_screen
begin

lemma feed_shows:
  assumes "tty_rows t = rows" and "cursor_y t < rows" and "inv s"
    and "screen s = text_display (tty_entry t) (unat rows) (unat columns) (ls, cur)"
    and "unat (cursor_y t) = min (length ls) (unat rows - 1)"
    and "\<forall>l \<in> set ls. length l \<le> unat columns" and "length cur \<le> unat columns"
  shows "returns (kbind (tty_scroll drv (feed t) s) (\<lambda>(t2, s2). tty_move_cursor drv t2 s2)) (\<lambda>(t', s'). inv s' \<and>
    outside s' = outside s \<and> same_parser t t' \<and> tty_shows rows columns (ls @ [cur], []) t' (screen s'))"
proof -
  have y: "unat (cursor_y t + 1) = unat (cursor_y t) + 1" by (rule u32_count_up(1) [OF assms(2)])
  have r: "0 < unat rows" using size_pos(1) by (simp add: u32_less_iff)
  show ?thesis
  proof (cases "length ls + 1 < unat rows")
    case True
    then have "\<not> rows \<le> cursor_y t + 1" using y assms(5) by (simp add: u32_le_iff)
    then have "tty_scroll drv (feed t) s = Ret (feed t, s)" using assms(1) by (simp add: tty_scroll_def)
    then show ?thesis using assms y True text_display_feed [OF True]
      by (auto simp: same_parser_def tty_shows_def intro!: returns_mono [OF move_on_screen])
  next
    case False
    then have u: "unat (cursor_y t) = unat rows - 1" using assms(5) by simp
    then have e: "cursor_y t + 1 = rows" using y r by (simp add: u32_eq_iff)
    then have "rows - 1 = cursor_y t" by (metis add_diff_cancel_right')
    with e have sc: "tty_scroll drv (feed t) s = kbind (tm_scroll drv (fgcolor t) (bgcolor t) s)
        (tty_move_cursor drv ((feed t)\<lparr>cursor_y := cursor_y t\<rparr>))"
      using assms(1) by (simp add: tty_scroll_def)
    show ?thesis unfolding sc kbind_assoc
    proof (rule returns_bind [OF scroll_up [OF assms(3)]], elim conjE)
      fix s1 assume s1: "inv s1" "outside s1 = outside s" "screen s1 = drop (unat columns) (screen s) @
          replicate (unat columns) (VGA_TM_ENTRY (asc CHR '' '') (fgcolor t) (bgcolor t))"
      have d: "screen s1 = text_display (tty_entry t) (unat rows) (unat columns) (ls @ [cur], [])"
        unfolding s1(3) assms(4) by (rule text_display_scroll [symmetric]) (use False r assms in simp_all)
      show "returns (kbind (tty_move_cursor drv ((feed t)\<lparr>cursor_y := cursor_y t\<rparr>) s1) (\<lambda>(t2, s2). tty_move_cursor drv t2 s2))
          (\<lambda>(t', s'). inv s' \<and> outside s' = outside s \<and> same_parser t t' \<and> tty_shows rows columns (ls @ [cur], []) t' (screen s'))"
        by (rule returns_bind [OF move_on_screen [OF s1(1)]], elim case_prodE conjE)
          (use s1(2) d u False assms in \<open>auto simp: same_parser_def tty_shows_def intro!: returns_mono [OF move_on_screen]\<close>)
    qed
  qed
qed

lemma render_shows:
  assumes "tty_ok rows columns t" and "inv s" and "tty_shows rows columns lc t (screen s)" and "plain_char ch"
    and "ansi_state t = TTY_ANSI_STATE_NORMAL"
  shows "returns (tty_render drv ch t s) (\<lambda>(t', s'). inv s' \<and> outside s' = outside s \<and> same_parser t t' \<and>
    tty_shows rows columns (type_char (unat columns) lc ch) t' (screen s'))"
proof -
  obtain ls cur where lc: "lc = (ls, cur)" by (cases lc)
  have t: "tty_columns t = columns" "tty_rows t = rows" "cursor_y t < rows" "cursor_x t < columns"
    using assms(1) by (simp_all add: tty_ok_def)
  have d: "screen s = text_display (tty_entry t) (unat rows) (unat columns) (ls, cur)"
    "unat (cursor_y t) = min (length ls) (unat rows - 1)" "unat (cursor_x t) = length cur"
    "\<forall>l \<in> set ls. length l \<le> unat columns" using assms(3) by (simp_all add: tty_shows_def lc)
  have cur: "length cur < unat columns" using t(4) d(3) by (simp add: u32_less_iff)
  have r: "0 < unat rows" using size_pos(1) by (simp add: u32_less_iff)
  have rc: "tty_render drv ch t s = tty_render_char drv ch t s"
    using assms(4,5) by (simp add: tty_render_def plain_char_def)
  show ?thesis
  proof (cases "ch = 10")
    case True
    have "columns \<noteq> 0" using size_pos(2) by auto
    then have "tty_wrap (feed t) = feed t" using t(1) by (simp add: tty_wrap_def)
    then show ?thesis using feed_shows [OF t(2,3) assms(2) d(1,2,4)] cur True
      unfolding rc tty_render_char_def tty_put_def lc by simp
  next
    case False
    have put: "tty_put drv ch t s =
        kbind (tty_write drv ch (cursor_y t) (cursor_x t) t s) (\<lambda>s1. Ret (t\<lparr>cursor_x := cursor_x t + 1\<rparr>, s1))"
      using assms(4) False by (simp add: tty_put_def plain_char_def)
    note x = u32_count_up(1) [OF t(4)]
    show ?thesis unfolding rc tty_render_char_def put kbind_assoc kbind.simps prod.case
    proof (rule returns_bind [OF write_on_screen [OF assms(2) t(1,3,4)]], elim conjE)
      fix s1 assume s1: "inv s1" "outside s1 = outside s" "screen s1 =
          (screen s)[unat (cursor_y t) * unat columns + unat (cursor_x t) := tty_entry t ch]"
      let ?t1 = "t\<lparr>cursor_x := cursor_x t + 1\<rparr>"
      have e: "screen s1 = text_display (tty_entry t) (unat rows) (unat columns) (ls, cur @ [ch])"
        unfolding s1(3) d(1-3) by (rule text_display_add [OF r d(4) cur])
      show "returns (kbind (tty_scroll drv (tty_wrap ?t1) s1) (\<lambda>(t2, s2). tty_move_cursor drv t2 s2))
          (\<lambda>(t', s'). inv s' \<and> outside s' = outside s \<and> same_parser t t' \<and>
            tty_shows rows columns (type_char (unat columns) lc ch) t' (screen s'))"
      proof (cases "length cur + 1 = unat columns")
        case True
        then have "columns \<le> cursor_x t + 1" using x d(3) by (simp add: u32_le_iff)
        then have w: "tty_wrap ?t1 = feed t" using t(1) by (simp add: tty_wrap_def)
        show ?thesis unfolding w
          by (rule returns_mono [OF feed_shows [OF t(2,3) s1(1) e d(2,4)]]) (use True False s1(2) lc in auto)
      next
        case neq: False
        then have "\<not> columns \<le> cursor_x t + 1" using x d(3) cur by (simp add: u32_le_iff)
        moreover have "\<not> rows \<le> cursor_y t" using t(3) by (simp only: not_le)
        ultimately have "tty_scroll drv (tty_wrap ?t1) s1 = Ret (?t1, s1)" using t by (simp add: tty_wrap_def tty_scroll_def)
        then show ?thesis using neq False s1(1,2) lc e d x
          by (auto simp: same_parser_def tty_shows_def intro!: returns_mono [OF move_on_screen])
      qed
    qed
  qed
qed

lemma puts_shows:
  assumes "tty_ok rows columns t" and "inv s" and "tty_shows rows columns lc t (screen s)" and "\<forall>c \<in> set msg. plain_char c"
    and "ansi_state t = TTY_ANSI_STATE_NORMAL"
  shows "returns (tty_puts drv msg t s) (\<lambda>(t', s'). inv s' \<and> outside s' = outside s \<and>
    fgcolor t' = fgcolor t \<and> bgcolor t' = bgcolor t \<and> ansi_state t' = TTY_ANSI_STATE_NORMAL \<and> tty_ok rows columns t' \<and>
    tty_shows rows columns (foldl (type_char (unat columns)) lc msg) t' (screen s'))"
  using assms
proof (induction msg arbitrary: t s lc)
  case (Cons c cs)
  have "returns (tty_putchar drv c t s) (\<lambda>(t', s'). tty_ok rows columns t' \<and> (inv s' \<and> outside s' = outside s \<and>
      fgcolor t' = fgcolor t \<and> bgcolor t' = bgcolor t \<and> ansi_state t' = TTY_ANSI_STATE_NORMAL \<and>
      tty_shows rows columns (type_char (unat columns) lc c) t' (screen s')))"
  proof (rule putchar_bind [OF Cons.prems(1)])
    fix b assume "byte_queue b" "cb_elems b = []"
    then have ok: "tty_ok rows columns (t\<lparr>tty_output := b\<rparr>)" using Cons.prems(1) by (simp add: tty_ok_def)
    have sh: "tty_shows rows columns lc (t\<lparr>tty_output := b\<rparr>) (screen s)" using Cons.prems(3) by (simp add: tty_shows_def)
    have pc: "plain_char c" using Cons.prems(4) by simp
    have "returns (tty_render drv c (t\<lparr>tty_output := b\<rparr>) s) (\<lambda>(t', s'). inv s' \<and> outside s' = outside s \<and>
        same_parser (t\<lparr>tty_output := b\<rparr>) t' \<and> tty_shows rows columns (type_char (unat columns) lc c) t' (screen s'))"
      by (rule render_shows [OF ok Cons.prems(2) sh pc]) (simp add: Cons.prems(5))
    moreover have "returns (tty_render drv c (t\<lparr>tty_output := b\<rparr>) s) (\<lambda>(t', s'). tty_ok rows columns t' \<and> inv s' \<and> outside s' = outside s)"
      by (rule render_ok [OF ok Cons.prems(2)])
    ultimately show "returns (tty_render drv c (t\<lparr>tty_output := b\<rparr>) s) (\<lambda>(t', s'). tty_ok rows columns t' \<and> (inv s' \<and>
        outside s' = outside s \<and> fgcolor t' = fgcolor t \<and> bgcolor t' = bgcolor t \<and> ansi_state t' = TTY_ANSI_STATE_NORMAL \<and>
        tty_shows rows columns (type_char (unat columns) lc c) t' (screen s')))"
      using Cons.prems(5) by (auto simp: returns_def same_parser_def)
  qed
  then show ?case unfolding tty_puts.simps
  proof (rule returns_bind, elim case_prodE conjE, goal_cases)
    case (1 x t1 s1)
    then show ?case using Cons.IH [OF 1(3,4,9) _ 1(8)] Cons.prems(4) by (auto elim!: returns_mono)
  qed
qed simp

lemma clear_shows:
  assumes "tty_ok rows columns t" and "inv s"
  shows "returns (tty_clear drv t s) (\<lambda>(t', s'). inv s' \<and> outside s' = outside s \<and> same_parser t t' \<and>
    tty_ok rows columns t' \<and> tty_shows rows columns ([], []) t' (screen s'))"
proof -
  have t: "tty_columns t = columns" "tty_rows t = rows" using assms(1) by (simp_all add: tty_ok_def)
  have ok: "tty_ok rows columns (t\<lparr>cursor_x := 0, cursor_y := 0\<rparr>)" using assms(1) size_pos by (simp add: tty_ok_def)
  obtain r where "unat rows = Suc r" using size_pos(1) by (metis gr0_conv_Suc u32_less_iff unsigned_0)
  then have "text_display (tty_entry t) (unat rows) (unat columns) ([], []) =
      replicate (unat rows * unat columns) (tty_entry t (asc CHR '' ''))"
    by (simp add: text_display_split lines_above_def text_row_empty replicate_add [symmetric])
  then show ?thesis
    using ok by (auto simp: same_parser_def tty_shows_def intro!: returns_mono [OF clear_screen [OF assms(2) t]])
qed

lemma clear_puts_shows:
  assumes "tty_ok rows columns t" and "inv s" and "ansi_state t = TTY_ANSI_STATE_NORMAL" and "\<forall>c \<in> set msg. plain_char c"
  shows "returns (kbind (tty_clear drv t s) (\<lambda>(t1, s1). tty_puts drv msg t1 s1)) (\<lambda>(t', s').
    tty_shows rows columns (wrap_text (unat columns) msg) t' (screen s') \<and> fgcolor t' = fgcolor t \<and> bgcolor t' = bgcolor t)"
proof (rule returns_bind [OF clear_shows [OF assms(1,2)]], elim case_prodE conjE, goal_cases)
  case (1 x t1 s1)
  then have "ansi_state t1 = TTY_ANSI_STATE_NORMAL" "fgcolor t1 = fgcolor t" "bgcolor t1 = bgcolor t"
    using assms(3) by (simp_all add: same_parser_def)
  then show ?case using 1 puts_shows [OF _ _ _ assms(4), of t1 s1 "([], [])"]
    by (auto simp: wrap_text_def elim!: returns_mono)
qed

end

text \<open>A small terminal on a blank VGA screen.\<close>

definition small_vga :: "ide vga" where
  "small_vga = \<lparr>vga_tm_video_memory = (\<lambda>_. 0),
     vga_current_video_mode = Some (VGA_VIDEO_MODE_DESCRIPTOR_TABLE VGA_80x25_16_TEXT), vga_hw = small_ide\<rparr>"

definition byte_buffer :: circular_buffer where
  "byte_buffer = \<lparr>cb_self = 0x1000, cb_buffer = 0x2000, cb_mem = [0, 0, 0, 0], cb_head = 0, cb_tail = 0,
     cb_capacity = 4, cb_element_size = 1, cb_full = False\<rparr>"

definition small_tty :: tty where
  "small_tty = \<lparr>tty_addr = 0x3000, tty_rows = 25, tty_columns = 80, cursor_x = 0, cursor_y = 24, fgcolor = TTY_WHITE,
     bgcolor = TTY_BLACK, tty_input = byte_buffer, tty_output = byte_buffer, tty_layout = tty_keyboard_layout_de_DE,
     ansi_state = TTY_ANSI_STATE_NORMAL, ansi_params = replicate 8 0, ansi_param_count = 0, ansi_current = 0\<rparr>"

lemma byte_buffer_ok: "byte_queue byte_buffer" "cb_elems byte_buffer = []"
  by (simp_all add: byte_queue_def cb_inv_def byte_buffer_def cb_elems_def cb_count_def)

lemma small_tty_ok: "tty_ok 25 80 small_tty" and small_vga_inv: "vga_text_inv small_vga"
  using byte_buffer_ok by (simp_all add: tty_ok_def small_tty_def vga_text_inv_def small_vga_def)

subsection \<open>Properties\<close>

text \<open>
  C29. A terminal on the VGA screen never leaves it. After any history of written bytes (escape
  sequences, cut off or nonsensical ones included), clearing, colour changes, key events and reads,
  from a created terminal on: the cursor is on the screen, the parser has stored its parameters
  inside their array, no video memory outside the screen has changed, and whatever comes next,
  a written byte or a key, is handled without a fault.
\<close>

theorem tty_stays_on_screen:
  assumes "(tty_step (vga_driver io))\<^sup>*\<^sup>* (ks, t, v) (ks', t', v')" and "vga_text_inv v"
    and "tty_ok 25 80 t \<or> (\<exists>layout junk message std std' h h'. kheap_inv h \<and>
      tty_create (vga_driver io) layout junk message std v h = Ret ((Some t, std'), h'))"
  shows "cursor_x t' < 80 \<and> cursor_y t' < 25 \<and> ansi_param_count t' \<le> 8 \<and> length (ansi_params t') = 8 \<and>
    vga_outside v' = vga_outside v \<and>
    returns (tty_putchar (vga_driver io) ch t' v') (\<lambda>_. True) \<and> returns (tty_clear (vga_driver io) t' v') (\<lambda>_. True) \<and>
    returns (tty_keyboard_listener (vga_driver io) interruptible event ks' t' v') (\<lambda>_. True) \<and>
    returns (tty_getchar t') (\<lambda>_. True)"
proof -
  have "tty_ok 25 80 t" using assms(2,3) by (auto dest: vga.create_ok)
  from vga.steps_ok [OF assms(1) this assms(2)] have ok: "tty_ok 25 80 t'" and v: "vga_text_inv v'" "vga_outside v' = vga_outside v"
    by simp_all
  show ?thesis
    using ok v returns_mono [OF vga.putchar_ok [OF ok v(1)]] returns_mono [OF vga.clear_shows [OF ok v(1)]]
      returns_mono [OF vga.listener_ok [OF ok v(1)]] returns_mono [OF vga.getchar_ok [OF ok]]
    by (simp add: tty_ok_def)
qed

theorem tty_stays_on_screen_witness:
  "returns (tty_putchar (vga_driver ide_ports) 65 (tty_set_bgcolor 1 (tty_set_fgcolor 2 small_tty)) small_vga) (\<lambda>_. True)"
  using tty_stays_on_screen [OF r_into_rtranclp [of "tty_step (vga_driver ide_ports)", OF step_colours [of _ undefined small_tty small_vga 1 2]]
      small_vga_inv, of 65] small_tty_ok by blast

text \<open>
  C30. Plain text written to a cleared terminal (any characters but backspace, tab, carriage return
  and escape) appears on the screen as the last 25 lines of the text, wrapped at 80 columns, each
  filled up with blanks; the cursor stands behind the last character.
\<close>

theorem tty_shows_text:
  assumes "tty_ok 25 80 t" and "vga_text_inv v" and "ansi_state t = TTY_ANSI_STATE_NORMAL"
    and "\<forall>c \<in> set msg. c \<notin> {8, 9, 13, 27}"
  shows "returns (kbind (tty_clear (vga_driver io) t v) (\<lambda>(t1, v1). tty_puts (vga_driver io) msg t1 v1)) (\<lambda>(t', v').
    vga_screen v' = text_display (\<lambda>c. VGA_TM_ENTRY c (fgcolor t) (bgcolor t)) 25 80 (wrap_text 80 msg) \<and>
    unat (cursor_x t') = length (snd (wrap_text 80 msg)) \<and>
    unat (cursor_y t') = min (length (fst (wrap_text 80 msg))) 24)"
proof -
  have p: "\<forall>c \<in> set msg. plain_char c" using assms(4) by (simp add: plain_char_def)
  show ?thesis
    by (rule returns_mono [OF vga.clear_puts_shows [OF assms(1-3) p]]) (auto simp: tty_shows_def)
qed

theorem tty_shows_text_witness:
  "returns (kbind (tty_clear (vga_driver ide_ports) small_tty small_vga) (\<lambda>(t1, v1). tty_puts (vga_driver ide_ports) (str ''hi'') t1 v1))
    (\<lambda>(t', v'). cursor_x t' = 2 \<and> cursor_y t' = 0 \<and>
      take 3 (vga_screen v') = [0x0F68, 0x0F69, 0x0F20])"
  by (rule returns_mono [OF tty_shows_text [OF small_tty_ok small_vga_inv]])
    (simp_all add: small_tty_def str_def wrap_text_def text_display_def text_row_def VGA_TM_ENTRY_def asc_def TTY_WHITE_def
      TTY_BLACK_def u32_eq_iff, auto simp: u32_eq_iff)

end
