(* ===== verification/File_Props.thy ===== *)
theory File_Props
  imports Files
begin

text \<open>
  Properties of open files and directories: the offset of a file stays inside it, seeking, and the
  table of open directories.
\<close>

subsection \<open>How far a read gets\<close>

text \<open>A read returns -1, 0, or a number that stays below the end of the request, all modulo the word size.\<close>

definition read_result :: "u32 \<Rightarrow> u32 \<Rightarrow> int \<Rightarrow> bool" where
  "read_result off sz n \<longleftrightarrow> n = -1 \<or> n = 0 \<or> (\<exists>s. n = sint s \<and> off + s \<le> off + sz)"

lemma read_result_cut: "read_result off sz (sint (if l < off + sz then l - off else sz :: u32))"
  unfolding read_result_def
  by (intro disjI2, rule exI [of _ "if l < off + sz then l - off else sz"]) (auto simp: less_imp_le)

lemma initfs_read_result:
  "initfs_read vread filesystem node off sz k = Ret ((n, bs), k') \<Longrightarrow> read_result off sz n"
  by (auto simp: initfs_read_def Let_def kbind_Ret_iff read_result_cut [simplified] split: if_splits inode_data.splits)
    (auto simp: read_result_def read_result_cut)

lemma ext2_read_loop_result:
  "ext2_read_loop vread filesystem inode block_size off sz r out buffer k = Ret ((n, out'), k') \<Longrightarrow> r \<le> sz \<Longrightarrow> n = sz"
proof (induction "unat sz - unat r" arbitrary: r out buffer k rule: less_induct)
  case less
  show ?case
  proof (cases "r < sz \<and> block_size \<noteq> 0")
    case False
    then show ?thesis using less.prems by (auto simp: ext2_read_loop.simps [of _ _ _ _ _ _ r] split: if_splits)
  next
    case True
    then have t: "r < sz" "block_size \<noteq> 0" by simp_all
    define c where "c = (if sz - r < block_size - (off + r) mod block_size then sz - r
                  else block_size - (off + r) mod block_size)"
    note ch = ext2_chunk [OF t c_def]
    from less.prems(1) [unfolded ext2_read_loop.simps [of _ _ _ _ _ _ r] if_P [OF t(1)] if_not_P [OF t(2)] Let_def
        c_def [symmetric] kbind_Ret_iff]
    obtain bs buf k2 where l: "ext2_read_loop vread filesystem inode block_size off sz (r + c) (out @ bs) buf k2 =
        Ret ((n, out'), k')"
      by (auto simp: kbind_Ret_iff case_prod_beta split: if_splits)
    have lt: "unat sz - unat (r + c) < unat sz - unat r" unfolding c_def by (rule ext2_chunk_less [OF t])
    have le: "r + c \<le> sz" using ch(1,3) t(1) by (simp only: u32_le_iff u32_less_iff)
    show ?thesis by (rule less.hyps [OF lt l le])
  qed
qed

lemma ext2_read_result:
  assumes "ext2_read vread filesystem node off sz k = Ret ((n, bs), k')"
  shows "read_result off sz n"
proof (cases "vn_inode_data node")
  case (Ext2_data p inode)
  let ?s = "if i_size inode < off + sz then i_size inode - off else sz"
  have "n = 0 \<or> n = sint ?s"
    using assms Ext2_data
    by (auto simp: ext2_read_def Let_def kbind_Ret_iff split: if_splits dest!: ext2_read_loop_result)
  then show ?thesis using read_result_cut [of off sz "i_size inode"] by (auto simp: read_result_def)
qed (use assms in \<open>auto simp: ext2_read_def read_result_def split: if_splits\<close>)

lemma vfs_read_result: "vfs_read io node off sz k = Ret ((n, bs), k') \<Longrightarrow> read_result off sz n"
  by (auto simp: vfs_read_def kbind_Ret_iff split: option.splits if_splits
      dest: initfs_read_result ext2_read_result) (simp_all add: read_result_def)

subsection \<open>Descriptors\<close>

text \<open>What can happen to an open file: reads, writes and seeks with any arguments, in any order.\<close>

inductive file_step :: "'c ports \<Rightarrow> file_descriptor \<times> ('c, 'm) fkernel_scheme \<Rightarrow> file_descriptor \<times> ('c, 'm) fkernel_scheme \<Rightarrow> bool"
  for io where
  step_read: "file_read io (Some f) sz k = Ret ((n, bs, Some f'), k') \<Longrightarrow> file_step io (f, k) (f', k')"
| step_write: "file_write (Some f) buffer sz = (n, Some f') \<Longrightarrow> file_step io (f, k) (f', k)"
| step_seek: "file_seek (Some f) offset whence = (n, Some f') \<Longrightarrow> file_step io (f, k) (f', k)"

inductive_cases file_stepE: "file_step io (f, k) (f', k')"

definition fd_ok :: "file_descriptor \<Rightarrow> bool" where
  "fd_ok f \<longleftrightarrow> fd_offset f \<le> fd_size f"

definition fd_same :: "file_descriptor \<Rightarrow> file_descriptor \<Rightarrow> bool" where
  "fd_same f f' \<longleftrightarrow> fd_addr f' = fd_addr f \<and> fd_node f' = fd_node f \<and> fd_size f' = fd_size f \<and> fd_flags f' = fd_flags f"

lemma fd_same_refl: "fd_same f f"
  and fd_same_offset: "fd_same f (f\<lparr>fd_offset := x\<rparr>)"
  and fd_same_trans: "fd_same f g \<Longrightarrow> fd_same g h \<Longrightarrow> fd_same f h"
  by (simp_all add: fd_same_def)

lemma read_result_offset:
  assumes "read_result off (if size' < off + sz then size' - off else sz) n" and "off \<le> size'" and "0 \<le> n"
  shows "off + of_int n \<le> (size' :: u32)"
proof -
  let ?s = "if size' < off + sz then size' - off else sz"
  have le: "off + ?s \<le> size'" by (cases "size' < off + sz") (simp_all add: not_less)
  from assms(1,3) consider "n = 0" | s where "n = sint s" "off + s \<le> off + ?s"
    unfolding read_result_def by auto
  then show ?thesis
  proof cases
    case 1
    then show ?thesis using assms(2) by simp
  next
    case 2
    have "of_int n = s" unfolding 2(1) by simp
    then show ?thesis using order_trans [OF 2(2) le] by simp
  qed
qed

lemma file_read_ok:
  assumes "file_read io (Some f) sz k = Ret ((n, bs, Some f'), k')" and "fd_ok f"
  shows "fd_ok f' \<and> fd_same f f'"
proof -
  define z where "z = (if fd_size f < fd_offset f + sz then fd_size f - fd_offset f else sz)"
  show ?thesis
  proof (cases "fd_node f = None \<or> fd_flags f AND FILE_RDONLY = 0")
    case True
    then have "f' = f" using assms(1) by (cases "fd_node f = None") (simp_all add: file_read_def)
    then show ?thesis using assms(2) fd_same_refl by simp
  next
    case False
    then have c: "fd_node f \<noteq> None" "fd_flags f AND FILE_RDONLY \<noteq> 0" by simp_all
    have "kbind (vfs_read io (fd_node f) (fd_offset f) z k) (\<lambda>((m, buffer), k1).
        if m < 0 then Ret ((-1, buffer, Some f), k1)
        else Ret ((m, buffer, Some (f\<lparr>fd_offset := fd_offset f + of_int m\<rparr>)), k1)) = Ret ((n, bs, Some f'), k')"
      using assms(1) unfolding file_read_def option.case if_not_P [OF c(1)] if_not_P [OF c(2)] Let_def z_def [symmetric] .
    then obtain m b k1 where m: "vfs_read io (fd_node f) (fd_offset f) z k = Ret ((m, b), k1)"
      and f': "f' = (if m < 0 then f else f\<lparr>fd_offset := fd_offset f + of_int m\<rparr>)"
      unfolding kbind_Ret_iff by (auto split: if_splits)
    have "0 \<le> m \<Longrightarrow> fd_offset f + of_int m \<le> fd_size f"
      using read_result_offset [OF vfs_read_result [OF m, unfolded z_def]] assms(2) by (simp add: fd_ok_def)
    then show ?thesis using f' assms(2) fd_same_refl fd_same_offset by (auto simp: fd_ok_def)
  qed
qed

lemma vfs_write_fails: "vfs_write node off sz buffer = -1"
  by (simp add: vfs_write_def initfs_write_def ext2_write_def split: option.split)

lemma file_write_ok: "file_write (Some f) buffer sz = (n, Some f') \<Longrightarrow> f' = f \<and> n = -1"
  by (auto simp: file_write_def Let_def vfs_write_fails split: if_splits)

lemma file_seek_ok: "file_seek (Some f) offset whence = (n, Some f') \<Longrightarrow> fd_ok f \<Longrightarrow> fd_ok f' \<and> fd_same f f'"
  by (auto simp: file_seek_def Let_def fd_ok_def not_less fd_same_refl fd_same_offset split: if_splits)

lemma file_step_ok: "file_step io (f, k) (f', k') \<Longrightarrow> fd_ok f \<Longrightarrow> fd_ok f' \<and> fd_same f f'"
  by (elim file_stepE) (auto dest: file_read_ok file_write_ok file_seek_ok simp: fd_same_refl)

lemma file_steps_ok:
  "(file_step io)\<^sup>*\<^sup>* (f, k) (f', k') \<Longrightarrow> fd_ok f \<Longrightarrow> fd_ok f' \<and> fd_same f f'"
proof (induction "(f', k')" arbitrary: f' k' rule: rtranclp_induct)
  case base
  then show ?case by (simp add: fd_same_refl)
next
  case (step y)
  obtain g l where y: "y = (g, l)" by (cases y)
  then show ?case using step fd_same_trans file_step_ok by blast
qed

lemma file_open_fresh:
  "file_open io junk path flags k = Ret (Some f, k') \<Longrightarrow> fd_ok f"
  by (auto simp: fd_ok_def file_open_def kbind_Ret_iff split: if_splits option.splits)

subsection \<open>Seeking\<close>

lemma word_of_int_eq: "0 \<le> t \<Longrightarrow> t < 4294967296 \<Longrightarrow> uint (of_int t :: u32) = t"
  by (simp add: uint_word_of_int)

lemma word_of_int_neg: "- 4294967296 \<le> t \<Longrightarrow> t < 0 \<Longrightarrow> uint (of_int t :: u32) = t + 4294967296"
  using mod_pos_pos_trivial [of "t + 4294967296" 4294967296] by (simp add: uint_word_of_int)

definition seek_base :: "file_descriptor \<Rightarrow> int \<Rightarrow> int" where
  "seek_base f whence = (if whence = FILE_SEEK_CUR then uint (fd_offset f)
     else if whence = FILE_SEEK_BEGIN then 0 else uint (fd_size f))"

lemma file_seek_target:
  assumes "fd_node f \<noteq> None" and "whence \<in> {FILE_SEEK_CUR, FILE_SEEK_BEGIN, FILE_SEEK_END}"
  shows "file_seek (Some f) offset whence =
    (0, Some (f\<lparr>fd_offset := min (of_int (seek_base f whence + offset)) (fd_size f)\<rparr>))"
  using assms by (auto simp: file_seek_def file_seek_simps seek_base_def Let_def min_def not_less)

text \<open>An open file of 100 bytes.\<close>

definition small_fd :: file_descriptor where
  "small_fd = \<lparr>fd_addr = 1, fd_node = Some small_file, fd_size = 100, fd_offset = 0, fd_flags = FILE_RDONLY\<rparr>"

subsection \<open>Properties\<close>

text \<open>
  C27. From \<open>file_open\<close> on, whatever reads, writes and seeks follow, with any sizes and offsets and on
  any volume, the offset of a descriptor never leaves its file, and its node, size and flags stay
  the same.
\<close>

theorem file_offset_invariant:
  assumes "(file_step io)\<^sup>*\<^sup>* (f, k) (f', k')"
    and "fd_ok f \<or> (\<exists>junk path flags k0. file_open io junk path flags k0 = Ret (Some f, k))"
  shows "fd_offset f' \<le> fd_size f' \<and> fd_size f' = fd_size f \<and> fd_node f' = fd_node f \<and> fd_flags f' = fd_flags f"
proof -
  have "fd_ok f" using assms(2) by (elim disjE exE) (auto dest: file_open_fresh)
  then show ?thesis using file_steps_ok [OF assms(1)] by (auto simp: fd_ok_def fd_same_def)
qed

theorem file_offset_invariant_witness:
  "fd_size (small_fd\<lparr>fd_offset := 100\<rparr>) = fd_size small_fd \<and> fd_offset (small_fd\<lparr>fd_offset := 100\<rparr>) \<le> 100"
proof -
  have "file_step ide_ports (small_fd, small_fkernel) (small_fd\<lparr>fd_offset := 100\<rparr>, small_fkernel)"
    by (rule step_seek [of _ 250 0 0]) (simp add: file_seek_def small_fd_def file_seek_simps Let_def)
  from file_offset_invariant [OF r_into_rtranclp [of "file_step ide_ports", OF this]]
  show ?thesis by (simp add: fd_ok_def small_fd_def)
qed

text \<open>
  Seeking in an open file of less than 2 GiB, from the current offset, the beginning or the end:
  a target inside the file is reached exactly, a target behind the end is cut to the end. A target
  before the beginning also lands at the end, because the offset is unsigned; the test that should
  move it to the beginning never holds. Any other origin is refused with -1 and changes nothing.
\<close>

theorem file_seek_lands:
  assumes "fd_node f \<noteq> None" and "fd_offset f \<le> fd_size f" and "fd_size f < 0x80000000"
    and "- 0x80000000 \<le> offset" and "offset < 0x80000000"
  shows "file_seek (Some f) offset whence =
    (if whence \<notin> {FILE_SEEK_CUR, FILE_SEEK_BEGIN, FILE_SEEK_END} then (-1, Some f)
     else let t = seek_base f whence + offset
          in (0, Some (f\<lparr>fd_offset := (if 0 \<le> t \<and> t \<le> uint (fd_size f) then of_int t else fd_size f)\<rparr>)))"
proof (cases "whence \<in> {FILE_SEEK_CUR, FILE_SEEK_BEGIN, FILE_SEEK_END}")
  case False
  then show ?thesis using assms(1) by (auto simp: file_seek_def)
next
  case True
  let ?t = "seek_base f whence + offset"
  have s: "uint (fd_size f) < 2147483648" using assms(3) by (simp add: word_less_def)
  have b: "0 \<le> seek_base f whence" "seek_base f whence \<le> uint (fd_size f)"
    using assms(2) by (auto simp: seek_base_def word_le_def)
  have "min (of_int ?t) (fd_size f) = (if 0 \<le> ?t \<and> ?t \<le> uint (fd_size f) then of_int ?t else fd_size f)"
  proof (cases "0 \<le> ?t")
    case True
    then have "uint (of_int ?t :: u32) = ?t" using b s assms(5) by (intro word_of_int_eq) linarith+
    then show ?thesis using True by (simp add: min_def word_le_def)
  next
    case False
    then have "uint (of_int ?t :: u32) = ?t + 4294967296" using b s assms(4) by (intro word_of_int_neg) linarith+
    then show ?thesis using False s b assms(4) by (simp add: min_def word_le_def)
  qed
  then show ?thesis using file_seek_target [OF assms(1) True] True by (simp add: Let_def)
qed

theorem file_seek_lands_witness:
  "file_seek (Some small_fd) 60 FILE_SEEK_BEGIN = (0, Some (small_fd\<lparr>fd_offset := 60\<rparr>)) \<and>
   file_seek (Some small_fd) (-1) FILE_SEEK_BEGIN = (0, Some (small_fd\<lparr>fd_offset := 100\<rparr>))"
  using file_seek_lands [of small_fd 60 FILE_SEEK_BEGIN] file_seek_lands [of small_fd "-1" FILE_SEEK_BEGIN]
  by (simp add: small_fd_def file_seek_simps seek_base_def Let_def)

end
