(* ===== verification/Ramdisk.thy ===== *)
theory Ramdisk
  imports File_Props
begin

text \<open>
  The file stack over a packed ramdisk, from the mount table down to the volume: what mounting the
  image, opening a path and reading from the descriptor do together.
\<close>

subsection \<open>Mounting\<close>

text \<open>A drive that holds a mounted image of the ramdisk.\<close>

definition ramdisk_mounted :: "nat \<Rightarrow> volume \<Rightarrow> ('c, 'm) fkernel_scheme \<Rightarrow> bool" where
  "ramdisk_mounted index v k \<longleftrightarrow> (\<exists>p filesystem root. p \<noteq> 0 \<and> mnt_mountpoints k ! index = p \<and>
     filesystems k p = Some filesystem \<and> fs_volume filesystem = v \<and> fs_root filesystem = Some root \<and>
     vn_type root = VFS_DIRECTORY \<and> vn_operations root = initfs_directory_operations \<and> vn_filesystem root = p)"

lemma grows_fkernel:
  assumes "grows k k'"
  shows "mnt_mountpoints k' = mnt_mountpoints k" and "filesystems k' = filesystems k"
  using assms by (auto simp: grows_def frame_def)

lemma drive_index:
  assumes "asc CHR ''A'' \<le> drive \<and> drive \<le> asc CHR ''Z'' \<or> asc CHR ''a'' \<le> drive \<and> drive \<le> asc CHR ''z''"
  shows "0 \<le> mnt_get_drive_index drive \<and> mnt_get_drive_index drive < 26"
  using assms unfolding mnt_get_drive_index_def asc_def
  by (auto simp: word_le_def uint_word_ariths)

context volume_image
begin

lemma initfs_init_image:
  assumes "inv k" and "vread v = rd" and "\<And>off n. ok_range off n" and "img = mkinitfs files @ rest" and "files_ok files"
  shows "ret_or_panic oom (initfs_init vread junk v k) (\<lambda>(r, k'). inv k' \<and> grows k k' \<and>
    (\<exists>p q. r = Some (p, \<lparr>fs_root = None, fs_volume = v, fs_data = None, fs_operations = initfs_operations,
       fs_operations_addr = q\<rparr>) \<and> p \<noteq> 0))"
  unfolding initfs_init_def initfs_probe_def kbind_assoc
proof (rule read_initfs_header [where vread = vread and v = v, OF assms], goal_cases)
  case (1 k1)
  show ?case
  proof (simp add: initfs_header_fields, rule kmalloc_bind [OF 1(1)], simp, goal_cases)
    case prems: (1 p h1)
    have g: "grows k (k1\<lparr>k_heap := h2\<rparr>)" if "heap_plus h1 q 8 h2" for q h2
      using grows_trans [OF grows_trans [OF 1(2) grows_alloc [OF prems(1)]] grows_alloc [of "k1\<lparr>k_heap := h1\<rparr>" q 8 h2]] that
      by simp
    have p0: "p \<noteq> 0" using prems(1) by (simp add: heap_plus_def)
    show ?case
      by (rule ret_or_panic_bind [OF kmalloc_or_panic_plus [OF heap_plus_inv [OF prems(1)]]])
        (use p0 1 inv_set_heap heap_plus_inv in \<open>auto intro: g\<close>)
  qed
qed

end

lemma initrd_volume_more [simp]:
  "initrd_volume v mem (set_mountpoint i p k) = initrd_volume v mem k"
  "initrd_volume v mem (set_filesystem p f k) = initrd_volume v mem k"
  by (simp_all add: initrd_volume_def set_mountpoint_def set_filesystem_def)

lemma ramdisk_install:
  assumes "initrd_volume v mem k" and "i < length (mnt_mountpoints k)" and "p \<noteq> 0"
    and "fs_operations filesystem = initfs_operations" and "fs_volume filesystem = v"
  shows "ret_or_panic oom (mnt_install io i (Some (p, filesystem)) k)
    (\<lambda>(e, k'). e = 0 \<and> ramdisk_mounted i v k' \<and> initrd_volume v mem k')"
proof -
  let ?k = "set_mountpoint i p (set_filesystem p (Some filesystem) k)"
  have f: "filesystems ?k p = Some filesystem" by (simp add: set_mountpoint_def set_filesystem_def)
  have "initrd_volume v mem ?k" using assms(1) by simp
  then have "ret_or_panic oom (fs_mount io p ?k)
      (\<lambda>(e, k'). e = 0 \<and> ramdisk_mounted i v k' \<and> initrd_volume v mem k')"
    unfolding fs_mount_def f or_simps kbind.simps assms(4) vfs_filesystem_operations.case initfs_mount_def kbind_assoc
    by (rule initrd_image.kmalloc_bind)
      (use assms in \<open>auto simp: ramdisk_mounted_def set_mountpoint_def set_filesystem_def initrd_volume_def\<close>)
  then show ?thesis unfolding mnt_install_def option.case prod.case by (rule ret_or_panic_bind) auto
qed

lemma ramdisk_mount:
  assumes "initrd_volume v mem k" and "take (unat (vol_size v)) (drop (unat (vol_offset v)) mem) = mkinitfs files @ rest"
    and "files_ok files" and "mnt_get_drive_index drive = int i" and "i < length (mnt_mountpoints k)"
    and "mnt_mountpoints k ! i = 0"
  shows "ret_or_panic oom (mnt_volume_mount io junk drive v k)
    (\<lambda>(e, k'). e = 0 \<and> ramdisk_mounted i v k' \<and> initrd_volume v mem k')"
proof -
  have d: "mnt_get_drive_index drive \<noteq> -1" and z: "\<not> mnt_mountpoints k ! nat (mnt_get_drive_index drive) \<noteq> 0"
    using assms(4,6) by simp_all
  show ?thesis
    unfolding mnt_volume_mount_def Let_def if_not_P [OF d] if_not_P [OF z] initfs_probe_def kbind_assoc
  proof (rule initrd_image.read_initfs_header [where vread = "volume_read io", OF assms(1) refl TrueI assms(2,3)], goal_cases)
    case (1 k1)
    show ?case
    proof (simp add: initfs_header_fields,
        rule ret_or_panic_bind [OF initrd_image.initfs_init_image [where vread = "volume_read io", OF 1(1) refl TrueI assms(2,3)]])
      fix x :: "(u32 \<times> vfs_filesystem) option \<times> ('a, 'b) fkernel_scheme"
      assume x: "case x of (r, k') \<Rightarrow> initrd_volume v mem k' \<and> grows k1 k' \<and>
        (\<exists>p q. r = Some (p, \<lparr>fs_root = None, fs_volume = v, fs_data = None, fs_operations = initfs_operations,
          fs_operations_addr = q\<rparr>) \<and> p \<noteq> 0)"
      obtain r k2 where y: "x = (r, k2)" by (cases x)
      have "grows k k2" using grows_trans [OF 1(2)] x y by auto
      from grows_fkernel(1) [OF this]
      show "ret_or_panic oom (case x of (m, k2) \<Rightarrow> mnt_install io (nat (mnt_get_drive_index drive)) m k2)
          (\<lambda>(e, k'). e = 0 \<and> ramdisk_mounted i v k' \<and> initrd_volume v mem k')"
        using x y assms(4-6) by (auto intro!: ramdisk_install)
    qed
  qed
qed

subsection \<open>Opening and reading\<close>

definition ramdisk_fd :: "initfs_entry list \<Rightarrow> volume \<Rightarrow> bytes \<Rightarrow> ('c, 'm) fkernel_scheme \<Rightarrow> file_descriptor \<Rightarrow> bool" where
  "ramdisk_fd files v data k f \<longleftrightarrow> (\<exists>node i filesystem. fd_node f = Some node \<and> initfs_open_node_of files i node \<and>
     snd (files ! i) = data \<and> filesystems k (vn_filesystem node) = Some filesystem \<and> fs_volume filesystem = v \<and>
     unat (fd_size f) = length data)"

lemma kbind_Ret_right: "kbind m Ret = m"
  by (cases m) simp_all

lemma ramdisk_walk:
  assumes "initrd_volume v mem k" and "take (unat (vol_size v)) (drop (unat (vol_offset v)) mem) = mkinitfs files @ rest"
    and "files_ok files" and "c_string name" and "filesystems k (vn_filesystem root) = Some filesystem"
    and "fs_volume filesystem = v" and "vn_type root = VFS_DIRECTORY" and "vn_operations root = initfs_directory_operations"
  shows "ret_or_panic oom (vfs_walk io junk (Some root) [name] k)
    (\<lambda>(r, k'). initfs_found files 0 name (vn_filesystem root) r \<and> initrd_volume v mem k' \<and> grows k k')"
proof -
  have v: "volume_read io (fs_volume filesystem) = volume_read io v" using assms(6) by simp
  show ?thesis using assms(5,7,8) initrd_image.initfs_finddir_image
      [where vread = "volume_read io", OF v TrueI assms(2-4,1), of junk root]
    by (auto simp: searchable_def vfs_finddir_def node_filesystem_def vfs_walk_Nil kbind_Ret_right)
qed

lemma ramdisk_path:
  assumes "name \<noteq> []" and "slash \<notin> set name"
  shows "path_components name = [name]" and "name \<noteq> [slash]" and "name ! 0 \<noteq> slash"
proof -
  obtain c n where n: "name = c # n" "c \<noteq> slash" using assms by (cases name) auto
  have s: "set name \<inter> {slash} = {}" using assms(2) by blast
  show "path_components name = [name]" unfolding path_components_def using n split_on_none [OF s] by simp
  show "name \<noteq> [slash]" "name ! 0 \<noteq> slash" using n by simp_all
qed

lemma ramdisk_open:
  assumes iv: "initrd_volume v mem k" and img: "take (unat (vol_size v)) (drop (unat (vol_offset v)) mem) = mkinitfs files @ rest"
    and ok: "files_ok files" and name: "c_string name" "name \<noteq> []" "slash \<notin> set name"
    and abs: "vfs_is_abs_path (drive # str '':/'' @ name)" and drive: "mnt_get_drive_index drive = int i"
    and mounted: "ramdisk_mounted i v k"
  shows "ret_or_panic oom (file_open io junk (drive # str '':/'' @ name) flags k)
    (\<lambda>(fd, k'). initrd_volume v mem k' \<and> (case map_of files name of
       None \<Rightarrow> fd = None
     | Some data \<Rightarrow> \<exists>f. fd = Some f \<and> ramdisk_fd files v data k' f \<and> fd_offset f = 0 \<and> fd_flags f = flags))"
proof -
  from mounted obtain p filesystem root where m: "p \<noteq> 0" "mnt_mountpoints k ! i = p" "filesystems k p = Some filesystem"
    "fs_volume filesystem = v" "fs_root filesystem = Some root" "vn_type root = VFS_DIRECTORY"
    "vn_operations root = initfs_directory_operations" "vn_filesystem root = p"
    by (auto simp: ramdisk_mounted_def)
  have pr: "path_root (drive # str '':/'' @ name) k = Ret (Some root)"
    using abs m drive by (simp add: path_root_def mnt_get_mountpoint_def Let_def str_def)
  have d: "drop 3 (drive # str '':/'' @ name) = name" by (simp add: str_def)
  have s: "searchable (Some root)" using m by (simp add: searchable_def)
  note np = ramdisk_path [OF name(2,3)]
  have find: "ret_or_panic oom (vfs_findpath io junk (Some root) name k)
      (\<lambda>(r, k'). initfs_found files 0 name p r \<and> initrd_volume v mem k' \<and> frame k k')"
    unfolding vfs_findpath_walks [OF name(1)]
  proof (simp add: s np name(2) del: vfs_walk.simps, rule initrd_image.kmalloc_bind [OF iv], simp del: vfs_walk.simps, goal_cases)
    case prems: (1 q h)
    have fs: "filesystems (k\<lparr>k_heap := h\<rparr>) (vn_filesystem root) = Some filesystem" using m by simp
    have free: "initrd_volume v mem (k1\<lparr>k_heap := kfree q (k_heap k1)\<rparr>) \<and> frame k (k1\<lparr>k_heap := kfree q (k_heap k1)\<rparr>)"
      if i1: "initrd_volume v mem k1" and g1: "grows (k\<lparr>k_heap := h\<rparr>) k1" for k1
    proof -
      obtain n where "(unat q, n) \<in> kheap_live (k_heap k1)"
        using prems(1) g1 by (auto simp: heap_plus_def grows_def)
      then have "kheap_inv (kfree q (k_heap k1))" using i1 kfree_live_ptr by (auto simp: initrd_volume_def)
      moreover have "frame (k\<lparr>k_heap := h\<rparr>) k1" using g1 by (simp add: grows_def)
      then have "frame k (k1\<lparr>k_heap := kfree q (k_heap k1)\<rparr>)"
        by (rule frame_set_heap [OF frame_trans [OF frame_heap]])
      ultimately show ?thesis using i1 by (simp add: initrd_volume_def)
    qed
    show ?case
      by (rule ret_or_panic_bind [OF ramdisk_walk [OF prems(2) img ok name(1) fs m(4,6,7)]])
        (use m(8) free in auto)
  qed
  show ?thesis unfolding file_open_def pr kbind.simps d if_not_P [OF option.distinct(2)]
  proof (rule ret_or_panic_bind [OF find], goal_cases)
    case (1 x)
    obtain r k1 where x: "x = (r, k1)" by (cases x)
    have r: "initfs_found files 0 name p r" and i1: "initrd_volume v mem k1" and f1: "frame k k1" using 1 x by simp_all
    have fs1: "filesystems k1 = filesystems k" using f1 by (auto simp: frame_def)
    show ?case
    proof (cases "map_of files name")
      case None
      then show ?thesis using r i1 x by (simp add: initfs_found_def)
    next
      case (Some data)
      then obtain node j where n: "r = Some node" "initfs_node_of files j node" "files ! j = (name, data)"
        "vn_filesystem node = p" using r by (auto simp: initfs_found_def)
      have v: "volume_read io (fs_volume filesystem) = volume_read io v" using m(4) by simp
      have len: "unat (of_nat (length data) :: u32) = length data"
      proof (rule unat_of_nat_u32)
        show "length data < 4294967296"
          using files_ok_at(4) [OF ok, of j] mkinitfs_parts(5) [OF ok, of j] n(2,3) by (simp add: initfs_node_of_def)
      qed
      have op: "is_initfs (vn_operations node)" using n(2) by (simp add: initfs_node_of_def)
      show ?thesis unfolding x prod.case n(1) option.case
      proof (rule initrd_image.kmalloc_bind [OF i1], simp only: prod.case, goal_cases)
        case (1 q h)
        have opened: "ret_or_panic oom (initfs_open (volume_read io) junk filesystem node (k1\<lparr>k_heap := h\<rparr>))
            (\<lambda>((e, node'), k2). e = 0 \<and> initfs_open_node_of files j node' \<and> vn_filesystem node' = vn_filesystem node \<and>
               initrd_volume v mem k2 \<and> grows (k1\<lparr>k_heap := h\<rparr>) k2)"
          by (rule initrd_image.initfs_open_image [where vread = "volume_read io", OF v TrueI img ok n(2) 1(2)])
        have "ret_or_panic oom (vfs_open io junk (Some node) (k1\<lparr>k_heap := h\<rparr>))
            (\<lambda>((e, node'), k2). e = 0 \<and> initrd_volume v mem k2 \<and>
               ramdisk_fd files v data k2 \<lparr>fd_addr = q, fd_node = node', fd_size = vn_length node, fd_offset = 0, fd_flags = flags\<rparr>)"
        proof (simp add: vfs_open_def node_filesystem_def op fs1 m(3) n(4), rule ret_or_panic_bind [OF opened], goal_cases)
          case (1 x)
          then obtain e node' k2 where x: "x = ((e, node'), k2)" and y: "e = 0" "initfs_open_node_of files j node'"
            "vn_filesystem node' = vn_filesystem node" "initrd_volume v mem k2" "grows (k1\<lparr>k_heap := h\<rparr>) k2"
            by (auto split: prod.splits)
          have "filesystems k2 p = Some filesystem" using y grows_fkernel(2) [of "k1\<lparr>k_heap := h\<rparr>" k2] fs1 m(3) by simp
          then show ?case using x y n(2-4) m(4) len by (auto simp: ramdisk_fd_def initfs_node_of_def)
        qed
        then show ?case by (rule ret_or_panic_bind) (auto simp: Some)
      qed
    qed
  qed
qed

text \<open>The number of bytes a read of an open file asks the file system for.\<close>

lemma read_cut:
  fixes sz off n :: u32
  assumes "unat n = length data" and "unat off \<le> length data" and "unat off + unat sz < 4294967296"
  shows "take (unat (if n < off + sz then n - off else sz)) (drop (unat off) data) = take (unat sz) (drop (unat off) data)"
    and "unat off + unat (if n < off + sz then n - off else sz) < 4294967296"
proof -
  have s: "unat (off + sz) = unat off + unat sz" using assms(3) by (rule unat_u32_add_small)
  show "take (unat (if n < off + sz then n - off else sz)) (drop (unat off) data) = take (unat sz) (drop (unat off) data)"
    and "unat off + unat (if n < off + sz then n - off else sz) < 4294967296"
    using assms s by (auto simp: u32_less_iff unat_u32_sub u32_le_iff)
qed

lemma ramdisk_read:
  assumes iv: "initrd_volume v mem k" and img: "take (unat (vol_size v)) (drop (unat (vol_offset v)) mem) = mkinitfs files @ rest"
    and ok: "files_ok files" and fd: "ramdisk_fd files v data k f" and flags: "fd_flags f AND FILE_RDONLY \<noteq> 0"
    and off: "unat (fd_offset f) \<le> length data" and small: "unat (fd_offset f) + unat sz < 4294967296"
    and data: "length data < 2147483648"
  shows "ret_or_panic oom (file_read io (Some f) sz k)
    (\<lambda>((n, bs, fd), k'). \<exists>f'. fd = Some f' \<and> bs = take (unat sz) (drop (unat (fd_offset f)) data) \<and> n = int (length bs) \<and>
       unat (fd_offset f') = unat (fd_offset f) + length bs \<and> fd_flags f' = fd_flags f \<and>
       ramdisk_fd files v data k' f' \<and> initrd_volume v mem k')"
proof -
  from fd obtain node i filesystem where m: "fd_node f = Some node" "initfs_open_node_of files i node"
    "snd (files ! i) = data" "filesystems k (vn_filesystem node) = Some filesystem" "fs_volume filesystem = v"
    "unat (fd_size f) = length data" by (auto simp: ramdisk_fd_def)
  define z where "z = (if fd_size f < fd_offset f + sz then fd_size f - fd_offset f else sz)"
  note cut = read_cut [OF m(6) off small, folded z_def]
  have n: "is_initfs (vn_operations node)" "has_file_operations (vn_operations node)" "vn_type node = VFS_FILE"
    using m(2) by (simp_all add: initfs_open_node_of_def initfs_node_of_def)
  have v: "volume_read io (fs_volume filesystem) = volume_read io v" using m(5) by simp
  have node: "fd_node f \<noteq> None" using m(1) by simp
  have "ret_or_panic oom (vfs_read io (fd_node f) (fd_offset f) z k)
      (\<lambda>((n, bs), k'). bs = take (unat sz) (drop (unat (fd_offset f)) data) \<and> n = int (length bs) \<and>
         initrd_volume v mem k' \<and> filesystems k' = filesystems k)"
    using initrd_image.initfs_read_image [where vread = "volume_read io", OF v TrueI img ok m(2) iv cut(2)] n m(1,3,4) cut(1) data
    by (auto simp: vfs_read_def node_filesystem_def frame_def elim!: ret_or_panic_mono)
  then show ?thesis
    unfolding file_read_def option.case if_not_P [OF node] if_not_P [OF flags] Let_def z_def [symmetric]
  proof (rule ret_or_panic_bind, goal_cases)
    case (1 x)
    then obtain bs k' where x: "x = ((int (length bs), bs), k')" and b: "bs = take (unat sz) (drop (unat (fd_offset f)) data)"
      and k': "initrd_volume v mem k'" "filesystems k' = filesystems k" by (auto split: prod.splits)
    have "unat (fd_offset f) + length bs < 4294967296" using b small by simp
    then have "unat (fd_offset f + of_nat (length bs)) = unat (fd_offset f) + length bs"
      by (simp add: unat_u32_add_small)
    then show ?case using x b k' m by (auto simp: ramdisk_fd_def)
  qed
qed

lemma ramdisk_read_twice:
  assumes iv: "initrd_volume v mem k" and img: "take (unat (vol_size v)) (drop (unat (vol_offset v)) mem) = mkinitfs files @ rest"
    and ok: "files_ok files" and fd: "ramdisk_fd files v data k f" and flags: "fd_flags f AND FILE_RDONLY \<noteq> 0"
    and off: "fd_offset f = 0" and small: "unat n + unat m < 4294967296" and data: "length data < 2147483648"
  shows "ret_or_panic oom
    (kbind (file_read io (Some f) n k) (\<lambda>((n1, bs1, fd1), k1).
     kbind (file_read io fd1 m k1) (\<lambda>((n2, bs2, fd2), k2). Ret (e, d, (n1, bs1), (n2, bs2)))))
    (\<lambda>(e', d', (n1, bs1), (n2, bs2)). e' = e \<and> d' = d \<and> bs1 = take (unat n) data \<and> bs2 = take (unat m) (drop (unat n) data) \<and>
       n1 = int (length bs1) \<and> n2 = int (length bs2))"
proof (rule ret_or_panic_bind [OF ramdisk_read [where sz = n, OF iv img ok fd flags _ _ data]], goal_cases)
  case (3 x)
  then obtain f1 k1 where x: "x = ((int (length (take (unat n) data)), take (unat n) data, Some f1), k1)"
    and f1: "unat (fd_offset f1) = length (take (unat n) data)" "fd_flags f1 = fd_flags f"
      "ramdisk_fd files v data k1 f1" "initrd_volume v mem k1"
    using off by (auto split: prod.splits)
  have b: "unat (fd_offset f1) \<le> length data" "unat (fd_offset f1) + unat m < 4294967296"
    "fd_flags f1 AND FILE_RDONLY \<noteq> 0" using f1 small flags by auto
  have d: "take (unat m) (drop (min (length data) (unat n)) data) = take (unat m) (drop (unat n) data)"
    by (simp add: min_def)
  show ?case unfolding x prod.case
    by (rule ret_or_panic_bind [OF ramdisk_read [where sz = m, OF f1(4) img ok f1(3) b(3,1,2) data]])
      (use f1(1) d in auto)
qed (use off small in auto)

subsection \<open>Properties\<close>

text \<open>
  C28. The file stack end to end. Mounting a volume that holds a packed ramdisk on a free drive letter
  succeeds, whatever the letter; opening \<open><drive>:/<name>\<close> then gives a descriptor exactly when the image
  has a file of that name, and two reads one after the other return consecutive parts of its contents,
  cut at its end, with their lengths; reading through a descriptor that was not opened returns -1.
\<close>

theorem mounted_ramdisk_reads:
  assumes "initrd_volume v mem k" and "take (unat (vol_size v)) (drop (unat (vol_offset v)) mem) = mkinitfs files @ rest"
    and "files_ok files" and "\<forall>(n, data) \<in> set files. length data < 2147483648"
    and "asc CHR ''A'' \<le> drive \<and> drive \<le> asc CHR ''Z'' \<or> asc CHR ''a'' \<le> drive \<and> drive \<le> asc CHR ''z''"
    and "length (mnt_mountpoints k) = 26" and "mnt_mountpoints k ! nat (mnt_get_drive_index drive) = 0"
    and "c_string name" and "name \<noteq> []" and "slash \<notin> set name"
    and "flags AND FILE_RDONLY \<noteq> 0" and "unat n + unat m < 4294967296"
  shows "ret_or_panic oom
    (kbind (mnt_volume_mount io junk drive v k) (\<lambda>(e, k1).
     kbind (file_open io junk (drive # str '':/'' @ name) flags k1) (\<lambda>(fd, k2).
     kbind (file_read io fd n k2) (\<lambda>((n1, bs1, fd1), k3).
     kbind (file_read io fd1 m k3) (\<lambda>((n2, bs2, fd2), k4).
     Ret (e, fd, (n1, bs1), (n2, bs2)))))))
    (\<lambda>(e, fd, (n1, bs1), (n2, bs2)). e = 0 \<and> (case map_of files name of
       None \<Rightarrow> fd = None \<and> n1 = -1 \<and> n2 = -1
     | Some data \<Rightarrow> fd \<noteq> None \<and> bs1 = take (unat n) data \<and> bs2 = take (unat m) (drop (unat n) data) \<and>
         n1 = int (length bs1) \<and> n2 = int (length bs2)))"
proof -
  let ?i = "nat (mnt_get_drive_index drive)"
  have i: "mnt_get_drive_index drive = int ?i" "?i < length (mnt_mountpoints k)"
    using drive_index [OF assms(5)] assms(6) nat_less_iff [of "mnt_get_drive_index drive" 26] by simp_all
  have abs: "vfs_is_abs_path (drive # str '':/'' @ name)"
    using assms(5) by (simp add: vfs_is_abs_path_def str_def asc_def)
  show ?thesis
  proof (rule ret_or_panic_bind [OF ramdisk_mount [OF assms(1-3) i assms(7)]], goal_cases)
    case (1 x)
    obtain e k1 where x: "x = (e, k1)" by (cases x)
    have e: "e = 0" "ramdisk_mounted ?i v k1" "initrd_volume v mem k1" using 1 x by simp_all
    show ?case unfolding x prod.case
    proof (rule ret_or_panic_bind [OF ramdisk_open [where flags = flags, OF e(3) assms(2,3,8-10) abs i(1) e(2)]], goal_cases)
      case (1 y)
      obtain fd k2 where y: "y = (fd, k2)" by (cases y)
      show ?case
      proof (cases "map_of files name")
        case None
        then show ?thesis using 1 y e by (simp add: file_read_def)
      next
        case (Some data)
        then obtain f where f: "fd = Some f" "ramdisk_fd files v data k2 f" "fd_offset f = 0" "fd_flags f = flags"
          and k2: "initrd_volume v mem k2" using 1 y by auto
        have l: "length data < 2147483648" using map_of_SomeD [OF Some] assms(4) by auto
        have r: "fd_flags f AND FILE_RDONLY \<noteq> 0" using f(4) assms(11) by simp
        show ?thesis unfolding y prod.case f(1)
          by (rule ret_or_panic_mono [OF ramdisk_read_twice [OF k2 assms(2,3) f(2) r f(3) assms(12) l]])
            (use Some e(1) in auto)
      qed
    qed
  qed
qed

theorem mounted_ramdisk_reads_witness:
  "ret_or_panic oom
    (kbind (mnt_volume_mount ide_ports (\<lambda>_. 0) (asc CHR ''C'') (fs_volume small_initfs) small_fkernel) (\<lambda>(e, k1).
     kbind (file_open ide_ports (\<lambda>_. 0) (asc CHR ''C'' # str '':/'' @ str ''b'') FILE_RDONLY k1) (\<lambda>(fd, k2).
     kbind (file_read ide_ports fd 3 k2) (\<lambda>((n1, bs1, fd1), k3).
     kbind (file_read ide_ports fd1 3 k3) (\<lambda>((n2, bs2, fd2), k4).
     Ret (e, fd, (n1, bs1), (n2, bs2)))))))
    (\<lambda>(e, fd, r1, r2). e = 0 \<and> r1 = (3, [4, 5, 6]) \<and> r2 = (1, [7]))"
proof -
  have mp: "mnt_mountpoints small_fkernel = (replicate 26 0)[0 := 1]"
    by (simp add: small_fkernel_def kernel.defs)
  have v: "initrd_volume (fs_volume small_initfs) (mkinitfs small_files) small_fkernel"
    using small_initfs_volume by (simp add: initrd_volume_def small_fkernel_def kernel.defs)
  show ?thesis
    by (rule ret_or_panic_mono [OF mounted_ramdisk_reads [OF v, of small_files "[]"]])
      (simp_all add: small_initfs_def length_small_files small_files_ok, auto simp: small_files_def str_def asc_def c_string_def
        mp mnt_get_drive_index_def FILE_RDONLY_def)
qed

end
