(* ===== verification/Process_Life.thy ===== *)
theory Process_Life
  imports Process_Props Tty_Text Ramdisk
begin

text \<open>
  The life cycle of processes. The running process and the processes that wait for it form a stack:
  starting a child pushes it, termination pops it and resumes the parent. The invariant
  \<open>process_stack\<close> also says what each process owns: its page directory and private page tables,
  its name, path and control block are distinct blocks of the kernel heap. Termination releases
  exactly the blocks of the process that ends, and changes nothing in the memory of the others.
\<close>

subsection \<open>The blocks of a process\<close>

definition table_at :: "memory \<Rightarrow> u32 \<Rightarrow> nat \<Rightarrow> u32" where
  "table_at s d i = dir_tables (page_dirs s d) i"

definition own_tables :: "memory \<Rightarrow> u32 \<Rightarrow> nat list \<Rightarrow> u32 list" where
  "own_tables s d is = map (table_at s d)
     (filter (\<lambda>i. table_at s d i \<noteq> 0 \<and> table_at s d i \<noteq> table_at s (kernel_page_directory s) i) is)"

definition process_blocks :: "('c, 's, 'm) pkernel_scheme \<Rightarrow> u32 \<Rightarrow> u32 list" where
  "process_blocks k p =
     (let P = processes k p
      in own_tables (vm k) (pr_address_space P) [0..<1024] @
         [pr_address_space P, fst (pr_name P), fst (pr_path P), p])"

text \<open>Distinct blocks in use, released one after the other.\<close>

definition all_live :: "u32 list \<Rightarrow> kheap \<Rightarrow> bool" where
  "all_live ps h \<longleftrightarrow> kheap_inv h \<and> distinct ps \<and> (\<forall>p \<in> set ps. \<exists>n. (unat p, n) \<in> kheap_live h)"

lemma kfree_all:
  assumes "all_live ps h"
  shows "kheap_inv (fold kfree ps h)" and "kheap_live (fold kfree ps h) = {(d, n) \<in> kheap_live h. d \<notin> unat ` set ps}"
proof -
  have "kheap_inv (fold kfree ps h) \<and> kheap_live (fold kfree ps h) = {(d, n) \<in> kheap_live h. d \<notin> unat ` set ps}"
    using assms
  proof (induction ps arbitrary: h)
    case Nil
    then show ?case by (simp add: all_live_def)
  next
    case (Cons p ps)
    then obtain n where n: "(unat p, n) \<in> kheap_live h" and i: "kheap_inv h" by (auto simp: all_live_def)
    have f: "kheap_inv (kfree p h)" "kheap_live (kfree p h) = kheap_live h - {(unat p, n)}"
      using kfree_live [OF i n] by simp_all
    have u: "(unat p, m) \<in> kheap_live h \<longleftrightarrow> m = n" for m using live_ptr_unique [OF i n, of m] n by auto
    have "\<exists>m. (unat q, m) \<in> kheap_live (kfree p h)" if "q \<in> set ps" for q
    proof -
      have "\<forall>r \<in> set (p # ps). \<exists>m. (unat r, m) \<in> kheap_live h" using Cons.prems unfolding all_live_def by blast
      from bspec [OF this, of q] that obtain m where "(unat q, m) \<in> kheap_live h" by auto
      moreover have "q \<noteq> p" using that Cons.prems unfolding all_live_def by auto
      ultimately show ?thesis unfolding f(2) by (auto simp: u32_eq_iff)
    qed
    then have "all_live ps (kfree p h)" using Cons.prems f(1) by (simp add: all_live_def)
    note IH = Cons.IH [OF this]
    have "kheap_live (fold kfree ps (kfree p h)) = {(d, n) \<in> kheap_live h. d \<notin> unat ` set (p # ps)}"
      unfolding IH [THEN conjunct2] f(2) using u by auto
    then show ?case using IH by simp
  qed
  then show "kheap_inv (fold kfree ps h)"
    and "kheap_live (fold kfree ps h) = {(d, n) \<in> kheap_live h. d \<notin> unat ` set ps}" by blast+
qed

lemma own_tables_heap [simp]: "own_tables (s\<lparr>mem_heap := h\<rparr>) d is = own_tables s d is"
  by (simp add: own_tables_def table_at_def)

lemma free_tables_eq:
  "vmm_free_tables d is s = s\<lparr>mem_heap := fold kfree (own_tables s d is) (mem_heap s)\<rparr>"
proof (induction d "is" s rule: vmm_free_tables.induct)
  case (1 d s)
  then show ?case by (simp add: own_tables_def)
next
  case (2 d i "is" s)
  have "own_tables s d (i # is) = (if table_at s d i \<noteq> 0 \<and> table_at s d i \<noteq> table_at s (kernel_page_directory s) i
    then table_at s d i # own_tables s d is else own_tables s d is)" by (simp add: own_tables_def)
  then show ?case using 2 by (simp add: Let_def table_at_def)
qed

lemma own_tables_cong:
  "page_dirs s' = page_dirs s \<Longrightarrow> kernel_page_directory s' = kernel_page_directory s \<Longrightarrow> own_tables s' d is = own_tables s d is"
  by (simp add: own_tables_def table_at_def)

subsection \<open>Unmapping the user half\<close>

definition keeps_tables :: "memory \<Rightarrow> memory \<Rightarrow> bool" where
  "keeps_tables s s' \<longleftrightarrow> mem_heap s' = mem_heap s \<and> page_dirs s' = page_dirs s \<and>
     current_page_directory s' = current_page_directory s \<and>
     (\<forall>t. t \<notin> table_at s (current_page_directory s) ` {..<1024} \<longrightarrow> page_tables s' t = page_tables s t)"

lemma unmap_page_leaves: "keeps_tables s (vmm_unmap_page v s)"
  using dir_index_less [of v]
  by (auto simp: keeps_tables_def vmm_unmap_page_def paging_unmap_page_def set_pte_def table_at_def Let_def)

lemma unmap_pages_leaves:
  assumes "vmm_unmap_pages v l s = Some s'"
  shows "keeps_tables s s'"
proof (rule vmm_unmap_pages.raw_induct [where P = "\<lambda>v l s s'. keeps_tables s s'", OF _ assms], goal_cases)
  case (1 unmap v l s s')
  show ?case
  proof (cases "v < l")
    case True
    then have "keeps_tables (vmm_unmap_page v s) s'" using 1 by auto
    then show ?thesis using unmap_page_leaves [of s v] by (simp add: keeps_tables_def table_at_def)
  next
    case False
    then show ?thesis using 1(2) by (simp add: keeps_tables_def)
  qed
qed

lemma unmap_user_space:
  assumes "mem_inv s"
  shows "\<exists>s'. vmm_unmap_memory VMM_USER_SPACE_BASE VMM_USER_SPACE_SIZE s = Some s' \<and> mem_inv s' \<and>
    kernel_page_directory s' = kernel_page_directory s \<and> frames s' = frames s \<and> phys_pages s' = phys_pages s \<and>
    keeps_tables s s' \<and> user_pages s' \<subseteq> {0}"
proof -
  have p: "pages_in 1 0xC0000000 = 0xBFFFF" by (simp add: pages_in_def)
  from unmap_pages_correct [where s = s and l = "0xC0000000" and n = 1] assms obtain s' where
    u: "vmm_unmap_pages 0x1000 0xC0000000 s = Some s'" and
    s': "mem_inv s'" "kernel_page_directory s' = kernel_page_directory s" "frames s' = frames s" "phys_pages s' = phys_pages s"
    "\<forall>m < 0x100000. page_used s' m \<longleftrightarrow> \<not> (1 \<le> m \<and> m < 1 + pages_in 1 0xC0000000) \<and> page_used s m"
    by auto
  have "vmm_unmap_memory VMM_USER_SPACE_BASE VMM_USER_SPACE_SIZE s = Some s'"
    using u by (simp add: vmm_unmap_memory_def vmm_consts)
  moreover have "user_pages s' \<subseteq> {0}" using s'(5) unfolding p by (auto simp: user_pages_def)
  ultimately show ?thesis using s' unmap_pages_leaves [OF u] by blast
qed

subsection \<open>The address spaces of the other processes\<close>

text \<open>What a process would read under its page directory.\<close>

definition space_memory :: "memory \<Rightarrow> u32 \<Rightarrow> u32 \<Rightarrow> u8 option" where
  "space_memory s d = user_memory (s\<lparr>current_page_directory := d\<rparr>)"

lemma space_memory_cong:
  assumes pd: "page_dirs s' = page_dirs s" and ph: "phys_pages s' = phys_pages s" and pe: "paging_enabled s' = paging_enabled s"
    and t: "\<And>i. i < 768 \<Longrightarrow> table_at s d i \<noteq> 0 \<Longrightarrow> page_tables s' (table_at s d i) = page_tables s (table_at s d i)"
  shows "space_memory s' d v = space_memory s d v"
proof -
  have pt: "pte_at d w s' = pte_at d w s" if "page_of w < 0xC0000" for w
  proof -
    have "PAGE_DIRECTORY_INDEX w < 768" using that by (simp add: dir_index div_less_iff_less_mult)
    then show ?thesis using t [of "PAGE_DIRECTORY_INDEX w"] by (simp add: pte_at_def pd Let_def table_at_def)
  qed
  have eq: "pte_at d w (x\<lparr>current_page_directory := d\<rparr>) = pte_at d w x" for w x by (simp add: pte_at_def Let_def)
  have pu: "page_used (s'\<lparr>current_page_directory := d\<rparr>) n = page_used (s\<lparr>current_page_directory := d\<rparr>) n"
    if "n < 0xC0000" for n
    using pt [of "of_nat (n * 4096)"] that
    by (simp add: page_used_def is_page_used_eq eq page_of_of_nat del: of_nat_mult)
  then have up: "user_pages (s'\<lparr>current_page_directory := d\<rparr>) = user_pages (s\<lparr>current_page_directory := d\<rparr>)"
    by (auto simp: user_pages_def)
  have "user_load (s'\<lparr>current_page_directory := d\<rparr>) v = user_load (s\<lparr>current_page_directory := d\<rparr>) v"
    if "page_of v < 0xC0000"
  proof -
    have "vmm_get_physical_address v (s'\<lparr>current_page_directory := d\<rparr>) =
      vmm_get_physical_address v (s\<lparr>current_page_directory := d\<rparr>)"
      using pt [OF that] by (cases "paging_enabled s")
        (simp_all add: vmm_get_physical_address_def translate_eq eq pe, simp_all add: paging_virtual_to_physical_address_def pe)
    then show ?thesis using pt [OF that] by (simp add: user_load_def user_mapped_def eq ph)
  qed
  then show ?thesis by (auto simp: space_memory_def user_memory_def up) (auto simp: user_pages_def)
qed

lemma space_memory_heap [simp]:
  "space_memory (s\<lparr>mem_heap := h\<rparr>) d v = space_memory s d v"
  "space_memory (vmm_switch_address_space d' s) d v = space_memory s d v"
  by (rule space_memory_cong; simp add: vmm_switch_address_space_def paging_switch_page_directory_def)+

subsection \<open>The invariant\<close>

text \<open>The processes that wait, from the parent of the running process to the first process.\<close>

fun waiting :: "(u32 \<Rightarrow> process) \<Rightarrow> u32 \<Rightarrow> u32 list \<Rightarrow> bool" where
  "waiting P p [] \<longleftrightarrow> pr_parent (P p) = 0"
| "waiting P p (q # qs) \<longleftrightarrow> pr_parent (P p) = q \<and> q \<noteq> 0 \<and> pr_state (P q) = PROCESS_STATE_WAITING \<and> waiting P q qs"

definition all_blocks :: "('c, 's, 'm) pkernel_scheme \<Rightarrow> u32 list \<Rightarrow> u32 list" where
  "all_blocks k ps = concat (map (process_blocks k) ps)"

text \<open>What the processes own; the tables of the kernel directory serve the kernel half only.\<close>

definition owns :: "('c, 's, 'm) pkernel_scheme \<Rightarrow> u32 list \<Rightarrow> bool" where
  "owns k ps \<longleftrightarrow> all_live (all_blocks k ps) (k_heap k) \<and>
     pmm_inv (mem_pmm (vm k)) \<and> paging_enabled (vm k) \<and>
     (\<forall>p \<in> set ps. dir_inv (pr_address_space (processes k p)) (vm_of k)) \<and>
     (\<forall>i < 1024. let t = table_at (vm k) (kernel_page_directory (vm k)) i
        in t \<noteq> 0 \<longrightarrow> 768 \<le> i \<and> t \<notin> set (all_blocks k ps))"

definition process_stack :: "('c, 's, 'm) pkernel_scheme \<Rightarrow> u32 list \<Rightarrow> bool" where
  "process_stack k ps \<longleftrightarrow> owns k ps \<and>
     (case ps of
        [] \<Rightarrow> False
      | p # qs \<Rightarrow> current_process k = p \<and> p \<noteq> 0 \<and> pr_state (processes k p) = PROCESS_STATE_RUNNING \<and>
          waiting (processes k) p qs \<and> current_page_directory (vm k) = pr_address_space (processes k p))"

lemma all_blocks_Cons: "all_blocks k (p # qs) = process_blocks k p @ all_blocks k qs"
  by (simp add: all_blocks_def)

lemma in_all_blocks: "q \<in> set qs \<Longrightarrow> b \<in> set (process_blocks k q) \<Longrightarrow> b \<in> set (all_blocks k qs)"
  by (auto simp: all_blocks_def)

lemma table_in_blocks:
  assumes "table_at (vm k) (pr_address_space (processes k q)) i \<noteq> 0" and "i < 1024"
  shows "table_at (vm k) (pr_address_space (processes k q)) i = table_at (vm k) (kernel_page_directory (vm k)) i \<or>
    table_at (vm k) (pr_address_space (processes k q)) i \<in> set (process_blocks k q)"
  using assms by (auto simp: process_blocks_def own_tables_def Let_def)

text \<open>The tables of another process are not blocks of the process that ends.\<close>

lemma table_not_in_blocks:
  assumes o: "owns k (p # qs)" and q: "q \<in> set qs" and i: "i < 1024"
    and t: "t = table_at (vm k) (pr_address_space (processes k q)) i" "t \<noteq> 0"
  shows "t \<notin> set (process_blocks k p)"
proof -
  have d: "distinct (process_blocks k p @ all_blocks k qs)"
    using o by (simp add: owns_def all_live_def all_blocks_Cons)
  have kt: "\<forall>i < 1024. let t = table_at (vm k) (kernel_page_directory (vm k)) i
        in t \<noteq> 0 \<longrightarrow> 768 \<le> i \<and> t \<notin> set (all_blocks k (p # qs))" using o by (simp add: owns_def)
  from table_in_blocks [of k q i] t i consider (kernel) "t = table_at (vm k) (kernel_page_directory (vm k)) i"
    | (own) "t \<in> set (process_blocks k q)" by blast
  then show ?thesis
  proof cases
    case kernel
    then show ?thesis using kt i t(2) by (auto simp: Let_def all_blocks_Cons)
  next
    case own
    then show ?thesis using d in_all_blocks [OF q] by auto
  qed
qed

lemma user_table_not_shared:
  assumes o: "owns k (p # qs)" and q: "q \<in> set qs" and i: "i < 768" and j: "j < 1024"
    and t: "t = table_at (vm k) (pr_address_space (processes k q)) i" "t \<noteq> 0"
  shows "t \<noteq> table_at (vm k) (pr_address_space (processes k p)) j"
proof
  assume e: "t = table_at (vm k) (pr_address_space (processes k p)) j"
  have kt: "table_at (vm k) (kernel_page_directory (vm k)) m \<noteq> 0 \<Longrightarrow> 768 \<le> m \<and>
     table_at (vm k) (kernel_page_directory (vm k)) m \<notin> set (all_blocks k (p # qs))" if "m < 1024" for m
    using o that by (simp add: owns_def Let_def)
  have i': "i < 1024" using i by simp
  have "t \<notin> set (process_blocks k p)" by (rule table_not_in_blocks [OF o q i' t])
  then have "t = table_at (vm k) (kernel_page_directory (vm k)) j" using table_in_blocks [of k p j] e t(2) j by auto
  then have n: "t \<notin> set (all_blocks k (p # qs))" using kt [OF j] t(2) by simp
  from table_in_blocks [of k q i] t i' consider "t = table_at (vm k) (kernel_page_directory (vm k)) i"
    | "t \<in> set (process_blocks k q)" by blast
  then show False
  proof cases
    case 1
    then show False using kt [OF i'] t(2) i by simp
  next
    case 2
    then show False using n in_all_blocks [OF q] by (auto simp: all_blocks_Cons)
  qed
qed

subsection \<open>Termination\<close>

lemma fold_free: "fold k_free ps k = k\<lparr>k_heap := fold kfree ps (k_heap k)\<rparr>"
  by (induction ps arbitrary: k) (simp_all add: k_free_def)

lemma process_destroy_correct:
  assumes o: "owns k (p # qs)" and cur: "current_page_directory (vm k) = pr_address_space (processes k p)"
  shows "\<exists>k'. process_destroy p k = Ret k' \<and> processes k' = processes k \<and> streams k' = streams k \<and>
    owns k' qs \<and> kheap_live (k_heap k') = {(d, n) \<in> kheap_live (k_heap k). d \<notin> unat ` set (process_blocks k p)} \<and>
    frames (vm k') = frames (vm k) \<and>
    (\<forall>q \<in> set qs. \<forall>v. space_memory (vm k') (pr_address_space (processes k q)) v =
       space_memory (vm k) (pr_address_space (processes k q)) v)"
proof -
  let ?s = "vm_of k" and ?d = "pr_address_space (processes k p)" and ?h = "fold kfree (process_blocks k p) (k_heap k)"
  have inv: "mem_inv ?s" using o cur by (simp add: owns_def mem_inv_def vm_of_def)
  obtain s1 where u: "vmm_unmap_memory VMM_USER_SPACE_BASE VMM_USER_SPACE_SIZE ?s = Some s1" and i1: "mem_inv s1"
    and s1: "kernel_page_directory s1 = kernel_page_directory (vm k)" "frames s1 = frames (vm k)"
      "phys_pages s1 = phys_pages (vm k)" and kt: "keeps_tables ?s s1"
    using unmap_user_space [OF inv] by (auto simp: vm_of_def frames_def)
  have h1: "mem_heap s1 = k_heap k" "page_dirs s1 = page_dirs (vm k)" using kt by (simp_all add: keeps_tables_def vm_of_def)
  have ot: "own_tables (vmm_switch_address_space x s1) ?d is = own_tables (vm k) ?d is" for x "is"
    by (rule own_tables_cong) (simp_all add: vmm_switch_address_space_def paging_switch_page_directory_def h1 s1)
  have sh: "mem_heap (vmm_switch_address_space x s1) = k_heap k" for x
    by (simp add: vmm_switch_address_space_def paging_switch_page_directory_def h1)
  define s2 where "s2 = (vmm_switch_address_space (kernel_page_directory s1) s1)\<lparr>mem_heap := kfree ?d (fold kfree (own_tables (vm k) ?d [0..<1024]) (k_heap k))\<rparr>"
  have v: "vmm_destroy_address_space ?d ?s = Some s2"
    by (simp add: vmm_destroy_address_space_def u free_tables_eq Let_def s2_def ot sh)
  define k' where "k' = (set_vm s2 k)\<lparr>k_heap := ?h\<rparr>"
  have pd: "process_destroy p k = Ret k'"
    by (simp add: process_destroy_def v fold_free k'_def set_vm_def s2_def process_blocks_def Let_def k_free_def)
  have k': "processes k' = processes k" "streams k' = streams k" "k_heap k' = ?h"
    "page_dirs (vm k') = page_dirs (vm k)" "kernel_page_directory (vm k') = kernel_page_directory (vm k)"
    "mem_pmm (vm k') = mem_pmm s1" "paging_enabled (vm k') = paging_enabled s1"
    by (simp_all add: k'_def set_vm_def s2_def h1 s1 vmm_switch_address_space_def paging_switch_page_directory_def)
  have al: "all_live (process_blocks k p) (k_heap k)" using o by (auto simp: owns_def all_live_def all_blocks_Cons)
  note fr = kfree_all [OF al]
  have "process_blocks k' = process_blocks k"
    using own_tables_cong [OF k'(4,5)] by (intro ext) (simp add: process_blocks_def k' Let_def)
  then have bl: "all_blocks k' qs = all_blocks k qs" by (simp add: all_blocks_def)
  have keep: "\<exists>n. (unat b, n) \<in> kheap_live ?h" if "\<exists>n. (unat b, n) \<in> kheap_live (k_heap k)" "b \<notin> set (process_blocks k p)" for b
    using that unfolding fr(2) by (auto simp flip: u32_eq_iff)
  have "\<exists>n. (unat b, n) \<in> kheap_live ?h" if b: "b \<in> set (all_blocks k qs)" for b
  proof (rule keep)
    have "\<forall>b \<in> set (all_blocks k (p # qs)). \<exists>n. (unat b, n) \<in> kheap_live (k_heap k)"
      using o unfolding owns_def all_live_def by blast
    then show "\<exists>n. (unat b, n) \<in> kheap_live (k_heap k)" using b by (simp add: all_blocks_Cons)
    show "b \<notin> set (process_blocks k p)" using o b by (auto simp: owns_def all_live_def all_blocks_Cons)
  qed
  then have "all_live (all_blocks k' qs) ?h"
    using o fr(1) by (simp add: owns_def all_live_def all_blocks_Cons bl)
  moreover have "dir_inv (pr_address_space (processes k q)) (vm_of k')" if q: "q \<in> set qs" for q
  proof -
    have "dir_inv (pr_address_space (processes k q)) ?s" using o q by (simp add: owns_def)
    then show ?thesis using keep table_not_in_blocks [OF o q] fr(1) unfolding dir_inv_def
      by (simp add: vm_of_def k' table_at_def)
  qed
  moreover have "\<forall>i < 1024. let t = table_at (vm k') (kernel_page_directory (vm k')) i
        in t \<noteq> 0 \<longrightarrow> 768 \<le> i \<and> t \<notin> set (all_blocks k' qs)"
    using o unfolding bl by (simp add: owns_def k' table_at_def all_blocks_Cons Let_def)
  ultimately have "owns k' qs" using i1 by (simp add: owns_def k' mem_inv_def)
  moreover have "frames (vm k') = frames (vm k)" using s1(2) by (simp add: frames_def k')
  moreover have "space_memory (vm k') (pr_address_space (processes k q)) v = space_memory (vm k) (pr_address_space (processes k q)) v"
    if q: "q \<in> set qs" for q v
  proof -
    have "space_memory (vm k') (pr_address_space (processes k q)) v = space_memory s1 (pr_address_space (processes k q)) v"
      by (simp add: k'_def set_vm_def s2_def)
    also have "\<dots> = space_memory (vm k) (pr_address_space (processes k q)) v"
    proof (rule space_memory_cong [OF h1(2) s1(3)])
      show "paging_enabled s1 = paging_enabled (vm k)" using i1 o by (simp add: mem_inv_def owns_def)
      fix i assume i: "i < 768" "table_at (vm k) (pr_address_space (processes k q)) i \<noteq> 0"
      show "page_tables s1 (table_at (vm k) (pr_address_space (processes k q)) i) =
        page_tables (vm k) (table_at (vm k) (pr_address_space (processes k q)) i)"
        using kt user_table_not_shared [OF o q i(1) _ refl i(2)] cur
        by (auto simp: keeps_tables_def vm_of_def table_at_def)
    qed
    finally show ?thesis .
  qed
  ultimately show ?thesis using pd k'(1-3) fr(2) by (intro exI [of _ k'] conjI ballI allI) simp_all
qed

subsection \<open>The life cycle\<close>

lemma owns_cong:
  assumes "owns k ps" and "k_heap k' = k_heap k" and "page_dirs (vm k') = page_dirs (vm k)"
    and "kernel_page_directory (vm k') = kernel_page_directory (vm k)" and "mem_pmm (vm k') = mem_pmm (vm k)"
    and "paging_enabled (vm k') = paging_enabled (vm k)"
    and p: "\<And>q. pr_address_space (processes k' q) = pr_address_space (processes k q) \<and>
      pr_name (processes k' q) = pr_name (processes k q) \<and> pr_path (processes k' q) = pr_path (processes k q)"
  shows "owns k' ps"
proof -
  have "process_blocks k' = process_blocks k"
    using own_tables_cong [OF assms(3,4)] p by (intro ext) (simp add: process_blocks_def Let_def)
  then have "all_blocks k' ps = all_blocks k ps" by (simp add: all_blocks_def)
  moreover have "dir_inv d (vm_of k') \<longleftrightarrow> dir_inv d (vm_of k)" for d
    by (simp add: dir_inv_def vm_of_def assms)
  ultimately show ?thesis using assms(1) by (simp add: owns_def assms table_at_def)
qed

lemma waiting_cong:
  "(\<And>x. x \<in> set (p # qs) \<Longrightarrow> pr_parent (P' x) = pr_parent (P x)) \<Longrightarrow>
   (\<And>x. x \<in> set qs \<Longrightarrow> pr_state (P' x) = pr_state (P x)) \<Longrightarrow> waiting P' p qs = waiting P p qs"
  by (induction P p qs rule: waiting.induct) auto

lemma owns_distinct: "owns k ps \<Longrightarrow> distinct ps"
proof (induction ps)
  case (Cons p qs)
  have "p \<in> set (process_blocks k p)" by (simp add: process_blocks_def Let_def)
  then have "p \<notin> set qs" using Cons.prems in_all_blocks [of _ qs _ k]
    by (auto simp: owns_def all_live_def all_blocks_Cons process_blocks_def Let_def)
  moreover have "owns k qs" using Cons.prems by (auto simp: owns_def all_live_def all_blocks_Cons Let_def)
  ultimately show ?case using Cons.IH by simp
qed simp

lemma start_child_correct:
  assumes st: "process_stack k (p # qs)" and o: "owns k (c # p # qs)" and c: "c \<noteq> 0"
    and r: "pr_state (processes k c) = PROCESS_STATE_READY"
  shows "\<exists>k'. process_start_child c p k = (Enter_user (pr_eip (processes k c)) (pr_esp (processes k c)) (pr_eflags (processes k c)), k') \<and>
    process_stack k' (c # p # qs) \<and> pr_saved_state (processes k' p) = pr_saved_state (processes k p) \<and>
    (\<forall>d v. space_memory (vm k') d v = space_memory (vm k) d v)"
proof -
  have di: "c \<noteq> p" "c \<notin> set qs" "p \<notin> set qs" using owns_distinct [OF o] by auto
  define k' where "k' = snd (process_start_child c p k)"
  have e: "process_start_child c p k = (Enter_user (pr_eip (processes k c)) (pr_esp (processes k c)) (pr_eflags (processes k c)), k')"
    using r di by (simp add: k'_def process_start_child_def process_run_def set_process_def Let_def)
  have k': "k_heap k' = k_heap k" "page_dirs (vm k') = page_dirs (vm k)"
    "kernel_page_directory (vm k') = kernel_page_directory (vm k)" "mem_pmm (vm k') = mem_pmm (vm k)"
    "paging_enabled (vm k') = paging_enabled (vm k)" "current_process k' = c"
    "current_page_directory (vm k') = pr_address_space (processes k c)"
    "vm k' = (vmm_switch_address_space (pr_address_space (processes k c)) ((vm k)\<lparr>mem_heap := k_heap k\<rparr>))"
    "processes k' = (processes k)(c := (processes k c)\<lparr>pr_parent := p, pr_state := PROCESS_STATE_RUNNING\<rparr>,
       p := (processes k p)\<lparr>pr_state := PROCESS_STATE_WAITING\<rparr>)"
    using r di by (auto simp: k'_def process_start_child_def process_run_def set_process_def Let_def switch_to_def
        set_vm_def vm_of_def vmm_switch_address_space_def paging_switch_page_directory_def fun_upd_twist)
  have "owns k' (c # p # qs)" by (rule owns_cong [OF o]) (simp_all add: k'(1-5,9))
  moreover have "waiting (processes k') p qs = waiting (processes k) p qs"
    by (rule waiting_cong) (use di in \<open>auto simp: k'\<close>)
  ultimately have "process_stack k' (c # p # qs)" using st c di by (simp add: process_stack_def k'(1-7,9))
  moreover have "space_memory (vm k') d v = space_memory (vm k) d v" for d v unfolding k'(8) by simp
  ultimately show ?thesis using e di by (simp add: k'(9))
qed

definition exit_status :: "process \<Rightarrow> u32" where
  "exit_status P = (if pr_exception_code P \<noteq> -1 then 128 + pr_exception_code P else pr_exit_code P AND 0xFF)"

lemma terminate_correct:
  assumes st: "process_stack k (p # q # qs)"
  shows "\<exists>k'. process_terminate p k =
      Ret (Resume ((pr_saved_state (processes k q))\<lparr>isr_eax := exit_status (processes k p)\<rparr>), k') \<and>
    process_stack k' (q # qs) \<and>
    kheap_live (k_heap k') = {(d, n) \<in> kheap_live (k_heap k). d \<notin> unat ` set (process_blocks k p)} \<and>
    (\<forall>r \<in> set (q # qs). \<forall>v. space_memory (vm k') (pr_address_space (processes k r)) v =
       space_memory (vm k) (pr_address_space (processes k r)) v)"
proof -
  have o: "owns k (p # q # qs)" and cur: "current_page_directory (vm k) = pr_address_space (processes k p)"
    and pq: "pr_parent (processes k p) = q" "q \<noteq> 0" and w: "waiting (processes k) q qs"
    using st by (simp_all add: process_stack_def)
  have di: "q \<notin> set qs" using owns_distinct [OF o] by simp
  obtain k1 where k1: "process_destroy p k = Ret k1" "processes k1 = processes k" and o1: "owns k1 (q # qs)"
    and l1: "kheap_live (k_heap k1) = {(d, n) \<in> kheap_live (k_heap k). d \<notin> unat ` set (process_blocks k p)}"
    and m1: "\<forall>r \<in> set (q # qs). \<forall>v. space_memory (vm k1) (pr_address_space (processes k r)) v =
       space_memory (vm k) (pr_address_space (processes k r)) v"
    using process_destroy_correct [OF o cur] by blast
  let ?P = "(processes k q)\<lparr>pr_state := PROCESS_STATE_RUNNING, pr_saved_state := (pr_saved_state (processes k q))\<lparr>isr_eax := exit_status (processes k p)\<rparr>\<rparr>"
  define k' where "k' = (switch_to (pr_address_space (processes k q)) k1)\<lparr>current_process := q, processes := (processes k)(q := ?P)\<rparr>"
  have t: "process_terminate p k = Ret (Resume (pr_saved_state ?P), k')"
    using pq by (simp add: process_terminate_def k1 Let_def exit_status_def set_process_def switch_to_def set_vm_def k'_def)
  have k': "k_heap k' = k_heap k1" "page_dirs (vm k') = page_dirs (vm k1)"
    "kernel_page_directory (vm k') = kernel_page_directory (vm k1)" "mem_pmm (vm k') = mem_pmm (vm k1)"
    "paging_enabled (vm k') = paging_enabled (vm k1)" "current_process k' = q" "processes k' = (processes k)(q := ?P)"
    "current_page_directory (vm k') = pr_address_space (processes k q)"
    "vm k' = (vmm_switch_address_space (pr_address_space (processes k q)) ((vm k1)\<lparr>mem_heap := k_heap k1\<rparr>))"
    by (simp_all add: k'_def switch_to_def set_vm_def vm_of_def vmm_switch_address_space_def paging_switch_page_directory_def)
  have "owns k' (q # qs)" by (rule owns_cong [OF o1]) (simp_all add: k'(1-8) k1(2))
  moreover have "waiting (processes k') q qs = waiting (processes k) q qs"
    by (rule waiting_cong) (use di in \<open>auto simp: k'\<close>)
  ultimately have "process_stack k' (q # qs)" using w pq by (simp add: process_stack_def k'(1-8))
  moreover have "space_memory (vm k') (pr_address_space (processes k r)) v = space_memory (vm k) (pr_address_space (processes k r)) v"
    if "r \<in> set (q # qs)" for r v unfolding k'(9) using bspec [OF m1 that] by simp
  ultimately show ?thesis using t l1 k'(1) by simp
qed

text \<open>
  C35. Starting a child pushes it on the stack of processes and enters it at its entry point with its
  stack; no memory changes. When the running process terminates, its blocks and no others are
  released, and its parent runs again in the state it had saved, with the exit status in \<open>eax\<close>; the
  memory of every process that remains is as before. The first process cannot terminate: the kernel
  panics. The invariant of the stack of processes is preserved.
\<close>

theorem process_life_cycle:
  assumes st: "process_stack k (p # qs)"
  shows "(owns k (c # p # qs) \<and> c \<noteq> 0 \<and> pr_state (processes k c) = PROCESS_STATE_READY \<longrightarrow>
      (\<exists>k'. process_start_child c p k =
          (Enter_user (pr_eip (processes k c)) (pr_esp (processes k c)) (pr_eflags (processes k c)), k') \<and>
        process_stack k' (c # p # qs) \<and> pr_saved_state (processes k' p) = pr_saved_state (processes k p) \<and>
        (\<forall>d v. space_memory (vm k') d v = space_memory (vm k) d v))) \<and>
    (\<forall>q rs. qs = q # rs \<longrightarrow>
      (\<exists>k'. process_terminate p k =
          Ret (Resume ((pr_saved_state (processes k q))\<lparr>isr_eax := exit_status (processes k p)\<rparr>), k') \<and>
        process_stack k' qs \<and>
        kheap_live (k_heap k') = {(d, n) \<in> kheap_live (k_heap k). d \<notin> unat ` set (process_blocks k p)} \<and>
        (\<forall>r \<in> set qs. \<forall>v. space_memory (vm k') (pr_address_space (processes k r)) v =
           space_memory (vm k) (pr_address_space (processes k r)) v))) \<and>
    (qs = [] \<longrightarrow> process_terminate p k = Panic KPANIC_INIT_DIED_CODE)"
proof (intro conjI impI allI)
  assume "owns k (c # p # qs) \<and> c \<noteq> 0 \<and> pr_state (processes k c) = PROCESS_STATE_READY"
  then show "\<exists>k'. process_start_child c p k =
          (Enter_user (pr_eip (processes k c)) (pr_esp (processes k c)) (pr_eflags (processes k c)), k') \<and>
        process_stack k' (c # p # qs) \<and> pr_saved_state (processes k' p) = pr_saved_state (processes k p) \<and>
        (\<forall>d v. space_memory (vm k') d v = space_memory (vm k) d v)"
    by (intro start_child_correct [OF st]) auto
next
  fix q rs assume qs: "qs = q # rs"
  show "\<exists>k'. process_terminate p k =
          Ret (Resume ((pr_saved_state (processes k q))\<lparr>isr_eax := exit_status (processes k p)\<rparr>), k') \<and>
        process_stack k' qs \<and>
        kheap_live (k_heap k') = {(d, n) \<in> kheap_live (k_heap k). d \<notin> unat ` set (process_blocks k p)} \<and>
        (\<forall>r \<in> set qs. \<forall>v. space_memory (vm k') (pr_address_space (processes k r)) v =
           space_memory (vm k) (pr_address_space (processes k r)) v)"
    unfolding qs by (rule terminate_correct) (use st qs in simp)
next
  assume qs: "qs = []"
  have "owns k (p # [])" "current_page_directory (vm k) = pr_address_space (processes k p)" "pr_parent (processes k p) = 0"
    using st by (simp_all add: process_stack_def qs)
  then show "process_terminate p k = Panic KPANIC_INIT_DIED_CODE"
    using process_destroy_correct [of k p "[]"] by (auto simp: process_terminate_def)
qed

text \<open>A process with a child that has not started yet.\<close>

definition two_process_heap :: kheap where
  "two_process_heap = fresh_heap\<lparr>heap_hdr := (\<lambda>a. \<lparr>blk_magic = KHEAP_MAGIC,
       blk_size = (if a = 0x10008000 then 0x1FF7FEC else 0xFEC), blk_free = (a = 0x10008000),
       blk_prev = (if a = 0x10000000 then 0 else a - 0x1000),
       blk_next = (if a = 0x10008000 then 0 else a + 0x1000)\<rparr>), kheap_tail := 0x10008000\<rparr>"

definition small_cpu_state :: isr_cpu_state where
  "small_cpu_state = \<lparr>isr_ds = 0x23, isr_edi = 0, isr_esi = 0, isr_ebp = 0, isr_esp = 0, isr_ebx = 0, isr_edx = 0,
     isr_ecx = 0, isr_eax = 0, isr_interrupt_code = 0x80, isr_error_code = 0, isr_eip = 0x1234, isr_cs = 0x1B,
     isr_eflags = 0x200, isr_useresp = 0x8000, isr_ss = 0x23\<rparr>"

definition small_process :: "u32 \<Rightarrow> process_state \<Rightarrow> process" where
  "small_process a st = \<lparr>pr_pid = 0, pr_name = (a + 0x1000, str ''p''), pr_path = (a + 0x2000, str ''A:/p''), pr_state = st,
     pr_address_space = a, pr_eip = 0x1000, pr_esp = 0x7FF0, pr_eflags = 0x200, pr_parent = 0,
     pr_saved_state = small_cpu_state, pr_stack_base = 0x7FFF, pr_stack_limit = 0x7000, pr_heap_base = 0,
     pr_heap_limit = 0, pr_out = 0, pr_in = 0, pr_err = 0, pr_files = replicate PROCESS_MAX_FILE_DESCRIPTORS None,
     pr_exit_code = 0, pr_exception_code = -1\<rparr>"

definition two_processes :: "(ide, ide vga) pkernel" where
  "two_processes = (fkernel.extend small_fkernel (pkernel.fields (small_memory\<lparr>current_page_directory := 0x10000014\<rparr>)
     (\<lambda>p. if p = 0x10003014 then small_process 0x10000014 PROCESS_STATE_RUNNING
          else small_process 0x10004014 PROCESS_STATE_READY)
     0x10003014 2 (\<lambda>_. \<lparr>stream_is_output = True, stream_data = 0\<rparr>) (\<lambda>_. small_tty) small_vga))
     \<lparr>k_heap := two_process_heap\<rparr>"

lemma two_process_heap_repr:
  "kheap_repr two_process_heap [(0xFEC, False), (0xFEC, False), (0xFEC, False), (0xFEC, False),
     (0xFEC, False), (0xFEC, False), (0xFEC, False), (0xFEC, False), (0x1FF7FEC, True)]"
  by (simp add: kheap_repr_def kheap_shape_def coalesced_def used_nonempty_def two_process_heap_def fresh_heap_def
      blank_heap_def heap_consts)

lemma two_process_heap_live:
  "kheap_live two_process_heap = (\<lambda>a. (a, 0xFEC)) ` {0x10000014, 0x10001014, 0x10002014, 0x10003014,
     0x10004014, 0x10005014, 0x10006014, 0x10007014}"
  unfolding kheap_live_eq [OF two_process_heap_repr]
  by (simp add: two_process_heap_def fresh_heap_def blank_heap_def insert_commute)

lemma two_processes_simps:
  "k_heap two_processes = two_process_heap" "vm two_processes = small_memory\<lparr>current_page_directory := 0x10000014\<rparr>"
  "current_process two_processes = 0x10003014"
  "processes two_processes 0x10003014 = small_process 0x10000014 PROCESS_STATE_RUNNING"
  "processes two_processes 0x10007014 = small_process 0x10004014 PROCESS_STATE_READY"
  by (simp_all add: two_processes_def fkernel.defs pkernel.defs)

lemma two_processes_stack: "owns two_processes [0x10007014, 0x10003014]" "process_stack two_processes [0x10003014]"
proof -
  have b: "process_blocks two_processes 0x10003014 = [0x10000014, 0x10001014, 0x10002014, 0x10003014]"
    "process_blocks two_processes 0x10007014 = [0x10004014, 0x10005014, 0x10006014, 0x10007014]"
    by (simp_all add: process_blocks_def two_processes_simps small_process_def own_tables_def table_at_def small_memory_def)
  have i: "kheap_inv two_process_heap" using two_process_heap_repr by (auto simp: kheap_inv_def)
  show "owns two_processes [0x10007014, 0x10003014]"
    using i small_pmm_inv(1) by (simp add: owns_def all_live_def all_blocks_def b two_processes_simps two_process_heap_live
        dir_inv_def vm_of_def table_at_def Let_def small_memory_def)
  then have "owns two_processes [0x10003014]"
    by (simp add: owns_def all_live_def all_blocks_def b Let_def)
  then show "process_stack two_processes [0x10003014]"
    by (simp add: process_stack_def two_processes_simps small_process_def)
qed

theorem process_life_cycle_witness:
  "\<exists>k k'. process_start_child 0x10007014 0x10003014 two_processes = (Enter_user 0x1000 0x7FF0 0x200, k) \<and>
     process_terminate 0x10007014 k = Ret (Resume (small_cpu_state\<lparr>isr_eax := 0\<rparr>), k') \<and>
     process_stack k' [0x10003014] \<and> process_terminate 0x10003014 k' = Panic KPANIC_INIT_DIED_CODE"
proof -
  have "\<exists>k. process_start_child 0x10007014 0x10003014 two_processes = (Enter_user 0x1000 0x7FF0 0x200, k) \<and>
    process_stack k [0x10007014, 0x10003014] \<and> pr_saved_state (processes k 0x10003014) = small_cpu_state"
    using process_life_cycle [OF two_processes_stack(2), of "0x10007014", THEN conjunct1] two_processes_stack(1)
    by (auto simp: two_processes_simps small_process_def)
  then obtain k where
    k: "process_start_child 0x10007014 0x10003014 two_processes = (Enter_user 0x1000 0x7FF0 0x200, k)"
    "process_stack k [0x10007014, 0x10003014]" "pr_saved_state (processes k 0x10003014) = small_cpu_state" by blast
  have "exit_status (processes k 0x10007014) = 0"
    using k(1) by (auto simp: process_start_child_def process_run_def set_process_def two_processes_simps small_process_def
      switch_to_def set_vm_def exit_status_def split: if_splits)
  with process_life_cycle [OF k(2), THEN conjunct2, THEN conjunct1] k(3) obtain k' where
    "process_terminate 0x10007014 k = Ret (Resume (small_cpu_state\<lparr>isr_eax := 0\<rparr>), k')" and k': "process_stack k' [0x10003014]"
    by auto
  with k(1) process_life_cycle [OF k', THEN conjunct2, THEN conjunct2] show ?thesis by blast
qed

end
