(* ===== verification/Kheap_Room.thy ===== *)
theory Kheap_Room
  imports Kheap_Props
begin

text \<open>
  When the kernel heap is large enough: a heap that has a free block of some size serves every sequence of
  requests that fits this size. The properties of the components that allocate use this to state that an
  operation returns, instead of only what it returns when it does.
\<close>

text \<open>Some free block has at least \<open>n\<close> bytes.\<close>

definition kheap_room :: "kheap \<Rightarrow> nat \<Rightarrow> bool" where
  "kheap_room h n \<longleftrightarrow> (\<exists>bs. kheap_repr h bs \<and> (\<exists>m \<ge> n. (m, True) \<in> set bs))"

lemma kheap_room_inv: "kheap_room h n \<Longrightarrow> kheap_inv h"
  by (auto simp: kheap_room_def kheap_inv_def)

lemma kheap_room_mono: "kheap_room h n \<Longrightarrow> m \<le> n \<Longrightarrow> kheap_room h m"
  unfolding kheap_room_def using order_trans by blast

lemma fst_le_extent: "b \<in> set bs \<Longrightarrow> fst b \<le> extent bs"
  by (induction bs) auto

lemma kheap_room_less: "kheap_room h n \<Longrightarrow> n < 0x2000001"
  using fst_le_extent by (fastforce simp: kheap_room_def kheap_repr_def kheap_shape_def)

lemma fresh_heap_room: "n \<le> 0x1FFFFEC \<Longrightarrow> kheap_room fresh_heap n"
  using fresh_heap_repr by (auto simp: kheap_room_def)

text \<open>An allocation succeeds and leaves the rest.\<close>

lemma no_fit_room:
  assumes "no_fit a s False bs" and "(m, True) \<in> set bs"
  shows "m < s"
proof -
  obtain i where "i < length bs" "bs ! i = (m, True)" using assms(2) by (auto simp: in_set_conv_nth)
  then show ?thesis using assms(1) by (fastforce simp: no_fit_def fits_def)
qed

lemma kmalloc_room:
  assumes room: "kheap_room h (n + unat sz + 21)" and sz: "sz \<noteq> 0"
  shows "\<exists>p h'. kmalloc sz h = Ret (p, h') \<and> p \<noteq> 0 \<and> kheap_room h' n"
proof -
  obtain bs m where repr: "kheap_repr h bs" and m: "(m, True) \<in> set bs" "n + unat sz + 21 \<le> m"
    using room by (auto simp: kheap_room_def)
  have eq: "kmalloc sz h = kmalloc_heap sz False h" by (rule kmalloc_eq [OF kheap_room_inv [OF room]])
  have fit: "\<not> no_fit (unat (kheap_base h)) (unat sz) False bs" using no_fit_room [OF _ m(1)] m(2) by fastforce
  from kmalloc_heap_refines [OF repr sz, of False] fit obtain xs k ys h' where
    bs: "bs = xs @ (k, True) # ys" and ret: "kmalloc_heap sz False h = Ret (of_nat (unat (kheap_base h) + extent xs + 20), h')"
    and r': "kheap_repr h' (xs @ alloc_blks 0 k (unat sz) @ ys)" and k: "unat sz \<le> k"
    by (auto simp: alloc_pad_def simp del: of_nat_add)
  have nz: "(of_nat (unat (kheap_base h) + extent xs + 20) :: u32) \<noteq> 0"
    using kheap_shape_bounds [of h bs] repr bs
    by (simp add: kheap_repr_def of_nat_u32_eq_0_iff del: of_nat_add)
  have "\<exists>l \<ge> n. (l, True) \<in> set (xs @ alloc_blks 0 k (unat sz) @ ys)"
  proof (cases "m = k")
    case True
    then have "20 < k - unat sz" "n \<le> k - unat sz - 20" using m(2) by simp_all
    then show ?thesis by (auto simp: alloc_blks_def carve_blks_def)
  next
    case False
    then have "(m, True) \<in> set (xs @ alloc_blks 0 k (unat sz) @ ys)" using m(1) bs by auto
    then show ?thesis using m(2) by (intro exI [of _ m]) simp
  qed
  with r' have "kheap_room h' n" unfolding kheap_room_def by blast
  then show ?thesis unfolding eq ret using nz by blast
qed

text \<open>Releasing a block, and storing into one, keeps the room.\<close>

lemma merge_right_room: "(m, True) \<in> set ys \<Longrightarrow> \<exists>l \<ge> m. (l, True) \<in> set (merge_right n ys)"
  by (cases "(n, ys)" rule: merge_right.cases) (auto intro: exI [of _ m] exI [of _ "n + 20 + m"])

lemma merge_right_left: "m \<le> n \<Longrightarrow> \<exists>l \<ge> m. (l, True) \<in> set (merge_right n ys)"
  by (induction n ys rule: merge_right.induct) (auto intro: trans_le_add1)

lemma free_blks_room:
  assumes "(m, True) \<in> set (xs @ (k, False) # ys)"
  shows "\<exists>l \<ge> m. (l, True) \<in> set (free_blks xs k ys)"
proof (cases "xs \<noteq> [] \<and> snd (last xs)")
  case False
  then show ?thesis using assms merge_right_room [of m ys k] by (auto simp: free_blks_def)
next
  case True
  then obtain zs j where xs: "xs = zs @ [(j, True)]" by (cases xs rule: rev_cases) auto
  then show ?thesis using assms merge_right_room [of m ys "j + 20 + k"] merge_right_left [of j "j + 20 + k" ys]
    by (auto simp: free_blks_def)
qed

lemma kfree_room:
  assumes "kheap_room h n" and "(unat p, k) \<in> kheap_live h"
  shows "kheap_room (kfree p h) n"
proof -
  obtain bs m where repr: "kheap_repr h bs" and m: "(m, True) \<in> set bs" "n \<le> m"
    using assms(1) by (auto simp: kheap_room_def)
  from kheap_live_split [OF repr assms(2)] obtain xs ys where
    bs: "bs = xs @ (k, False) # ys" and p: "unat p = unat (kheap_base h) + extent xs + 20" and k: "0 < k" by blast
  have "p = of_nat (unat (kheap_base h) + extent xs + 20)" unfolding p [symmetric] by simp
  with kfree_refines [OF repr [unfolded bs] k refl] have "kheap_repr (kfree p h) (free_blks xs k ys)" by simp
  then show ?thesis using free_blks_room [of m xs k ys] m bs by (auto simp: kheap_room_def intro: order_trans)
qed

lemma store_room:
  assumes "kheap_room h n" and "(d, k) \<in> kheap_live h"
    and "\<And>x. \<not> in_area (of_nat d) (of_nat k) x \<Longrightarrow> heap_hdr h' x = heap_hdr h x"
    and "kheap_base h' = kheap_base h" "kheap_enabled h' = kheap_enabled h"
      "kheap_head h' = kheap_head h" "kheap_tail h' = kheap_tail h"
  shows "kheap_room h' n"
  using assms(1) kheap_repr_store [OF _ assms(2-7)] by (auto simp: kheap_room_def)

lemma kmalloc_kfree_room:
  assumes "kheap_room h n" and "kmalloc sz h = Ret (p, h')" and "p \<noteq> 0"
  shows "kheap_room (kfree p h') n"
proof -
  obtain bs m where repr: "kheap_repr h bs" and m: "(m, True) \<in> set bs" "n \<le> m"
    using assms(1) by (auto simp: kheap_room_def)
  have "kmalloc_heap sz False h = Ret (p, h')" using assms(1,2) kmalloc_eq kheap_room_inv by metis
  from kmalloc_heap_kfree [OF repr this assms(3)] show ?thesis using m by (auto simp: kheap_room_def)
qed

text \<open>Growing a block: the new block is allocated before the old one is released.\<close>

lemma krealloc_room:
  assumes room: "kheap_room h (n + unat sz + 21)" and pk: "(unat ptr, k) \<in> kheap_live h" and sz: "sz \<noteq> 0"
  shows "\<exists>p h'. krealloc ptr sz h = Ret (p, h') \<and> p \<noteq> 0 \<and> kheap_room h' n"
proof -
  have inv: "kheap_inv h" by (rule kheap_room_inv [OF room])
  have p0: "ptr \<noteq> 0" using kheap.live_bounds [OF inv pk] by auto
  have k: "k < 4294967296" using kheap.live_bounds [OF inv pk] by linarith
  have uk: "unat (of_nat k :: u32) = k" using k by simp
  note hd = live_header [OF inv pk, simplified]
  show ?thesis
  proof (cases "sz \<le> of_nat k")
    case True
    then show ?thesis using p0 sz hd room by (auto simp: krealloc_def intro: kheap_room_mono)
  next
    case False
    from kmalloc_room [OF room sz] obtain p h1 where m: "kmalloc sz h = Ret (p, h1)" "p \<noteq> 0" "kheap_room h1 n" by blast
    from kheap.alloc_live [OF inv m(1,2)] obtain l where l: "unat sz \<le> l"
      "kheap_live h1 = insert (unat p, l) (kheap_live h)" and i1: "kheap_inv h1" by blast
    have kl: "k < l" using False uk l(1) by (simp add: u32_le_iff)
    have pl: "(unat p, l) \<in> kheap_live h1" and pk1: "(unat ptr, k) \<in> kheap_live h1" using l pk by simp_all
    have lb: "l < 4294967296" using kheap.live_bounds [OF i1 pl] by linarith
    let ?h2 = "heap_memcpy p ptr (of_nat k) h1"
    have l2: "kheap_live ?h2 = kheap_live h1" using heap_memcpy_live(2) [OF i1 pl, of "of_nat k" ptr] kl uk by simp
    have "kheap_room ?h2 n"
    proof (rule store_room [OF m(3) pl])
      fix x assume "\<not> in_area (of_nat (unat p)) (of_nat l) x"
      then have "\<not> in_area p (of_nat k) x" using in_area_mono [of "of_nat k" l p x] kl uk lb by auto
      then show "heap_hdr ?h2 x = heap_hdr h1 x" by (simp add: heap_memcpy_def)
    qed (simp_all add: heap_memcpy_def)
    then have "kheap_room (kfree ptr ?h2) n" using pk1 l2 by (intro kfree_room [of _ _ _ k]) simp_all
    moreover have "krealloc ptr sz h = Ret (p, kfree ptr ?h2)"
      using p0 sz hd False m(1,2) live_header(1) [OF i1 pk1] by (simp add: krealloc_def)
    ultimately show ?thesis using m(2) by blast
  qed
qed

end
