(* ===== verification/Tty_Input.thy ===== *)
theory Tty_Input
  imports Tty_Text Kheap_Room
begin

text \<open>
  Input of the terminal: reading a line, and the way of a key from the scancodes of the keyboard
  controller to the reader of the terminal.
\<close>

subsection \<open>Reading a line\<close>

text \<open>Code that stores outside its buffer if \<open>b\<close> holds, and otherwise returns with the property.\<close>

definition faults_or_returns :: "bool \<Rightarrow> 'a kres \<Rightarrow> ('a \<Rightarrow> bool) \<Rightarrow> bool" where
  "faults_or_returns b m Q \<longleftrightarrow> (if b then m = Fault else returns m Q)"

lemma faults_or_returns_bind:
  "returns m P \<Longrightarrow> (\<And>x. P x \<Longrightarrow> faults_or_returns b (f x) Q) \<Longrightarrow> faults_or_returns b (kbind m f) Q"
  by (cases m) (auto simp: faults_or_returns_def)

text \<open>A buffer of a power of two of bytes that holds the characters read so far.\<close>

definition line_buffer :: "kheap \<Rightarrow> u32 \<Rightarrow> u32 \<Rightarrow> nat \<Rightarrow> bytes \<Rightarrow> bool" where
  "line_buffer h buffer sz j line \<longleftrightarrow> kheap_inv h \<and> (\<exists>l \<ge> unat sz. (unat buffer, l) \<in> kheap_live h) \<and>
     unat sz = 2 ^ j \<and> j \<le> 31 \<and> length line \<le> 2 ^ j \<and>
     (\<forall>i < length line. heap_data h (buffer + of_nat i) = line ! i)"

lemma not_power_between: "2 ^ (j - 1) < n \<Longrightarrow> n < 2 ^ j \<Longrightarrow> n \<noteq> (2 :: nat) ^ k"
  using power_increasing_iff [of "2 :: nat" k "j - 1"] power_increasing_iff [of "2 :: nat" j k]
  by (cases "k \<le> j - 1") auto

lemma line_store_live:
  assumes "kheap_inv h" and "(unat buffer, l) \<in> kheap_live h" and "unat sz \<le> l" and "unat i < unat sz"
  shows "\<exists>h'. line_store buffer sz i ch h = Ret h' \<and> kheap_inv h' \<and> kheap_live h' = kheap_live h \<and>
    heap_data h' = (heap_data h)(buffer + i := ch) \<and> (\<forall>n. kheap_room h n \<longrightarrow> kheap_room h' n)"
proof -
  let ?h = "h\<lparr>heap_data := (heap_data h)(buffer + i := ch)\<rparr>"
  have b: "buffer \<noteq> 0" using kheap.live_bounds [OF assms(1,2)] by auto
  have "kheap_inv ?h \<and> kheap_live ?h = kheap_live h"
    by (rule kheap_store_live [OF assms(1,2)]) simp_all
  moreover have "kheap_room ?h n" if "kheap_room h n" for n
    by (rule store_room [OF that assms(2)]) simp_all
  ultimately show ?thesis using b assms(4) by (simp add: line_store_def u32_le_iff)
qed

lemma offset_inj: "i < 4294967296 \<Longrightarrow> j < 4294967296 \<Longrightarrow> (p :: u32) + of_nat i = p + of_nat j \<longleftrightarrow> i = j"
  by (simp add: of_nat_u32_eq_iff)

lemma line_buffer_add:
  assumes "line_buffer h buffer sz j line" and "length line < 2 ^ j"
  shows "\<exists>h'. line_store buffer sz (of_nat (length line)) ch h = Ret h' \<and> line_buffer h' buffer sz j (line @ [ch]) \<and>
    (\<forall>n. kheap_room h n \<longrightarrow> kheap_room h' n)"
proof -
  obtain l where l: "kheap_inv h" "(unat buffer, l) \<in> kheap_live h" "unat sz \<le> l" "unat sz = 2 ^ j" "j \<le> 31"
    using assms(1) by (auto simp: line_buffer_def)
  have "(2 :: nat) ^ j \<le> 2 ^ 31" using l(5) by (rule power_increasing) simp
  then have n: "length line < 4294967296" using assms(2) by simp
  then have "unat (of_nat (length line) :: u32) < unat sz" using assms(2) l(4) by simp
  from line_store_live [OF l(1-3) this, of ch] obtain h' where h': "line_store buffer sz (of_nat (length line)) ch h = Ret h'"
    "kheap_inv h'" "kheap_live h' = kheap_live h" "heap_data h' = (heap_data h)(buffer + of_nat (length line) := ch)"
    "\<forall>n. kheap_room h n \<longrightarrow> kheap_room h' n" by blast
  have "heap_data h' (buffer + of_nat i) = (line @ [ch]) ! i" if "i < length (line @ [ch])" for i
    using that n assms(1) offset_inj [of i "length line" buffer] by (auto simp: h'(4) line_buffer_def nth_append less_Suc_eq)
  then have "line_buffer h' buffer sz j (line @ [ch])" using h' l assms by (auto simp: line_buffer_def)
  then show ?thesis using h'(1,5) by blast
qed

lemma line_buffer_grow:
  assumes "line_buffer h buffer sz j line" and "length line = 2 ^ j" and "j < 31"
    and room: "kheap_room h (n + 2 ^ Suc j + 21)"
  shows "\<exists>p h'. krealloc buffer (sz * 2) h = Ret (p, h') \<and> line_buffer h' p (sz * 2) (Suc j) line \<and> kheap_room h' n"
proof -
  obtain l where l: "kheap_inv h" "(unat buffer, l) \<in> kheap_live h" "unat sz \<le> l" "unat sz = 2 ^ j"
    using assms(1) by (auto simp: line_buffer_def)
  have "(2 :: nat) ^ Suc j \<le> 2 ^ 31" using assms(3) by (intro power_increasing) simp_all
  then have s: "unat (sz * 2) = 2 ^ Suc j" using l(4) by (simp add: unat_u32_mult_small)
  then have nz: "sz * 2 \<noteq> 0" by (metis power_not_zero unsigned_0 zero_neq_numeral)
  have "kheap_room h (n + unat (sz * 2) + 21)" using room s by simp
  from krealloc_room [OF this l(2) nz] obtain p h' where r: "krealloc buffer (sz * 2) h = Ret (p, h')"
    and np: "p \<noteq> 0" and rm: "kheap_room h' n" by blast
  note c = krealloc_correct [OF l(1,2) nz r]
  obtain l' where l': "unat (sz * 2) \<le> l'" "(unat p, l') \<in> kheap_live h'"
    and d: "\<forall>i < l. heap_data h' (p + of_nat i) = heap_data h (buffer + of_nat i)"
    using c [THEN conjunct2, THEN conjunct2, THEN mp, OF np, THEN conjunct1] by (elim exE conjE) simp
  have i: "kheap_inv h'" by (rule c [THEN conjunct1])
  have line: "heap_data h' (p + of_nat i) = line ! i" if "i < length line" for i
  proof -
    have "i < l" using that l(3,4) assms(2) by simp
    moreover have "heap_data h (buffer + of_nat i) = line ! i" using assms(1) that by (simp add: line_buffer_def)
    ultimately show ?thesis using d by simp
  qed
  have "line_buffer h' p (sz * 2) (Suc j) line"
    unfolding line_buffer_def using s i l' line assms(2,3) by auto
  then show ?thesis using r rm by blast
qed

text \<open>The room that the growth of the buffer needs for a line of \<open>n\<close> characters, with \<open>2 ^ j\<close> bytes allocated.\<close>

definition growth_room :: "kheap \<Rightarrow> nat \<Rightarrow> nat \<Rightarrow> bool" where
  "growth_room h n j \<longleftrightarrow> (2 ^ j < n \<longrightarrow> kheap_room h (4 * n - 2 ^ Suc j + 21 * (32 - j)))"

lemma growth_room_mono: "growth_room h n j \<Longrightarrow> \<forall>n. kheap_room h n \<longrightarrow> kheap_room h' n \<Longrightarrow> growth_room h' n j"
  by (simp add: growth_room_def)

lemma growth_room_step:
  assumes "growth_room h n j" and "2 ^ j < n" and "j < 31"
  shows "kheap_room h ((4 * n - 2 ^ Suc (Suc j) + 21 * (32 - Suc j)) + 2 ^ Suc j + 21)"
proof -
  have "21 * (32 - j) = 21 * (32 - Suc j) + 21" using assms(3) by simp
  then have "4 * n - 2 ^ Suc j + 21 * (32 - j) = (4 * n - 2 ^ Suc (Suc j) + 21 * (32 - Suc j)) + 2 ^ Suc j + 21"
    using assms(2) by simp
  then show ?thesis using assms(1,2) by (simp add: growth_room_def)
qed

context text_screen
begin

lemma gets_loop:
  assumes "tty_ok rows columns t" and "inv s" and "line_buffer h buffer sz j line" and "j = 0 \<or> 2 ^ (j - 1) < length line"
    and "length (line @ msg) < 2147483648" and "\<forall>c \<in> set msg. c \<notin> {0xFF, 10, 8}" and "growth_room h (length (line @ msg)) j"
  shows "faults_or_returns (\<exists>k. length (line @ msg) = 2 ^ k)
    (tty_gets_loop drv (msg @ 10 # rest) buffer sz (of_nat (length line)) t s h)
    (\<lambda>(p, t', s', h'). kheap_inv h' \<and> (\<exists>l > length (line @ msg). (unat p, l) \<in> kheap_live h') \<and>
       (\<forall>i \<le> length (line @ msg). heap_data h' (p + of_nat i) = (line @ msg @ [0]) ! i))"
  using assms
proof (induction msg arbitrary: h buffer sz j line t s)
  case Nil
  have sz: "unat sz = 2 ^ j" "length line \<le> 2 ^ j" using Nil.prems(3) by (simp_all add: line_buffer_def)
  show ?case
  proof (simp, rule faults_or_returns_bind [OF putchar_ok [OF Nil.prems(1,2)]], elim case_prodE conjE, goal_cases)
    case (1 x t' s')
    show ?case
    proof (cases "length line = 2 ^ j")
      case True
      have "unat (of_nat (length line) :: u32) = length line" using Nil.prems(5) by (intro unat_of_nat_u32) simp
      then have "sz \<le> of_nat (length line)" using sz(1) True unfolding u32_le_iff by linarith
      then show ?thesis using 1(1) True by (auto simp: line_store_def faults_or_returns_def)
    next
      case False
      then have lt: "length line < 2 ^ j" using sz(2) by simp
      have np: "length line \<noteq> 2 ^ k" for k using Nil.prems(4) not_power_between [OF _ lt] lt by (cases "j = 0") auto
      obtain h' where h': "line_store buffer sz (of_nat (length line)) 0 h = Ret h'" "line_buffer h' buffer sz j (line @ [0])"
        using line_buffer_add [OF Nil.prems(3) lt] by blast
      obtain l where l: "(unat buffer, l) \<in> kheap_live h'" "unat sz \<le> l" using h'(2) by (auto simp: line_buffer_def)
      then have "length line < l" using lt sz(1) by simp
      with l(1) have "\<exists>l > length line. (unat buffer, l) \<in> kheap_live h'" by blast
      then show ?thesis using 1(1) h' np by (auto simp: faults_or_returns_def line_buffer_def)
    qed
  qed
next
  case (Cons c cs)
  let ?n = "length (line @ c # cs)"
  have sz: "unat sz = 2 ^ j" "length line \<le> 2 ^ j" "j \<le> 31" using Cons.prems(3) by (simp_all add: line_buffer_def)
  have n: "length line < 4294967296" using Cons.prems(5) by simp
  have c: "c \<noteq> 0xFF" "c \<noteq> 10" "c \<noteq> 8" using Cons.prems(6) by simp_all
  have full: "of_nat (length line) = sz \<longleftrightarrow> length line = 2 ^ j"
    using sz(1) n by (simp add: u32_eq_iff)
  obtain p sz' h' j' where grown: "(if of_nat (length line) = sz
        then kbind (krealloc buffer (sz * 2) h) (\<lambda>(p, h1). Ret (p, sz * 2, h1)) else Ret (buffer, sz, h)) = Ret (p, sz', h')"
    and j': "line_buffer h' p sz' j' line" "length line < 2 ^ j'" "j' = 0 \<or> 2 ^ (j' - 1) < length line + 1"
      "growth_room h' ?n j'"
  proof (cases "length line = 2 ^ j")
    case True
    have "j \<noteq> 31" using True Cons.prems(5) by auto
    then have j31: "j < 31" using sz(3) by simp
    have "2 ^ j < ?n" using True by simp
    from line_buffer_grow [OF Cons.prems(3) True j31 growth_room_step [OF Cons.prems(7) this j31]] obtain p h' where
      g: "krealloc buffer (sz * 2) h = Ret (p, h')" "line_buffer h' p (sz * 2) (Suc j) line"
      "kheap_room h' (4 * ?n - 2 ^ Suc (Suc j) + 21 * (32 - Suc j))" by blast
    show ?thesis
      by (rule that [of p "sz * 2" h' "Suc j"]) (use g full True in \<open>simp_all add: growth_room_def\<close>)
  next
    case False
    show ?thesis
      by (rule that [of buffer sz h j]) (use False full sz(2) Cons.prems(3,4,7) in auto)
  qed
  obtain h2 where h2: "line_store p sz' (of_nat (length line)) c h' = Ret h2" "line_buffer h2 p sz' j' (line @ [c])"
    and r2: "\<forall>n. kheap_room h' n \<longrightarrow> kheap_room h2 n"
    using line_buffer_add [OF j'(1,2)] by blast
  have g2: "growth_room h2 (length ((line @ [c]) @ cs)) j'" using growth_room_mono [OF j'(4) r2] by simp
  show ?case unfolding append_Cons tty_gets_loop.simps if_not_P [OF c(1)] if_not_P [OF c(2)] if_not_P [OF c(3)]
    grown kbind.simps prod.case h2(1)
  proof (rule faults_or_returns_bind [OF putchar_ok [OF Cons.prems(1,2)]], elim case_prodE conjE, goal_cases)
    case (1 x t1 s1)
    have l: "length ((line @ [c]) @ cs) < 2147483648" using Cons.prems(5) by simp
    from Cons.IH [OF 1(2,3) h2(2) _ l _ g2] j'(3) Cons.prems(6) show ?case unfolding 1(1) by (simp add: add.commute)
  qed
qed

end

subsection \<open>From the key to the reader\<close>

text \<open>
  What the keyboard controller does: its status tells whether a byte is waiting, and the data port
  delivers the waiting bytes in order.
\<close>

definition ps2_delivers :: "'c ports \<Rightarrow> ('c \<Rightarrow> bytes) \<Rightarrow> bool" where
  "ps2_delivers io queue \<longleftrightarrow>
     (\<forall>c. ((fst (inb io PS2_STATUS_REGISTER c) AND 1 \<noteq> 0) = (queue c \<noteq> [])) \<and>
        queue (snd (inb io PS2_STATUS_REGISTER c)) = queue c) \<and>
     (\<forall>c b bs. queue c = b # bs \<longrightarrow> fst (inb io PS2_DATA_REGISTER c) = b \<and> queue (snd (inb io PS2_DATA_REGISTER c)) = bs)"

text \<open>The keyboard interrupt with the terminal as the listener, and a number of them one after the other.\<close>

definition keyboard_interrupt :: "'c ports \<Rightarrow> 's video_driver \<Rightarrow> bool \<Rightarrow> (key_state \<times> tty \<times> 's) \<times> 'c \<Rightarrow>
    ((key_state \<times> tty \<times> 's) \<times> 'c) kres" where
  "keyboard_interrupt io drv interruptible = (\<lambda>((ks, t, s), c).
     kbind (ps2_keyboard_interrupt_handler io c) (\<lambda>(event, c1).
     case event of
       None \<Rightarrow> Ret ((ks, t, s), c1)
     | Some e \<Rightarrow> kbind (tty_keyboard_listener drv interruptible e ks t s) (\<lambda>(kill, r). Ret (r, c1))))"

fun keyboard_interrupts :: "'c ports \<Rightarrow> 's video_driver \<Rightarrow> bool \<Rightarrow> nat \<Rightarrow> (key_state \<times> tty \<times> 's) \<times> 'c \<Rightarrow>
    ((key_state \<times> tty \<times> 's) \<times> 'c) kres" where
  "keyboard_interrupts io drv interruptible 0 st = Ret st"
| "keyboard_interrupts io drv interruptible (Suc n) st =
     kbind (keyboard_interrupt io drv interruptible st) (keyboard_interrupts io drv interruptible n)"

fun tty_read :: "nat \<Rightarrow> tty \<Rightarrow> (bytes \<times> tty) kres" where
  "tty_read 0 t = Ret ([], t)"
| "tty_read (Suc n) t = kbind (tty_getchar t) (\<lambda>(ch, t1). kbind (tty_read n t1) (\<lambda>(cs, t2). Ret (ch # cs, t2)))"

text \<open>A key by its scancode, with shift held or not: what the keyboard sends and what it means.\<close>

fun strokes :: "u8 \<times> bool \<Rightarrow> bytes" where
  "strokes (key, shifted) = (if shifted then [0x2A, key, key + 0x80, 0xAA] else [key, key + 0x80])"

fun key_char :: "u8 \<times> bool \<Rightarrow> u8" where
  "key_char (key, shifted) =
     tty_keycode_to_char tty_keyboard_layout_de_DE (PS2_KEYBOARD_SET1_STANDARD_KEYCODES ! unat key) shifted"

text \<open>The keys of the layout as numbers, and those that no character belongs to.\<close>

lemma keymap_keys:
  "map fst (keymap tty_keyboard_layout_de_DE) =
    [298, 283, 284, 285, 286, 287, 288, 289, 290, 291, 282, 293, 292, 1285, 1284, 272, 278, 260, 273, 275,
     280, 276, 264, 270, 271, 294, 295, 1286, 256, 274, 259, 261, 262, 263, 265, 266, 267, 296, 297, 302,
     1281, 281, 279, 258, 277, 257, 269, 268, 299, 300, 301, 303]"
  by (simp add: tty_keyboard_layout_de_DE_def keycodes keycode_types)

lemma special_keys:
  "KEYBOARD_KEYCODE_LEFT_SHIFT = 1281"
  "KEYBOARD_KEYCODE_RIGHT_SHIFT = 1287"
  "KEYBOARD_KEYCODE_LEFT_CONTROL = 1280"
  "KEYBOARD_KEYCODE_RIGHT_CONTROL = 1288"
  "KEYBOARD_KEYCODE_CAPS_LOCK = 1283"
  "KEYBOARD_KEYCODE_UP = 770"
  "KEYBOARD_KEYCODE_DOWN = 771"
  "KEYBOARD_KEYCODE_RIGHT = 769"
  "KEYBOARD_KEYCODE_LEFT = 768"
  by (simp_all add: keycodes keycode_types)

lemma keymap_scan_none: "k \<notin> set (map fst es) \<Longrightarrow> tty_keymap_scan es k shifted = 0"
  by (induction es k shifted rule: tty_keymap_scan.induct) auto

lemma keymap_scan_shift: "tty_keymap_scan (keymap tty_keyboard_layout_de_DE) KEYBOARD_KEYCODE_LEFT_SHIFT shifted = 0"
  by (simp add: tty_keyboard_layout_de_DE_def keycodes keycode_types)

lemma de_DE_char:
  "tty_keycode_to_char tty_keyboard_layout_de_DE k shifted = tty_keymap_scan (keymap tty_keyboard_layout_de_DE) k shifted"
  by (simp add: tty_keycode_to_char_def tty_keyboard_layout_de_DE_def)

lemma no_char: "k \<notin> set (map fst (keymap tty_keyboard_layout_de_DE)) \<Longrightarrow> tty_keycode_to_char tty_keyboard_layout_de_DE k shifted = 0"
  unfolding de_DE_char by (rule keymap_scan_none)

lemma keymap_special:
  "tty_keycode_to_char tty_keyboard_layout_de_DE 0 shifted = 0"
  "is_shift_key k \<Longrightarrow> tty_keycode_to_char tty_keyboard_layout_de_DE k shifted = 0"
  "is_control_key k \<Longrightarrow> tty_keycode_to_char tty_keyboard_layout_de_DE k shifted = 0"
  "tty_keycode_to_char tty_keyboard_layout_de_DE KEYBOARD_KEYCODE_CAPS_LOCK shifted = 0"
  "arrow_char k \<noteq> 0 \<Longrightarrow> tty_keycode_to_char tty_keyboard_layout_de_DE k shifted = 0"
proof -
  show "tty_keycode_to_char tty_keyboard_layout_de_DE 0 shifted = 0"
    "tty_keycode_to_char tty_keyboard_layout_de_DE KEYBOARD_KEYCODE_CAPS_LOCK shifted = 0"
    by (rule no_char, simp add: keymap_keys special_keys)+
  show "is_shift_key k \<Longrightarrow> tty_keycode_to_char tty_keyboard_layout_de_DE k shifted = 0"
    unfolding is_shift_key_def
  proof (elim disjE)
    assume "k = KEYBOARD_KEYCODE_LEFT_SHIFT"
    then show ?thesis by (simp only: de_DE_char keymap_scan_shift)
  next
    assume "k = KEYBOARD_KEYCODE_RIGHT_SHIFT"
    then show ?thesis by (intro no_char) (simp add: keymap_keys special_keys)
  qed
  show "is_control_key k \<Longrightarrow> tty_keycode_to_char tty_keyboard_layout_de_DE k shifted = 0"
    unfolding is_control_key_def by (elim disjE; intro no_char; simp add: keymap_keys special_keys)
  have "k \<in> {KEYBOARD_KEYCODE_UP, KEYBOARD_KEYCODE_DOWN, KEYBOARD_KEYCODE_RIGHT, KEYBOARD_KEYCODE_LEFT}" if "arrow_char k \<noteq> 0"
    using that by (simp add: arrow_char_def split: if_splits)
  then show "arrow_char k \<noteq> 0 \<Longrightarrow> tty_keycode_to_char tty_keyboard_layout_de_DE k shifted = 0"
    by (intro no_char) (auto simp: keymap_keys special_keys)
qed

lemma shift_scancode: "PS2_KEYBOARD_SET1_STANDARD_KEYCODES ! 0x2A = KEYBOARD_KEYCODE_LEFT_SHIFT"
  and left_shift_nonzero: "KEYBOARD_KEYCODE_LEFT_SHIFT \<noteq> 0"
  and length_standard_keycodes: "length PS2_KEYBOARD_SET1_STANDARD_KEYCODES = 89"
  by (simp_all add: PS2_KEYBOARD_SET1_STANDARD_KEYCODES_def keycodes keycode_types)

text \<open>An interrupt with a standard scancode waiting, for a key and its release.\<close>

lemma handler_standard:
  assumes "ps2_delivers io queue" and "queue c = b # bs"
    and "unat b < 89 \<and> pressed \<and> key = b \<or> 128 \<le> unat b \<and> unat b < 217 \<and> \<not> pressed \<and> key = b - 0x80"
    and "PS2_KEYBOARD_SET1_STANDARD_KEYCODES ! unat key \<noteq> 0"
  shows "returns (ps2_keyboard_interrupt_handler io c) (\<lambda>(e, c').
    e = Some \<lparr>ke_keycode = PS2_KEYBOARD_SET1_STANDARD_KEYCODES ! unat key, ke_pressed = pressed\<rparr> \<and> queue c' = bs)"
proof -
  obtain st c1 where st: "inb io PS2_STATUS_REGISTER c = (st, c1)" by (cases "inb io PS2_STATUS_REGISTER c")
  obtain d c2 where d: "inb io PS2_DATA_REGISTER c1 = (d, c2)" by (cases "inb io PS2_DATA_REGISTER c1")
  have 1: "st AND 1 \<noteq> 0" "queue c1 = b # bs" using assms(1,2) st by (auto simp: ps2_delivers_def dest!: spec [of _ c])
  have 2: "d = b" "queue c2 = bs"
    using assms(1) [unfolded ps2_delivers_def, THEN conjunct2, rule_format, OF 1(2)] d by simp_all
  show ?thesis
  proof (cases pressed)
    case True
    then have "unat b < 89" "key = b" using assms(3) by auto
    then show ?thesis using True 1 2 st d assms(4)
      by (simp add: ps2_keyboard_interrupt_handler_def ps2_keycode_event_def length_standard_keycodes word_le_nat_alt)
  next
    case False
    then have b: "128 \<le> unat b" "unat b < 217" "key = b - 0x80" using assms(3) by auto
    then have "unat key = unat b - 128" by (simp add: unat_sub word_le_nat_alt)
    then show ?thesis using False b 1 2 st d assms(4)
      by (simp add: ps2_keyboard_interrupt_handler_def ps2_keycode_event_def length_standard_keycodes word_le_nat_alt)
  qed
qed

text \<open>A terminal whose input holds characters and has room for some more.\<close>

definition typed :: "tty \<Rightarrow> bytes \<Rightarrow> nat \<Rightarrow> bool" where
  "typed t cs room \<longleftrightarrow> byte_queue (tty_input t) \<and> cb_elems (tty_input t) = map (\<lambda>c. [c]) cs \<and>
     length cs + room \<le> unat (cb_capacity (tty_input t)) \<and> tty_layout t = tty_keyboard_layout_de_DE"

lemma enqueue_typed:
  assumes "typed t cs (Suc room)"
  shows "returns (tty_enqueue_input ch t) (\<lambda>t'. typed t' (cs @ [ch]) room)"
proof -
  have b: "cb_inv (tty_input t)" "cb_element_size (tty_input t) = 1" "length cs < unat (cb_capacity (tty_input t))"
    "cb_elems (tty_input t) = map (\<lambda>c. [c]) cs" using assms by (auto simp: typed_def byte_queue_def)
  have l: "length (cb_elems (tty_input t)) = length cs" by (simp only: b(4) length_map)
  then have "\<not> circular_buffer_full (tty_input t)" using cb_full_iff [OF b(1)] b(3) by simp
  then obtain q where "circular_buffer_enqueue (tty_input t) [ch] = Some q" "cb_inv q" "cb_elems q = cb_elems (tty_input t) @ [[ch]]"
    "cb_capacity q = cb_capacity (tty_input t)" "cb_element_size q = 1"
    using enqueue_refines [OF b(1), of "[ch]"] b(2) by auto
  then show ?thesis using assms b by (simp add: tty_enqueue_input_def typed_def byte_queue_def)
qed

lemma read_typed:
  "typed t cs room \<Longrightarrow> returns (tty_read (length cs) t) (\<lambda>(bs, t'). bs = cs)"
proof (induction cs arbitrary: t room)
  case (Cons c cs)
  have b: "cb_inv (tty_input t)" "cb_element_size (tty_input t) = 1" "cb_elems (tty_input t) = [c] # map (\<lambda>c. [c]) cs"
    using Cons.prems by (auto simp: typed_def byte_queue_def)
  from dequeue_refines(2) [OF b(1,3), of True] obtain q where
    q: "circular_buffer_dequeue (tty_input t) True = Some (Some [c], q)" "cb_inv q" "cb_elems q = map (\<lambda>c. [c]) cs"
      "cb_capacity q = cb_capacity (tty_input t)" "cb_element_size q = 1" using b(2) by auto
  have e: "\<not> circular_buffer_empty (tty_input t)" using cb_empty_iff [OF b(1)] b(3) by simp
  have "typed (t\<lparr>tty_input := q\<rparr>) cs room" using Cons.prems q by (auto simp: typed_def byte_queue_def)
  from Cons.IH [OF this] show ?case by (auto simp: tty_getchar_def e q(1) returns_def)
qed simp

text \<open>What the listener does with the key of a character, and with the shift key.\<close>

lemma listener_char:
  assumes "tty_keycode_to_char (tty_layout t) k (shift ks) \<noteq> 0" and "tty_layout t = tty_keyboard_layout_de_DE" and "\<not> ctrl ks"
  shows "tty_keyboard_listener drv b \<lparr>ke_keycode = k, ke_pressed = True\<rparr> ks t s =
    kbind (tty_enqueue_input (tty_keycode_to_char (tty_layout t) k (shift ks)) t) (\<lambda>t1. Ret (None, ks, t1, s))"
  using assms keymap_special(2,3,5) [of k "shift ks"] keymap_special(4) [of "shift ks"]
  by (auto simp: tty_keyboard_listener_def Let_def)

lemma listener_release:
  assumes "tty_keycode_to_char tty_keyboard_layout_de_DE k shifted \<noteq> 0"
  shows "tty_keyboard_listener drv b \<lparr>ke_keycode = k, ke_pressed = False\<rparr> ks t s = Ret (None, ks, t, s)"
  using assms keymap_special(2,3) [of k shifted] by (auto simp: tty_keyboard_listener_def Let_def)

lemma listener_shift:
  "tty_keyboard_listener drv b \<lparr>ke_keycode = KEYBOARD_KEYCODE_LEFT_SHIFT, ke_pressed = True\<rparr> ks t s = Ret (None, ks\<lparr>shift := True\<rparr>, t, s)"
  "tty_keyboard_listener drv b \<lparr>ke_keycode = KEYBOARD_KEYCODE_LEFT_SHIFT, ke_pressed = False\<rparr> ks t s = Ret (None, ks\<lparr>shift := False\<rparr>, t, s)"
  by (simp_all add: tty_keyboard_listener_def is_shift_key_def is_control_key_def Let_def special_keys)

text \<open>An interrupt for a standard scancode runs the listener on its event.\<close>

lemma interrupt_bind:
  assumes "ps2_delivers io queue" and "queue c = b # bs"
    and "unat b < 89 \<and> pressed \<and> key = b \<or> 128 \<le> unat b \<and> unat b < 217 \<and> \<not> pressed \<and> key = b - 0x80"
    and "PS2_KEYBOARD_SET1_STANDARD_KEYCODES ! unat key \<noteq> 0"
    and "returns (tty_keyboard_listener drv i \<lparr>ke_keycode = PS2_KEYBOARD_SET1_STANDARD_KEYCODES ! unat key, ke_pressed = pressed\<rparr> ks t s)
      (\<lambda>(kill, r). P r)"
    and "\<And>r c'. P r \<Longrightarrow> queue c' = bs \<Longrightarrow> returns (f (r, c')) Q"
  shows "returns (kbind (keyboard_interrupt io drv i ((ks, t, s), c)) f) Q"
  unfolding keyboard_interrupt_def prod.case kbind_assoc
proof (rule returns_bind [OF handler_standard [OF assms(1-4)]], goal_cases)
  case (1 x)
  then obtain c' where x: "x = (Some \<lparr>ke_keycode = PS2_KEYBOARD_SET1_STANDARD_KEYCODES ! unat key, ke_pressed = pressed\<rparr>, c')"
    "queue c' = bs" by (auto split: prod.splits)
  show ?case unfolding x prod.case option.case kbind_assoc
    by (rule returns_bind [OF assms(5)]) (use assms(6) x(2) in auto)
qed

lemma key_typed:
  assumes io: "ps2_delivers io queue" and q: "queue c = strokes k @ rest" and k: "unat (fst k) < 89" "key_char k \<noteq> 0"
    and ks: "\<not> shift ks" "\<not> ctrl ks" and t: "typed t cs (Suc room)"
    and f: "\<And>ks' t' c'. \<not> shift ks' \<Longrightarrow> \<not> ctrl ks' \<Longrightarrow> typed t' (cs @ [key_char k]) room \<Longrightarrow> queue c' = rest \<Longrightarrow>
      returns (keyboard_interrupts io drv i n ((ks', t', s), c')) Q"
  shows "returns (keyboard_interrupts io drv i (length (strokes k) + n) ((ks, t, s), c)) Q"
proof -
  obtain key sh where kk: "k = (key, sh)" by (cases k)
  let ?code = "PS2_KEYBOARD_SET1_STANDARD_KEYCODES ! unat key"
  have ch: "tty_keycode_to_char tty_keyboard_layout_de_DE ?code sh \<noteq> 0" using k(2) kk by simp
  have nz: "?code \<noteq> 0" using ch keymap_special(1) by metis
  have lay: "tty_layout t = tty_keyboard_layout_de_DE" using t by (simp add: typed_def)
  have down: "unat key < 89 \<and> True \<and> key = key \<or> 128 \<le> unat key \<and> unat key < 217 \<and> \<not> True \<and> key = key - 0x80"
    using k(1) kk by simp
  have u: "unat (key + 0x80) = unat key + 128" using k(1) kk unat_add_lem [of key "0x80"] by simp
  then have up: "unat (key + 0x80) < 89 \<and> False \<and> key = key + 0x80 \<or>
      128 \<le> unat (key + 0x80) \<and> unat (key + 0x80) < 217 \<and> \<not> False \<and> key = key + 0x80 - 0x80" using k(1) kk by simp
  have press: "returns (tty_keyboard_listener drv i \<lparr>ke_keycode = ?code, ke_pressed = True\<rparr> ks1 t s)
      (\<lambda>(kill, r). \<exists>t'. r = (ks1, t', s) \<and> typed t' (cs @ [key_char k]) room)" if "shift ks1 = sh" "\<not> ctrl ks1" for ks1
    using enqueue_typed [OF t, of "key_char k"] ch lay that kk by (auto simp: listener_char returns_def)
  have release: "returns (tty_keyboard_listener drv i \<lparr>ke_keycode = ?code, ke_pressed = False\<rparr> ks1 t1 s) (\<lambda>(kill, r). r = (ks1, t1, s))"
    for ks1 t1 unfolding listener_release [OF ch] by simp
  show ?thesis
  proof (cases sh)
    case False
    then have n: "length (strokes k) + n = Suc (Suc n)" and qs: "queue c = key # (key + 0x80) # rest" using q kk by simp_all
    show ?thesis unfolding n keyboard_interrupts.simps
      by (rule interrupt_bind [OF io qs down nz press], (simp add: False ks)+, elim exE conjE, simp,
          rule interrupt_bind [OF io _ up nz release], simp, simp add: f ks)
  next
    case True
    then have n: "length (strokes k) + n = Suc (Suc (Suc (Suc n)))"
      and qs: "queue c = 0x2A # key # (key + 0x80) # 0xAA # rest" using q kk by simp_all
    have sd: "unat (0x2A :: u8) < 89 \<and> True \<and> (0x2A :: u8) = 0x2A \<or> 128 \<le> unat (0x2A :: u8) \<and> unat (0x2A :: u8) < 217 \<and>
        \<not> True \<and> (0x2A :: u8) = 0x2A - 0x80"
      and su: "unat (0xAA :: u8) < 89 \<and> False \<and> (0x2A :: u8) = 0xAA \<or> 128 \<le> unat (0xAA :: u8) \<and> unat (0xAA :: u8) < 217 \<and>
        \<not> False \<and> (0x2A :: u8) = 0xAA - 0x80" by simp_all
    have code: "PS2_KEYBOARD_SET1_STANDARD_KEYCODES ! unat (0x2A :: u8) = KEYBOARD_KEYCODE_LEFT_SHIFT" using shift_scancode by simp
    have snz: "PS2_KEYBOARD_SET1_STANDARD_KEYCODES ! unat (0x2A :: u8) \<noteq> 0" unfolding code by (rule left_shift_nonzero)
    have sdown: "returns (tty_keyboard_listener drv i \<lparr>ke_keycode = PS2_KEYBOARD_SET1_STANDARD_KEYCODES ! unat (0x2A :: u8), ke_pressed = True\<rparr> ks1 t1 s)
        (\<lambda>(kill, r). r = (ks1\<lparr>shift := True\<rparr>, t1, s))"
      and sup: "returns (tty_keyboard_listener drv i \<lparr>ke_keycode = PS2_KEYBOARD_SET1_STANDARD_KEYCODES ! unat (0x2A :: u8), ke_pressed = False\<rparr> ks1 t1 s)
        (\<lambda>(kill, r). r = (ks1\<lparr>shift := False\<rparr>, t1, s))" for ks1 t1
      unfolding code listener_shift by simp_all
    show ?thesis unfolding n keyboard_interrupts.simps
      by (rule interrupt_bind [OF io qs sd snz sdown], simp,
          rule interrupt_bind [OF io _ down nz press], simp, simp add: True, simp add: ks, elim exE conjE, simp,
          rule interrupt_bind [OF io _ up nz release], simp, simp,
          rule interrupt_bind [OF io _ su snz sup], simp, simp add: f ks)
  qed
qed

lemma keys_typed:
  assumes "ps2_delivers io queue" and "queue c = concat (map strokes keys) @ rest" and "\<forall>k \<in> set keys. unat (fst k) < 89 \<and> key_char k \<noteq> 0"
    and "\<not> shift ks" "\<not> ctrl ks" and "typed t cs (length keys)"
  shows "returns (keyboard_interrupts io drv i (length (concat (map strokes keys))) ((ks, t, s), c))
    (\<lambda>((ks', t', s'), c'). typed t' (cs @ map key_char keys) 0 \<and> queue c' = rest)"
  using assms(2-)
proof (induction keys arbitrary: ks t cs c)
  case (Cons k keys)
  have q: "queue c = strokes k @ concat (map strokes keys) @ rest" using Cons.prems(1) by simp
  have kk: "unat (fst k) < 89" "key_char k \<noteq> 0" and t: "typed t cs (Suc (length keys))" using Cons.prems by simp_all
  have n: "length (concat (map strokes (k # keys))) = length (strokes k) + length (concat (map strokes keys))" by simp
  show ?case unfolding n
    by (rule key_typed [OF assms(1) q kk Cons.prems(3,4) t]) (use Cons.IH Cons.prems(2) in fastforce)
qed simp

text \<open>A keyboard controller as a queue of bytes.\<close>

definition queue_ports :: "bytes ports" where
  "queue_ports =
     \<lparr>outb = (\<lambda>port v c. c),
      inb = (\<lambda>port c. if port = PS2_DATA_REGISTER then (case c of [] \<Rightarrow> (0, []) | b # bs \<Rightarrow> (b, bs))
                      else (if c = [] then 0 else 1, c)),
      outw = (\<lambda>port v c. c), inw = (\<lambda>port c. (0, c))\<rparr>"

lemma queue_ports_deliver: "ps2_delivers queue_ports (\<lambda>c. c)"
  by (simp add: ps2_delivers_def queue_ports_def PS2_STATUS_REGISTER_def PS2_DATA_REGISTER_def)

subsection \<open>Properties\<close>

text \<open>
  C31. Reading a line of ordinary characters, on a heap with room for the growth of the buffer. If the number
  of characters is a power of two (1, 2, 4, 8, and so on), the terminating NUL is stored one byte behind the
  end of the buffer. For every other number \<open>tty_gets\<close> returns a block of the heap that holds the characters
  and the NUL; it does not wait for more than the line, and the heap stays well formed.
\<close>

theorem tty_gets_line:
  assumes "tty_ok 25 80 t" and "vga_text_inv v" and "kheap_room h (4 * length msg + 1000)"
    and "\<forall>c \<in> set msg. c \<notin> {0xFF, 10, 8}"
  shows "if \<exists>k. length msg = 2 ^ k
    then tty_gets (vga_driver io) (msg @ 10 # rest) t v h = Fault
    else \<exists>p t' v' h'. tty_gets (vga_driver io) (msg @ 10 # rest) t v h = Ret (p, t', v', h') \<and>
      kheap_inv h' \<and> (\<exists>l > length msg. (unat p, l) \<in> kheap_live h') \<and>
      (\<forall>i \<le> length msg. heap_data h' (p + of_nat i) = (msg @ [0]) ! i)"
proof -
  have "kheap_room h ((4 * length msg + 978) + unat (1 :: u32) + 21)" using assms(3) by (simp add: add.commute)
  from kmalloc_room [OF this] obtain p h1 where m: "kmalloc 1 h = Ret (p, h1)" "p \<noteq> 0"
    and r: "kheap_room h1 (4 * length msg + 978)" by auto
  from kheap.alloc_live [OF kheap_room_inv [OF assms(3)] m] obtain l where
    "unat (1 :: u32) \<le> l" "(unat p, l) \<in> kheap_live h1" "kheap_inv h1" by auto
  then have b: "line_buffer h1 p 1 0 []" by (auto simp: line_buffer_def)
  have l: "length ([] @ msg) < 2147483648" using kheap_room_less [OF r] by simp
  have g: "growth_room h1 (length ([] @ msg)) 0" using r by (auto simp: growth_room_def elim: kheap_room_mono)
  from vga.gets_loop [OF assms(1,2) b _ l assms(4) g, of io rest] show ?thesis
    by (auto simp: tty_gets_def m faults_or_returns_def returns_def split: if_split_asm)
qed

theorem tty_gets_line_witness:
  "tty_gets (vga_driver ide_ports) (str ''y'' @ [10]) small_tty small_vga fresh_heap = Fault \<and>
   (\<exists>p t' v' h'. tty_gets (vga_driver ide_ports) (str ''yes'' @ [10]) small_tty small_vga fresh_heap = Ret (p, t', v', h') \<and>
     (\<forall>i \<le> 3. heap_data h' (p + of_nat i) = (str ''yes'' @ [0]) ! i))"
proof -
  have p3: "3 \<noteq> (2 :: nat) ^ k" for k by (cases k) (simp_all, presburger)
  have 1: "length (str ''y'') = 2 ^ 0" and 3: "length (str ''yes'') = 3" by (simp_all add: str_def)
  have r: "kheap_room fresh_heap (4 * length (str ''y'') + 1000)" "kheap_room fresh_heap (4 * length (str ''yes'') + 1000)"
    by (rule fresh_heap_room, simp add: str_def)+
  have c: "\<forall>c \<in> set (str ''y''). c \<notin> {0xFF, 10, 8}" "\<forall>c \<in> set (str ''yes''). c \<notin> {0xFF, 10, 8}"
    by (simp_all add: str_def asc_def)
  have y: "\<exists>k. length (str ''y'') = 2 ^ k" by (rule exI) (rule 1)
  have yes: "\<not> (\<exists>k. length (str ''yes'') = 2 ^ k)" using 3 p3 by simp
  show ?thesis
    using tty_gets_line [OF small_tty_ok small_vga_inv r(1) c(1), of ide_ports "[]", unfolded if_P [OF y]]
      tty_gets_line [OF small_tty_ok small_vga_inv r(2) c(2), of ide_ports "[]", unfolded if_not_P [OF yes]] 3
    by auto
qed

text \<open>
  C32. From the key to the reader. The keyboard sends, for each of a sequence of keys of the German
  layout, its scancode and its release, between those of the shift key where it is held; the
  interrupt handler runs once for each byte. Then reading the terminal gives exactly the characters
  of the keys, in order, as long as they fit its buffer, and no byte is left at the controller.
\<close>

theorem typed_keys_are_read:
  assumes "ps2_delivers io queue" and "queue c = concat (map strokes keys)"
    and "\<forall>k \<in> set keys. unat (fst k) < 89 \<and> key_char k \<noteq> 0" and "\<not> shift ks" and "\<not> ctrl ks"
    and "byte_queue (tty_input t)" and "cb_elems (tty_input t) = []" and "length keys \<le> unat (cb_capacity (tty_input t))"
    and "tty_layout t = tty_keyboard_layout_de_DE"
  shows "returns (keyboard_interrupts io drv interruptible (length (queue c)) ((ks, t, s), c)) (\<lambda>((ks', t', s'), c').
    queue c' = [] \<and> returns (tty_read (length keys) t') (\<lambda>(bs, t''). bs = map key_char keys))"
proof -
  have t: "typed t [] (length keys)" using assms(6-9) by (simp add: typed_def)
  have q: "queue c = concat (map strokes keys) @ []" using assms(2) by simp
  show ?thesis unfolding assms(2)
    by (rule returns_mono [OF keys_typed [OF assms(1) q assms(3-5) t]])
      (use read_typed [of _ "map key_char keys" 0] in auto)
qed

theorem typed_keys_are_read_witness:
  "returns (keyboard_interrupts queue_ports (vga_driver ide_ports) False 6 ((\<lparr>shift = False, ctrl = False\<rparr>, small_tty, small_vga),
      [0x2A, 0x23, 0xA3, 0xAA, 0x17, 0x97]))
    (\<lambda>((ks', t', s'), c'). returns (tty_read 2 t') (\<lambda>(bs, t''). bs = str ''Hi''))"
proof -
  let ?keys = "[(0x23, True), (0x17, False)] :: (u8 \<times> bool) list"
  have c: "key_char (0x23, True) = asc CHR ''H''" "key_char (0x17, False) = asc CHR ''i''"
    by (simp_all add: tty_keycode_to_char_def PS2_KEYBOARD_SET1_STANDARD_KEYCODES_def tty_keyboard_layout_de_DE_def keycodes keycode_types)
  have k: "\<forall>k \<in> set ?keys. unat (fst k) < 89 \<and> key_char k \<noteq> 0" using c by (simp add: asc_def)
  have q: "[0x2A, 0x23, 0xA3, 0xAA, 0x17, 0x97] = concat (map strokes ?keys)" by simp
  have t: "byte_queue (tty_input small_tty)" "cb_elems (tty_input small_tty) = []"
    "length ?keys \<le> unat (cb_capacity (tty_input small_tty))" "tty_layout small_tty = tty_keyboard_layout_de_DE"
    using byte_buffer_ok by (simp_all add: small_tty_def byte_buffer_def)
  have n: "6 = length ([0x2A, 0x23, 0xA3, 0xAA, 0x17, 0x97] :: bytes)" by simp
  show ?thesis unfolding n
    by (rule returns_mono [OF typed_keys_are_read [OF queue_ports_deliver q k _ _ t]])
      (use c in \<open>auto simp: str_def asc_def numeral_2_eq_2 simp del: key_char.simps tty_read.simps\<close>)
qed

end
