(* ===== verification/Volume_Register.thy ===== *)
theory Volume_Register
  imports Volume Kheap_Room
begin

text \<open>
  The registration of the volumes of a storage device (\<open>volume_register_device\<close> of
  \<open>kernel/src/device/volume.c\<close>): the generator of identifiers ends, the volumes that a boot sector asks for, and
  that a heap with enough room serves the registration.
\<close>

subsection \<open>The generator of identifiers ends\<close>

text \<open>
  The random numbers come from a linear congruential generator; after \<open>2 ^ k\<close> steps, and so after
  \<open>3 * 2 ^ 16\<close> of them, the state is an affine function of the state before.
\<close>

definition lcg :: "u32 \<Rightarrow> u32" where
  "lcg s = s * 1103515245 + 12345"

fun affine :: "nat \<Rightarrow> nat \<Rightarrow> nat \<Rightarrow> nat \<times> nat" where
  "affine 0 p q = (p, q)"
| "affine (Suc k) p q = affine k (p * p mod 4294967296) ((p * q + q) mod 4294967296)"

lemma of_nat_u32_mod: "(of_nat (n mod 4294967296) :: u32) = of_nat n"
  by (simp add: u32_eq_iff unsigned_of_nat take_bit_eq_mod)

lemma affine_funpow:
  "((\<lambda>s. of_nat p * s + of_nat q) ^^ (2 ^ k)) (s :: u32) = of_nat (fst (affine k p q)) * s + of_nat (snd (affine k p q))"
proof (induction k arbitrary: p q)
  case (Suc k)
  have "(\<lambda>s :: u32. of_nat p * s + of_nat q) ^^ 2 =
      (\<lambda>s. of_nat (p * p mod 4294967296) * s + of_nat ((p * q + q) mod 4294967296))"
    unfolding of_nat_u32_mod by (simp add: fun_eq_iff numeral_2_eq_2 algebra_simps)
  then have "(\<lambda>s :: u32. of_nat p * s + of_nat q) ^^ (2 ^ Suc k) =
      (\<lambda>s. of_nat (p * p mod 4294967296) * s + of_nat ((p * q + q) mod 4294967296)) ^^ (2 ^ k)"
    by (simp add: funpow_mult [symmetric])
  then show ?case using Suc by simp
qed simp

lemma lcg_affine: "lcg = (\<lambda>s. of_nat 1103515245 * s + of_nat 12345)"
  by (simp add: fun_eq_iff lcg_def mult.commute)

definition lcg_leap :: "u32 \<Rightarrow> u32" where
  "lcg_leap = lcg ^^ (3 * 2 ^ 16)"

lemma funpow_thrice: "(f ^^ (3 * n)) s = (f ^^ n) ((f ^^ n) ((f ^^ n) s))"
proof -
  have "3 * n = n + (n + n)" by simp
  then show ?thesis by (simp only: funpow_add comp_def not_False_eq_True)
qed

lemma lcg_leap_eq: "lcg_leap s = 0x9EEC0001 * s + 0x63990000"
proof -
  have n: "(16 :: nat) = Suc (Suc (Suc (Suc (Suc (Suc (Suc (Suc (Suc (Suc (Suc (Suc (Suc (Suc (Suc (Suc 0)))))))))))))))" by simp
  have a: "affine 16 1103515245 12345 = (3752067073, 556990464)" by (subst n) simp
  have l: "(lcg ^^ (2 ^ 16)) s = 3752067073 * s + 556990464" for s
    unfolding lcg_affine affine_funpow a by simp
  have "lcg_leap s = (lcg ^^ (2 ^ 16)) ((lcg ^^ (2 ^ 16)) ((lcg ^^ (2 ^ 16)) s))"
    unfolding lcg_leap_def by (rule funpow_thrice)
  also have "\<dots> = (3752067073 * 3752067073 * 3752067073) * s +
      (3752067073 * 3752067073 * 556990464 + 3752067073 * 556990464 + 556990464)"
    unfolding l by (simp only: ring_distribs mult.assoc add.assoc)
  also have "(3752067073 * 3752067073 * 3752067073 :: u32) = 0x9EEC0001" by (simp add: u32_eq_iff)
  also have "(3752067073 * 3752067073 * 556990464 + 3752067073 * 556990464 + 556990464 :: u32) = 0x63990000"
    by (simp add: u32_eq_iff)
  finally show ?thesis .
qed

text \<open>Modulo \<open>2 ^ 20\<close> a leap adds an odd multiple of \<open>2 ^ 16\<close> that is the same along the whole orbit.\<close>

lemma leap_mod:
  "unat (lcg_leap s) mod 0x100000 = (unat s + 0x10000 * (9 + 12 * unat s)) mod 0x100000"
proof -
  have "unat (lcg_leap s) = (0x9EEC0001 * unat s + 0x63990000) mod 4294967296"
    by (simp add: lcg_leap_eq unat_word_ariths mod_simps)
  then have "unat (lcg_leap s) mod 0x100000 = (0x9EEC0001 * unat s + 0x63990000) mod 0x100000"
    by (simp add: mod_mod_cancel)
  also have "0x9EEC0001 * unat s + 0x63990000 =
      (unat s + 0x10000 * (9 + 12 * unat s)) + 0x100000 * (0x9EE * unat s + 0x639)" by simp
  finally show ?thesis by (simp only: mod_mult_self2)
qed

lemma affine_mod: "(c + d * (x mod m)) mod m = (c + d * x) mod (m :: nat)"
  by (metis mod_add_right_eq mod_mult_right_eq)

lemma leaps_mod:
  "unat ((lcg_leap ^^ m) s) mod 0x100000 = (unat s + m * (0x10000 * (9 + 12 * unat s))) mod 0x100000"
proof (induction m)
  case (Suc m)
  let ?u = "unat ((lcg_leap ^^ m) s)" let ?k = "0x10000 * (9 + 12 * unat s)"
  have "?u + 0x10000 * (9 + 12 * ?u) = 0x90000 + 0xC0001 * ?u" by simp
  then have "unat ((lcg_leap ^^ Suc m) s) mod 0x100000 = (0x90000 + 0xC0001 * ?u) mod 0x100000"
    by (simp only: leap_mod funpow.simps comp_def)
  also have "\<dots> = (0x90000 + 0xC0001 * (?u mod 0x100000)) mod 0x100000" by (rule affine_mod [symmetric])
  also have "\<dots> = (0x90000 + 0xC0001 * (unat s + m * ?k)) mod 0x100000" unfolding Suc by (rule affine_mod)
  also have "0x90000 + 0xC0001 * (unat s + m * ?k) = (unat s + Suc m * ?k) + 0x100000 * (0xC000 * 12 * m * unat s + 0xC000 * 9 * m)"
    by (simp add: algebra_simps)
  also have "\<dots> mod 0x100000 = (unat s + Suc m * ?k) mod 0x100000" by (simp only: mod_mult_self2)
  finally show ?case .
qed simp

definition lcg_digit :: "u32 \<Rightarrow> nat" where
  "lcg_digit s = unat s div 0x10000 mod 16"

lemma leaps_digit: "lcg_digit ((lcg_leap ^^ m) s) = (lcg_digit s + m * (9 + 12 * unat s)) mod 16"
proof -
  have d: "x div 0x10000 mod 16 = x mod 0x100000 div 0x10000" for x :: nat
    using mod_mult2_eq [of x "0x10000" 16] by (simp add: div_mult2_eq)
  have "lcg_digit ((lcg_leap ^^ m) s) = (unat s + 0x10000 * (m * (9 + 12 * unat s))) mod 0x100000 div 0x10000"
    unfolding lcg_digit_def d leaps_mod by (simp only: mult.left_commute)
  also have "\<dots> = (unat s + 0x10000 * (m * (9 + 12 * unat s))) div 0x10000 mod 16" by (rule d [symmetric])
  also have "\<dots> = (m * (9 + 12 * unat s) + unat s div 0x10000) mod 16" by (subst div_mult_self2) simp_all
  finally show ?thesis by (simp add: lcg_digit_def mod_simps add.commute)
qed

lemma leaps_digit_inj: "inj_on (\<lambda>m. lcg_digit ((lcg_leap ^^ m) s)) {..<16}"
proof (rule inj_onI)
  fix m n assume mn: "m \<in> {..<16}" "n \<in> {..<16}" and e: "lcg_digit ((lcg_leap ^^ m) s) = lcg_digit ((lcg_leap ^^ n) s)"
  have odd: "coprime (9 + 12 * int (unat s)) 16"
  proof -
    have "odd (9 + 12 * int (unat s))" by simp
    then have "coprime (9 + 12 * int (unat s)) (2 ^ 4)" by (simp add: coprime_right_2_iff_odd del: power_numeral_even power_numeral)
    then show ?thesis by simp
  qed
  have "(int (lcg_digit s) + int m * (9 + 12 * int (unat s))) mod 16 = (int (lcg_digit s) + int n * (9 + 12 * int (unat s))) mod 16"
    using arg_cong [OF e, of int] unfolding leaps_digit by (simp add: zmod_int)
  then have "16 dvd (int m - int n) * (9 + 12 * int (unat s))"
    by (simp add: mod_eq_dvd_iff algebra_simps)
  then have "16 dvd int m - int n" using odd by (simp add: coprime_dvd_mult_left_iff coprime_commute)
  moreover have "\<bar>int m - int n\<bar> < 16" using mn by auto
  ultimately have "int m - int n = 0" using dvd_imp_le_int [of "int m - int n" 16] by (cases "int m - int n = 0") auto
  then show "m = n" by simp
qed

subsection \<open>Identifiers\<close>

lemma random_next_eq: "random_next s = ((lcg s div 65536) mod 32768, lcg s)"
  by (simp add: random_next_def lcg_def Let_def)

lemma short_id_state: "snd (short_id_chars n s) = (lcg ^^ n) s"
  by (induction n arbitrary: s) (simp_all add: random_next_eq case_prod_beta funpow_swap1)

lemma short_id_first: "hd (fst (short_id_chars SHORT_ID_LENGTH s)) = hex_digits ! lcg_digit (lcg s)"
proof -
  have "unat (((lcg s div 65536) mod 32768) AND 0x0F) = unat (lcg s) div 65536 mod 32768 mod 16"
    using unat_and_mask_u32 [of "(lcg s div 65536) mod 32768" 4]
    by (simp add: mask_eq_exp_minus_1 unat_u32_div unat_u32_mod take_bit_eq_mod)
  also have "\<dots> = lcg_digit (lcg s)" by (simp add: lcg_digit_def mod_mod_cancel)
  finally show ?thesis by (simp add: SHORT_ID_LENGTH_def eval_nat_numeral random_next_eq case_prod_beta)
qed

lemma hex_digits_inj: "i < 16 \<Longrightarrow> j < 16 \<Longrightarrow> hex_digits ! i = hex_digits ! j \<Longrightarrow> i = j"
proof -
  have "distinct hex_digits" "length hex_digits = 16" by (simp_all add: hex_digits_def str_def asc_def)
  then show "i < 16 \<Longrightarrow> j < 16 \<Longrightarrow> hex_digits ! i = hex_digits ! j \<Longrightarrow> i = j" by (simp add: nth_eq_iff_index_eq)
qed

lemma generate_short_id_step:
  "generate_short_id ex ((lcg ^^ SHORT_ID_LENGTH) s) \<noteq> None \<Longrightarrow> generate_short_id ex s \<noteq> None"
  by (subst generate_short_id.simps) (auto simp: case_prod_beta short_id_state)

lemma generate_short_id_steps:
  "\<not> ex (fst (short_id_chars SHORT_ID_LENGTH ((lcg ^^ (m * SHORT_ID_LENGTH)) s))) \<Longrightarrow> generate_short_id ex s \<noteq> None"
proof (induction m arbitrary: s)
  case 0
  then show ?case by (subst generate_short_id.simps) (auto simp: case_prod_beta)
next
  case (Suc m)
  have "Suc m * SHORT_ID_LENGTH = m * SHORT_ID_LENGTH + SHORT_ID_LENGTH" by simp
  then have "generate_short_id ex ((lcg ^^ SHORT_ID_LENGTH) s) \<noteq> None"
    using Suc.prems by (intro Suc.IH) (simp only: funpow_add comp_def not_False_eq_True)
  then show ?case by (rule generate_short_id_step)
qed

text \<open>The candidates at 16 points of the sequence start with 16 different digits.\<close>

lemma generate_short_id_returns:
  assumes "finite {i. ex i}" and "card {i. ex i} < 16"
  shows "\<exists>i s'. generate_short_id ex s = Some (i, s')"
proof -
  define cand where "cand m = fst (short_id_chars SHORT_ID_LENGTH ((lcg_leap ^^ m) s))" for m
  have c: "lcg ((lcg_leap ^^ m) s) = (lcg_leap ^^ m) (lcg s)" for m
    by (simp add: lcg_leap_def funpow_mult funpow_swap1)
  have "inj_on cand {..<16}"
  proof (rule inj_onI)
    fix m n assume mn: "m \<in> {..<16 :: nat}" "n \<in> {..<16}" and "cand m = cand n"
    then have "hex_digits ! lcg_digit ((lcg_leap ^^ m) (lcg s)) = hex_digits ! lcg_digit ((lcg_leap ^^ n) (lcg s))"
      unfolding cand_def using short_id_first c by metis
    then have "lcg_digit ((lcg_leap ^^ m) (lcg s)) = lcg_digit ((lcg_leap ^^ n) (lcg s))"
      by (rule hex_digits_inj [rotated 2]) (simp_all add: lcg_digit_def)
    then show "m = n" using leaps_digit_inj mn by (auto dest: inj_onD)
  qed
  then have "card (cand ` {..<16}) = 16" by (simp add: card_image)
  then have "\<not> cand ` {..<16} \<subseteq> {i. ex i}" using card_mono [OF assms(1), of "cand ` {..<16}"] assms(2) by auto
  then obtain m where "\<not> ex (cand m)" by blast
  moreover have "lcg_leap ^^ m = lcg ^^ (m * 0x8000 * SHORT_ID_LENGTH)"
    by (simp add: lcg_leap_def funpow_mult SHORT_ID_LENGTH_def)
  ultimately have "generate_short_id ex s \<noteq> None"
    unfolding cand_def by (intro generate_short_id_steps [of ex "m * 0x8000"]) simp
  then show ?thesis by auto
qed


subsection \<open>Partitions\<close>

text \<open>The volumes that a partition table asks for: name, offset and size of the present entries.\<close>

fun partition_volumes :: "storage_device \<Rightarrow> nat \<Rightarrow> mbr_partition_entry list \<Rightarrow> (bytes \<times> u32 \<times> u32) list" where
  "partition_volumes device i [] = []"
| "partition_volumes device i (e # es) =
     (if part_type e = 0 then partition_volumes device (i + 1) es
      else (dev_name device @ str '' #'' @ itoa_string (of_nat (i + 1)) 10,
            part_lba_start e * drv_sector_size (dev_driver device),
            part_sectors e * drv_sector_size (dev_driver device)) # partition_volumes device (i + 1) es)"

definition volume_entry :: "volume \<Rightarrow> bytes \<times> u32 \<times> u32" where
  "volume_entry v = (vol_name v, vol_offset v, vol_size v)"

lemma itoa_holds: "itoa n buf 10 = Some b \<Longrightarrow> cstr_at b 0 = itoa_string n 10"
  using itoa_string_c_string [of 10 n]
  by (intro holds_cstr) (auto simp: itoa_eq Let_def holds_def split: if_splits)

lemma volume_add_partitions_ids:
  "volume_add_partitions device i es n k = Ret (n', k') \<Longrightarrow> ids_unique (volumes k) \<Longrightarrow>
   \<exists>new. volumes k' = volumes k @ new \<and> ids_unique (volumes k') \<and> n' = n + of_nat (length new) \<and>
     map volume_entry new = partition_volumes device i es \<and> (\<forall>v \<in> set new. vol_device v = device)"
proof (induction device i es n k rule: volume_add_partitions.induct)
  case (1 device i n k)
  then show ?case by simp
next
  case (2 device i e es n k)
  show ?case
  proof (cases "part_type e = 0")
    case True
    then show ?thesis using 2 by simp
  next
    case False
    let ?o = "part_lba_start e * drv_sector_size (dev_driver device)"
    let ?s = "part_sectors e * drv_sector_size (dev_driver device)"
    from "2.prems"(1) False obtain b k1 where
      b: "or_fault (itoa (of_nat (i + 1)) [0xCC, 0xCC] 10) = Ret b" and
      a: "volume_add device (of_nat (length (dev_name device)) + 4)
            (dev_name device @ str '' #'' @ cstr_at b 0) ?o ?s k = Ret k1" and
      r: "volume_add_partitions device (i + 1) es (n + 1) k1 = Ret (n', k')"
      unfolding volume_add_partitions.simps if_not_P [OF False] kbind_Ret_iff by blast
    have c: "cstr_at b 0 = itoa_string (of_nat (i + 1)) 10"
      using b itoa_holds by (cases "itoa (of_nat (i + 1)) [0xCC, 0xCC] 10") auto
    from volume_add_ids [OF a "2.prems"(2)] obtain v where v: "volumes k1 = volumes k @ [v]"
      "ids_unique (volumes k1)" "vol_device v = device"
      "volume_entry v = (dev_name device @ str '' #'' @ itoa_string (of_nat (i + 1)) 10, ?o, ?s)"
      unfolding volume_entry_def c by auto
    from "2.IH"(2) [OF False r v(2)] obtain new where new: "volumes k' = volumes k1 @ new"
      "ids_unique (volumes k')" "n' = n + 1 + of_nat (length new)"
      "map volume_entry new = partition_volumes device (i + 1) es" "\<forall>v \<in> set new. vol_device v = device"
      by blast
    show ?thesis
      by (rule exI [of _ "v # new"]) (use new v False in simp)
  qed
qed

lemma drv_read_volumes:
  "drv_read io d off sz k = Ret (r, k') \<Longrightarrow> volumes k' = volumes (k :: ('c, 'm) vkernel_scheme)"
  by (cases d) (auto simp: initrd_read_def ata_read_def Let_def kbind_Ret_iff split: if_splits)

lemma mbr_probe_volumes:
  "mbr_probe io junk device k = Ret (r, k') \<Longrightarrow> volumes k' = volumes (k :: ('c, 'm) vkernel_scheme)"
  by (auto simp: mbr_probe_def kbind_Ret_iff dest: drv_read_volumes)

lemma mbr_read_volumes:
  "mbr_read io device k = Ret (r, k') \<Longrightarrow> volumes k' = volumes (k :: ('c, 'm) vkernel_scheme)"
  by (auto simp: mbr_read_def kbind_Ret_iff dest: drv_read_volumes)


subsection \<open>A heap with enough room\<close>

lemma kmalloc_or_panic_room:
  "kheap_room h (n + unat sz + 21) \<Longrightarrow> sz \<noteq> 0 \<Longrightarrow> \<exists>p h'. kmalloc_or_panic sz h = Ret (p, h') \<and> kheap_room h' n"
  using kmalloc_room by (fastforce simp: kmalloc_or_panic_def)

lemma generate_id_volumes:
  assumes "length (volumes k) < 16"
  shows "\<exists>i s'. generate_short_id (volume_id_exists k) s = Some (i, s')"
proof (rule generate_short_id_returns)
  have e: "{i. volume_id_exists k i} = vol_id ` set (volumes k)"
    by (auto simp: volume_id_exists_def volume_find_by_id_def find_None_iff)
  then show "finite {i. volume_id_exists k i}" by simp
  have "card (vol_id ` set (volumes k)) \<le> length (volumes k)"
    by (rule order_trans [OF card_image_le card_length]) simp
  then show "card {i. volume_id_exists k i} < 16" using assms e by simp
qed

lemma volume_add_room:
  assumes room: "kheap_room (k_heap k) (n + unat ns + 136)" and ns: "ns \<noteq> 0" "length name < unat ns"
    and vs: "length (volumes k) < 16"
  shows "\<exists>k'. volume_add device ns name off sz k = Ret k' \<and> kheap_room (k_heap k') n"
proof -
  have "kheap_room (k_heap k) ((n + unat ns + 87) + unat (28 :: u32) + 21)" by (rule kheap_room_mono [OF room]) simp
  from kmalloc_or_panic_room [OF this] obtain p1 h1 where 1: "kmalloc_or_panic 28 (k_heap k) = Ret (p1, h1)"
    "kheap_room h1 (n + unat ns + 87)" by auto
  from generate_id_volumes [OF vs] obtain i s' where i: "generate_short_id (volume_id_exists k) (random_state k) = Some (i, s')"
    by blast
  have "kheap_room h1 ((n + 66) + unat ns + 21)" by (rule kheap_room_mono [OF 1(2)]) simp
  from kmalloc_or_panic_room [OF this ns(1)] obtain p2 h2 where 2: "kmalloc_or_panic ns h1 = Ret (p2, h2)" "kheap_room h2 (n + 66)"
    by auto
  have "kheap_room h2 ((n + 33) + unat (12 :: u32) + 21)" by (rule kheap_room_mono [OF 2(2)]) simp
  from kmalloc_or_panic_room [OF this] obtain p3 h3 where 3: "kmalloc_or_panic 12 h2 = Ret (p3, h3)" "kheap_room h3 (n + 33)" by auto
  have "kheap_room h3 (n + unat (12 :: u32) + 21)" by (rule kheap_room_mono [OF 3(2)]) simp
  from kmalloc_or_panic_room [OF this] obtain p4 h4 where "kmalloc_or_panic 12 h3 = Ret (p4, h4)" "kheap_room h4 n" by auto
  then show ?thesis using 1(1) 2(1) 3(1) i ns(2) by (simp add: volume_add_def Let_def not_le [symmetric])
qed

text \<open>
  The name of an unpartitioned drive: its NUL may land on the magic number of the next block, which later
  requests do not look at.
\<close>

definition same_links :: "(u32 \<Rightarrow> kheap_block) \<Rightarrow> (u32 \<Rightarrow> kheap_block) \<Rightarrow> bool" where
  "same_links m m' \<longleftrightarrow> (\<forall>a. blk_size (m' a) = blk_size (m a) \<and> blk_free (m' a) = blk_free (m a) \<and>
     blk_prev (m' a) = blk_prev (m a) \<and> blk_next (m' a) = blk_next (m a))"

lemma same_links_consider: "same_links m m' \<Longrightarrow> kheap_consider m' = kheap_consider m"
  by (simp add: fun_eq_iff kheap_consider_def same_links_def Let_def)

lemma same_links_best_fit:
  assumes "same_links m m'" and "kheap_find_best_fit m sz align a b = Some y"
  shows "kheap_find_best_fit m' sz align a b = Some y"
proof -
  have "\<forall>m'. same_links m m' \<longrightarrow> kheap_find_best_fit m' sz align a b = Some y"
  proof (rule kheap_find_best_fit.raw_induct [where P = "\<lambda>m sz align a b y. \<forall>m'. same_links m m' \<longrightarrow>
      kheap_find_best_fit m' sz align a b = Some y", OF _ assms(2)], intro allI impI, goal_cases)
    case (1 f m sz align a b y m')
    have n: "blk_next (m' a) = blk_next (m a)" using 1(3) by (simp add: same_links_def)
    show ?case
    proof (cases "a = 0")
      case True
      then show ?thesis using 1(2) by (simp add: kheap_find_best_fit.simps)
    next
      case False
      then have "kheap_find_best_fit m' sz align (blk_next (m a)) (kheap_consider m sz align a b) = Some y" using 1 by auto
      then show ?thesis using False n same_links_consider [OF 1(3)] by (subst kheap_find_best_fit.simps) simp
    qed
  qed
  then show ?thesis using assms(1) by blast
qed

definition same_chain :: "kheap \<Rightarrow> kheap \<Rightarrow> bool" where
  "same_chain h g \<longleftrightarrow> same_links (heap_hdr h) (heap_hdr g) \<and> kheap_enabled g = kheap_enabled h \<and> kheap_head g = kheap_head h"

lemma same_chain_nul: "same_chain h (heap_nul a h)"
  by (simp add: same_chain_def same_links_def heap_nul_def set_hdr_def)

lemma same_chain_carve:
  assumes "same_chain h g"
  shows "fst (kheap_carve_block sz a g) = fst (kheap_carve_block sz a h) \<and>
    same_chain (snd (kheap_carve_block sz a h)) (snd (kheap_carve_block sz a g))"
proof -
  have l: "blk_size (heap_hdr g x) = blk_size (heap_hdr h x)" "blk_free (heap_hdr g x) = blk_free (heap_hdr h x)"
    "blk_prev (heap_hdr g x) = blk_prev (heap_hdr h x)" "blk_next (heap_hdr g x) = blk_next (heap_hdr h x)"
    "kheap_enabled g = kheap_enabled h" "kheap_head g = kheap_head h" for x
    using assms by (simp_all add: same_chain_def same_links_def)
  show ?thesis by (simp add: same_chain_def same_links_def kheap_carve_block_def Let_def set_hdr_def l)
qed

lemma same_chain_kmalloc:
  assumes "same_chain h g" and "kmalloc sz h = Ret (p, h')" and "kheap_enabled h"
  shows "\<exists>g'. kmalloc sz g = Ret (p, g') \<and> same_chain h' g'"
proof -
  have e: "kmalloc sz x = kmalloc_heap sz False x" if "kheap_enabled x" for x
    using that by (simp add: kmalloc_def kmalloc_int_def)
  have g: "kheap_enabled g" "kheap_head g = kheap_head h" "same_links (heap_hdr h) (heap_hdr g)"
    using assms(1,3) by (simp_all add: same_chain_def)
  show ?thesis
  proof (cases "sz = 0")
    case True
    then show ?thesis using assms g e by (simp add: kmalloc_heap_def)
  next
    case False
    then obtain b where b: "kheap_find_best_fit (heap_hdr h) sz False (kheap_head h) 0 = Some b"
      using assms(2,3) e by (auto simp: kmalloc_heap_def split: option.split_asm)
    then have "kheap_find_best_fit (heap_hdr g) sz False (kheap_head g) 0 = Some b"
      using same_links_best_fit [OF g(3)] g(2) by simp
    then show ?thesis using assms b False e g(1) same_chain_carve [OF assms(1), of sz b]
      by (cases "kheap_carve_block sz b h"; cases "kheap_carve_block sz b g") (auto simp: kmalloc_heap_def split: if_split_asm)
  qed
qed


lemma volume_add_whole:
  assumes room: "kheap_room (k_heap k) (unat ns + 136)" and ns: "ns \<noteq> 0" and vs: "length (volumes k) < 16"
  shows "\<exists>k'. volume_add device ns name off sz k = Ret k'"
proof -
  have "kheap_room (k_heap k) ((unat ns + 87) + unat (28 :: u32) + 21)" by (rule kheap_room_mono [OF room]) simp
  from kmalloc_or_panic_room [OF this] obtain p1 h1 where 1: "kmalloc_or_panic 28 (k_heap k) = Ret (p1, h1)"
    "kheap_room h1 (unat ns + 87)" by auto
  from generate_id_volumes [OF vs] obtain i s' where i: "generate_short_id (volume_id_exists k) (random_state k) = Some (i, s')"
    by blast
  have "kheap_room h1 (66 + unat ns + 21)" by (rule kheap_room_mono [OF 1(2)]) simp
  from kmalloc_or_panic_room [OF this ns] obtain p2 h2 where 2: "kmalloc_or_panic ns h1 = Ret (p2, h2)" "kheap_room h2 66"
    by auto
  define g2 where "g2 = (if unat ns \<le> length name then heap_nul (p2 + ns) h2 else h2)"
  have c2: "same_chain h2 g2" using same_chain_nul by (simp add: g2_def same_chain_def same_links_def)
  have "kheap_room h2 (33 + unat (12 :: u32) + 21)" by (rule kheap_room_mono [OF 2(2)]) simp
  from kmalloc_room [OF this] obtain p3 h3 where 3: "kmalloc 12 h2 = Ret (p3, h3)" "p3 \<noteq> 0" "kheap_room h3 33" by auto
  have "kheap_room h3 (0 + unat (12 :: u32) + 21)" by (rule kheap_room_mono [OF 3(3)]) simp
  from kmalloc_room [OF this] obtain p4 h4 where 4: "kmalloc 12 h3 = Ret (p4, h4)" "p4 \<noteq> 0" by auto
  have e: "kheap_enabled h2" "kheap_enabled h3" using 2(2) 3(3) kheap_room_inv kheap_inv_enabled by blast+
  from same_chain_kmalloc [OF c2 3(1) e(1)] obtain g3 where g3: "kmalloc 12 g2 = Ret (p3, g3)" "same_chain h3 g3" by blast
  from same_chain_kmalloc [OF g3(2) 4(1) e(2)] obtain g4 where g4: "kmalloc 12 g3 = Ret (p4, g4)" by blast
  have k: "kmalloc_or_panic 12 g2 = Ret (p3, g3)" "kmalloc_or_panic 12 g3 = Ret (p4, g4)"
    using 3(2) 4(2) g3(1) g4 by (simp_all add: kmalloc_or_panic_def)
  show ?thesis using 1(1) 2(1) i k by (simp add: volume_add_def Let_def g2_def [symmetric])
qed

lemma partition_number:
  assumes "i < 4"
  shows "itoa_string (of_nat (i + 1)) 10 = [0x31 + of_nat i]"
    and "\<exists>b. itoa (of_nat (i + 1)) [0xCC, 0xCC] 10 = Some b"
proof -
  have d: "itoa_string n 10 = [0x30 + ucast n]" if "n \<in> {1, 2, 3, 4}" for n
    using that by (auto simp: itoa_string_def itoa_negative_def digits.simps digit_char_def ITOA_CHARS_def str_def asc_def)
  have i: "i = 0 \<or> i = 1 \<or> i = 2 \<or> i = 3" using assms by auto
  then have "(of_nat (i + 1) :: u32) \<in> {1, 2, 3, 4}" by auto
  from d [OF this] i show s: "itoa_string (of_nat (i + 1)) 10 = [0x31 + of_nat i]" by auto
  show "\<exists>b. itoa (of_nat (i + 1)) [0xCC, 0xCC] 10 = Some b" by (subst itoa_eq) (simp_all only: s Let_def, simp_all)
qed


lemma volume_add_partitions_room:
  "kheap_room (k_heap k) (n + length es * (length (dev_name device) + 140)) \<Longrightarrow> ids_unique (volumes k) \<Longrightarrow>
   length (volumes k) + length es \<le> 16 \<Longrightarrow> i + length es \<le> 4 \<Longrightarrow> length (dev_name device) < 0x2000001 \<Longrightarrow>
   \<exists>m k'. volume_add_partitions device i es c k = Ret (m, k')"
proof (induction device i es c k rule: volume_add_partitions.induct)
  case (2 device i e es c k)
  let ?len = "length (dev_name device)"
  show ?case
  proof (cases "part_type e = 0")
    case True
    have "kheap_room (k_heap k) (n + length es * (?len + 140))" by (rule kheap_room_mono [OF "2.prems"(1)]) simp
    then show ?thesis using True "2.IH"(1) "2.prems" by simp
  next
    case False
    let ?o = "part_lba_start e * drv_sector_size (dev_driver device)"
    let ?s = "part_sectors e * drv_sector_size (dev_driver device)"
    have i: "i < 4" using "2.prems"(4) by simp
    obtain b where b: "itoa (of_nat (i + 1)) [0xCC, 0xCC] 10 = Some b" using partition_number(2) [OF i] by blast
    have c: "cstr_at b 0 = [0x31 + of_nat i]" using itoa_holds [OF b] partition_number(1) [OF i] by simp
    have l: "unat (of_nat ?len + 4 :: u32) = ?len + 4" using "2.prems"(5) unat_of_nat_u32 [of "?len + 4"] by simp
    then have nz: "(of_nat ?len + 4 :: u32) \<noteq> 0" by (metis add_is_0 unsigned_0 zero_neq_numeral)
    have "kheap_room (k_heap k) ((n + length es * (?len + 140)) + unat (of_nat ?len + 4 :: u32) + 136)"
      by (rule kheap_room_mono [OF "2.prems"(1)]) (simp add: l)
    from volume_add_room [OF this nz, of "dev_name device @ str '' #'' @ cstr_at b 0" device ?o ?s] obtain k' where
      a: "volume_add device (of_nat ?len + 4) (dev_name device @ str '' #'' @ cstr_at b 0) ?o ?s k = Ret k'"
      "kheap_room (k_heap k') (n + length es * (?len + 140))"
      using "2.prems"(3) by (auto simp: l c str_def)
    from volume_add_ids [OF a(1) "2.prems"(2)] have v: "ids_unique (volumes k')" "length (volumes k') = Suc (length (volumes k))"
      by auto
    from "2.IH"(2) [OF False a(2) v(1)] v(2) "2.prems"(3-5) obtain m k'' where
      "volume_add_partitions device (i + 1) es (c + 1) k' = Ret (m, k'')" by auto
    then show ?thesis using False a(1) b by simp
  qed
qed simp

subsection \<open>The boot sector\<close>

text \<open>
  What the boot sector \<open>S\<close> of a drive asks for: name, offset and size of the volumes. A sector with the signature and
  four partition entries that are active or not asks for one volume for each entry with a type; any other
  sector asks for one volume of the whole drive.
\<close>

definition boot_sector_volumes :: "bytes \<Rightarrow> bytes \<Rightarrow> u32 \<Rightarrow> u32 \<Rightarrow> (bytes \<times> u32 \<times> u32) list" where
  "boot_sector_volumes S name sector_size total_size =
     (if S ! 510 = 0x55 \<and> S ! 511 = 0xAA \<and> (\<forall>p \<in> {446, 462, 478, 494}. S ! p = 0 \<or> S ! p = 0x80)
      then map (\<lambda>i. (name @ [0x20, 0x23, 0x31 + of_nat i], le32 S (454 + 16 * i) * sector_size, le32 S (458 + 16 * i) * sector_size))
             (filter (\<lambda>i. S ! (450 + 16 * i) \<noteq> 0) [0, 1, 2, 3])
      else [(name, 0, total_size)])"

lemma le16_eq: "le16 S n = 0xAA55 \<longleftrightarrow> S ! n = 0x55 \<and> S ! (n + 1) = 0xAA"
proof
  assume e: "le16 S n = 0xAA55"
  have "S ! n = ucast (le16 S n)" "S ! (n + 1) = ucast (drop_bit 8 (le16 S n))"
    unfolding le16_def by (rule word_of_two_bytes(1) [symmetric], rule word_of_two_bytes(2) [symmetric])
  then show "S ! n = 0x55 \<and> S ! (n + 1) = 0xAA" unfolding e by simp
qed (simp add: le16_def)

lemma mbr_valid_sector:
  "mbr_valid (mbr_of S) \<longleftrightarrow> S ! 510 = 0x55 \<and> S ! 511 = 0xAA \<and> (\<forall>p \<in> {446, 462, 478, 494}. S ! p = 0 \<or> S ! p = 0x80)"
  by (auto simp: mbr_valid_def mbr_of_def mbr_partition_of_def MBR_SIGNATURE_def le16_eq upt_rec)

lemma partition_volumes_sector:
  "partition_volumes device 0 (mbr_partitions (mbr_of S)) =
    map (\<lambda>i. (dev_name device @ [0x20, 0x23, 0x31 + of_nat i], le32 S (454 + 16 * i) * drv_sector_size (dev_driver device),
        le32 S (458 + 16 * i) * drv_sector_size (dev_driver device)))
      (filter (\<lambda>i. S ! (450 + 16 * i) \<noteq> 0) [0, 1, 2, 3])"
  using partition_number(1) [of 0] partition_number(1) [of 1] partition_number(1) [of 2] partition_number(1) [of 3]
  by (simp add: mbr_of_def mbr_partition_of_def upt_rec str_def asc_def)

text \<open>The first 512 bytes behind a driver, when they can be read.\<close>

definition first_sector :: "'c ports \<Rightarrow> ('c \<Rightarrow> bool) \<Rightarrow> ('c \<Rightarrow> u16 \<Rightarrow> nat \<Rightarrow> bytes) \<Rightarrow> storage_driver \<Rightarrow>
    ('c, 'm) kernel_scheme \<Rightarrow> bytes \<Rightarrow> bool" where
  "first_sector io ok disk driver k S \<longleftrightarrow> (case driver of
     INITRD_DRIVER \<Rightarrow> unat (initrd_size k) = length (initrd_base k) \<and> 512 \<le> length (initrd_base k) \<and> S = take 512 (initrd_base k)
   | ATA_DRIVER d \<Rightarrow> ide_transfers io ok disk \<and> ok (k_hw k) \<and> drive_ready (ata_devices k d) \<and> 512 \<le> unat (ata_size (ata_devices k d)) \<and>
       S = flat (disk (k_hw k)) (ata_get_io_base d) 0 512)"

lemma drv_read_first_sector:
  fixes k :: "('c, 'm) kernel_scheme"
  assumes "first_sector io ok disk driver k S" and room: "kheap_room (k_heap k) n" and n: "533 \<le> n"
  shows "\<exists>h c. drv_read io driver 0 512 k = Ret ((512, S), k\<lparr>k_heap := h, k_hw := c\<rparr>) \<and> kheap_room h n \<and>
    first_sector io ok disk driver (k\<lparr>k_heap := h, k_hw := c\<rparr>) S"
proof (cases driver)
  case INITRD_DRIVER
  then have s: "unat (initrd_size k) = length (initrd_base k)" "512 \<le> length (initrd_base k)" "S = take 512 (initrd_base k)"
    using assms(1) by (simp_all add: first_sector_def)
  then have "initrd_read 0 512 k = Ret ((512, S), k)" by (simp add: initrd_read_def mem_read_def Let_def u32_less_iff)
  then have "drv_read io driver 0 512 k = Ret ((512, S), k\<lparr>k_heap := k_heap k, k_hw := k_hw k\<rparr>)"
    using INITRD_DRIVER by simp
  then show ?thesis using assms(1) room by (intro exI [of _ "k_heap k"] exI [of _ "k_hw k"]) simp
next
  case (ATA_DRIVER d)
  then have s: "ide_transfers io ok disk" "ok (k_hw k)" "drive_ready (ata_devices k d)" "512 \<le> unat (ata_size (ata_devices k d))"
    "S = flat (disk (k_hw k)) (ata_get_io_base d) 0 512" using assms(1) by (simp_all add: first_sector_def)
  have "sector_range 0 512 (ata_devices k d)" using s(4) by (simp add: sector_range_def)
  from ata_read_eq [OF s(1-3) this] obtain c where
    c: "ata_read io d 0 512 k = kbind (kmalloc_or_panic 512 (k_heap k)) (\<lambda>(p, h).
      Ret ((512, S), k\<lparr>k_heap := kfree p h, k_hw := c\<rparr>))" "ok c" "disk c = disk (k_hw k)"
    by (auto simp: s(5) disk_range_flat)
  have "kheap_room (k_heap k) ((n - 533) + unat (512 :: u32) + 21)" by (rule kheap_room_mono [OF room]) (use n in simp)
  from kmalloc_room [OF this] obtain p h where p: "kmalloc 512 (k_heap k) = Ret (p, h)" "p \<noteq> 0" by auto
  have "drv_read io driver 0 512 k = Ret ((512, S), k\<lparr>k_heap := kfree p h, k_hw := c\<rparr>)"
    using ATA_DRIVER c(1) p by (simp add: kmalloc_or_panic_def)
  moreover have "first_sector io ok disk driver (k\<lparr>k_heap := kfree p h, k_hw := c\<rparr>) S"
    using ATA_DRIVER s c by (simp add: first_sector_def)
  ultimately show ?thesis using kmalloc_kfree_room [OF room p] by blast
qed

lemma first_sector_heap: "first_sector io ok disk driver (k\<lparr>k_heap := h\<rparr>) S = first_sector io ok disk driver k S"
  by (simp add: first_sector_def split: storage_driver.split)

lemma first_sector_length: "first_sector io ok disk driver k S \<Longrightarrow> length S = 512"
  by (auto simp: first_sector_def flat_def split: storage_driver.split_asm)


subsection \<open>Registration\<close>

lemma volume_register_returns:
  fixes k :: "('c, 'm) vkernel_scheme"
  assumes vs: "length (volumes k) \<le> 12" and ids: "ids_unique (volumes k)" and name: "dev_name device \<noteq> []"
    and room: "kheap_room (k_heap k) (4 * length (dev_name device) + 2000)"
    and S: "first_sector io ok disk (dev_driver device) k S"
  shows "\<exists>n k1 k'. volume_register_device io junk device k = Ret (n, k') \<and>
    mbr_probe io junk device k = Ret (mbr_valid (mbr_of S), k1) \<and> initrd_size k1 = initrd_size k \<and> ata_devices k1 = ata_devices k \<and>
    (mbr_valid (mbr_of S) \<longrightarrow> (\<exists>k2. mbr_read io device k1 = Ret (mbr_of S, k2)))"
proof -
  let ?len = "length (dev_name device)"
  have len: "?len < 0x2000001" using kheap_room_less [OF room] by simp
  have fl: "filled j 512 S = Some S" for j using first_sector_length [OF S] by simp
  from drv_read_first_sector [OF S room] obtain h1 c1 where
    r1: "drv_read io (dev_driver device) 0 512 k = Ret ((512, S), k\<lparr>k_heap := h1, k_hw := c1\<rparr>)"
    "kheap_room h1 (4 * ?len + 2000)" and S1: "first_sector io ok disk (dev_driver device) (k\<lparr>k_heap := h1, k_hw := c1\<rparr>) S"
    by auto
  let ?k1 = "k\<lparr>k_heap := h1, k_hw := c1\<rparr>"
  have p: "mbr_probe io junk device k = Ret (mbr_valid (mbr_of S), ?k1)"
    using r1(1) fl by (simp add: mbr_probe_def sizeof_mbr_def)
  show ?thesis
  proof (cases "mbr_valid (mbr_of S)")
    case False
    have l: "unat (of_nat ?len :: u32) = ?len" using len by (intro unat_of_nat_u32) simp
    have "(of_nat ?len :: u32) \<noteq> 0" using name l by (metis length_0_conv unsigned_0)
    moreover have "kheap_room (k_heap ?k1) (unat (of_nat ?len :: u32) + 136)"
      using kheap_room_mono [OF r1(2)] by (simp add: l)
    ultimately obtain k' where "volume_add device (of_nat ?len) (dev_name device) 0 (drv_total_size (dev_driver device) ?k1) ?k1 = Ret k'"
      using volume_add_whole [of ?k1] vs by fastforce
    then show ?thesis using p False by (simp add: volume_register_device_def)
  next
    case True
    have "kheap_room h1 ((4 * ?len + 1467) + unat sizeof_mbr + 21)"
      by (rule kheap_room_mono [OF r1(2)]) (simp add: sizeof_mbr_def)
    from kmalloc_or_panic_room [OF this] obtain q h2 where
      q: "kmalloc_or_panic sizeof_mbr h1 = Ret (q, h2)" "kheap_room h2 (4 * ?len + 1467)"
      by (auto simp: sizeof_mbr_def)
    have S2: "first_sector io ok disk (dev_driver device) (?k1\<lparr>k_heap := h2\<rparr>) S" using S1 by (simp only: first_sector_heap)
    have "kheap_room (k_heap (?k1\<lparr>k_heap := h2\<rparr>)) (4 * ?len + 1467)" using q(2) by simp
    from drv_read_first_sector [OF S2 this] obtain h3 c3 where
      r3: "drv_read io (dev_driver device) 0 512 (?k1\<lparr>k_heap := h2\<rparr>) = Ret ((512, S), ?k1\<lparr>k_heap := h2\<rparr>\<lparr>k_heap := h3, k_hw := c3\<rparr>)"
      "kheap_room h3 (4 * ?len + 1467)" by auto
    let ?k3 = "k\<lparr>k_heap := h3, k_hw := c3\<rparr>"
    have m: "mbr_read io device ?k1 = Ret (mbr_of S, ?k3)"
      using q(1) r3(1) fl by (simp add: mbr_read_def sizeof_mbr_def)
    have four: "length (mbr_partitions (mbr_of S)) = 4" by (simp add: mbr_of_def)
    have "kheap_room (k_heap ?k3) (0 + length (mbr_partitions (mbr_of S)) * (?len + 140))"
      using kheap_room_mono [OF r3(2)] by (simp add: four)
    from volume_add_partitions_room [OF this, of 0 0] obtain n k' where
      "volume_add_partitions device 0 (mbr_partitions (mbr_of S)) 0 ?k3 = Ret (n, k')"
      using ids vs four len by auto
    then show ?thesis using p m True by (simp add: volume_register_device_def)
  qed
qed

text \<open>
  C21. Registering a storage device, an IDE drive of at least one sector or the ramdisk, with a name and on a kernel
  with at most 12 volumes and enough heap: the registration returns (the loop that draws identifiers ends), keeps the
  identifiers of the volumes unique, and appends to the list of volumes, in order and for this device, the
  volumes that the first sector asks for: with the boot signature and valid entries one for each
  partition with a type, named after the drive and the number of the entry and covering its sectors;
  otherwise one for the whole drive. It returns their number.
\<close>

theorem volume_register_unique:
  assumes "ids_unique (volumes k)" and "length (volumes k) \<le> 12" and "dev_name device \<noteq> []"
    and "kheap_room (k_heap k) (4 * length (dev_name device) + 2000)"
    and "first_sector io ok disk (dev_driver device) k S"
    and "(sector_size, total_size) = (case dev_driver device of INITRD_DRIVER \<Rightarrow> (0, initrd_size k) | ATA_DRIVER d \<Rightarrow> (512, ata_size (ata_devices k d)))"
  shows "\<exists>n k' new. volume_register_device io junk device k = Ret (n, k') \<and>
    volumes k' = volumes k @ new \<and> distinct (map vol_id (volumes k')) \<and> n = of_nat (length new) \<and>
    (\<forall>v \<in> set new. vol_device v = device) \<and>
    map (\<lambda>v. (vol_name v, vol_offset v, vol_size v)) new = boot_sector_volumes S (dev_name device) sector_size total_size"
proof -
  from volume_register_returns [OF assms(2,1,3-5), of junk] obtain n k1 k' where
    r: "volume_register_device io junk device k = Ret (n, k')" and p: "mbr_probe io junk device k = Ret (mbr_valid (mbr_of S), k1)"
    and k1: "initrd_size k1 = initrd_size k" "ata_devices k1 = ata_devices k"
    and m: "mbr_valid (mbr_of S) \<longrightarrow> (\<exists>k2. mbr_read io device k1 = Ret (mbr_of S, k2))" by blast
  have v1: "volumes k1 = volumes k" using mbr_probe_volumes [OF p] .
  have ss: "drv_sector_size (dev_driver device) = sector_size" "drv_total_size (dev_driver device) k1 = total_size"
    using assms(6) k1 by (auto simp: ATA_SECTOR_SIZE_def split: storage_driver.split_asm)
  have entry: "volume_entry = (\<lambda>v. (vol_name v, vol_offset v, vol_size v))" by (simp add: fun_eq_iff volume_entry_def)
  have "\<exists>new. volumes k' = volumes k @ new \<and> ids_unique (volumes k') \<and> n = of_nat (length new) \<and> (\<forall>v \<in> set new. vol_device v = device) \<and>
    map volume_entry new = boot_sector_volumes S (dev_name device) sector_size total_size"
  proof (cases "mbr_valid (mbr_of S)")
    case False
    then obtain k2 where a: "volume_add device (of_nat (length (dev_name device))) (dev_name device) 0
        (drv_total_size (dev_driver device) k1) k1 = Ret k2" "n = 1" "k' = k2"
      using r p by (auto simp: volume_register_device_def kbind_Ret_iff)
    from volume_add_ids [OF a(1)] assms(1) v1 obtain v where "volumes k2 = volumes k @ [v]" "ids_unique (volumes k2)"
      "vol_device v = device" "volume_entry v = (dev_name device, 0, total_size)" by (auto simp: volume_entry_def ss)
    moreover have "boot_sector_volumes S (dev_name device) sector_size total_size = [(dev_name device, 0, total_size)]"
      using False unfolding mbr_valid_sector boot_sector_volumes_def by (rule if_not_P)
    ultimately show ?thesis using a(2,3) by (intro exI [of _ "[v]"]) simp
  next
    case True
    then obtain k2 where k2: "mbr_read io device k1 = Ret (mbr_of S, k2)" using m by blast
    then have a: "volume_add_partitions device 0 (mbr_partitions (mbr_of S)) 0 k2 = Ret (n, k')"
      using r p True by (simp add: volume_register_device_def)
    have v2: "volumes k2 = volumes k" using mbr_read_volumes [OF k2] v1 by simp
    have "boot_sector_volumes S (dev_name device) sector_size total_size = partition_volumes device 0 (mbr_partitions (mbr_of S))"
      using True unfolding mbr_valid_sector boot_sector_volumes_def partition_volumes_sector ss by (rule if_P)
    then show ?thesis using volume_add_partitions_ids [OF a] assms(1) v2 by auto
  qed
  then show ?thesis using r unfolding ids_unique_def entry by blast
qed

text \<open>A drive whose boot sector has one partition, of 16 sectors behind the first.\<close>

definition boot_words :: "u16 list" where
  "boot_words = replicate 223 0 @ [0x80, 0, 0x83, 0, 1, 0, 16, 0] @ replicate 24 0 @ [0xAA55]"

definition boot_ide :: ide where
  "boot_ide = small_ide\<lparr>ide_store := (\<lambda>b l. if l = 0 then boot_words else replicate 256 0)\<rparr>"

definition boot_kernel :: "ide vkernel" where
  "boot_kernel = kernel.extend (small_kernel\<lparr>k_hw := boot_ide\<rparr>) \<lparr>volumes = [], random_state = 1\<rparr>"

lemma bytes_of_words_append: "bytes_of_words (xs @ ys) = bytes_of_words xs @ bytes_of_words ys"
  by (induction xs) auto

lemma bytes_of_words_zeros: "bytes_of_words (replicate n 0) = replicate (2 * n) 0"
  by (induction n) auto

lemma boot_sector_at:
  assumes "i < 512"
  shows "flat (ide_disk boot_ide) 0x1F0 0 512 ! i = (if i < 446 then 0 else if i < 462 then
    [0x80, 0, 0, 0, 0x83, 0, 0, 0, 1, 0, 0, 0, 16, 0, 0, 0] ! (i - 446) else if i < 510 then 0 else [0x55, 0xAA] ! (i - 510))"
proof -
  define e :: bytes where "e = [0x80, 0, 0, 0, 0x83, 0, 0, 0, 1, 0, 0, 0, 16, 0, 0, 0]"
  have l: "length e = 16" by (simp add: e_def)
  have "flat (ide_disk boot_ide) 0x1F0 0 512 ! i = bytes_of_words boot_words ! i"
    using assms by (simp add: flat_def ide_disk_def boot_ide_def)
  also have "bytes_of_words boot_words = replicate 446 0 @ e @ replicate 48 0 @ [0x55, 0xAA]"
    by (simp add: boot_words_def bytes_of_words_append bytes_of_words_zeros e_def)
  finally show ?thesis using assms unfolding e_def [symmetric] by (auto simp: nth_append l)
qed

theorem volume_register_unique_witness:
  "\<exists>k' v. volume_register_device ide_ports (\<lambda>_. 0) (vol_device small_volume) boot_kernel = Ret (1, k') \<and>
     volumes k' = [v] \<and> vol_name v = str ''disk #1'' \<and> vol_offset v = 512 \<and> vol_size v = 8192"
proof -
  let ?S = "flat (ide_disk boot_ide) 0x1F0 0 512"
  have ok: "ide_ok boot_ide" by (simp add: ide_ok_def boot_ide_def boot_words_def)
  have fs: "first_sector ide_ports ide_ok ide_disk (dev_driver (vol_device small_volume)) boot_kernel ?S"
    using ok by (simp add: first_sector_def small_volume_def boot_kernel_def kernel.defs small_kernel_def ide_transfers_ide drive_ready_def)
  have le: "le32 ?S 454 = 1" "le32 ?S 458 = 16" by (simp_all add: le32_def boot_sector_at)
  have b: "boot_sector_volumes ?S (str ''disk'') 512 0x100000 = [(str ''disk #1'', 512, 8192)]"
    using le by (simp add: boot_sector_volumes_def boot_sector_at str_def asc_def)
  have room: "kheap_room (k_heap boot_kernel) (4 * length (dev_name (vol_device small_volume)) + 2000)"
    by (simp add: boot_kernel_def kernel.defs small_kernel_def small_volume_def str_def fresh_heap_room)
  have "\<exists>n k' new. volume_register_device ide_ports (\<lambda>_. 0) (vol_device small_volume) boot_kernel = Ret (n, k') \<and>
    volumes k' = volumes boot_kernel @ new \<and> distinct (map vol_id (volumes k')) \<and> n = of_nat (length new) \<and>
    (\<forall>v \<in> set new. vol_device v = vol_device small_volume) \<and>
    map (\<lambda>v. (vol_name v, vol_offset v, vol_size v)) new = boot_sector_volumes ?S (dev_name (vol_device small_volume)) 512 0x100000"
    by (rule volume_register_unique [OF _ _ _ room fs])
      (simp_all add: boot_kernel_def kernel.defs small_kernel_def small_volume_def ids_unique_def str_def)
  then show ?thesis using b by (auto simp: small_volume_def boot_kernel_def kernel.defs)
qed

end
