(* ===== verification/Generic_Tree.thy ===== *)
theory Generic_Tree
  imports Kheap_Props "HOL-Library.Multiset"
begin

text \<open>
  The n-ary tree of \<open>kernel/include/util/generic_tree.h\<close> over an explicit store of nodes. The children of
  a node are chained by their \<open>next\<close> pointers. The recursion over a node and the loop over its
  children is one recursion over a chain of siblings here; it follows pointers, so it need not end.

  \<open>forest_at s par ts\<close> says that a chain of siblings with parent \<open>par\<close> represents the trees \<open>ts\<close>. The
  operations refine operations on these trees: the search finds the first match in preorder, the
  iteration is a fold over the preorder, insertion adds the last child and removal cuts a subtree.
\<close>

subsection \<open>Operations\<close>

record generic_tree_node =
  tn_parent :: u32
  tn_children :: u32
  tn_next :: u32
  tn_data :: u32

record tree_store =
  ts_heap :: kheap
  ts_node :: "u32 \<Rightarrow> generic_tree_node"
  ts_root :: "u32 \<Rightarrow> u32"

definition set_tree_node :: "u32 \<Rightarrow> (generic_tree_node \<Rightarrow> generic_tree_node) \<Rightarrow> tree_store \<Rightarrow> tree_store" where
  "set_tree_node a f s = s\<lparr>ts_node := (ts_node s)(a := f (ts_node s a))\<rparr>"

definition generic_tree_create :: "tree_store \<Rightarrow> (u32 \<times> tree_store) kres" where
  "generic_tree_create s =
     kbind (kmalloc 4 (ts_heap s)) (\<lambda>(tree, h).
     if tree = 0 then Ret (0, s\<lparr>ts_heap := h\<rparr>)
     else Ret (tree, s\<lparr>ts_heap := h, ts_root := (ts_root s)(tree := 0)\<rparr>))"

definition generic_tree_create_node :: "u32 \<Rightarrow> tree_store \<Rightarrow> (u32 \<times> tree_store) kres" where
  "generic_tree_create_node data s =
     kbind (kmalloc 16 (ts_heap s)) (\<lambda>(node, h).
     if node = 0 then Ret (0, s\<lparr>ts_heap := h\<rparr>)
     else Ret (node, set_tree_node node (\<lambda>_. \<lparr>tn_parent = 0, tn_children = 0, tn_next = 0, tn_data = data\<rparr>)
                       (s\<lparr>ts_heap := h\<rparr>)))"

definition generic_tree_empty :: "u32 \<Rightarrow> tree_store \<Rightarrow> bool" where
  "generic_tree_empty tree s \<longleftrightarrow> ts_root s tree = 0"

definition generic_tree_has_children :: "u32 \<Rightarrow> tree_store \<Rightarrow> bool" where
  "generic_tree_has_children node s \<longleftrightarrow> tn_children (ts_node s node) \<noteq> 0"

text \<open>The nodes are freed after their children; \<open>next\<close> is read before.\<close>

partial_function (option) generic_tree_destroy_siblings :: "bool \<Rightarrow> u32 \<Rightarrow> tree_store \<Rightarrow> tree_store option" where
  "generic_tree_destroy_siblings free_data current s =
     (if current = 0 then Some s
      else let n = ts_node s current
           in Option.bind (generic_tree_destroy_siblings free_data (tn_children n) s) (\<lambda>s1.
              let h = (if free_data then kfree (tn_data n) (ts_heap s1) else ts_heap s1)
              in generic_tree_destroy_siblings free_data (tn_next n) (s1\<lparr>ts_heap := kfree current h\<rparr>)))"

definition generic_tree_destroy :: "u32 \<Rightarrow> bool \<Rightarrow> tree_store \<Rightarrow> tree_store option" where
  "generic_tree_destroy tree free_data s =
     (let root = ts_root s tree; n = ts_node s root
      in map_option (\<lambda>s1. s1\<lparr>ts_heap := kfree tree (ts_heap s1)\<rparr>)
           (if root = 0 then Some s
            else map_option (\<lambda>s1.
                   let h = (if free_data then kfree (tn_data n) (ts_heap s1) else ts_heap s1)
                   in s1\<lparr>ts_heap := kfree root h\<rparr>)
                 (generic_tree_destroy_siblings free_data (tn_children n) s)))"

partial_function (option) generic_tree_last :: "tree_store \<Rightarrow> u32 \<Rightarrow> u32 option" where
  "generic_tree_last s l =
     (if tn_next (ts_node s l) = 0 then Some l else generic_tree_last s (tn_next (ts_node s l)))"

definition generic_tree_insert :: "u32 \<Rightarrow> u32 \<Rightarrow> tree_store \<Rightarrow> tree_store option" where
  "generic_tree_insert parent node s =
     map_option (set_tree_node node (\<lambda>n. n\<lparr>tn_parent := parent\<rparr>))
       (if tn_children (ts_node s parent) = 0
        then Some (set_tree_node parent (\<lambda>n. n\<lparr>tn_children := node\<rparr>) s)
        else map_option (\<lambda>l. set_tree_node l (\<lambda>n. n\<lparr>tn_next := node\<rparr>) s)
               (generic_tree_last s (tn_children (ts_node s parent))))"

partial_function (option) generic_tree_previous :: "tree_store \<Rightarrow> u32 \<Rightarrow> u32 \<Rightarrow> u32 option" where
  "generic_tree_previous s node current =
     (if tn_next (ts_node s current) = node then Some current
      else generic_tree_previous s node (tn_next (ts_node s current)))"

definition generic_tree_remove :: "u32 \<Rightarrow> u32 \<Rightarrow> tree_store \<Rightarrow> tree_store option" where
  "generic_tree_remove tree node s =
     (let parent = tn_parent (ts_node s node); next = tn_next (ts_node s node)
      in if parent = 0 then Some s
         else map_option (\<lambda>s1.
                set_tree_node node (\<lambda>n. n\<lparr>tn_parent := 0\<rparr>)
                  (if ts_root s1 tree = node then s1\<lparr>ts_root := (ts_root s1)(tree := 0)\<rparr> else s1))
              (if tn_children (ts_node s parent) = node
               then Some (set_tree_node parent (\<lambda>n. n\<lparr>tn_children := next\<rparr>) s)
               else map_option (\<lambda>current. set_tree_node current (\<lambda>n. n\<lparr>tn_next := next\<rparr>) s)
                      (generic_tree_previous s node (tn_children (ts_node s parent)))))"

partial_function (option) generic_tree_find_siblings :: "tree_store \<Rightarrow> (u32 \<Rightarrow> bool) \<Rightarrow> u32 \<Rightarrow> u32 option" where
  "generic_tree_find_siblings s compare current =
     (if current = 0 then Some 0
      else if compare (tn_data (ts_node s current)) then Some current
      else Option.bind (generic_tree_find_siblings s compare (tn_children (ts_node s current))) (\<lambda>result.
           if result \<noteq> 0 then Some result
           else generic_tree_find_siblings s compare (tn_next (ts_node s current))))"

definition generic_tree_find :: "u32 \<Rightarrow> (u32 \<Rightarrow> bool) \<Rightarrow> tree_store \<Rightarrow> u32 option" where
  "generic_tree_find tree compare s =
     (let root = ts_root s tree
      in if root = 0 then Some 0
         else if compare (tn_data (ts_node s root)) then Some root
         else generic_tree_find_siblings s compare (tn_children (ts_node s root)))"

text \<open>The callback is a function of the node that changes the user data (and not the tree).\<close>

partial_function (option) generic_tree_foreach_siblings :: "tree_store \<Rightarrow> (u32 \<Rightarrow> 'u \<Rightarrow> 'u) \<Rightarrow> u32 \<Rightarrow> 'u \<Rightarrow> 'u option" where
  "generic_tree_foreach_siblings s callback current userdata =
     (if current = 0 then Some userdata
      else Option.bind (generic_tree_foreach_siblings s callback (tn_children (ts_node s current))
                          (callback current userdata))
             (generic_tree_foreach_siblings s callback (tn_next (ts_node s current))))"

definition generic_tree_foreach :: "u32 \<Rightarrow> (u32 \<Rightarrow> 'u \<Rightarrow> 'u) \<Rightarrow> tree_store \<Rightarrow> 'u \<Rightarrow> 'u option" where
  "generic_tree_foreach tree callback s userdata =
     (let root = ts_root s tree
      in if root = 0 then Some userdata
         else generic_tree_foreach_siblings s callback (tn_children (ts_node s root)) (callback root userdata))"

subsection \<open>Trees\<close>

datatype rose = Node u32 u32 "rose list"

fun root_addr :: "rose list \<Rightarrow> u32" where
  "root_addr [] = 0"
| "root_addr (Node p d us # ts) = p"

fun preorder :: "rose list \<Rightarrow> (u32 \<times> u32) list" where
  "preorder [] = []"
| "preorder (Node p d us # ts) = (p, d) # preorder us @ preorder ts"

abbreviation addrs :: "rose list \<Rightarrow> u32 list" where
  "addrs ts \<equiv> map fst (preorder ts)"

fun forest_at :: "(u32 \<Rightarrow> generic_tree_node) \<Rightarrow> u32 \<Rightarrow> rose list \<Rightarrow> bool" where
  "forest_at N par [] = True"
| "forest_at N par (Node p d us # ts) =
     (p \<noteq> 0 \<and> N p = \<lparr>tn_parent = par, tn_children = root_addr us, tn_next = root_addr ts, tn_data = d\<rparr> \<and>
      forest_at N p us \<and> forest_at N par ts)"

text \<open>The children of a node, and the trees with other children at a node.\<close>

fun children_of :: "u32 \<Rightarrow> rose list \<Rightarrow> rose list" where
  "children_of a [] = []"
| "children_of a (Node p d us # ts) = (if p = a then us else children_of a us @ children_of a ts)"

fun with_children :: "u32 \<Rightarrow> rose list \<Rightarrow> rose list \<Rightarrow> rose list" where
  "with_children a us' [] = []"
| "with_children a us' (Node p d us # ts) =
     (if p = a then Node p d us' # ts else Node p d (with_children a us' us) # with_children a us' ts)"

text \<open>A tree at an address: one root without a parent, distinct nodes.\<close>

definition tree_repr :: "tree_store \<Rightarrow> u32 \<Rightarrow> rose list \<Rightarrow> bool" where
  "tree_repr s tree ts \<longleftrightarrow> length ts \<le> 1 \<and> ts_root s tree = root_addr ts \<and> forest_at (ts_node s) 0 ts \<and>
     distinct (addrs ts)"

lemma forest_at_addrs: "forest_at N par ts \<Longrightarrow> 0 \<notin> set (addrs ts)"
  by (induction N par ts rule: forest_at.induct) auto

lemma root_addr_eq_0: "forest_at N par ts \<Longrightarrow> root_addr ts = 0 \<longleftrightarrow> ts = []"
  by (cases "(N, par, ts)" rule: forest_at.cases) auto

lemma root_addr_in: "ts \<noteq> [] \<Longrightarrow> root_addr ts \<in> set (addrs ts)"
  by (cases ts rule: preorder.cases) auto

lemma forest_at_cong:
  "forest_at N par ts \<Longrightarrow> (\<And>a. a \<in> set (addrs ts) \<Longrightarrow> N' a = N a) \<Longrightarrow> forest_at N' par ts"
  by (induction N par ts rule: forest_at.induct) auto

lemma preorder_append [simp]: "preorder (xs @ ys) = preorder xs @ preorder ys"
  by (induction xs rule: preorder.induct) auto

lemma find_append: "find P (xs @ ys) = (case find P xs of None \<Rightarrow> find P ys | Some x \<Rightarrow> Some x)"
  by (induction xs) auto

lemma find_siblings_correct:
  "forest_at (ts_node s) par ts \<Longrightarrow> generic_tree_find_siblings s compare (root_addr ts) =
     Some (case find (\<lambda>(a, d). compare d) (preorder ts) of None \<Rightarrow> 0 | Some (a, d) \<Rightarrow> a)"
proof (induction "ts_node s" par ts rule: forest_at.induct)
  case (1 par)
  then show ?case by (simp add: generic_tree_find_siblings.simps)
next
  case (2 par p d us ts)
  have nz: "a \<noteq> 0" if "find (\<lambda>(a, d). compare d) (preorder us) = Some (a, e)" for a e
    using that 2(3) forest_at_addrs [of "ts_node s" p us] by (force simp: find_Some_iff in_set_conv_nth)
  show ?case
    using 2 nz by (subst generic_tree_find_siblings.simps) (auto simp: find_append split: option.splits)
qed

lemma foreach_siblings_correct:
  "forest_at (ts_node s) par ts \<Longrightarrow> generic_tree_foreach_siblings s callback (root_addr ts) u =
     Some (fold callback (addrs ts) u)"
proof (induction "ts_node s" par ts arbitrary: u rule: forest_at.induct)
  case (1 par)
  then show ?case by (simp add: generic_tree_foreach_siblings.simps)
next
  case (2 par p d us ts)
  then show ?case by (subst generic_tree_foreach_siblings.simps) simp
qed

text \<open>Changing the children of one node of a forest.\<close>

lemma children_of_none: "a \<notin> set (addrs ts) \<Longrightarrow> children_of a ts = []"
  by (induction ts rule: preorder.induct) auto

lemma with_children_none: "a \<notin> set (addrs ts) \<Longrightarrow> with_children a us' ts = ts"
  by (induction ts rule: preorder.induct) auto

lemma root_with_children [simp]: "root_addr (with_children a us' ts) = root_addr ts"
  by (cases ts rule: preorder.cases) auto

lemma children_at:
  assumes "forest_at N par ts" and "distinct (addrs ts)" and "a \<in> set (addrs ts)"
  shows "tn_children (N a) = root_addr (children_of a ts) \<and> forest_at N a (children_of a ts) \<and>
    distinct (a # addrs (children_of a ts)) \<and> set (addrs (children_of a ts)) \<subseteq> set (addrs ts)"
  using assms
proof (induction N par ts rule: forest_at.induct)
  case (1 N par)
  then show ?case by simp
next
  case (2 N par p d us ts)
  consider (here) "a = p" | (below) "a \<in> set (addrs us)" "a \<noteq> p" "a \<notin> set (addrs ts)"
    | (beside) "a \<in> set (addrs ts)" "a \<noteq> p" "a \<notin> set (addrs us)"
    using 2(4,5) by (simp del: set_map) blast
  then show ?case
  proof cases
    case here
    then show ?thesis using 2(3,4) by (simp del: set_map) blast
  next
    case below
    then show ?thesis using 2(1) 2(3,4) by (simp add: children_of_none del: set_map) blast
  next
    case beside
    then show ?thesis using 2(2) 2(3,4) by (simp add: children_of_none del: set_map) blast
  qed
qed

lemma with_children_at:
  assumes "forest_at N par ts" and "distinct (addrs ts)" and "a \<in> set (addrs ts)"
    and "\<And>b. b \<in> set (addrs ts) \<Longrightarrow> b \<noteq> a \<Longrightarrow> b \<notin> set (addrs (children_of a ts)) \<Longrightarrow> N' b = N b"
    and "N' a = (N a)\<lparr>tn_children := root_addr us'\<rparr>" and "forest_at N' a us'"
  shows "forest_at N' par (with_children a us' ts)"
  using assms
proof (induction N par ts rule: forest_at.induct)
  case (1 N par)
  then show ?case by simp
next
  case (2 N par p d us ts)
  consider (here) "a = p" | (below) "a \<in> set (addrs us)" "a \<noteq> p" "a \<notin> set (addrs ts)"
    | (beside) "a \<in> set (addrs ts)" "a \<noteq> p" "a \<notin> set (addrs us)"
    using 2(4,5) by (simp del: set_map) blast
  then show ?case
  proof cases
    case here
    have "N' b = N b" if "b \<in> set (addrs ts)" for b
      by (rule 2(6)) (use 2(4) that here in \<open>(simp del: set_map; blast)+\<close>)
    then have "forest_at N' par ts" using 2(3) forest_at_cong [of N par ts N'] by simp
    then show ?thesis using 2(3,7,8) here by simp
  next
    case below
    have c: "set (addrs (children_of a us)) \<subseteq> set (addrs us)"
      using children_at [of N p us a] 2(3,4) below by simp
    have n: "N' b = N b" if "b \<in> set (p # addrs us @ addrs ts)" "b \<noteq> a" "b \<notin> set (addrs (children_of a us))" for b
      using that below by (intro 2(6)) (auto simp: children_of_none)
    have "forest_at N' p (with_children a us' us)"
      by (rule 2(1)) (use 2(3,4,7,8) below n in auto)
    moreover have "N' b = N b" if "b \<in> set (p # addrs ts)" for b
      by (rule n) (use 2(4) that below c in \<open>(simp del: set_map; blast)+\<close>)
    then have "forest_at N' par ts" "N' p = N p" using 2(3) forest_at_cong [of N par ts N'] by auto
    ultimately show ?thesis using 2(3) below by (simp add: with_children_none)
  next
    case beside
    have c: "set (addrs (children_of a ts)) \<subseteq> set (addrs ts)"
      using children_at [of N par ts a] 2(3,4) beside by simp
    have n: "N' b = N b" if "b \<in> set (p # addrs us @ addrs ts)" "b \<noteq> a" "b \<notin> set (addrs (children_of a ts))" for b
      using that beside by (intro 2(6)) (auto simp: children_of_none)
    have "forest_at N' par (with_children a us' ts)"
      by (rule 2(2)) (use 2(3,4,7,8) beside n in auto)
    moreover have "N' b = N b" if "b \<in> set (p # addrs us)" for b
      by (rule n) (use 2(4) that beside c in \<open>(simp del: set_map; blast)+\<close>)
    then have "forest_at N' p us" "N' p = N p" using 2(3) forest_at_cong [of N p us N'] by auto
    ultimately show ?thesis using 2(3) beside by (simp add: with_children_none)
  qed
qed

subsection \<open>Insertion\<close>

lemma last_correct:
  "forest_at (ts_node s) par ts \<Longrightarrow> ts \<noteq> [] \<Longrightarrow> generic_tree_last s (root_addr ts) = Some (root_addr [last ts])"
proof (induction "ts_node s" par ts rule: forest_at.induct)
  case (1 par)
  then show ?case by simp
next
  case (2 par p d us ts)
  then show ?case
    by (subst generic_tree_last.simps) (auto simp: root_addr_eq_0)
qed

lemma root_last_in: "ts \<noteq> [] \<Longrightarrow> root_addr [last ts] \<in> set (addrs ts)"
  by (induction ts rule: preorder.induct) auto

lemma root_append: "root_addr (ts @ us) = (if ts = [] then root_addr us else root_addr ts)"
  by (cases ts rule: preorder.cases) auto

lemma append_sibling:
  assumes "forest_at N par ts" and "ts \<noteq> []" and "distinct (addrs ts)" and "forest_at N par [t]"
    and "set (addrs ts) \<inter> set (addrs [t]) = {}" and "l = root_addr [last ts]"
  shows "forest_at (N(l := (N l)\<lparr>tn_next := root_addr [t]\<rparr>)) par (ts @ [t])"
  using assms
proof (induction N par ts rule: forest_at.induct)
  case (1 N par)
  then show ?case by simp
next
  case (2 N par p d us ts)
  let ?N = "N(l := (N l)\<lparr>tn_next := root_addr [t]\<rparr>)"
  show ?case
  proof (cases "ts = []")
    case True
    then have l: "l = p" using 2 by simp
    have "forest_at ?N p us" by (rule forest_at_cong [of N]) (use 2(3,5) l in auto)
    moreover have "forest_at ?N par [t]" by (rule forest_at_cong [OF 2(6)]) (use 2(7) l in auto)
    ultimately show ?thesis using 2(3) True by (simp add: l del: fun_upd_apply) simp
  next
    case False
    have l: "l \<in> set (addrs ts)" using 2(8) False root_last_in by simp
    have "forest_at ?N p us" by (rule forest_at_cong [of N]) (use 2(3,5) l in auto)
    moreover have "forest_at ?N par (ts @ [t])" by (rule 2(2)) (use 2 False in auto)
    moreover have "p \<noteq> l" using 2(5) l by auto
    ultimately show ?thesis using 2(3) False by (simp add: root_append del: fun_upd_apply) simp
  qed
qed

lemma insert_correct:
  assumes f: "forest_at (ts_node s) par ts" and d: "distinct (addrs ts @ addrs [t])" and a: "a \<in> set (addrs ts)"
    and t: "forest_at (ts_node s) q [t]"
  shows "\<exists>s'. generic_tree_insert a (root_addr [t]) s = Some s' \<and> ts_heap s' = ts_heap s \<and> ts_root s' = ts_root s \<and>
    forest_at (ts_node s') par (with_children a (children_of a ts @ [t]) ts)"
proof -
  let ?N = "ts_node s" and ?us = "children_of a ts"
  obtain p e vs where tn: "t = Node p e vs" by (cases t)
  have dt: "distinct (addrs ts)" "p \<notin> set (addrs ts)" "p \<notin> set (addrs vs)"
    "set (addrs ts) \<inter> set (addrs [t]) = {}" using d by (auto simp: tn)
  note c = children_at [OF f dt(1) a]
  have ap: "a \<noteq> p" "a \<notin> set (addrs [t])" using a dt by auto
  \<comment> \<open>with its new parent the tree is a sibling of the children\<close>
  let ?M = "?N(p := (?N p)\<lparr>tn_parent := a\<rparr>)"
  have tM: "forest_at ?M a [t]"
  proof -
    have "forest_at ?M p vs" by (rule forest_at_cong [of ?N]) (use t dt(3) in \<open>auto simp: tn\<close>)
    then show ?thesis using t by (simp add: tn)
  qed
  have uM: "forest_at ?M a ?us" by (rule forest_at_cong [of ?N]) (use c dt in auto)
  have disj: "set (addrs ?us) \<inter> set (addrs [t]) = {}" using c dt(4) by blast
  show ?thesis
  proof (cases "?us = []")
    case True
    let ?N' = "?M(a := (?M a)\<lparr>tn_children := p\<rparr>)"
    have "forest_at ?N' a [t]" by (rule forest_at_cong [OF tM]) (use ap in auto)
    then have "forest_at ?N' par (with_children a (?us @ [t]) ts)"
      using ap dt(2) True by (intro with_children_at [OF f dt(1) a]) (auto simp: tn)
    then show ?thesis using True c ap
      by (intro exI [of _ "s\<lparr>ts_node := ?N'\<rparr>"])
        (simp add: generic_tree_insert_def set_tree_node_def tn fun_upd_twist)
  next
    case False
    define l where "l = root_addr [last ?us]"
    have lu: "l \<in> set (addrs ?us)" using root_last_in [OF False] by (simp add: l_def)
    then have lp: "l \<noteq> p" "l \<noteq> a" "l \<notin> set (addrs [t])" using c dt(2) disj by auto
    let ?N' = "?M(l := (?M l)\<lparr>tn_next := p\<rparr>)"
    have "forest_at ?N' a (?us @ [t])"
      using append_sibling [OF uM False _ tM disj l_def] c by (simp add: tn)
    then have "forest_at ?N' par (with_children a (?us @ [t]) ts)"
      using c lu lp ap dt(2) False
      by (intro with_children_at [OF f dt(1) a]) (auto simp: root_append)
    moreover have "generic_tree_last s (root_addr ?us) = Some l"
      using last_correct [of s a ?us] c False by (simp add: l_def)
    moreover have "root_addr ?us \<noteq> 0" using c False root_addr_eq_0 by blast
    ultimately show ?thesis using c lp
      by (intro exI [of _ "s\<lparr>ts_node := ?N'\<rparr>"])
        (simp add: generic_tree_insert_def set_tree_node_def tn fun_upd_twist)
  qed
qed

subsection \<open>Removal\<close>

lemma previous_correct:
  assumes "forest_at (ts_node s) par (xs @ t # ys)" and "distinct (addrs (xs @ t # ys))" and "xs \<noteq> []"
  shows "generic_tree_previous s (root_addr [t]) (root_addr xs) = Some (root_addr [last xs])"
  using assms
proof (induction xs)
  case Nil
  then show ?case by simp
next
  case (Cons x xs)
  obtain p d us where x: "x = Node p d us" by (cases x)
  obtain q e vs where t: "t = Node q e vs" by (cases t)
  show ?case
  proof (cases "xs = []")
    case True
    then show ?thesis using Cons.prems(1) by (subst generic_tree_previous.simps) (simp add: x t)
  next
    case False
    have "root_addr xs \<in> set (addrs xs)" by (rule root_addr_in [OF False])
    then have "root_addr xs \<noteq> q" using Cons.prems(2) by (auto simp: x t)
    then show ?thesis using Cons False by (subst generic_tree_previous.simps) (simp add: x t root_append)
  qed
qed

lemma skip_sibling:
  assumes "forest_at N par (xs @ t # ys)" and "distinct (addrs (xs @ t # ys))" and "xs \<noteq> []"
    and "l = root_addr [last xs]"
  shows "forest_at (N(l := (N l)\<lparr>tn_next := root_addr ys\<rparr>)) par (xs @ ys)"
  using assms
proof (induction xs)
  case Nil
  then show ?case by simp
next
  case (Cons x xs)
  let ?N = "N(l := (N l)\<lparr>tn_next := root_addr ys\<rparr>)"
  obtain p d us where x: "x = Node p d us" by (cases x)
  obtain q e vs where t: "t = Node q e vs" by (cases t)
  note f = Cons.prems(1) [unfolded x t, simplified] and d = Cons.prems(2) [unfolded x t, simplified]
  show ?case
  proof (cases "xs = []")
    case True
    then have l: "l = p" using Cons.prems(4) by (simp add: x)
    have "forest_at ?N p us" by (rule forest_at_cong [of N]) (use f d l True in auto)
    moreover have "forest_at ?N par ys" by (rule forest_at_cong [of N]) (use f d l True in auto)
    ultimately show ?thesis using f True by (simp add: l x del: fun_upd_apply) simp
  next
    case False
    have "l \<in> set (addrs xs)" using Cons.prems(4) root_last_in [OF False] False by simp
    then have l: "l \<in> set (addrs xs)" "p \<noteq> l" "l \<notin> set (addrs us)" using d by auto
    have "forest_at ?N p us" by (rule forest_at_cong [of N]) (use f l in \<open>auto simp del: set_map\<close>)
    moreover have "forest_at ?N par (xs @ ys)"
      by (rule Cons.IH) (use f d Cons.prems(4) False in \<open>simp_all add: t\<close>)
    ultimately show ?thesis using f l(2) False by (simp add: x root_append del: fun_upd_apply) simp
  qed
qed

lemma with_children_mset:
  "distinct (addrs ts) \<Longrightarrow> a \<in> set (addrs ts) \<Longrightarrow>
    mset (addrs (with_children a us' ts)) + mset (addrs (children_of a ts)) = mset (addrs ts) + mset (addrs us')"
proof (induction ts rule: preorder.induct)
  case 1
  then show ?case by simp
next
  case (2 p d us ts)
  consider (here) "a = p" | (below) "a \<in> set (addrs us)" "a \<noteq> p" "a \<notin> set (addrs ts)"
    | (beside) "a \<in> set (addrs ts)" "a \<noteq> p" "a \<notin> set (addrs us)"
    using 2(3,4) by (simp del: set_map) blast
  then show ?case
  proof cases
    case here
    then show ?thesis by simp
  next
    case below
    then show ?thesis using 2(1) 2(3) by (simp add: children_of_none with_children_none ac_simps)
  next
    case beside
    then show ?thesis using 2(2) 2(3) by (simp add: children_of_none with_children_none ac_simps)
  qed
qed

lemma forest_at_append: "forest_at N par (xs @ ys) \<Longrightarrow> forest_at N par ys"
  by (induction N par xs rule: forest_at.induct) auto

lemma remove_correct:
  assumes f: "forest_at (ts_node s) par ts" and d: "distinct (addrs ts)" and a: "a \<in> set (addrs ts)"
    and c: "children_of a ts = xs @ t # ys" and r: "ts_root s tree \<noteq> root_addr [t]"
  shows "\<exists>s'. generic_tree_remove tree (root_addr [t]) s = Some s' \<and> ts_heap s' = ts_heap s \<and> ts_root s' = ts_root s \<and>
    forest_at (ts_node s') par (with_children a (xs @ ys) ts) \<and>
    tn_parent (ts_node s' (root_addr [t])) = 0 \<and> forest_at (ts_node s') (root_addr [t]) (children_of (root_addr [t]) [t])"
proof -
  let ?N = "ts_node s"
  obtain p e vs where tn: "t = Node p e vs" by (cases t)
  note ch = children_at [OF f d a, unfolded c]
  have fc: "tn_children (?N a) = root_addr (xs @ t # ys)" "forest_at ?N a (xs @ t # ys)" using ch by auto
  have dc: "a \<notin> set (addrs (xs @ t # ys))" "distinct (addrs (xs @ t # ys))" using ch by (simp_all del: set_map)
  have ft: "forest_at ?N a (t # ys)" by (rule forest_at_append [OF fc(2)])
  have a0: "a \<noteq> 0" using forest_at_addrs [OF f] a by metis
  have p: "?N p = \<lparr>tn_parent = a, tn_children = root_addr vs, tn_next = root_addr ys, tn_data = e\<rparr>" "p \<noteq> a"
    using ft dc by (auto simp: tn)
  have m: "mset (addrs (with_children a (xs @ ys) ts) @ addrs [t]) = mset (addrs ts)"
    using with_children_mset [OF d a, of "xs @ ys"] by (simp add: c tn)
  have pw: "p \<notin> set (addrs (with_children a (xs @ ys) ts))"
    using mset_eq_imp_distinct_iff [OF m] d by (simp add: tn)
  \<comment> \<open>in both cases the chain is changed so that it skips the tree\<close>
  have fin: ?thesis if rm: "generic_tree_remove tree p s = Some (s\<lparr>ts_node := M(p := (M p)\<lparr>tn_parent := 0\<rparr>)\<rparr>)"
    and M: "forest_at M par (with_children a (xs @ ys) ts)" "forest_at M p vs" for M
  proof -
    let ?M = "M(p := (M p)\<lparr>tn_parent := 0\<rparr>)"
    have "forest_at ?M par (with_children a (xs @ ys) ts)" by (rule forest_at_cong [OF M(1)]) (use pw in auto)
    moreover have "forest_at ?M p vs" by (rule forest_at_cong [OF M(2)]) (use dc in \<open>auto simp: tn\<close>)
    ultimately show ?thesis using rm by (simp add: tn)
  qed
  show ?thesis
  proof (cases "xs = []")
    case True
    let ?M = "?N(a := (?N a)\<lparr>tn_children := root_addr ys\<rparr>)"
    show ?thesis
    proof (rule fin)
      show "generic_tree_remove tree p s = Some (s\<lparr>ts_node := ?M(p := (?M p)\<lparr>tn_parent := 0\<rparr>)\<rparr>)"
        using fc(1) p a0 r True by (simp add: generic_tree_remove_def set_tree_node_def tn)
      have "forest_at ?M a ys" by (rule forest_at_cong [of ?N]) (use ft dc True in \<open>auto simp: tn\<close>)
      then show "forest_at ?M par (with_children a (xs @ ys) ts)"
        using True by (intro with_children_at [OF f d a]) auto
      show "forest_at ?M p vs" by (rule forest_at_cong [of ?N]) (use ft dc in \<open>auto simp: tn\<close>)
    qed
  next
    case False
    define l where "l = root_addr [last xs]"
    have l: "l \<in> set (addrs xs)" using root_last_in [OF False] by (simp add: l_def)
    then have ln: "l \<noteq> a" "l \<noteq> p" "l \<notin> set (addrs vs)" using dc by (auto simp: tn)
    have pv: "generic_tree_previous s p (root_addr xs) = Some l"
      using previous_correct [OF fc(2) dc(2) False] by (simp add: tn l_def)
    have px: "root_addr xs \<noteq> p" using root_addr_in [OF False] dc by (auto simp: tn)
    let ?M = "?N(l := (?N l)\<lparr>tn_next := root_addr ys\<rparr>)"
    show ?thesis
    proof (rule fin)
      show "generic_tree_remove tree p s = Some (s\<lparr>ts_node := ?M(p := (?M p)\<lparr>tn_parent := 0\<rparr>)\<rparr>)"
        using fc(1) p a0 r False pv px by (simp add: generic_tree_remove_def set_tree_node_def tn root_append)
      have "forest_at ?M a (xs @ ys)" by (rule skip_sibling [OF fc(2) dc(2) False l_def])
      then show "forest_at ?M par (with_children a (xs @ ys) ts)"
        using False fc(1) l ln(1) by (intro with_children_at [OF f d a]) (auto simp: root_append c)
      show "forest_at ?M p vs" by (rule forest_at_cong [of ?N]) (use ft ln in \<open>auto simp: tn\<close>)
    qed
  qed
qed

subsection \<open>The tree as a rose tree\<close>

lemma with_children_length [simp]: "length (with_children a us' ts) = length ts"
  by (induction ts rule: preorder.induct) auto

lemma generic_tree_operations:
  assumes "tree_repr s tree ts"
  shows "generic_tree_find tree compare s =
      Some (case find (\<lambda>(a, d). compare d) (preorder ts) of None \<Rightarrow> 0 | Some (a, d) \<Rightarrow> a)"
    and "generic_tree_foreach tree callback s u = Some (fold callback (addrs ts) u)"
    and "a \<in> set (addrs ts) \<Longrightarrow> forest_at (ts_node s) q [t] \<Longrightarrow> distinct (addrs ts @ addrs [t]) \<Longrightarrow>
      (\<exists>s'. generic_tree_insert a (root_addr [t]) s = Some s' \<and> ts_heap s' = ts_heap s \<and>
        tree_repr s' tree (with_children a (children_of a ts @ [t]) ts))"
    and "a \<in> set (addrs ts) \<Longrightarrow> children_of a ts = xs @ t # ys \<Longrightarrow>
      (\<exists>s'. generic_tree_remove tree (root_addr [t]) s = Some s' \<and> ts_heap s' = ts_heap s \<and>
        tree_repr s' tree (with_children a (xs @ ys) ts) \<and> tn_parent (ts_node s' (root_addr [t])) = 0 \<and>
        forest_at (ts_node s') (root_addr [t]) (children_of (root_addr [t]) [t]))"
proof -
  have l: "length ts \<le> 1" and r: "ts_root s tree = root_addr ts" and f: "forest_at (ts_node s) 0 ts"
    and d: "distinct (addrs ts)" using assms by (auto simp: tree_repr_def)
  consider (empty) "ts = []" | (tree) p e us where "ts = [Node p e us]"
    using l by (cases ts rule: preorder.cases) auto
  then have cases: "(ts = [] \<longrightarrow> P) \<Longrightarrow> (\<And>p e us. ts = [Node p e us] \<Longrightarrow> P) \<Longrightarrow> P" for P by cases auto
  show "generic_tree_find tree compare s =
      Some (case find (\<lambda>(a, d). compare d) (preorder ts) of None \<Rightarrow> 0 | Some (a, d) \<Rightarrow> a)"
    by (rule cases) (use r f find_siblings_correct in \<open>auto simp: generic_tree_find_def\<close>)
  show "generic_tree_foreach tree callback s u = Some (fold callback (addrs ts) u)"
    by (rule cases) (use r f foreach_siblings_correct in \<open>auto simp: generic_tree_foreach_def\<close>)
  show "\<exists>s'. generic_tree_insert a (root_addr [t]) s = Some s' \<and> ts_heap s' = ts_heap s \<and>
        tree_repr s' tree (with_children a (children_of a ts @ [t]) ts)"
    if a: "a \<in> set (addrs ts)" and t: "forest_at (ts_node s) q [t]" and dt: "distinct (addrs ts @ addrs [t])"
  proof -
    have "mset (addrs (with_children a (children_of a ts @ [t]) ts)) = mset (addrs ts @ addrs [t])"
      using with_children_mset [OF d a, of "children_of a ts @ [t]"] by simp
    then have "distinct (addrs (with_children a (children_of a ts @ [t]) ts))"
      using dt mset_eq_imp_distinct_iff by blast
    then show ?thesis using insert_correct [OF f dt a t] l r by (auto simp: tree_repr_def)
  qed
  show "\<exists>s'. generic_tree_remove tree (root_addr [t]) s = Some s' \<and> ts_heap s' = ts_heap s \<and>
        tree_repr s' tree (with_children a (xs @ ys) ts) \<and> tn_parent (ts_node s' (root_addr [t])) = 0 \<and>
        forest_at (ts_node s') (root_addr [t]) (children_of (root_addr [t]) [t])"
    if a: "a \<in> set (addrs ts)" and c: "children_of a ts = xs @ t # ys"
  proof -
    have "mset (addrs (with_children a (xs @ ys) ts) @ addrs [t]) = mset (addrs ts)"
      using with_children_mset [OF d a, of "xs @ ys"] by (cases t) (simp add: c)
    then have "distinct (addrs (with_children a (xs @ ys) ts))"
      using d mset_eq_imp_distinct_iff by (metis distinct_append)
    moreover have "root_addr ts \<noteq> root_addr [t]"
    proof -
      have "root_addr [t] \<in> set (addrs (children_of a ts))" by (cases t) (simp add: c)
      moreover obtain p e us where ts: "ts = [Node p e us]" by (rule cases) (use a in auto)
      moreover have "set (addrs (children_of a us)) \<subseteq> set (addrs us)"
        using children_at [of "ts_node s" p us a] children_of_none [of a us] f d
        by (cases "a \<in> set (addrs us)") (auto simp: ts)
      ultimately show ?thesis using d by (auto simp: ts split: if_splits)
    qed
    ultimately show ?thesis using remove_correct [OF f d a c, of tree] l r by (simp add: tree_repr_def) metis
  qed
qed

text \<open>
  C36. A generic tree of the kernel is the rose tree its nodes represent: \<open>generic_tree_find\<close> returns the
  first node in preorder whose data matches (or NULL), \<open>generic_tree_foreach\<close> is the fold of the callback
  over the nodes in preorder, \<open>generic_tree_insert\<close> makes a detached tree the last child of any node, and
  \<open>generic_tree_remove\<close> cuts the child it is given with everything below it, which stays intact; all
  terminate and leave every other node where it was.
\<close>

theorem generic_tree_refines:
  assumes "tree_repr s tree ts"
  shows "generic_tree_find tree compare s =
      Some (case find (\<lambda>(a, d). compare d) (preorder ts) of None \<Rightarrow> 0 | Some (a, d) \<Rightarrow> a) \<and>
    generic_tree_foreach tree callback s u = Some (fold callback (addrs ts) u) \<and>
    (\<forall>a \<in> set (addrs ts). \<forall>q t. forest_at (ts_node s) q [t] \<and> distinct (addrs ts @ addrs [t]) \<longrightarrow>
      (\<exists>s'. generic_tree_insert a (root_addr [t]) s = Some s' \<and> ts_heap s' = ts_heap s \<and>
        tree_repr s' tree (with_children a (children_of a ts @ [t]) ts))) \<and>
    (\<forall>a \<in> set (addrs ts). \<forall>xs t ys. children_of a ts = xs @ t # ys \<longrightarrow>
      (\<exists>s'. generic_tree_remove tree (root_addr [t]) s = Some s' \<and> ts_heap s' = ts_heap s \<and>
        tree_repr s' tree (with_children a (xs @ ys) ts) \<and> tn_parent (ts_node s' (root_addr [t])) = 0 \<and>
        forest_at (ts_node s') (root_addr [t]) (children_of (root_addr [t]) [t])))"
proof (intro conjI ballI allI impI, goal_cases)
  case 1
  show ?case by (rule generic_tree_operations(1) [OF assms])
next
  case 2
  show ?case by (rule generic_tree_operations(2) [OF assms])
next
  case (3 a q t)
  then show ?case by (intro generic_tree_operations(3) [OF assms]) auto
next
  case (4 a xs t ys)
  then show ?case by (rule generic_tree_operations(4) [OF assms])
qed

text \<open>A root with two children: the second is found, the first is removed.\<close>

definition small_tree :: tree_store where
  "small_tree = \<lparr>ts_heap = fresh_heap,
     ts_node = (\<lambda>a. if a = 16 then \<lparr>tn_parent = 0, tn_children = 32, tn_next = 0, tn_data = 1\<rparr>
                 else if a = 32 then \<lparr>tn_parent = 16, tn_children = 0, tn_next = 48, tn_data = 2\<rparr>
                 else \<lparr>tn_parent = (if a = 48 then 16 else 0), tn_children = 0, tn_next = 0, tn_data = 3\<rparr>),
     ts_root = (\<lambda>_. 16)\<rparr>"

lemma generic_tree_refines_witness:
  "generic_tree_find 0 (\<lambda>d. d = 3) small_tree = Some 48 \<and>
   generic_tree_foreach 0 (#) small_tree [] = Some [48, 32, 16] \<and>
   (\<exists>s. generic_tree_insert 48 64 small_tree = Some s \<and>
     tree_repr s 0 [Node 16 1 [Node 32 2 [], Node 48 3 [Node 64 3 []]]]) \<and>
   (\<exists>s. generic_tree_remove 0 32 small_tree = Some s \<and> tree_repr s 0 [Node 16 1 [Node 48 3 []]])"
proof -
  let ?ts = "[Node 16 1 [Node 32 2 [], Node 48 3 []]]"
  have r: "tree_repr small_tree 0 ?ts" by (simp add: tree_repr_def small_tree_def)
  note g = generic_tree_refines [OF r]
  note ins = g [THEN conjunct2, THEN conjunct2, THEN conjunct1, rule_format]
    and del = g [THEN conjunct2, THEN conjunct2, THEN conjunct2, rule_format]
  have "\<exists>s. generic_tree_insert 48 (root_addr [Node 64 3 []]) small_tree = Some s \<and> ts_heap s = ts_heap small_tree \<and>
      tree_repr s 0 (with_children 48 (children_of 48 ?ts @ [Node 64 3 []]) ?ts)"
    by (rule ins [where q = 0]) (simp_all add: small_tree_def)
  moreover have "\<exists>s. generic_tree_remove 0 (root_addr [Node 32 2 []]) small_tree = Some s \<and> ts_heap s = ts_heap small_tree \<and>
      tree_repr s 0 (with_children 16 ([] @ [Node 48 3 []]) ?ts) \<and> tn_parent (ts_node s (root_addr [Node 32 2 []])) = 0 \<and>
      forest_at (ts_node s) (root_addr [Node 32 2 []]) (children_of (root_addr [Node 32 2 []]) [Node 32 2 []])"
    by (rule del) simp_all
  moreover have "generic_tree_find 0 (\<lambda>d. d = 3) small_tree = Some 48" using g [of "\<lambda>d. d = 3", THEN conjunct1] by simp
  moreover have "generic_tree_foreach 0 (#) small_tree [] = Some [48, 32, 16]" using g [of _ "(#)" "[]", THEN conjunct2, THEN conjunct1] by simp
  ultimately show ?thesis by auto
qed

end
