(* ===== verification/Device.thy ===== *)
theory Device
  imports Volume Generic_Tree
begin

text \<open>
  The device manager, \<open>kernel/src/device/device.c\<close>, on top of the generic tree, the linked list and the
  volume manager. The state of the manager is the tree of devices; its nodes and lists live on the
  kernel heap, which \<open>tree_of\<close> and \<open>lists_of\<close> share with the rest of the kernel.

  A device is found by its address. \<open>dvc_driver\<close> is the driver of the structure that a storage device
  is part of; other devices have none.
\<close>

subsection \<open>State\<close>

record device =
  dvc_id :: bytes
  dvc_name :: bytes
  dvc_type :: u16
  dvc_bus_type :: u8
  dvc_driver :: "storage_driver option"

record device_manager =
  device_tree :: u32
  device_nodes :: tree_store
  device_lists :: list_store
  devices :: "u32 \<Rightarrow> device"

definition DEVICE_BUS_TYPE_RESERVED :: u8 where "DEVICE_BUS_TYPE_RESERVED = 0xFF"
definition DEVICE_TYPE_STORAGE :: u16 where "DEVICE_TYPE_STORAGE = 0x0200"
definition DEVICE_TYPE_RESERVED :: u16 where "DEVICE_TYPE_RESERVED = 0xFF00"
definition sizeof_device :: u32 where "sizeof_device = 21"

definition tree_of :: "device_manager \<Rightarrow> ('c, 'm) kernel_scheme \<Rightarrow> tree_store" where
  "tree_of m k = (device_nodes m)\<lparr>ts_heap := k_heap k\<rparr>"

definition lists_of :: "device_manager \<Rightarrow> ('c, 'm) kernel_scheme \<Rightarrow> list_store" where
  "lists_of m k = (device_lists m)\<lparr>ls_heap := k_heap k\<rparr>"

text \<open>An allocation whose failure panics.\<close>

definition or_panic :: "(u32 \<times> 's) kres \<Rightarrow> (u32 \<times> 's) kres" where
  "or_panic r = kbind r (\<lambda>(p, s). if p = 0 then Panic KPANIC_KHEAP_OUT_OF_MEMORY_CODE else Ret (p, s))"

subsection \<open>Searching\<close>

text \<open>The search with a predicate on devices, and the device of the node found.\<close>

definition device_find :: "(u32 \<Rightarrow> bool) \<Rightarrow> device_manager \<Rightarrow> u32 kres" where
  "device_find compare m =
     kbind (or_hang (generic_tree_find (device_tree m) compare (device_nodes m))) (\<lambda>node.
     Ret (if node = 0 then 0 else tn_data (ts_node (device_nodes m) node)))"

definition device_find_by_type :: "u16 \<Rightarrow> device_manager \<Rightarrow> u32 kres" where
  "device_find_by_type type m = device_find (\<lambda>d. dvc_type (devices m d) = type) m"

definition device_find_by_id :: "bytes \<Rightarrow> device_manager \<Rightarrow> u32 kres" where
  "device_find_by_id i m = device_find (\<lambda>d. dvc_id (devices m d) = i) m"

definition device_find_by_name :: "bytes \<Rightarrow> device_manager \<Rightarrow> u32 kres" where
  "device_find_by_name name m = device_find (\<lambda>d. dvc_name (devices m d) = name) m"

text \<open>A search that does not end counts as an identifier in use: the generation does not end either.\<close>

definition device_id_exists :: "device_manager \<Rightarrow> bytes \<Rightarrow> bool" where
  "device_id_exists m i \<longleftrightarrow> device_find_by_id i m \<noteq> Ret 0"

definition device_generate_id :: "device_manager \<Rightarrow> ('c, 'm) vkernel_scheme \<Rightarrow> (bytes \<times> ('c, 'm) vkernel_scheme) kres" where
  "device_generate_id m k =
     kbind (or_hang (generate_short_id (device_id_exists m) (random_state k))) (\<lambda>(i, rs).
     Ret (i, k\<lparr>random_state := rs\<rparr>))"

text \<open>The callback that appends matching devices to a list, and the two searches that use it.\<close>

definition device_collect :: "(u32 \<Rightarrow> bool) \<Rightarrow> device_manager \<Rightarrow> u32 \<Rightarrow> u32 \<Rightarrow> list_store kres \<Rightarrow> list_store kres" where
  "device_collect match m l node r =
     kbind r (\<lambda>s.
     let device = tn_data (ts_node (device_nodes m) node)
     in if match device
        then kbind (kmalloc_or_panic 12 (ls_heap s)) (\<lambda>(devices_node, h).
             Ret (linked_list_append l devices_node
                    (set_node devices_node (\<lambda>n. n\<lparr>node_data := device\<rparr>) (s\<lparr>ls_heap := h\<rparr>))))
        else Ret s)"

definition device_find_all :: "(u32 \<Rightarrow> bool) \<Rightarrow> device_manager \<Rightarrow> ('c, 'm) kernel_scheme \<Rightarrow>
    (u32 \<times> device_manager \<times> ('c, 'm) kernel_scheme) kres" where
  "device_find_all match m k =
     kbind (or_panic (linked_list_create (lists_of m k))) (\<lambda>(l, s).
     kbind (or_hang (generic_tree_foreach (device_tree m) (device_collect match m l) (device_nodes m) (Ret s))) (\<lambda>r.
     kbind r (\<lambda>s'. Ret (l, m\<lparr>device_lists := s'\<rparr>, k\<lparr>k_heap := ls_heap s'\<rparr>))))"

definition device_find_all_by_type :: "u16 \<Rightarrow> device_manager \<Rightarrow> ('c, 'm) kernel_scheme \<Rightarrow>
    (u32 \<times> device_manager \<times> ('c, 'm) kernel_scheme) kres" where
  "device_find_all_by_type type m k = device_find_all (\<lambda>d. dvc_type (devices m d) = type) m k"

definition device_find_all_by_bus_type :: "u8 \<Rightarrow> device_manager \<Rightarrow> ('c, 'm) kernel_scheme \<Rightarrow>
    (u32 \<times> device_manager \<times> ('c, 'm) kernel_scheme) kres" where
  "device_find_all_by_bus_type bus_type m k = device_find_all (\<lambda>d. dvc_bus_type (devices m d) = bus_type) m k"

subsection \<open>Registration\<close>

definition device_init :: "device_manager \<Rightarrow> ('c, 'm) vkernel_scheme \<Rightarrow> (device_manager \<times> ('c, 'm) vkernel_scheme) kres" where
  "device_init m k =
     kbind (or_panic (generic_tree_create (tree_of m k))) (\<lambda>(tree, s).
     kbind (kmalloc_or_panic sizeof_device (ts_heap s)) (\<lambda>(root_device, h1).
     kbind (kmalloc_or_panic 9 h1) (\<lambda>(name, h2).
     let m1 = m\<lparr>device_tree := tree, device_nodes := s\<lparr>ts_heap := h2\<rparr>\<rparr>
     in kbind (device_generate_id m1 (k\<lparr>k_heap := h2\<rparr>)) (\<lambda>(i, k1).
     let m2 = m1\<lparr>devices := (devices m1)(root_device := \<lparr>dvc_id = i, dvc_name = str ''Computer'',
                dvc_type = DEVICE_TYPE_RESERVED, dvc_bus_type = DEVICE_BUS_TYPE_RESERVED, dvc_driver = None\<rparr>)\<rparr>
     in kbind (or_panic (generic_tree_create_node root_device (tree_of m2 k1))) (\<lambda>(root_node, s1).
        Ret (m2\<lparr>device_nodes := s1\<lparr>ts_root := (ts_root s1)(tree := root_node)\<rparr>\<rparr>, k1\<lparr>k_heap := ts_heap s1\<rparr>))))))"

text \<open>The structure around a device that is handed to the volume manager.\<close>

definition storage_of :: "device_manager \<Rightarrow> u32 \<Rightarrow> storage_device kres" where
  "storage_of m device =
     (let d = devices m device
      in case dvc_driver d of
           None \<Rightarrow> Fault
         | Some drv \<Rightarrow> Ret \<lparr>dev_addr = device, dev_id = dvc_id d, dev_name = dvc_name d, dev_type = dvc_type d,
                           dev_bus_type = dvc_bus_type d, dev_driver = drv\<rparr>)"

definition device_register :: "'c ports \<Rightarrow> (nat \<Rightarrow> u8) \<Rightarrow> u32 \<Rightarrow> u32 \<Rightarrow> device_manager \<Rightarrow> ('c, 'm) vkernel_scheme \<Rightarrow>
    (int \<times> device_manager \<times> ('c, 'm) vkernel_scheme) kres" where
  "device_register io junk parent device m k =
     kbind (if parent = 0 then Ret (ts_root (device_nodes m) (device_tree m))
            else or_hang (generic_tree_find (device_tree m) (\<lambda>d. d = parent) (device_nodes m))) (\<lambda>parent_node.
     if parent_node = 0 then Ret (-1, m, k)
     else kbind (or_panic (generic_tree_create_node device (tree_of m k))) (\<lambda>(new_node, s).
          kbind (or_hang (generic_tree_insert parent_node new_node s)) (\<lambda>s1.
          let m1 = m\<lparr>device_nodes := s1\<rparr>; k1 = k\<lparr>k_heap := ts_heap s1\<rparr>
          in if dvc_type (devices m device) = DEVICE_TYPE_STORAGE
             then kbind (storage_of m device) (\<lambda>storage.
                  kbind (volume_register_device io junk storage k1) (\<lambda>(found, k2). Ret (0, m1, k2)))
             else Ret (0, m1, k1))))"

definition device_unregister :: "u32 \<Rightarrow> device_manager \<Rightarrow> ('c, 'm) vkernel_scheme \<Rightarrow>
    (int \<times> device_manager \<times> ('c, 'm) vkernel_scheme) kres" where
  "device_unregister device m k =
     kbind (or_hang (generic_tree_find (device_tree m) (\<lambda>d. d = device) (device_nodes m))) (\<lambda>node.
     if node = 0 then Ret (-1, m, k)
     else kbind (or_hang (generic_tree_remove (device_tree m) node (tree_of m k))) (\<lambda>s.
          let m1 = m\<lparr>device_nodes := s\<rparr>; k1 = k\<lparr>k_heap := kfree node (ts_heap s)\<rparr>
          in if dvc_type (devices m device) = DEVICE_TYPE_STORAGE
             then kbind (storage_of m device) (\<lambda>storage. Ret (0, m1, volume_unregister_device storage k1))
             else Ret (0, m1, k1)))"

subsection \<open>The devices in preorder\<close>

definition devs :: "rose list \<Rightarrow> u32 list" where
  "devs ts = map snd (preorder ts)"

text \<open>The nodes are blocks in use, and no device is NULL.\<close>

definition dm_inv :: "device_manager \<Rightarrow> ('c, 'm) kernel_scheme \<Rightarrow> rose list \<Rightarrow> bool" where
  "dm_inv m k ts \<longleftrightarrow> tree_repr (device_nodes m) (device_tree m) ts \<and> kheap_inv (k_heap k) \<and>
     (\<forall>a \<in> set (addrs ts). \<exists>n. (unat a, n) \<in> kheap_live (k_heap k)) \<and> 0 \<notin> set (devs ts)"

lemma forest_at_data: "forest_at N par ts \<Longrightarrow> (a, d) \<in> set (preorder ts) \<Longrightarrow> tn_data (N a) = d"
  by (induction N par ts rule: forest_at.induct) auto

lemma tree_repr_data:
  "tree_repr s tree ts \<Longrightarrow> (a, d) \<in> set (preorder ts) \<Longrightarrow> tn_data (ts_node s a) = d"
  using forest_at_data unfolding tree_repr_def by blast

lemma tree_repr_nonzero: "tree_repr s tree ts \<Longrightarrow> 0 \<notin> set (addrs ts)"
  using forest_at_addrs unfolding tree_repr_def by blast

lemma tree_repr_heap [simp]: "tree_repr (s\<lparr>ts_heap := h\<rparr>) tree ts = tree_repr s tree ts"
  by (simp add: tree_repr_def)

lemma find_snd: "find P (map snd xs) = map_option snd (find (\<lambda>(a, d). P d) xs)"
  by (induction xs) auto

lemma find_in: "find P xs = Some x \<Longrightarrow> x \<in> set xs \<and> P x"
  by (induction xs) (auto split: if_splits)

lemma device_find_correct:
  assumes "tree_repr (device_nodes m) (device_tree m) ts"
  shows "device_find P m = Ret (case find P (devs ts) of None \<Rightarrow> 0 | Some d \<Rightarrow> d)"
proof (cases "find (\<lambda>(a, d). P d) (preorder ts)")
  case None
  then show ?thesis
    using generic_tree_operations(1) [OF assms, of P] by (simp add: device_find_def devs_def find_snd)
next
  case (Some x)
  obtain a d where x: "x = (a, d)" by (cases x)
  then have i: "(a, d) \<in> set (preorder ts)" using find_in [OF Some] by simp
  then have "a \<in> set (addrs ts)" by force
  then have "a \<noteq> 0" using tree_repr_nonzero [OF assms] by auto
  then show ?thesis
    using Some x tree_repr_data [OF assms i] generic_tree_operations(1) [OF assms, of P]
    by (simp add: device_find_def devs_def find_snd)
qed

lemma device_generate_id_new:
  assumes inv: "dm_inv m k ts" and r: "device_generate_id m k = Ret (i, k')" and d: "d \<in> set (devs ts)"
  shows "dvc_id (devices m d) \<noteq> i"
proof
  assume e: "dvc_id (devices m d) = i"
  have t: "tree_repr (device_nodes m) (device_tree m) ts" and z: "0 \<notin> set (devs ts)" using inv by (simp_all add: dm_inv_def)
  obtain rs where g: "generate_short_id (device_id_exists m) (random_state k) = Some (i, rs)"
    using r by (auto simp: device_generate_id_def or_hang_def split: option.splits)
  have "\<not> device_id_exists m i" using generate_short_id_fresh [OF g] by simp
  then have f: "(case find (\<lambda>d. dvc_id (devices m d) = i) (devs ts) of None \<Rightarrow> 0 | Some d \<Rightarrow> d) = 0"
    by (simp add: device_id_exists_def device_find_by_id_def device_find_correct [OF t])
  show False
  proof (cases "find (\<lambda>d. dvc_id (devices m d) = i) (devs ts)")
    case None
    then show False using d e by (auto simp: find_None_iff)
  next
    case (Some x)
    then show False using f find_in [OF Some] z by simp
  qed
qed

subsection \<open>Lists of devices\<close>

lemma collect_correct:
  assumes "list_owned b s l xs" and "\<forall>a \<in> set as. tn_data (ts_node (device_nodes m) a) = data a"
  shows "ret_or_panic oom (fold (device_collect match m l) as (Ret s)) (\<lambda>s'. \<exists>b' ys. list_owned b' s' l (xs @ ys) \<and>
    list_data s' (xs @ ys) = list_data s xs @ filter match (map data as) \<and>
    kheap_live (ls_heap s) \<subseteq> kheap_live (ls_heap s'))"
  using assms
proof (induction as arbitrary: s xs b)
  case Nil
  then show ?case by (auto intro!: exI [of _ b] exI [of _ "[]"])
next
  case (Cons a as)
  have d: "tn_data (ts_node (device_nodes m) a) = data a" using Cons.prems(2) by simp
  have rest: "\<forall>a \<in> set as. tn_data (ts_node (device_nodes m) a) = data a" using Cons.prems(2) by simp
  have stuck: "fold (device_collect match m l) as (Panic c) = Panic c" for c
    by (induction as) (simp_all add: device_collect_def)
  show ?case
  proof (cases "match (data a)")
    case False
    then show ?thesis using Cons.IH [OF Cons.prems(1) rest] by (simp add: device_collect_def Let_def d)
  next
    case True
    have inv: "kheap_inv (ls_heap s)" using Cons.prems(1) by (simp add: list_owned_def)
    obtain n h where m: "kmalloc 12 (ls_heap s) = Ret (n, h)" using kheap.alloc_returns [OF inv] by blast
    show ?thesis
    proof (cases "n = 0")
      case z: True
      then have "device_collect match m l a (Ret s) = Panic oom"
        using True m by (simp add: device_collect_def Let_def d kmalloc_or_panic_def)
      then show ?thesis by (simp add: stuck)
    next
      case nz: False
      define s1 where "s1 = set_node n (\<lambda>x. x\<lparr>node_data := data a\<rparr>) (s\<lparr>ls_heap := h\<rparr>)"
      define s2 where "s2 = linked_list_append l n s1"
      have c: "device_collect match m l a (Ret s) = Ret s2"
        using True m nz by (simp add: device_collect_def Let_def d kmalloc_or_panic_def s1_def s2_def)
      from fresh_node_owned [OF Cons.prems(1) m nz s1_def] obtain b1 where
        b1: "list_owned b1 s1 l xs" "n \<notin> set (l # xs)" "node_data (ls_node s1 n) = data a"
        "list_data s1 xs = list_data s xs" "(unat n, b1 n) \<in> kheap_live (ls_heap s1)" by auto
      note ap = append_owned [OF b1(1,2,5), folded s2_def]
      have lv: "kheap_live (ls_heap s) \<subseteq> kheap_live (ls_heap s2)"
        using kheap.alloc_keeps_live [OF inv m]
        by (simp add: s2_def s1_def linked_list_append_def Let_def store_simps)
      have "ret_or_panic oom (fold (device_collect match m l) as (Ret s2)) (\<lambda>s'. \<exists>b' ys. list_owned b' s' l (xs @ ys) \<and>
        list_data s' (xs @ ys) = list_data s xs @ filter match (map data (a # as)) \<and>
        kheap_live (ls_heap s) \<subseteq> kheap_live (ls_heap s'))"
      proof (rule ret_or_panic_mono [OF Cons.IH [OF ap [THEN conjunct1] rest]], elim exE conjE)
        fix s' b' ys assume "list_owned b' s' l ((xs @ [n]) @ ys)"
          "list_data s' ((xs @ [n]) @ ys) = list_data s2 (xs @ [n]) @ filter match (map data as)"
          "kheap_live (ls_heap s2) \<subseteq> kheap_live (ls_heap s')"
        then show "\<exists>b' ys. list_owned b' s' l (xs @ ys) \<and>
          list_data s' (xs @ ys) = list_data s xs @ filter match (map data (a # as)) \<and>
          kheap_live (ls_heap s) \<subseteq> kheap_live (ls_heap s')"
          using ap [THEN conjunct2] b1(3,4) True lv by (intro exI [of _ b'] exI [of _ "n # ys"]) auto
      qed
      then show ?thesis by (simp add: c)
    qed
  qed
qed

lemma device_find_all_correct:
  assumes inv: "dm_inv m k ts"
  shows "ret_or_panic oom (device_find_all match m k) (\<lambda>(l, m', k'). \<exists>nodes.
    list_repr (device_lists m') l nodes \<and> list_data (device_lists m') nodes = filter match (devs ts) \<and>
    dm_inv m' k' ts \<and> devices m' = devices m)"
proof -
  have t: "tree_repr (device_nodes m) (device_tree m) ts" and h: "kheap_inv (ls_heap (lists_of m k))"
    using inv by (simp_all add: dm_inv_def lists_of_def)
  from create_owned [OF h] obtain l s where c: "linked_list_create (lists_of m k) = Ret (l, s)" by blast
  show ?thesis
  proof (cases "l = 0")
    case True
    then show ?thesis by (simp add: device_find_all_def c or_panic_def)
  next
    case False
    from create_owned [OF h] c False obtain b where b: "list_owned (\<lambda>_. b) s l []"
      "kheap_live (k_heap k) \<subseteq> kheap_live (ls_heap s)" by (auto simp: lists_of_def)
    have fe: "generic_tree_foreach (device_tree m) (device_collect match m l) (device_nodes m) (Ret s) =
      Some (fold (device_collect match m l) (addrs ts) (Ret s))"
      by (rule generic_tree_operations(2) [OF t])
    have d: "\<forall>a \<in> set (addrs ts). tn_data (ts_node (device_nodes m) a) = tn_data (ts_node (device_nodes m) a)" by simp
    have dv: "map (\<lambda>a. tn_data (ts_node (device_nodes m) a)) (addrs ts) = devs ts"
      using tree_repr_data [OF t] by (auto simp: devs_def)
    have r: "ret_or_panic oom (fold (device_collect match m l) (addrs ts) (Ret s)) (\<lambda>s'. \<exists>b' ys. list_owned b' s' l ys \<and>
      list_data s' ys = filter match (devs ts) \<and> kheap_live (ls_heap s) \<subseteq> kheap_live (ls_heap s'))"
      using collect_correct [OF b(1) d, of match] unfolding dv by (simp add: list_data_def)
    have eq: "device_find_all match m k = kbind (fold (device_collect match m l) (addrs ts) (Ret s))
      (\<lambda>s'. Ret (l, m\<lparr>device_lists := s'\<rparr>, k\<lparr>k_heap := ls_heap s'\<rparr>))"
      using False by (simp add: device_find_all_def c or_panic_def fe)
    show ?thesis
      unfolding eq
    proof (rule ret_or_panic_bind [OF r], elim exE conjE)
      fix s' b' ys assume s': "list_owned b' s' l ys" "list_data s' ys = filter match (devs ts)"
        "kheap_live (ls_heap s) \<subseteq> kheap_live (ls_heap s')"
      have "dm_inv (m\<lparr>device_lists := s'\<rparr>) (k\<lparr>k_heap := ls_heap s'\<rparr>) ts"
        using inv s'(1,3) b(2) unfolding dm_inv_def list_owned_def by simp blast
      then show "ret_or_panic oom (Ret (l, m\<lparr>device_lists := s'\<rparr>, k\<lparr>k_heap := ls_heap s'\<rparr>)) (\<lambda>(l, m', k'). \<exists>nodes.
        list_repr (device_lists m') l nodes \<and> list_data (device_lists m') nodes = filter match (devs ts) \<and>
        dm_inv m' k' ts \<and> devices m' = devices m)"
        using s' by (auto simp: list_owned_def)
    qed
  qed
qed

subsection \<open>Registration\<close>

text \<open>The node of a parent: the root for NULL, else the first node with the device, or NULL.\<close>

definition parent_node :: "rose list \<Rightarrow> u32 \<Rightarrow> u32" where
  "parent_node ts p = (if p = 0 then root_addr ts
     else case find (\<lambda>(a, d). d = p) (preorder ts) of None \<Rightarrow> 0 | Some (a, d) \<Rightarrow> a)"

lemma parent_node_in:
  assumes "parent_node ts p \<noteq> 0"
  shows "parent_node ts p \<in> set (addrs ts)"
proof (cases "p = 0")
  case True
  then show ?thesis using assms root_addr_in [of ts] by (cases ts rule: preorder.cases) (auto simp: parent_node_def)
next
  case False
  then obtain a d where f: "find (\<lambda>(a, d). d = p) (preorder ts) = Some (a, d)"
    using assms by (auto simp: parent_node_def split: option.splits)
  then have "(a, d) \<in> set (preorder ts)" using find_in [OF f] by auto
  then show ?thesis using f False by (force simp: parent_node_def)
qed

lemma find_parent_node:
  assumes "tree_repr (device_nodes m) (device_tree m) ts"
  shows "(if p = 0 then Ret (ts_root (device_nodes m) (device_tree m))
     else or_hang (generic_tree_find (device_tree m) (\<lambda>d. d = p) (device_nodes m))) = Ret (parent_node ts p)"
  using generic_tree_operations(1) [OF assms, of "\<lambda>d. d = p"] assms
  by (simp add: parent_node_def tree_repr_def)

lemma create_node_fresh:
  assumes inv: "dm_inv m k ts" and r: "or_panic (generic_tree_create_node d (tree_of m k)) = Ret (n, s)"
  shows "n \<noteq> 0 \<and> n \<notin> set (addrs ts) \<and> tree_repr s (device_tree m) ts \<and> forest_at (ts_node s) 0 [Node n d []]"
proof -
  have t: "tree_repr (device_nodes m) (device_tree m) ts" and i: "kheap_inv (k_heap k)"
    and lv: "\<forall>a \<in> set (addrs ts). \<exists>n. (unat a, n) \<in> kheap_live (k_heap k)" using inv by (simp_all add: dm_inv_def)
  from r obtain h where m: "kmalloc 16 (k_heap k) = Ret (n, h)" and n: "n \<noteq> 0"
    and s: "s = set_tree_node n (\<lambda>_. \<lparr>tn_parent = 0, tn_children = 0, tn_next = 0, tn_data = d\<rparr>) ((tree_of m k)\<lparr>ts_heap := h\<rparr>)"
    by (auto simp: or_panic_def generic_tree_create_node_def kbind_Ret_iff tree_of_def split: if_splits)
  from kheap.alloc_live [OF i m n] obtain b where b: "kheap_inv h"
    "kheap_live h = insert (unat n, b) (kheap_live (k_heap k))" "(unat n, b) \<notin> kheap_live (k_heap k)" by blast
  have fresh: "n \<notin> set (addrs ts)"
  proof
    assume "n \<in> set (addrs ts)"
    then obtain c where "(unat n, c) \<in> kheap_live (k_heap k)" using lv by blast
    then show False using live_ptr_unique [OF b(1), of "unat n" c b] b by auto
  qed
  have "forest_at (ts_node s) 0 ts"
    by (rule forest_at_cong [of "ts_node (device_nodes m)"])
      (use t fresh in \<open>auto simp: s tree_repr_def tree_of_def set_tree_node_def\<close>)
  then show ?thesis using n fresh t by (simp add: s tree_repr_def tree_of_def set_tree_node_def)
qed

lemma device_register_correct:
  assumes inv: "dm_inv m k ts" and r: "device_register io junk p d m k = Ret (e, m', k')"
  shows "if parent_node ts p = 0 then e = -1 \<and> m' = m \<and> k' = k
    else e = 0 \<and> (\<exists>n. n \<notin> set (addrs ts) \<and> tree_repr (device_nodes m') (device_tree m') (with_children (parent_node ts p)
      (children_of (parent_node ts p) ts @ [Node n d []]) ts))"
proof -
  have t: "tree_repr (device_nodes m) (device_tree m) ts" using inv by (simp add: dm_inv_def)
  note r' = r [unfolded device_register_def find_parent_node [OF t] kbind.simps]
  show ?thesis
  proof (cases "parent_node ts p = 0")
    case True
    then show ?thesis using r' by simp
  next
    case False
    note a = parent_node_in [OF False]
    from r' False obtain n s s1 where c: "or_panic (generic_tree_create_node d (tree_of m k)) = Ret (n, s)"
      and g: "generic_tree_insert (parent_node ts p) n s = Some s1" and em: "e = 0" "m' = m\<lparr>device_nodes := s1\<rparr>"
      by (auto simp: kbind_Ret_iff or_hang_def Let_def split: option.splits if_splits)
    note f = create_node_fresh [OF inv c]
    from f have tr: "tree_repr s (device_tree m) ts" and fn: "forest_at (ts_node s) 0 [Node n d []]"
      and nd: "distinct (addrs ts @ addrs [Node n d []])" by (auto simp: tree_repr_def)
    from generic_tree_operations(3) [OF tr a fn nd] g
    have "tree_repr s1 (device_tree m) (with_children (parent_node ts p) (children_of (parent_node ts p) ts @ [Node n d []]) ts)"
      by simp
    then show ?thesis using em f False by auto
  qed
qed

lemma device_unregister_correct:
  assumes inv: "dm_inv m k ts" and r: "device_unregister d m k = Ret (e, m', k')" and d: "d \<noteq> 0"
  shows "if parent_node ts d = 0 then e = -1 \<and> m' = m \<and> k' = k
    else e = 0 \<and> (\<forall>b \<in> set (addrs ts). \<forall>xs t ys. children_of b ts = xs @ t # ys \<and> root_addr [t] = parent_node ts d \<longrightarrow>
      tree_repr (device_nodes m') (device_tree m') (with_children b (xs @ ys) ts))"
proof -
  have t: "tree_repr (device_nodes m) (device_tree m) ts" using inv by (simp add: dm_inv_def)
  have pn: "or_hang (generic_tree_find (device_tree m) (\<lambda>x. x = d) (device_nodes m)) = Ret (parent_node ts d)"
    using find_parent_node [OF t, of d] d by simp
  note r' = r [unfolded device_unregister_def pn kbind.simps]
  show ?thesis
  proof (cases "parent_node ts d = 0")
    case True
    then show ?thesis using r' by simp
  next
    case False
    from r' False obtain s where g: "generic_tree_remove (device_tree m) (parent_node ts d) (tree_of m k) = Some s"
      and em: "e = 0" "m' = m\<lparr>device_nodes := s\<rparr>"
      by (auto simp: kbind_Ret_iff or_hang_def Let_def split: option.splits if_splits)
    have tr: "tree_repr (tree_of m k) (device_tree m) ts" using t by (simp add: tree_of_def)
    have "tree_repr s (device_tree m) (with_children b (xs @ ys) ts)"
      if "b \<in> set (addrs ts)" "children_of b ts = xs @ u # ys" "root_addr [u] = parent_node ts d" for b xs u ys
      using generic_tree_operations(4) [OF tr that(1,2)] g that(3) by auto
    then show ?thesis using em False by auto
  qed
qed

text \<open>
  C37. The device manager keeps the tree of devices: a search returns the first match in preorder or
  NULL; registering a device makes it the last child of its parent (of the root for NULL), or fails
  with -1 and no effect when the parent is unknown; unregistering a device cuts it out; the list of
  the devices of a type or of a bus is a new linked list with exactly these devices in
  preorder, unless the kernel heap is exhausted; a generated identifier is none of those in the tree.
\<close>

theorem device_manager_refines:
  assumes inv: "dm_inv m k ts"
  shows "(\<forall>P. device_find P m = Ret (case find P (devs ts) of None \<Rightarrow> 0 | Some d \<Rightarrow> d)) \<and>
    (\<forall>io junk p d e m' k'. device_register io junk p d m k = Ret (e, m', k') \<longrightarrow>
      (if parent_node ts p = 0 then e = -1 \<and> m' = m \<and> k' = k
       else e = 0 \<and> (\<exists>n. n \<notin> set (addrs ts) \<and> tree_repr (device_nodes m') (device_tree m')
         (with_children (parent_node ts p) (children_of (parent_node ts p) ts @ [Node n d []]) ts)))) \<and>
    (\<forall>d e m' k'. d \<noteq> 0 \<and> device_unregister d m k = Ret (e, m', k') \<longrightarrow>
      (if parent_node ts d = 0 then e = -1 \<and> m' = m \<and> k' = k
       else e = 0 \<and> (\<forall>b \<in> set (addrs ts). \<forall>xs t ys. children_of b ts = xs @ t # ys \<and> root_addr [t] = parent_node ts d \<longrightarrow>
         tree_repr (device_nodes m') (device_tree m') (with_children b (xs @ ys) ts)))) \<and>
    (\<forall>match. ret_or_panic KPANIC_KHEAP_OUT_OF_MEMORY_CODE (device_find_all match m k) (\<lambda>(l, m', k'). \<exists>nodes.
      list_repr (device_lists m') l nodes \<and> list_data (device_lists m') nodes = filter match (devs ts) \<and>
      dm_inv m' k' ts \<and> devices m' = devices m)) \<and>
    (\<forall>i k' d. device_generate_id m k = Ret (i, k') \<and> d \<in> set (devs ts) \<longrightarrow> dvc_id (devices m d) \<noteq> i)"
proof (intro conjI allI impI, goal_cases)
  case (1 P)
  show ?case using inv by (intro device_find_correct) (simp add: dm_inv_def)
next
  case (2 io junk p d e m' k')
  then show ?case by (rule device_register_correct [OF inv])
next
  case (3 d e m' k')
  then show ?case by (intro device_unregister_correct [OF inv]) auto
next
  case (4 match)
  show ?case by (rule device_find_all_correct [OF inv])
next
  case (5 i k' d)
  then show ?case using device_generate_id_new [OF inv] by blast
qed

text \<open>A tree of one device at address 7, its node in the first block of the heap.\<close>

definition small_dm :: device_manager where
  "small_dm = \<lparr>device_tree = 4,
     device_nodes = \<lparr>ts_heap = fresh_heap,
       ts_node = (\<lambda>_. \<lparr>tn_parent = 0, tn_children = 0, tn_next = 0, tn_data = 7\<rparr>), ts_root = (\<lambda>_. 0x10000014)\<rparr>,
     device_lists = \<lparr>ls_heap = fresh_heap, ls_node = (\<lambda>_. \<lparr>node_prev = 0, node_next = 0, node_data = 0\<rparr>),
       ls_list = (\<lambda>_. \<lparr>list_head = 0, list_tail = 0\<rparr>)\<rparr>,
     devices = (\<lambda>_. \<lparr>dvc_id = str ''00a1b2'', dvc_name = str ''Keyboard'', dvc_type = 0x0100, dvc_bus_type = 0, dvc_driver = None\<rparr>)\<rparr>"

lemma device_manager_refines_witness:
  "\<exists>k :: ide vkernel. device_find_by_type 0x0100 small_dm = Ret 7 \<and> device_find_by_id (str ''ffffff'') small_dm = Ret 0 \<and>
     ret_or_panic KPANIC_KHEAP_OUT_OF_MEMORY_CODE (device_find_all_by_type 0x0100 small_dm k) (\<lambda>(l, m', k'). \<exists>nodes.
       list_repr (device_lists m') l nodes \<and> list_data (device_lists m') nodes = [7])"
proof -
  obtain h where m: "kmalloc 100 fresh_heap = Ret (0x10000014, h)" using fresh_heap_kmalloc by blast
  define k :: "ide vkernel" where "k = kernel.extend (small_kernel\<lparr>k_heap := h\<rparr>) \<lparr>volumes = [], random_state = 1\<rparr>"
  have kh: "k_heap k = h" by (simp add: k_def kernel.defs)
  have "kheap_inv h" "\<exists>n. (0x10000014, n) \<in> kheap_live h"
    using kheap.alloc_live [OF fresh_heap_inv m] by auto
  then have inv: "dm_inv small_dm k [Node 0x10000014 7 []]"
    by (simp add: dm_inv_def kh small_dm_def tree_repr_def devs_def)
  note d = device_manager_refines [OF inv]
  have dv: "devs [Node 0x10000014 7 []] = [7]" by (simp add: devs_def)
  note fd = d [THEN conjunct1, rule_format, unfolded dv]
  have "device_find_by_type 0x0100 small_dm = Ret 7" "device_find_by_id (str ''ffffff'') small_dm = Ret 0"
    unfolding device_find_by_type_def device_find_by_id_def fd by (simp_all add: small_dm_def str_def)
  moreover have "ret_or_panic KPANIC_KHEAP_OUT_OF_MEMORY_CODE (device_find_all_by_type 0x0100 small_dm k) (\<lambda>(l, m', k'). \<exists>nodes.
       list_repr (device_lists m') l nodes \<and> list_data (device_lists m') nodes = [7])"
    unfolding device_find_all_by_type_def
    by (rule ret_or_panic_mono [OF d [THEN conjunct2, THEN conjunct2, THEN conjunct2, THEN conjunct1, rule_format]])
      (auto simp: dv small_dm_def)
  ultimately show ?thesis by blast
qed

end
