(* ===== verification/Syscall.thy ===== *)
theory Syscall
  imports Process Device
begin

text \<open>
  The system calls, \<open>kernel/src/system/syscall.c\<close>, with the kernel log (\<open>kmessage.c\<close>) and the uptime
  (\<open>timer.c\<close>) they read. A handler gets the saved registers of the caller and returns the value for
  \<open>eax\<close>; \<open>exit\<close> and \<open>spawn\<close> return where control goes.

  Pointers of the caller are followed through its page tables, and an access to a page that is not
  mapped is \<open>Fault\<close>. Like the code, the handlers do not test that a pointer is below the kernel half. The
  lists of volumes, memory regions and messages are sequences. Whether a state of the hardware is powered
  off is the parameter \<open>off\<close>; the ACPI tables that say which ports do that are not modelled.
\<close>

subsection \<open>State\<close>

record acpi_poweroff_information =
  slp_type_a :: u8
  slp_type_b :: u8
  pm1a_cnt :: u32
  pm1b_cnt :: u32

record ('c, 's) skernel = "('c, 's) pkernel" +
  dm :: device_manager
  kmessage_messages :: "(bytes \<times> bytes) list"
  timer_jiffies :: u32
  timer_hz :: u16
  kernel_version :: bytes
  kernel_arch :: bytes
  kernel_platform :: bytes
  acpi_poweroff_info :: acpi_poweroff_information

definition KERNEL_NAME :: bytes where "KERNEL_NAME = str ''TTOS''"
definition KMESSAGE_LEVEL_INFO :: bytes where "KMESSAGE_LEVEL_INFO = str ''INFO''"
definition FILE_CREAT :: u32 where "FILE_CREAT = 4"

text \<open>\<open>kmessage\<close> ignores the level it is given. The arguments of its panics are swapped: the code is an address.\<close>

definition kmessage :: "nat \<Rightarrow> bytes \<Rightarrow> bytes \<Rightarrow> ('c, 's, 'm) skernel_scheme \<Rightarrow> ('c, 's, 'm) skernel_scheme kres" where
  "kmessage message_address level message k =
     kbind (kmalloc 8 (k_heap k)) (\<lambda>(kmessage_message, h).
     if kmessage_message = 0 then Panic message_address
     else kbind (kmalloc 12 h) (\<lambda>(node, h').
          if node = 0 then Panic message_address
          else Ret (k\<lparr>k_heap := h', kmessage_messages := kmessage_messages k @ [(KMESSAGE_LEVEL_INFO, message)]\<rparr>)))"

definition timer_get_uptime :: "('c, 's, 'm) skernel_scheme \<Rightarrow> u32 kres" where
  "timer_get_uptime k = (if timer_hz k = 0 then Fault else Ret (timer_jiffies k div ucast (timer_hz k)))"

text \<open>\<open>linked_list_get\<close> on a list that is a sequence here.\<close>

definition list_get :: "'a list \<Rightarrow> u32 \<Rightarrow> 'a option" where
  "list_get xs index = (if unat index < length xs then Some (xs ! unat index) else None)"

subsection \<open>The memory of the caller\<close>

definition store_user :: "u32 \<Rightarrow> bytes \<Rightarrow> ('c, 's, 'm) pkernel_scheme \<Rightarrow> ('c, 's, 'm) pkernel_scheme kres" where
  "store_user v bs k = kbind (user_write v bs (vm_of k)) (\<lambda>s. Ret (set_vm s k))"

definition store_user32 :: "u32 \<Rightarrow> u32 \<Rightarrow> ('c, 's, 'm) pkernel_scheme \<Rightarrow> ('c, 's, 'm) pkernel_scheme kres" where
  "store_user32 v x k = store_user v (enc32 x) k"

definition strncpy_user :: "u32 \<Rightarrow> bytes \<Rightarrow> nat \<Rightarrow> ('c, 's, 'm) pkernel_scheme \<Rightarrow> ('c, 's, 'm) pkernel_scheme kres" where
  "strncpy_user dest s n k = store_user dest (take n (s @ replicate n 0)) k"

text \<open>A string field of \<open>n\<close> bytes: \<open>strncpy\<close>, then the last byte is made NUL.\<close>

definition store_field :: "u32 \<Rightarrow> nat \<Rightarrow> bytes \<Rightarrow> ('c, 's, 'm) pkernel_scheme \<Rightarrow> ('c, 's, 'm) pkernel_scheme kres" where
  "store_field dest n s k = kbind (strncpy_user dest s n k) (store_user (dest + of_nat (n - 1)) [0])"

definition cur :: "('c, 's, 'm) pkernel_scheme \<Rightarrow> process" where
  "cur k = processes k (current_process k)"

definition set_file :: "nat \<Rightarrow> file_descriptor option \<Rightarrow> ('c, 's, 'm) pkernel_scheme \<Rightarrow> ('c, 's, 'm) pkernel_scheme" where
  "set_file fd f k = set_process (current_process k) (\<lambda>p. p\<lparr>pr_files := (pr_files p)[fd := f]\<rparr>) k"

subsection \<open>Streams\<close>

definition stream_getchar :: "u32 \<Rightarrow> ('c, 's, 'm) pkernel_scheme \<Rightarrow> (u8 \<times> ('c, 's, 'm) pkernel_scheme) kres" where
  "stream_getchar s k =
     (if stream_is_output (streams k s) then Fault
      else let a = stream_data (streams k s)
           in kbind (tty_getchar (ttys k a)) (\<lambda>(ch, t). Ret (ch, k\<lparr>ttys := (ttys k)(a := t)\<rparr>)))"

definition stream_puts :: "'s video_driver \<Rightarrow> u32 \<Rightarrow> bytes \<Rightarrow> ('c, 's, 'm) pkernel_scheme \<Rightarrow> ('c, 's, 'm) pkernel_scheme kres" where
  "stream_puts drv s cs k =
     (if \<not> stream_is_output (streams k s) then Fault
      else let a = stream_data (streams k s)
           in kbind (tty_puts drv cs (ttys k a) (video k)) (\<lambda>(t, v). Ret (k\<lparr>ttys := (ttys k)(a := t), video := v\<rparr>)))"

subsection \<open>Files\<close>

text \<open>\<open>char\<close> is signed: the loop ends at a NUL and at every character from 0x80 on (0xFF is no input).\<close>

fun read_chars :: "u32 \<Rightarrow> u32 \<Rightarrow> nat \<Rightarrow> u32 \<Rightarrow> ('c, 's, 'm) pkernel_scheme \<Rightarrow> (u32 \<times> ('c, 's, 'm) pkernel_scheme) kres" where
  "read_chars s buffer 0 i k = Ret (i, k)"
| "read_chars s buffer (Suc n) i k =
     kbind (stream_getchar s k) (\<lambda>(ch, k1).
     if ch = 0 \<or> 0x80 \<le> ch then Ret (i, k1)
     else kbind (store_user (buffer + i) [ch] k1) (read_chars s buffer n (i + 1)))"

definition syscall_read :: "'c ports \<Rightarrow> isr_cpu_state \<Rightarrow> ('c, 's, 'm) pkernel_scheme \<Rightarrow> (u32 \<times> ('c, 's, 'm) pkernel_scheme) kres" where
  "syscall_read io state k =
     (let fd = sint (isr_ebx state); buffer = isr_ecx state; sz = isr_edx state
      in if fd < 0 \<or> int PROCESS_MAX_FILE_DESCRIPTORS \<le> fd then Ret (-1, k)
         else if current_process k \<noteq> 0 \<and> pr_in (cur k) \<noteq> 0 \<and> fd = 0 then read_chars (pr_in (cur k)) buffer (unat sz) 0 k
         else if current_process k \<noteq> 0 \<and> pr_files (cur k) ! nat fd \<noteq> None
         then kbind (file_read io (pr_files (cur k) ! nat fd) sz k) (\<lambda>((n, bs, f), k1).
              kbind (store_user buffer bs (set_file (nat fd) f k1)) (\<lambda>k2. Ret (of_int n, k2)))
         else Ret (-1, k))"

text \<open>The message is copied to the kernel heap; \<open>kmalloc\<close> may fail, and the result is not tested.\<close>

definition write_stream :: "'s video_driver \<Rightarrow> u32 \<Rightarrow> u32 \<Rightarrow> u32 \<Rightarrow> ('c, 's, 'm) pkernel_scheme \<Rightarrow> (u32 \<times> ('c, 's, 'm) pkernel_scheme) kres" where
  "write_stream drv s buffer sz k =
     kbind (kmalloc (sz + 1) (k_heap k)) (\<lambda>(message, h).
     if message = 0 then Fault
     else kbind (user_read buffer (unat sz) (vm_of k)) (\<lambda>bs.
          kbind (stream_puts drv s (cstr_at bs 0) (k\<lparr>k_heap := h\<rparr>)) (\<lambda>k1. Ret (sz, k_free message k1))))"

definition syscall_write :: "'s video_driver \<Rightarrow> isr_cpu_state \<Rightarrow> ('c, 's, 'm) pkernel_scheme \<Rightarrow> (u32 \<times> ('c, 's, 'm) pkernel_scheme) kres" where
  "syscall_write drv state k =
     (let fd = sint (isr_ebx state); buffer = isr_ecx state; sz = isr_edx state
      in if fd < 0 \<or> int PROCESS_MAX_FILE_DESCRIPTORS \<le> fd then Ret (-1, k)
         else if current_process k \<noteq> 0 \<and> pr_out (cur k) \<noteq> 0 \<and> fd = 1 then write_stream drv (pr_out (cur k)) buffer sz k
         else if current_process k \<noteq> 0 \<and> pr_err (cur k) \<noteq> 0 \<and> fd = 2 then write_stream drv (pr_err (cur k)) buffer sz k
         else if current_process k \<noteq> 0 \<and> pr_files (cur k) ! nat fd \<noteq> None
         then kbind (user_read buffer (unat sz) (vm_of k)) (\<lambda>bs.
              case file_write (pr_files (cur k) ! nat fd) bs sz of (n, f) \<Rightarrow> Ret (of_int n, set_file (nat fd) f k))
         else Ret (-1, k))"

text \<open>The first free descriptor from 3 on.\<close>

definition free_file_descriptor :: "file_descriptor option list \<Rightarrow> nat option" where
  "free_file_descriptor fs = find (\<lambda>i. fs ! i = None) [3..<PROCESS_MAX_FILE_DESCRIPTORS]"

definition syscall_open :: "'c ports \<Rightarrow> (nat \<Rightarrow> u8) \<Rightarrow> isr_cpu_state \<Rightarrow> ('c, 's, 'm) pkernel_scheme \<Rightarrow> (u32 \<times> ('c, 's, 'm) pkernel_scheme) kres" where
  "syscall_open io junk state k =
     (let flags = isr_ecx state
      in if current_process k = 0 then Ret (-1, k)
         else if flags AND FILE_CREAT \<noteq> 0 then Ret (-1, k)
         else case free_file_descriptor (pr_files (cur k)) of
                None \<Rightarrow> Ret (-1, k)
              | Some fd \<Rightarrow>
                  kbind (user_string (isr_ebx state) (vm_of k)) (\<lambda>name.
                  kbind (file_open io junk name flags k) (\<lambda>(f, k1).
                  case f of None \<Rightarrow> Ret (-1, k1) | Some d \<Rightarrow> Ret (of_nat fd, set_file fd (Some d) k1))))"

definition syscall_close :: "isr_cpu_state \<Rightarrow> ('c, 's, 'm) pkernel_scheme \<Rightarrow> (u32 \<times> ('c, 's, 'm) pkernel_scheme) kres" where
  "syscall_close state k =
     (let fd = sint (isr_ebx state)
      in if fd < 0 \<or> int PROCESS_MAX_FILE_DESCRIPTORS \<le> fd then Ret (-1, k)
         else if current_process k = 0 \<or> fd < 3 then Ret (-1, k)
         else if pr_files (cur k) ! nat fd \<noteq> None
         then kbind (file_close (pr_files (cur k) ! nat fd) k) (\<lambda>(r, k1). Ret (0, set_file (nat fd) None k1))
         else Ret (-1, k))"

subsection \<open>Directories\<close>

definition syscall_opendir :: "'c ports \<Rightarrow> (nat \<Rightarrow> u8) \<Rightarrow> isr_cpu_state \<Rightarrow> ('c, 's, 'm) pkernel_scheme \<Rightarrow> (u32 \<times> ('c, 's, 'm) pkernel_scheme) kres" where
  "syscall_opendir io junk state k =
     kbind (user_string (isr_ebx state) (vm_of k)) (\<lambda>path.
     kbind (dir_open io junk path k) (\<lambda>(dd, k1). Ret (of_int dd, k1)))"

definition syscall_readdir :: "'c ports \<Rightarrow> (nat \<Rightarrow> u8) \<Rightarrow> isr_cpu_state \<Rightarrow> ('c, 's, 'm) pkernel_scheme \<Rightarrow> (u32 \<times> ('c, 's, 'm) pkernel_scheme) kres" where
  "syscall_readdir io junk state k =
     (let user_entry = isr_ecx state
      in if user_entry = 0 then Ret (-1, k)
         else kbind (dir_read io junk (sint (isr_ebx state)) k) (\<lambda>(r, k1).
              case r of
                None \<Rightarrow> Ret (-1, k1)
              | Some dirent \<Rightarrow>
                  kbind (store_field user_entry 256 (dd_name dirent) k1) (\<lambda>k2.
                  kbind (store_user32 (user_entry + 256) (dd_inode dirent) k2) (\<lambda>k3.
                  Ret (0, k_free (dd_addr dirent) k3)))))"

definition syscall_closedir :: "isr_cpu_state \<Rightarrow> ('c, 's, 'm) pkernel_scheme \<Rightarrow> (u32 \<times> ('c, 's, 'm) pkernel_scheme) kres" where
  "syscall_closedir state k = (case dir_close (sint (isr_ebx state)) k of (e, k1) \<Rightarrow> Ret (of_int e, k1))"

subsection \<open>Information about the system\<close>

text \<open>The code terminates \<open>version\<close> three times, and \<open>arch\<close> and \<open>platform\<close> only where the copy does.\<close>

definition syscall_get_osinfo :: "isr_cpu_state \<Rightarrow> ('c, 's, 'm) skernel_scheme \<Rightarrow> (u32 \<times> ('c, 's, 'm) skernel_scheme) kres" where
  "syscall_get_osinfo state k =
     (let info = isr_ebx state
      in kbind (store_field info 16 KERNEL_NAME k) (\<lambda>k1.
         kbind (store_field (info + 32) 32 (kernel_version k) k1) (\<lambda>k2.
         kbind (strncpy_user (info + 16) (kernel_arch k) 16 k2) (\<lambda>k3.
         kbind (store_user (info + 32 + 15) [0] k3) (\<lambda>k4.
         kbind (strncpy_user (info + 64) (kernel_platform k) 16 k4) (\<lambda>k5.
         kbind (store_user (info + 32 + 15) [0] k5) (\<lambda>k6. Ret (0, k6))))))))"

definition syscall_get_meminfo :: "isr_cpu_state \<Rightarrow> ('c, 's, 'm) pkernel_scheme \<Rightarrow> (u32 \<times> ('c, 's, 'm) pkernel_scheme) kres" where
  "syscall_get_meminfo state k =
     (let info = isr_ebx state
      in kbind (store_user32 info (pmm_get_total_memory_size (mem_pmm (vm k))) k) (\<lambda>k1.
         kbind (store_user32 (info + 4) (pmm_get_available_memory_size (mem_pmm (vm k))) k1) (\<lambda>k2. Ret (0, k2))))"

definition syscall_get_terminfo :: "isr_cpu_state \<Rightarrow> ('c, 's, 'm) pkernel_scheme \<Rightarrow> (u32 \<times> ('c, 's, 'm) pkernel_scheme) kres" where
  "syscall_get_terminfo state k =
     (let info = isr_ebx state
      in if current_process k = 0 \<or> pr_out (cur k) = 0 then Ret (-1, k)
         else let tty = stream_data (streams k (pr_out (cur k)))
              in if tty = 0 then Ret (-1, k)
                 else kbind (store_user32 info (tty_rows (ttys k tty)) k) (\<lambda>k1.
                      kbind (store_user32 (info + 4) (tty_columns (ttys k tty)) k1) (\<lambda>k2. Ret (0, k2))))"

definition syscall_uptime :: "('c, 's, 'm) skernel_scheme \<Rightarrow> (u32 \<times> ('c, 's, 'm) skernel_scheme) kres" where
  "syscall_uptime k = kbind (timer_get_uptime k) (\<lambda>t. Ret (t, k))"

definition syscall_get_kheapinfo :: "isr_cpu_state \<Rightarrow> ('c, 's, 'm) pkernel_scheme \<Rightarrow> (u32 \<times> ('c, 's, 'm) pkernel_scheme) kres" where
  "syscall_get_kheapinfo state k =
     (let info = isr_ebx state
      in if info = 0 then Ret (-1, k)
         else kbind (store_user32 info kheap_get_total_memory_size k) (\<lambda>k1.
              kbind (or_hang (kheap_get_available_memory_size (k_heap k))) (\<lambda>n.
              kbind (store_user32 (info + 4) n k1) (\<lambda>k2. Ret (0, k2)))))"

text \<open>The entries at an index; -1 ends the enumeration.\<close>

definition syscall_lsvol :: "isr_cpu_state \<Rightarrow> ('c, 's, 'm) pkernel_scheme \<Rightarrow> (u32 \<times> ('c, 's, 'm) pkernel_scheme) kres" where
  "syscall_lsvol state k =
     (let info = isr_ecx state
      in if info = 0 then Ret (-1, k)
         else case list_get (volumes k) (isr_ebx state) of
                None \<Rightarrow> Ret (-1, k)
              | Some volume \<Rightarrow>
                  kbind (store_field info 64 (vol_name volume) k) (\<lambda>k1.
                  kbind (store_field (info + 64) 16 (vol_id volume) k1) (\<lambda>k2. Ret (0, k2))))"

definition syscall_lsdev_callback :: "u32 \<Rightarrow> device_manager \<Rightarrow> u32 \<Rightarrow> u32 \<times> u32 \<Rightarrow> u32 \<times> u32" where
  "syscall_lsdev_callback target_index m node = (\<lambda>(current_index, result).
     (current_index + 1,
      if current_index = target_index then tn_data (ts_node (device_nodes m) node) else result))"

definition syscall_lsdev :: "isr_cpu_state \<Rightarrow> ('c, 's, 'm) skernel_scheme \<Rightarrow> (u32 \<times> ('c, 's, 'm) skernel_scheme) kres" where
  "syscall_lsdev state k =
     (let info = isr_ecx state
      in if info = 0 then Ret (-1, k)
         else kbind (or_hang (generic_tree_foreach (device_tree (dm k)) (syscall_lsdev_callback (isr_ebx state) (dm k))
                      (device_nodes (dm k)) (0, 0))) (\<lambda>(n, device).
              if device = 0 then Ret (-1, k)
              else kbind (store_field info 64 (dvc_name (devices (dm k) device)) k) (\<lambda>k1.
                   kbind (store_field (info + 64) 16 (dvc_id (devices (dm k) device)) k1) (\<lambda>k2. Ret (0, k2)))))"

fun mounted_drive :: "u8 list \<Rightarrow> u32 \<Rightarrow> u32 \<Rightarrow> ('c, 'm) fkernel_scheme \<Rightarrow> u8 option" where
  "mounted_drive [] current_index index k = None"
| "mounted_drive (drive # ds) current_index index k =
     (if mnt_get_drive drive k \<noteq> 0
      then if current_index = index then Some drive else mounted_drive ds (current_index + 1) index k
      else mounted_drive ds current_index index k)"

definition DRIVES :: "u8 list" where "DRIVES = map of_nat [65..<91]"

definition syscall_lsmnt :: "isr_cpu_state \<Rightarrow> ('c, 's, 'm) pkernel_scheme \<Rightarrow> (u32 \<times> ('c, 's, 'm) pkernel_scheme) kres" where
  "syscall_lsmnt state k =
     (let info = isr_ecx state
      in if info = 0 then Ret (-1, k)
         else case mounted_drive DRIVES 0 (isr_ebx state) k of
                None \<Rightarrow> Ret (-1, k)
              | Some drive \<Rightarrow> kbind (store_user info [drive] k) (\<lambda>k1. Ret (0, k1)))"

definition syscall_dmesg :: "isr_cpu_state \<Rightarrow> ('c, 's, 'm) skernel_scheme \<Rightarrow> (u32 \<times> ('c, 's, 'm) skernel_scheme) kres" where
  "syscall_dmesg state k =
     (let entry = isr_ecx state
      in if entry = 0 then Ret (-1, k)
         else case list_get (kmessage_messages k) (isr_ebx state) of
                None \<Rightarrow> Ret (-1, k)
              | Some (level, message) \<Rightarrow>
                  kbind (store_field entry 16 level k) (\<lambda>k1.
                  kbind (store_field (entry + 16) 256 message k1) (\<lambda>k2. Ret (0, k2))))"

definition syscall_memmap :: "isr_cpu_state \<Rightarrow> ('c, 's, 'm) pkernel_scheme \<Rightarrow> (u32 \<times> ('c, 's, 'm) pkernel_scheme) kres" where
  "syscall_memmap state k =
     (let region = isr_ecx state
      in if region = 0 then Ret (-1, k)
         else case list_get (pmm_memory_regions (mem_pmm (vm k))) (isr_ebx state) of
                None \<Rightarrow> Ret (-1, k)
              | Some memory_region \<Rightarrow>
                  kbind (store_user32 region (region_base memory_region) k) (\<lambda>k1.
                  kbind (store_user32 (region + 4) (region_length memory_region) k1) (\<lambda>k2.
                  kbind (store_user32 (region + 8) (region_type memory_region) k2) (\<lambda>k3. Ret (0, k3)))))"

subsection \<open>Drives\<close>

text \<open>Only the low byte of \<open>ebx\<close> is the drive.\<close>

definition syscall_mount :: "'c ports \<Rightarrow> (nat \<Rightarrow> u8) \<Rightarrow> isr_cpu_state \<Rightarrow> ('c, 's, 'm) pkernel_scheme \<Rightarrow> (u32 \<times> ('c, 's, 'm) pkernel_scheme) kres" where
  "syscall_mount io junk state k =
     (let drive = ucast (isr_ebx state)
      in if isr_ecx state = 0 then Ret (-1, k)
         else kbind (user_string (isr_ecx state) (vm_of k)) (\<lambda>i.
              case volume_find_by_id i k of
                None \<Rightarrow> Ret (-1, k)
              | Some volume \<Rightarrow>
                  if mnt_get_drive drive k \<noteq> 0 then Ret (-2, k)
                  else kbind (mnt_volume_mount io junk drive volume k) (\<lambda>(e, k1).
                       Ret (if e \<noteq> 0 then -3 else 0, k1))))"

definition syscall_unmount :: "isr_cpu_state \<Rightarrow> ('c, 's, 'm) pkernel_scheme \<Rightarrow> (u32 \<times> ('c, 's, 'm) pkernel_scheme) kres" where
  "syscall_unmount state k =
     (let drive = ucast (isr_ebx state)
      in if mnt_get_drive drive k = 0 then Ret (-1, k)
         else kbind (mnt_volume_unmount drive k) (\<lambda>(e, k1). Ret (if e \<noteq> 0 then -2 else 0, k1)))"

subsection \<open>Power\<close>

definition ACPI_SLP_EN_CODE :: u16 where "ACPI_SLP_EN_CODE = 0x2000"

text \<open>When the machine stays on, \<open>acpi_poweroff\<close> ends without a value.\<close>

definition acpi_poweroff :: "'c ports \<Rightarrow> ('c \<Rightarrow> bool) \<Rightarrow> ('c, 's, 'm) skernel_scheme \<Rightarrow> (int \<times> ('c, 's, 'm) skernel_scheme) kres" where
  "acpi_poweroff io off k =
     (let i = acpi_poweroff_info k
      in if pm1a_cnt i = 0 then Ret (-1, k)
         else let c = outw io (ucast (pm1a_cnt i)) (ucast (slp_type_a i) OR ACPI_SLP_EN_CODE) (k_hw k)
              in if off c then Hang
                 else if pm1b_cnt i \<noteq> 0 \<and> off (outw io (ucast (pm1b_cnt i)) (ucast (slp_type_b i) OR ACPI_SLP_EN_CODE) c)
                 then Hang else Fault)"

definition syscall_poweroff :: "'c ports \<Rightarrow> ('c \<Rightarrow> bool) \<Rightarrow> ('c, 's, 'm) skernel_scheme \<Rightarrow> (u32 \<times> ('c, 's, 'm) skernel_scheme) kres" where
  "syscall_poweroff io off k = kbind (acpi_poweroff io off k) (\<lambda>(e, k1). Ret (of_int e, k1))"

subsection \<open>The heap of a process\<close>

definition set_user_heap :: "u32 \<Rightarrow> u32 \<Rightarrow> ('c, 's, 'm) pkernel_scheme \<Rightarrow> ('c, 's, 'm) pkernel_scheme" where
  "set_user_heap base limit k = set_process (current_process k) (\<lambda>p. p\<lparr>pr_heap_base := base, pr_heap_limit := limit\<rparr>) k"

text \<open>Without a current process the function ends without a value.\<close>

definition syscall_alloc_heap :: "isr_cpu_state \<Rightarrow> ('c, 's, 'm) pkernel_scheme \<Rightarrow> (u32 \<times> ('c, 's, 'm) pkernel_scheme) kres" where
  "syscall_alloc_heap state k =
     (let n_pages = isr_ebx state;
          heap_start = pr_heap_base (cur k);
          current_heap_end = pr_heap_limit (cur k)
      in if current_process k = 0 then Fault
         else if n_pages = 0 then Ret (current_heap_end, k)
         else kbind (with_vm (vmm_map_memory (if heap_start = 0 then 0 else current_heap_end + 1) (n_pages * PAGE_SIZE) 0 False True) k)
                (\<lambda>(block_begin, k1).
              if block_begin = 0 then Ret (0, k1)
              else let limit = block_begin + n_pages * PAGE_SIZE - 1
                   in Ret (limit, set_user_heap (if heap_start = 0 then block_begin else heap_start) limit k1)))"

subsection \<open>Processes\<close>

definition syscall_exit :: "isr_cpu_state \<Rightarrow> ('c, 's, 'm) pkernel_scheme \<Rightarrow> (flow \<times> ('c, 's, 'm) pkernel_scheme) kres" where
  "syscall_exit state k =
     (if current_process k = 0 then Hang
      else process_terminate (current_process k)
             (set_process (current_process k) (\<lambda>p. p\<lparr>pr_exit_code := isr_ebx state, pr_exception_code := -1\<rparr>) k))"

text \<open>The argument vector of the caller up to its NULL; the scan goes through the address space at most once.\<close>

fun user_words :: "nat \<Rightarrow> u32 \<Rightarrow> memory \<Rightarrow> u32 list kres" where
  "user_words 0 v s = Hang"
| "user_words (Suc n) v s =
     kbind (user_read32 v s) (\<lambda>w. if w = 0 then Ret [] else kbind (user_words n (v + 4) s) (\<lambda>ws. Ret (w # ws)))"

definition user_argv :: "u32 \<Rightarrow> memory \<Rightarrow> u32 list kres" where
  "user_argv v s = (if v = 0 then Ret [] else user_words 1073741824 v s)"

definition copy_string :: "u32 \<Rightarrow> ('c, 's, 'm) pkernel_scheme \<Rightarrow> ((u32 \<times> bytes) \<times> ('c, 's, 'm) pkernel_scheme) kres" where
  "copy_string v k =
     kbind (user_string v (vm_of k)) (\<lambda>s.
     kbind (kmalloc (of_nat (length s + 1)) (k_heap k)) (\<lambda>(p, h). Ret ((p, s), k\<lparr>k_heap := h\<rparr>)))"

text \<open>The copies made so far are released, in order, when the kernel heap is exhausted.\<close>

fun copy_strings :: "u32 list \<Rightarrow> u32 list \<Rightarrow> ('c, 's, 'm) pkernel_scheme \<Rightarrow>
    ((u32 \<times> bytes) list option \<times> ('c, 's, 'm) pkernel_scheme) kres" where
  "copy_strings copied [] k = Ret (Some [], k)"
| "copy_strings copied (v # vs) k =
     kbind (copy_string v k) (\<lambda>((p, s), k1).
     if p = 0 then Ret (None, fold k_free copied k1)
     else kbind (copy_strings (copied @ [p]) vs k1) (\<lambda>(r, k2).
          Ret (map_option ((#) (p, s)) r, k2)))"

text \<open>The copies of the path and the arguments: their blocks and their contents.\<close>

definition marshal :: "u32 \<Rightarrow> u32 \<Rightarrow> ('c, 's, 'm) pkernel_scheme \<Rightarrow>
    ((u32 list \<times> bytes \<times> bytes list) option \<times> ('c, 's, 'm) pkernel_scheme) kres" where
  "marshal user_path argv k =
     kbind (copy_string user_path k) (\<lambda>((kernel_path, path), k1).
     if kernel_path = 0 then Ret (None, k1)
     else kbind (user_argv argv (vm_of k1)) (\<lambda>vs.
          kbind (kmalloc (of_nat (max 1 (length vs)) * 4) (k_heap k1)) (\<lambda>(kernel_argv, h).
          let k2 = k1\<lparr>k_heap := h\<rparr>
          in if kernel_argv = 0 then Ret (None, k_free kernel_path k2)
             else kbind (copy_strings [] vs k2) (\<lambda>(r, k3).
                  case r of
                    None \<Rightarrow> Ret (None, k_free kernel_path (k_free kernel_argv k3))
                  | Some args \<Rightarrow> Ret (Some (map fst args @ [kernel_argv, kernel_path], path, map snd args), k3)))))"

definition syscall_spawn :: "'c ports \<Rightarrow> (nat \<Rightarrow> u8) \<Rightarrow> isr_cpu_state \<Rightarrow> ('c, 's, 'm) pkernel_scheme \<Rightarrow> (flow \<times> ('c, 's, 'm) pkernel_scheme) kres" where
  "syscall_spawn io junk state k =
     (let parent = current_process k; fail = Resume (state\<lparr>isr_eax := -1\<rparr>)
      in if parent = 0 \<or> isr_ebx state = 0 then Ret (fail, k)
         else kbind (marshal (isr_ebx state) (isr_ecx state) k) (\<lambda>(r, k1).
              case r of
                None \<Rightarrow> Ret (fail, k1)
              | Some (copies, path, argv) \<Rightarrow>
                  let P = processes k parent;
                      k2 = set_process parent (\<lambda>p. p\<lparr>pr_saved_state := state\<rparr>) k1
                  in kbind (process_create io junk (str ''child'') path argv (pr_out P) (pr_in P) (pr_err P) k2) (\<lambda>(child, k3).
                     let k4 = fold k_free copies k3
                     in if child = 0 then Ret (fail, k4)
                        else case process_start_child child parent k4 of
                               (Returned, k5) \<Rightarrow> Ret (Resume (state\<lparr>isr_eax := 0\<rparr>), k5)
                             | (f, k5) \<Rightarrow> Ret (f, k5))))"

subsection \<open>The handler\<close>

definition SYSCALL_READ :: u32 where "SYSCALL_READ = 0x00"
definition SYSCALL_WRITE :: u32 where "SYSCALL_WRITE = 0x01"
definition SYSCALL_OPEN :: u32 where "SYSCALL_OPEN = 0x02"
definition SYSCALL_CLOSE :: u32 where "SYSCALL_CLOSE = 0x03"
definition SYSCALL_GET_OSINFO :: u32 where "SYSCALL_GET_OSINFO = 0x04"
definition SYSCALL_GET_MEMINFO :: u32 where "SYSCALL_GET_MEMINFO = 0x05"
definition SYSCALL_GET_TERMINFO :: u32 where "SYSCALL_GET_TERMINFO = 0x06"
definition SYSCALL_ALLOC_HEAP :: u32 where "SYSCALL_ALLOC_HEAP = 0x0A"
definition SYSCALL_EXIT :: u32 where "SYSCALL_EXIT = 0x0B"
definition SYSCALL_OPENDIR :: u32 where "SYSCALL_OPENDIR = 0x0C"
definition SYSCALL_READDIR :: u32 where "SYSCALL_READDIR = 0x0D"
definition SYSCALL_CLOSEDIR :: u32 where "SYSCALL_CLOSEDIR = 0x0E"
definition SYSCALL_LSVOL :: u32 where "SYSCALL_LSVOL = 0x0F"
definition SYSCALL_POWEROFF :: u32 where "SYSCALL_POWEROFF = 0x10"
definition SYSCALL_LSDEV :: u32 where "SYSCALL_LSDEV = 0x11"
definition SYSCALL_LSMNT :: u32 where "SYSCALL_LSMNT = 0x12"
definition SYSCALL_MOUNT :: u32 where "SYSCALL_MOUNT = 0x13"
definition SYSCALL_UNMOUNT :: u32 where "SYSCALL_UNMOUNT = 0x14"
definition SYSCALL_DMESG :: u32 where "SYSCALL_DMESG = 0x15"
definition SYSCALL_UPTIME :: u32 where "SYSCALL_UPTIME = 0x16"
definition SYSCALL_MEMMAP :: u32 where "SYSCALL_MEMMAP = 0x17"
definition SYSCALL_GET_KHEAPINFO :: u32 where "SYSCALL_GET_KHEAPINFO = 0x18"
definition SYSCALL_SPAWN :: u32 where "SYSCALL_SPAWN = 0x19"

lemmas syscall_numbers =
  SYSCALL_READ_def SYSCALL_WRITE_def SYSCALL_OPEN_def SYSCALL_CLOSE_def SYSCALL_GET_OSINFO_def
  SYSCALL_GET_MEMINFO_def SYSCALL_GET_TERMINFO_def SYSCALL_ALLOC_HEAP_def SYSCALL_EXIT_def SYSCALL_OPENDIR_def
  SYSCALL_READDIR_def SYSCALL_CLOSEDIR_def SYSCALL_LSVOL_def SYSCALL_POWEROFF_def SYSCALL_LSDEV_def
  SYSCALL_LSMNT_def SYSCALL_MOUNT_def SYSCALL_UNMOUNT_def SYSCALL_DMESG_def SYSCALL_UPTIME_def
  SYSCALL_MEMMAP_def SYSCALL_GET_KHEAPINFO_def SYSCALL_SPAWN_def

text \<open>The calls that return a value for \<open>eax\<close>; an unknown number gives -1.\<close>

definition syscall_value :: "'c ports \<Rightarrow> 's video_driver \<Rightarrow> (nat \<Rightarrow> u8) \<Rightarrow> ('c \<Rightarrow> bool) \<Rightarrow> isr_cpu_state \<Rightarrow>
    ('c, 's, 'm) skernel_scheme \<Rightarrow> (u32 \<times> ('c, 's, 'm) skernel_scheme) kres" where
  "syscall_value io drv junk off state k =
     (let syscall = isr_eax state
      in if syscall = SYSCALL_READ then syscall_read io state k
         else if syscall = SYSCALL_WRITE then syscall_write drv state k
         else if syscall = SYSCALL_OPEN then syscall_open io junk state k
         else if syscall = SYSCALL_CLOSE then syscall_close state k
         else if syscall = SYSCALL_GET_OSINFO then syscall_get_osinfo state k
         else if syscall = SYSCALL_GET_MEMINFO then syscall_get_meminfo state k
         else if syscall = SYSCALL_GET_TERMINFO then syscall_get_terminfo state k
         else if syscall = SYSCALL_ALLOC_HEAP then syscall_alloc_heap state k
         else if syscall = SYSCALL_OPENDIR then syscall_opendir io junk state k
         else if syscall = SYSCALL_READDIR then syscall_readdir io junk state k
         else if syscall = SYSCALL_CLOSEDIR then syscall_closedir state k
         else if syscall = SYSCALL_LSVOL then syscall_lsvol state k
         else if syscall = SYSCALL_POWEROFF then syscall_poweroff io off k
         else if syscall = SYSCALL_LSDEV then syscall_lsdev state k
         else if syscall = SYSCALL_LSMNT then syscall_lsmnt state k
         else if syscall = SYSCALL_MOUNT then syscall_mount io junk state k
         else if syscall = SYSCALL_UNMOUNT then syscall_unmount state k
         else if syscall = SYSCALL_DMESG then syscall_dmesg state k
         else if syscall = SYSCALL_UPTIME then syscall_uptime k
         else if syscall = SYSCALL_MEMMAP then syscall_memmap state k
         else if syscall = SYSCALL_GET_KHEAPINFO then syscall_get_kheapinfo state k
         else Ret (-1, k))"

definition syscall_handler :: "'c ports \<Rightarrow> 's video_driver \<Rightarrow> (nat \<Rightarrow> u8) \<Rightarrow> ('c \<Rightarrow> bool) \<Rightarrow> isr_cpu_state \<Rightarrow>
    ('c, 's, 'm) skernel_scheme \<Rightarrow> (flow \<times> ('c, 's, 'm) skernel_scheme) kres" where
  "syscall_handler io drv junk off state k =
     (if isr_eax state = SYSCALL_EXIT then syscall_exit state k
      else if isr_eax state = SYSCALL_SPAWN then syscall_spawn io junk state k
      else kbind (syscall_value io drv junk off state k) (\<lambda>(r, k1). Ret (Resume (state\<lparr>isr_eax := r\<rparr>), k1)))"

end
