(* ===== verification/Syscall_Props.thy ===== *)
theory Syscall_Props
  imports Syscall Process_Life
begin

text \<open>
  Properties of the system calls: what the calls that enumerate tables store for their caller, the
  descriptor table, output, the growth of the heap of a process, and the argument vector of a new process.
\<close>

subsection \<open>Stores to the memory of the caller\<close>

definition stores :: "('c, 's, 'm) pkernel_scheme \<Rightarrow> u32 \<Rightarrow> bytes \<Rightarrow> ('c, 's, 'm) pkernel_scheme \<Rightarrow> bool" where
  "stores k v bs k' \<longleftrightarrow> (\<exists>s'. k' = set_vm s' k \<and> writes_range (vm_of k) v (length bs) (\<lambda>i. bs ! i) s')"

lemma vm_of_set_vm [simp]: "vm_of (set_vm s k) = s" "set_vm s (set_vm t k) = set_vm s k"
  by (simp_all add: vm_of_def set_vm_def)

text \<open>A buffer of the caller: \<open>n\<close> bytes of mapped user memory.\<close>

definition user_buffer :: "('c, 's, 'm) pkernel_scheme \<Rightarrow> u32 \<Rightarrow> nat \<Rightarrow> bool" where
  "user_buffer k v n \<longleftrightarrow> user_ok (vm_of k) \<and> user_range (vm_of k) v n \<and> unat v + n \<le> 4294967296"

lemma user_range_part:
  assumes "user_range s v n" and "m + l \<le> n"
  shows "user_range s (v + of_nat m) l"
  using assms unfolding user_range_def
proof (intro allI impI)
  fix i assume a: "\<forall>i < n. page_of (v + of_nat i) \<in> user_pages s" and "i < l"
  then have "m + i < n" using assms(2) by simp
  then have "page_of (v + of_nat (m + i)) \<in> user_pages s" using a by blast
  then show "page_of (v + of_nat m + of_nat i) \<in> user_pages s" by (simp add: add.assoc)
qed

lemma user_buffer_part:
  assumes b: "user_buffer k v n" and m: "m + l \<le> n" and l: "0 < l"
  shows "user_buffer k (v + of_nat m) l" and "unat (v + of_nat m) = unat v + m"
proof -
  have e: "m < 4294967296" "unat v + m < 4294967296" using b m l unfolding user_buffer_def by linarith+
  then show u: "unat (v + of_nat m) = unat v + m" by (subst unat_u32_add_small) simp_all
  show "user_buffer k (v + of_nat m) l" using b m user_range_part [of "vm_of k" v n m l] unfolding user_buffer_def u by auto
qed

lemma stores_buffer: "stores k v bs k' \<Longrightarrow> user_buffer k w n \<Longrightarrow> user_buffer k' w n"
  unfolding stores_def user_buffer_def writes_range_def by (auto simp: user_range_same)

lemma store_user_stores:
  assumes "user_buffer k v (length bs)"
  shows "returns (store_user v bs k) (stores k v bs)"
proof -
  have "returns (user_write v bs (vm_of k)) (writes_range (vm_of k) v (length bs) (\<lambda>i. bs ! i))"
    using assms unfolding user_buffer_def by (intro user_write_range) auto
  then show ?thesis unfolding store_user_def by (rule returns_bind) (auto simp: stores_def)
qed

text \<open>Consecutive stores are one store, and a store inside a stored range replaces its part.\<close>

lemma stores_append:
  assumes "stores k v as k1" and "stores k1 (v + of_nat (length as)) bs k2" and "unat v + length (as @ bs) \<le> 4294967296"
    and "bs \<noteq> []"
  shows "stores k v (as @ bs) k2"
proof -
  obtain s1 s2 where s: "k1 = set_vm s1 k" "writes_range (vm_of k) v (length as) (\<lambda>i. as ! i) s1"
    "k2 = set_vm s2 k1" "writes_range s1 (v + of_nat (length as)) (length bs) (\<lambda>i. bs ! i) s2"
    using assms(1,2) by (auto simp: stores_def)
  have "writes_range (vm_of k) v (length as + length bs) (\<lambda>i. if i < length as then as ! i else bs ! (i - length as)) s2"
    by (rule writes_range_append [OF s(2,4)]) (use assms(3,4) in auto)
  then have "writes_range (vm_of k) v (length (as @ bs)) (\<lambda>i. (as @ bs) ! i) s2"
    by (auto intro: writes_range_cong simp: nth_append)
  then show ?thesis using s(1,3) by (auto simp: stores_def)
qed

lemma stores_inside:
  assumes "stores k v (as @ cs @ bs) k1" and "stores k1 (v + of_nat (length as)) ds k2" and "length ds = length cs"
    and "ds \<noteq> []" and "unat v + length (as @ cs @ bs) \<le> 4294967296"
  shows "stores k v (as @ ds @ bs) k2"
proof -
  obtain s1 s2 where s: "k1 = set_vm s1 k" "writes_range (vm_of k) v (length (as @ cs @ bs)) (\<lambda>i. (as @ cs @ bs) ! i) s1"
    "k2 = set_vm s2 k1" "writes_range s1 (v + of_nat (length as)) (length ds) (\<lambda>i. ds ! i) s2"
    using assms(1,2) by (auto simp: stores_def)
  have "length as < 4294967296" "unat v + length as < 4294967296"
    using assms(3-5) by (cases ds; simp)+
  then have u: "unat (v + of_nat (length as)) = unat v + length as" by (subst unat_u32_add_small) simp_all
  have n: "(as @ ds @ bs) ! i = (if length as \<le> i \<and> i < length as + length ds then ds ! (i - length as) else (as @ cs @ bs) ! i)" for i
    using assms(3) by (auto simp: nth_append less_diff_conv2 not_less)
  have "user_memory s2 w = (if unat v \<le> unat w \<and> unat w < unat v + length (as @ ds @ bs)
      then Some ((as @ ds @ bs) ! (unat w - unat v)) else user_memory (vm_of k) w)" for w
  proof (cases "unat v \<le> unat w \<and> unat w < unat v + length (as @ ds @ bs)")
    case True
    define i where "i = unat w - unat v"
    have w: "unat w = unat v + i" using True by (simp add: i_def)
    have "user_memory s1 w = Some ((as @ cs @ bs) ! i)" using s(2) True assms(3) by (simp add: writes_range_def w)
    moreover have "user_memory s2 w = (if length as \<le> i \<and> i < length as + length ds then Some (ds ! (i - length as)) else user_memory s1 w)"
      using s(4) by (simp add: writes_range_def u w)
    ultimately show ?thesis unfolding n using True by (simp add: w)
  next
    case False
    have "user_memory s2 w = user_memory s1 w" using s(4) False unfolding writes_range_def u by auto
    moreover have "user_memory s1 w = user_memory (vm_of k) w" using s(2) False assms(3) unfolding writes_range_def by auto
    ultimately show ?thesis using False by auto
  qed
  then have "writes_range (vm_of k) v (length (as @ ds @ bs)) (\<lambda>i. (as @ ds @ bs) ! i) s2"
    using s(2,4) unfolding writes_range_def by (auto intro: same_maps_trans)
  then show ?thesis using s(1,3) by (auto simp: stores_def)
qed

text \<open>A string field: what fits of the string, and zeros up to the end.\<close>

definition field :: "nat \<Rightarrow> bytes \<Rightarrow> bytes" where
  "field n s = take (n - 1) (s @ replicate n 0) @ [0]"

lemma length_field [simp]: "0 < n \<Longrightarrow> length (field n s) = n"
  by (simp add: field_def)

lemma field_nonempty [simp]: "field n s \<noteq> []"
  by (simp add: field_def)

lemma store_field_stores:
  assumes "user_buffer k v n" and "0 < n"
  shows "returns (store_field v n s k) (stores k v (field n s))"
  unfolding store_field_def strncpy_user_def
proof (rule returns_bind)
  let ?x = "take n (s @ replicate n 0)"
  have "length ?x = n" by (simp add: min_def)
  then show "returns (store_user v ?x k) (stores k v ?x)" using assms by (intro store_user_stores) (simp only:)
  fix k1 assume k1: "stores k v ?x k1"
  have x: "?x = take (n - 1) (s @ replicate n 0) @ [(s @ replicate n 0) ! (n - 1)] @ []"
    using assms(2) take_Suc_conv_app_nth [of "n - 1" "s @ replicate n 0"] by simp
  have b: "user_buffer k (v + of_nat (n - 1)) 1" using user_buffer_part(1) [OF assms(1), of "n - 1" 1] assms(2) by simp
  have "returns (store_user (v + of_nat (n - 1)) [0] k1) (stores k1 (v + of_nat (n - 1)) [0])"
    using stores_buffer [OF k1 b] by (intro store_user_stores) simp
  then show "returns (store_user (v + of_nat (n - 1)) [0] k1) (stores k v (field n s))"
  proof (rule returns_mono)
    let ?a = "take (n - 1) (s @ replicate n 0)"
    fix k2 assume k2: "stores k1 (v + of_nat (n - 1)) [0] k2"
    have l: "length ?a = n - 1" using assms(2) by (subst length_take, subst min_absorb2) auto
    have "stores k v (?a @ [0] @ []) k2"
      by (rule stores_inside [OF k1 [unfolded x]])
        (use k2 assms in \<open>simp_all only: l length_append list.size user_buffer_def, simp_all\<close>)
    then show "stores k v (field n s) k2" by (simp only: field_def append_Nil2)
  qed
qed

text \<open>A store behind what has been stored before, the shape of all calls that fill a structure.\<close>

lemma store_next:
  assumes "stores k v as k1" and "user_buffer k v (length as + n)" and "0 < n"
    and "user_buffer k1 (v + of_nat (length as)) n \<Longrightarrow> returns (f k1) (stores k1 (v + of_nat (length as)) bs)" and "length bs = n"
  shows "returns (f k1) (stores k v (as @ bs))"
proof (rule returns_mono [OF assms(4)])
  show "user_buffer k1 (v + of_nat (length as)) n"
    using stores_buffer [OF assms(1)] user_buffer_part(1) [OF assms(2), of "length as" n] assms(3) by simp
  fix k2 assume "stores k1 (v + of_nat (length as)) bs k2"
  then show "stores k v (as @ bs) k2"
    using stores_append [OF assms(1)] assms(2,3,5) by (auto simp: user_buffer_def)
qed

subsection \<open>Enumerations\<close>

text \<open>The structures that the calls fill.\<close>

definition volinfo :: "volume \<Rightarrow> bytes" where
  "volinfo v = field 64 (vol_name v) @ field 16 (vol_id v)"

definition devinfo :: "device_manager \<Rightarrow> u32 \<Rightarrow> bytes" where
  "devinfo m d = field 64 (dvc_name (devices m d)) @ field 16 (dvc_id (devices m d))"

definition dmesg_entry :: "bytes \<times> bytes \<Rightarrow> bytes" where
  "dmesg_entry e = field 16 (fst e) @ field 256 (snd e)"

definition memregion :: "pmm_memory_region \<Rightarrow> bytes" where
  "memregion r = enc32 (region_base r) @ enc32 (region_length r) @ enc32 (region_type r)"

definition mounted_drives :: "('c, 'm) fkernel_scheme \<Rightarrow> u8 list" where
  "mounted_drives k = filter (\<lambda>d. mnt_get_drive d k \<noteq> 0) DRIVES"

text \<open>The contract: the entry at the index in \<open>ebx\<close> is stored at \<open>ecx\<close>, and -1 ends the enumeration.\<close>

definition enumerated :: "'a list \<Rightarrow> ('a \<Rightarrow> bytes) \<Rightarrow> isr_cpu_state \<Rightarrow> ('c, 's, 'm) pkernel_scheme \<Rightarrow>
    (u32 \<times> ('c, 's, 'm) pkernel_scheme) kres \<Rightarrow> bool" where
  "enumerated xs enc state k r \<longleftrightarrow>
     (let i = unat (isr_ebx state)
      in if i < length xs then returns r (\<lambda>(e, k'). e = 0 \<and> stores k (isr_ecx state) (enc (xs ! i)) k')
         else r = Ret (-1, k))"

lemma enumerated_list_get:
  assumes "\<And>x. returns (f x) (\<lambda>(e, k'). e = 0 \<and> stores k (isr_ecx state) (enc x) k')"
  shows "enumerated xs enc state k (case list_get xs (isr_ebx state) of None \<Rightarrow> Ret (-1, k) | Some x \<Rightarrow> f x)"
  using assms by (simp add: enumerated_def list_get_def Let_def)

lemma enumerated_cong: "r = r' \<Longrightarrow> enumerated xs enc state k r' \<Longrightarrow> enumerated xs enc state k r"
  by simp

lemma returns_done: "returns m (stores k v bs) \<Longrightarrow> returns (kbind m (\<lambda>k'. Ret (0, k'))) (\<lambda>(e, k'). e = 0 \<and> stores k v bs k')"
  by (rule returns_bind) auto

lemma user_buffer_prefix: "user_buffer k v n \<Longrightarrow> m \<le> n \<Longrightarrow> user_buffer k v m"
  by (auto simp: user_buffer_def user_range_def)

lemma user_buffer_fits: "user_buffer k v n \<Longrightarrow> unat v + n \<le> 4294967296"
  by (simp add: user_buffer_def)

lemma two_fields_store:
  assumes b: "user_buffer k v (n + m)" and n: "0 < n" "0 < m"
  shows "returns (kbind (store_field v n s k) (\<lambda>k1. kbind (store_field (v + of_nat n) m t k1) (\<lambda>k2. Ret (0, k2))))
    (\<lambda>(e, k'). e = 0 \<and> stores k v (field n s @ field m t) k')"
proof (rule returns_bind [OF store_field_stores])
  show "user_buffer k v n" by (rule user_buffer_prefix [OF b]) simp
  fix k1 assume k1: "stores k v (field n s) k1"
  have "returns (store_field (v + of_nat n) m t k1) (stores k v (field n s @ field m t))"
    by (rule store_next [OF k1, where f = "\<lambda>k1. store_field (v + of_nat n) m t k1" and n = m])
      (use assms store_field_stores in auto)
  then show "returns (kbind (store_field (v + of_nat n) m t k1) (\<lambda>k2. Ret (0, k2)))
    (\<lambda>(e, k'). e = 0 \<and> stores k v (field n s @ field m t) k')" by (rule returns_done)
qed (use n in simp)

lemma lsvol_enumerates:
  assumes "user_buffer k (isr_ecx state) 80" and "isr_ecx state \<noteq> 0"
  shows "enumerated (volumes k) volinfo state k (syscall_lsvol state k)"
proof (rule enumerated_cong)
  show "syscall_lsvol state k = (case list_get (volumes k) (isr_ebx state) of None \<Rightarrow> Ret (-1, k) | Some v \<Rightarrow>
      kbind (store_field (isr_ecx state) 64 (vol_name v) k) (\<lambda>k1.
      kbind (store_field (isr_ecx state + 64) 16 (vol_id v) k1) (\<lambda>k2. Ret (0, k2))))"
    using assms(2) by (simp add: syscall_lsvol_def Let_def)
  show "enumerated (volumes k) volinfo state k \<dots>"
    by (rule enumerated_list_get) (use two_fields_store [of k "isr_ecx state" 64 16] assms in \<open>simp add: volinfo_def\<close>)
qed

lemma dmesg_enumerates:
  assumes "user_buffer k (isr_ecx state) 272" and "isr_ecx state \<noteq> 0"
  shows "enumerated (kmessage_messages k) dmesg_entry state k (syscall_dmesg state k)"
proof (rule enumerated_cong)
  show "syscall_dmesg state k = (case list_get (kmessage_messages k) (isr_ebx state) of None \<Rightarrow> Ret (-1, k) | Some e \<Rightarrow>
      kbind (store_field (isr_ecx state) 16 (fst e) k) (\<lambda>k1.
      kbind (store_field (isr_ecx state + 16) 256 (snd e) k1) (\<lambda>k2. Ret (0, k2))))"
    using assms(2) by (auto simp: syscall_dmesg_def Let_def split: option.split)
  show "enumerated (kmessage_messages k) dmesg_entry state k \<dots>"
    by (rule enumerated_list_get) (use two_fields_store [of k "isr_ecx state" 16 256] assms in \<open>simp add: dmesg_entry_def\<close>)
qed

lemma store_user32_stores: "user_buffer k v 4 \<Longrightarrow> returns (store_user32 v x k) (stores k v (enc32 x))"
  unfolding store_user32_def by (rule store_user_stores) simp

lemma store_user32_next:
  assumes "stores k v as k1" and "user_buffer k v (length as + 4)"
  shows "returns (store_user32 (v + of_nat (length as)) x k1) (stores k v (as @ enc32 x))"
  by (rule store_next [OF assms, where f = "\<lambda>k1. store_user32 (v + of_nat (length as)) x k1"]) (auto intro: store_user32_stores)

lemma memmap_enumerates:
  assumes b: "user_buffer k (isr_ecx state) 12" and z: "isr_ecx state \<noteq> 0"
  shows "enumerated (pmm_memory_regions (mem_pmm (vm k))) memregion state k (syscall_memmap state k)"
proof (rule enumerated_cong)
  let ?f = "\<lambda>r. kbind (store_user32 (isr_ecx state) (region_base r) k) (\<lambda>k1.
      kbind (store_user32 (isr_ecx state + 4) (region_length r) k1) (\<lambda>k2.
      kbind (store_user32 (isr_ecx state + 8) (region_type r) k2) (\<lambda>k3. Ret (0, k3))))"
  show "syscall_memmap state k = (case list_get (pmm_memory_regions (mem_pmm (vm k))) (isr_ebx state) of
      None \<Rightarrow> Ret (-1, k) | Some r \<Rightarrow> ?f r)"
    using z by (simp add: syscall_memmap_def Let_def)
  show "enumerated (pmm_memory_regions (mem_pmm (vm k))) memregion state k \<dots>"
  proof (rule enumerated_list_get)
    fix r
    have b': "user_buffer k (isr_ecx state) 4" "user_buffer k (isr_ecx state) 8"
      using user_buffer_prefix [OF b] by simp_all
    show "returns (?f r) (\<lambda>(e, k'). e = 0 \<and> stores k (isr_ecx state) (memregion r) k')"
    proof (intro returns_bind [OF store_user32_stores [OF b'(1)]])
      fix k1 assume k1: "stores k (isr_ecx state) (enc32 (region_base r)) k1"
      show "returns (kbind (store_user32 (isr_ecx state + 4) (region_length r) k1) (\<lambda>k2.
          kbind (store_user32 (isr_ecx state + 8) (region_type r) k2) (\<lambda>k3. Ret (0, k3))))
        (\<lambda>(e, k'). e = 0 \<and> stores k (isr_ecx state) (memregion r) k')"
      proof (rule returns_bind)
        show "returns (store_user32 (isr_ecx state + 4) (region_length r) k1)
            (stores k (isr_ecx state) (enc32 (region_base r) @ enc32 (region_length r)))"
          using store_user32_next [OF k1] b'(2) by simp
        fix k2 assume k2: "stores k (isr_ecx state) (enc32 (region_base r) @ enc32 (region_length r)) k2"
        show "returns (kbind (store_user32 (isr_ecx state + 8) (region_type r) k2) (\<lambda>k3. Ret (0, k3)))
          (\<lambda>(e, k'). e = 0 \<and> stores k (isr_ecx state) (memregion r) k')"
          by (rule returns_done) (use store_user32_next [OF k2] b in \<open>simp add: memregion_def\<close>)
      qed
    qed
  qed
qed

text \<open>The drives and the devices: the loops find the entry with the index.\<close>

lemma mounted_drive_correct:
  "mounted_drive ds c i k = (let xs = filter (\<lambda>d. mnt_get_drive d k \<noteq> 0) ds
     in if unat c + length xs \<le> 4294967295 \<and> unat c \<le> unat i
        then if unat i - unat c < length xs then Some (xs ! (unat i - unat c)) else None
        else mounted_drive ds c i k)"
proof (induction ds arbitrary: c)
  case (Cons d ds)
  let ?xs = "filter (\<lambda>d. mnt_get_drive d k \<noteq> 0) ds"
  have "mounted_drive (d # ds) c i k = (if unat i - unat c < length (d # ?xs) then Some ((d # ?xs) ! (unat i - unat c)) else None)"
    if m: "mnt_get_drive d k \<noteq> 0" and l: "unat c + length (d # ?xs) \<le> 4294967295" "unat c \<le> unat i" and n: "c \<noteq> i"
  proof -
    have u: "unat (c + 1) = unat c + 1" using l(1) by (subst unat_u32_add_small) simp_all
    have ci: "unat c < unat i" using n l(2) by (simp add: u32_eq_iff)
    have "mounted_drive ds (c + 1) i k = (if unat i - unat (c + 1) < length ?xs then Some (?xs ! (unat i - unat (c + 1))) else None)"
      using Cons [of "c + 1"] l ci by (simp add: Let_def u)
    moreover have "unat i - unat c = Suc (unat i - unat (c + 1))" using ci by (simp add: u)
    ultimately show ?thesis using m n by simp
  qed
  then show ?case using Cons [of c] by (auto simp: Let_def)
qed simp

lemma lsmnt_enumerates:
  assumes b: "user_buffer k (isr_ecx state) 1" and z: "isr_ecx state \<noteq> 0"
  shows "enumerated (mounted_drives k) (\<lambda>d. [d]) state k (syscall_lsmnt state k)"
proof -
  have "length (mounted_drives k) \<le> length DRIVES" unfolding mounted_drives_def by (rule length_filter_le)
  then have "length (mounted_drives k) \<le> 4294967295" by (simp add: DRIVES_def)
  then have "mounted_drive DRIVES 0 (isr_ebx state) k = list_get (mounted_drives k) (isr_ebx state)"
    using mounted_drive_correct [of DRIVES 0 "isr_ebx state" k] by (simp add: mounted_drives_def list_get_def Let_def)
  then have "syscall_lsmnt state k = (case list_get (mounted_drives k) (isr_ebx state) of None \<Rightarrow> Ret (-1, k) | Some d \<Rightarrow>
      kbind (store_user (isr_ecx state) [d] k) (\<lambda>k1. Ret (0, k1)))" using z by (simp add: syscall_lsmnt_def Let_def)
  moreover have "enumerated (mounted_drives k) (\<lambda>d. [d]) state k \<dots>"
    by (rule enumerated_list_get) (use b in \<open>intro returns_done store_user_stores, simp\<close>)
  ultimately show ?thesis by (rule enumerated_cong)
qed
text \<open>The callback of \<open>syscall_lsdev\<close> over the nodes in preorder.\<close>

lemma lsdev_fold:
  "unat c + length as \<le> 4294967295 \<Longrightarrow>
   fold (syscall_lsdev_callback i m) as (c, r) = (c + of_nat (length as),
     if unat c \<le> unat i \<and> unat i - unat c < length as then tn_data (ts_node (device_nodes m) (as ! (unat i - unat c))) else r)"
proof (induction as arbitrary: c r)
  case (Cons a as)
  have u: "unat (c + 1) = unat c + 1" using Cons.prems by (subst unat_u32_add_small) simp_all
  have "unat c = unat i \<longleftrightarrow> c = i" by (simp add: u32_eq_iff)
  moreover have "unat i - unat c = Suc (unat i - unat (c + 1))" if "unat c < unat i" using that by (simp add: u)
  ultimately show ?case using Cons.IH [of "c + 1"] Cons.prems
    by (auto simp: syscall_lsdev_callback_def u add.assoc)
qed simp

lemma lsdev_enumerates:
  assumes b: "user_buffer k (isr_ecx state) 80" and z: "isr_ecx state \<noteq> 0" and inv: "dm_inv (dm k) k ts"
  shows "enumerated (devs ts) (devinfo (dm k)) state k (syscall_lsdev state k)"
proof (rule enumerated_cong)
  let ?i = "isr_ebx state" and ?N = "device_nodes (dm k)"
  have t: "tree_repr ?N (device_tree (dm k)) ts" and nz: "0 \<notin> set (devs ts)" using inv by (simp_all add: dm_inv_def)
  have "distinct (addrs ts)" using t by (simp add: tree_repr_def)
  then have "length (addrs ts) = card (set (addrs ts))" by (rule distinct_card [symmetric])
  also have "0 \<notin> set (addrs ts)" using t unfolding tree_repr_def by (blast dest: forest_at_addrs)
  then have "set (addrs ts) \<subseteq> UNIV - {0}" by (simp add: subset_Diff_insert del: set_map)
  then have "card (set (addrs ts)) \<le> card (UNIV - {0 :: u32})" by (intro card_mono) simp_all
  also have "\<dots> = 4294967295" by (simp add: card_word)
  finally have l: "length (addrs ts) \<le> 4294967295" .
  have d: "map (\<lambda>a. tn_data (ts_node ?N a)) (addrs ts) = devs ts"
    using tree_repr_data [OF t] by (auto simp: devs_def)
  have "fold (syscall_lsdev_callback ?i (dm k)) (addrs ts) (0, 0) = (of_nat (length (addrs ts)),
      case list_get (devs ts) ?i of None \<Rightarrow> 0 | Some d \<Rightarrow> d)"
    unfolding d [symmetric] using lsdev_fold [of 0 "addrs ts" ?i "dm k" 0] l by (simp add: list_get_def)
  then have "generic_tree_foreach (device_tree (dm k)) (syscall_lsdev_callback ?i (dm k)) ?N (0, 0) =
      Some (of_nat (length (addrs ts)), case list_get (devs ts) ?i of None \<Rightarrow> 0 | Some d \<Rightarrow> d)"
    by (simp only: generic_tree_operations(2) [OF t])
  moreover have "d \<noteq> 0" if "list_get (devs ts) ?i = Some d" for d
    using that nz by (auto simp: list_get_def split: if_splits) (metis nth_mem)
  ultimately show "syscall_lsdev state k = (case list_get (devs ts) ?i of None \<Rightarrow> Ret (-1, k) | Some d \<Rightarrow>
      kbind (store_field (isr_ecx state) 64 (dvc_name (devices (dm k) d)) k) (\<lambda>k1.
      kbind (store_field (isr_ecx state + 64) 16 (dvc_id (devices (dm k) d)) k1) (\<lambda>k2. Ret (0, k2))))"
    using z by (simp add: syscall_lsdev_def Let_def split: option.split)
  show "enumerated (devs ts) (devinfo (dm k)) state k \<dots>"
    by (rule enumerated_list_get) (use two_fields_store [of k "isr_ecx state" 64 16] b in \<open>simp add: devinfo_def\<close>)
qed
definition handler_enumerates :: "'c ports \<Rightarrow> 's video_driver \<Rightarrow> (nat \<Rightarrow> u8) \<Rightarrow> ('c \<Rightarrow> bool) \<Rightarrow> isr_cpu_state \<Rightarrow>
    ('c, 's, 'm) skernel_scheme \<Rightarrow> u32 \<Rightarrow> 'a list \<Rightarrow> ('a \<Rightarrow> bytes) \<Rightarrow> bool" where
  "handler_enumerates io drv junk off state k syscall xs enc \<longleftrightarrow>
     (let st = state\<lparr>isr_eax := syscall\<rparr>; i = unat (isr_ebx state); r = syscall_handler io drv junk off st k
      in if i < length xs
         then returns r (\<lambda>(f, k'). f = Resume (st\<lparr>isr_eax := 0\<rparr>) \<and> stores k (isr_ecx state) (enc (xs ! i)) k')
         else r = Ret (Resume (st\<lparr>isr_eax := -1\<rparr>), k))"

lemma handler_enumeratesI:
  assumes "enumerated xs enc (state\<lparr>isr_eax := n\<rparr>) k (syscall_value io drv junk off (state\<lparr>isr_eax := n\<rparr>) k)"
    and "n \<noteq> SYSCALL_EXIT" and "n \<noteq> SYSCALL_SPAWN"
  shows "handler_enumerates io drv junk off state k n xs enc"
proof (cases "unat (isr_ebx state) < length xs")
  case True
  then have r: "returns (syscall_value io drv junk off (state\<lparr>isr_eax := n\<rparr>) k)
    (\<lambda>(e, k'). e = 0 \<and> stores k (isr_ecx state) (enc (xs ! unat (isr_ebx state))) k')"
    using assms(1) by (simp add: enumerated_def Let_def)
  have "returns (kbind (syscall_value io drv junk off (state\<lparr>isr_eax := n\<rparr>) k) (\<lambda>(r, k1). Ret (Resume (state\<lparr>isr_eax := r\<rparr>), k1)))
    (\<lambda>(f, k'). f = Resume (state\<lparr>isr_eax := 0\<rparr>) \<and> stores k (isr_ecx state) (enc (xs ! unat (isr_ebx state))) k')"
    by (rule returns_bind [OF r]) auto
  then show ?thesis using True assms(2,3) by (simp add: handler_enumerates_def syscall_handler_def Let_def)
next
  case False
  then show ?thesis using assms by (simp add: enumerated_def handler_enumerates_def syscall_handler_def Let_def)
qed

text \<open>
  C38. The system calls that enumerate volumes, devices, mounted drives, memory regions and kernel messages:
  called with an index in \<open>ebx\<close> and a buffer of the caller in \<open>ecx\<close>, the handler stores the entry with this
  index there (the devices in preorder, the drives in alphabetical order; strings are cut to their field
  and terminated) and returns 0, and changes no other byte of the caller and nothing in the kernel. Past
  the last entry it returns -1 and stores nothing.
\<close>

theorem enumeration_calls:
  assumes "user_buffer k (isr_ecx state) 272" and "isr_ecx state \<noteq> 0" and "dm_inv (dm k) k ts"
  shows "handler_enumerates io drv junk off state k SYSCALL_LSVOL (volumes k) volinfo \<and>
    handler_enumerates io drv junk off state k SYSCALL_LSDEV (devs ts) (devinfo (dm k)) \<and>
    handler_enumerates io drv junk off state k SYSCALL_LSMNT (mounted_drives k) (\<lambda>d. [d]) \<and>
    handler_enumerates io drv junk off state k SYSCALL_MEMMAP (pmm_memory_regions (mem_pmm (vm k))) memregion \<and>
    handler_enumerates io drv junk off state k SYSCALL_DMESG (kmessage_messages k) dmesg_entry"
proof (intro conjI)
  let ?st = "\<lambda>n. state\<lparr>isr_eax := n\<rparr>"
  have b: "user_buffer k (isr_ecx (?st n)) m" if "m \<le> 272" for n m using user_buffer_prefix [OF assms(1) that] by simp
  have z: "isr_ecx (?st n) \<noteq> 0" for n using assms(2) by simp
  show "handler_enumerates io drv junk off state k SYSCALL_LSVOL (volumes k) volinfo"
    by (rule handler_enumeratesI) (use lsvol_enumerates [OF b z] in \<open>simp_all add: syscall_value_def syscall_numbers\<close>)
  show "handler_enumerates io drv junk off state k SYSCALL_LSDEV (devs ts) (devinfo (dm k))"
    by (rule handler_enumeratesI) (use lsdev_enumerates [OF b z assms(3)] in \<open>simp_all add: syscall_value_def syscall_numbers\<close>)
  show "handler_enumerates io drv junk off state k SYSCALL_LSMNT (mounted_drives k) (\<lambda>d. [d])"
    by (rule handler_enumeratesI) (use lsmnt_enumerates [OF b z] in \<open>simp_all add: syscall_value_def syscall_numbers\<close>)
  show "handler_enumerates io drv junk off state k SYSCALL_MEMMAP (pmm_memory_regions (mem_pmm (vm k))) memregion"
    by (rule handler_enumeratesI) (use memmap_enumerates [OF b z] in \<open>simp_all add: syscall_value_def syscall_numbers\<close>)
  show "handler_enumerates io drv junk off state k SYSCALL_DMESG (kmessage_messages k) dmesg_entry"
    by (rule handler_enumeratesI) (use dmesg_enumerates [OF b z] in \<open>simp_all add: syscall_value_def syscall_numbers\<close>)
qed
text \<open>A kernel with mapped memory, a running process and one open drive.\<close>

definition small_skernel :: "memory \<Rightarrow> (ide, ide vga) skernel" where
  "small_skernel s = (pkernel.extend two_processes (skernel.fields
     (small_dm\<lparr>device_nodes := (device_nodes small_dm)\<lparr>ts_root := \<lambda>_. 0\<rparr>\<rparr>) [(str ''INFO'', str ''hello'')] 250 100
     (str ''1.0.0'') (str ''i386'') (str ''pc'') \<lparr>slp_type_a = 0, slp_type_b = 0, pm1a_cnt = 0x604, pm1b_cnt = 0\<rparr>))
     \<lparr>vm := s, k_heap := mem_heap s, volumes := []\<rparr>"

lemma small_skernel_simps [simp]:
  "vm_of (small_skernel s) = s" "vm (small_skernel s) = s" "k_heap (small_skernel s) = mem_heap s"
  "volumes (small_skernel s) = []" "kmessage_messages (small_skernel s) = [(str ''INFO'', str ''hello'')]"
  "dm (small_skernel s) = small_dm\<lparr>device_nodes := (device_nodes small_dm)\<lparr>ts_root := \<lambda>_. 0\<rparr>\<rparr>"
  "current_process (small_skernel s) = 0x10003014"
  "processes (small_skernel s) 0x10003014 = small_process 0x10000014 PROCESS_STATE_RUNNING"
  by (simp_all add: small_skernel_def vm_of_def pkernel.defs skernel.defs two_processes_simps)

lemma user_buffer_page:
  assumes "user_ok (vm_of k)" and "user_pages (vm_of k) = {1}"
  shows "user_buffer k 0x1000 4096"
  using page_range [of "0x1000" "vm_of k" "0x1000" 4096] assms by (simp add: user_buffer_def page_of_def)

theorem enumeration_calls_witness:
  "\<exists>s k'. syscall_handler ide_ports (vga_driver ide_ports) (\<lambda>_. 0) (\<lambda>_. True)
      (small_cpu_state\<lparr>isr_eax := SYSCALL_DMESG, isr_ecx := 0x1000\<rparr>) (small_skernel s) =
      Ret (Resume (small_cpu_state\<lparr>isr_eax := 0, isr_ecx := 0x1000\<rparr>), k') \<and>
    stores (small_skernel s) 0x1000 (field 16 (str ''INFO'') @ field 256 (str ''hello'')) k'"
proof -
  obtain s where s: "user_ok s" "user_pages s = {1}" using small_memory_mapped by blast
  let ?k = "small_skernel s" and ?st = "small_cpu_state\<lparr>isr_ecx := 0x1000\<rparr>"
  have b: "user_buffer ?k (isr_ecx ?st) 272" using user_buffer_prefix [OF user_buffer_page [of ?k]] s by simp
  have "dm_inv (dm ?k) ?k []" using user_okD(1) [OF s(1)]
    by (simp add: dm_inv_def tree_repr_def devs_def mem_inv_def dir_inv_def)
  note enumeration_calls [OF b _ this, of ide_ports "vga_driver ide_ports" "\<lambda>_. 0" "\<lambda>_. True", THEN conjunct2, THEN conjunct2, THEN conjunct2, THEN conjunct2]
  then show ?thesis by (auto simp: handler_enumerates_def returns_def small_cpu_state_def dmesg_entry_def)
qed

end
