(* ===== verification/File_Frame.thy ===== *)
theory File_Frame
  imports Files
begin

text \<open>
  What the operations on files leave alone: they change the kernel heap, the hardware and, for
  directories, the table of open directories, and nothing else in the kernel.
\<close>

subsection \<open>The file systems\<close>

definition core :: "('c, 'm) kernel_scheme \<Rightarrow> (ata_drive \<Rightarrow> ata_device) \<times> bytes \<times> u32 \<times> 'm" where
  "core k = (ata_devices k, initrd_base k, initrd_size k, kernel.more k)"

lemma core_simps [simp]: "core (k\<lparr>k_heap := h\<rparr>) = core k" "core (k\<lparr>k_hw := c\<rparr>) = core k"
  by (simp_all add: core_def)

definition keeps_core :: "('c, 'm) volume_reader \<Rightarrow> bool" where
  "keeps_core vread \<longleftrightarrow> (\<forall>v off n k x k'. vread v off n k = Ret (x, k') \<longrightarrow> core k' = core k)"

lemma keeps_coreD: "vread v off n k = Ret (x, k') \<Longrightarrow> keeps_core vread \<Longrightarrow> core k' = core k"
  unfolding keeps_core_def by blast

lemma drv_read_core: "drv_read io d off n k = Ret (x, k') \<Longrightarrow> core k' = core k"
  by (cases d) (auto simp: initrd_read_def ata_read_def Let_def kbind_Ret_iff split: if_split_asm)

lemma volume_read_keeps: "keeps_core (volume_read io)"
  by (auto simp: keeps_core_def volume_read_def Let_def split: if_split_asm dest: drv_read_core)

named_theorems frames

lemmas frame_simps = kbind_Ret_iff Let_def

lemma read_struct_core [frames]: "read_struct vread junk v off n k = Ret (x, k') \<Longrightarrow> keeps_core vread \<Longrightarrow> core k' = core k"
  by (auto simp: read_struct_def frame_simps dest: keeps_coreD)

lemma initfs_open_core [frames]:
  "initfs_open vread junk fs node k = Ret (x, k') \<Longrightarrow> keeps_core vread \<Longrightarrow> core k' = core k"
  by (auto simp: initfs_open_def frame_simps split: if_split_asm dest!: read_struct_core)

lemma initfs_close_core [frames]: "initfs_close node k = Ret (x, k') \<Longrightarrow> core k' = core k"
  by (auto simp: initfs_close_def)

lemma initfs_read_core [frames]:
  "initfs_read vread fs node off sz k = Ret (x, k') \<Longrightarrow> keeps_core vread \<Longrightarrow> core k' = core k"
  by (auto simp: initfs_read_def frame_simps split: if_split_asm inode_data.split_asm dest!: keeps_coreD)

lemma initfs_readdir_core [frames]:
  "initfs_readdir vread junk fs node i k = Ret (x, k') \<Longrightarrow> keeps_core vread \<Longrightarrow> core k' = core k"
  by (auto simp: initfs_readdir_def frame_simps split: if_split_asm dest!: read_struct_core)

lemma initfs_find_core:
  "initfs_find vread junk fs node name n i k = Ret (x, k') \<Longrightarrow> keeps_core vread \<Longrightarrow> core k' = core k"
proof (induction vread junk fs node name n i k rule: initfs_find.induct)
  case (1 vread junk fs node name n i k)
  from 1(2)[unfolded initfs_find.simps [of vread junk fs node name n i k]] 1(3) show ?case
    by (auto simp: frame_simps split: if_split_asm dest!: read_struct_core 1(1))
qed

lemma initfs_finddir_core [frames]:
  "initfs_finddir vread junk fs node name k = Ret (x, k') \<Longrightarrow> keeps_core vread \<Longrightarrow> core k' = core k"
  by (auto simp: initfs_finddir_def frame_simps dest!: read_struct_core initfs_find_core)

lemma ext2_read_block_core:
  "ext2_read_block vread fs b buf k = Ret (x, k') \<Longrightarrow> keeps_core vread \<Longrightarrow> core k' = core k"
  by (auto simp: ext2_read_block_def frame_simps dest!: keeps_coreD)

lemma ext2_read_bgd_core:
  "ext2_read_bgd vread fs g k = Ret (x, k') \<Longrightarrow> keeps_core vread \<Longrightarrow> core k' = core k"
  by (auto simp: ext2_read_bgd_def frame_simps split: if_split_asm dest!: ext2_read_block_core)

lemma ext2_read_inode_core:
  "ext2_read_inode vread fs i k = Ret (x, k') \<Longrightarrow> keeps_core vread \<Longrightarrow> core k' = core k"
  by (auto simp: ext2_read_inode_def frame_simps split: if_split_asm option.split_asm dest!: ext2_read_block_core ext2_read_bgd_core)

lemma ext2_read_pointer_core:
  "ext2_read_pointer vread fs b i buf k = Ret (x, k') \<Longrightarrow> keeps_core vread \<Longrightarrow> core k' = core k"
  by (auto simp: ext2_read_pointer_def frame_simps dest!: ext2_read_block_core)

lemma ext2_levels_core:
  "ext2_single vread fs inode i buf k = Ret (x, k') \<Longrightarrow> keeps_core vread \<Longrightarrow> core k' = core k"
  "ext2_double vread fs inode ppb i buf k = Ret (x, k') \<Longrightarrow> keeps_core vread \<Longrightarrow> core k' = core k"
  "ext2_triple vread fs inode ppb i buf k = Ret (x, k') \<Longrightarrow> keeps_core vread \<Longrightarrow> core k' = core k"
  by (auto simp: ext2_single_def ext2_double_def ext2_triple_def frame_simps split: if_split_asm dest!: ext2_read_pointer_core)

lemma ext2_inode_block_core:
  "ext2_inode_block vread fs inode i k = Ret (x, k') \<Longrightarrow> keeps_core vread \<Longrightarrow> core k' = core k"
  by (auto simp: ext2_inode_block_def frame_simps split: if_split_asm dest!: ext2_levels_core)

lemma ext2_build_node_core: "ext2_build_node a i name inode k = Ret (x, k') \<Longrightarrow> core k' = core k"
  by (auto simp: ext2_build_node_def frame_simps case_prod_beta)

lemma ext2_open_core [frames]:
  "ext2_open vread fs node k = Ret (x, k') \<Longrightarrow> keeps_core vread \<Longrightarrow> core k' = core k"
  by (auto simp: ext2_open_def frame_simps split: if_split_asm option.split_asm dest!: ext2_read_inode_core)

lemma ext2_close_core [frames]: "ext2_close node k = Ret (x, k') \<Longrightarrow> core k' = core k"
  by (auto simp: ext2_close_def split: if_split_asm)

lemma ext2_read_loop_core:
  "ext2_read_loop vread fs inode bs off sz n out buf k = Ret (x, k') \<Longrightarrow> keeps_core vread \<Longrightarrow> core k' = core k"
proof (induction vread fs inode bs off sz n out buf k rule: ext2_read_loop.induct)
  case (1 vread fs inode bs off sz n out buf k)
  from 1(2)[unfolded ext2_read_loop.simps [of vread fs inode bs off sz n out buf k]] 1(3) show ?case
    by (auto simp: frame_simps split: if_split_asm dest!: ext2_inode_block_core ext2_read_block_core 1(1))
qed

lemma ext2_read_core [frames]:
  "ext2_read vread fs node off sz k = Ret (x, k') \<Longrightarrow> keeps_core vread \<Longrightarrow> core k' = core k"
  by (auto simp: ext2_read_def frame_simps split: if_split_asm inode_data.split_asm dest!: ext2_read_loop_core)

lemma ext2_readdir_loop_core:
  "ext2_readdir_loop vread fs inode i n b c buf k = Ret (x, k') \<Longrightarrow> keeps_core vread \<Longrightarrow> core k' = core k"
proof (induction "n - b" arbitrary: b c buf k rule: less_induct)
  case less
  have IH: "ext2_readdir_loop vread fs inode i n (Suc b) c buf k1 = Ret (x, k') \<Longrightarrow> core k' = core k1" if "b < n" for c buf k1
    by (rule less.hyps) (use that less.prems(2) in auto)
  show ?case
  proof (cases "b < n")
    case False
    then show ?thesis using less.prems(1) by (simp add: ext2_readdir_loop.simps [of vread fs inode])
  next
    case True
    then obtain pb k1 where pb: "ext2_inode_block vread fs inode (of_nat b) k = Ret (pb, k1)"
      using less.prems(1) by (auto simp: ext2_readdir_loop.simps [of vread fs inode] kbind_Ret_iff)
    note k1 = ext2_inode_block_core [OF pb less.prems(2)]
    show ?thesis
    proof (cases "pb = 0")
      case True
      then show ?thesis using less.prems(1) \<open>b < n\<close> pb IH k1 by (simp add: ext2_readdir_loop.simps [of vread fs inode])
    next
      case False
      then obtain m buf' k2 r where rb: "ext2_read_block vread fs pb buf k1 = Ret ((m, buf'), k2)"
        and r: "or_fault (ext2_readdir_block buf' i 0 c) = Ret r"
        using less.prems(1) True pb by (auto simp: ext2_readdir_loop.simps [of vread fs inode] kbind_Ret_iff)
      note k2 = ext2_read_block_core [OF rb less.prems(2)]
      show ?thesis
        using less.prems(1) True False pb rb r IH k1 k2
        by (cases r) (simp_all add: ext2_readdir_loop.simps [of vread fs inode])
    qed
  qed
qed

lemma ext2_readdir_core [frames]:
  "ext2_readdir vread fs node i k = Ret (x, k') \<Longrightarrow> keeps_core vread \<Longrightarrow> core k' = core k"
  by (auto simp: ext2_readdir_def frame_simps split: option.split_asm prod.split_asm dest!: ext2_read_inode_core ext2_readdir_loop_core)

lemma ext2_finddir_loop_core:
  "ext2_finddir_loop vread fs inode name l n b buf k = Ret (x, k') \<Longrightarrow> keeps_core vread \<Longrightarrow> core k' = core k"
proof (induction "n - b" arbitrary: b buf k rule: less_induct)
  case less
  have IH: "ext2_finddir_loop vread fs inode name l n (Suc b) buf k1 = Ret (x, k') \<Longrightarrow> core k' = core k1" if "b < n" for buf k1
    by (rule less.hyps) (use that less.prems(2) in auto)
  show ?case
  proof (cases "b < n")
    case False
    then show ?thesis using less.prems(1) by (simp add: ext2_finddir_loop.simps [of vread fs inode])
  next
    case True
    then obtain pb k1 where pb: "ext2_inode_block vread fs inode (of_nat b) k = Ret (pb, k1)"
      using less.prems(1) by (auto simp: ext2_finddir_loop.simps [of vread fs inode] kbind_Ret_iff)
    note k1 = ext2_inode_block_core [OF pb less.prems(2)]
    show ?thesis
    proof (cases "pb = 0")
      case True
      then show ?thesis using less.prems(1) \<open>b < n\<close> pb IH k1 by (simp add: ext2_finddir_loop.simps [of vread fs inode])
    next
      case False
      then obtain m buf' k2 r where rb: "ext2_read_block vread fs pb buf k1 = Ret ((m, buf'), k2)"
        and r: "or_fault (ext2_finddir_block buf' name l 0) = Ret r"
        using less.prems(1) True pb by (auto simp: ext2_finddir_loop.simps [of vread fs inode] kbind_Ret_iff)
      note k2 = ext2_read_block_core [OF rb less.prems(2)]
      show ?thesis
        using less.prems(1) True False pb rb r IH k1 k2
        by (cases r) (simp_all add: ext2_finddir_loop.simps [of vread fs inode])
    qed
  qed
qed

lemma ext2_finddir_core [frames]:
  "ext2_finddir vread fs node name k = Ret (x, k') \<Longrightarrow> keeps_core vread \<Longrightarrow> core k' = core k"
  by (auto simp: ext2_finddir_def frame_simps split: option.split_asm
      dest!: ext2_read_inode_core ext2_finddir_loop_core ext2_build_node_core)

subsection \<open>Files and directories\<close>

lemma vfs_core [frames]:
  "vfs_open io junk node k = Ret (x, k') \<Longrightarrow> core k' = core k"
  "vfs_close node k = Ret (x, k') \<Longrightarrow> core k' = core k"
  "vfs_read io node off sz k = Ret (y, k') \<Longrightarrow> core k' = core k"
  "vfs_readdir io junk node i k = Ret (e, k') \<Longrightarrow> core k' = core k"
  "vfs_finddir io junk node name k = Ret (m, k') \<Longrightarrow> core k' = core k"
  by (auto simp: vfs_open_def vfs_close_def vfs_read_def vfs_readdir_def vfs_finddir_def frame_simps volume_read_keeps
      split: option.split_asm if_split_asm dest!: frames)

lemma vfs_findpath_recursive_core:
  "vfs_findpath_recursive io junk node path pos k = Ret (x, k') \<Longrightarrow> core k' = core k"
proof (induction "length path - pos" arbitrary: node path pos k rule: less_induct)
  case less
  have IH: "vfs_findpath_recursive io junk m path' pos' k1 = Ret (x, k') \<Longrightarrow> core k' = core k1"
    if "strsep path (Some pos) (str ''/'' @ [0]) = Some (t, Some pos', path')" for m t path' pos' k1
    by (rule less.hyps) (use strsep_progress [OF that] in auto)
  show ?case
    using less.prems unfolding vfs_findpath_recursive.simps [of io junk node path pos k]
    by (auto simp: frame_simps split: if_split_asm option.split_asm prod.split_asm dest!: vfs_core dest: IH)
qed

lemma vfs_findpath_core [frames]: "vfs_findpath io junk node path k = Ret (x, k') \<Longrightarrow> core k' = core k"
  by (auto simp: vfs_findpath_def frame_simps split: if_split_asm dest!: vfs_findpath_recursive_core)

lemma file_core [frames]:
  "file_open io junk path flags k = Ret (f, k') \<Longrightarrow> core k' = core k"
  "file_close fd k = Ret (x, k') \<Longrightarrow> core k' = core k"
  "file_read io fd sz k = Ret (y, k') \<Longrightarrow> core k' = core k"
  "file_stat_path io junk path k = Ret (z, k') \<Longrightarrow> core k' = core k"
  by (auto simp: file_open_def file_close_def file_read_def file_stat_path_def frame_simps
      split: option.split_asm if_split_asm dest!: vfs_core vfs_findpath_core)

text \<open>The parts of the kernel outside the file layer.\<close>

lemma core_parts:
  assumes "core k' = core k"
  shows "fkernel.more k' = fkernel.more k" and "volumes k' = volumes k" and "filesystems k' = filesystems k"
    and "mnt_mountpoints k' = mnt_mountpoints k" and "dir_descriptors k' = dir_descriptors k"
  using assms by (cases k; cases k'; simp add: core_def)+

lemma set_descriptor_more [simp]: "fkernel.more (set_descriptor i d k) = fkernel.more k"
  by (simp add: set_descriptor_def)

lemma more_heap [simp]: "fkernel.more (k\<lparr>k_heap := h\<rparr>) = fkernel.more k"
  by simp

lemma vfs_more:
  "vfs_open io junk node k = Ret (x, k') \<Longrightarrow> fkernel.more k' = fkernel.more k"
  "vfs_readdir io junk node i k = Ret (e, k') \<Longrightarrow> fkernel.more k' = fkernel.more k"
  "vfs_findpath io junk node path k = Ret (m, k') \<Longrightarrow> fkernel.more k' = fkernel.more k"
  by (rule core_parts(1), erule vfs_core vfs_findpath_core)+

lemma dir_copy_root_more: "dir_copy_root root node k = Ret (x, k') \<Longrightarrow> fkernel.more k' = fkernel.more k"
  by (auto simp: dir_copy_root_def frame_simps split: if_split_asm)

lemma dir_open_more: "dir_open io junk path k = Ret (e, k') \<Longrightarrow> fkernel.more k' = fkernel.more k"
  by (auto simp: dir_open_def frame_simps split: option.split_asm if_split_asm dest!: vfs_more dir_copy_root_more)

lemma dir_read_more: "dir_read io junk dd k = Ret (e, k') \<Longrightarrow> fkernel.more k' = fkernel.more k"
  by (auto simp: dir_read_def frame_simps split: option.split_asm if_split_asm prod.split_asm dest!: vfs_more)

lemma dir_close_more: "dir_close dd k = (c, k') \<Longrightarrow> fkernel.more k' = fkernel.more k"
  by (auto simp: dir_close_def split: option.split_asm if_split_asm prod.split_asm)

end
