(* ===== verification/Syscall_Files.thy ===== *)
theory Syscall_Files
  imports Syscall_Props File_Frame
begin

text \<open>
  The descriptor table of a process under the system calls on files, and what writing to the standard
  output of a process does.
\<close>

subsection \<open>The descriptor table\<close>

text \<open>The type of a table: 32 entries, of which the first three are never files.\<close>

definition files_ok :: "file_descriptor option list \<Rightarrow> bool" where
  "files_ok fs \<longleftrightarrow> length fs = 32 \<and> (\<forall>i < 3. fs ! i = None)"

text \<open>The calls change at most the table of the current process.\<close>

definition only_files :: "('c, 's, 'm) pkernel_scheme \<Rightarrow> ('c, 's, 'm) pkernel_scheme \<Rightarrow> file_descriptor option list \<Rightarrow> bool" where
  "only_files k k' fs \<longleftrightarrow> current_process k' = current_process k \<and>
     processes k' = (processes k)(current_process k := (cur k)\<lparr>pr_files := fs\<rparr>)"

lemma pkernel_more:
  "fkernel.more k' = fkernel.more k \<Longrightarrow> processes k' = processes k \<and> current_process k' = current_process k \<and>
     vm k' = vm k \<and> streams k' = streams k \<and> ttys k' = ttys k \<and> video k' = video k"
  by (cases k; cases k') simp

lemma only_files_refl: "fkernel.more k' = fkernel.more k \<Longrightarrow> only_files k k' (pr_files (cur k))"
  using pkernel_more [of k' k] by (simp add: only_files_def cur_def)

lemma only_files_set:
  "fkernel.more k' = fkernel.more k \<Longrightarrow> only_files k (set_file i f k') ((pr_files (cur k))[i := f])"
  using pkernel_more [of k' k] by (simp add: only_files_def cur_def set_file_def set_process_def)

lemma only_files_cur: "only_files k k' fs \<Longrightarrow> pr_files (cur k') = fs"
  by (simp add: only_files_def cur_def)

lemma files_ok_update: "files_ok fs \<Longrightarrow> 3 \<le> i \<Longrightarrow> files_ok (fs[i := f])"
  by (simp add: files_ok_def nth_list_update)

lemma find_upt: "find P [a..<n] = Some i \<longleftrightarrow> a \<le> i \<and> i < n \<and> P i \<and> (\<forall>j. a \<le> j \<and> j < i \<longrightarrow> \<not> P j)"
proof (induction "n - a" arbitrary: a)
  case 0
  then show ?case by auto
next
  case (Suc m)
  have e: "a \<le> j \<longleftrightarrow> j = a \<or> Suc a \<le> j" for j by auto
  have "(a \<le> i \<and> i < n \<and> P i \<and> (\<forall>j. a \<le> j \<and> j < i \<longrightarrow> \<not> P j)) \<longleftrightarrow>
      (if P a then i = a else Suc a \<le> i \<and> i < n \<and> P i \<and> (\<forall>j. Suc a \<le> j \<and> j < i \<longrightarrow> \<not> P j))"
    using Suc(2) by (auto simp: e)
  moreover have "find P [Suc a..<n] = Some i \<longleftrightarrow>
      Suc a \<le> i \<and> i < n \<and> P i \<and> (\<forall>j. Suc a \<le> j \<and> j < i \<longrightarrow> \<not> P j)" by (rule Suc(1)) (use Suc(2) in simp)
  moreover have "[a..<n] = a # [Suc a..<n]" using Suc(2) by (intro upt_conv_Cons) simp
  ultimately show ?case by auto
qed

lemma free_file_descriptor_Some:
  "free_file_descriptor fs = Some fd \<longleftrightarrow> 3 \<le> fd \<and> fd < PROCESS_MAX_FILE_DESCRIPTORS \<and> fs ! fd = None \<and>
     (\<forall>j. 3 \<le> j \<and> j < fd \<longrightarrow> fs ! j \<noteq> None)"
  unfolding free_file_descriptor_def by (rule find_upt)

text \<open>A descriptor that \<open>file_open\<close> returns is at the start of its file.\<close>

lemma file_open_start:
  "file_open io junk path flags k = Ret (Some d, k') \<Longrightarrow> fd_offset d = 0 \<and> fd_flags d = flags"
  by (auto simp: file_open_def kbind_Ret_iff Let_def split: if_split_asm option.split_asm)

lemma file_ops_more:
  "file_open io junk path flags k = Ret (f, k') \<Longrightarrow> fkernel.more k' = fkernel.more k"
  "file_close fd k = Ret (x, k') \<Longrightarrow> fkernel.more k' = fkernel.more k"
  "file_read io fd sz k = Ret (y, k') \<Longrightarrow> fkernel.more k' = fkernel.more k"
  by (rule core_parts(1), erule file_core)+

text \<open>Entry \<open>i\<close> of the table is an open file, and \<open>w\<close> is its number.\<close>

definition open_file :: "file_descriptor option list \<Rightarrow> u32 \<Rightarrow> nat \<Rightarrow> bool" where
  "open_file fs w i \<longleftrightarrow> 3 \<le> i \<and> i < 32 \<and> fs ! i \<noteq> None \<and> w = of_nat i"

text \<open>The lowest free entry of the table that is not a standard stream.\<close>

definition lowest_free :: "file_descriptor option list \<Rightarrow> nat \<Rightarrow> bool" where
  "lowest_free fs i \<longleftrightarrow> 3 \<le> i \<and> i < 32 \<and> fs ! i = None \<and> (\<forall>j. 3 \<le> j \<and> j < i \<longrightarrow> fs ! j \<noteq> None)"

lemma free_file_descriptor_lowest: "free_file_descriptor fs = Some i \<longleftrightarrow> lowest_free fs i"
  by (simp add: free_file_descriptor_Some lowest_free_def PROCESS_MAX_FILE_DESCRIPTORS_def)

lemma free_file_descriptor_full: "free_file_descriptor fs = None \<longleftrightarrow> (\<forall>i. 3 \<le> i \<and> i < 32 \<longrightarrow> fs ! i \<noteq> None)"
  by (simp only: free_file_descriptor_def find_None_iff PROCESS_MAX_FILE_DESCRIPTORS_def set_upt atLeastLessThan_iff) auto

lemma lowest_free_update: "files_ok fs \<Longrightarrow> lowest_free fs i \<Longrightarrow> files_ok (fs[i := f])"
  and open_file_update: "files_ok fs \<Longrightarrow> open_file fs w i \<Longrightarrow> files_ok (fs[i := f])"
  by (simp_all add: lowest_free_def open_file_def files_ok_update)

lemma open_file_fd:
  assumes "open_file fs w i"
  shows "sint w = int i" "0 \<le> sint w" "sint w < int PROCESS_MAX_FILE_DESCRIPTORS" "3 \<le> sint w" "nat (sint w) = i"
    "fs ! i \<noteq> None" "sint w \<noteq> 0" "sint w \<noteq> 1" "sint w \<noteq> 2"
proof -
  have i: "3 \<le> i" "i < 32" "w = of_nat i" "fs ! i \<noteq> None" using assms by (simp_all add: open_file_def)
  have "unat w = i" unfolding i(3) by (rule unat_of_nat_u32) (use i(2) in simp)
  then show s: "sint w = int i" using sint_u32_small [of w] i(2) by simp
  show "0 \<le> sint w" "sint w < int PROCESS_MAX_FILE_DESCRIPTORS" "3 \<le> sint w" "nat (sint w) = i" "fs ! i \<noteq> None"
    "sint w \<noteq> 0" "sint w \<noteq> 1" "sint w \<noteq> 2"
    using s i by (simp_all add: PROCESS_MAX_FILE_DESCRIPTORS_def)
qed

lemma not_open_file_fd:
  assumes "\<nexists>i. open_file fs w i" and "files_ok fs" and "0 \<le> sint w" and "sint w < int PROCESS_MAX_FILE_DESCRIPTORS"
  shows "fs ! nat (sint w) = None"
proof (cases "sint w < 3")
  case True
  then have "nat (sint w) < 3" using assms(3) by linarith
  then show ?thesis using assms(2) by (simp add: files_ok_def)
next
  case False
  have "w = of_nat (nat (sint w))" using assms(3) by simp
  moreover have "3 \<le> nat (sint w)" "nat (sint w) < 32"
    using False assms(4) by (simp_all add: PROCESS_MAX_FILE_DESCRIPTORS_def)
  ultimately show ?thesis using assms(1) unfolding open_file_def by metis
qed

lemma file_close_returns: "\<exists>r k'. file_close fd k = Ret (r, k')"
  by (cases fd) (auto simp: file_close_def vfs_close_def initfs_close_def ext2_close_def kbind_Ret_iff)

lemma file_write_fails: "file_write (Some f) bs sz = (-1, Some f)"
  by (auto simp: file_write_def vfs_write_def initfs_write_def ext2_write_def Let_def split: option.split)

lemma sint_u32_one: "sint (1 :: u32) = 1" and sint_u32_two: "sint (2 :: u32) = 2"
  by (simp_all add: sint_u32_small)

lemma sint_streams: "sint (w :: u32) = 0 \<longleftrightarrow> w = 0" "sint w = 1 \<longleftrightarrow> w = 1" "sint w = 2 \<longleftrightarrow> w = 2"
proof -
  have w: "w = of_int (sint w)" by simp
  show "sint w = 0 \<longleftrightarrow> w = 0" using w by (metis of_int_0 sint_0)
  show "sint w = 1 \<longleftrightarrow> w = 1" using w sint_u32_one by (metis of_int_1)
  show "sint w = 2 \<longleftrightarrow> w = 2" using w sint_u32_two by (metis of_int_numeral)
qed

text \<open>The table of the current process.\<close>

definition table_of :: "('c, 's, 'm) pkernel_scheme \<Rightarrow> file_descriptor option list \<Rightarrow> bool" where
  "table_of k fs \<longleftrightarrow> current_process k \<noteq> 0 \<and> pr_files (cur k) = fs \<and> files_ok fs"

lemma open_refused:
  assumes "table_of k fs" and "(\<forall>i. 3 \<le> i \<and> i < 32 \<longrightarrow> fs ! i \<noteq> None) \<or> isr_ecx state AND 4 \<noteq> 0"
  shows "syscall_open io junk state k = Ret (-1, k)"
proof -
  have "free_file_descriptor fs = None \<or> isr_ecx state AND 4 \<noteq> 0" using assms(2) free_file_descriptor_full by blast
  then show ?thesis using assms(1) by (auto simp: syscall_open_def Let_def FILE_CREAT_def table_of_def)
qed

lemma open_enters:
  assumes t: "table_of k fs" and "\<not> ((\<forall>i. 3 \<le> i \<and> i < 32 \<longrightarrow> fs ! i \<noteq> None) \<or> isr_ecx state AND 4 \<noteq> 0)"
    and "user_string (isr_ebx state) (vm_of k) = Ret name" and r: "file_open io junk name (isr_ecx state) k = Ret (r, k1)"
  shows "case r of None \<Rightarrow> syscall_open io junk state k = Ret (-1, k1) \<and> only_files k k1 fs
    | Some d \<Rightarrow> fd_offset d = 0 \<and> fd_flags d = isr_ecx state \<and>
        (\<exists>i k'. lowest_free fs i \<and> syscall_open io junk state k = Ret (of_nat i, k') \<and>
           files_ok (fs[i := Some d]) \<and> only_files k k' (fs[i := Some d]))"
proof -
  have c: "current_process k \<noteq> 0" and fs: "pr_files (cur k) = fs" and ok: "files_ok fs" using t by (simp_all add: table_of_def)
  obtain i where i: "free_file_descriptor fs = Some i"
    using assms(2) free_file_descriptor_full by (cases "free_file_descriptor fs") auto
  have o: "syscall_open io junk state k =
      (case r of None \<Rightarrow> Ret (-1, k1) | Some d \<Rightarrow> Ret (of_nat i, set_file i (Some d) k1))"
    using assms(2-4) c fs i by (simp add: syscall_open_def Let_def FILE_CREAT_def split: option.split)
  have m: "fkernel.more k1 = fkernel.more k" by (rule file_ops_more(1) [OF r])
  show ?thesis
  proof (cases r)
    case None
    then show ?thesis using o only_files_refl [OF m] fs by simp
  next
    case (Some d)
    have "lowest_free fs i" using i by (simp add: free_file_descriptor_lowest)
    moreover have "only_files k (set_file i (Some d) k1) (fs[i := Some d])"
      using only_files_set [OF m, of i "Some d"] unfolding fs .
    ultimately show ?thesis using Some o file_open_start [of io junk name "isr_ecx state" k d k1] r lowest_free_update [OF ok]
      by auto
  qed
qed

lemma close_frees:
  assumes t: "table_of k fs" and i: "open_file fs (isr_ebx state) i"
  shows "\<exists>k'. syscall_close state k = Ret (0, k') \<and> files_ok (fs[i := None]) \<and> only_files k k' (fs[i := None])"
proof -
  have c: "current_process k \<noteq> 0" and fs: "pr_files (cur k) = fs" and ok: "files_ok fs" using t by (simp_all add: table_of_def)
  obtain r k1 where r: "file_close (fs ! i) k = Ret (r, k1)" using file_close_returns by blast
  have "syscall_close state k = Ret (0, set_file i None k1)"
    using open_file_fd [OF i] c r by (simp add: syscall_close_def Let_def fs)
  then show ?thesis using only_files_set [OF file_ops_more(2) [OF r], of i None] open_file_update [OF ok i]
    by (simp add: fs)
qed

lemma close_refused: "table_of k fs \<Longrightarrow> \<nexists>i. open_file fs (isr_ebx state) i \<Longrightarrow> syscall_close state k = Ret (-1, k)"
  using not_open_file_fd [of fs "isr_ebx state"] by (auto simp: table_of_def syscall_close_def Let_def)

lemma read_advances:
  assumes t: "table_of k fs" and i: "open_file fs (isr_ebx state) i" and r: "file_read io (fs ! i) (isr_edx state) k = Ret ((n, bs, f), k1)"
    and w: "user_write (isr_ecx state) bs (vm_of k1) = Ret s"
  shows "\<exists>k'. syscall_read io state k = Ret (of_int n, k') \<and> vm_of k' = s \<and> files_ok (fs[i := f]) \<and> only_files k k' (fs[i := f])"
proof -
  have c: "current_process k \<noteq> 0" and fs: "pr_files (cur k) = fs" and ok: "files_ok fs" using t by (simp_all add: table_of_def)
  have "vm_of (set_file i f k1) = vm_of k1" by (simp add: vm_of_def set_file_def set_process_def)
  then have "syscall_read io state k = Ret (of_int n, set_vm s (set_file i f k1))"
    using open_file_fd [OF i] c r w by (simp add: syscall_read_def Let_def fs store_user_def)
  moreover have "only_files k (set_vm s (set_file i f k1)) (fs[i := f])"
    using only_files_set [OF file_ops_more(3) [OF r], of i f] by (simp add: only_files_def set_vm_def fs)
  ultimately show ?thesis using open_file_update [OF ok i] by simp
qed

lemma read_refused:
  "table_of k fs \<Longrightarrow> \<nexists>i. open_file fs (isr_ebx state) i \<Longrightarrow> isr_ebx state \<noteq> 0 \<or> pr_in (cur k) = 0 \<Longrightarrow> syscall_read io state k = Ret (-1, k)"
  using not_open_file_fd [of fs "isr_ebx state"] by (auto simp: table_of_def sint_streams syscall_read_def Let_def)

lemma write_fails:
  assumes t: "table_of k fs" and i: "open_file fs (isr_ebx state) i" and "user_read (isr_ecx state) (unat (isr_edx state)) (vm_of k) = Ret bs"
  shows "\<exists>k'. syscall_write drv state k = Ret (-1, k') \<and> only_files k k' fs"
proof -
  have c: "current_process k \<noteq> 0" and fs: "pr_files (cur k) = fs" and ok: "files_ok fs" using t by (simp_all add: table_of_def)
  obtain f where f: "fs ! i = Some f" using open_file_fd(6) [OF i] by auto
  have "syscall_write drv state k = Ret (-1, set_file i (Some f) k)"
    using open_file_fd [OF i] c assms(3) f file_write_fails by (simp add: syscall_write_def Let_def fs)
  moreover have "fs[i := Some f] = fs" using f by (metis list_update_id)
  ultimately show ?thesis using only_files_set [of k k i "Some f"] by (simp add: fs)
qed

lemma write_refused:
  "table_of k fs \<Longrightarrow> \<nexists>i. open_file fs (isr_ebx state) i \<Longrightarrow> isr_ebx state \<noteq> 1 \<or> pr_out (cur k) = 0 \<Longrightarrow> isr_ebx state \<noteq> 2 \<or> pr_err (cur k) = 0 \<Longrightarrow>
   syscall_write drv state k = Ret (-1, k)"
  using not_open_file_fd [of fs "isr_ebx state"] by (auto simp: table_of_def sint_streams syscall_write_def Let_def)

text \<open>
  C39. The descriptor table. With a table of 32 entries, of which the first three are never files, open fails and changes
  nothing when every entry from 3 on is taken or the flags ask for \<open>FILE_CREAT\<close> (4); otherwise it passes the name in
  the memory of the caller to \<open>file_open\<close>, fails when that finds no file, leaving the table, and else enters the file,
  at offset 0 with the flags of the call, at the lowest free entry from 3 on and returns that entry's number. On the
  number of an open file close frees the entry and returns 0, read stores what \<open>file_read\<close> reads and advances the
  entry as \<open>file_read\<close> does, and write fails, for no file system can write, leaving the table. On every other number,
  the standard streams apart, the three calls fail and change nothing. The table keeps its form, and
  no other process changes.
\<close>

theorem descriptor_table:
  assumes "table_of k fs"
  shows "((\<forall>i. 3 \<le> i \<and> i < 32 \<longrightarrow> fs ! i \<noteq> None) \<or> isr_ecx state AND 4 \<noteq> 0 \<longrightarrow> syscall_open io junk state k = Ret (-1, k)) \<and>
    (\<not> ((\<forall>i. 3 \<le> i \<and> i < 32 \<longrightarrow> fs ! i \<noteq> None) \<or> isr_ecx state AND 4 \<noteq> 0) \<longrightarrow>
      (\<forall>name r k1. user_string (isr_ebx state) (vm_of k) = Ret name \<longrightarrow> file_open io junk name (isr_ecx state) k = Ret (r, k1) \<longrightarrow>
        (case r of None \<Rightarrow> syscall_open io junk state k = Ret (-1, k1) \<and> only_files k k1 fs
         | Some d \<Rightarrow> fd_offset d = 0 \<and> fd_flags d = isr_ecx state \<and>
             (\<exists>i k'. lowest_free fs i \<and> syscall_open io junk state k = Ret (of_nat i, k') \<and>
                files_ok (fs[i := Some d]) \<and> only_files k k' (fs[i := Some d]))))) \<and>
    (\<forall>i. open_file fs (isr_ebx state) i \<longrightarrow>
      (\<exists>k'. syscall_close state k = Ret (0, k') \<and> files_ok (fs[i := None]) \<and> only_files k k' (fs[i := None])) \<and>
      (\<forall>n bs f k1 s. file_read io (fs ! i) (isr_edx state) k = Ret ((n, bs, f), k1) \<longrightarrow> user_write (isr_ecx state) bs (vm_of k1) = Ret s \<longrightarrow>
        (\<exists>k'. syscall_read io state k = Ret (of_int n, k') \<and> vm_of k' = s \<and> files_ok (fs[i := f]) \<and> only_files k k' (fs[i := f]))) \<and>
      (\<forall>bs. user_read (isr_ecx state) (unat (isr_edx state)) (vm_of k) = Ret bs \<longrightarrow>
        (\<exists>k'. syscall_write drv state k = Ret (-1, k') \<and> only_files k k' fs))) \<and>
    ((\<nexists>i. open_file fs (isr_ebx state) i) \<longrightarrow> syscall_close state k = Ret (-1, k) \<and>
      (isr_ebx state \<noteq> 0 \<or> pr_in (cur k) = 0 \<longrightarrow> syscall_read io state k = Ret (-1, k)) \<and>
      ((isr_ebx state \<noteq> 1 \<or> pr_out (cur k) = 0) \<and> (isr_ebx state \<noteq> 2 \<or> pr_err (cur k) = 0) \<longrightarrow>
        syscall_write drv state k = Ret (-1, k)))"
proof (intro conjI allI impI)
  assume n: "\<nexists>i. open_file fs (isr_ebx state) i"
  show "syscall_close state k = Ret (-1, k)" by (rule close_refused [OF assms n])
  show "syscall_read io state k = Ret (-1, k)" if "isr_ebx state \<noteq> 0 \<or> pr_in (cur k) = 0"
    by (rule read_refused [OF assms n that])
  show "syscall_write drv state k = Ret (-1, k)"
    if "(isr_ebx state \<noteq> 1 \<or> pr_out (cur k) = 0) \<and> (isr_ebx state \<noteq> 2 \<or> pr_err (cur k) = 0)"
    by (rule write_refused [OF assms n]) (use that in blast)+
next
  fix i assume i: "open_file fs (isr_ebx state) i"
  show "\<exists>k'. syscall_close state k = Ret (0, k') \<and> files_ok (fs[i := None]) \<and> only_files k k' (fs[i := None])"
    by (rule close_frees [OF assms i])
  show "\<exists>k'. syscall_read io state k = Ret (of_int n, k') \<and> vm_of k' = s \<and> files_ok (fs[i := f]) \<and> only_files k k' (fs[i := f])"
    if "file_read io (fs ! i) (isr_edx state) k = Ret ((n, bs, f), k1)" "user_write (isr_ecx state) bs (vm_of k1) = Ret s" for n bs f k1 s
    by (rule read_advances [OF assms i that])
  show "\<exists>k'. syscall_write drv state k = Ret (-1, k') \<and> only_files k k' fs"
    if "user_read (isr_ecx state) (unat (isr_edx state)) (vm_of k) = Ret bs" for bs
    by (rule write_fails [OF assms i that])
qed (erule open_refused [OF assms], erule (2) open_enters [OF assms])

text \<open>A process with the name \<open>A:/\<close> in its memory and the ramdisk as drive A, which opens the root and closes it.\<close>

definition small_opener :: "memory \<Rightarrow> (ide, ide vga) skernel" where
  "small_opener s = (small_skernel s)\<lparr>k_heap := fresh_heap\<rparr>"

lemma user_memory_heap: "user_memory (s\<lparr>mem_heap := h\<rparr>) = user_memory s"
proof
  fix v
  have "space_memory (s\<lparr>mem_heap := h\<rparr>) (current_page_directory s) v = space_memory s (current_page_directory s) v" by simp
  then show "user_memory (s\<lparr>mem_heap := h\<rparr>) v = user_memory s v" by (simp add: space_memory_def)
qed

lemma small_opener_table: "table_of (small_opener s) (replicate 32 None)"
  by (simp add: table_of_def small_opener_def cur_def files_ok_def small_process_def PROCESS_MAX_FILE_DESCRIPTORS_def)

lemma small_opener_root: "\<exists>d k1. file_open ide_ports (\<lambda>_. 0) (str ''A:/'') 1 (small_opener s) = Ret (Some d, k1)"
proof -
  have "\<exists>h. kmalloc 16 fresh_heap = Ret (0x10000014, h)"
    by (simp add: kmalloc_def kmalloc_int_def kmalloc_heap_def fresh_heap_def blank_heap_def kheap_find_best_fit.simps
        kheap_consider_def kheap_carve_block_def VMM_IS_ALIGNED_def heap_consts kheap_align_block_def Let_def)
  then obtain h where h: "kmalloc 16 fresh_heap = Ret (0x10000014, h)" by blast
  show ?thesis
    by (simp add: file_open_def path_root_def vfs_is_abs_path_def str_def asc_def mnt_get_mountpoint_def mnt_get_drive_index_def
        small_opener_def small_skernel_def two_processes_def small_fkernel_def fkernel.defs pkernel.defs skernel.defs kernel.defs
        vfs_findpath_def searchable_def small_dir_def kmalloc_or_panic_def h vfs_open_def node_filesystem_def initfs_open_def Let_def)
qed

theorem descriptor_table_witness:
  "\<exists>s k k'. syscall_open ide_ports (\<lambda>_. 0) (small_cpu_state\<lparr>isr_ebx := 0x1000, isr_ecx := 1\<rparr>) (small_opener s) = Ret (3, k) \<and>
     map (\<lambda>f. f = None) (pr_files (cur k)) = (replicate 32 True)[3 := False] \<and>
     syscall_close (small_cpu_state\<lparr>isr_ebx := 3\<rparr>) k = Ret (0, k') \<and> table_of k' (replicate 32 None) \<and>
     syscall_close (small_cpu_state\<lparr>isr_ebx := 3\<rparr>) k' = Ret (-1, k')"
proof -
  let ?st = "small_cpu_state\<lparr>isr_ebx := 0x1000, isr_ecx := 1\<rparr>" and ?msg = "str ''A:/'' @ [0]"
  let ?fs = "replicate 32 None :: file_descriptor option list" and ?cl = "small_cpu_state\<lparr>isr_ebx := 3\<rparr>"
  obtain s where s: "user_ok s" "user_pages s = {1}" using small_memory_mapped by blast
  have l: "length (str ''A:/'') = 3" by (simp add: str_def)
  have "user_range s 0x1000 (length ?msg)"
    using page_range(1) [of "0x1000" s "0x1000" "length ?msg"] s by (simp add: page_of_def str_def)
  from user_write_range [OF s(1) this] obtain s' where w: "writes_range s 0x1000 (length ?msg) (\<lambda>i. ?msg ! i) s'"
    by (auto simp: returns_def l)
  let ?k = "small_opener s'"
  have "bytes_at (vm_of ?k) 0x1000 ?msg"
    using bytes_at_written [OF w] by (simp add: small_opener_def vm_of_def bytes_at_def user_memory_heap l)
  then have n: "user_string (isr_ebx ?st) (vm_of ?k) = Ret (str ''A:/'')"
    by (intro user_string_at) (simp_all add: c_string_def str_def asc_def)
  obtain d k1 where o: "file_open ide_ports (\<lambda>_. 0) (str ''A:/'') (isr_ecx ?st) ?k = Ret (Some d, k1)"
    using small_opener_root [of s'] by auto
  have f: "\<not> ((\<forall>i. 3 \<le> i \<and> i < 32 \<longrightarrow> ?fs ! i \<noteq> None) \<or> isr_ecx ?st AND 4 \<noteq> 0)" by (auto intro: exI [of _ 3])
  obtain i k where k: "lowest_free ?fs i" "syscall_open ide_ports (\<lambda>_. 0) ?st ?k = Ret (of_nat i, k)"
    "files_ok (?fs[i := Some d])" "only_files ?k k (?fs[i := Some d])"
    using descriptor_table [OF small_opener_table, THEN conjunct2, THEN conjunct1, rule_format, OF f n o] by auto
  have i: "i = 3" using k(1) by (cases "3 < i") (auto simp: lowest_free_def)
  have t: "table_of k (?fs[3 := Some d])" using k(3,4) only_files_cur [OF k(4)] small_opener_table [of s']
    by (simp add: i table_of_def only_files_def)
  have op: "open_file (?fs[3 := Some d]) (isr_ebx ?cl) 3" by (simp add: open_file_def)
  have e: "?fs[3 := Some d, 3 := None] = ?fs" by (simp add: list_update_same_conv)
  obtain k' where k': "syscall_close ?cl k = Ret (0, k')" "files_ok ?fs" "only_files k k' ?fs"
    using descriptor_table [OF t, THEN conjunct2, THEN conjunct2, THEN conjunct1, rule_format, OF op, THEN conjunct1]
    unfolding e by blast
  have t': "table_of k' ?fs" using k'(2,3) only_files_cur [OF k'(3)] t by (simp add: table_of_def only_files_def)
  have "\<nexists>i. open_file ?fs (isr_ebx ?cl) i" by (simp add: open_file_def)
  then have "syscall_close ?cl k' = Ret (-1, k')" by (rule close_refused [OF t'])
  moreover have "map (\<lambda>f. f = None) (pr_files (cur k)) = (replicate 32 True)[3 := False]"
    using t by (simp add: table_of_def map_update)
  ultimately show ?thesis using k(2) k'(1) t' by (auto simp: i)
qed

subsection \<open>Standard output\<close>

text \<open>The standard output of the current process is a terminal on the screen that shows the lines \<open>lc\<close>.\<close>

definition out_shows :: "('c, 'c vga, 'm) pkernel_scheme \<Rightarrow> bytes list \<times> bytes \<Rightarrow> bool" where
  "out_shows k lc \<longleftrightarrow> current_process k \<noteq> 0 \<and> pr_out (cur k) \<noteq> 0 \<and> stream_is_output (streams k (pr_out (cur k))) \<and>
     (let t = ttys k (stream_data (streams k (pr_out (cur k))))
      in tty_ok 25 80 t \<and> ansi_state t = TTY_ANSI_STATE_NORMAL \<and> vga_text_inv (video k) \<and>
         tty_shows 25 80 lc t (vga_screen (video k)))"

lemma kmalloc_plus:
  assumes "kheap_inv h" and "kmalloc n h = Ret (p, h')" and "p \<noteq> 0"
  shows "heap_plus h p n h'"
  using kmalloc_or_panic_plus [OF assms(1), of n] assms by (simp add: kmalloc_or_panic_def)

lemma kmalloc_returns: "kheap_inv h \<Longrightarrow> \<exists>p h'. kmalloc n h = Ret (p, h')"
  using kmalloc_heap_returns kmalloc_eq by metis

lemma write_stream_shows:
  assumes o: "out_shows k lc" and h: "kheap_inv (k_heap k)" and m: "bytes_at (vm_of k) buffer msg"
    and n: "sz = of_nat (length msg)" "length msg < 4294967295" and c: "\<forall>c \<in> set msg. c \<notin> {0, 8, 9, 13, 27}"
    and km: "kmalloc (sz + 1) (k_heap k) = Ret (p, h1)" "p \<noteq> 0"
  shows "returns (write_stream (vga_driver io) (pr_out (cur k)) buffer sz k) (\<lambda>(r, k'). r = sz \<and>
    out_shows k' (foldl (type_char 80) lc msg) \<and> heap_same (k_heap k) (k_heap k') \<and> processes k' = processes k \<and> vm k' = vm k)"
proof -
  let ?s = "pr_out (cur k)"
  let ?a = "stream_data (streams k ?s)"
  have u: "unat sz = length msg" using n by (simp add: unat_of_nat_u32)
  have r: "user_read buffer (unat sz) (vm_of k) = Ret msg" unfolding u by (rule user_read_at [OF m])
  have s: "cstr_at msg 0 = msg" using c by (auto simp: cstr_at_def takeWhile_eq_all_conv)
  have p: "\<forall>c \<in> set msg. plain_char c" using c by (simp add: plain_char_def)
  have hs: "heap_same (k_heap k) (kfree p h1)" by (rule kfree_plus [OF kmalloc_plus [OF h km]])
  have "returns (tty_puts (vga_driver io) msg (ttys k ?a) (video k)) (\<lambda>(t', v'). vga_text_inv v' \<and>
      ansi_state t' = TTY_ANSI_STATE_NORMAL \<and> tty_ok 25 80 t' \<and> tty_shows 25 80 (foldl (type_char 80) lc msg) t' (vga_screen v'))"
    using o by (intro returns_mono [OF vga.puts_shows [OF _ _ _ p]]) (auto simp: out_shows_def Let_def)
  then obtain t' v' where t': "tty_puts (vga_driver io) msg (ttys k ?a) (video k) = Ret (t', v')" "vga_text_inv v'"
    "ansi_state t' = TTY_ANSI_STATE_NORMAL" "tty_ok 25 80 t'" "tty_shows 25 80 (foldl (type_char 80) lc msg) t' (vga_screen v')"
    by (auto simp: returns_def)
  have "write_stream (vga_driver io) ?s buffer sz k =
      Ret (sz, k\<lparr>k_heap := kfree p h1, ttys := (ttys k)(?a := t'), video := v'\<rparr>)"
    using o by (simp add: write_stream_def km r stream_puts_def s t'(1) out_shows_def k_free_def Let_def)
  then show ?thesis using o t'(2-) hs by (simp add: out_shows_def cur_def Let_def)
qed

text \<open>
  C40. Writing to the standard output puts the text on the screen. For plain text in the memory of the caller,
  the call returns its length, and the terminal of the process then shows the text continued from what it
  showed before (wrapped at 80 columns, the last 25 lines). The kernel's copy of the text is released,
  and neither the processes nor their memory change. When the kernel heap has no room for the copy, the kernel
  writes through NULL.
\<close>

theorem write_shows_text:
  assumes "out_shows k lc" and "kheap_inv (k_heap k)" and "bytes_at (vm_of k) (isr_ecx state) msg"
    and "isr_eax state = SYSCALL_WRITE" and "isr_ebx state = 1" and "isr_edx state = of_nat (length msg)" and "length msg < 4294967295"
    and "\<forall>c \<in> set msg. c \<notin> {0, 8, 9, 13, 27}"
  shows "if \<exists>h. kmalloc (isr_edx state + 1) (k_heap k) = Ret (0, h) then syscall_handler io (vga_driver ports) junk off state k = Fault
    else returns (syscall_handler io (vga_driver ports) junk off state k) (\<lambda>(f, k'). f = Resume (state\<lparr>isr_eax := isr_edx state\<rparr>) \<and>
      out_shows k' (foldl (type_char 80) lc msg) \<and> heap_same (k_heap k) (k_heap k') \<and> processes k' = processes k \<and> vm k' = vm k)"
proof -
  have w: "syscall_handler io (vga_driver ports) junk off state k =
      kbind (write_stream (vga_driver ports) (pr_out (cur k)) (isr_ecx state) (isr_edx state) k)
        (\<lambda>(r, k1). Ret (Resume (state\<lparr>isr_eax := r\<rparr>), k1))"
    using assms(1,4,5) by (simp add: syscall_handler_def syscall_value_def syscall_numbers syscall_write_def out_shows_def
        PROCESS_MAX_FILE_DESCRIPTORS_def)
  obtain p h where km: "kmalloc (isr_edx state + 1) (k_heap k) = Ret (p, h)" using kmalloc_returns [OF assms(2)] by blast
  show ?thesis
  proof (cases "p = 0")
    case True
    then show ?thesis using km by (simp add: w write_stream_def)
  next
    case False
    have "returns (syscall_handler io (vga_driver ports) junk off state k) (\<lambda>(f, k'). f = Resume (state\<lparr>isr_eax := isr_edx state\<rparr>) \<and>
      out_shows k' (foldl (type_char 80) lc msg) \<and> heap_same (k_heap k) (k_heap k') \<and> processes k' = processes k \<and> vm k' = vm k)"
      unfolding w by (rule returns_bind [OF write_stream_shows [OF assms(1-3,6-8) km False]]) auto
    then show ?thesis using km False by simp
  qed
qed

text \<open>A process with a cleared screen and a text of 99 characters in its memory.\<close>

definition small_writer :: "memory \<Rightarrow> tty \<Rightarrow> ide vga \<Rightarrow> (ide, ide vga) skernel" where
  "small_writer s t v = (small_skernel s)\<lparr>k_heap := fresh_heap, ttys := (\<lambda>_. t), video := v,
     streams := (\<lambda>_. \<lparr>stream_is_output = True, stream_data = 1\<rparr>),
     processes := (\<lambda>_. (small_process 0x10000014 PROCESS_STATE_RUNNING)\<lparr>pr_out := 8\<rparr>)\<rparr>"

theorem write_shows_text_witness:
  "\<exists>s t v k'. syscall_handler ide_ports (vga_driver ide_ports) (\<lambda>_. 0) (\<lambda>_. True)
      (small_cpu_state\<lparr>isr_eax := SYSCALL_WRITE, isr_ebx := 1, isr_ecx := 0x1000, isr_edx := 99\<rparr>) (small_writer s t v) =
      Ret (Resume (small_cpu_state\<lparr>isr_ebx := 1, isr_ecx := 0x1000, isr_edx := 99, isr_eax := 99\<rparr>), k') \<and>
     out_shows (small_writer s t v) ([], []) \<and> out_shows k' ([replicate 80 0x78], replicate 19 0x78)"
proof -
  let ?msg = "replicate 99 0x78 :: bytes"
  let ?st = "small_cpu_state\<lparr>isr_eax := SYSCALL_WRITE, isr_ebx := 1, isr_ecx := 0x1000, isr_edx := 99\<rparr>"
  obtain s where s: "user_ok s" "user_pages s = {1}" using small_memory_mapped by blast
  have "user_range s 0x1000 (length ?msg)"
    using page_range(1) [of "0x1000" s "0x1000" 99] s by (simp add: page_of_def)
  from user_write_range [OF s(1) this] obtain s' where w: "writes_range s 0x1000 (length ?msg) (\<lambda>i. ?msg ! i) s'"
    by (auto simp: returns_def)
  obtain t and v :: "ide vga" where t: "vga_text_inv v" "same_parser small_tty t" "tty_ok 25 80 t" "tty_shows 25 80 ([], []) t (vga_screen v)"
    using vga.clear_shows [OF small_tty_ok small_vga_inv, of ide_ports] by (auto simp: returns_def)
  define k where "k = small_writer s' t v"
  have vm: "vm_of k = s'\<lparr>mem_heap := fresh_heap\<rparr>" by (simp add: k_def small_writer_def vm_of_def)
  have o: "out_shows k ([], [])"
    using t by (simp add: k_def small_writer_def out_shows_def cur_def small_process_def same_parser_def Let_def) (simp add: small_tty_def)
  have b: "bytes_at (vm_of k) (isr_ecx ?st) ?msg"
    using bytes_at_written [OF w] by (simp add: vm bytes_at_def user_memory_heap)
  have h: "kheap_inv (k_heap k)" using fresh_heap_inv by (simp add: k_def small_writer_def)
  obtain h' where km: "kmalloc 100 fresh_heap = Ret (0x10000014, h')" using fresh_heap_kmalloc by blast
  have "foldl (type_char 80) ([], []) ?msg = ([replicate 80 0x78], replicate 19 0x78)" by code_simp
  moreover have kh: "k_heap k = fresh_heap" by (simp add: k_def small_writer_def)
  ultimately have "\<exists>k'. syscall_handler ide_ports (vga_driver ide_ports) (\<lambda>_. 0) (\<lambda>_. True) ?st k =
      Ret (Resume (?st\<lparr>isr_eax := 99\<rparr>), k') \<and> out_shows k' ([replicate 80 0x78], replicate 19 0x78)"
    using write_shows_text [OF o h b, of ide_ports ide_ports "\<lambda>_. 0" "\<lambda>_. True"] km by (auto simp: returns_def)
  then show ?thesis using o unfolding k_def by auto
qed

end
