(* ===== verification/Spec2Isabelle.thy ===== *)
theory Spec2Isabelle
  imports Process_Life Tty_Input Volume_Register Syscall_Files
begin

text \<open>
  TTOS: a model of the operating system in \<open>src/\<close>, a small i386 kernel with a C library and a few
  programs, and the theorems that make its parts correct. Paths below are relative to \<open>src/\<close>.

  \<^bold>\<open>Conventions\<close> (theory \<open>Prelude\<close>). Machine integers are words of their width (\<open>u8\<close> to \<open>u32\<close>, \<open>size_t\<close> and
  pointers are \<open>u32\<close>), so arithmetic wraps around as in C. A C string is the list of its characters
  without the NUL; a buffer is a list of bytes, and an access outside of it is an error. A function
  that may fail to return has a result of type \<open>kres\<close>: a value, \<open>Panic\<close> with the code of the kernel panic,
  \<open>Hang\<close> where a loop does not end, \<open>Fault\<close> for undefined behaviour (access outside an object, NULL,
  division by zero, a missing return value). \<open>option\<close> is used where only one of these can happen.
  State is passed explicitly: records that extend each other from the heap to the whole kernel
  (\<open>kernel\<close>, \<open>vkernel\<close>, \<open>fkernel\<close>, \<open>pkernel\<close>, \<open>skernel\<close>). Port input and output is a parameter, a record of
  functions on an abstract hardware state; the contents of uninitialised memory are a parameter \<open>junk\<close>.
  Loops that follow pointers or wait for hardware are \<open>partial_function\<close>s (\<open>None\<close> is an endless loop).

  \<^bold>\<open>Memory.\<close> \<open>Kheap\<close> models \<open>kernel/src/memory/kheap.c\<close>: block headers at addresses, best fit, splitting,
  merging, aligned allocation. \<open>Kheap_Refine\<close>, \<open>Kheap_Free\<close> and \<open>Kheap_Alloc\<close> relate the linked headers to a list
  of adjacent blocks; \<open>Allocator\<close> is the interface that its clients rely on (a locale, interpreted on
  \<open>kmalloc\<close>/\<open>kfree\<close>); \<open>Kheap_Props\<close> has safety of every reachable heap and what \<open>krealloc\<close>
  preserves; \<open>Kheap_Room\<close> bounds the heap below by the size of a free block, so that its clients can be shown to return. \<open>Pmm\<close> models the frame bitmap (\<open>pmm.c\<close>), \<open>Paging\<close> and \<open>Vmm\<close> the page tables and
  address spaces (\<open>arch/i386/paging.c\<close>, \<open>memory/vmm.c\<close>); a heap address of a directory or table names an object
  in \<open>page_dirs\<close> or \<open>page_tables\<close>. \<open>User_Memory\<close> is what a program sees: bytes through the page tables.

  \<^bold>\<open>Utilities.\<close> \<open>Circular_Buffer\<close>, \<open>Linked_List\<close> and \<open>Generic_Tree\<close> (\<open>kernel/include/util/\<close>) refine bounded
  queues, sequences and rose trees; \<open>CString\<close> and \<open>Strfmt\<close> hold the string functions and the formatted
  output of the kernel and the C library (\<open>util/string.c\<close>, \<open>util/numeric.c\<close>, \<open>io/stream.c\<close>, \<open>libc\<close>).

  \<^bold>\<open>Storage.\<close> \<open>Ata\<close> has the IDE driver and the ramdisk (\<open>drivers/storage/\<close>), \<open>Ata_Props\<close> and \<open>Ata_Disk\<close> their
  correctness over the sector commands of a controller (hypotheses on the ports, met by a concrete
  controller), \<open>Volume\<close> the partition table and the volume manager (\<open>fs/mbr.c\<close>, \<open>device/volume.c\<close>);
  \<open>Volume_Register\<close> shows that the registration of a drive ends and what it registers, \<open>Device\<close> is the
  device tree (\<open>device/device.c\<close>).

  \<^bold>\<open>Files.\<close> \<open>Fs_Types\<close> decodes the packed structures; \<open>Initfs\<close> and \<open>Ext2\<close>, \<open>Ext2_Props\<close>, \<open>Ext2_Dirs\<close> are the two file
  systems (\<open>fs/initfs.c\<close>, \<open>fs/ext2.c\<close>) with the image that \<open>scripts/mkinitrd.py\<close> builds; \<open>Vfs\<close>, \<open>Mount\<close>, \<open>Files\<close> are
  \<open>fs/vfs.c\<close>, \<open>fs/mount.c\<close>, \<open>io/file.c\<close>, \<open>io/dir.c\<close>; \<open>Ramdisk\<close> composes them from the mount table to the bytes.

  \<^bold>\<open>Terminal.\<close> \<open>Keyboard\<close> (\<open>drivers/input/ps2/keyboard.c\<close>, \<open>io/keyboard_layout.c\<close>), \<open>Vga\<close> (\<open>drivers/video/vga\<close>, text mode)
  and \<open>Tty\<close> (\<open>io/tty.c\<close>); \<open>Tty_Props\<close>, \<open>Tty_Text\<close> say that output stays on the screen and what it shows, \<open>Tty_Input\<close>
  follows a key from the scancode to the line that is read.

  \<^bold>\<open>Processes.\<close> \<open>Elf\<close> is the loader (\<open>system/elf.c\<close>), \<open>Process\<close> creation, running and termination
  (\<open>system/process.c\<close>), \<open>Process_Props\<close> the argument vector up to \<open>libc/src/sys/crt0.c\<close>, \<open>Process_Life\<close> the stack
  of waiting processes and what each owns. \<open>Syscall\<close> is the system call interface (\<open>system/syscall.c\<close>)
  over all of these; \<open>Syscall_Props\<close> says what the enumerating calls store for the caller, \<open>Syscall_Files\<close> (with
  \<open>File_Frame\<close>) what the file calls do with the descriptor table and what a write to the terminal shows. Entering user mode and resuming a saved context are values (\<open>flow\<close>).

  \<^bold>\<open>Bounds and fuel.\<close> A scan of user memory for a terminator has fuel for the whole address space (2 to the 32
  bytes, or 2 to the 30 words): after that it repeats itself, so the code would not end either. All other
  recursions are structural, have a measure, or are partial functions without fuel.

  \<^bold>\<open>Not modelled.\<close> Start-up code and assembly (boot loader entry, GDT, IDT, TSS, interrupt stubs, context switch);
  the order of initialisation in \<open>main.c\<close>; the interrupt controller, timer chip and serial port, which only
  write device registers; the discovery of PCI devices and ACPI tables; the panic screen; VGA graphics modes,
  which nothing reaches; interrupts as concurrent steps (a handler runs to its end, which holds because interrupts
  stay disabled in it). C library and \<open>libsys\<close> wrappers that only pass registers to a system call.
\<close>

end
